(* ===== verification/Prelude.thy ===== *)
theory Prelude
  imports Complex_Main "HOL-Library.Sublist"
begin

text \<open>
  What every component shares: the exceptions of the program as one datatype, state-passing
  actions that may raise, the SQLAlchemy query shapes the repositories use
  (\<open>scalar_one_or_none\<close>, filtered updates, \<open>limit\<close>), and the generic list lemmas the
  component proofs need.
\<close>

section \<open>Exceptions and actions\<close>

text \<open>
  One constructor per exception class the modelled code raises or catches. A payload is kept
  where the code reads it back (the message of a \<open>ValueError\<close>, the status of an
  \<open>HTTPException\<close>).
\<close>

datatype exn =
    ValueError string
  | TypeError string
  | LookupError string
  | IndexError
  | KeyError string
  | AttributeError string
  | AssertionError string
  | RuntimeError string
  | OSError
  | MultipleResultsFound
  | IntegrityError string
  | EvidenceImmutableError string
  | IllegalJobStateTransition string
  | RefreshTokenReuseError string
  | TokenError string
  | AccessDenied string
  | HTTPException nat string
  | SsrfBlocked string
  | FetchError string
  | CollectorError string
  | InvalidTarget string
  | OtherError string

text \<open>The text \<open>f"{type(exc).__name__}: {exc}"\<close> logs and job rows carry.\<close>

fun exn_text :: "exn \<Rightarrow> string" where
  "exn_text (ValueError m) = ''ValueError: '' @ m"
| "exn_text (TypeError m) = ''TypeError: '' @ m"
| "exn_text (LookupError m) = ''LookupError: '' @ m"
| "exn_text IndexError = ''IndexError: ''"
| "exn_text (KeyError m) = ''KeyError: '' @ m"
| "exn_text (AttributeError m) = ''AttributeError: '' @ m"
| "exn_text (AssertionError m) = ''AssertionError: '' @ m"
| "exn_text (RuntimeError m) = ''RuntimeError: '' @ m"
| "exn_text OSError = ''OSError: ''"
| "exn_text MultipleResultsFound = ''MultipleResultsFound: ''"
| "exn_text (IntegrityError m) = ''IntegrityError: '' @ m"
| "exn_text (EvidenceImmutableError m) = ''EvidenceImmutableError: '' @ m"
| "exn_text (IllegalJobStateTransition m) = ''IllegalJobStateTransition: '' @ m"
| "exn_text (RefreshTokenReuseError m) = ''RefreshTokenReuseError: '' @ m"
| "exn_text (TokenError m) = ''TokenError: '' @ m"
| "exn_text (AccessDenied m) = ''AccessDenied: '' @ m"
| "exn_text (HTTPException n m) = ''HTTPException: '' @ m"
| "exn_text (SsrfBlocked m) = ''SsrfBlocked: '' @ m"
| "exn_text (FetchError m) = ''FetchError: '' @ m"
| "exn_text (InvalidTarget m) = ''InvalidTarget: '' @ m"
| "exn_text (CollectorError m) = ''CollectorError: '' @ m"
| "exn_text (OtherError m) = m"

text \<open>\<open>str(exc)\<close>: the message alone.\<close>

fun exn_str :: "exn \<Rightarrow> string" where
  "exn_str (ValueError m) = m"
| "exn_str (TypeError m) = m"
| "exn_str (LookupError m) = m"
| "exn_str (KeyError m) = m"
| "exn_str (AttributeError m) = m"
| "exn_str (AssertionError m) = m"
| "exn_str (RuntimeError m) = m"
| "exn_str (IntegrityError m) = m"
| "exn_str (EvidenceImmutableError m) = m"
| "exn_str (IllegalJobStateTransition m) = m"
| "exn_str (RefreshTokenReuseError m) = m"
| "exn_str (TokenError m) = m"
| "exn_str (AccessDenied m) = m"
| "exn_str (HTTPException n m) = m"
| "exn_str (SsrfBlocked m) = m"
| "exn_str (FetchError m) = m"
| "exn_str (InvalidTarget m) = m"
| "exn_str (CollectorError m) = m"
| "exn_str (OtherError m) = m"
| "exn_str _ = []"

text \<open>
  An action takes the state and returns a value or an exception, with the state as it is at
  that point: an exception does not undo what was written before it. Undoing is what
  \<open>session_scope\<close> does (\<open>database/session.py\<close>): commit on success, rollback on exception.
\<close>

type_synonym ('s, 'a) action = "'s \<Rightarrow> (exn + 'a) \<times> 's"

definition ret :: "'a \<Rightarrow> ('s, 'a) action" where
  "ret x s = (Inr x, s)"

definition throw :: "exn \<Rightarrow> ('s, 'a) action" where
  "throw e s = (Inl e, s)"

definition bnd :: "('s, 'a) action \<Rightarrow> ('a \<Rightarrow> ('s, 'b) action) \<Rightarrow> ('s, 'b) action" where
  "bnd m f s = (case m s of (Inl e, s') \<Rightarrow> (Inl e, s') | (Inr x, s') \<Rightarrow> f x s')"

definition catch :: "('s, 'a) action \<Rightarrow> (exn \<Rightarrow> ('s, 'a) action) \<Rightarrow> ('s, 'a) action" where
  "catch m h s = (case m s of (Inl e, s') \<Rightarrow> h e s' | (Inr x, s') \<Rightarrow> (Inr x, s'))"

text \<open>A computation that only may raise, a loop, and steps on a state paired with a tally.\<close>

definition liftE :: "exn + 'a \<Rightarrow> ('s, 'a) action" where
  "liftE x s = (x, s)"

fun for_each :: "('x \<Rightarrow> ('s, unit) action) \<Rightarrow> 'x list \<Rightarrow> ('s, unit) action" where
  "for_each f [] = ret ()"
| "for_each f (x # xs) = bnd (f x) (\<lambda>_. for_each f xs)"

definition on_fst :: "('s, 'a) action \<Rightarrow> ('s \<times> 't, 'a) action" where
  "on_fst m = (\<lambda>(s, t). case m s of (r, s') \<Rightarrow> (r, (s', t)))"

definition tally :: "('t \<Rightarrow> 't) \<Rightarrow> ('s \<times> 't, unit) action" where
  "tally f = (\<lambda>(s, t). (Inr (), (s, f t)))"

definition session_scope :: "('s, 'a) action \<Rightarrow> ('s, 'a) action" where
  "session_scope m s = (case m s of (Inl e, _) \<Rightarrow> (Inl e, s) | (Inr x, s') \<Rightarrow> (Inr x, s'))"

named_theorems action_simps "unfolding rules of the action combinators"

lemma ret_apply [simp, action_simps]: "ret x s = (Inr x, s)"
  by (simp add: ret_def)

lemma throw_apply [simp, action_simps]: "throw e s = (Inl e, s)"
  by (simp add: throw_def)

lemma bnd_Inr [simp, action_simps]: "m s = (Inr x, s') \<Longrightarrow> bnd m f s = f x s'"
  by (simp add: bnd_def)

lemma bnd_Inl [simp, action_simps]: "m s = (Inl e, s') \<Longrightarrow> bnd m f s = (Inl e, s')"
  by (simp add: bnd_def)

lemma bnd_Inr_iff:
  "bnd m f s = (Inr y, t) \<longleftrightarrow> (\<exists>x s'. m s = (Inr x, s') \<and> f x s' = (Inr y, t))"
  by (auto simp: bnd_def split: prod.splits sum.splits)

lemma session_scope_Inr_iff: "session_scope m s = (Inr x, t) \<longleftrightarrow> m s = (Inr x, t)"
  by (auto simp: session_scope_def split: prod.splits sum.splits)

text \<open>A failed unit of work leaves no trace.\<close>

lemma session_scope_rollback: "session_scope m s = (Inl e, t) \<Longrightarrow> t = s"
  by (auto simp: session_scope_def split: prod.splits sum.splits)

lemma session_scope_Inl_iff:
  "session_scope m s = (Inl e, t) \<longleftrightarrow> t = s \<and> (\<exists>u. m s = (Inl e, u))"
  by (auto simp: session_scope_def split: prod.splits sum.splits)

text \<open>
  An invariant of a state that every action keeps, whatever it returns, is kept by the
  combinators.
\<close>

definition keeps :: "('s \<Rightarrow> bool) \<Rightarrow> ('s, 'a) action \<Rightarrow> bool" where
  "keeps P m \<longleftrightarrow> (\<forall>s. P s \<longrightarrow> P (snd (m s)))"

lemma keepsI: "(\<And>s. P s \<Longrightarrow> P (snd (m s))) \<Longrightarrow> keeps P m"
  by (simp add: keeps_def)

lemma keepsD: "keeps P m \<Longrightarrow> P s \<Longrightarrow> P (snd (m s))"
  by (simp add: keeps_def)

lemma keeps_ret [intro, simp]: "keeps P (ret x)"
  by (simp add: keeps_def)

lemma keeps_throw [intro, simp]: "keeps P (throw e)"
  by (simp add: keeps_def)

lemma keeps_bnd [intro]: "keeps P m \<Longrightarrow> (\<And>x. keeps P (f x)) \<Longrightarrow> keeps P (bnd m f)"
  by (fastforce simp: keeps_def bnd_def split: prod.splits sum.splits)

lemma keeps_catch [intro]: "keeps P m \<Longrightarrow> (\<And>e. keeps P (h e)) \<Longrightarrow> keeps P (catch m h)"
  by (fastforce simp: keeps_def catch_def split: prod.splits sum.splits)

lemma keeps_session_scope [intro]: "keeps P m \<Longrightarrow> keeps P (session_scope m)"
  by (fastforce simp: keeps_def session_scope_def split: prod.splits sum.splits)

section \<open>Query shapes\<close>

text \<open>
  \<open>session.execute(select(M).where(p)).scalar_one_or_none()\<close>: no row is \<open>None\<close>, one row is
  the row, more rows raise \<open>MultipleResultsFound\<close>.
\<close>

definition scalar_one_or_none :: "('r \<Rightarrow> bool) \<Rightarrow> 'r list \<Rightarrow> exn + 'r option" where
  "scalar_one_or_none p t =
     (case filter p t of [] \<Rightarrow> Inr None | [x] \<Rightarrow> Inr (Some x) | _ \<Rightarrow> Inl MultipleResultsFound)"

text \<open>Assigning to attributes of the rows a query selects.\<close>

definition update_where :: "('r \<Rightarrow> bool) \<Rightarrow> ('r \<Rightarrow> 'r) \<Rightarrow> 'r list \<Rightarrow> 'r list" where
  "update_where p f t = map (\<lambda>r. if p r then f r else r) t"

lemma length_update_where [simp]: "length (update_where p f t) = length t"
  by (simp add: update_where_def)

lemma update_where_Nil [simp]: "update_where p f [] = []"
  by (simp add: update_where_def)

lemma update_where_Cons [simp]:
  "update_where p f (r # t) = (if p r then f r else r) # update_where p f t"
  by (simp add: update_where_def)

lemma set_update_where: "set (update_where p f t) = (\<lambda>r. if p r then f r else r) ` set t"
  by (simp add: update_where_def)

lemma map_update_where:
  "(\<And>r. p r \<Longrightarrow> g (f r) = g r) \<Longrightarrow> map g (update_where p f t) = map g t"
  by (simp add: update_where_def)

lemma filter_update_where:
  "(\<And>r. p r \<Longrightarrow> \<not> q r \<and> \<not> q (f r)) \<Longrightarrow> filter q (update_where p f t) = filter q t"
  by (induction t) auto

lemma scalar_one_or_none_None [simp]:
  "scalar_one_or_none p t = Inr None \<longleftrightarrow> (\<forall>r \<in> set t. \<not> p r)"
proof -
  have "scalar_one_or_none p t = Inr None \<longleftrightarrow> filter p t = []"
    by (auto simp: scalar_one_or_none_def split: list.splits)
  then show ?thesis by (auto simp: filter_empty_conv)
qed

lemma scalar_one_or_none_Some:
  "scalar_one_or_none p t = Inr (Some r) \<Longrightarrow> r \<in> set t \<and> p r"
proof -
  assume "scalar_one_or_none p t = Inr (Some r)"
  then have "filter p t = [r]"
    by (auto simp: scalar_one_or_none_def split: list.splits)
  then have "r \<in> set (filter p t)" by simp
  then show ?thesis by simp
qed

lemma filter_distinct_key:
  assumes "distinct (map k t)" and "\<And>r r'. p r \<Longrightarrow> p r' \<Longrightarrow> k r = k r'"
  shows "length (filter p t) \<le> 1"
  using assms(1)
proof (induction t)
  case (Cons a t)
  show ?case
  proof (cases "p a")
    case True
    have "\<not> p r" if "r \<in> set t" for r
    proof
      assume "p r"
      with True assms(2) have "k a = k r" by blast
      with that Cons.prems show False by auto
    qed
    then have "filter p t = []" by (simp add: filter_empty_conv)
    with True show ?thesis by simp
  next
    case False
    with Cons show ?thesis by simp
  qed
qed simp

text \<open>A query on a unique key never raises.\<close>

lemma scalar_one_or_none_key:
  assumes "distinct (map k t)" and "\<And>r r'. p r \<Longrightarrow> p r' \<Longrightarrow> k r = k r'"
  shows "scalar_one_or_none p t = Inr (find p t)"
proof -
  from filter_distinct_key [OF assms] have len: "length (filter p t) \<le> 1" .
  have hd: "find p t = (case filter p t of [] \<Rightarrow> None | x # _ \<Rightarrow> Some x)"
    by (induction t) auto
  show ?thesis
  proof (cases "filter p t")
    case (Cons a as)
    with len show ?thesis by (simp add: scalar_one_or_none_def hd)
  qed (simp add: scalar_one_or_none_def hd)
qed

lemma filter_single: "filter p xs = [u] \<Longrightarrow> u \<in> set xs \<and> p u"
proof -
  assume "filter p xs = [u]"
  then have "u \<in> set (filter p xs)" by simp
  then show ?thesis by simp
qed

lemma filter_replace:
  "filter p xs = [u] \<Longrightarrow> p u' \<Longrightarrow> filter p (map (\<lambda>x. if x = u then u' else x) xs) = [u']"
proof (induction xs)
  case (Cons a xs)
  show ?case
  proof (cases "p a")
    case True
    with Cons.prems have "a = u" "filter p xs = []" by simp_all
    then have "\<forall>x \<in> set xs. \<not> p x \<and> x \<noteq> u"
      using Cons.prems True by (auto simp: filter_empty_conv)
    then have "map (\<lambda>x. if x = u then u' else x) xs = xs" by (auto intro: map_idI)
    with \<open>a = u\<close> \<open>filter p xs = []\<close> Cons.prems show ?thesis by simp
  next
    case False
    with Cons.prems filter_single [of p xs u] have "a \<noteq> u" by auto
    with False Cons show ?thesis by simp
  qed
qed simp

lemma scalar_filter: "scalar_one_or_none p t = Inr (Some r) \<longleftrightarrow> filter p t = [r]"
  by (auto simp: scalar_one_or_none_def split: list.splits)

lemma filter_replace_other:
  "\<not> p u \<Longrightarrow> \<not> p u' \<Longrightarrow> filter p (map (\<lambda>x. if x = u then u' else x) xs) = filter p xs"
  by (induction xs) auto

text \<open>Assigning to the row with a given key replaces that one row.\<close>

lemma update_where_replace:
  assumes "distinct (map k t)" and "r \<in> set t" and "k r' = k r"
  shows "update_where (\<lambda>x. k x = k r') (\<lambda>_. r') t = map (\<lambda>x. if x = r then r' else x) t"
  unfolding update_where_def
  by (rule map_cong) (use assms in \<open>auto simp: distinct_map inj_on_def\<close>)

lemma find_Some_in: "find p xs = Some x \<Longrightarrow> x \<in> set xs \<and> p x"
  by (induction xs) (auto split: if_splits)

lemma find_update_where:
  "(\<And>r. q (f r) = q r) \<Longrightarrow>
   find q (update_where p f t) = map_option (\<lambda>r. if p r then f r else r) (find q t)"
  by (induction t) auto

lemma find_append: "find p (xs @ ys) = (case find p xs of None \<Rightarrow> find p ys | Some x \<Rightarrow> Some x)"
  by (induction xs) auto

section \<open>Clamping\<close>

text \<open>The \<open>max(lo, min(hi, x))\<close> that guards every confidence and progress value.\<close>

definition clamp :: "int \<Rightarrow> int \<Rightarrow> int \<Rightarrow> int" where
  "clamp lo hi x = max lo (min hi x)"

lemma clamp_bounds: "lo \<le> hi \<Longrightarrow> lo \<le> clamp lo hi x \<and> clamp lo hi x \<le> hi"
  by (simp add: clamp_def)

lemma clamp_id: "lo \<le> x \<Longrightarrow> x \<le> hi \<Longrightarrow> clamp lo hi x = x"
  by (simp add: clamp_def)

lemma clamp_0_100 [simp]: "0 \<le> clamp 0 100 x" "clamp 0 100 x \<le> 100"
  by (simp_all add: clamp_def)

section \<open>Loops that may raise\<close>

text \<open>A loop over a list whose body updates a state or raises.\<close>

fun foldE :: "('a \<Rightarrow> 's \<Rightarrow> exn + 's) \<Rightarrow> 'a list \<Rightarrow> 's \<Rightarrow> exn + 's" where
  "foldE f [] s = Inr s"
| "foldE f (x # xs) s = (case f x s of Inl e \<Rightarrow> Inl e | Inr t \<Rightarrow> foldE f xs t)"

lemma foldE_append:
  "foldE f (xs @ ys) s = (case foldE f xs s of Inl e \<Rightarrow> Inl e | Inr t \<Rightarrow> foldE f ys t)"
  by (induction xs arbitrary: s) (auto split: sum.splits)

lemma foldE_Cons_Inr: "foldE f (x # xs) s = Inr t \<longleftrightarrow> (\<exists>u. f x s = Inr u \<and> foldE f xs u = Inr t)"
  by (cases "f x s") auto

lemma foldE_inv:
  "foldE f xs s = Inr t \<Longrightarrow> P s \<Longrightarrow> (\<And>x s t. x \<in> set xs \<Longrightarrow> f x s = Inr t \<Longrightarrow> P s \<Longrightarrow> P t) \<Longrightarrow> P t"
  by (induction xs arbitrary: s) (auto split: sum.splits, blast)

text \<open>What an element of the list achieved, if later rounds keep it.\<close>

lemma foldE_reaches:
  assumes "foldE f xs s = Inr t" and "x \<in> set xs"
    and "\<And>s t. f x s = Inr t \<Longrightarrow> Q t" and "\<And>y s t. f y s = Inr t \<Longrightarrow> Q s \<Longrightarrow> Q t"
  shows "Q t"
  using assms(1,2)
proof (induction xs arbitrary: s)
  case (Cons y ys)
  from Cons.prems(1) obtain u where u: "f y s = Inr u" "foldE f ys u = Inr t" by (auto split: sum.splits)
  show ?case
  proof (cases "x \<in> set ys")
    case True with Cons.IH [OF u(2)] show ?thesis by blast
  next
    case False
    with Cons.prems(2) u(1) assms(3) have "Q u" by auto
    with u(2) show ?thesis by (rule foldE_inv) (use assms(4) in blast)
  qed
qed simp

end
