(* ===== verification/PyStr.thy ===== *)
theory PyStr
  imports Prelude
begin

text \<open>
  The string operations of Python the program uses, on \<^typ>\<open>string\<close>. A \<^typ>\<open>char\<close> stands
  for a code point below 256, so the texts of the model are the Latin-1 strings; on those the
  functions below agree with \<open>str\<close> of Python 3.12 (\<open>isspace\<close>, \<open>isdigit\<close> and \<open>isalnum\<close>
  include the Latin-1 characters Python counts: no-break space, superscript digits, vulgar
  fractions, accented letters).
\<close>

section \<open>Character classes\<close>

definition code :: "char \<Rightarrow> nat" where
  "code c = of_char c"

definition is_space :: "char \<Rightarrow> bool" where
  "is_space c \<longleftrightarrow> (let n = code c in (9 \<le> n \<and> n \<le> 13) \<or> (28 \<le> n \<and> n \<le> 32) \<or> n = 133 \<or> n = 160)"

definition is_upper_az :: "char \<Rightarrow> bool" where
  "is_upper_az c \<longleftrightarrow> 65 \<le> code c \<and> code c \<le> 90"

definition is_lower_az :: "char \<Rightarrow> bool" where
  "is_lower_az c \<longleftrightarrow> 97 \<le> code c \<and> code c \<le> 122"

definition is_alpha_az :: "char \<Rightarrow> bool" where
  "is_alpha_az c \<longleftrightarrow> is_upper_az c \<or> is_lower_az c"

definition is_decimal :: "char \<Rightarrow> bool" where
  "is_decimal c \<longleftrightarrow> 48 \<le> code c \<and> code c \<le> 57"

text \<open>\<open>str.isdigit\<close> also accepts the superscripts two, three and one.\<close>

definition is_digit_char :: "char \<Rightarrow> bool" where
  "is_digit_char c \<longleftrightarrow> is_decimal c \<or> code c = 178 \<or> code c = 179 \<or> code c = 185"

text \<open>\<open>\w\<close> of a \<open>str\<close> pattern: \<open>isalnum\<close> or the underscore.\<close>

definition is_word :: "char \<Rightarrow> bool" where
  "is_word c \<longleftrightarrow> is_alpha_az c \<or> is_digit_char c \<or> code c = 95 \<or>
     code c \<in> {170, 181, 186, 188, 189, 190} \<or>
     (192 \<le> code c \<and> code c \<noteq> 215 \<and> code c \<noteq> 247)"

section \<open>Case\<close>

definition has_lower :: "char \<Rightarrow> bool" where
  "has_lower c \<longleftrightarrow> is_upper_az c \<or> (192 \<le> code c \<and> code c \<le> 222 \<and> code c \<noteq> 215)"

definition lower_char :: "char \<Rightarrow> char" where
  "lower_char c = (if has_lower c then char_of (code c + 32) else c)"

definition lower :: "string \<Rightarrow> string" where
  "lower s = map lower_char s"

text \<open>
  \<open>upper\<close>: the sharp s becomes two letters; the micro sign and y with diaeresis leave
  Latin-1 in Python and are left alone here (no modelled path reaches them).
\<close>

definition upper_char :: "char \<Rightarrow> string" where
  "upper_char c =
     (if is_lower_az c \<or> (224 \<le> code c \<and> code c \<le> 254 \<and> code c \<noteq> 247)
      then [char_of (code c - 32)]
      else if code c = 223 then ''SS'' else [c])"

definition upper :: "string \<Rightarrow> string" where
  "upper s = concat (map upper_char s)"

section \<open>Stripping, splitting, searching\<close>

definition lstrip_by :: "(char \<Rightarrow> bool) \<Rightarrow> string \<Rightarrow> string" where
  "lstrip_by p s = dropWhile p s"

definition rstrip_by :: "(char \<Rightarrow> bool) \<Rightarrow> string \<Rightarrow> string" where
  "rstrip_by p s = rev (dropWhile p (rev s))"

definition strip_by :: "(char \<Rightarrow> bool) \<Rightarrow> string \<Rightarrow> string" where
  "strip_by p s = rstrip_by p (lstrip_by p s)"

definition strip :: "string \<Rightarrow> string" where
  "strip s = strip_by is_space s"

text \<open>\<open>s.split(c)[0]\<close>: the part before the first \<open>c\<close>.\<close>

definition before_char :: "char \<Rightarrow> string \<Rightarrow> string" where
  "before_char c s = takeWhile (\<lambda>x. x \<noteq> c) s"

text \<open>\<open>s.partition(c)\<close> for a one-character separator: before, separator found, after.\<close>

definition partition_char :: "char \<Rightarrow> string \<Rightarrow> string \<times> bool \<times> string" where
  "partition_char c s =
     (let a = takeWhile (\<lambda>x. x \<noteq> c) s; r = dropWhile (\<lambda>x. x \<noteq> c) s
      in (a, r \<noteq> [], drop 1 r))"

text \<open>\<open>s.rpartition(c)[2]\<close> and \<open>s.rsplit(c, 1)[-1]\<close>: the part after the last \<open>c\<close>.\<close>

definition after_last :: "char \<Rightarrow> string \<Rightarrow> string" where
  "after_last c s = rev (takeWhile (\<lambda>x. x \<noteq> c) (rev s))"

text \<open>\<open>s.split(c)\<close> for a one-character separator: never empty.\<close>

fun split_char :: "char \<Rightarrow> string \<Rightarrow> string list" where
  "split_char c [] = [[]]"
| "split_char c (x # xs) =
     (if x = c then [] # split_char c xs
      else (case split_char c xs of [] \<Rightarrow> [[x]] | w # ws \<Rightarrow> (x # w) # ws))"

text \<open>\<open>sub in s\<close> and \<open>s.split(sub, 1)[1]\<close> where \<open>sub\<close> occurs.\<close>

fun contains :: "string \<Rightarrow> string \<Rightarrow> bool" where
  "contains sub [] \<longleftrightarrow> sub = []"
| "contains sub (x # xs) \<longleftrightarrow> prefix sub (x # xs) \<or> contains sub xs"

fun after_first :: "string \<Rightarrow> string \<Rightarrow> string option" where
  "after_first sub [] = (if sub = [] then Some [] else None)"
| "after_first sub (x # xs) =
     (if prefix sub (x # xs) then Some (drop (length sub) (x # xs)) else after_first sub xs)"

fun join :: "string \<Rightarrow> string list \<Rightarrow> string" where
  "join sep [] = []"
| "join sep [w] = w"
| "join sep (w # v # ws) = w @ sep @ join sep (v # ws)"

text \<open>\<open>s.split()\<close> without a separator: the non-empty runs of non-space characters.\<close>

fun words_acc :: "string \<Rightarrow> string \<Rightarrow> string list" where
  "words_acc w [] = (if w = [] then [] else [rev w])"
| "words_acc w (c # cs) =
     (if is_space c then (if w = [] then words_acc [] cs else rev w # words_acc [] cs)
      else words_acc (c # w) cs)"

definition py_words :: "string \<Rightarrow> string list" where
  "py_words s = words_acc [] s"

section \<open>Numbers\<close>

definition isdigit :: "string \<Rightarrow> bool" where
  "isdigit s \<longleftrightarrow> s \<noteq> [] \<and> list_all is_digit_char s"

definition dec_value :: "string \<Rightarrow> nat" where
  "dec_value s = foldl (\<lambda>a c. 10 * a + (code c - 48)) 0 s"

text \<open>
  The digits of an \<open>int\<close> literal may carry single underscores between digits; the text
  around is stripped; a superscript digit is refused although \<open>isdigit\<close> accepts it.
\<close>

fun digits_ok :: "string \<Rightarrow> bool" where
  "digits_ok [] = False"
| "digits_ok [c] = is_decimal c"
| "digits_ok (c # d # cs) =
     (is_decimal c \<and> (if d = CHR ''_'' then digits_ok cs else digits_ok (d # cs)))"

definition unsign :: "string \<Rightarrow> bool \<times> string" where
  "unsign s = (case s of [] \<Rightarrow> (False, [])
     | c # cs \<Rightarrow> if c = CHR ''-'' then (True, cs) else if c = CHR ''+'' then (False, cs) else (False, s))"

definition int_of_str :: "string \<Rightarrow> exn + int" where
  "int_of_str s =
     (let (neg, ds) = unsign (strip s) in
      if digits_ok ds
      then (let n = int (dec_value (filter (\<lambda>c. c \<noteq> CHR ''_'') ds)) in Inr (if neg then - n else n))
      else Inl (ValueError ''invalid literal for int()''))"

fun show_nat :: "nat \<Rightarrow> string" where
  "show_nat n = (if n < 10 then [char_of (48 + n)] else show_nat (n div 10) @ [char_of (48 + n mod 10)])"

declare show_nat.simps [simp del]

definition show_int :: "int \<Rightarrow> string" where
  "show_int i = (if i < 0 then CHR ''-'' # show_nat (nat (- i)) else show_nat (nat i))"

section \<open>Lemmas\<close>

lemma code_less [simp]: "code c < 256"
  by (simp add: code_def)

lemma code_char_of [simp]: "n < 256 \<Longrightarrow> code (char_of n) = n"
  by (simp add: code_def)

lemma char_of_code [simp]: "char_of (code c) = c"
  by (simp add: code_def)

lemma code_eq_iff: "code a = code b \<longleftrightarrow> a = b"
  by (simp add: code_def)

lemma has_lower_lower_char [simp]: "\<not> has_lower (lower_char c)"
  by (auto simp: has_lower_def lower_char_def is_upper_az_def)

lemma lower_char_idem [simp]: "lower_char (lower_char c) = lower_char c"
  using has_lower_lower_char [of c] unfolding lower_char_def [of "lower_char c"] by simp

lemma lower_idem [simp]: "lower (lower s) = lower s"
  by (simp add: lower_def comp_def)

lemma length_lower [simp]: "length (lower s) = length s"
  by (simp add: lower_def)

lemma lower_Nil [simp]: "lower [] = []"
  by (simp add: lower_def)

lemma lower_append [simp]: "lower (s @ t) = lower s @ lower t"
  by (simp add: lower_def)

lemma rstrip_by_last: "rstrip_by p s \<noteq> [] \<Longrightarrow> \<not> p (last (rstrip_by p s))"
  using hd_dropWhile [of p "rev s"] by (auto simp: rstrip_by_def last_rev)

lemma lstrip_by_hd: "lstrip_by p s \<noteq> [] \<Longrightarrow> \<not> p (hd (lstrip_by p s))"
  by (simp add: lstrip_by_def hd_dropWhile)

lemma rstrip_by_prefix: "prefix (rstrip_by p s) s"
  unfolding rstrip_by_def
  by (metis prefixI rev_append rev_rev_ident takeWhile_dropWhile_id)

lemma rstrip_by_id: "s = [] \<or> \<not> p (last s) \<Longrightarrow> rstrip_by p s = s"
  by (cases s rule: rev_cases) (auto simp: rstrip_by_def)

lemma lstrip_by_id: "s = [] \<or> \<not> p (hd s) \<Longrightarrow> lstrip_by p s = s"
  by (cases s) (auto simp: lstrip_by_def)

lemma strip_by_hd:
  assumes "strip_by p s \<noteq> []" shows "\<not> p (hd (strip_by p s))"
proof -
  obtain z where z: "lstrip_by p s = strip_by p s @ z"
    using rstrip_by_prefix [of p "lstrip_by p s"] by (auto simp: strip_by_def prefix_def)
  then have "hd (lstrip_by p s) = hd (strip_by p s)"
    using assms by (simp add: hd_append)
  then show ?thesis using assms z lstrip_by_hd [of p s] by auto
qed

lemma strip_by_idem [simp]: "strip_by p (strip_by p s) = strip_by p s"
proof -
  have "lstrip_by p (strip_by p s) = strip_by p s"
    using strip_by_hd [of p s] by (intro lstrip_by_id) auto
  moreover have "rstrip_by p (strip_by p s) = strip_by p s"
    unfolding strip_by_def using rstrip_by_last [of p "lstrip_by p s"]
    by (intro rstrip_by_id) auto
  ultimately show ?thesis by (simp add: strip_by_def)
qed

lemma strip_idem [simp]: "strip (strip s) = strip s"
  by (simp add: strip_def)

lemma set_strip_by: "set (strip_by p s) \<subseteq> set s"
  unfolding strip_by_def rstrip_by_def lstrip_by_def
  by (metis set_dropWhileD set_rev subsetI)

lemma strip_by_id: "s = [] \<or> (\<not> p (hd s) \<and> \<not> p (last s)) \<Longrightarrow> strip_by p s = s"
  unfolding strip_by_def by (metis lstrip_by_id rstrip_by_id)

lemma strip_no_space: "list_all (\<lambda>c. \<not> is_space c) s \<Longrightarrow> strip s = s"
  unfolding strip_def by (rule strip_by_id) (cases s rule: rev_cases; auto simp: list_all_iff hd_append)

lemma before_char_notin: "c \<notin> set (before_char c s)"
  by (auto simp: before_char_def dest: set_takeWhileD)

lemma before_char_id: "c \<notin> set s \<Longrightarrow> before_char c s = s"
  unfolding before_char_def by (rule takeWhile_eq_all_conv [THEN iffD2]) auto

lemma split_char_not_Nil [simp]: "split_char c s \<noteq> []"
  by (induction s) (auto split: list.splits)

lemma split_char_no_sep: "\<forall>w \<in> set (split_char c s). c \<notin> set w"
proof (induction s)
  case (Cons x xs)
  then show ?case by (cases "split_char c xs") auto
qed simp

lemma split_char_id: "c \<notin> set s \<Longrightarrow> split_char c s = [s]"
  by (induction s) auto

lemma split_char_append: "c \<notin> set w \<Longrightarrow> split_char c (w @ c # s) = w # split_char c s"
  by (induction w) auto

lemma join_split_char: "join [c] (split_char c s) = s"
proof (induction s)
  case (Cons x xs)
  then obtain w ws where w: "split_char c xs = w # ws" by (cases "split_char c xs") auto
  from Cons w show ?case by (cases ws) auto
qed simp

lemma contains_prefix: "prefix sub s \<Longrightarrow> contains sub s"
  by (cases s) auto

lemma contains_append: "contains sub (a @ sub @ b)"
proof (induction a)
  case Nil
  show ?case by (rule contains_prefix) simp
qed auto

lemma contains_iff: "contains sub s \<longleftrightarrow> (\<exists>a b. s = a @ sub @ b)"
proof
  show "contains sub s \<Longrightarrow> \<exists>a b. s = a @ sub @ b"
  proof (induction s)
    case (Cons x xs)
    show ?case
    proof (cases "prefix sub (x # xs)")
      case True
      then obtain b where "x # xs = sub @ b" by (auto simp: prefix_def)
      then show ?thesis by (metis append_Nil)
    next
      case False
      with Cons obtain a b where "xs = a @ sub @ b" by auto
      then show ?thesis by (metis append_Cons)
    qed
  qed simp
qed (auto simp: contains_append)

lemma foldl_dec: "foldl (\<lambda>a c. 10 * a + (code c - 48)) n s = n * 10 ^ length s + dec_value s"
proof (induction s arbitrary: n)
  case Nil
  then show ?case by (simp add: dec_value_def)
next
  case (Cons c s)
  have "dec_value (c # s) = (code c - 48) * 10 ^ length s + dec_value s"
    using Cons.IH [of "code c - 48"] by (simp add: dec_value_def)
  then show ?case
    using Cons.IH [of "10 * n + (code c - 48)"] by (simp add: algebra_simps)
qed

lemma dec_value_append: "dec_value (s @ t) = dec_value s * 10 ^ length t + dec_value t"
  by (simp add: dec_value_def) (simp add: foldl_dec)

lemma dec_value_show_nat: "dec_value (show_nat n) = n"
proof (induction n rule: show_nat.induct)
  case (1 n)
  show ?case
  proof (cases "n < 10")
    case True
    then show ?thesis by (subst show_nat.simps) (simp add: dec_value_def)
  next
    case False
    then show ?thesis
      using 1 by (subst show_nat.simps) (simp add: dec_value_append, simp add: dec_value_def)
  qed
qed

lemma show_nat_decimal: "list_all is_decimal (show_nat n)"
proof (induction n rule: show_nat.induct)
  case (1 n)
  have dig: "is_decimal (char_of (48 + k))" if "k < 10" for k :: nat
    using that by (simp add: is_decimal_def)
  from 1 show ?case
    by (subst show_nat.simps) (simp add: dig)
qed

lemma show_nat_not_Nil [simp]: "show_nat n \<noteq> []"
  by (subst show_nat.simps) simp

lemma decimal_not_underscore: "is_decimal c \<Longrightarrow> c \<noteq> CHR ''_''"
  by (auto simp: is_decimal_def code_def)

lemma decimal_not_space: "is_decimal c \<Longrightarrow> \<not> is_space c"
  by (auto simp: is_decimal_def is_space_def Let_def)

lemma minus_not_space: "\<not> is_space (CHR ''-'')"
  by (simp add: is_space_def code_def)

lemma digits_ok_decimal: "list_all is_decimal s \<Longrightarrow> s \<noteq> [] \<Longrightarrow> digits_ok s"
  by (induction s rule: digits_ok.induct) (auto dest: decimal_not_underscore)

lemma isdigit_decimal: "list_all is_decimal s \<Longrightarrow> s \<noteq> [] \<Longrightarrow> isdigit s"
  by (auto simp: isdigit_def list_all_iff is_digit_char_def)

lemma filter_underscore_decimal:
  "list_all is_decimal s \<Longrightarrow> filter (\<lambda>c. c \<noteq> CHR ''_'') s = s"
  by (auto simp: list_all_iff filter_id_conv dest: decimal_not_underscore)

lemma int_of_str_decimal:
  assumes "list_all is_decimal s" and "s \<noteq> []"
  shows "int_of_str s = Inr (int (dec_value s))"
proof -
  have "list_all (\<lambda>c. \<not> is_space c) s"
    using assms(1) by (auto simp: list_all_iff dest: decimal_not_space)
  then have "strip s = s" by (rule strip_no_space)
  moreover have "unsign s = (False, s)"
    using assms by (cases s) (auto simp: unsign_def is_decimal_def code_def)
  ultimately show ?thesis
    using assms by (simp add: int_of_str_def digits_ok_decimal filter_underscore_decimal)
qed

text \<open>Printing a number and reading it back.\<close>

lemma int_of_str_show_nat: "int_of_str (show_nat n) = Inr (int n)"
  using int_of_str_decimal [OF show_nat_decimal [of n]] by (simp add: dec_value_show_nat)

lemma int_of_str_show_int: "int_of_str (show_int i) = Inr i"
proof (cases "i < 0")
  case True
  let ?s = "show_nat (nat (- i))"
  have dec: "list_all is_decimal ?s" by (rule show_nat_decimal)
  have "list_all (\<lambda>c. \<not> is_space c) (CHR ''-'' # ?s)"
    using dec by (simp add: list_all_iff minus_not_space decimal_not_space)
  then have "strip (CHR ''-'' # ?s) = CHR ''-'' # ?s" by (rule strip_no_space)
  moreover have "digits_ok ?s" using dec by (simp add: digits_ok_decimal)
  ultimately show ?thesis
    using True dec
    by (simp add: show_int_def int_of_str_def unsign_def filter_underscore_decimal dec_value_show_nat)
next
  case False
  then show ?thesis by (simp add: show_int_def int_of_str_show_nat)
qed

section \<open>LIKE\<close>

text \<open>The SQL pattern match: a percent sign stands for any text, an underscore for any character.\<close>

fun like :: "string \<Rightarrow> string \<Rightarrow> bool" where
  "like [] s = (s = [])"
| "like (c # p) [] = (c = CHR ''%'' \<and> like p [])"
| "like (c # p) (x # s) =
     (if c = CHR ''%'' then like p (x # s) \<or> like (c # p) s else (c = CHR ''_'' \<or> c = x) \<and> like p s)"

lemma like_percent: "like (CHR ''%'' # p) s \<longleftrightarrow> (\<exists>a b. s = a @ b \<and> like p b)"
proof (induction s)
  case (Cons x s)
  have "(\<exists>a b. x # s = a @ b \<and> like p b) \<longleftrightarrow> like p (x # s) \<or> (\<exists>a b. s = a @ b \<and> like p b)"
    by (metis append_Cons append_Nil list.exhaust list.inject)
  with Cons show ?case by simp
qed simp

lemma like_literal: "CHR ''%'' \<notin> set p \<Longrightarrow> CHR ''_'' \<notin> set p \<Longrightarrow> like (p @ ''%'') s \<longleftrightarrow> prefix p s"
proof (induction p arbitrary: s)
  case Nil
  show ?case using like_percent [of "[]" s] by simp
next
  case (Cons c p)
  then show ?case by (cases s) auto
qed

end
