(* ===== verification/Types.thy ===== *)
theory Types
  imports PyStr
begin

text \<open>
  The enums of \<open>database/types.py\<close> and the job states of \<open>database/models/job.py\<close>. They are
  string enums: the value functions give the stored text, which is what appears inside
  graph references and rendered rows; decoding a stored text is their inverse.
\<close>

datatype role = R_USER | R_ANALYST | R_ADMIN

datatype source_type =
    S_TELEGRAM_BOT_API | S_TELEGRAM_PUBLIC | S_TELEGRAM_OPERATOR | S_GITHUB | S_REDDIT | S_X
  | S_INSTAGRAM | S_YOUTUBE | S_TIKTOK | S_WEB | S_FORUM | S_MANUAL

datatype entity_type =
    E_TARGET | E_TELEGRAM_ACCOUNT | E_TELEGRAM_GROUP | E_TELEGRAM_CHANNEL | E_MESSAGE | E_USERNAME
  | E_EXTERNAL_ACCOUNT | E_DOMAIN | E_URL | E_IP | E_IOC | E_REPORT

datatype rel_type =
    USER_HAS_USERNAME | USERNAME_FOUND_ON | USER_POSTED_MESSAGE | MESSAGE_IN_CHANNEL
  | MESSAGE_IN_GROUP | MESSAGE_CONTAINS_DOMAIN | MESSAGE_CONTAINS_IP | MESSAGE_CONTAINS_URL
  | MESSAGE_CONTAINS_IOC | MESSAGE_MENTIONS_USERNAME | MESSAGE_FORWARDED_FROM
  | ACCOUNT_LINKED_TO_WEBSITE | ACCOUNT_MENTIONS_USER | ACCOUNT_POSSIBLY_SAME_AS
  | ACCOUNT_MEMBER_OF_GROUP | DOMAIN_REFERENCED_BY_ACCOUNT | DOMAIN_RESOLVES_TO_IP
  | URL_HAS_DOMAIN | TARGET_IS_ACCOUNT | TARGET_HAS_USERNAME

datatype ioc_type =
    IPV4 | IPV6 | IOC_DOMAIN | IOC_URL | IOC_EMAIL | MD5 | SHA1 | SHA256 | CVE
  | TELEGRAM_USERNAME | TELEGRAM_URL

datatype target_kind = K_TELEGRAM_USER | K_TELEGRAM_ID | K_USERNAME | K_DOMAIN | K_EMAIL | K_PHONE | K_GENERIC

datatype search_kind =
    SK_USERNAME | SK_TELEGRAM_ID | SK_KEYWORD | SK_DOMAIN | SK_URL | SK_EMAIL | SK_IP | SK_IOC
  | SK_GROUP | SK_CHANNEL

datatype task_status = T_PENDING | T_RUNNING | T_COMPLETED | T_FAILED | T_CANCELLED

fun task_is_terminal :: "task_status \<Rightarrow> bool" where
  "task_is_terminal s \<longleftrightarrow> s \<in> {T_COMPLETED, T_FAILED, T_CANCELLED}"

datatype assertion = FACT | INFERENCE | UNKNOWN_CLAIM

datatype investigation_status = I_QUEUED | I_RUNNING | I_COMPLETED | I_FAILED | I_CANCELLED

fun inv_is_terminal :: "investigation_status \<Rightarrow> bool" where
  "inv_is_terminal s \<longleftrightarrow> s \<in> {I_COMPLETED, I_FAILED, I_CANCELLED}"

datatype observation_type = AUTHOR | MENTION | REPLY | REFERENCE | UNKNOWN

datatype resource_kind = RK_CHANNEL | RK_GROUP | RK_PROFILE | RK_WEB

datatype job_state = PENDING | RUNNING | COMPLETED | FAILED | CANCELLED

fun is_terminal :: "job_state \<Rightarrow> bool" where
  "is_terminal s \<longleftrightarrow> s \<in> {COMPLETED, FAILED, CANCELLED}"

definition clamp_confidence :: "int \<Rightarrow> int" where
  "clamp_confidence v = max 0 (min 100 v)"

section \<open>Stored values\<close>

fun role_value :: "role \<Rightarrow> string" where
  "role_value R_USER = ''USER''"
| "role_value R_ANALYST = ''ANALYST''"
| "role_value R_ADMIN = ''ADMIN''"

fun entity_value :: "entity_type \<Rightarrow> string" where
  "entity_value E_TARGET = ''target''"
| "entity_value E_TELEGRAM_ACCOUNT = ''telegram_account''"
| "entity_value E_TELEGRAM_GROUP = ''telegram_group''"
| "entity_value E_TELEGRAM_CHANNEL = ''telegram_channel''"
| "entity_value E_MESSAGE = ''message''"
| "entity_value E_USERNAME = ''username''"
| "entity_value E_EXTERNAL_ACCOUNT = ''external_account''"
| "entity_value E_DOMAIN = ''domain''"
| "entity_value E_URL = ''url''"
| "entity_value E_IP = ''ip''"
| "entity_value E_IOC = ''ioc''"
| "entity_value E_REPORT = ''report''"

definition all_entity_types :: "entity_type list" where
  "all_entity_types = [E_TARGET, E_TELEGRAM_ACCOUNT, E_TELEGRAM_GROUP, E_TELEGRAM_CHANNEL,
     E_MESSAGE, E_USERNAME, E_EXTERNAL_ACCOUNT, E_DOMAIN, E_URL, E_IP, E_IOC, E_REPORT]"

text \<open>\<open>EntityType(v)\<close>: the member with that value, or a \<open>ValueError\<close>.\<close>

definition entity_of_value :: "string \<Rightarrow> exn + entity_type" where
  "entity_of_value v = (case find (\<lambda>e. entity_value e = v) all_entity_types of
     Some e \<Rightarrow> Inr e | None \<Rightarrow> Inl (ValueError ''not a valid EntityType''))"

fun ioc_value :: "ioc_type \<Rightarrow> string" where
  "ioc_value IPV4 = ''ipv4''"
| "ioc_value IPV6 = ''ipv6''"
| "ioc_value IOC_DOMAIN = ''domain''"
| "ioc_value IOC_URL = ''url''"
| "ioc_value IOC_EMAIL = ''email''"
| "ioc_value MD5 = ''md5''"
| "ioc_value SHA1 = ''sha1''"
| "ioc_value SHA256 = ''sha256''"
| "ioc_value CVE = ''cve''"
| "ioc_value TELEGRAM_USERNAME = ''telegram_username''"
| "ioc_value TELEGRAM_URL = ''telegram_url''"

fun rel_value :: "rel_type \<Rightarrow> string" where
  "rel_value USER_HAS_USERNAME = ''USER_HAS_USERNAME''"
| "rel_value USERNAME_FOUND_ON = ''USERNAME_FOUND_ON''"
| "rel_value USER_POSTED_MESSAGE = ''USER_POSTED_MESSAGE''"
| "rel_value MESSAGE_IN_CHANNEL = ''MESSAGE_IN_CHANNEL''"
| "rel_value MESSAGE_IN_GROUP = ''MESSAGE_IN_GROUP''"
| "rel_value MESSAGE_CONTAINS_DOMAIN = ''MESSAGE_CONTAINS_DOMAIN''"
| "rel_value MESSAGE_CONTAINS_IP = ''MESSAGE_CONTAINS_IP''"
| "rel_value MESSAGE_CONTAINS_URL = ''MESSAGE_CONTAINS_URL''"
| "rel_value MESSAGE_CONTAINS_IOC = ''MESSAGE_CONTAINS_IOC''"
| "rel_value MESSAGE_MENTIONS_USERNAME = ''MESSAGE_MENTIONS_USERNAME''"
| "rel_value MESSAGE_FORWARDED_FROM = ''MESSAGE_FORWARDED_FROM''"
| "rel_value ACCOUNT_LINKED_TO_WEBSITE = ''ACCOUNT_LINKED_TO_WEBSITE''"
| "rel_value ACCOUNT_MENTIONS_USER = ''ACCOUNT_MENTIONS_USER''"
| "rel_value ACCOUNT_POSSIBLY_SAME_AS = ''ACCOUNT_POSSIBLY_SAME_AS''"
| "rel_value ACCOUNT_MEMBER_OF_GROUP = ''ACCOUNT_MEMBER_OF_GROUP''"
| "rel_value DOMAIN_REFERENCED_BY_ACCOUNT = ''DOMAIN_REFERENCED_BY_ACCOUNT''"
| "rel_value DOMAIN_RESOLVES_TO_IP = ''DOMAIN_RESOLVES_TO_IP''"
| "rel_value URL_HAS_DOMAIN = ''URL_HAS_DOMAIN''"
| "rel_value TARGET_IS_ACCOUNT = ''TARGET_IS_ACCOUNT''"
| "rel_value TARGET_HAS_USERNAME = ''TARGET_HAS_USERNAME''"

fun job_state_value :: "job_state \<Rightarrow> string" where
  "job_state_value PENDING = ''PENDING''"
| "job_state_value RUNNING = ''RUNNING''"
| "job_state_value COMPLETED = ''COMPLETED''"
| "job_state_value FAILED = ''FAILED''"
| "job_state_value CANCELLED = ''CANCELLED''"

text \<open>Reading a stored entity type back gives the member that was stored.\<close>

lemma entity_of_value_roundtrip: "entity_of_value (entity_value e) = Inr e"
  by (cases e) (simp_all add: entity_of_value_def all_entity_types_def)

lemma entity_value_inject: "entity_value a = entity_value b \<longleftrightarrow> a = b"
  by (metis entity_of_value_roundtrip sum.inject(2))

text \<open>
  Python compares string enums by their value, so IOC types are ordered alphabetically. The
  rank below is the position in that order.
\<close>

fun ioc_rank :: "ioc_type \<Rightarrow> nat" where
  "ioc_rank CVE = 0"
| "ioc_rank IOC_DOMAIN = 1"
| "ioc_rank IOC_EMAIL = 2"
| "ioc_rank IPV4 = 3"
| "ioc_rank IPV6 = 4"
| "ioc_rank MD5 = 5"
| "ioc_rank SHA1 = 6"
| "ioc_rank SHA256 = 7"
| "ioc_rank TELEGRAM_URL = 8"
| "ioc_rank TELEGRAM_USERNAME = 9"
| "ioc_rank IOC_URL = 10"

lemma ioc_rank_inject: "ioc_rank a = ioc_rank b \<longleftrightarrow> a = b"
  by (cases a; cases b) simp_all

instantiation ioc_type :: linorder
begin

definition less_eq_ioc_type :: "ioc_type \<Rightarrow> ioc_type \<Rightarrow> bool" where
  "less_eq_ioc_type a b \<longleftrightarrow> ioc_rank a \<le> ioc_rank b"

definition less_ioc_type :: "ioc_type \<Rightarrow> ioc_type \<Rightarrow> bool" where
  "less_ioc_type a b \<longleftrightarrow> ioc_rank a < ioc_rank b"

instance
  by standard (auto simp: less_eq_ioc_type_def less_ioc_type_def ioc_rank_inject)

end

section \<open>JSON values\<close>

text \<open>
  What \<open>json.dumps\<close> and \<open>json.loads\<close> carry between the columns named \<open>*_json\<close> and the code.
  The columns hold the value itself: the text form matters only where it is hashed.
\<close>

datatype json =
    JNull
  | JBool bool
  | JInt int
  | JStr string
  | JList "json list"
  | JObj "(string \<times> json) list"

definition json_get :: "string \<Rightarrow> json \<Rightarrow> json option" where
  "json_get k j = (case j of JObj kvs \<Rightarrow> map_of kvs k | _ \<Rightarrow> None)"

end
