(* ===== verification/Models.thy ===== *)
theory Models
  imports Types
begin

text \<open>
  The tables of \<open>database/models/\<close>: one record per model with the columns the program reads or
  writes, and the record \<open>db\<close> of all tables. A table is the list of its rows in insertion
  order. Primary keys are drawn from the counter \<open>next_id\<close>, which stands for \<open>uuid4\<close> (a key
  never drawn before); \<open>now\<close> is what \<open>utcnow()\<close> and the server default read. A column that
  holds JSON text holds the value.
\<close>

type_synonym uid = nat
type_synonym time = int

definition uid_text :: "uid \<Rightarrow> string" where
  "uid_text i = show_nat i"

text \<open>\<open>database/models/user.py\<close>\<close>

record user =
  u_id :: uid
  u_email :: string
  u_display_name :: "string option"
  u_role :: role
  u_is_active :: bool
  u_hashed_password :: "string option"
  u_telegram_user_id :: "int option"
  u_free_actions_used :: nat
  u_invited_by :: "int option"

text \<open>\<open>database/models/job.py\<close>\<close>

record job =
  job_id :: uid
  job_kind :: string
  job_st :: job_state
  job_requested_by :: "string option"
  job_params :: json
  job_result :: "json option"
  job_progress :: int
  job_error :: "string option"
  job_retry_count :: nat
  job_max_retries :: nat
  job_started_at :: "time option"
  job_completed_at :: "time option"
  job_created_at :: time

text \<open>\<open>database/models/target.py\<close>, \<open>watchlist.py\<close>, \<open>search.py\<close>, \<open>report.py\<close>\<close>

record target =
  tg_id :: uid
  tg_user_id :: uid
  tg_kind :: target_kind
  tg_value :: string
  tg_norm :: string
  tg_label :: "string option"
  tg_deleted_at :: "time option"
  tg_created_at :: time

record watchlist =
  w_id :: uid
  w_user_id :: uid
  w_target_id :: "uid option"
  w_kind :: target_kind
  w_value :: string
  w_norm :: string
  w_sources :: "string list option"
  w_is_active :: bool
  w_last_checked_at :: "time option"
  w_marker :: "json option"
  w_created_at :: time

record search =
  se_id :: uid
  se_user_id :: uid
  se_target_id :: "uid option"
  se_kind :: search_kind
  se_query :: string
  se_filters :: "json option"
  se_status :: task_status
  se_result_count :: nat
  se_job_id :: "uid option"
  se_completed_at :: "time option"
  se_created_at :: time

record search_result =
  sr_id :: uid
  sr_search_id :: uid
  sr_entity_type :: entity_type
  sr_entity_id :: uid
  sr_rank :: int
  sr_score :: rat
  sr_snippet :: "string option"
  sr_matched_terms :: "string list option"
  sr_evidence_id :: "uid option"

record report =
  rp_id :: uid
  rp_user_id :: uid
  rp_target_id :: "uid option"
  rp_title :: string
  rp_status :: task_status
  rp_job_id :: "uid option"
  rp_summary :: "string option"
  rp_content :: "json option"
  rp_artifacts :: "(string \<times> string) list option"
  rp_generated_at :: "time option"
  rp_error :: "string option"
  rp_deleted_at :: "time option"
  rp_created_at :: time

text \<open>\<open>database/models/audit_log.py\<close>, \<open>refresh_token.py\<close>\<close>

record audit_log =
  al_id :: uid
  al_actor :: string
  al_action :: string
  al_resource :: "string option"
  al_result :: string
  al_ip_metadata :: "string option"
  al_metadata :: "(string \<times> json) list option"
  al_created_at :: time

record refresh_token =
  rt_id :: uid
  rt_user_id :: uid
  rt_token_hash :: string
  rt_expires_at :: time
  rt_revoked_at :: "time option"
  rt_replaced_by :: "uid option"
  rt_user_agent :: "string option"
  rt_ip_metadata :: "string option"

text \<open>\<open>database/models/investigation.py\<close>\<close>

record investigation =
  in_id :: uid
  in_user_id :: uid
  in_public_id :: string
  in_target :: string
  in_target_type :: target_kind
  in_target_norm :: string
  in_status :: investigation_status
  in_job_id :: "uid option"
  in_report_id :: "uid option"
  in_confidence :: "int option"
  in_summary :: "json option"
  in_error :: "string option"
  in_started_at :: "time option"
  in_completed_at :: "time option"
  in_created_at :: time

record observation =
  ob_id :: uid
  ob_investigation_id :: uid
  ob_type :: observation_type
  ob_resource_kind :: resource_kind
  ob_resource_ref :: string
  ob_resource_url :: "string option"
  ob_message_ref :: "string option"
  ob_snippet :: "string option"
  ob_observed_at :: "time option"
  ob_source :: string
  ob_confidence :: int
  ob_evidence_id :: "uid option"

text \<open>\<open>database/models/identifiers.py\<close>, \<open>network.py\<close>, \<open>ioc.py\<close>\<close>

record username =
  un_id :: uid
  un_platform :: string
  un_value :: string
  un_norm :: string

record external_account =
  ea_id :: uid
  ea_platform :: string
  ea_identifier :: string
  ea_norm :: string
  ea_display_name :: "string option"
  ea_profile_url :: "string option"
  ea_bio :: "string option"
  ea_linked_website :: "string option"
  ea_location :: "string option"
  ea_created_at :: time

record domain =
  dm_id :: uid
  dm_name :: string
  dm_norm :: string
  dm_tld :: "string option"

record url_row =
  ur_id :: uid
  ur_url :: string
  ur_norm :: string
  ur_hash :: string
  ur_scheme :: "string option"
  ur_host :: "string option"

record ip_row =
  ip_id :: uid
  ip_address :: string
  ip_version :: nat
  ip_is_private :: bool

record ioc =
  ioc_id :: uid
  ioc_ty :: ioc_type
  ioc_val :: string
  ioc_norm :: string
  ioc_linked :: "(entity_type \<times> uid) option"
  ioc_times_observed :: nat
  ioc_created_at :: time

text \<open>\<open>database/models/telegram.py\<close>: groups and channels share their columns.\<close>

record telegram_account =
  ta_id :: uid
  ta_telegram_id :: "int option"
  ta_username :: "string option"
  ta_username_norm :: "string option"
  ta_display_name :: "string option"
  ta_bio :: "string option"
  ta_is_bot :: bool
  ta_is_verified :: bool
  ta_is_scam :: bool
  ta_photo_reference :: "string option"
  ta_first_observed_at :: "time option"

record telegram_chat =
  tc_id :: uid
  tc_telegram_id :: "int option"
  tc_username :: "string option"
  tc_username_norm :: "string option"
  tc_title :: "string option"
  tc_description :: "string option"
  tc_participants_count :: "int option"
  tc_is_public :: bool
  tc_first_observed_at :: "time option"

text \<open>\<open>database/models/message.py\<close>, \<open>evidence.py\<close>, \<open>relationship.py\<close>\<close>

record message =
  ms_id :: uid
  ms_source_type :: entity_type
  ms_source_id :: uid
  ms_message_id :: int
  ms_author_account_id :: "uid option"
  ms_author_username :: "string option"
  ms_text :: "string option"
  ms_posted_at :: "time option"
  ms_reply_to :: "int option"
  ms_forwarded_from :: "string option"
  ms_views :: "int option"
  ms_urls :: "string list option"
  ms_usernames :: "string list option"
  ms_source_url :: "string option"

record evidence =
  ev_id :: uid
  ev_entity_type :: entity_type
  ev_entity_id :: uid
  ev_field :: "string option"
  ev_value :: "json option"
  ev_source :: string
  ev_source_type :: string
  ev_reference :: "string option"
  ev_collected_at :: time
  ev_observed_at :: "time option"
  ev_content_hash :: string
  ev_extraction_method :: "string option"
  ev_confidence :: int
  ev_metadata :: "json option"

record relationship =
  rel_id :: uid
  rel_source_type :: entity_type
  rel_source_id :: uid
  rel_target_type :: entity_type
  rel_target_id :: uid
  rel_ty :: rel_type
  rel_confidence :: int
  rel_observation_count :: nat
  rel_first_seen :: time
  rel_last_seen :: time
  rel_evidence_id :: "uid option"
  rel_metadata :: "json option"

section \<open>The database\<close>

record db =
  users :: "user list"
  jobs :: "job list"
  targets :: "target list"
  watchlists :: "watchlist list"
  searches :: "search list"
  search_results :: "search_result list"
  reports :: "report list"
  audit_logs :: "audit_log list"
  refresh_tokens :: "refresh_token list"
  investigations :: "investigation list"
  observations :: "observation list"
  usernames :: "username list"
  external_accounts :: "external_account list"
  domains :: "domain list"
  urls :: "url_row list"
  ips :: "ip_row list"
  iocs :: "ioc list"
  telegram_accounts :: "telegram_account list"
  telegram_groups :: "telegram_chat list"
  telegram_channels :: "telegram_chat list"
  messages :: "message list"
  evidences :: "evidence list"
  relationships :: "relationship list"
  next_id :: uid
  now :: time

definition empty_db :: db where
  "empty_db = \<lparr>users = [], jobs = [], targets = [], watchlists = [], searches = [],
     search_results = [], reports = [], audit_logs = [], refresh_tokens = [], investigations = [],
     observations = [], usernames = [], external_accounts = [], domains = [], urls = [], ips = [],
     iocs = [], telegram_accounts = [], telegram_groups = [], telegram_channels = [],
     messages = [], evidences = [], relationships = [], next_id = 0, now = 0\<rparr>"

section \<open>The unique constraints\<close>

text \<open>A nullable column constrains only the rows where it is set.\<close>

definition uq_user :: "user list \<Rightarrow> bool" where
  "uq_user t \<longleftrightarrow> distinct (map u_email t)"

definition uq_target :: "target list \<Rightarrow> bool" where
  "uq_target t \<longleftrightarrow> distinct (map (\<lambda>r. (tg_user_id r, tg_kind r, tg_norm r)) t)"

definition uq_watchlist :: "watchlist list \<Rightarrow> bool" where
  "uq_watchlist t \<longleftrightarrow> distinct (map (\<lambda>r. (w_user_id r, w_kind r, w_norm r)) t)"

definition uq_refresh_token :: "refresh_token list \<Rightarrow> bool" where
  "uq_refresh_token t \<longleftrightarrow> distinct (map rt_token_hash t)"

definition uq_investigation :: "investigation list \<Rightarrow> bool" where
  "uq_investigation t \<longleftrightarrow> distinct (map in_public_id t)"

definition uq_username :: "username list \<Rightarrow> bool" where
  "uq_username t \<longleftrightarrow> distinct (map (\<lambda>r. (un_platform r, un_norm r)) t)"

definition uq_external_account :: "external_account list \<Rightarrow> bool" where
  "uq_external_account t \<longleftrightarrow> distinct (map (\<lambda>r. (ea_platform r, ea_norm r)) t)"

definition uq_domain :: "domain list \<Rightarrow> bool" where
  "uq_domain t \<longleftrightarrow> distinct (map dm_norm t)"

definition uq_url :: "url_row list \<Rightarrow> bool" where
  "uq_url t \<longleftrightarrow> distinct (map ur_hash t)"

definition uq_ip :: "ip_row list \<Rightarrow> bool" where
  "uq_ip t \<longleftrightarrow> distinct (map ip_address t)"

definition uq_ioc :: "ioc list \<Rightarrow> bool" where
  "uq_ioc t \<longleftrightarrow> distinct (map (\<lambda>r. (ioc_ty r, ioc_norm r)) t)"

definition uq_telegram_account :: "telegram_account list \<Rightarrow> bool" where
  "uq_telegram_account t \<longleftrightarrow> distinct (List.map_filter ta_telegram_id t)"

definition uq_telegram_chat :: "telegram_chat list \<Rightarrow> bool" where
  "uq_telegram_chat t \<longleftrightarrow> distinct (List.map_filter tc_telegram_id t)"

definition uq_message :: "message list \<Rightarrow> bool" where
  "uq_message t \<longleftrightarrow> distinct (map (\<lambda>r. (ms_source_type r, ms_source_id r, ms_message_id r)) t)"

definition ev_obs_key :: "evidence \<Rightarrow> (entity_type \<times> uid \<times> string \<times> string \<times> string) option" where
  "ev_obs_key e = map_option (\<lambda>f. (ev_entity_type e, ev_entity_id e, f, ev_source e, ev_content_hash e))
     (ev_field e)"

definition uq_evidence :: "evidence list \<Rightarrow> bool" where
  "uq_evidence t \<longleftrightarrow> distinct (List.map_filter ev_obs_key t)"

definition rel_key :: "relationship \<Rightarrow> entity_type \<times> uid \<times> entity_type \<times> uid \<times> rel_type" where
  "rel_key r = (rel_source_type r, rel_source_id r, rel_target_type r, rel_target_id r, rel_ty r)"

definition uq_relationship :: "relationship list \<Rightarrow> bool" where
  "uq_relationship t \<longleftrightarrow> distinct (map rel_key t)"

end
