(* ===== verification/BaseRepo.thy ===== *)
theory BaseRepo
  imports Models
begin

text \<open>
  \<open>database/repositories/base.py\<close>: the lookup, insert and get-or-create primitives every
  repository is built from. A table is reached through its field of \<^typ>\<open>db\<close> and the update
  function of that field; the locale \<open>table\<close> states the laws of such a pair and proves the
  facts of the primitives once, \<open>keyed_table\<close> adds a unique key.
\<close>

section \<open>Primitives\<close>

text \<open>\<open>uuid4\<close>: a primary key not drawn before.\<close>

definition new_uuid :: "(db, uid) action" where
  "new_uuid d = (Inr (next_id d), d\<lparr>next_id := Suc (next_id d)\<rparr>)"

definition get_by_id :: "('r \<Rightarrow> uid) \<Rightarrow> 'r list \<Rightarrow> uid \<Rightarrow> 'r option" where
  "get_by_id rid t i = find (\<lambda>r. rid r = i) t"

text \<open>
  \<open>add\<close>: insert and flush; the flush raises when a unique constraint of the table fails.
\<close>

definition add_row ::
  "(db \<Rightarrow> 'r list) \<Rightarrow> (('r list \<Rightarrow> 'r list) \<Rightarrow> db \<Rightarrow> db) \<Rightarrow> ('r list \<Rightarrow> bool) \<Rightarrow>
   (db \<Rightarrow> uid \<Rightarrow> 'r) \<Rightarrow> (db, 'r) action" where
  "add_row tbl upd uq mk d =
     (let i = next_id d; row = mk d i in
      if uq (tbl d @ [row])
      then (Inr row, upd (\<lambda>t. t @ [row]) (d\<lparr>next_id := Suc i\<rparr>))
      else (Inl (IntegrityError ''unique constraint failed''), d))"

text \<open>
  \<open>_get_or_create\<close>. Between the first select and the insert another session may commit rows:
  \<open>intf\<close> is what it does. The savepoint confines a failed insert, and the second select then
  finds the winning row; if it finds none the error is raised again.
\<close>

definition get_or_create_race ::
  "(db \<Rightarrow> 'r list) \<Rightarrow> (('r list \<Rightarrow> 'r list) \<Rightarrow> db \<Rightarrow> db) \<Rightarrow> ('r list \<Rightarrow> bool) \<Rightarrow>
   ('r \<Rightarrow> bool) \<Rightarrow> (db \<Rightarrow> uid \<Rightarrow> 'r) \<Rightarrow> (db \<Rightarrow> db) \<Rightarrow> (db, 'r \<times> bool) action" where
  "get_or_create_race tbl upd uq p mk intf d =
     (case scalar_one_or_none p (tbl d) of
        Inl e \<Rightarrow> (Inl e, d)
      | Inr (Some r) \<Rightarrow> (Inr (r, False), d)
      | Inr None \<Rightarrow>
          (let d1 = intf d; i = next_id d1; row = mk d i in
           if uq (tbl d1 @ [row])
           then (Inr (row, True), upd (\<lambda>t. t @ [row]) (d1\<lparr>next_id := Suc i\<rparr>))
           else (case scalar_one_or_none p (tbl d1) of
                   Inl e \<Rightarrow> (Inl e, d1)
                 | Inr (Some r) \<Rightarrow> (Inr (r, False), d1)
                 | Inr None \<Rightarrow> (Inl (IntegrityError ''unique constraint failed''), d1))))"

definition get_or_create ::
  "(db \<Rightarrow> 'r list) \<Rightarrow> (('r list \<Rightarrow> 'r list) \<Rightarrow> db \<Rightarrow> db) \<Rightarrow> ('r list \<Rightarrow> bool) \<Rightarrow>
   ('r \<Rightarrow> bool) \<Rightarrow> (db \<Rightarrow> uid \<Rightarrow> 'r) \<Rightarrow> (db, 'r \<times> bool) action" where
  "get_or_create tbl upd uq p mk = get_or_create_race tbl upd uq p mk id"

text \<open>Every primary key of a table was drawn, and no two rows share one.\<close>

definition ids_ok :: "('r \<Rightarrow> uid) \<Rightarrow> 'r list \<Rightarrow> uid \<Rightarrow> bool" where
  "ids_ok rid t n \<longleftrightarrow> distinct (map rid t) \<and> (\<forall>r \<in> set t. rid r < n)"

lemma ids_ok_snoc: "ids_ok rid t n \<Longrightarrow> rid r = n \<Longrightarrow> ids_ok rid (t @ [r]) (Suc n)"
  by (auto simp: ids_ok_def less_Suc_eq)

lemma ids_ok_mono: "ids_ok rid t n \<Longrightarrow> n \<le> m \<Longrightarrow> ids_ok rid t m"
  by (auto simp: ids_ok_def)

lemma ids_ok_update_where:
  "ids_ok rid t n \<Longrightarrow> (\<And>r. p r \<Longrightarrow> rid (f r) = rid r) \<Longrightarrow> ids_ok rid (update_where p f t) n"
  by (auto simp: ids_ok_def map_update_where set_update_where)

lemma get_by_id_Some: "get_by_id rid t i = Some r \<Longrightarrow> r \<in> set t \<and> rid r = i"
  by (auto simp: get_by_id_def dest: find_Some_in)

lemma get_by_id_None: "get_by_id rid t i = None \<longleftrightarrow> (\<forall>r \<in> set t. rid r \<noteq> i)"
  by (auto simp: get_by_id_def find_None_iff)

lemma get_by_id_in: "distinct (map rid t) \<Longrightarrow> r \<in> set t \<Longrightarrow> get_by_id rid t (rid r) = Some r"
  by (induction t) (auto simp: get_by_id_def rev_image_eqI)

section \<open>The table interface\<close>

locale table =
  fixes tbl :: "db \<Rightarrow> 'r list"
    and upd :: "('r list \<Rightarrow> 'r list) \<Rightarrow> db \<Rightarrow> db"
    and uq :: "'r list \<Rightarrow> bool"
  assumes tbl_upd [simp]: "tbl (upd f d) = f (tbl d)"
    and tbl_next_id [simp]: "tbl (next_id_update g d) = tbl d"
    and next_id_upd [simp]: "next_id (upd f d) = next_id d"
    and uq_Nil: "uq []"
begin

lemma add_row_Inr:
  "add_row tbl upd uq mk d = (Inr r, d') \<Longrightarrow>
   tbl d' = tbl d @ [r] \<and> r = mk d (next_id d) \<and> uq (tbl d') \<and> next_id d' = Suc (next_id d)"
  by (auto simp: add_row_def Let_def split: if_splits)

lemma add_row_Inl: "add_row tbl upd uq mk d = (Inl e, d') \<Longrightarrow> d' = d"
  by (auto simp: add_row_def Let_def split: if_splits)

text \<open>An insert that violates a constraint is refused, so the constraints always hold.\<close>

lemma get_or_create_race_uq:
  assumes "get_or_create_race tbl upd uq p mk intf d = (res, d')"
    and "uq (tbl d)" and "uq (tbl (intf d))"
  shows "uq (tbl d')"
  using assms
  by (auto simp: get_or_create_race_def Let_def split: sum.splits option.splits if_splits)

lemma get_or_create_uq:
  "get_or_create tbl upd uq p mk d = (res, d') \<Longrightarrow> uq (tbl d) \<Longrightarrow> uq (tbl d')"
  unfolding get_or_create_def by (erule get_or_create_race_uq) simp_all

lemma get_or_create_found:
  "get_or_create tbl upd uq p mk d = (Inr (r, False), d') \<Longrightarrow>
   d' = d \<and> r \<in> set (tbl d) \<and> p r"
  by (auto simp: get_or_create_def get_or_create_race_def Let_def
      dest: scalar_one_or_none_Some split: sum.splits option.splits if_splits)

lemma get_or_create_new:
  "get_or_create tbl upd uq p mk d = (Inr (r, True), d') \<Longrightarrow>
   tbl d' = tbl d @ [r] \<and> r = mk d (next_id d) \<and> next_id d' = Suc (next_id d)
   \<and> (\<forall>x \<in> set (tbl d). \<not> p x)"
  by (auto simp: get_or_create_def get_or_create_race_def Let_def
      split: sum.splits option.splits if_splits)

lemma get_or_create_Inl: "get_or_create tbl upd uq p mk d = (Inl e, d') \<Longrightarrow> d' = d"
  by (auto simp: get_or_create_def get_or_create_race_def Let_def
      split: sum.splits option.splits if_splits)

lemma get_or_create_rows:
  assumes "get_or_create tbl upd uq p mk d = (res, d')"
  shows "set (tbl d) \<subseteq> set (tbl d') \<and> next_id d \<le> next_id d'"
  using assms
  by (auto simp: get_or_create_def get_or_create_race_def Let_def
      split: sum.splits option.splits if_splits)

lemma get_or_create_ids:
  assumes "get_or_create tbl upd uq p mk d = (res, d')"
    and "ids_ok rid (tbl d) (next_id d)" and "\<And>i. rid (mk d i) = i"
  shows "ids_ok rid (tbl d') (next_id d')"
  using assms ids_ok_snoc [of rid "tbl d" "next_id d" "mk d (next_id d)"]
  by (auto simp: get_or_create_def get_or_create_race_def Let_def
      split: sum.splits option.splits if_splits)

end

locale keyed_table = table +
  fixes key :: "'r \<Rightarrow> 'k"
  assumes uq_key: "uq t \<longleftrightarrow> distinct (map key t)"
begin

lemma scalar_key: "uq t \<Longrightarrow> (\<And>r. p r \<longleftrightarrow> key r = k) \<Longrightarrow> scalar_one_or_none p t = Inr (find p t)"
  by (rule scalar_one_or_none_key [of key]) (auto simp: uq_key)

lemma no_key_uq: "uq t \<Longrightarrow> \<forall>r \<in> set t. key r \<noteq> key x \<Longrightarrow> uq (t @ [x])"
  by (auto simp: uq_key)

text \<open>
  The contract of get-or-create on a unique key \<open>k\<close>, whatever another session does in between
  as long as the constraints hold after it: it never raises, it returns the one row with key
  \<open>k\<close>, which is in the table, and it reports a creation exactly when no such row was there.
\<close>

lemma get_or_create_race_total:
  assumes uq: "uq (tbl d)" and uq': "uq (tbl (intf d))"
    and p: "\<And>r. p r \<longleftrightarrow> key r = k" and mk: "\<And>i. key (mk d i) = k"
  shows "\<exists>r c d'. get_or_create_race tbl upd uq p mk intf d = (Inr (r, c), d') \<and>
           key r = k \<and> r \<in> set (tbl d') \<and> uq (tbl d') \<and>
           filter (\<lambda>x. key x = k) (tbl d') = [r]"
proof -
  have one: "filter (\<lambda>x. key x = k) t = [r]" if "uq t" "r \<in> set t" "key r = k" for t r
  proof -
    have "length (filter (\<lambda>x. key x = k) t) \<le> 1"
      using that(1) by (intro filter_distinct_key [of key]) (auto simp: uq_key)
    moreover have "r \<in> set (filter (\<lambda>x. key x = k) t)" using that by simp
    ultimately show ?thesis
      by (cases "filter (\<lambda>x. key x = k) t") (auto simp: Suc_le_eq)
  qed
  show ?thesis
  proof (cases "find p (tbl d)")
    case (Some r)
    then have r: "r \<in> set (tbl d)" "key r = k" by (auto dest: find_Some_in simp: p)
    with Some uq show ?thesis
      by (auto simp add: get_or_create_race_def scalar_key [OF uq p] one)
  next
    case None
    let ?x = "mk d (next_id (intf d))"
    show ?thesis
    proof (cases "find p (tbl (intf d))")
      case (Some r)
      then have r: "r \<in> set (tbl (intf d))" "key r = k" by (auto dest: find_Some_in simp: p)
      then have "\<not> uq (tbl (intf d) @ [?x])"
        using mk by (auto simp: uq_key image_iff)
      with None Some r uq' show ?thesis
        by (auto simp add: get_or_create_race_def scalar_key [OF uq p] scalar_key [OF uq' p] one)
    next
      case None': None
      then have "\<forall>r \<in> set (tbl (intf d)). key r \<noteq> key ?x"
        using mk by (auto simp: find_None_iff p)
      then have ok: "uq (tbl (intf d) @ [?x])" by (rule no_key_uq [OF uq'])
      have "filter (\<lambda>x. key x = k) (tbl (intf d) @ [?x]) = [?x]"
        using one [OF ok, of ?x] mk by simp
      with None ok mk show ?thesis
        by (auto simp add: get_or_create_race_def scalar_key [OF uq p] Let_def)
    qed
  qed
qed

lemma get_or_create_total:
  assumes "uq (tbl d)" and "\<And>r. p r \<longleftrightarrow> key r = k" and "\<And>i. key (mk d i) = k"
  shows "\<exists>r c d'. get_or_create tbl upd uq p mk d = (Inr (r, c), d') \<and>
           key r = k \<and> r \<in> set (tbl d') \<and> uq (tbl d') \<and> filter (\<lambda>x. key x = k) (tbl d') = [r]"
  unfolding get_or_create_def
  using get_or_create_race_total [of d id p k mk] assms by auto

text \<open>Asking again finds the row of the first call and changes nothing.\<close>

lemma get_or_create_again:
  assumes uq: "uq (tbl d)" and p: "\<And>r. p r \<longleftrightarrow> key r = k" and mk: "\<And>i. key (mk d i) = k"
    and run: "get_or_create tbl upd uq p mk d = (Inr (r, c), d')"
  shows "get_or_create tbl upd uq p mk' d' = (Inr (r, False), d')"
proof -
  have "\<exists>r c d'. get_or_create tbl upd uq p mk d = (Inr (r, c), d') \<and> key r = k \<and>
      r \<in> set (tbl d') \<and> uq (tbl d') \<and> filter (\<lambda>x. key x = k) (tbl d') = [r]"
    by (rule get_or_create_total) (fact uq p mk)+
  moreover have "p = (\<lambda>x. key x = k)" using p by auto
  ultimately have fil: "filter p (tbl d') = [r]" using run by auto
  then show ?thesis
    by (simp add: get_or_create_def get_or_create_race_def scalar_one_or_none_def)
qed

end

section \<open>The tables\<close>

interpretation user_table: keyed_table users users_update uq_user u_email
  by unfold_locales (simp_all add: uq_user_def)

interpretation job_table: table jobs jobs_update "\<lambda>_. True"
  by unfold_locales simp_all

interpretation target_table:
  keyed_table targets targets_update uq_target "\<lambda>r. (tg_user_id r, tg_kind r, tg_norm r)"
  by unfold_locales (simp_all add: uq_target_def)

interpretation watchlist_table:
  keyed_table watchlists watchlists_update uq_watchlist "\<lambda>r. (w_user_id r, w_kind r, w_norm r)"
  by unfold_locales (simp_all add: uq_watchlist_def)

interpretation refresh_table:
  keyed_table refresh_tokens refresh_tokens_update uq_refresh_token rt_token_hash
  by unfold_locales (simp_all add: uq_refresh_token_def)

interpretation username_table:
  keyed_table usernames usernames_update uq_username "\<lambda>r. (un_platform r, un_norm r)"
  by unfold_locales (simp_all add: uq_username_def)

interpretation external_table:
  keyed_table external_accounts external_accounts_update uq_external_account
    "\<lambda>r. (ea_platform r, ea_norm r)"
  by unfold_locales (simp_all add: uq_external_account_def)

interpretation domain_table: keyed_table domains domains_update uq_domain dm_norm
  by unfold_locales (simp_all add: uq_domain_def)

interpretation url_table: keyed_table urls urls_update uq_url ur_hash
  by unfold_locales (simp_all add: uq_url_def)

interpretation ip_table: keyed_table ips ips_update uq_ip ip_address
  by unfold_locales (simp_all add: uq_ip_def)

interpretation ioc_table: keyed_table iocs iocs_update uq_ioc "\<lambda>r. (ioc_ty r, ioc_norm r)"
  by unfold_locales (simp_all add: uq_ioc_def)

interpretation account_table: table telegram_accounts telegram_accounts_update uq_telegram_account
  by unfold_locales (simp_all add: uq_telegram_account_def)

interpretation group_table: table telegram_groups telegram_groups_update uq_telegram_chat
  by unfold_locales (simp_all add: uq_telegram_chat_def)

interpretation channel_table: table telegram_channels telegram_channels_update uq_telegram_chat
  by unfold_locales (simp_all add: uq_telegram_chat_def)

interpretation message_table:
  keyed_table messages messages_update uq_message
    "\<lambda>r. (ms_source_type r, ms_source_id r, ms_message_id r)"
  by unfold_locales (simp_all add: uq_message_def)

interpretation evidence_table: table evidences evidences_update uq_evidence
  by unfold_locales (simp_all add: uq_evidence_def)

interpretation relationship_table:
  keyed_table relationships relationships_update uq_relationship rel_key
  by unfold_locales (simp_all add: uq_relationship_def)

end
