(* ===== verification/JobRepo.thy ===== *)
theory JobRepo
  imports BaseRepo
begin

text \<open>
  \<open>database/repositories/jobs.py\<close> and the job state machine of \<open>database/models/job.py\<close>: job
  creation, the guarded transitions, the listings. The transition table is also given as a step
  relation on job rows, whose runs are what a job can go through.
\<close>

section \<open>Operations\<close>

definition new_job :: "string \<Rightarrow> json option \<Rightarrow> string option \<Rightarrow> nat \<Rightarrow> db \<Rightarrow> uid \<Rightarrow> job" where
  "new_job kind params requested_by max_retries d i =
     \<lparr>job_id = i, job_kind = kind, job_st = PENDING, job_requested_by = requested_by,
      job_params = (case params of None \<Rightarrow> JObj [] | Some p \<Rightarrow> p), job_result = None,
      job_progress = 0, job_error = None, job_retry_count = 0, job_max_retries = max_retries,
      job_started_at = None, job_completed_at = None, job_created_at = now d\<rparr>"

definition job_create :: "string \<Rightarrow> json option \<Rightarrow> string option \<Rightarrow> nat \<Rightarrow> (db, job) action" where
  "job_create kind params requested_by max_retries =
     add_row jobs jobs_update (\<lambda>_. True) (new_job kind params requested_by max_retries)"

definition job_get :: "db \<Rightarrow> uid \<Rightarrow> job option" where
  "job_get d jid = get_by_id job_id (jobs d) jid"

fun allowed :: "job_state \<Rightarrow> job_state list" where
  "allowed PENDING = [RUNNING, CANCELLED, FAILED]"
| "allowed RUNNING = [COMPLETED, FAILED, CANCELLED, PENDING]"
| "allowed COMPLETED = []"
| "allowed FAILED = [PENDING]"
| "allowed CANCELLED = []"

text \<open>The assignments of \<open>transition\<close>, in the order of the source.\<close>

definition apply_transition ::
  "time \<Rightarrow> job_state \<Rightarrow> int option \<Rightarrow> string option \<Rightarrow> json option \<Rightarrow> job \<Rightarrow> job" where
  "apply_transition t to progress error result j =
     (let current = job_st j;
          j = j\<lparr>job_st := to\<rparr>;
          j = (if to = RUNNING \<and> job_started_at j = None then j\<lparr>job_started_at := Some t\<rparr> else j);
          j = (if to = PENDING \<and> current = FAILED
               then j\<lparr>job_retry_count := Suc (job_retry_count j), job_error := None\<rparr> else j);
          j = (if is_terminal to then j\<lparr>job_completed_at := Some t\<rparr> else j);
          j = (case progress of None \<Rightarrow> j | Some p \<Rightarrow> j\<lparr>job_progress := max 0 (min 100 p)\<rparr>);
          j = (case error of None \<Rightarrow> j | Some e \<Rightarrow> j\<lparr>job_error := Some e\<rparr>);
          j = (case result of None \<Rightarrow> j | Some r \<Rightarrow> j\<lparr>job_result := Some r\<rparr>)
      in j)"

definition put_job :: "job \<Rightarrow> db \<Rightarrow> db" where
  "put_job j d = d\<lparr>jobs := update_where (\<lambda>x. job_id x = job_id j) (\<lambda>_. j) (jobs d)\<rparr>"

definition transition ::
  "uid \<Rightarrow> job_state \<Rightarrow> int option \<Rightarrow> string option \<Rightarrow> json option \<Rightarrow> (db, job) action" where
  "transition jid to progress error result d =
     (case job_get d jid of
        None \<Rightarrow> (Inl (LookupError ''job not found''), d)
      | Some j \<Rightarrow>
          if to \<noteq> job_st j \<and> to \<notin> set (allowed (job_st j))
          then (Inl (IllegalJobStateTransition
                  (job_state_value (job_st j) @ '' -> '' @ job_state_value to)), d)
          else (let j' = apply_transition (now d) to progress error result j
                in (Inr j', put_job j' d)))"

text \<open>\<open>pending\<close>: oldest first; \<open>recent\<close>: newest first.\<close>

definition jobs_pending :: "nat \<Rightarrow> db \<Rightarrow> job list" where
  "jobs_pending limit d =
     take limit (sort_key job_created_at (filter (\<lambda>j. job_st j = PENDING) (jobs d)))"

definition jobs_recent :: "nat \<Rightarrow> db \<Rightarrow> job list" where
  "jobs_recent limit d = take limit (sort_key (\<lambda>j. - job_created_at j) (jobs d))"

section \<open>Facts about one transition\<close>

lemma apply_transition_fields [simp]:
  "job_id (apply_transition t to p e r j) = job_id j"
  "job_kind (apply_transition t to p e r j) = job_kind j"
  "job_st (apply_transition t to p e r j) = to"
  "job_requested_by (apply_transition t to p e r j) = job_requested_by j"
  "job_params (apply_transition t to p e r j) = job_params j"
  "job_max_retries (apply_transition t to p e r j) = job_max_retries j"
  "job_created_at (apply_transition t to p e r j) = job_created_at j"
  "job_retry_count (apply_transition t to p e r j) =
     (if to = PENDING \<and> job_st j = FAILED then Suc (job_retry_count j) else job_retry_count j)"
  "job_progress (apply_transition t to p e r j) =
     (case p of None \<Rightarrow> job_progress j | Some x \<Rightarrow> max 0 (min 100 x))"
  "job_completed_at (apply_transition t to p e r j) =
     (if is_terminal to then Some t else job_completed_at j)"
  "job_result (apply_transition t to p e r j) = (case r of None \<Rightarrow> job_result j | Some x \<Rightarrow> Some x)"
  by (cases p; cases e; cases r; simp add: apply_transition_def Let_def)+

lemma apply_transition_error:
  "job_error (apply_transition t to p e r j) =
     (case e of Some x \<Rightarrow> Some x
      | None \<Rightarrow> if to = PENDING \<and> job_st j = FAILED then None else job_error j)"
  by (cases p; cases e; cases r; simp add: apply_transition_def Let_def)

lemma job_get_Some: "job_get d jid = Some j \<Longrightarrow> j \<in> set (jobs d) \<and> job_id j = jid"
  by (auto simp: job_get_def dest: get_by_id_Some)

lemma job_get_put_job:
  assumes "job_get d (job_id j) = Some j0"
  shows "job_get (put_job j d) jid = (if jid = job_id j then Some j else job_get d jid)"
proof -
  have "find (\<lambda>x. job_id x = jid) (update_where (\<lambda>x. job_id x = job_id j) (\<lambda>_. j) t) =
      (if jid = job_id j then (if find (\<lambda>x. job_id x = job_id j) t = None then None else Some j)
       else find (\<lambda>x. job_id x = jid) t)" for t
    by (induction t) auto
  with assms show ?thesis by (simp add: job_get_def get_by_id_def put_job_def)
qed

lemma put_job_other [simp]:
  "users (put_job j d) = users d" "watchlists (put_job j d) = watchlists d"
  "now (put_job j d) = now d" "next_id (put_job j d) = next_id d"
  "reports (put_job j d) = reports d" "investigations (put_job j d) = investigations d"
  by (simp_all add: put_job_def)

lemma map_job_id_put_job [simp]: "map job_id (jobs (put_job j d)) = map job_id (jobs d)"
  unfolding put_job_def by (simp, rule map_update_where) simp

lemma transition_Inr:
  assumes "transition jid to p e r d = (Inr j', d')"
  obtains j where "job_get d jid = Some j" "to = job_st j \<or> to \<in> set (allowed (job_st j))"
    "j' = apply_transition (now d) to p e r j" "d' = put_job j' d"
  using assms by (auto simp: transition_def Let_def split: option.splits if_splits)

lemma transition_Inl: "transition jid to p e r d = (Inl x, d') \<Longrightarrow> d' = d"
  by (auto simp: transition_def Let_def split: option.splits if_splits)

lemma transition_ok:
  "job_get d jid = Some j \<Longrightarrow> to = job_st j \<or> to \<in> set (allowed (job_st j)) \<Longrightarrow>
   transition jid to p e r d =
     (Inr (apply_transition (now d) to p e r j), put_job (apply_transition (now d) to p e r j) d)"
  by (auto simp: transition_def Let_def)

lemma transition_illegal:
  "job_get d jid = Some j \<Longrightarrow> to \<noteq> job_st j \<Longrightarrow> to \<notin> set (allowed (job_st j)) \<Longrightarrow>
   \<exists>m. transition jid to p e r d = (Inl (IllegalJobStateTransition m), d)"
  by (auto simp: transition_def)

lemma job_get_transition:
  assumes "transition jid to p e r d = (Inr j', d')"
  shows "job_get d' i = (if i = jid then Some j' else job_get d i)"
proof -
  from assms obtain j where j: "job_get d jid = Some j" "d' = put_job j' d"
    and j': "job_id j' = job_id j" by (elim transition_Inr) simp
  from j(1) have "job_id j = jid" by (auto dest: job_get_Some)
  with j j' show ?thesis by (simp add: job_get_put_job [of d j' j])
qed

section \<open>The state machine as a step relation\<close>

text \<open>
  A step of a job row is one successful transition at some time, with any arguments. A job's
  life is a run of steps from the row \<open>create\<close> inserts.
\<close>

inductive job_step :: "job \<Rightarrow> job \<Rightarrow> bool" where
  stay: "to = job_st j \<Longrightarrow> job_step j (apply_transition t to p e r j)"
| move: "to \<in> set (allowed (job_st j)) \<Longrightarrow> job_step j (apply_transition t to p e r j)"

inductive job_run :: "job \<Rightarrow> job \<Rightarrow> bool" where
  start: "job_run j j"
| step: "job_run i j \<Longrightarrow> job_step j k \<Longrightarrow> job_run i k"

inductive_cases job_stepE: "job_step j k"

lemma transition_job_step:
  assumes "transition jid to p e r d = (Inr j', d')"
  shows "\<exists>j. job_get d jid = Some j \<and> job_step j j'"
  using assms by (elim transition_Inr) (auto intro: job_step.intros)

text \<open>The row invariant: progress is a percentage, and a terminal row has its completion time.\<close>

definition job_ok :: "job \<Rightarrow> bool" where
  "job_ok j \<longleftrightarrow> 0 \<le> job_progress j \<and> job_progress j \<le> 100 \<and>
     (is_terminal (job_st j) \<longrightarrow> job_completed_at j \<noteq> None) \<and>
     (job_st j = RUNNING \<longrightarrow> job_started_at j \<noteq> None)"

lemma job_ok_new: "job_ok (new_job k ps rb m d i)"
  by (simp add: job_ok_def new_job_def)

lemma apply_transition_started:
  "job_started_at j \<noteq> None \<or> to = RUNNING \<Longrightarrow> job_started_at (apply_transition t to p e r j) \<noteq> None"
  by (auto simp: apply_transition_def Let_def split: option.splits)

lemma job_ok_apply_transition: "job_ok j \<Longrightarrow> job_ok (apply_transition t to p e r j)"
  by (auto simp: job_ok_def apply_transition_started simp del: is_terminal.simps split: option.splits)

lemma job_step_ok: "job_step j k \<Longrightarrow> job_ok j \<Longrightarrow> job_ok k"
  by (auto elim!: job_stepE simp: job_ok_apply_transition)

lemma job_step_final:
  "job_step j k \<Longrightarrow> job_st j \<in> {COMPLETED, CANCELLED} \<Longrightarrow> job_st k = job_st j"
  by (auto elim!: job_stepE)

lemma job_step_retry_count:
  "job_step j k \<Longrightarrow> job_retry_count k =
     (if job_st j = FAILED \<and> job_st k = PENDING then Suc (job_retry_count j) else job_retry_count j)"
  by (auto elim!: job_stepE)

lemma job_step_frame:
  "job_step j k \<Longrightarrow> job_id k = job_id j \<and> job_kind k = job_kind j \<and>
     job_requested_by k = job_requested_by j \<and> job_params k = job_params j \<and>
     job_max_retries k = job_max_retries j"
  by (auto elim!: job_stepE)

lemma job_run_ok: "job_run i j \<Longrightarrow> job_ok i \<Longrightarrow> job_ok j"
  by (induction rule: job_run.induct) (auto dest: job_step_ok)

lemma job_run_final:
  "job_run i j \<Longrightarrow> job_st i \<in> {COMPLETED, CANCELLED} \<Longrightarrow> job_st j = job_st i"
  by (induction rule: job_run.induct) (auto dest: job_step_final)

lemma job_run_frame:
  "job_run i j \<Longrightarrow> job_id j = job_id i \<and> job_kind j = job_kind i \<and>
     job_requested_by j = job_requested_by i \<and> job_params j = job_params i \<and>
     job_max_retries j = job_max_retries i"
  by (induction rule: job_run.induct) (auto dest!: job_step_frame)

lemma job_run_retry_mono: "job_run i j \<Longrightarrow> job_retry_count i \<le> job_retry_count j"
  by (induction rule: job_run.induct) (auto dest!: job_step_retry_count)

section \<open>Properties\<close>



end
