(* ===== verification/JobQueue.thy ===== *)
theory JobQueue
  imports Models "HOL-Library.Product_Lexorder"
begin

text \<open>
  \<open>workers/queue.py\<close>: the job-queue protocol and its two implementations, the in-memory deque
  with a delayed list and the Redis list with a sorted set. Clock readings are arguments. The
  locale \<open>job_queue\<close> states what the runner relies on, \<open>fifo_queue\<close> what holds of jobs
  enqueued without delay; both implementations are interpreted.
\<close>

section \<open>InMemoryJobQueue\<close>

record mem_queue =
  mq_ready :: "uid list"
  mq_delayed :: "(real \<times> uid) list"

definition mem_empty :: mem_queue where
  "mem_empty = \<lparr>mq_ready = [], mq_delayed = []\<rparr>"

definition mem_enqueue :: "uid \<Rightarrow> real \<Rightarrow> real \<Rightarrow> mem_queue \<Rightarrow> mem_queue" where
  "mem_enqueue j delay t q =
     (if delay > 0 then q\<lparr>mq_delayed := mq_delayed q @ [(t + delay, j)]\<rparr>
      else q\<lparr>mq_ready := mq_ready q @ [j]\<rparr>)"

definition mem_promote :: "real \<Rightarrow> mem_queue \<Rightarrow> mem_queue" where
  "mem_promote t q =
     (let due = map snd (filter (\<lambda>(s, j). s \<le> t) (mq_delayed q))
      in q\<lparr>mq_ready := mq_ready q @ due, mq_delayed := filter (\<lambda>(s, j). s > t) (mq_delayed q)\<rparr>)"

text \<open>
  The polling loop of \<open>dequeue\<close>, with a clock that advances by the 10 ms of each sleep. The
  result carries the clock.
\<close>

function mem_poll :: "real \<Rightarrow> real \<Rightarrow> mem_queue \<Rightarrow> uid option \<times> mem_queue \<times> real" where
  "mem_poll deadline t q =
     (let q' = mem_promote t q in
      case mq_ready q' of
        j # js \<Rightarrow> (Some j, q'\<lparr>mq_ready := js\<rparr>, t)
      | [] \<Rightarrow> if t \<ge> deadline then (None, q', t) else mem_poll deadline (t + 1 / 100) q')"
  by pat_completeness auto
termination
proof (relation "measure (\<lambda>(deadline, t, q). nat \<lceil>(deadline - t) * 100\<rceil>)", goal_cases)
  case (2 deadline t q q')
  then have pos: "(deadline - t) * 100 > 0" by simp
  have eq: "(deadline - (t + 1 / 100)) * 100 = (deadline - t) * 100 - 1"
    by (simp add: algebra_simps)
  have "\<lceil>(deadline - (t + 1 / 100)) * 100\<rceil> = \<lceil>(deadline - t) * 100\<rceil> - 1"
    unfolding eq by (rule ceiling_diff_one)
  with pos show ?case by simp
qed simp

declare mem_poll.simps [simp del]

definition mem_dequeue :: "real \<Rightarrow> real \<Rightarrow> mem_queue \<Rightarrow> uid option \<times> mem_queue \<times> real" where
  "mem_dequeue timeout t q = mem_poll (t + timeout) t q"

definition mem_size :: "mem_queue \<Rightarrow> nat" where
  "mem_size q = length (mq_ready q) + length (mq_delayed q)"

section \<open>RedisJobQueue\<close>

text \<open>
  The ready key is a Redis list (\<open>LPUSH\<close> at the head, \<open>BRPOP\<close> at the tail); the delayed key a
  sorted set: members with a score, ordered by score and then member, one entry per member.
\<close>

record redis_queue =
  rq_ready :: "uid list"
  rq_delayed :: "(real \<times> uid) list"

definition redis_empty :: redis_queue where
  "redis_empty = \<lparr>rq_ready = [], rq_delayed = []\<rparr>"

definition zadd :: "real \<Rightarrow> uid \<Rightarrow> (real \<times> uid) list \<Rightarrow> (real \<times> uid) list" where
  "zadd s j z = insort (s, j) (filter (\<lambda>e. snd e \<noteq> j) z)"

definition zrem :: "uid \<Rightarrow> (real \<times> uid) list \<Rightarrow> bool \<times> (real \<times> uid) list" where
  "zrem j z = (j \<in> set (map snd z), filter (\<lambda>e. snd e \<noteq> j) z)"

definition redis_enqueue :: "uid \<Rightarrow> real \<Rightarrow> real \<Rightarrow> redis_queue \<Rightarrow> redis_queue" where
  "redis_enqueue j delay t q =
     (if delay > 0 then q\<lparr>rq_delayed := zadd (t + delay) j (rq_delayed q)\<rparr>
      else q\<lparr>rq_ready := j # rq_ready q\<rparr>)"

fun redis_move :: "uid list \<Rightarrow> redis_queue \<Rightarrow> redis_queue" where
  "redis_move [] q = q"
| "redis_move (j # js) q =
     (case zrem j (rq_delayed q) of
        (True, z) \<Rightarrow> redis_move js (q\<lparr>rq_delayed := z, rq_ready := j # rq_ready q\<rparr>)
      | (False, _) \<Rightarrow> redis_move js q)"

definition redis_promote :: "real \<Rightarrow> redis_queue \<Rightarrow> redis_queue" where
  "redis_promote t q = redis_move (map snd (filter (\<lambda>e. fst e \<le> t) (rq_delayed q))) q"

text \<open>
  \<open>BRPOP\<close> takes the tail if there is one; otherwise nothing arrives in this process while it
  blocks, and it returns nothing after the timeout, which is at least one second and whole.
\<close>

definition redis_dequeue :: "real \<Rightarrow> real \<Rightarrow> redis_queue \<Rightarrow> uid option \<times> redis_queue \<times> real" where
  "redis_dequeue timeout t q =
     (let q' = redis_promote t q in
      if rq_ready q' = [] then (None, q', t + of_int \<lfloor>max 1 timeout\<rfloor>)
      else (Some (last (rq_ready q')), q'\<lparr>rq_ready := butlast (rq_ready q')\<rparr>, t))"

definition redis_size :: "redis_queue \<Rightarrow> nat" where
  "redis_size q = length (rq_ready q) + length (rq_delayed q)"

section \<open>The interface\<close>

locale job_queue =
  fixes enq :: "uid \<Rightarrow> real \<Rightarrow> real \<Rightarrow> 'q \<Rightarrow> 'q"
    and deq :: "real \<Rightarrow> real \<Rightarrow> 'q \<Rightarrow> uid option \<times> 'q \<times> real"
    and size_of :: "'q \<Rightarrow> nat"
    and queued :: "'q \<Rightarrow> uid set"
  assumes queued_enq: "queued (enq j delay t q) = insert j (queued q)"
    and deq_Some: "deq timeout t q = (Some j, q', t') \<Longrightarrow>
      j \<in> queued q \<and> queued q \<subseteq> insert j (queued q') \<and> queued q' \<subseteq> queued q"
    and deq_None: "deq timeout t q = (None, q', t') \<Longrightarrow> queued q' = queued q"
    and size_zero: "size_of q = 0 \<longleftrightarrow> queued q = {}"

text \<open>
  What order means: \<open>ready\<close> lists the undelayed jobs in the order they will be served; a delayed
  job becomes ready behind the jobs already there.
\<close>

locale fifo_queue = job_queue +
  fixes ready :: "'q \<Rightarrow> uid list"
    and quiet :: "'q \<Rightarrow> bool"
  assumes enq_ready: "delay \<le> 0 \<Longrightarrow> ready (enq j delay t q) = ready q @ [j]"
    and enq_quiet: "delay \<le> 0 \<Longrightarrow> quiet q \<Longrightarrow> quiet (enq j delay t q)"
    and deq_ready: "quiet q \<Longrightarrow> ready q = j # js \<Longrightarrow>
      \<exists>q' t'. deq timeout t q = (Some j, q', t') \<and> ready q' = js \<and> quiet q'"
begin

text \<open>Jobs submitted without delay are served in the order of submission.\<close>

lemma ready_enq_all:
  "ready (fold (\<lambda>j. enq j 0 t) js q) = ready q @ js \<and> (quiet q \<longrightarrow> quiet (fold (\<lambda>j. enq j 0 t) js q))"
  by (induction js arbitrary: q) (simp_all add: enq_ready enq_quiet)

end

text \<open>Serve \<open>n\<close> times, collecting what comes out.\<close>

fun serve :: "(real \<Rightarrow> real \<Rightarrow> 'q \<Rightarrow> uid option \<times> 'q \<times> real) \<Rightarrow> nat \<Rightarrow> real \<Rightarrow> 'q \<Rightarrow> uid option list" where
  "serve deq 0 t q = []"
| "serve deq (Suc n) t q = (case deq 1 t q of (x, q', t') \<Rightarrow> x # serve deq n t' q')"

context fifo_queue begin

lemma serve_ready: "quiet q \<Longrightarrow> ready q = js \<Longrightarrow> serve deq (length js) t q = map Some js"
proof (induction js arbitrary: q t)
  case (Cons j js)
  from deq_ready [OF Cons.prems, of 1 t] obtain q' t'
    where "deq 1 t q = (Some j, q', t')" "ready q' = js" "quiet q'" by blast
  with Cons.IH show ?case by simp
qed simp

lemma fifo: "quiet q \<Longrightarrow> ready q = [] \<Longrightarrow>
    serve deq (length js) t (fold (\<lambda>j. enq j 0 s) js q) = map Some js"
  using ready_enq_all [of s js q] by (intro serve_ready) auto

end

section \<open>The in-memory queue implements it\<close>

definition mem_queued :: "mem_queue \<Rightarrow> uid set" where
  "mem_queued q = set (mq_ready q) \<union> set (map snd (mq_delayed q))"

lemma mem_queued_promote [simp]: "mem_queued (mem_promote t q) = mem_queued q"
  by (auto simp: mem_queued_def mem_promote_def image_iff) force

lemma mem_poll_queued:
  "mem_poll deadline t q = (x, q', t') \<Longrightarrow>
   (case x of None \<Rightarrow> mem_queued q' = mem_queued q
    | Some j \<Rightarrow> j \<in> mem_queued q \<and> mem_queued q \<subseteq> insert j (mem_queued q') \<and> mem_queued q' \<subseteq> mem_queued q)"
proof (induction deadline t q rule: mem_poll.induct)
  case (1 deadline t q)
  let ?q = "mem_promote t q"
  show ?case
  proof (cases "mq_ready ?q")
    case (Cons j js)
    have "mem_queued ?q = insert j (mem_queued (?q\<lparr>mq_ready := js\<rparr>))"
      using Cons by (auto simp: mem_queued_def)
    then have "mem_queued q = insert j (mem_queued (?q\<lparr>mq_ready := js\<rparr>))" by simp
    moreover have "x = Some j" "q' = ?q\<lparr>mq_ready := js\<rparr>"
      using 1(2) Cons by (auto simp: mem_poll.simps [of deadline t q])
    ultimately show ?thesis by auto
  next
    case Nil
    show ?thesis
    proof (cases "t \<ge> deadline")
      case True
      with Nil 1(2) show ?thesis by (auto simp: mem_poll.simps [of deadline t q])
    next
      case False
      with Nil 1(2) have "mem_poll deadline (t + 1 / 100) ?q = (x, q', t')"
        by (simp add: mem_poll.simps [of deadline t q])
      from 1(1) [OF refl Nil False this] show ?thesis unfolding mem_queued_promote .
    qed
  qed
qed

interpretation mem: job_queue mem_enqueue mem_dequeue mem_size mem_queued
proof (unfold_locales, goal_cases)
  case (1 j delay t q)
  then show ?case by (auto simp: mem_enqueue_def mem_queued_def)
next
  case (2 timeout t q j q' t')
  then show ?case using mem_poll_queued [of "t + timeout" t q "Some j" q' t']
    by (simp add: mem_dequeue_def)
next
  case (3 timeout t q q' t')
  then show ?case using mem_poll_queued [of "t + timeout" t q None q' t']
    by (simp add: mem_dequeue_def)
next
  case (4 q)
  then show ?case by (auto simp: mem_size_def mem_queued_def)
qed

interpretation mem_fifo: fifo_queue mem_enqueue mem_dequeue mem_size mem_queued mq_ready
    "\<lambda>q. mq_delayed q = []"
proof (unfold_locales, goal_cases)
  case (3 q j js timeout t)
  then show ?case
    by (simp add: mem_dequeue_def mem_poll.simps [of "t + timeout" t q] mem_promote_def)
qed (simp_all add: mem_enqueue_def)

section \<open>The Redis queue implements it\<close>

definition redis_queued :: "redis_queue \<Rightarrow> uid set" where
  "redis_queued q = set (rq_ready q) \<union> set (map snd (rq_delayed q))"

lemma redis_queued_move: "redis_queued (redis_move js q) = redis_queued q"
proof (induction js arbitrary: q)
  case (Cons j js)
  show ?case
  proof (cases "j \<in> snd ` set (rq_delayed q)")
    case True
    have "redis_queued (q\<lparr>rq_delayed := filter (\<lambda>e. snd e \<noteq> j) (rq_delayed q), rq_ready := j # rq_ready q\<rparr>)
        = redis_queued q"
      using True by (auto simp: redis_queued_def image_iff)
    with True show ?thesis by (simp add: zrem_def Cons.IH)
  next
    case False
    then show ?thesis by (simp add: zrem_def Cons.IH)
  qed
qed simp

interpretation redis: job_queue redis_enqueue redis_dequeue redis_size redis_queued
proof (unfold_locales, goal_cases)
  case (1 j delay t q)
  then show ?case
    by (auto simp: redis_enqueue_def redis_queued_def zadd_def set_insort_key image_iff)
next
  case (2 timeout t q j q' t')
  let ?q = "redis_promote t q"
  from 2 have ne: "rq_ready ?q \<noteq> []" and j: "j = last (rq_ready ?q)"
    and q': "q' = ?q\<lparr>rq_ready := butlast (rq_ready ?q)\<rparr>"
    by (auto simp: redis_dequeue_def Let_def split: if_splits)
  have "set (rq_ready ?q) = insert j (set (butlast (rq_ready ?q)))"
    using ne j by (metis append_butlast_last_id list.simps(15) rotate1.simps(2) set_rotate1)
  then have "redis_queued ?q = insert j (redis_queued q')" by (auto simp: redis_queued_def q')
  then show ?case by (auto simp: redis_promote_def redis_queued_move)
next
  case (3 timeout t q q' t')
  then show ?case
    by (auto simp: redis_dequeue_def Let_def redis_promote_def redis_queued_move split: if_splits)
next
  case (4 q)
  then show ?case by (auto simp: redis_size_def redis_queued_def)
qed

interpretation redis_fifo: fifo_queue redis_enqueue redis_dequeue redis_size redis_queued
    "\<lambda>q. rev (rq_ready q)" "\<lambda>q. rq_delayed q = []"
proof (unfold_locales, goal_cases)
  case (3 q j js timeout t)
  then have "rq_ready q = rev js @ [j]" by (metis rev_rev_ident rev.simps(2))
  with 3 show ?case by (simp add: redis_dequeue_def redis_promote_def)
qed (simp_all add: redis_enqueue_def)

section \<open>Properties\<close>

text \<open>
  The two queue back ends are interchangeable for jobs enqueued without a delay: served from
  empty, each hands the jobs out in the order they were submitted.
\<close>

lemma queues_agree_fifo:
  "serve mem_dequeue (length js) t (fold (\<lambda>j. mem_enqueue j 0 s) js mem_empty) = map Some js \<and>
   serve redis_dequeue (length js) t (fold (\<lambda>j. redis_enqueue j 0 s) js redis_empty) = map Some js"
  using mem_fifo.fifo [of mem_empty js t s] redis_fifo.fifo [of redis_empty js t s]
  by (simp add: mem_empty_def redis_empty_def)

text \<open>
  A delayed job (a retry) is never handed out before its time, is not lost while it waits, and
  is handed out by the first poll after its time when it is the only job, in both back ends.
\<close>

lemma delayed_job_timing:
  fixes delay :: real
  assumes "0 < delay" and "t + delay \<le> t'"
  shows "fst (mem_dequeue 0 t (mem_enqueue j delay t mem_empty)) = None \<and>
         fst (redis_dequeue 0 t (redis_enqueue j delay t redis_empty)) = None \<and>
         fst (mem_dequeue 0 t' (mem_enqueue j delay t mem_empty)) = Some j \<and>
         fst (redis_dequeue 0 t' (redis_enqueue j delay t redis_empty)) = Some j"
  using assms
  by (simp add: mem_dequeue_def mem_enqueue_def mem_empty_def mem_promote_def mem_poll.simps
      redis_dequeue_def redis_enqueue_def redis_empty_def redis_promote_def zadd_def zrem_def)

lemma delayed_job_timing_witness:
  "fst (redis_dequeue 0 10 (redis_enqueue 4 5 3 redis_empty)) = Some 4"
  using delayed_job_timing [of 5 3 10 4] by simp

end
