(* ===== verification/QueueSpec.thy ===== *)
theory QueueSpec
  imports JobQueue "HOL-Library.Multiset"
begin

text \<open>
  The contract of \<open>JobQueue\<close> as an abstract queue: a list of jobs ready to be served, in order, and a bag of
  jobs that wait for their time. Both back ends of \<open>workers/queue.py\<close> are shown to implement it,
  operation by operation (locale \<open>queue_refinement\<close>) and for every sequence of operations.
\<close>

section \<open>The abstract queue\<close>

record spec_queue =
  sq_ready :: "uid list"
  sq_waiting :: "(real \<times> uid) multiset"

definition sq_enqueue :: "uid \<Rightarrow> real \<Rightarrow> real \<Rightarrow> spec_queue \<Rightarrow> spec_queue" where
  "sq_enqueue j delay t q =
     (if delay > 0 then q\<lparr>sq_waiting := add_mset (t + delay, j) (sq_waiting q)\<rparr>
      else q\<lparr>sq_ready := sq_ready q @ [j]\<rparr>)"

definition sq_due :: "real \<Rightarrow> spec_queue \<Rightarrow> (real \<times> uid) multiset" where
  "sq_due t q = filter_mset (\<lambda>e. fst e \<le> t) (sq_waiting q)"

text \<open>
  A call made at \<open>t\<close> hands out a job at some later moment: the head of what is ready at that moment,
  where the jobs whose time has come line up, in any order, behind those that were ready. It returns
  nothing only when nothing was ready at the call.
\<close>

inductive sq_dequeue :: "real \<Rightarrow> spec_queue \<Rightarrow> uid option \<Rightarrow> spec_queue \<Rightarrow> real \<Rightarrow> bool" where
  served: "t \<le> s \<Longrightarrow> mset due = sq_due s q \<Longrightarrow> sq_ready q @ map snd due = j # js \<Longrightarrow>
    q' = \<lparr>sq_ready = js, sq_waiting = sq_waiting q - sq_due s q\<rparr> \<Longrightarrow> sq_dequeue t q (Some j) q' s"
| nothing: "t \<le> s \<Longrightarrow> sq_ready q = [] \<Longrightarrow> sq_due t q = {#} \<Longrightarrow> sq_dequeue t q None q s"

lemma later_dequeue:
  "sq_dequeue (t + e) q x q' s \<Longrightarrow> 0 \<le> e \<Longrightarrow> sq_ready q = [] \<Longrightarrow> sq_due t q = {#} \<Longrightarrow> sq_dequeue t q x q' s"
  by (cases rule: sq_dequeue.cases) (auto intro: sq_dequeue.intros)

datatype queue_op = Enqueue uid real real | Dequeue real real

text \<open>What a sequence of calls, each with its clock, may return.\<close>

inductive sq_run :: "queue_op list \<Rightarrow> spec_queue \<Rightarrow> uid option list \<Rightarrow> spec_queue \<Rightarrow> bool" where
  finished: "sq_run [] q [] q"
| enqueue: "sq_run ops (sq_enqueue j delay t q) xs q' \<Longrightarrow> sq_run (Enqueue j delay t # ops) q xs q'"
| dequeue: "sq_dequeue t q x q1 s \<Longrightarrow> sq_run ops q1 xs q' \<Longrightarrow> sq_run (Dequeue timeout t # ops) q (x # xs) q'"

fun run_queue :: "(uid \<Rightarrow> real \<Rightarrow> real \<Rightarrow> 'q \<Rightarrow> 'q) \<Rightarrow> (real \<Rightarrow> real \<Rightarrow> 'q \<Rightarrow> uid option \<times> 'q \<times> real) \<Rightarrow>
    queue_op list \<Rightarrow> 'q \<Rightarrow> uid option list \<times> 'q" where
  "run_queue enq deq [] q = ([], q)"
| "run_queue enq deq (Enqueue j delay t # ops) q = run_queue enq deq ops (enq j delay t q)"
| "run_queue enq deq (Dequeue timeout t # ops) q =
     (case deq timeout t q of (x, q1, _) \<Rightarrow> case run_queue enq deq ops q1 of (xs, q') \<Rightarrow> (x # xs, q'))"

text \<open>Every enqueued job is one that \<open>may\<close> be enqueued in the state it meets.\<close>

fun usable :: "(uid \<Rightarrow> real \<Rightarrow> real \<Rightarrow> 'q \<Rightarrow> 'q) \<Rightarrow> (real \<Rightarrow> real \<Rightarrow> 'q \<Rightarrow> uid option \<times> 'q \<times> real) \<Rightarrow>
    (uid \<Rightarrow> 'q \<Rightarrow> bool) \<Rightarrow> queue_op list \<Rightarrow> 'q \<Rightarrow> bool" where
  "usable enq deq may [] q = True"
| "usable enq deq may (Enqueue j delay t # ops) q = (may j q \<and> usable enq deq may ops (enq j delay t q))"
| "usable enq deq may (Dequeue timeout t # ops) q = usable enq deq may ops (fst (snd (deq timeout t q)))"

lemma usable_always: "usable enq deq (\<lambda>_ _. True) ops q"
proof (induction ops arbitrary: q)
  case (Cons op ops)
  then show ?case by (cases op) simp_all
qed simp

section \<open>Refinement\<close>

locale queue_refinement =
  fixes enq :: "uid \<Rightarrow> real \<Rightarrow> real \<Rightarrow> 'q \<Rightarrow> 'q"
    and deq :: "real \<Rightarrow> real \<Rightarrow> 'q \<Rightarrow> uid option \<times> 'q \<times> real"
    and view :: "'q \<Rightarrow> spec_queue"
    and good :: "'q \<Rightarrow> bool"
    and may :: "uid \<Rightarrow> 'q \<Rightarrow> bool"
  assumes view_enq: "good q \<Longrightarrow> may j q \<Longrightarrow> view (enq j delay t q) = sq_enqueue j delay t (view q) \<and> good (enq j delay t q)"
    and view_deq: "good q \<Longrightarrow> deq timeout t q = (x, q', s) \<Longrightarrow> sq_dequeue t (view q) x (view q') s \<and> good q'"
begin

lemma run_refines: "good q \<Longrightarrow> usable enq deq may ops q \<Longrightarrow> run_queue enq deq ops q = (xs, q') \<Longrightarrow> sq_run ops (view q) xs (view q')"
proof (induction ops arbitrary: q xs)
  case Nil
  then show ?case by (simp add: sq_run.finished)
next
  case (Cons op ops)
  show ?case
  proof (cases op)
    case (Enqueue j delay t)
    with Cons.prems view_enq [of q j delay t] Cons.IH [of "enq j delay t q" xs] show ?thesis
      by (auto intro: sq_run.enqueue)
  next
    case (Dequeue timeout t)
    obtain x q1 s where d: "deq timeout t q = (x, q1, s)" by (cases "deq timeout t q")
    obtain ys where ys: "run_queue enq deq ops q1 = (ys, q')" "xs = x # ys"
      using Cons.prems(3) by (auto simp: Dequeue d split: prod.splits)
    from view_deq [OF Cons.prems(1) d] Cons.IH [of q1 ys] Cons.prems(2) ys show ?thesis
      by (auto simp: Dequeue d intro: sq_run.dequeue)
  qed
qed

end

subsection \<open>The in-memory queue\<close>

definition mem_view :: "mem_queue \<Rightarrow> spec_queue" where
  "mem_view q = \<lparr>sq_ready = mq_ready q, sq_waiting = mset (mq_delayed q)\<rparr>"

lemma not_due: "filter_mset (\<lambda>e. \<not> fst e \<le> t) M = M - filter_mset (\<lambda>e. fst e \<le> (t :: real)) M"
  by (metis add_diff_cancel_left' multiset_partition)

lemma not_due_list: "mset (filter (\<lambda>e. t < fst e) xs) = mset xs - mset (filter (\<lambda>e. fst e \<le> (t :: real)) xs)"
  using not_due [of t "mset xs"] by (simp add: not_le)

lemma mem_promote_fields:
  "mq_ready (mem_promote t q) = mq_ready q @ map snd (filter (\<lambda>e. fst e \<le> t) (mq_delayed q))"
  "mset (mq_delayed (mem_promote t q)) = mset (mq_delayed q) - sq_due t (mem_view q)"
  "sq_due t (mem_view q) = mset (filter (\<lambda>e. fst e \<le> t) (mq_delayed q))"
  by (simp_all add: mem_view_def mem_promote_def sq_due_def case_prod_unfold not_due_list flip: mset_filter)

lemma mem_promote_idle:
  assumes "mq_ready (mem_promote t q) = []"
  shows "mem_view (mem_promote t q) = mem_view q \<and> sq_due t (mem_view q) = {#} \<and> mq_ready q = []"
  using assms mem_promote_fields [of t q] by (simp add: mem_view_def)

lemma mem_poll_refines:
  "mem_poll deadline t q = (x, q', s) \<Longrightarrow> sq_dequeue t (mem_view q) x (mem_view q') s"
proof (induction deadline t q rule: mem_poll.induct)
  case (1 deadline t q)
  show ?case
  proof (cases "mq_ready (mem_promote t q)")
    case (Cons j js)
    then have "x = Some j" "q' = (mem_promote t q)\<lparr>mq_ready := js\<rparr>" "s = t"
      using 1(2) by (auto simp: mem_poll.simps [of deadline t q])
    moreover have "sq_ready (mem_view q) @ map snd (filter (\<lambda>e. fst e \<le> t) (mq_delayed q)) = j # js"
      using Cons by (simp add: mem_promote_fields mem_view_def)
    ultimately show ?thesis
      using mem_promote_fields(2,3) [of t q] by (auto intro!: sq_dequeue.served simp: mem_view_def)
  next
    case Nil
    note idle = mem_promote_idle [OF Nil]
    show ?thesis
    proof (cases "t \<ge> deadline")
      case True
      with Nil 1(2) idle show ?thesis
        by (auto simp: mem_poll.simps [of deadline t q] mem_view_def intro!: sq_dequeue.nothing)
    next
      case False
      with Nil 1(2) have "mem_poll deadline (t + 1 / 100) (mem_promote t q) = (x, q', s)"
        by (simp add: mem_poll.simps [of deadline t q])
      from 1(1) [OF refl Nil False this] have "sq_dequeue (t + 1 / 100) (mem_view q) x (mem_view q') s" using idle by simp
      moreover have "sq_ready (mem_view q) = []" using idle by (simp add: mem_view_def)
      ultimately show ?thesis using idle later_dequeue by force
    qed
  qed
qed

interpretation mem_refines: queue_refinement mem_enqueue mem_dequeue mem_view "\<lambda>_. True" "\<lambda>_ _. True"
  by unfold_locales (auto simp: mem_enqueue_def sq_enqueue_def mem_view_def mem_dequeue_def dest: mem_poll_refines)

subsection \<open>The Redis queue\<close>

definition redis_view :: "redis_queue \<Rightarrow> spec_queue" where
  "redis_view q = \<lparr>sq_ready = rev (rq_ready q), sq_waiting = mset (rq_delayed q)\<rparr>"

definition redis_waits :: "uid \<Rightarrow> redis_queue \<Rightarrow> bool" where
  "redis_waits j q \<longleftrightarrow> j \<in> set (map snd (rq_delayed q))"

definition redis_ok :: "redis_queue \<Rightarrow> bool" where
  "redis_ok q \<longleftrightarrow> distinct (map snd (rq_delayed q))"

lemma zrem_members: "map snd (filter (\<lambda>e. snd e \<noteq> j) z) = filter (\<lambda>k. k \<noteq> j) (map snd z)"
  by (induction z) auto

lemma redis_move_all:
  assumes "distinct js" "set js \<subseteq> set (map snd (rq_delayed q))"
  shows "redis_move js q = q\<lparr>rq_delayed := filter (\<lambda>e. snd e \<notin> set js) (rq_delayed q), rq_ready := rev js @ rq_ready q\<rparr>"
  using assms
proof (induction js arbitrary: q)
  case (Cons j js)
  let ?q = "q\<lparr>rq_delayed := filter (\<lambda>e. snd e \<noteq> j) (rq_delayed q), rq_ready := j # rq_ready q\<rparr>"
  have "set js \<subseteq> set (map snd (rq_delayed ?q))" using Cons.prems by (auto simp: zrem_members simp del: set_map)
  with Cons.IH [of ?q] Cons.prems have "redis_move js ?q =
      ?q\<lparr>rq_delayed := filter (\<lambda>e. snd e \<notin> set js) (rq_delayed ?q), rq_ready := rev js @ rq_ready ?q\<rparr>" by auto
  moreover have "j \<in> snd ` set (rq_delayed q)" using Cons.prems by auto
  ultimately show ?case by (simp add: zrem_def conj_commute)
qed simp

lemma redis_promote_view:
  assumes "redis_ok q"
  shows "rq_ready (redis_promote t q) = rev (map snd (filter (\<lambda>e. fst e \<le> t) (rq_delayed q))) @ rq_ready q"
    "mset (rq_delayed (redis_promote t q)) = mset (rq_delayed q) - sq_due t (redis_view q)"
    "sq_due t (redis_view q) = mset (filter (\<lambda>e. fst e \<le> t) (rq_delayed q))" "redis_ok (redis_promote t q)"
proof -
  let ?due = "map snd (filter (\<lambda>e. fst e \<le> t) (rq_delayed q))"
  have d: "distinct ?due" using assms by (simp add: redis_ok_def distinct_map_filter)
  then have move: "redis_promote t q = q\<lparr>rq_delayed := filter (\<lambda>e. snd e \<notin> set ?due) (rq_delayed q), rq_ready := rev ?due @ rq_ready q\<rparr>"
    unfolding redis_promote_def by (rule redis_move_all) auto
  have "snd e \<notin> set ?due \<longleftrightarrow> \<not> fst e \<le> t" if "e \<in> set (rq_delayed q)" for e
    using that assms by (auto simp: redis_ok_def distinct_map dest: inj_onD)
  then have rest: "filter (\<lambda>e. snd e \<notin> set ?due) (rq_delayed q) = filter (\<lambda>e. \<not> fst e \<le> t) (rq_delayed q)" by (rule filter_cong [OF refl])
  show "rq_ready (redis_promote t q) = rev ?due @ rq_ready q" by (simp add: move)
  show due: "sq_due t (redis_view q) = mset (filter (\<lambda>e. fst e \<le> t) (rq_delayed q))" by (simp add: sq_due_def redis_view_def)
  show "mset (rq_delayed (redis_promote t q)) = mset (rq_delayed q) - sq_due t (redis_view q)"
    unfolding move due using rest by (simp add: not_due)
  show "redis_ok (redis_promote t q)" unfolding move using assms by (simp add: redis_ok_def distinct_map_filter)
qed

interpretation redis_refines: queue_refinement redis_enqueue redis_dequeue redis_view redis_ok "\<lambda>j q. \<not> redis_waits j q"
proof (unfold_locales, goal_cases)
  case (1 q j delay t)
  then have "filter (\<lambda>e. snd e \<noteq> j) (rq_delayed q) = rq_delayed q" by (auto simp: redis_waits_def filter_id_conv)
  moreover have "distinct (map snd (insort (t + delay, j) (rq_delayed q)))"
  proof -
    have "mset (map snd (insort (t + delay, j) (rq_delayed q))) = mset (j # map snd (rq_delayed q))" by simp
    then show ?thesis using 1 mset_eq_imp_distinct_iff by (fastforce simp: redis_ok_def redis_waits_def)
  qed
  ultimately show ?case using 1
    by (auto simp: redis_enqueue_def sq_enqueue_def redis_view_def zadd_def redis_ok_def)
next
  case (2 q timeout t x q' s)
  note p = redis_promote_view [OF 2(1), of t]
  let ?q = "redis_promote t q" and ?due = "filter (\<lambda>e. fst e \<le> t) (rq_delayed q)"
  show ?case
  proof (cases "rq_ready ?q = []")
    case True
    with p have "redis_view ?q = redis_view q" "sq_due t (redis_view q) = {#}" "sq_ready (redis_view q) = []"
      by (simp_all add: redis_view_def)
    with True 2(2) p(4) show ?thesis by (auto simp: redis_dequeue_def Let_def intro!: sq_dequeue.nothing)
  next
    case False
    then have "rev (rq_ready ?q) = last (rq_ready ?q) # rev (butlast (rq_ready ?q))"
      by (metis append_butlast_last_id rev.simps(2) rev_rev_ident)
    then have "sq_ready (redis_view q) @ map snd ?due = last (rq_ready ?q) # rev (butlast (rq_ready ?q))"
      by (simp add: p(1) redis_view_def)
    with False 2(2) p(2-4) show ?thesis
      by (auto simp: redis_dequeue_def Let_def redis_view_def redis_ok_def intro!: sq_dequeue.served)
  qed
qed

section \<open>No job is lost or served twice\<close>

definition sq_empty :: spec_queue where
  "sq_empty = \<lparr>sq_ready = [], sq_waiting = {#}\<rparr>"

definition sq_jobs :: "spec_queue \<Rightarrow> uid multiset" where
  "sq_jobs q = mset (sq_ready q) + image_mset snd (sq_waiting q)"

fun op_job :: "queue_op \<Rightarrow> uid option" where
  "op_job (Enqueue j delay t) = Some j"
| "op_job (Dequeue timeout t) = None"

definition some_jobs :: "uid option list \<Rightarrow> uid multiset" where
  "some_jobs xs = image_mset the (filter_mset (\<lambda>x. x \<noteq> None) (mset xs))"

lemma sq_dequeue_jobs:
  "sq_dequeue t q x q' s \<Longrightarrow> sq_jobs q = some_jobs [x] + sq_jobs q'"
proof (induction rule: sq_dequeue.induct)
  case (served t s due q j js q')
  have "sq_due s q \<subseteq># sq_waiting q" by (simp add: sq_due_def)
  then have "sq_waiting q = mset due + (sq_waiting q - mset due)" by (simp add: served)
  then have "image_mset snd (sq_waiting q) = mset (map snd due) + image_mset snd (sq_waiting q - mset due)"
    by (metis image_mset_union mset_map)
  moreover have "mset (sq_ready q) + mset (map snd due) = add_mset j (mset js)"
    by (metis mset.simps(2) mset_append served(3))
  ultimately have "mset (sq_ready q) + image_mset snd (sq_waiting q) = add_mset j (mset js + image_mset snd (sq_waiting q - mset due))"
    by (metis union_assoc union_mset_add_mset_left)
  then show ?case using served by (simp add: sq_jobs_def some_jobs_def)
qed (simp_all add: some_jobs_def)

lemma sq_run_jobs: "sq_run ops q xs q' \<Longrightarrow> sq_jobs q + some_jobs (map op_job ops) = some_jobs xs + sq_jobs q'"
proof (induction rule: sq_run.induct)
  case (enqueue ops j delay t q xs q')
  then show ?case by (simp add: sq_enqueue_def sq_jobs_def some_jobs_def split: if_splits)
next
  case (dequeue t q x q1 s ops xs q' timeout)
  from sq_dequeue_jobs [OF dequeue(1)] dequeue(3) show ?case by (simp add: some_jobs_def ac_simps)
qed (simp add: some_jobs_def)

section \<open>Properties\<close>


definition example_ops :: "queue_op list" where
  "example_ops = [Enqueue 1 0 0, Enqueue 2 5 0, Enqueue 3 0 1, Dequeue 0 2, Dequeue 0 2, Dequeue 0 6]"


end
