(* ===== verification/Regex.thy ===== *)
theory Regex
  imports PyStr
begin

text \<open>
  The part of Python's \<open>re\<close> the program uses, on \<^typ>\<open>string\<close>: character classes, sequences,
  ordered alternatives, greedy bounded repetition, word boundaries and one-character lookaround.
  A position of a text is the character before it and what is left. \<open>rmatch\<close> lists where a match
  can end in the order in which backtracking tries the ends, so the first element is the match
  \<open>re\<close> reports; \<open>finditer\<close> and \<open>resub\<close> scan from left to right without overlaps.
\<close>

type_synonym pos = "char option \<times> string"

datatype regex =
    Eps
  | Chr "char \<Rightarrow> bool"
  | Seq regex regex
  | Alt regex regex
  | Rep nat "nat option" regex
  | Bound
  | NotAfter "char \<Rightarrow> bool"
  | NotBefore "char \<Rightarrow> bool"

definition next_is :: "(char \<Rightarrow> bool) \<Rightarrow> pos \<Rightarrow> bool" where
  "next_is p x = (case snd x of [] \<Rightarrow> False | c # _ \<Rightarrow> p c)"

definition prev_is :: "(char \<Rightarrow> bool) \<Rightarrow> pos \<Rightarrow> bool" where
  "prev_is p x = (case fst x of None \<Rightarrow> False | Some c \<Rightarrow> p c)"

text \<open>
  At least \<open>m\<close> and at most \<open>n\<close> times, longest first. Without an upper bound the rest of the text
  bounds the number of rounds, since a round of the patterns here consumes a character.
\<close>

fun rep :: "(pos \<Rightarrow> pos list) \<Rightarrow> nat \<Rightarrow> nat \<Rightarrow> pos \<Rightarrow> pos list" where
  "rep f m 0 x = (if m = 0 then [x] else [])"
| "rep f m (Suc n) x = concat (map (rep f (m - 1) n) (f x)) @ (if m = 0 then [x] else [])"

primrec rmatch :: "regex \<Rightarrow> pos \<Rightarrow> pos list" where
  "rmatch Eps x = [x]"
| "rmatch (Chr p) x = (case snd x of [] \<Rightarrow> [] | c # s \<Rightarrow> if p c then [(Some c, s)] else [])"
| "rmatch (Seq r q) x = concat (map (rmatch q) (rmatch r x))"
| "rmatch (Alt r q) x = rmatch r x @ rmatch q x"
| "rmatch (Rep m n r) x = rep (rmatch r) m (case n of None \<Rightarrow> m + length (snd x) | Some k \<Rightarrow> k) x"
| "rmatch Bound x = (if prev_is is_word x = next_is is_word x then [] else [x])"
| "rmatch (NotAfter p) x = (if prev_is p x then [] else [x])"
| "rmatch (NotBefore p) x = (if next_is p x then [] else [x])"

text \<open>Patterns over texts; \<open>lit_nc\<close> ignores the case of a lower-case literal (\<open>re.IGNORECASE\<close>).\<close>

fun seqs :: "regex list \<Rightarrow> regex" where
  "seqs [] = Eps"
| "seqs [r] = r"
| "seqs (r # q # rs) = Seq r (seqs (q # rs))"

fun alts :: "regex list \<Rightarrow> regex" where
  "alts [] = Chr (\<lambda>_. False)"
| "alts [r] = r"
| "alts (r # q # rs) = Alt r (alts (q # rs))"

definition lit :: "string \<Rightarrow> regex" where
  "lit w = seqs (map (\<lambda>c. Chr (\<lambda>d. d = c)) w)"

definition lit_nc :: "string \<Rightarrow> regex" where
  "lit_nc w = seqs (map (\<lambda>c. Chr (\<lambda>d. lower_char d = c)) w)"

definition opt :: "regex \<Rightarrow> regex" where
  "opt r = Rep 0 (Some 1) r"

definition plus :: "regex \<Rightarrow> regex" where
  "plus r = Rep 1 None r"

definition star :: "regex \<Rightarrow> regex" where
  "star r = Rep 0 None r"

section \<open>Scanning\<close>

text \<open>The spans of the successive matches in a text whose first character has index \<open>i\<close>.\<close>

function finditer_from :: "regex \<Rightarrow> nat \<Rightarrow> pos \<Rightarrow> (nat \<times> nat) list" where
  "finditer_from r i (p, s) =
     (case rmatch r (p, s) of
        y # _ \<Rightarrow>
          (let n = length s - length (snd y) in
           if 0 < n then (i, i + n) # finditer_from r (i + n) (Some (s ! (n - 1)), drop n s)
           else (i, i) # (case s of [] \<Rightarrow> [] | c # t \<Rightarrow> finditer_from r (Suc i) (Some c, t)))
      | [] \<Rightarrow> (case s of [] \<Rightarrow> [] | c # t \<Rightarrow> finditer_from r (Suc i) (Some c, t)))"
  by pat_completeness auto
termination
  by (relation "measure (\<lambda>(r, i, p, s). length s)") auto

declare finditer_from.simps [simp del]

definition finditer :: "regex \<Rightarrow> string \<Rightarrow> (nat \<times> nat) list" where
  "finditer r s = finditer_from r 0 (None, s)"

definition slice :: "string \<Rightarrow> nat \<Rightarrow> nat \<Rightarrow> string" where
  "slice s a b = take (b - a) (drop a s)"

text \<open>\<open>re.sub\<close>: each match replaced by what \<open>f\<close> makes of it.\<close>

fun sub_spans :: "(string \<Rightarrow> string) \<Rightarrow> string \<Rightarrow> nat \<Rightarrow> (nat \<times> nat) list \<Rightarrow> string" where
  "sub_spans f s i [] = drop i s"
| "sub_spans f s i ((a, b) # spans) = slice s i a @ f (slice s a b) @ sub_spans f s b spans"

definition resub :: "regex \<Rightarrow> (string \<Rightarrow> string) \<Rightarrow> string \<Rightarrow> string" where
  "resub r f s = sub_spans f s 0 (finditer r s)"

text \<open>\<open>search\<close> for a pattern of two parts whose second is a group: the text of the group.\<close>

fun first_group :: "regex \<Rightarrow> pos list \<Rightarrow> string option" where
  "first_group r [] = None"
| "first_group r (y # ys) =
     (case rmatch r y of [] \<Rightarrow> first_group r ys
      | z # _ \<Rightarrow> Some (take (length (snd y) - length (snd z)) (snd y)))"

fun search_group :: "regex \<Rightarrow> regex \<Rightarrow> pos \<Rightarrow> string option" where
  "search_group r g (p, s) =
     (case first_group g (rmatch r (p, s)) of
        Some w \<Rightarrow> Some w
      | None \<Rightarrow> (case s of [] \<Rightarrow> None | c # t \<Rightarrow> search_group r g (Some c, t)))"

section \<open>Lemmas\<close>

text \<open>A match consumes a prefix of what is left, and the new previous character is its last.\<close>

definition consumed :: "pos \<Rightarrow> pos \<Rightarrow> string \<Rightarrow> bool" where
  "consumed x y u \<longleftrightarrow> snd x = u @ snd y \<and> fst y = (if u = [] then fst x else Some (last u))"

lemma consumed_Nil [simp]: "consumed x x []"
  by (simp add: consumed_def)

lemma consumed_append: "consumed x y u \<Longrightarrow> consumed y z v \<Longrightarrow> consumed x z (u @ v)"
  by (auto simp: consumed_def)

text \<open>
  The words a pattern can match: an induction principle for facts about matches, blind to where
  the match stands.
\<close>

inductive word_of :: "regex \<Rightarrow> string \<Rightarrow> bool" where
  W_Eps: "word_of Eps []"
| W_Chr: "p c \<Longrightarrow> word_of (Chr p) [c]"
| W_Seq: "word_of r u \<Longrightarrow> word_of q v \<Longrightarrow> word_of (Seq r q) (u @ v)"
| W_AltL: "word_of r u \<Longrightarrow> word_of (Alt r q) u"
| W_AltR: "word_of q u \<Longrightarrow> word_of (Alt r q) u"
| W_Rep: "list_all (word_of r) us \<Longrightarrow> m \<le> length us \<Longrightarrow> (case n of None \<Rightarrow> True | Some k \<Rightarrow> length us \<le> k) \<Longrightarrow>
          word_of (Rep m n r) (concat us)"
| W_Bound: "word_of Bound []"
| W_NotAfter: "word_of (NotAfter p) []"
| W_NotBefore: "word_of (NotBefore p) []"
monos list_all_iff


lemma rep_word:
  assumes f: "\<And>x y. y \<in> set (f x) \<Longrightarrow> \<exists>u. consumed x y u \<and> P u"
  shows "y \<in> set (rep f m n x) \<Longrightarrow>
    \<exists>us. consumed x y (concat us) \<and> list_all P us \<and> m \<le> length us \<and> length us \<le> n"
proof (induction n arbitrary: m x)
  case 0
  then have "y = x" "m = 0" by (auto split: if_splits)
  then show ?case by (intro exI [of _ "[]"]) simp
next
  case (Suc n)
  from Suc.prems consider (round) z where "z \<in> set (f x)" "y \<in> set (rep f (m - 1) n z)" | (stop) "m = 0" "y = x"
    by (auto split: if_splits)
  then show ?case
  proof cases
    case round
    from f [OF round(1)] obtain u where u: "consumed x z u" "P u" by blast
    from Suc.IH [OF round(2)] obtain us where us: "consumed z y (concat us)" "list_all P us" "m - 1 \<le> length us" "length us \<le> n"
      by blast
    with u show ?thesis by (intro exI [of _ "u # us"]) (auto dest: consumed_append)
  next
    case stop
    then show ?thesis by (intro exI [of _ "[]"]) simp
  qed
qed

lemma rmatch_word: "y \<in> set (rmatch r x) \<Longrightarrow> \<exists>u. consumed x y u \<and> word_of r u"
proof (induction r arbitrary: x y)
  case Eps
  then show ?case by (auto intro!: exI [of _ "[]"] word_of.intros)
next
  case (Chr p)
  then obtain c s where "snd x = c # s" "p c" "y = (Some c, s)"
    by (cases "snd x") (auto split: if_splits)
  then show ?case by (intro exI [of _ "[c]"]) (simp add: consumed_def word_of.intros)
next
  case (Seq r q)
  then obtain z where z: "z \<in> set (rmatch r x)" "y \<in> set (rmatch q z)" by auto
  from Seq.IH(1) [OF z(1)] Seq.IH(2) [OF z(2)] show ?case
    by (blast dest: consumed_append intro: word_of.intros)
next
  case (Alt r q)
  then consider "y \<in> set (rmatch r x)" | "y \<in> set (rmatch q x)" by auto
  then show ?case using Alt.IH by cases (meson word_of.intros)+
next
  case (Rep m n r)
  then have "y \<in> set (rep (rmatch r) m (case n of None \<Rightarrow> m + length (snd x) | Some k \<Rightarrow> k) x)" by simp
  from rep_word [OF Rep.IH this] obtain us where "consumed x y (concat us)" "list_all (word_of r) us" "m \<le> length us"
    "length us \<le> (case n of None \<Rightarrow> m + length (snd x) | Some k \<Rightarrow> k)" by blast
  then show ?case by (intro exI [of _ "concat us"] conjI word_of.intros) (auto split: option.splits)
next
  case Bound
  then show ?case by (auto intro!: exI [of _ "[]"] word_of.intros split: if_splits)
next
  case (NotAfter p)
  then show ?case by (auto intro!: exI [of _ "[]"] word_of.intros split: if_splits)
next
  case (NotBefore p)
  then show ?case by (auto intro!: exI [of _ "[]"] word_of.intros split: if_splits)
qed

inductive_cases word_EpsE [elim!]: "word_of Eps u"
inductive_cases word_ChrE [elim!]: "word_of (Chr p) u"
inductive_cases word_SeqE [elim!]: "word_of (Seq r q) u"
inductive_cases word_AltE [elim!]: "word_of (Alt r q) u"
inductive_cases word_RepE [elim!]: "word_of (Rep m n r) u"
inductive_cases word_BoundE [elim!]: "word_of Bound u"
inductive_cases word_NotAfterE [elim!]: "word_of (NotAfter p) u"
inductive_cases word_NotBeforeE [elim!]: "word_of (NotBefore p) u"

text \<open>A repeated character class.\<close>

lemma word_of_class: "list_all (word_of (Chr p)) us \<Longrightarrow> list_all p (concat us) \<and> length (concat us) = length us"
  by (induction us) auto

lemma word_of_Rep_class:
  "word_of (Rep m n (Chr p)) u \<Longrightarrow>
   list_all p u \<and> m \<le> length u \<and> (case n of None \<Rightarrow> True | Some k \<Rightarrow> length u \<le> k)"
  by (erule word_RepE) (auto dest: word_of_class split: option.splits)

lemma slice_drop: "slice (drop i s) a b = slice s (i + a) (i + b)"
  by (simp add: slice_def add.commute)

lemma length_slice [simp]: "length (slice s a b) = min (b - a) (length s - a)"
  by (simp add: slice_def min.commute)

definition prev_at :: "string \<Rightarrow> nat \<Rightarrow> char option" where
  "prev_at s a = (if a = 0 then None else Some (s ! (a - 1)))"

text \<open>What a reported span means, and that spans do not overlap.\<close>

definition match_at :: "regex \<Rightarrow> string \<Rightarrow> nat \<Rightarrow> nat \<Rightarrow> bool" where
  "match_at r s a b \<longleftrightarrow> a \<le> b \<and> b \<le> length s \<and>
     (\<exists>y ys. rmatch r (prev_at s a, drop a s) = y # ys \<and> snd y = drop b s)"

lemma finditer_from_spec:
  "i \<le> length s \<Longrightarrow> p = prev_at s i \<Longrightarrow> t = drop i s \<Longrightarrow>
   sorted_wrt (\<lambda>x y. snd x \<le> fst y) (finditer_from r i (p, t)) \<and>
   (\<forall>(a, b) \<in> set (finditer_from r i (p, t)). i \<le> a \<and> match_at r s a b) \<and>
   (\<forall>a. i \<le> a \<and> a \<le> length s \<and> rmatch r (prev_at s a, drop a s) \<noteq> [] \<longrightarrow>
      (\<exists>(b, c) \<in> set (finditer_from r i (p, t)). b \<le> a \<and> (a < c \<or> a = b)))"
proof (induction r i "(p, t)" arbitrary: p t rule: finditer_from.induct)
  case (1 r i p t)
  note i = "1.prems"(1) and p = "1.prems"(2) and t = "1.prems"(3)
  have nxt: "c = s ! i" "t' = drop (Suc i) s" "i < length s" if "t = c # t'" for c t'
  proof -
    from that t show len: "i < length s" by (cases "i < length s") auto
    from that t Cons_nth_drop_Suc [OF len] show "c = s ! i" "t' = drop (Suc i) s" by simp_all
  qed
  have step: "(i \<le> a) = (a = i \<or> Suc i \<le> a)" for a by auto
  show ?case
  proof (cases "rmatch r (p, t)")
    case Nil
    show ?thesis
    proof (cases t)
      case Nil
      then have "i = length s" using i t by auto
      with Nil \<open>rmatch r (p, t) = []\<close> p t show ?thesis
        by (auto simp: finditer_from.simps)
    next
      case (Cons c t')
      note n = nxt [OF Cons]
      have "finditer_from r i (p, t) = finditer_from r (Suc i) (Some c, t')"
        using Nil Cons by (simp add: finditer_from.simps)
      moreover have "Suc i \<le> length s" "Some c = prev_at s (Suc i)" using n by (simp_all add: prev_at_def)
      ultimately show ?thesis
        using "1.hyps"(1) [OF Nil Cons] n(2) Nil p t by (auto simp: step)
    qed
  next
    case (Cons y ys)
    obtain u where u: "consumed (p, t) y u" using rmatch_word [of y r "(p, t)"] Cons by auto
    let ?n = "length t - length (snd y)"
    have len: "?n = length u" "snd y = drop (length u) t" "length u \<le> length t"
      using u by (auto simp: consumed_def)
    have at: "match_at r s i (i + ?n)"
      using i t p Cons len by (auto simp: match_at_def add.commute)
    show ?thesis
    proof (cases "0 < ?n")
      case True
      have eq: "finditer_from r i (p, t) = (i, i + ?n) # finditer_from r (i + ?n) (Some (t ! (?n - 1)), drop ?n t)"
        using Cons True by (simp add: finditer_from.simps Let_def)
      have "i + ?n \<le> length s" using len t i by auto
      moreover have "Some (t ! (?n - 1)) = prev_at s (i + ?n)"
        using True t i by (auto simp: prev_at_def nth_drop)
      moreover have "drop ?n t = drop (i + ?n) s" by (simp add: t add.commute)
      ultimately have IH: "sorted_wrt (\<lambda>x y. snd x \<le> fst y) (finditer_from r (i + ?n) (Some (t ! (?n - 1)), drop ?n t))"
        "\<forall>(a, b) \<in> set (finditer_from r (i + ?n) (Some (t ! (?n - 1)), drop ?n t)). i + ?n \<le> a \<and> match_at r s a b"
        "\<forall>a. i + ?n \<le> a \<and> a \<le> length s \<and> rmatch r (prev_at s a, drop a s) \<noteq> [] \<longrightarrow>
          (\<exists>(b, c) \<in> set (finditer_from r (i + ?n) (Some (t ! (?n - 1)), drop ?n t)). b \<le> a \<and> (a < c \<or> a = b))"
        using "1.hyps"(2) [OF Cons refl True] by blast+
      show ?thesis
      proof (intro conjI)
        show "sorted_wrt (\<lambda>x y. snd x \<le> fst y) (finditer_from r i (p, t))" unfolding eq using IH(1,2) by auto
        show "\<forall>(a, b) \<in> set (finditer_from r i (p, t)). i \<le> a \<and> match_at r s a b" unfolding eq using IH(2) at by auto
        show "\<forall>a. i \<le> a \<and> a \<le> length s \<and> rmatch r (prev_at s a, drop a s) \<noteq> [] \<longrightarrow>
            (\<exists>(b, c) \<in> set (finditer_from r i (p, t)). b \<le> a \<and> (a < c \<or> a = b))"
        proof (intro allI impI)
          fix a assume a: "i \<le> a \<and> a \<le> length s \<and> rmatch r (prev_at s a, drop a s) \<noteq> []"
          show "\<exists>(b, c) \<in> set (finditer_from r i (p, t)). b \<le> a \<and> (a < c \<or> a = b)"
            unfolding eq using a IH(3) by (cases "i + ?n \<le> a") (fastforce, force)
        qed
      qed
    next
      case False
      show ?thesis
      proof (cases t)
        case Nil
        then have "i = length s" using i t by auto
        with Nil Cons False p t at show ?thesis by (auto simp: finditer_from.simps Let_def)
      next
        case tt: (Cons c t')
        note n = nxt [OF tt]
        have eq: "finditer_from r i (p, t) = (i, i) # finditer_from r (Suc i) (Some c, t')"
          using Cons False tt by (simp add: finditer_from.simps Let_def)
        have "Suc i \<le> length s" "Some c = prev_at s (Suc i)" using n by (simp_all add: prev_at_def)
        with "1.hyps"(3) [OF Cons refl False tt] n(2) at False show ?thesis
          unfolding eq by (auto simp: step)
      qed
    qed
  qed
qed

lemma finditer_sorted: "sorted_wrt (\<lambda>x y. snd x \<le> fst y) (finditer r s)"
  using finditer_from_spec [of 0 s None s r] by (simp add: finditer_def prev_at_def)

lemma finditer_match: "(a, b) \<in> set (finditer r s) \<Longrightarrow> match_at r s a b"
  using finditer_from_spec [of 0 s None s r] by (auto simp: finditer_def prev_at_def)

lemma finditer_complete:
  "match_at r s a b \<Longrightarrow> \<exists>(c, d) \<in> set (finditer r s). c \<le> a \<and> (a < d \<or> a = c)"
  using finditer_from_spec [of 0 s None s r] by (auto simp: finditer_def prev_at_def match_at_def)

lemma match_at_word: "match_at r s a b \<Longrightarrow> word_of r (slice s a b)"
proof -
  assume "match_at r s a b"
  then obtain y where ab: "a \<le> b" "b \<le> length s" and y: "y \<in> set (rmatch r (prev_at s a, drop a s))" "snd y = drop b s"
    unfolding match_at_def by (metis list.set_intros(1))
  from rmatch_word [OF y(1)] obtain u where u: "drop a s = u @ snd y" "word_of r u" by (auto simp: consumed_def)
  have "length (drop a s) = length u + length (drop b s)" using u(1) y(2) by simp
  with ab have "length u = b - a" by simp
  with u(1) have "slice s a b = u" by (simp add: slice_def)
  with u(2) show ?thesis by simp
qed

lemma match_at_bounds: "match_at r s a b \<Longrightarrow> a \<le> b \<and> b \<le> length s"
  by (simp add: match_at_def)

end
