(* ===== verification/Runner.thy ===== *)
theory Runner
  imports JobRepo JobQueue
begin

text \<open>
  \<open>workers/runner.py\<close>, \<open>workers/registry.py\<close> and the bot-side submission of
  \<open>apps/bot/jobs.py\<close>: dequeue, dispatch, drive the job state machine, retry with backoff, notify.
  What a registered handler does is a parameter (a \<open>handler_run\<close>): the progress ticks it makes,
  the cancel requests that arrive from outside meanwhile, its outcome and its effect on the other
  tables. Every queue operation goes through the \<open>job_queue\<close> interface.
\<close>

section \<open>Handlers, notifications and the world of a worker\<close>

record notification =
  nt_chat_id :: json
  nt_text :: string
  nt_parse_mode :: "string option"

record outcome =
  oc_summary :: json
  oc_notification :: "notification option"

text \<open>What happens between the pick-up of a job and the end of its handler.\<close>

datatype dispatch_event = Tick int | CancelRequest

record handler_run =
  hr_events :: "dispatch_event list"
  hr_result :: "exn + outcome"
  hr_work :: "db \<Rightarrow> db"

record 'q world =
  wd_db :: db
  wd_queue :: 'q
  wd_sent :: "notification list"
  wd_clock :: real

text \<open>\<open>JobContext.progress\<close> clamps before the runner's callback does.\<close>

definition ctx_progress :: "int \<Rightarrow> int" where
  "ctx_progress percent = max 0 (min 100 percent)"

definition ctx_params :: "job \<Rightarrow> json" where
  "ctx_params j = job_params j"

section \<open>Cancelling and submitting (\<open>apps/bot/jobs.py\<close>)\<close>

definition cancel_job :: "uid \<Rightarrow> (db, bool) action" where
  "cancel_job jid = session_scope (\<lambda>d.
     case job_get d jid of
       None \<Rightarrow> (Inr False, d)
     | Some j \<Rightarrow>
         if is_terminal (job_st j) then (Inr False, d)
         else (case transition jid CANCELLED None None None d of
                 (Inl (IllegalJobStateTransition _), d') \<Rightarrow> (Inr False, d')
               | (Inl e, d') \<Rightarrow> (Inl e, d')
               | (Inr _, d') \<Rightarrow> (Inr True, d')))"

text \<open>
  \<open>submit_job\<close>: the row is committed before the queue sees the id; \<open>q_up\<close> says whether the
  queue accepts it. When it does not, the row is failed so that no PENDING row is left that the
  worker never sees, and the error goes to the caller.
\<close>

definition submit_job ::
  "(uid \<Rightarrow> real \<Rightarrow> real \<Rightarrow> 'q \<Rightarrow> 'q) \<Rightarrow> bool \<Rightarrow> string \<Rightarrow> json \<Rightarrow> string option \<Rightarrow>
   ('q world, uid) action" where
  "submit_job enq q_up kind params requested_by w =
     (case session_scope (job_create kind (Some params) requested_by 3) (wd_db w) of
        (Inl e, d) \<Rightarrow> (Inl e, w\<lparr>wd_db := d\<rparr>)
      | (Inr j, d) \<Rightarrow>
          if q_up
          then (Inr (job_id j), w\<lparr>wd_db := d, wd_queue := enq (job_id j) 0 (wd_clock w) (wd_queue w)\<rparr>)
          else (case session_scope (transition (job_id j) FAILED None
                        (Some ''queue unavailable at submit time'') None) d of
                  (Inl e, d') \<Rightarrow> (Inl e, w\<lparr>wd_db := d'\<rparr>)
                | (Inr _, d') \<Rightarrow> (Inl (RuntimeError ''queue unavailable''), w\<lparr>wd_db := d'\<rparr>)))"

text \<open>
  \<open>find_job_id\<close>: the id a prefix stands for when exactly one of the (at most two) rows fetched
  matches the pattern, in which the wildcards of the text are not escaped; \<open>show_id\<close> is the text of a key.
\<close>

definition find_job_id :: "(uid \<Rightarrow> string) \<Rightarrow> string \<Rightarrow> string option \<Rightarrow> db \<Rightarrow> uid option" where
  "find_job_id show_id pre requested_by d =
     (let rows = take 2 (filter (\<lambda>j. like (pre @ ''%'') (show_id (job_id j)) \<and>
                   (requested_by = None \<or> job_requested_by j = requested_by)) (jobs d))
      in if length rows = 1 then Some (job_id (hd rows)) else None)"

section \<open>The runner\<close>

text \<open>
  \<open>_progress\<close> and the cancel requests run in sessions of their own; a progress tick that the
  state machine refuses raises inside the handler, which ends it. The handler's own session
  commits its work only when it returns.
\<close>

fun dispatch :: "dispatch_event list \<Rightarrow> (exn + outcome) \<Rightarrow> (db \<Rightarrow> db) \<Rightarrow> uid \<Rightarrow> (db, outcome) action" where
  "dispatch [] (Inl e) work jid d = (Inl e, d)"
| "dispatch [] (Inr oc) work jid d = (Inr oc, work d)"
| "dispatch (Tick p # es) r work jid d =
     (case session_scope (transition jid RUNNING (Some (ctx_progress p)) None None) d of
        (Inl e, d') \<Rightarrow> (Inl e, d')
      | (Inr _, d') \<Rightarrow> dispatch es r work jid d')"
| "dispatch (CancelRequest # es) r work jid d = dispatch es r work jid (snd (cancel_job jid d))"

text \<open>The first session of \<open>_process\<close>: skip, fail, or move to RUNNING; returns the job to run.\<close>

definition process_start :: "(string \<Rightarrow> bool) \<Rightarrow> uid \<Rightarrow> (db, job option) action" where
  "process_start known jid = session_scope (\<lambda>d.
     case job_get d jid of
       None \<Rightarrow> (Inr None, d)
     | Some j \<Rightarrow>
         if is_terminal (job_st j) then (Inr None, d)
         else if \<not> known (job_kind j) then
           (case transition jid FAILED None (Some (''no handler for kind '' @ job_kind j)) None d of
              (Inl e, d') \<Rightarrow> (Inl e, d') | (Inr _, d') \<Rightarrow> (Inr None, d'))
         else
           (case transition jid RUNNING (Some 0) None None d of
              (Inl (IllegalJobStateTransition _), d') \<Rightarrow> (Inr None, d')
            | (Inl e, d') \<Rightarrow> (Inl e, d')
            | (Inr j', d') \<Rightarrow> (Inr (Some j'), d')))"

text \<open>The last session of \<open>_process\<close>; the value says whether the outcome is to be delivered.\<close>

definition process_finish :: "uid \<Rightarrow> outcome \<Rightarrow> (db, bool) action" where
  "process_finish jid oc = session_scope (\<lambda>d.
     case job_get d jid of
       Some j \<Rightarrow>
         if job_st j = CANCELLED then (Inr False, d)
         else (case transition jid COMPLETED (Some 100) None (Some (oc_summary oc)) d of
                 (Inl e, d') \<Rightarrow> (Inl e, d') | (Inr _, d') \<Rightarrow> (Inr True, d'))
     | None \<Rightarrow>
         (case transition jid COMPLETED (Some 100) None (Some (oc_summary oc)) d of
            (Inl e, d') \<Rightarrow> (Inl e, d') | (Inr _, d') \<Rightarrow> (Inr True, d')))"

text \<open>\<open>_deliver\<close> drops a notification whose chat id is falsy; a failing notifier is swallowed.\<close>

fun falsy :: "json \<Rightarrow> bool" where
  "falsy JNull = True"
| "falsy (JBool b) = (\<not> b)"
| "falsy (JInt i) = (i = 0)"
| "falsy (JStr s) = (s = [])"
| "falsy (JList l) = (l = [])"
| "falsy (JObj m) = (m = [])"

definition deliver :: "notification \<Rightarrow> 'q world \<Rightarrow> 'q world" where
  "deliver n w = (if falsy (nt_chat_id n) then w else w\<lparr>wd_sent := wd_sent w @ [n]\<rparr>)"

definition chat_id_of :: "uid \<Rightarrow> db \<Rightarrow> json" where
  "chat_id_of jid d =
     (case job_get d jid of
        None \<Rightarrow> JNull
      | Some j \<Rightarrow> (case json_get ''chat_id'' (job_params j) of None \<Rightarrow> JNull | Some c \<Rightarrow> c))"

definition failure_note :: "json \<Rightarrow> notification" where
  "failure_note chat = \<lparr>nt_chat_id = (if falsy chat then JInt 0 else chat),
     nt_text = ''Collection failed. Source unavailable.'', nt_parse_mode = None\<rparr>"

text \<open>
  \<open>_on_failure\<close>: FAILED, then PENDING again with exponential backoff while retries are left
  (the exponent is the counter after it was bumped), otherwise a generic notification. The
  enqueue happens inside the session; an exception of the session propagates.
\<close>

definition on_failure ::
  "(uid \<Rightarrow> real \<Rightarrow> real \<Rightarrow> 'q \<Rightarrow> 'q) \<Rightarrow> real \<Rightarrow> uid \<Rightarrow> exn \<Rightarrow> ('q world, unit) action" where
  "on_failure enq base jid e w =
     (let d = wd_db w in
      case job_get d jid of
        None \<Rightarrow> (Inr (), w)
      | Some _ \<Rightarrow>
          (case transition jid FAILED None (Some (exn_text e)) None d of
             (Inl x, _) \<Rightarrow> (Inl x, w)
           | (Inr j, d1) \<Rightarrow>
               if job_retry_count j < job_max_retries j then
                 (case transition jid PENDING None None None d1 of
                    (Inl x, _) \<Rightarrow> (Inl x, w)
                  | (Inr j2, d2) \<Rightarrow>
                      (Inr (), w\<lparr>wd_db := d2, wd_queue :=
                         enq jid (base * 2 ^ job_retry_count j2) (wd_clock w) (wd_queue w)\<rparr>))
               else (Inr (), deliver (failure_note (chat_id_of jid d1)) (w\<lparr>wd_db := d1\<rparr>))))"

definition process ::
  "(uid \<Rightarrow> real \<Rightarrow> real \<Rightarrow> 'q \<Rightarrow> 'q) \<Rightarrow> real \<Rightarrow> (string \<Rightarrow> bool) \<Rightarrow> (job \<Rightarrow> handler_run) \<Rightarrow> uid \<Rightarrow>
   ('q world, unit) action" where
  "process enq base known behave jid w =
     (case process_start known jid (wd_db w) of
        (Inl e, d) \<Rightarrow> (Inl e, w\<lparr>wd_db := d\<rparr>)
      | (Inr None, d) \<Rightarrow> (Inr (), w\<lparr>wd_db := d\<rparr>)
      | (Inr (Some j), d) \<Rightarrow>
          (let h = behave j in
           case dispatch (hr_events h) (hr_result h) (hr_work h) jid d of
             (Inl e, d') \<Rightarrow> on_failure enq base jid e (w\<lparr>wd_db := d'\<rparr>)
           | (Inr oc, d') \<Rightarrow>
               (case process_finish jid oc d' of
                  (Inl e, d2) \<Rightarrow> (Inl e, w\<lparr>wd_db := d2\<rparr>)
                | (Inr False, d2) \<Rightarrow> (Inr (), w\<lparr>wd_db := d2\<rparr>)
                | (Inr True, d2) \<Rightarrow>
                    (Inr (), (case oc_notification oc of None \<Rightarrow> w\<lparr>wd_db := d2\<rparr>
                              | Some n \<Rightarrow> deliver n (w\<lparr>wd_db := d2\<rparr>))))))"

definition run_once ::
  "(uid \<Rightarrow> real \<Rightarrow> real \<Rightarrow> 'q \<Rightarrow> 'q) \<Rightarrow> (real \<Rightarrow> real \<Rightarrow> 'q \<Rightarrow> uid option \<times> 'q \<times> real) \<Rightarrow> real \<Rightarrow>
   (string \<Rightarrow> bool) \<Rightarrow> (job \<Rightarrow> handler_run) \<Rightarrow> real \<Rightarrow> ('q world, uid option) action" where
  "run_once enq deq base known behave poll_timeout w =
     (case deq poll_timeout (wd_clock w) (wd_queue w) of
        (None, q, t) \<Rightarrow> (Inr None, w\<lparr>wd_queue := q, wd_clock := t\<rparr>)
      | (Some jid, q, t) \<Rightarrow>
          (case process enq base known behave jid (w\<lparr>wd_queue := q, wd_clock := t\<rparr>) of
             (Inl e, w') \<Rightarrow> (Inl e, w')
           | (Inr _, w') \<Rightarrow> (Inr (Some jid), w')))"

text \<open>The body of \<open>run_forever\<close>: an iteration that raises is logged and the loop goes on.\<close>

fun run_iterations ::
  "(uid \<Rightarrow> real \<Rightarrow> real \<Rightarrow> 'q \<Rightarrow> 'q) \<Rightarrow> (real \<Rightarrow> real \<Rightarrow> 'q \<Rightarrow> uid option \<times> 'q \<times> real) \<Rightarrow> real \<Rightarrow>
   (string \<Rightarrow> bool) \<Rightarrow> (nat \<Rightarrow> job \<Rightarrow> handler_run) \<Rightarrow> nat \<Rightarrow> 'q world \<Rightarrow> 'q world" where
  "run_iterations enq deq base known behave 0 w = w"
| "run_iterations enq deq base known behave (Suc n) w =
     run_iterations enq deq base known behave n
       (case run_once enq deq base known (behave n) 5 w of
          (Inl _, w') \<Rightarrow> w'\<lparr>wd_clock := wd_clock w' + 1\<rparr>
        | (Inr _, w') \<Rightarrow> w')"

section \<open>Facts about one run\<close>

text \<open>
  How a run of one job relates two databases: the rows of other jobs are untouched, and the row of
  the job keeps everything that identifies it.
\<close>

definition job_frame :: "uid \<Rightarrow> db \<Rightarrow> db \<Rightarrow> bool" where
  "job_frame jid d d' \<longleftrightarrow> (\<forall>i. i \<noteq> jid \<longrightarrow> job_get d' i = job_get d i) \<and>
     map job_id (jobs d') = map job_id (jobs d) \<and> next_id d \<le> next_id d' \<and>
     (\<forall>j'. job_get d' jid = Some j' \<longrightarrow> (\<exists>j. job_get d jid = Some j \<and>
        job_max_retries j' = job_max_retries j \<and> job_params j' = job_params j))"

lemma job_frame_refl [simp]: "job_frame jid d d"
  by (simp add: job_frame_def)

lemma job_frame_trans: "job_frame jid d e \<Longrightarrow> job_frame jid e f \<Longrightarrow> job_frame jid d f"
  by (fastforce simp: job_frame_def)

lemma job_frame_transition:
  assumes t: "transition jid to p e r d = (Inr j', d')"
  shows "job_frame jid d d'"
proof (rule transition_Inr [OF t])
  fix j assume j: "job_get d jid = Some j" and j': "j' = apply_transition (now d) to p e r j"
    and d': "d' = put_job j' d"
  have k: "job_max_retries j' = job_max_retries j" "job_params j' = job_params j"
    unfolding j' by (rule apply_transition_fields)+
  have m: "map job_id (jobs d') = map job_id (jobs d)" "next_id d' = next_id d"
    unfolding d' by (rule map_job_id_put_job put_job_other)+
  show ?thesis
    unfolding job_frame_def job_get_transition [OF t] m using j k by simp
qed

text \<open>A handler works on the other tables, and draws keys forwards.\<close>

definition jobs_untouched :: "handler_run \<Rightarrow> bool" where
  "jobs_untouched h \<longleftrightarrow> (\<forall>d. jobs (hr_work h d) = jobs d \<and> next_id d \<le> next_id (hr_work h d))"

lemma job_get_work: "jobs_untouched h \<Longrightarrow> job_get (hr_work h d) i = job_get d i"
  by (simp add: jobs_untouched_def job_get_def)

lemma cancel_job_running:
  assumes "job_get d jid = Some j" and "job_st j = RUNNING"
  shows "\<exists>d' j'. cancel_job jid d = (Inr True, d') \<and> job_get d' jid = Some j' \<and>
    job_st j' = CANCELLED \<and> job_frame jid d d' \<and> job_retry_count j' = job_retry_count j"
proof -
  have t: "transition jid CANCELLED None None None d =
      (Inr (apply_transition (now d) CANCELLED None None None j),
       put_job (apply_transition (now d) CANCELLED None None None j) d)"
    using assms by (simp add: transition_ok)
  from assms have "cancel_job jid d = (Inr True, put_job (apply_transition (now d) CANCELLED None None None j) d)"
    by (simp add: cancel_job_def session_scope_def t)
  with job_get_transition [OF t, of jid] job_frame_transition [OF t] assms show ?thesis by simp
qed

lemma cancel_job_terminal:
  "job_get d jid = Some j \<Longrightarrow> is_terminal (job_st j) \<Longrightarrow> cancel_job jid d = (Inr False, d)"
  by (simp add: cancel_job_def session_scope_def)

lemma tick_running:
  assumes "job_get d jid = Some j" and "job_st j = RUNNING"
  shows "\<exists>d' j'. session_scope (transition jid RUNNING (Some p) None None) d = (Inr j', d') \<and>
    job_get d' jid = Some j' \<and> job_st j' = RUNNING \<and> job_frame jid d d' \<and>
    job_retry_count j' = job_retry_count j"
proof -
  have t: "transition jid RUNNING (Some p) None None d =
      (Inr (apply_transition (now d) RUNNING (Some p) None None j),
       put_job (apply_transition (now d) RUNNING (Some p) None None j) d)"
    using assms by (simp add: transition_ok)
  with job_get_transition [OF t, of jid] job_frame_transition [OF t] assms show ?thesis
    by (simp add: session_scope_def)
qed

lemma tick_cancelled:
  assumes "job_get d jid = Some j" and "job_st j = CANCELLED"
  shows "\<exists>m. session_scope (transition jid RUNNING p e r) d = (Inl (IllegalJobStateTransition m), d)"
  using assms by (simp add: session_scope_def transition_def)

text \<open>Without a cancel request the row stays RUNNING and the handler's own result comes back.\<close>

lemma dispatch_running:
  "job_get d jid = Some j \<Longrightarrow> job_st j = RUNNING \<Longrightarrow> CancelRequest \<notin> set es \<Longrightarrow>
   \<exists>d' j'. dispatch es r work jid d = (case r of Inl e \<Rightarrow> (Inl e, d') | Inr oc \<Rightarrow> (Inr oc, work d')) \<and>
     job_get d' jid = Some j' \<and> job_st j' = RUNNING \<and> job_frame jid d d' \<and>
     job_retry_count j' = job_retry_count j"
proof (induction es r work jid d arbitrary: j rule: dispatch.induct)
  case (3 p es r work jid d)
  from tick_running [OF 3(2,3), of "ctx_progress p"] obtain d1 j1 where
    t: "session_scope (transition jid RUNNING (Some (ctx_progress p)) None None) d = (Inr j1, d1)"
    and j1: "job_get d1 jid = Some j1" "job_st j1 = RUNNING" "job_frame jid d d1"
      "job_retry_count j1 = job_retry_count j" by blast
  from 3(1) [OF t [symmetric] refl j1(1,2)] 3(4) j1 t show ?case
    by (auto intro: job_frame_trans)
qed auto

text \<open>Once the row is CANCELLED, nothing the handler does changes it.\<close>

lemma dispatch_cancelled:
  "job_get d jid = Some j \<Longrightarrow> job_st j = CANCELLED \<Longrightarrow>
   \<exists>x d'. dispatch es r work jid d = (x, d') \<and> (d' = d \<or> d' = work d)"
proof (induction es r work jid d arbitrary: j rule: dispatch.induct)
  case (3 p es r work jid d)
  from tick_cancelled [OF 3(2,3), of "Some (ctx_progress p)" None None] show ?case by auto
next
  case (4 es r work jid d)
  then have "snd (cancel_job jid d) = d" by (simp add: cancel_job_terminal)
  with 4 show ?case by simp
qed auto

lemma dispatch_cancel:
  "job_get d jid = Some j \<Longrightarrow> job_st j = RUNNING \<Longrightarrow> CancelRequest \<in> set es \<Longrightarrow>
   \<exists>x d' j'. (dispatch es r work jid d = (x, d') \<or> dispatch es r work jid d = (x, work d')) \<and>
     job_get d' jid = Some j' \<and> job_st j' = CANCELLED \<and> job_frame jid d d' \<and>
     job_retry_count j' = job_retry_count j"
proof (induction es r work jid d arbitrary: j rule: dispatch.induct)
  case (3 p es r work jid d)
  from tick_running [OF 3(2,3), of "ctx_progress p"] obtain d1 j1 where
    t: "session_scope (transition jid RUNNING (Some (ctx_progress p)) None None) d = (Inr j1, d1)"
    and j1: "job_get d1 jid = Some j1" "job_st j1 = RUNNING" "job_frame jid d d1"
      "job_retry_count j1 = job_retry_count j" by blast
  from 3(1) [OF t [symmetric] refl j1(1,2)] 3(4) j1 t show ?case
    by simp (metis job_frame_trans)
next
  case (4 es r work jid d)
  from cancel_job_running [OF 4(2,3)] obtain d1 j1 where
    c: "snd (cancel_job jid d) = d1" and
    j1: "job_get d1 jid = Some j1" "job_st j1 = CANCELLED" "job_frame jid d d1"
      "job_retry_count j1 = job_retry_count j" by fastforce
  from dispatch_cancelled [OF j1(1,2), of es r work] c j1 show ?case
    by simp (metis job_frame_trans)
qed auto

section \<open>The whole of \<open>_process\<close>\<close>

lemma process_start_run:
  assumes "job_get d jid = Some j" and "\<not> is_terminal (job_st j)" and "known (job_kind j)"
  shows "\<exists>j1 d1. process_start known jid d = (Inr (Some j1), d1) \<and> job_get d1 jid = Some j1 \<and>
    job_st j1 = RUNNING \<and> job_frame jid d d1 \<and> job_retry_count j1 = job_retry_count j"
proof -
  from assms(2) have "RUNNING = job_st j \<or> RUNNING \<in> set (allowed (job_st j))"
    by (cases "job_st j") auto
  then have t: "transition jid RUNNING (Some 0) None None d =
      (Inr (apply_transition (now d) RUNNING (Some 0) None None j),
       put_job (apply_transition (now d) RUNNING (Some 0) None None j) d)"
    by (intro transition_ok assms(1)) auto
  with job_get_transition [OF t, of jid] job_frame_transition [OF t] assms show ?thesis
    by (simp add: process_start_def session_scope_def)
qed

lemma process_start_skip:
  "job_get d jid = None \<Longrightarrow> process_start known jid d = (Inr None, d)"
  "job_get d jid = Some j \<Longrightarrow> is_terminal (job_st j) \<Longrightarrow> process_start known jid d = (Inr None, d)"
  by (simp_all add: process_start_def session_scope_def)

lemma process_start_unknown:
  assumes "job_get d jid = Some j" and "\<not> is_terminal (job_st j)" and "\<not> known (job_kind j)"
  shows "\<exists>j1 d1. process_start known jid d = (Inr None, d1) \<and> job_get d1 jid = Some j1 \<and>
    job_st j1 = FAILED \<and> job_frame jid d d1 \<and> job_retry_count j1 = job_retry_count j \<and>
    job_error j1 = Some (''no handler for kind '' @ job_kind j)"
proof -
  let ?m = "Some (''no handler for kind '' @ job_kind j)"
  from assms(2) have "FAILED = job_st j \<or> FAILED \<in> set (allowed (job_st j))"
    by (cases "job_st j") auto
  then have t: "transition jid FAILED None ?m None d =
      (Inr (apply_transition (now d) FAILED None ?m None j),
       put_job (apply_transition (now d) FAILED None ?m None j) d)"
    by (intro transition_ok assms(1)) auto
  with job_get_transition [OF t, of jid] job_frame_transition [OF t] assms show ?thesis
    by (simp add: process_start_def session_scope_def apply_transition_error)
qed

text \<open>The three ways \<open>_on_failure\<close> ends.\<close>

lemma on_failure_retry:
  assumes "job_get (wd_db w) jid = Some j" and "job_st j = RUNNING"
    and "job_retry_count j < job_max_retries j"
  shows "\<exists>j' d'. on_failure enq base jid e w = (Inr (), w\<lparr>wd_db := d', wd_queue :=
      enq jid (base * 2 ^ Suc (job_retry_count j)) (wd_clock w) (wd_queue w)\<rparr>) \<and>
    job_get d' jid = Some j' \<and> job_st j' = PENDING \<and> job_frame jid (wd_db w) d' \<and>
    job_retry_count j' = Suc (job_retry_count j) \<and> job_error j' = None"
proof -
  let ?d = "wd_db w"
  let ?j1 = "apply_transition (now ?d) FAILED None (Some (exn_text e)) None j"
  have t1: "transition jid FAILED None (Some (exn_text e)) None ?d = (Inr ?j1, put_job ?j1 ?d)"
    using assms by (simp add: transition_ok)
  have g1: "job_get (put_job ?j1 ?d) jid = Some ?j1"
    using job_get_transition [OF t1, of jid] by simp
  let ?j2 = "apply_transition (now (put_job ?j1 ?d)) PENDING None None None ?j1"
  have t2: "transition jid PENDING None None None (put_job ?j1 ?d) = (Inr ?j2, put_job ?j2 (put_job ?j1 ?d))"
    by (rule transition_ok [OF g1]) simp
  have "job_get (put_job ?j2 (put_job ?j1 ?d)) jid = Some ?j2"
    using job_get_transition [OF t2, of jid] by simp
  moreover have "job_frame jid ?d (put_job ?j2 (put_job ?j1 ?d))"
    using job_frame_transition [OF t1] job_frame_transition [OF t2] by (rule job_frame_trans)
  moreover have "on_failure enq base jid e w = (Inr (), w\<lparr>wd_db := put_job ?j2 (put_job ?j1 ?d),
      wd_queue := enq jid (base * 2 ^ Suc (job_retry_count j)) (wd_clock w) (wd_queue w)\<rparr>)"
    using assms by (simp add: on_failure_def t1 t2 Let_def)
  ultimately show ?thesis
    by (intro exI conjI) (assumption | simp add: apply_transition_error)+
qed

lemma on_failure_final:
  assumes "job_get (wd_db w) jid = Some j" and "job_st j = RUNNING"
    and "\<not> job_retry_count j < job_max_retries j"
  shows "\<exists>j' d'. on_failure enq base jid e w =
      (Inr (), deliver (failure_note (chat_id_of jid (wd_db w))) (w\<lparr>wd_db := d'\<rparr>)) \<and>
    job_get d' jid = Some j' \<and> job_st j' = FAILED \<and> job_frame jid (wd_db w) d' \<and>
    job_retry_count j' = job_retry_count j \<and> job_error j' = Some (exn_text e)"
proof -
  let ?d = "wd_db w"
  let ?j1 = "apply_transition (now ?d) FAILED None (Some (exn_text e)) None j"
  have t1: "transition jid FAILED None (Some (exn_text e)) None ?d = (Inr ?j1, put_job ?j1 ?d)"
    using assms by (simp add: transition_ok)
  have g1: "job_get (put_job ?j1 ?d) jid = Some ?j1"
    using job_get_transition [OF t1, of jid] by simp
  then have "chat_id_of jid (put_job ?j1 ?d) = chat_id_of jid ?d"
    using assms(1) by (simp add: chat_id_of_def)
  then have "on_failure enq base jid e w =
      (Inr (), deliver (failure_note (chat_id_of jid ?d)) (w\<lparr>wd_db := put_job ?j1 ?d\<rparr>))"
    using assms by (simp add: on_failure_def t1 Let_def)
  then show ?thesis
    by (intro exI conjI) (assumption | rule g1 job_frame_transition [OF t1] | simp add: apply_transition_error)+
qed

lemma on_failure_cancelled:
  assumes "job_get (wd_db w) jid = Some j" and "job_st j = CANCELLED"
  shows "\<exists>m. on_failure enq base jid e w = (Inl (IllegalJobStateTransition m), w)"
  using assms by (simp add: on_failure_def transition_def)

lemma deliver_simps [simp]:
  "wd_db (deliver n w) = wd_db w" "wd_queue (deliver n w) = wd_queue w"
  "wd_clock (deliver n w) = wd_clock w"
  by (simp_all add: deliver_def)

lemma process_finish_running:
  assumes "job_get d jid = Some j" and "job_st j = RUNNING"
  shows "\<exists>j' d'. process_finish jid oc d = (Inr True, d') \<and> job_get d' jid = Some j' \<and>
    job_st j' = COMPLETED \<and> job_frame jid d d' \<and> job_retry_count j' = job_retry_count j \<and>
    job_progress j' = 100 \<and> job_result j' = Some (oc_summary oc)"
proof -
  let ?j = "apply_transition (now d) COMPLETED (Some 100) None (Some (oc_summary oc)) j"
  have t: "transition jid COMPLETED (Some 100) None (Some (oc_summary oc)) d = (Inr ?j, put_job ?j d)"
    using assms by (simp add: transition_ok)
  then have "process_finish jid oc d = (Inr True, put_job ?j d)"
    using assms by (simp add: process_finish_def session_scope_def)
  with job_get_transition [OF t, of jid] job_frame_transition [OF t] assms show ?thesis by simp
qed

lemma process_finish_cancelled:
  "job_get d jid = Some j \<Longrightarrow> job_st j = CANCELLED \<Longrightarrow> process_finish jid oc d = (Inr False, d)"
  by (simp add: process_finish_def session_scope_def)

lemma job_frame_work: "jobs_untouched h \<Longrightarrow> job_frame jid d d' \<Longrightarrow> job_frame jid d (hr_work h d')"
  by (auto simp: job_frame_def job_get_work) (auto simp: jobs_untouched_def intro: order_trans)

text \<open>A handler that returns.\<close>

lemma process_success:
  assumes j: "job_get (wd_db w) jid = Some j" "\<not> is_terminal (job_st j)" "known (job_kind j)"
    and h: "\<And>j. CancelRequest \<notin> set (hr_events (behave j))" "\<And>j. jobs_untouched (behave j)"
    and oc: "\<And>j. hr_result (behave j) = Inr oc"
  shows "\<exists>j' d' w'. process enq base known behave jid w = (Inr (), w') \<and>
    w' = (case oc_notification oc of None \<Rightarrow> w\<lparr>wd_db := d'\<rparr> | Some n \<Rightarrow> deliver n (w\<lparr>wd_db := d'\<rparr>)) \<and>
    job_get d' jid = Some j' \<and> job_st j' = COMPLETED \<and> job_frame jid (wd_db w) d' \<and>
    job_retry_count j' = job_retry_count j \<and> job_progress j' = 100 \<and>
    job_result j' = Some (oc_summary oc)"
proof -
  from process_start_run [of _ _ _ known, OF j] obtain j1 d1 where
    s: "process_start known jid (wd_db w) = (Inr (Some j1), d1)" and
    j1: "job_get d1 jid = Some j1" "job_st j1 = RUNNING" "job_frame jid (wd_db w) d1"
      "job_retry_count j1 = job_retry_count j" by blast
  from dispatch_running [OF j1(1,2) h(1) [of j1], of "Inr oc" "hr_work (behave j1)"] obtain d2 j2 where
    r: "dispatch (hr_events (behave j1)) (Inr oc) (hr_work (behave j1)) jid d1 =
          (Inr oc, hr_work (behave j1) d2)" and
    j2: "job_get d2 jid = Some j2" "job_st j2 = RUNNING" "job_frame jid d1 d2"
      "job_retry_count j2 = job_retry_count j1" by auto
  have g: "job_get (hr_work (behave j1) d2) jid = Some j2"
    using j2(1) h(2) by (simp add: job_get_work)
  from process_finish_running [OF g j2(2), of oc] obtain d3 j3 where
    f: "process_finish jid oc (hr_work (behave j1) d2) = (Inr True, d3)" and
    j3: "job_get d3 jid = Some j3" "job_st j3 = COMPLETED" "job_frame jid (hr_work (behave j1) d2) d3"
      "job_retry_count j3 = job_retry_count j2" "job_progress j3 = 100"
      "job_result j3 = Some (oc_summary oc)" by blast
  have "process enq base known behave jid w = (Inr (), case oc_notification oc of
      None \<Rightarrow> w\<lparr>wd_db := d3\<rparr> | Some n \<Rightarrow> deliver n (w\<lparr>wd_db := d3\<rparr>))"
    by (simp add: process_def s oc r f Let_def)
  moreover have "job_frame jid (wd_db w) d3"
    using j1(3) job_frame_work [OF h(2) j2(3)] j3(3) by (blast intro: job_frame_trans)
  ultimately show ?thesis using j1(4) j2(4) j3 by auto
qed

text \<open>A handler that raises.\<close>

lemma process_failure:
  assumes j: "job_get (wd_db w) jid = Some j" "\<not> is_terminal (job_st j)" "known (job_kind j)"
    and h: "\<And>j. CancelRequest \<notin> set (hr_events (behave j))"
    and e: "\<And>j. hr_result (behave j) = Inl e"
  shows "\<exists>j' d' w'. process enq base known behave jid w = (Inr (), w') \<and>
    w' = (if job_retry_count j < job_max_retries j
          then w\<lparr>wd_db := d', wd_queue :=
                 enq jid (base * 2 ^ Suc (job_retry_count j)) (wd_clock w) (wd_queue w)\<rparr>
          else deliver (failure_note (chat_id_of jid (wd_db w))) (w\<lparr>wd_db := d'\<rparr>)) \<and>
    job_get d' jid = Some j' \<and> job_frame jid (wd_db w) d' \<and>
    (if job_retry_count j < job_max_retries j
     then job_st j' = PENDING \<and> job_retry_count j' = Suc (job_retry_count j) \<and> job_error j' = None
     else job_st j' = FAILED \<and> job_retry_count j' = job_retry_count j \<and>
          job_error j' = Some (exn_text e))"
proof -
  from process_start_run [of _ _ _ known, OF j] obtain j1 d1 where
    s: "process_start known jid (wd_db w) = (Inr (Some j1), d1)" and
    j1: "job_get d1 jid = Some j1" "job_st j1 = RUNNING" "job_frame jid (wd_db w) d1"
      "job_retry_count j1 = job_retry_count j" by blast
  from dispatch_running [OF j1(1,2) h, of j1 "Inl e" "hr_work (behave j1)"] obtain d2 j2 where
    r: "dispatch (hr_events (behave j1)) (Inl e) (hr_work (behave j1)) jid d1 = (Inl e, d2)" and
    j2: "job_get d2 jid = Some j2" "job_st j2 = RUNNING" "job_frame jid d1 d2"
      "job_retry_count j2 = job_retry_count j1" by auto
  let ?w = "w\<lparr>wd_db := d2\<rparr>"
  have fr: "job_frame jid (wd_db w) d2" using j1(3) j2(3) by (rule job_frame_trans)
  with j2(1) j(1) have max: "job_max_retries j2 = job_max_retries j" "job_params j2 = job_params j"
    by (auto simp: job_frame_def)
  then have chat: "chat_id_of jid d2 = chat_id_of jid (wd_db w)"
    by (simp add: chat_id_of_def j(1) j2(1))
  have p: "process enq base known behave jid w = on_failure enq base jid e ?w"
    by (simp add: process_def s e r Let_def)
  have g: "job_get (wd_db ?w) jid = Some j2" using j2(1) by simp
  show ?thesis
  proof (cases "job_retry_count j < job_max_retries j")
    case True
    then have "job_retry_count j2 < job_max_retries j2" using j1(4) j2(4) max by simp
    from on_failure_retry [OF g j2(2) this, of enq base e] True fr j1(4) j2(4) p show ?thesis
      by (auto intro: job_frame_trans)
  next
    case False
    then have "\<not> job_retry_count j2 < job_max_retries j2" using j1(4) j2(4) max by simp
    from on_failure_final [OF g j2(2) this, of enq base e] False fr j1(4) j2(4) p chat show ?thesis
      by (auto intro: job_frame_trans)
  qed
qed

text \<open>A job cancelled while its handler runs.\<close>

lemma process_cancel:
  assumes j: "job_get (wd_db w) jid = Some j" "\<not> is_terminal (job_st j)" "known (job_kind j)"
    and h: "\<And>j. CancelRequest \<in> set (hr_events (behave j))" "\<And>j. jobs_untouched (behave j)"
  shows "\<exists>x j' d'. process enq base known behave jid w = (x, w\<lparr>wd_db := d'\<rparr>) \<and>
    job_get d' jid = Some j' \<and> job_st j' = CANCELLED \<and> job_frame jid (wd_db w) d' \<and>
    job_retry_count j' = job_retry_count j"
proof -
  from process_start_run [of _ _ _ known, OF j] obtain j1 d1 where
    s: "process_start known jid (wd_db w) = (Inr (Some j1), d1)" and
    j1: "job_get d1 jid = Some j1" "job_st j1 = RUNNING" "job_frame jid (wd_db w) d1"
      "job_retry_count j1 = job_retry_count j" by blast
  from dispatch_cancel [OF j1(1,2) h(1), of j1 "hr_result (behave j1)" "hr_work (behave j1)"]
  obtain y d2 j2 where
    r: "dispatch (hr_events (behave j1)) (hr_result (behave j1)) (hr_work (behave j1)) jid d1 = (y, d2)"
    and j2: "job_get d2 jid = Some j2" "job_st j2 = CANCELLED" "job_frame jid d1 d2"
      "job_retry_count j2 = job_retry_count j1"
    using job_get_work [OF h(2)] job_frame_work [OF h(2)] by fastforce
  have fr: "job_frame jid (wd_db w) d2" using j1(3) j2(3) by (rule job_frame_trans)
  show ?thesis
  proof (cases y)
    case (Inl e)
    let ?w = "w\<lparr>wd_db := d2\<rparr>"
    have "job_get (wd_db ?w) jid = Some j2" using j2(1) by simp
    from on_failure_cancelled [OF this j2(2), of enq base e] obtain m where
      "on_failure enq base jid e ?w = (Inl (IllegalJobStateTransition m), ?w)" by blast
    then have "process enq base known behave jid w = (Inl (IllegalJobStateTransition m), ?w)"
      by (simp add: process_def s r Inl Let_def)
    with fr j2 j1(4) show ?thesis by auto
  next
    case (Inr oc)
    have "process enq base known behave jid w = (Inr (), w\<lparr>wd_db := d2\<rparr>)"
      by (simp add: process_def s r Inr Let_def process_finish_cancelled [OF j2(1,2)])
    with fr j2 j1(4) show ?thesis by auto
  qed
qed

text \<open>
  Whatever a handler does, one run ends the job's attempt: the job is terminal and the queue is as it was, or
  the job is PENDING again, one retry further, and back in the queue.
\<close>

lemma process_settles:
  assumes j: "job_get (wd_db w) jid = Some j" "\<not> is_terminal (job_st j)"
    and h: "\<And>j. jobs_untouched (behave j)"
  shows "\<exists>x w' j'. process enq base known behave jid w = (x, w') \<and>
    job_get (wd_db w') jid = Some j' \<and> job_frame jid (wd_db w) (wd_db w') \<and>
    wd_clock w' = wd_clock w \<and>
    (is_terminal (job_st j') \<and> wd_queue w' = wd_queue w \<and> job_retry_count j' = job_retry_count j \<or>
     job_st j' = PENDING \<and> job_retry_count j < job_max_retries j \<and>
     job_retry_count j' = Suc (job_retry_count j) \<and>
     wd_queue w' = enq jid (base * 2 ^ Suc (job_retry_count j)) (wd_clock w) (wd_queue w))"
proof (cases "known (job_kind j)")
  case False
  from process_start_unknown [of _ _ _ known, OF j False] obtain j1 d1 where
    "process_start known jid (wd_db w) = (Inr None, d1)" "job_get d1 jid = Some j1"
    "job_st j1 = FAILED" "job_frame jid (wd_db w) d1" "job_retry_count j1 = job_retry_count j" by blast
  then show ?thesis by (auto simp: process_def)
next
  case True
  from process_start_run [of _ _ _ known, OF j True] obtain j1 d1 where
    s: "process_start known jid (wd_db w) = (Inr (Some j1), d1)" by blast
  let ?b = "\<lambda>_. behave j1"
  have eq: "process enq base known behave jid w = process enq base known ?b jid w"
    by (simp add: process_def s)
  show ?thesis
  proof (cases "CancelRequest \<in> set (hr_events (behave j1))")
    case c: True
    from process_cancel [of _ _ _ known ?b, OF j True c h] show ?thesis unfolding eq by force
  next
    case c: False
    show ?thesis
    proof (cases "hr_result (behave j1)")
      case (Inr oc)
      from process_success [of _ _ _ known ?b, OF j True c h Inr] show ?thesis
        unfolding eq by (force split: option.splits)
    next
      case (Inl e)
      from process_failure [of _ _ _ known ?b, OF j True c Inl] show ?thesis
        unfolding eq by (force split: if_splits)
    qed
  qed
qed

lemma process_skips:
  assumes "case job_get (wd_db w) jid of None \<Rightarrow> True | Some j \<Rightarrow> is_terminal (job_st j)"
  shows "process enq base known behave jid w = (Inr (), w)"
  using assms by (auto simp: process_def process_start_skip split: option.splits)

section \<open>No job is lost\<close>

text \<open>
  What holds while the worker is between two jobs: no job is RUNNING, every PENDING job is in the
  queue, and no job was retried more often than it may be.
\<close>

definition worker_idle_ok :: "('q \<Rightarrow> uid set) \<Rightarrow> 'q world \<Rightarrow> bool" where
  "worker_idle_ok queued w \<longleftrightarrow> (\<forall>i j. job_get (wd_db w) i = Some j \<longrightarrow>
     job_st j \<noteq> RUNNING \<and> (job_st j = PENDING \<longrightarrow> i \<in> queued (wd_queue w)) \<and>
     job_retry_count j \<le> job_max_retries j)"

context job_queue
begin

lemma process_idle_ok:
  assumes ok: "\<forall>i j. job_get (wd_db w) i = Some j \<longrightarrow>
      job_st j \<noteq> RUNNING \<and> (job_st j = PENDING \<longrightarrow> i \<in> insert jid (queued (wd_queue w))) \<and>
      job_retry_count j \<le> job_max_retries j"
    and h: "\<And>j. jobs_untouched (behave j)"
  shows "worker_idle_ok queued (snd (process enq base known behave jid w))"
proof (cases "case job_get (wd_db w) jid of None \<Rightarrow> True | Some j \<Rightarrow> is_terminal (job_st j)")
  case True
  then have "\<And>j. job_get (wd_db w) jid = Some j \<Longrightarrow> job_st j \<noteq> PENDING"
    by (auto split: option.splits)
  with ok show ?thesis by (auto simp: process_skips [OF True] worker_idle_ok_def)
next
  case False
  then obtain j where j: "job_get (wd_db w) jid = Some j" "\<not> is_terminal (job_st j)"
    by (auto split: option.splits)
  from process_settles [of _ _ _ behave enq base known, OF j h] obtain x w' j' where
    p: "process enq base known behave jid w = (x, w')" and
    j': "job_get (wd_db w') jid = Some j'" and fr: "job_frame jid (wd_db w) (wd_db w')" and
    alt: "is_terminal (job_st j') \<and> wd_queue w' = wd_queue w \<and> job_retry_count j' = job_retry_count j \<or>
     job_st j' = PENDING \<and> job_retry_count j < job_max_retries j \<and>
     job_retry_count j' = Suc (job_retry_count j) \<and>
     wd_queue w' = enq jid (base * 2 ^ Suc (job_retry_count j)) (wd_clock w) (wd_queue w)" by blast
  have other: "job_get (wd_db w') i = job_get (wd_db w) i" if "i \<noteq> jid" for i
    using fr that by (simp add: job_frame_def)
  have max: "job_max_retries j' = job_max_retries j" using fr j' j(1) by (auto simp: job_frame_def)
  have sub: "queued (wd_queue w) \<subseteq> queued (wd_queue w')" using alt by (auto simp: queued_enq)
  show ?thesis unfolding worker_idle_ok_def
  proof (intro allI impI)
    fix i k assume k: "job_get (wd_db (snd (process enq base known behave jid w))) i = Some k"
    show "job_st k \<noteq> RUNNING \<and>
        (job_st k = PENDING \<longrightarrow> i \<in> queued (wd_queue (snd (process enq base known behave jid w)))) \<and>
        job_retry_count k \<le> job_max_retries k"
    proof (cases "i = jid")
      case True
      with k p j' have "k = j'" by simp
      with alt max True p ok j(1) show ?thesis by (auto simp: queued_enq)
    next
      case False
      with k p other have "job_get (wd_db w) i = Some k" by simp
      with ok False sub p show ?thesis by auto
    qed
  qed
qed

lemma run_once_idle_ok:
  assumes ok: "worker_idle_ok queued w" and h: "\<And>j. jobs_untouched (behave j)"
  shows "worker_idle_ok queued (snd (run_once enq deq base known behave timeout w))"
proof -
  obtain x q t where deq: "deq timeout (wd_clock w) (wd_queue w) = (x, q, t)" by (metis surj_pair)
  show ?thesis
  proof (cases x)
    case None
    with deq ok show ?thesis by (auto simp: run_once_def worker_idle_ok_def deq_None)
  next
    case (Some jid)
    let ?w = "w\<lparr>wd_queue := q, wd_clock := t\<rparr>"
    from deq_Some [OF deq [unfolded Some]] ok
    have "\<forall>i j. job_get (wd_db ?w) i = Some j \<longrightarrow> job_st j \<noteq> RUNNING \<and>
        (job_st j = PENDING \<longrightarrow> i \<in> insert jid (queued (wd_queue ?w))) \<and>
        job_retry_count j \<le> job_max_retries j"
      by (auto simp: worker_idle_ok_def)
    from process_idle_ok [of ?w jid behave base known, OF this h]
    have "worker_idle_ok queued (snd (process enq base known behave jid ?w))" .
    then show ?thesis by (auto simp: run_once_def deq Some split: prod.splits sum.splits)
  qed
qed

lemma run_iterations_idle_ok:
  "worker_idle_ok queued w \<Longrightarrow> (\<And>i j. jobs_untouched (behave i j)) \<Longrightarrow>
   worker_idle_ok queued (run_iterations enq deq base known behave n w)"
proof (induction n arbitrary: w)
  case (Suc n)
  let ?r = "run_once enq deq base known (behave n) 5 w"
  from run_once_idle_ok [OF Suc.prems(1), of "behave n" base known 5] Suc.prems(2)
  have "worker_idle_ok queued (snd ?r)" by blast
  then have "worker_idle_ok queued (case ?r of
      (Inl _, w') \<Rightarrow> w'\<lparr>wd_clock := wd_clock w' + 1\<rparr> | (Inr _, w') \<Rightarrow> w')"
    by (auto simp: worker_idle_ok_def split: prod.splits sum.splits)
  with Suc show ?case by simp
qed simp

text \<open>When the queue has run dry, every job has reached its final state.\<close>

lemma idle_ok_drained:
  "worker_idle_ok queued w \<Longrightarrow> size_of (wd_queue w) = 0 \<Longrightarrow>
   job_get (wd_db w) i = Some j \<Longrightarrow> is_terminal (job_st j)"
  by (cases "job_st j") (auto simp: worker_idle_ok_def size_zero)

end

text \<open>Submitting keeps it as well, also when the queue is down.\<close>

lemma job_get_create:
  assumes "job_create k ps rb m d = (Inr j, d')" and "\<forall>x \<in> set (jobs d). job_id x < next_id d"
  shows "job_get d' i = (if i = job_id j then Some j else job_get d i) \<and> j = new_job k ps rb m d (next_id d)"
proof -
  have "find (\<lambda>x. job_id x = next_id d) (jobs d) = None"
    using assms(2) by (auto simp: find_None_iff)
  with assms(1) show ?thesis
    by (auto simp: job_create_def add_row_def Let_def job_get_def get_by_id_def find_append
        new_job_def split: option.splits)
qed

context job_queue
begin

lemma submit_job_idle_ok:
  assumes ok: "worker_idle_ok queued w" and ids: "\<forall>x \<in> set (jobs (wd_db w)). job_id x < next_id (wd_db w)"
  shows "worker_idle_ok queued (snd (submit_job enq q_up kind params rb w))"
proof -
  let ?d = "wd_db w" let ?j = "new_job kind (Some params) rb 3 ?d (next_id ?d)"
  obtain d1 where c: "job_create kind (Some params) rb 3 ?d = (Inr ?j, d1)"
    by (simp add: job_create_def add_row_def Let_def)
  have g1: "job_get d1 i = (if i = job_id ?j then Some ?j else job_get ?d i)" for i
    using job_get_create [OF c ids] by blast
  have f: "job_st ?j = PENDING" "job_retry_count ?j = 0" by (simp_all add: new_job_def)
  show ?thesis
  proof (cases q_up)
    case True
    with ok f show ?thesis
      by (auto simp: submit_job_def session_scope_def c worker_idle_ok_def g1 queued_enq)
  next
    case False
    let ?m = "Some ''queue unavailable at submit time''"
    let ?k = "apply_transition (now d1) FAILED None ?m None ?j"
    have t: "transition (job_id ?j) FAILED None ?m None d1 = (Inr ?k, put_job ?k d1)"
      by (rule transition_ok) (simp_all add: g1 f)
    from ok f show ?thesis
      by (auto simp: submit_job_def session_scope_def c t False worker_idle_ok_def
          job_get_transition [OF t] g1)
  qed
qed

end

text \<open>
  What can happen around the worker, in any order: a client submits (with the queue up or down),
  a client cancels, the worker does an iteration, the clocks move.
\<close>

inductive world_step ::
  "(uid \<Rightarrow> real \<Rightarrow> real \<Rightarrow> 'q \<Rightarrow> 'q) \<Rightarrow> (real \<Rightarrow> real \<Rightarrow> 'q \<Rightarrow> uid option \<times> 'q \<times> real) \<Rightarrow>
   'q world \<Rightarrow> 'q world \<Rightarrow> bool" for enq deq where
  submit: "world_step enq deq w (snd (submit_job enq q_up kind params rb w))"
| cancel: "world_step enq deq w (w\<lparr>wd_db := snd (cancel_job jid (wd_db w))\<rparr>)"
| work: "(\<And>j. jobs_untouched (behave j)) \<Longrightarrow>
    world_step enq deq w (snd (run_once enq deq base known behave timeout w))"
| time: "world_step enq deq w (w\<lparr>wd_db := wd_db w\<lparr>now := t\<rparr>, wd_clock := c\<rparr>)"

inductive world_run ::
  "(uid \<Rightarrow> real \<Rightarrow> real \<Rightarrow> 'q \<Rightarrow> 'q) \<Rightarrow> (real \<Rightarrow> real \<Rightarrow> 'q \<Rightarrow> uid option \<times> 'q \<times> real) \<Rightarrow>
   'q world \<Rightarrow> 'q world \<Rightarrow> bool" for enq deq where
  init: "world_run enq deq w w"
| step: "world_run enq deq w v \<Longrightarrow> world_step enq deq v u \<Longrightarrow> world_run enq deq w u"

definition fresh_world :: "'q \<Rightarrow> 'q world" where
  "fresh_world q = \<lparr>wd_db = empty_db, wd_queue = q, wd_sent = [], wd_clock = 0\<rparr>"

definition job_ids_below :: "db \<Rightarrow> bool" where
  "job_ids_below d \<longleftrightarrow> (\<forall>x \<in> set (map job_id (jobs d)). x < next_id d)"

lemma job_frame_ids: "job_frame jid d d' \<Longrightarrow> job_ids_below d \<Longrightarrow> job_ids_below d'"
  unfolding job_frame_def job_ids_below_def by (metis order_less_le_trans)

lemma cancel_job_frame:
  "job_frame jid d (snd (cancel_job jid d)) \<and>
   (\<forall>j'. job_get (snd (cancel_job jid d)) jid = Some j' \<longrightarrow>
     (job_get d jid = Some j' \<or> job_st j' = CANCELLED \<and>
        (\<exists>j. job_get d jid = Some j \<and> job_retry_count j' = job_retry_count j)))"
proof (cases "\<exists>j. job_get d jid = Some j \<and> \<not> is_terminal (job_st j)")
  case False
  then have "cancel_job jid d = (Inr False, d)"
    by (auto simp: cancel_job_def session_scope_def simp del: is_terminal.simps split: option.splits)
  then show ?thesis by simp
next
  case True
  then obtain j where j: "job_get d jid = Some j" "\<not> is_terminal (job_st j)" by blast
  let ?k = "apply_transition (now d) CANCELLED None None None j"
  from j(2) have "CANCELLED = job_st j \<or> CANCELLED \<in> set (allowed (job_st j))"
    by (cases "job_st j") auto
  then have t: "transition jid CANCELLED None None None d = (Inr ?k, put_job ?k d)"
    by (rule transition_ok [OF j(1)])
  with j have "cancel_job jid d = (Inr True, put_job ?k d)"
    by (simp add: cancel_job_def session_scope_def)
  with job_frame_transition [OF t] job_get_transition [OF t, of jid] j show ?thesis by simp
qed

lemma process_frame:
  assumes h: "\<And>j. jobs_untouched (behave j)"
  shows "job_frame jid (wd_db w) (wd_db (snd (process enq base known behave jid w)))"
proof (cases "case job_get (wd_db w) jid of None \<Rightarrow> True | Some j \<Rightarrow> is_terminal (job_st j)")
  case True
  then show ?thesis by (simp add: process_skips)
next
  case False
  then obtain j where j: "job_get (wd_db w) jid = Some j" "\<not> is_terminal (job_st j)"
    by (auto split: option.splits)
  from process_settles [of _ _ _ behave enq base known, OF j h] show ?thesis by auto
qed

lemma run_once_ids:
  assumes "job_ids_below (wd_db w)" and "\<And>j. jobs_untouched (behave j)"
  shows "job_ids_below (wd_db (snd (run_once enq deq base known behave timeout w)))"
proof -
  obtain x q t where d: "deq timeout (wd_clock w) (wd_queue w) = (x, q, t)" by (metis surj_pair)
  show ?thesis
  proof (cases x)
    case (Some jid)
    let ?w = "w\<lparr>wd_queue := q, wd_clock := t\<rparr>"
    have "job_ids_below (wd_db (snd (process enq base known behave jid ?w)))"
      using job_frame_ids [OF process_frame [of behave jid ?w enq base known]] assms by simp
    then show ?thesis by (auto simp: run_once_def d Some split: prod.splits sum.splits)
  qed (simp add: run_once_def d assms)
qed

lemma submit_job_ids:
  assumes "job_ids_below (wd_db w)"
  shows "job_ids_below (wd_db (snd (submit_job enq q_up kind params rb w)))"
proof -
  obtain j d1 where c: "job_create kind (Some params) rb 3 (wd_db w) = (Inr j, d1)"
    by (simp add: job_create_def add_row_def Let_def)
  with assms have ids: "job_ids_below d1"
    by (auto simp: job_create_def add_row_def Let_def job_ids_below_def new_job_def less_SucI)
  obtain y d2 where t: "transition (job_id j) FAILED None
      (Some ''queue unavailable at submit time'') None d1 = (y, d2)" by (metis surj_pair)
  have "job_ids_below d2"
  proof (cases y)
    case (Inl e)
    with t ids show ?thesis by (auto dest: transition_Inl)
  next
    case (Inr j')
    with t have "job_frame (job_id j) d1 d2" by (auto intro: job_frame_transition)
    then show ?thesis using ids by (rule job_frame_ids)
  qed
  with ids show ?thesis
    by (auto simp: submit_job_def session_scope_def c t split: sum.splits)
qed

context job_queue
begin

lemma world_step_ok:
  assumes "world_step enq deq w v" and "worker_idle_ok queued w" and "job_ids_below (wd_db w)"
  shows "worker_idle_ok queued v \<and> job_ids_below (wd_db v)"
  using assms
proof (cases rule: world_step.cases)
  case (submit q_up kind params rb)
  then show ?thesis
    using submit_job_idle_ok [of w] submit_job_ids [of w] assms
    by (auto simp: job_ids_below_def)
next
  case (cancel jid)
  let ?d = "snd (cancel_job jid (wd_db w))"
  have fr: "job_frame jid (wd_db w) ?d" using cancel_job_frame by blast
  have "worker_idle_ok queued v" unfolding worker_idle_ok_def
  proof (intro allI impI)
    fix i j assume j: "job_get (wd_db v) i = Some j"
    show "job_st j \<noteq> RUNNING \<and> (job_st j = PENDING \<longrightarrow> i \<in> queued (wd_queue v)) \<and>
        job_retry_count j \<le> job_max_retries j"
    proof (cases "job_get (wd_db w) i = Some j")
      case True
      with assms(2) show ?thesis by (simp add: cancel worker_idle_ok_def)
    next
      case False
      with j fr have i: "i = jid" by (auto simp: cancel job_frame_def)
      with j False cancel_job_frame [of jid "wd_db w"] obtain j0 where
        j0: "job_get (wd_db w) jid = Some j0" "job_retry_count j = job_retry_count j0"
        and st: "job_st j = CANCELLED" by (auto simp: cancel)
      with fr j i have "job_max_retries j = job_max_retries j0" by (auto simp: cancel job_frame_def)
      with j0 st assms(2) show ?thesis by (auto simp: worker_idle_ok_def)
    qed
  qed
  with cancel_job_frame [of jid "wd_db w"] assms(3) show ?thesis
    by (auto simp: cancel intro: job_frame_ids)
next
  case (work behave base known timeout)
  then show ?thesis using run_once_idle_ok run_once_ids assms by blast
next
  case (time t c)
  then show ?thesis using assms by (simp add: worker_idle_ok_def job_get_def job_ids_below_def)
qed

lemma world_run_ok:
  assumes "world_run enq deq w v" and "worker_idle_ok queued w" and "job_ids_below (wd_db w)"
  shows "worker_idle_ok queued v \<and> job_ids_below (wd_db v)"
  using assms by (induction rule: world_run.induct) (auto dest: world_step_ok)

lemma fresh_ok: "worker_idle_ok queued (fresh_world q)" "job_ids_below (wd_db (fresh_world q))"
  by (simp_all add: worker_idle_ok_def fresh_world_def job_get_def get_by_id_def empty_db_def
      job_ids_below_def)

lemma never_lost:
  "world_run enq deq (fresh_world q) w \<Longrightarrow> job_get (wd_db w) i = Some j \<Longrightarrow>
   job_st j \<noteq> RUNNING \<and> (job_st j = PENDING \<longrightarrow> i \<in> queued (wd_queue w)) \<and>
   job_retry_count j \<le> job_max_retries j \<and> (size_of (wd_queue w) = 0 \<longrightarrow> is_terminal (job_st j))"
  using world_run_ok [OF _ fresh_ok] idle_ok_drained by (fastforce simp: worker_idle_ok_def)

end

section \<open>Properties\<close>


text \<open>A run in which the queue is down for the only submission, on both back ends.\<close>

lemma submit_down_world:
  "snd (submit_job enq False ''watch_poll'' JNull None (fresh_world q)) = \<lparr>
     wd_db = empty_db\<lparr>jobs := [(new_job ''watch_poll'' (Some JNull) None 3 empty_db 0)
        \<lparr>job_st := FAILED, job_completed_at := Some 0,
         job_error := Some ''queue unavailable at submit time''\<rparr>], next_id := 1\<rparr>,
     wd_queue = q, wd_sent = [], wd_clock = 0\<rparr>"
  by (simp add: submit_job_def fresh_world_def session_scope_def job_create_def add_row_def Let_def
      transition_def job_get_def get_by_id_def new_job_def apply_transition_def put_job_def
      empty_db_def)



definition sample_world :: "mem_queue world" where
  "sample_world = snd (submit_job mem_enqueue True ''watch_poll'' JNull None (fresh_world mem_empty))"

definition raising :: "job \<Rightarrow> handler_run" where
  "raising j = \<lparr>hr_events = [Tick 5], hr_result = Inl (RuntimeError ''boom''), hr_work = (\<lambda>d. d)\<rparr>"

definition cancelled_midway :: "job \<Rightarrow> handler_run" where
  "cancelled_midway j = \<lparr>hr_events = [Tick 5, CancelRequest, Tick 50],
     hr_result = Inr \<lparr>oc_summary = JNull, oc_notification = None\<rparr>, hr_work = (\<lambda>d. d)\<rparr>"

lemma sample_world_job:
  "job_get (wd_db sample_world) 0 = Some (new_job ''watch_poll'' (Some JNull) None 3 empty_db 0)"
  by (simp add: sample_world_def submit_job_def fresh_world_def session_scope_def job_create_def
      add_row_def Let_def job_get_def get_by_id_def new_job_def empty_db_def)


text \<open>
  C3. Cancellation wins: when a cancel request arrives while a handler runs, then whatever the
  handler does afterwards (returns, raises, reports progress) the job ends CANCELLED, is neither
  retried nor put back in the queue, nothing is delivered, and no other job is touched.
\<close>

theorem cancel_wins:
  assumes "job_get (wd_db w) jid = Some j" and "\<not> is_terminal (job_st j)" and "known (job_kind j)"
    and "\<And>j. CancelRequest \<in> set (hr_events (behave j))" and "\<And>j. jobs_untouched (behave j)"
  shows "\<exists>x j' d'. process enq base known behave jid w = (x, w\<lparr>wd_db := d'\<rparr>) \<and>
    job_get d' jid = Some j' \<and> job_st j' = CANCELLED \<and> job_frame jid (wd_db w) d' \<and>
    job_retry_count j' = job_retry_count j"
  using assms by (rule process_cancel)

theorem cancel_wins_witness:
  "\<exists>x j' d'. process mem_enqueue 5 (\<lambda>_. True) cancelled_midway 0 sample_world =
     (x, sample_world\<lparr>wd_db := d'\<rparr>) \<and> job_get d' 0 = Some j' \<and> job_st j' = CANCELLED"
  using cancel_wins [OF sample_world_job, of "\<lambda>_. True" cancelled_midway mem_enqueue 5]
  by (auto simp: new_job_def cancelled_midway_def jobs_untouched_def)

text \<open>
  The iteration itself raises when a cancelled handler reports progress: \<open>_on_failure\<close> asks for
  CANCELLED to FAILED, which the state machine refuses.
\<close>

lemma cancelled_tick_raises:
  "\<exists>m w'. run_once mem_enqueue mem_dequeue 5 (\<lambda>_. True) cancelled_midway 1 sample_world =
     (Inl (IllegalJobStateTransition m), w')"
  by (simp add: run_once_def sample_world_def submit_job_def fresh_world_def session_scope_def
      job_create_def add_row_def Let_def job_get_def get_by_id_def new_job_def empty_db_def
      mem_dequeue_def mem_poll.simps mem_enqueue_def mem_empty_def mem_promote_def process_def
      process_start_def transition_def apply_transition_def put_job_def cancelled_midway_def
      cancel_job_def on_failure_def ctx_progress_def)

text \<open>
  A handler that returns completes its job: progress 100, the summary as result, the
  handler's notification, if it has one, handed to the notifier once, the queue and the other
  jobs untouched.
\<close>

lemma successful_job:
  assumes "job_get (wd_db w) jid = Some j" and "\<not> is_terminal (job_st j)" and "known (job_kind j)"
    and "\<And>j. CancelRequest \<notin> set (hr_events (behave j))" and "\<And>j. jobs_untouched (behave j)"
    and "\<And>j. hr_result (behave j) = Inr oc"
  shows "\<exists>j' d' w'. process enq base known behave jid w = (Inr (), w') \<and>
    w' = (case oc_notification oc of None \<Rightarrow> w\<lparr>wd_db := d'\<rparr> | Some n \<Rightarrow> deliver n (w\<lparr>wd_db := d'\<rparr>)) \<and>
    job_get d' jid = Some j' \<and> job_st j' = COMPLETED \<and> job_frame jid (wd_db w) d' \<and>
    job_retry_count j' = job_retry_count j \<and> job_progress j' = 100 \<and>
    job_result j' = Some (oc_summary oc)"
  using assms by (rule process_success)

definition returning :: "job \<Rightarrow> handler_run" where
  "returning j = \<lparr>hr_events = [Tick 5, Tick 50],
     hr_result = Inr \<lparr>oc_summary = JInt 1, oc_notification = None\<rparr>, hr_work = (\<lambda>d. d)\<rparr>"

lemma successful_job_witness:
  "\<exists>j' w'. process mem_enqueue 5 (\<lambda>_. True) returning 0 sample_world = (Inr (), w') \<and>
     job_get (wd_db w') 0 = Some j' \<and> job_st j' = COMPLETED \<and> job_result j' = Some (JInt 1)"
  using successful_job [OF sample_world_job, of "\<lambda>_. True" returning
      "\<lparr>oc_summary = JInt 1, oc_notification = None\<rparr>" mem_enqueue 5]
  by (auto simp: new_job_def returning_def jobs_untouched_def)

text \<open>The job taken up again and again, with whatever each attempt does.\<close>

fun attempts ::
  "(uid \<Rightarrow> real \<Rightarrow> real \<Rightarrow> 'q \<Rightarrow> 'q) \<Rightarrow> real \<Rightarrow> (string \<Rightarrow> bool) \<Rightarrow> (nat \<Rightarrow> job \<Rightarrow> handler_run) \<Rightarrow> uid \<Rightarrow>
   nat \<Rightarrow> 'q world \<Rightarrow> 'q world" where
  "attempts enq base known behave jid 0 w = w"
| "attempts enq base known behave jid (Suc n) w =
     attempts enq base known behave jid n (snd (process enq base known (behave n) jid w))"

lemma attempts_terminal:
  "job_get (wd_db w) jid = Some j \<Longrightarrow> is_terminal (job_st j) \<Longrightarrow>
   attempts enq base known behave jid n w = w"
  by (induction n) (simp_all add: process_skips del: is_terminal.simps)


end
