(* ===== verification/RateLimit.thy ===== *)
theory RateLimit
  imports Models
begin

text \<open>
  \<open>security/ratelimit.py\<close> and the rate-limit dependencies of \<open>apps/api/security.py\<close>: the
  in-memory and the Redis sliding window, \<open>enforce\<close>, and the two-key dependency of the API. The
  locale \<open>sliding_window\<close> is what a limiter promises; it bounds the hits allowed in any window.
\<close>

section \<open>Results\<close>

record rl_result =
  rl_allowed :: bool
  rl_limit :: int
  rl_remaining :: int
  rl_retry_after :: int

definition rl_make :: "bool \<Rightarrow> int \<Rightarrow> int \<Rightarrow> int \<Rightarrow> rl_result" where
  "rl_make a l r t = \<lparr>rl_allowed = a, rl_limit = l, rl_remaining = r, rl_retry_after = t\<rparr>"

text \<open>\<open>int(x)\<close> of a float truncates.\<close>

definition trunc :: "real \<Rightarrow> int" where
  "trunc x = (if x \<ge> 0 then \<lfloor>x\<rfloor> else \<lceil>x\<rceil>)"

definition retry_seconds :: "real \<Rightarrow> int \<Rightarrow> real \<Rightarrow> int" where
  "retry_seconds oldest window t = max 1 (trunc (oldest + of_int window - t) + 1)"

section \<open>InMemoryRateLimiter\<close>

text \<open>\<open>defaultdict(deque)\<close>: the hits of a key, oldest first.\<close>

type_synonym mem_limiter = "string \<Rightarrow> real list"

definition mem_limiter_empty :: mem_limiter where
  "mem_limiter_empty = (\<lambda>_. [])"

definition mem_hit :: "string \<Rightarrow> int \<Rightarrow> int \<Rightarrow> real \<Rightarrow> (mem_limiter, rl_result) action" where
  "mem_hit key limit window t st =
     (let q = dropWhile (\<lambda>s. s < t - of_int window) (st key) in
      if int (length q) \<ge> limit
      then (case q of
              [] \<Rightarrow> (Inl IndexError, st(key := q))
            | s # _ \<Rightarrow> (Inr (rl_make False limit 0 (retry_seconds s window t)), st(key := q)))
      else (Inr (rl_make True limit (limit - int (length (q @ [t]))) 0), st(key := q @ [t])))"

section \<open>RedisRateLimiter\<close>

text \<open>
  A sorted set per key, members with their score in order. \<open>EXPIRE\<close> drops a key one second after
  its youngest hit left the window, when every member is due for \<open>ZREMRANGEBYSCORE\<close> anyway; it
  is not modelled. The member names a hit: time and object id.
\<close>

type_synonym redis_limiter = "string \<Rightarrow> (real \<times> string) list"

definition redis_limiter_empty :: redis_limiter where
  "redis_limiter_empty = (\<lambda>_. [])"

definition zset_add :: "real \<Rightarrow> string \<Rightarrow> (real \<times> string) list \<Rightarrow> (real \<times> string) list" where
  "zset_add s m z = insort_key fst (s, m) (filter (\<lambda>e. snd e \<noteq> m) z)"

definition redis_hit ::
  "string \<Rightarrow> string \<Rightarrow> int \<Rightarrow> int \<Rightarrow> real \<Rightarrow> (redis_limiter, rl_result) action" where
  "redis_hit member key limit window t st =
     (let z = filter (\<lambda>e. \<not> (0 \<le> fst e \<and> fst e \<le> t - of_int window)) (st key);
          z = zset_add t member z;
          count = int (length z) in
      if count > limit
      then (let z = filter (\<lambda>e. snd e \<noteq> member) z;
                retry = (case z of [] \<Rightarrow> 1 | e # _ \<Rightarrow> retry_seconds (fst e) window t)
            in (Inr (rl_make False limit 0 retry), st(key := z)))
      else (Inr (rl_make True limit (max 0 (limit - count)) 0), st(key := z)))"

section \<open>enforce and the API dependencies\<close>

text \<open>\<open>hit\<close> is the limiter's operation at the present time.\<close>

fun enforce_keys ::
  "(string \<Rightarrow> int \<Rightarrow> int \<Rightarrow> ('s, rl_result) action) \<Rightarrow> string list \<Rightarrow> int \<Rightarrow> int \<Rightarrow> rl_result \<Rightarrow>
   ('s, rl_result) action" where
  "enforce_keys hit [] limit window worst st = (Inr worst, st)"
| "enforce_keys hit (k # ks) limit window worst st =
     (case hit k limit window st of
        (Inl e, st') \<Rightarrow> (Inl e, st')
      | (Inr r, st') \<Rightarrow>
          if \<not> rl_allowed r then (Inr r, st')
          else enforce_keys hit ks limit window
                 (if rl_remaining r < rl_remaining worst then r else worst) st')"

definition enforce ::
  "(string \<Rightarrow> int \<Rightarrow> int \<Rightarrow> ('s, rl_result) action) \<Rightarrow> bool \<Rightarrow> string list \<Rightarrow> int \<Rightarrow> int \<Rightarrow>
   ('s, rl_result) action" where
  "enforce hit enabled keys limit window st =
     (if \<not> enabled then (Inr (rl_make True limit limit 0), st)
      else enforce_keys hit keys limit window (rl_make True limit limit 0) st)"

text \<open>
  \<open>rate_limit(bucket)\<close>: the key of the principal with the limit of the setting, then the key of
  the client address with a wider one. A refusal is a 429.
\<close>

definition subject_key :: "string \<Rightarrow> string \<Rightarrow> string" where
  "subject_key bucket subject = bucket @ '':sub:'' @ subject"

definition ip_key :: "string \<Rightarrow> string \<Rightarrow> string" where
  "ip_key bucket ip = bucket @ '':ip:'' @ ip"

fun rate_limit_keys ::
  "(string \<Rightarrow> int \<Rightarrow> int \<Rightarrow> ('s, rl_result) action) \<Rightarrow> bool \<Rightarrow> (string \<times> int) list \<Rightarrow> int \<Rightarrow>
   ('s, unit) action" where
  "rate_limit_keys hit enabled [] window st = (Inr (), st)"
| "rate_limit_keys hit enabled ((k, l) # ks) window st =
     (case enforce hit enabled [k] l window st of
        (Inl e, st') \<Rightarrow> (Inl e, st')
      | (Inr r, st') \<Rightarrow>
          if \<not> rl_allowed r then (Inl (HTTPException 429 ''rate limit exceeded''), st')
          else rate_limit_keys hit enabled ks window st')"

definition rate_limit ::
  "(string \<Rightarrow> int \<Rightarrow> int \<Rightarrow> ('s, rl_result) action) \<Rightarrow> bool \<Rightarrow> int \<Rightarrow> string \<Rightarrow> int \<Rightarrow> int \<Rightarrow>
   string \<Rightarrow> string \<Rightarrow> ('s, unit) action" where
  "rate_limit hit enabled burst bucket limit window subject ip =
     rate_limit_keys hit enabled
       [(subject_key bucket subject, limit), (ip_key bucket ip, max limit (limit * burst))] window"

definition login_rate_limit ::
  "(string \<Rightarrow> int \<Rightarrow> int \<Rightarrow> ('s, rl_result) action) \<Rightarrow> bool \<Rightarrow> int \<Rightarrow> string \<Rightarrow> ('s, unit) action" where
  "login_rate_limit hit enabled limit ip st =
     (case enforce hit enabled [''login:ip:'' @ ip] limit 60 st of
        (Inl e, st') \<Rightarrow> (Inl e, st')
      | (Inr r, st') \<Rightarrow>
          if \<not> rl_allowed r then (Inl (HTTPException 429 ''too many login attempts''), st')
          else (Inr (), st'))"

section \<open>The contract of a limiter\<close>

text \<open>
  \<open>stamps\<close> are the hits of a key the limiter remembers. The laws speak of states that are \<open>ok\<close> at
  a time: remembered in order, none in the future. A hit is allowed exactly when fewer than
  \<open>limit\<close> remembered hits are alive, and only then remembered; other keys are not touched.
\<close>

locale sliding_window =
  fixes hit :: "string \<Rightarrow> string \<Rightarrow> int \<Rightarrow> int \<Rightarrow> real \<Rightarrow> 's \<Rightarrow> (exn + rl_result) \<times> 's"
    and stamps :: "'s \<Rightarrow> string \<Rightarrow> real list"
    and names :: "'s \<Rightarrow> string set"
    and alive :: "int \<Rightarrow> real \<Rightarrow> real \<Rightarrow> bool"
    and initial :: "'s"
  assumes alive_recent: "t - of_int window < s \<Longrightarrow> alive window t s"
    and alive_mono: "t \<le> u \<Longrightarrow> alive window u s \<Longrightarrow> alive window t s"
    and initial_stamps: "stamps initial key = []"
    and initial_names: "names initial = {}"
    and hit_law: "0 < limit \<Longrightarrow> sorted (stamps st key) \<Longrightarrow>
      \<forall>s \<in> set (stamps st key). 0 \<le> s \<and> s \<le> t \<Longrightarrow> m \<notin> names st \<Longrightarrow> 0 \<le> t \<Longrightarrow>
      \<exists>r st'. hit m key limit window t st = (Inr r, st') \<and>
        rl_allowed r = (int (length (filter (alive window t) (stamps st key))) < limit) \<and>
        stamps st' key = filter (alive window t) (stamps st key) @ (if rl_allowed r then [t] else []) \<and>
        (\<forall>k. k \<noteq> key \<longrightarrow> stamps st' k = stamps st k) \<and> names st' \<subseteq> insert m (names st)"

text \<open>The log of a sequence of hits on one key: when, and whether it was allowed.\<close>

fun hit_log ::
  "(string \<Rightarrow> string \<Rightarrow> int \<Rightarrow> int \<Rightarrow> real \<Rightarrow> 's \<Rightarrow> (exn + rl_result) \<times> 's) \<Rightarrow> string \<Rightarrow> int \<Rightarrow> int \<Rightarrow>
   (real \<times> string) list \<Rightarrow> 's \<Rightarrow> (real \<times> bool) list" where
  "hit_log hit key limit window [] st = []"
| "hit_log hit key limit window ((t, m) # hs) st =
     (case hit m key limit window t st of
        (Inl e, st') \<Rightarrow> (t, False) # hit_log hit key limit window hs st'
      | (Inr r, st') \<Rightarrow> (t, rl_allowed r) # hit_log hit key limit window hs st')"

definition allowed_between :: "real \<Rightarrow> real \<Rightarrow> (real \<times> bool) list \<Rightarrow> nat" where
  "allowed_between a b lg = length (filter (\<lambda>(s, ok). ok \<and> a < s \<and> s \<le> b) lg)"

lemma allowed_between_Nil [simp]: "allowed_between a b [] = 0"
  by (simp add: allowed_between_def)

lemma allowed_between_Cons [simp]:
  "allowed_between a b ((s, ok) # lg) = (if ok \<and> a < s \<and> s \<le> b then 1 else 0) + allowed_between a b lg"
  by (simp add: allowed_between_def)

lemma hit_log_times: "map fst (hit_log hit key limit window hs st) = map fst hs"
  by (induction hs arbitrary: st) (auto split: prod.splits sum.splits)

lemma late_hits:
  assumes "sorted (u # ts)" and "map fst lg = u # ts" and "\<not> u \<le> b"
  shows "allowed_between a b lg = 0"
proof -
  have "b < s" if "(s, ok) \<in> set lg" for s ok
  proof -
    from that have "s \<in> set (map fst lg)" by force
    with assms show ?thesis by auto
  qed
  then show ?thesis by (fastforce simp: allowed_between_def filter_empty_conv)
qed

context sliding_window
begin

text \<open>
  The hits allowed from a state on, together with the remembered ones, never exceed the limit in a
  window. The remembered hits before the window do not count.
\<close>

lemma hit_log_bound:
  assumes "0 < limit" and "sorted (map fst hs)" and "distinct (map snd hs)"
    and "sorted (stamps st key)" and "\<forall>s \<in> set (stamps st key). 0 \<le> s \<and> (\<forall>h \<in> set hs. s \<le> fst h)"
    and "set (map snd hs) \<inter> names st = {}" and "\<forall>h \<in> set hs. 0 \<le> fst h"
    and "int (length (filter (\<lambda>s. t - of_int window < s \<and> s \<le> t) (stamps st key))) \<le> limit"
  shows "int (length (filter (\<lambda>s. t - of_int window < s \<and> s \<le> t) (stamps st key)) +
           allowed_between (t - of_int window) t (hit_log hit key limit window hs st)) \<le> limit"
  using assms
proof (induction hs arbitrary: st)
  case (Cons h hs)
  obtain u m where h: "h = (u, m)" by (cases h)
  let ?P = "\<lambda>s. t - of_int window < s \<and> s \<le> t"
  have "\<forall>s \<in> set (stamps st key). 0 \<le> s \<and> s \<le> u" "m \<notin> names st" "0 \<le> u"
    using Cons.prems by (auto simp: h)
  with hit_law [OF Cons.prems(1,4), of u m window] obtain r st' where
    hit: "hit m key limit window u st = (Inr r, st')" and
    al: "rl_allowed r = (int (length (filter (alive window u) (stamps st key))) < limit)" and
    st': "stamps st' key = filter (alive window u) (stamps st key) @ (if rl_allowed r then [u] else [])" and
    nm: "names st' \<subseteq> insert m (names st)" by blast
  let ?live = "filter (alive window u) (stamps st key)"
  have sub: "set (stamps st' key) \<subseteq> insert u (set (stamps st key))" by (auto simp: st')
  have "sorted ?live" using Cons.prems(4) by (rule sorted_wrt_filter)
  then have sorted': "sorted (stamps st' key)"
    using \<open>\<forall>s \<in> set (stamps st key). 0 \<le> s \<and> s \<le> u\<close> by (simp add: st' sorted_append)
  have le': "\<forall>s \<in> set (stamps st' key). 0 \<le> s \<and> (\<forall>h \<in> set hs. s \<le> fst h)"
    using sub Cons.prems(2,5) \<open>0 \<le> u\<close> by (auto simp: h)
  have nm': "set (map snd hs) \<inter> names st' = {}" using nm Cons.prems(3,6) by (auto simp: h)
  show ?case
  proof (cases "u \<le> t")
    case False
    then have "allowed_between (t - of_int window) t (hit_log hit key limit window (h # hs) st) = 0"
      by (rule late_hits [OF Cons.prems(2) [unfolded h list.map fst_conv]
            hit_log_times [of hit key limit window "h # hs" st, unfolded h list.map fst_conv],
            folded h])
    with Cons.prems(8) show ?thesis by simp
  next
    case True
    have "alive window u s" if "?P s" for s
      using that True by (intro alive_recent) auto
    then have same: "filter ?P ?live = filter ?P (stamps st key)"
      by (auto simp: filter_filter intro!: filter_cong)
    then have cnt: "length (filter ?P (stamps st' key)) =
        length (filter ?P (stamps st key)) + (if rl_allowed r \<and> ?P u then 1 else 0)"
      by (simp add: st')
    have "length (filter ?P (stamps st key)) \<le> length ?live"
      unfolding same [symmetric] by (rule length_filter_le)
    with al Cons.prems(8) have side: "int (length (filter ?P (stamps st' key))) \<le> limit"
      unfolding cnt by (auto split: if_splits)
    have "int (length (filter ?P (stamps st' key)) +
        allowed_between (t - of_int window) t (hit_log hit key limit window hs st')) \<le> limit"
      by (rule Cons.IH [OF Cons.prems(1) _ _ sorted' le' nm' _ side])
        (use Cons.prems(2,3,7) in \<open>simp_all add: h\<close>)
    moreover have "hit_log hit key limit window (h # hs) st = (u, rl_allowed r) # hit_log hit key limit window hs st'"
      by (simp add: h hit)
    ultimately show ?thesis
      unfolding cnt by (cases "rl_allowed r \<and> ?P u") auto
  qed
qed simp

lemma window_bound:
  assumes "0 < limit" and "sorted (map fst hs)" and "distinct (map snd hs)" and "\<forall>h \<in> set hs. 0 \<le> fst h"
  shows "int (allowed_between (t - of_int window) t (hit_log hit key limit window hs initial)) \<le> limit"
  using hit_log_bound [of limit hs initial key t window] assms
  by (simp add: initial_stamps initial_names)

text \<open>A hit on one key does not move another.\<close>

end

section \<open>Both limiters keep it\<close>

lemma dropWhile_sorted_filter:
  "sorted q \<Longrightarrow> dropWhile (\<lambda>s. s < c) q = filter (\<lambda>s. c \<le> s) (q :: real list)"
  by (induction q) (auto simp: filter_id_conv intro!: sym [OF filter_True])

interpretation mem_window: sliding_window "\<lambda>_. mem_hit" "\<lambda>st. st" "\<lambda>_. {}"
    "\<lambda>window t s. t - of_int window \<le> s" mem_limiter_empty
proof (unfold_locales, goal_cases)
  case (5 limit st key t m window)
  let ?q = "filter (\<lambda>s. t - of_int window \<le> s) (st key)"
  have q: "dropWhile (\<lambda>s. s < t - of_int window) (st key) = ?q"
    by (rule dropWhile_sorted_filter [OF 5(2)])
  show ?case
  proof (cases "int (length ?q) \<ge> limit")
    case True
    with 5(1) obtain s q' where "?q = s # q'" by (cases ?q) auto
    with True show ?thesis by (simp add: mem_hit_def q Let_def rl_make_def)
  next
    case False
    then show ?thesis by (simp add: mem_hit_def q Let_def rl_make_def)
  qed
qed (auto simp: mem_limiter_empty_def)

lemma filter_insort_key_fresh:
  "m \<notin> snd ` set z \<Longrightarrow> filter (\<lambda>e. snd e \<noteq> m) (insort_key fst (s, m) z) = z"
proof (induction z)
  case (Cons e z)
  then have "filter (\<lambda>e. snd e \<noteq> m) z = z" by (auto simp: filter_id_conv)
  with Cons show ?case by auto
qed simp

lemma insort_key_last:
  "sorted (map fst z) \<Longrightarrow> \<forall>e \<in> set z. fst e \<le> (s :: real) \<Longrightarrow>
   map fst (insort_key fst (s, m) z) = map fst z @ [s]"
proof (induction z)
  case (Cons e z)
  show ?case
  proof (cases "s \<le> fst e")
    case True
    with Cons.prems have "\<forall>x \<in> set (e # z). fst x = s" by fastforce
    then have "map fst (e # z) = replicate (length (e # z)) s"
      by (intro replicate_eqI) auto
    then have "s # map fst (e # z) = map fst (e # z) @ [s]"
      using replicate_append_same [of "length (e # z)" s] by simp
    with True show ?thesis by simp
  next
    case False
    with Cons show ?thesis by simp
  qed
qed simp

definition redis_names :: "redis_limiter \<Rightarrow> string set" where
  "redis_names st = (\<Union>k. snd ` set (st k))"

lemma redis_names_update:
  "set z \<subseteq> insert (t, m) (set (st key)) \<Longrightarrow> redis_names (st(key := z)) \<subseteq> insert m (redis_names st)"
  by (force simp: redis_names_def split: if_splits)

interpretation redis_window: sliding_window redis_hit "\<lambda>st k. map fst (st k)" redis_names
    "\<lambda>window t s. t - of_int window < s" redis_limiter_empty
proof (unfold_locales, goal_cases)
  case (5 limit st key t m window)
  let ?z = "filter (\<lambda>e. \<not> (0 \<le> fst e \<and> fst e \<le> t - of_int window)) (st key)"
  let ?n = "filter (\<lambda>s. t - of_int window < s) (map fst (st key))"
  have pos: "\<forall>e \<in> set (st key). 0 \<le> fst e \<and> fst e \<le> t" using 5(3) by auto
  then have "?z = filter (\<lambda>e. t - of_int window < fst e) (st key)"
    by (intro filter_cong) auto
  then have z: "map fst ?z = ?n" by (simp add: filter_map comp_def)
  have fresh: "m \<notin> snd ` set ?z" using 5(4) by (auto simp: redis_names_def)
  have fil: "filter (\<lambda>e. snd e \<noteq> m) ?z = ?z"
  proof (rule filter_True, intro ballI notI)
    fix e assume "e \<in> set ?z" and "snd e = m"
    then have "m \<in> snd ` set ?z" using imageI [of e "set ?z" snd] by simp
    with fresh show False ..
  qed
  have add: "zset_add t m ?z = insort_key fst (t, m) ?z" unfolding zset_add_def fil ..
  have "sorted (map fst ?z)" unfolding z using 5(2) by (rule sorted_wrt_filter)
  then have ins: "map fst (insort_key fst (t, m) ?z) = ?n @ [t]"
    unfolding z [symmetric] by (rule insort_key_last) (use pos in auto)
  have len: "length (insort_key fst (t, m) ?z) = Suc (length ?n)"
    using arg_cong [OF ins, of length] by simp
  have bk: "filter (\<lambda>e. snd e \<noteq> m) (insort_key fst (t, m) ?z) = ?z"
    by (rule filter_insort_key_fresh [OF fresh])
  have sub: "set ?z \<subseteq> set (st key)" by (rule filter_is_subset)
  have ins_sub: "set (insort_key fst (t, m) ?z) \<subseteq> insert (t, m) (set (st key))"
    unfolding set_insort_key using sub by blast
  show ?case
  proof (cases "int (length ?n) < limit")
    case True
    have "redis_hit m key limit window t st = (Inr (rl_make True limit (max 0 (limit - int (Suc (length ?n)))) 0),
        st(key := insort_key fst (t, m) ?z))"
      unfolding redis_hit_def Let_def add len using True by simp
    moreover note redis_names_update [of _ t m st key, OF ins_sub]
    ultimately show ?thesis
      using True ins by (intro exI conjI) (assumption | simp add: rl_make_def)+
  next
    case False
    have "redis_hit m key limit window t st = (Inr (rl_make False limit 0
        (case ?z of [] \<Rightarrow> 1 | e # _ \<Rightarrow> retry_seconds (fst e) window t)), st(key := ?z))"
      unfolding redis_hit_def Let_def add len bk using False by simp
    moreover have "redis_names (st(key := ?z)) \<subseteq> insert m (redis_names st)"
      by (rule redis_names_update [of _ t]) (use sub in blast)
    ultimately show ?thesis
      using False z by (intro exI conjI) (assumption | simp add: rl_make_def del: filter_filter)+
  qed
qed (auto simp: redis_limiter_empty_def redis_names_def)

section \<open>Properties\<close>

text \<open>
  C10. Neither limiter ever allows more than \<open>limit\<close> hits on a key in any stretch of
  \<open>window\<close> seconds, whenever the hits come (the clock does not go back, Redis members differ).
\<close>

theorem window_never_exceeded:
  assumes "0 < limit" and "sorted (map fst hs)" and "distinct (map snd hs)" and "\<forall>h \<in> set hs. 0 \<le> fst h"
  shows "int (allowed_between (t - of_int window) t
           (hit_log (\<lambda>_. mem_hit) key limit window hs mem_limiter_empty)) \<le> limit \<and>
         int (allowed_between (t - of_int window) t
           (hit_log redis_hit key limit window hs redis_limiter_empty)) \<le> limit"
  using mem_window.window_bound [OF assms] redis_window.window_bound [OF assms] by blast

theorem window_never_exceeded_witness:
  "int (allowed_between 2 62
     (hit_log redis_hit ''k'' 1 60 [(10, ''a''), (11, ''b'')] redis_limiter_empty)) \<le> 1"
  using window_never_exceeded [of 1 "[(10, ''a''), (11, ''b'')]" 62 60 "''k''"] by simp

lemma mem_hit_other: "k \<noteq> key \<Longrightarrow> snd (mem_hit key limit window t st) k = st k"
  by (auto simp: mem_hit_def Let_def split: list.splits)

lemma mem_hit_result:
  assumes "0 < limit"
  shows "\<exists>r. fst (mem_hit key limit window t st) = Inr r \<and>
    rl_allowed r = (int (length (dropWhile (\<lambda>s. s < t - of_int window) (st key))) < limit)"
proof -
  obtain q where q: "dropWhile (\<lambda>s. s < t - of_int window) (st key) = q" by blast
  show ?thesis using assms by (cases q) (auto simp: mem_hit_def q Let_def rl_make_def)
qed

lemma enforce_one:
  "enforce hit enabled [k] limit window st =
     (if \<not> enabled then (Inr (rl_make True limit limit 0), st)
      else (case hit k limit window st of
              (Inl e, st') \<Rightarrow> (Inl e, st')
            | (Inr r, st') \<Rightarrow> (Inr (if \<not> rl_allowed r \<or> rl_remaining r < limit then r
                                   else rl_make True limit limit 0), st')))"
  by (auto simp: enforce_def rl_make_def split: prod.splits sum.splits)

lemma rate_limit_keys_frame:
  "k \<notin> fst ` set ks \<Longrightarrow> snd (rate_limit_keys (\<lambda>k l w. mem_hit k l w t) enabled ks window st) k = st k"
proof (induction ks arbitrary: st)
  case (Cons a ks)
  obtain k' l where a: "a = (k', l)" by (cases a)
  obtain x st' where h: "mem_hit k' l window t st = (x, st')" by (metis surj_pair)
  have "st' k = st k" using mem_hit_other [of k k' l window t st] Cons.prems h by (auto simp: a)
  with Cons show ?case
    by (auto simp: a enforce_one h rl_make_def split: sum.splits)
qed simp

lemma rate_limit_keys_result:
  assumes "\<forall>(k, l) \<in> set ks. 0 < l"
  shows "fst (rate_limit_keys (\<lambda>k l w. mem_hit k l w t) enabled ks window st)
     \<in> {Inr (), Inl (HTTPException 429 ''rate limit exceeded'')}"
  using assms
proof (induction ks arbitrary: st)
  case (Cons a ks)
  obtain k l where a: "a = (k, l)" by (cases a)
  with Cons.prems have "0 < l" by simp
  from mem_hit_result [OF this, of k window t st] obtain r st' where
    h: "mem_hit k l window t st = (Inr r, st')" by (metis eq_fst_iff)
  have IH: "fst (rate_limit_keys (\<lambda>k l w. mem_hit k l w t) enabled ks window s)
      \<in> {Inr (), Inl (HTTPException 429 ''rate limit exceeded'')}" for s
    using Cons by simp
  from IH [of st] IH [of st'] show ?case by (auto simp: a enforce_one h rl_make_def)
qed simp

lemma subject_ip_keys: "subject_key bucket s \<noteq> ip_key bucket' i \<or> bucket \<noteq> bucket'"
  by (auto simp: subject_key_def ip_key_def)

text \<open>
  The API's rate limit answers 429 and nothing else, at no cost to others: the hits of every
  key but the principal's and the address's stay as they were, and a principal over its own limit
  is refused before the limit of its address is charged.
\<close>

lemma rate_limit_isolated:
  assumes "0 < limit" and "hit = (\<lambda>k l w. mem_hit k l w t)"
    and "run = rate_limit hit enabled burst bucket limit window subject ip st"
  shows "fst run \<in> {Inr (), Inl (HTTPException 429 ''rate limit exceeded'')} \<and>
    (\<forall>k. k \<notin> {subject_key bucket subject, ip_key bucket ip} \<longrightarrow> snd run k = st k) \<and>
    (enabled \<and> limit \<le> int (length (dropWhile (\<lambda>s. s < t - of_int window) (st (subject_key bucket subject))))
      \<longrightarrow> fst run = Inl (HTTPException 429 ''rate limit exceeded'') \<and>
          snd run (ip_key bucket ip) = st (ip_key bucket ip))"
proof (intro conjI allI impI)
  have "0 < max limit (limit * burst)" using assms(1) by simp
  then show "fst run \<in> {Inr (), Inl (HTTPException 429 ''rate limit exceeded'')}"
    unfolding assms(2,3) rate_limit_def using assms(1) by (intro rate_limit_keys_result) auto
  show "snd run k = st k" if "k \<notin> {subject_key bucket subject, ip_key bucket ip}" for k
    unfolding assms(2,3) rate_limit_def using that by (intro rate_limit_keys_frame) auto
next
  let ?k = "subject_key bucket subject"
  assume full: "enabled \<and> limit \<le> int (length (dropWhile (\<lambda>s. s < t - of_int window) (st ?k)))"
  from mem_hit_result [OF assms(1), of ?k window t st] full obtain r st' where
    h: "mem_hit ?k limit window t st = (Inr r, st')" and r: "\<not> rl_allowed r" by (metis eq_fst_iff linorder_not_le)
  have run: "run = (Inl (HTTPException 429 ''rate limit exceeded''), st')"
    unfolding assms(2,3) rate_limit_def using full by (simp add: enforce_one h r)
  show "fst run = Inl (HTTPException 429 ''rate limit exceeded'')" by (simp add: run)
  show "snd run (ip_key bucket ip) = st (ip_key bucket ip)"
    using mem_hit_other [of "ip_key bucket ip" ?k limit window t st] subject_ip_keys [of bucket subject bucket ip]
    by (auto simp: run h)
qed

lemma rate_limit_isolated_witness:
  "fst (rate_limit (\<lambda>k l w. mem_hit k l w 5) True 10 ''search'' 1 60 ''u1'' ''10.0.0.1''
     (\<lambda>k. if k = ''search:sub:u1'' then [1] else [])) = Inl (HTTPException 429 ''rate limit exceeded'')"
  using rate_limit_isolated [of 1 _ 5 _ True 10 "''search''" 60 "''u1''" "''10.0.0.1''"
      "\<lambda>k. if k = ''search:sub:u1'' then [1] else []", OF _ refl refl]
  by (simp add: subject_key_def)

text \<open>A limit of zero is not a refusal but a crash in the in-memory limiter.\<close>

lemma limit_zero_raises: "fst (mem_hit key 0 window t mem_limiter_empty) = Inl IndexError"
  by (simp add: mem_hit_def mem_limiter_empty_def)

end
