(* ===== verification/Auth.thy ===== *)
theory Auth
  imports Types
begin

text \<open>
  \<open>security/auth.py\<close>: URL-safe base64 as Python decodes it (padding optional after the code's
  own padding, foreign characters skipped), password hashes and signed access tokens. The
  primitives of OpenSSL (\<open>scrypt\<close>, HMAC-SHA256) and the JSON text codec are parameters. A byte
  is a \<^typ>\<open>char\<close>.
\<close>

type_synonym bytes = "char list"

section \<open>Base64\<close>

definition b64_char :: "nat \<Rightarrow> char" where
  "b64_char n =
     (if n < 26 then char_of (n + 65) else if n < 52 then char_of (n + 71)
      else if n < 62 then char_of (n - 4) else if n = 62 then CHR ''-'' else CHR ''_'')"

text \<open>\<open>urlsafe_b64encode\<close> without the padding, which the code strips.\<close>

fun b64_groups :: "nat list \<Rightarrow> nat list" where
  "b64_groups [] = []"
| "b64_groups [a] = [a div 4, (a mod 4) * 16]"
| "b64_groups [a, b] = [a div 4, (a mod 4) * 16 + b div 16, (b mod 16) * 4]"
| "b64_groups (a # b # c # r) =
     a div 4 # ((a mod 4) * 16 + b div 16) # ((b mod 16) * 4 + c div 64) # c mod 64 # b64_groups r"

definition b64 :: "bytes \<Rightarrow> string" where
  "b64 data = map b64_char (b64_groups (map code data))"

text \<open>
  \<open>urlsafe_b64decode\<close>: the two URL-safe characters and the two standard ones have a value, any
  other character is skipped; a second pad in position two, or one in position three, ends the
  input. At the end a started group is an error.
\<close>

definition b64_value :: "char \<Rightarrow> nat option" where
  "b64_value c =
     (if is_upper_az c then Some (code c - 65)
      else if is_lower_az c then Some (code c - 71)
      else if is_decimal c then Some (code c + 4)
      else if c = CHR ''-'' \<or> c = CHR ''+'' then Some 62
      else if c = CHR ''_'' \<or> c = CHR ''/'' then Some 63
      else None)"

fun a2b :: "nat \<Rightarrow> nat \<Rightarrow> nat \<Rightarrow> string \<Rightarrow> nat list option" where
  "a2b pos left pads [] = (if pos = 0 then Some [] else None)"
| "a2b pos left pads (c # cs) =
     (if c = CHR ''='' then
        (if 2 \<le> pos \<and> 4 \<le> pos + Suc pads then Some []
         else a2b pos left (if 2 \<le> pos then Suc pads else pads) cs)
      else (case b64_value c of
        None \<Rightarrow> a2b pos left pads cs
      | Some v \<Rightarrow>
          if pos = 0 then a2b 1 v 0 cs
          else if pos = 1 then map_option (Cons (left * 4 + v div 16)) (a2b 2 (v mod 16) 0 cs)
          else if pos = 2 then map_option (Cons (left * 16 + v div 4)) (a2b 3 (v mod 4) 0 cs)
          else map_option (Cons (left * 64 + v)) (a2b 0 0 0 cs)))"

definition pad4 :: "string \<Rightarrow> string" where
  "pad4 s = s @ replicate ((4 - length s mod 4) mod 4) CHR ''=''"

definition unb64 :: "string \<Rightarrow> exn + bytes" where
  "unb64 s =
     (if \<not> list_all (\<lambda>c. code c < 128) s then Inl (ValueError ''ASCII'')
      else (case a2b 0 0 0 (pad4 s) of
              None \<Rightarrow> Inl (ValueError ''Incorrect padding'')
            | Some ns \<Rightarrow> Inr (map char_of ns)))"

text \<open>UTF-8 of a Latin-1 text.\<close>

definition utf8 :: "string \<Rightarrow> bytes" where
  "utf8 s = concat (map (\<lambda>c. if code c < 128 then [c]
     else [char_of (192 + code c div 64), char_of (128 + code c mod 64)]) s)"

section \<open>Base64 round trip\<close>

lemma b64_value_char: "n < 64 \<Longrightarrow> b64_value (b64_char n) = Some n \<and> b64_char n \<noteq> CHR ''='' \<and>
    b64_char n \<noteq> CHR ''.'' \<and> b64_char n \<noteq> CHR ''$'' \<and> code (b64_char n) < 128"
proof -
  assume n: "n < 64"
  have codes: "code (CHR ''='') = 61" "code (CHR ''.'') = 46" "code (CHR ''$'') = 36"
    "code (CHR ''-'') = 45" "code (CHR ''_'') = 95" "code (CHR ''+'') = 43" "code (CHR ''/'') = 47"
    by (simp_all add: code_def)
  consider "n < 26" | "26 \<le> n" "n < 52" | k where "n = 52 + k" "k < 10" | "n = 62" | "n = 63"
    using n le_Suc_ex [of 52 n] by fastforce
  then show ?thesis
    by cases (simp_all add: b64_char_def b64_value_def is_upper_az_def is_lower_az_def is_decimal_def
        codes code_eq_iff [symmetric])
qed

lemma b64_groups_less: "\<forall>n \<in> set ns. n < 256 \<Longrightarrow> \<forall>n \<in> set (b64_groups ns). n < 64"
  by (induction ns rule: b64_groups.induct) auto

lemma div_mod_join: "(a::nat) div m * m + a mod m = a"
  by simp

lemma a2b_step: "n < 64 \<Longrightarrow> a2b pos left pads (b64_char n # cs) =
    (if pos = 0 then a2b 1 n 0 cs
     else if pos = 1 then map_option (Cons (left * 4 + n div 16)) (a2b 2 (n mod 16) 0 cs)
     else if pos = 2 then map_option (Cons (left * 16 + n div 4)) (a2b 3 (n mod 4) 0 cs)
     else map_option (Cons (left * 64 + n)) (a2b 0 0 0 cs))"
  using b64_value_char [of n] by simp

lemma a2b_end: "a2b 0 left p [] = Some []" "a2b 3 left p ''='' = Some []" "a2b 2 left 0 ''=='' = Some []"
  by simp_all

declare a2b.simps [simp del]

definition pads :: "nat \<Rightarrow> string" where
  "pads n = replicate ((4 - n mod 4) mod 4) CHR ''=''"

lemma pads_add4 [simp]: "pads (n + 4) = pads n" "pads (Suc (Suc (Suc (Suc n)))) = pads n"
  by (simp_all add: pads_def)

lemma a2b_groups:
  "\<forall>n \<in> set ns. n < 256 \<Longrightarrow>
   a2b 0 0 0 (map b64_char (b64_groups ns) @ pads (length (b64_groups ns))) = Some ns"
proof (induction ns rule: b64_groups.induct)
  case 1
  show ?case by (simp add: pads_def a2b_end)
next
  case (2 a)
  then have "a < 256" by simp
  then have "a div 4 < 64" "a mod 4 * 16 < 64" by simp_all
  moreover have "pads (Suc (Suc 0)) = ''==''" by (simp add: pads_def numeral_2_eq_2)
  ultimately show ?case by (simp add: a2b_step a2b_end)
next
  case (3 a b)
  then have ab: "a < 256" "b < 256" by simp_all
  have bb: "b div 16 div 16 = 0" "b div 16 mod 16 = b div 16"
    using ab(2) by (simp_all add: div_eq_0_iff less_mult_imp_div_less)
  from ab have "a div 4 < 64" "a mod 4 * 16 + b div 16 < 64" "b mod 16 * 4 < 64" by simp_all
  moreover have "pads (Suc (Suc (Suc 0))) = ''=''" by (simp add: pads_def)
  ultimately show ?case using bb by (simp add: a2b_step a2b_end)
next
  case (4 a b c r)
  then have abc: "a < 256" "b < 256" "c < 256" by simp_all
  have bc: "b div 16 div 16 = 0" "b div 16 mod 16 = b div 16" "c div 64 div 4 = 0"
    "c div 64 mod 4 = c div 64"
    using abc by (simp_all add: div_eq_0_iff less_mult_imp_div_less)
  from abc have "a div 4 < 64" "a mod 4 * 16 + b div 16 < 64" "b mod 16 * 4 + c div 64 < 64" "c mod 64 < 64"
    by simp_all
  with 4 bc show ?case by (simp add: a2b_step)
qed

lemma unb64_b64: "unb64 (b64 data) = Inr data"
proof -
  have lt: "\<forall>n \<in> set (map code data). n < 256" by simp
  then have "list_all (\<lambda>c. code c < 128) (b64 data)"
    using b64_groups_less [OF lt] b64_value_char by (auto simp: b64_def list_all_iff)
  moreover have "a2b 0 0 0 (pad4 (b64 data)) = Some (map code data)"
    using a2b_groups [OF lt] by (simp add: pad4_def b64_def pads_def)
  ultimately show ?thesis by (simp add: unb64_def comp_def)
qed

lemma b64_chars: "CHR ''.'' \<notin> set (b64 data)" "CHR ''$'' \<notin> set (b64 data)"
  using b64_groups_less [of "map code data"] b64_value_char by (fastforce simp: b64_def)+


section \<open>Passwords\<close>

text \<open>\<open>scrypt pw salt n r p dklen\<close> stands for \<open>hashlib.scrypt\<close>; it may raise.\<close>

type_synonym scrypt_fn = "bytes \<Rightarrow> bytes \<Rightarrow> int \<Rightarrow> int \<Rightarrow> int \<Rightarrow> nat \<Rightarrow> exn + bytes"

definition hash_password :: "scrypt_fn \<Rightarrow> bytes \<Rightarrow> string \<Rightarrow> exn + string" where
  "hash_password scrypt salt password =
     (case scrypt (utf8 password) salt 16384 8 1 32 of
        Inl e \<Rightarrow> Inl e
      | Inr digest \<Rightarrow> Inr (''scrypt$'' @ show_nat 16384 @ ''$'' @ show_nat 8 @ ''$'' @ show_nat 1 @ ''$'' @
          b64 salt @ ''$'' @ b64 digest))"

text \<open>The exceptions \<open>verify_password\<close> turns into a refusal.\<close>

fun value_or_type_error :: "exn \<Rightarrow> bool" where
  "value_or_type_error (ValueError _) = True"
| "value_or_type_error (TypeError _) = True"
| "value_or_type_error _ = False"

definition verify_digest :: "scrypt_fn \<Rightarrow> string \<Rightarrow> string \<Rightarrow> string \<Rightarrow> string \<Rightarrow> string \<Rightarrow> string \<Rightarrow> exn + bool" where
  "verify_digest scrypt password n r p salt_b64 hash_b64 =
     (case unb64 hash_b64 of Inl e \<Rightarrow> Inl e
      | Inr expected \<Rightarrow>
     (case unb64 salt_b64 of Inl e \<Rightarrow> Inl e
      | Inr salt \<Rightarrow>
     (case int_of_str n of Inl e \<Rightarrow> Inl e
      | Inr n' \<Rightarrow>
     (case int_of_str r of Inl e \<Rightarrow> Inl e
      | Inr r' \<Rightarrow>
     (case int_of_str p of Inl e \<Rightarrow> Inl e
      | Inr p' \<Rightarrow>
     (case scrypt (utf8 password) salt n' r' p' (length expected) of Inl e \<Rightarrow> Inl e
      | Inr digest \<Rightarrow> Inr (digest = expected)))))))"

definition verify_password :: "scrypt_fn \<Rightarrow> string \<Rightarrow> string option \<Rightarrow> exn + bool" where
  "verify_password scrypt password encoded =
     (case encoded of
        None \<Rightarrow> Inr False
      | Some e \<Rightarrow>
          if e = [] \<or> \<not> prefix ''scrypt$'' e then Inr False
          else (case split_char CHR ''$'' e of
                  [_, n, r, p, salt, h] \<Rightarrow>
                    (case verify_digest scrypt password n r p salt h of
                       Inl x \<Rightarrow> if value_or_type_error x then Inr False else Inl x
                     | Inr b \<Rightarrow> Inr b)
                | _ \<Rightarrow> Inr False))"

section \<open>Access tokens\<close>

text \<open>
  \<open>sign\<close> is HMAC-SHA256 under the secret key; \<open>dumps\<close> and \<open>loads\<close> are the JSON text codec.
\<close>

definition token_header :: json where
  "token_header = JObj [(''alg'', JStr ''HS256''), (''typ'', JStr ''TOI'')]"

definition token_payload :: "string \<Rightarrow> string \<Rightarrow> int \<Rightarrow> int \<Rightarrow> json" where
  "token_payload user_id role iat ttl =
     JObj [(''sub'', JStr user_id), (''role'', JStr role), (''iat'', JInt iat), (''exp'', JInt (iat + ttl))]"

text \<open>\<open>ttl_seconds or settings.access_token_ttl_seconds\<close>\<close>

definition token_ttl :: "int \<Rightarrow> int option \<Rightarrow> int" where
  "token_ttl default_ttl ttl_seconds =
     (case ttl_seconds of None \<Rightarrow> default_ttl | Some s \<Rightarrow> if s = 0 then default_ttl else s)"

definition create_access_token ::
  "(string \<Rightarrow> bytes) \<Rightarrow> (json \<Rightarrow> bytes) \<Rightarrow> int \<Rightarrow> int \<Rightarrow> string \<Rightarrow> string \<Rightarrow> int option \<Rightarrow> string" where
  "create_access_token sign dumps default_ttl t user_id role ttl_seconds =
     (let ttl = token_ttl default_ttl ttl_seconds;
          signing_input = b64 (dumps token_header) @ ''.'' @ b64 (dumps (token_payload user_id role t ttl))
      in signing_input @ ''.'' @ b64 (sign signing_input))"

text \<open>\<open>int(v)\<close> of a JSON value.\<close>

fun int_of_json :: "json \<Rightarrow> exn + int" where
  "int_of_json (JInt i) = Inr i"
| "int_of_json (JBool b) = Inr (if b then 1 else 0)"
| "int_of_json (JStr s) = int_of_str s"
| "int_of_json _ = Inl (TypeError ''int() argument'')"

definition check_expiry :: "int \<Rightarrow> json \<Rightarrow> exn + json" where
  "check_expiry t payload =
     (case payload of
        JObj kvs \<Rightarrow>
          (case (case map_of kvs ''exp'' of None \<Rightarrow> Inr 0 | Some v \<Rightarrow> int_of_json v) of
             Inl e \<Rightarrow> Inl e
           | Inr x \<Rightarrow> if x < t then Inl (TokenError ''expired'') else Inr payload)
      | _ \<Rightarrow> Inl (AttributeError ''get''))"

definition decode_access_token ::
  "(string \<Rightarrow> bytes) \<Rightarrow> (bytes \<Rightarrow> exn + json) \<Rightarrow> int \<Rightarrow> string \<Rightarrow> exn + json" where
  "decode_access_token sign loads t token =
     (case split_char CHR ''.'' token of
        [header_b64, payload_b64, sig_b64] \<Rightarrow>
          (case unb64 sig_b64 of
             Inl _ \<Rightarrow> Inl (TokenError ''malformed signature'')
           | Inr sig \<Rightarrow>
               if sign (header_b64 @ ''.'' @ payload_b64) \<noteq> sig then Inl (TokenError ''bad signature'')
               else (case unb64 payload_b64 of
                       Inl _ \<Rightarrow> Inl (TokenError ''bad payload'')
                     | Inr data \<Rightarrow>
                         (case loads data of
                            Inl _ \<Rightarrow> Inl (TokenError ''bad payload'')
                          | Inr payload \<Rightarrow> check_expiry t payload)))
      | _ \<Rightarrow> Inl (TokenError ''malformed token''))"

text \<open>\<open>new_refresh_token\<close>: the raw token is what \<open>secrets\<close> drew; the digest is stored.\<close>

definition hash_refresh_token :: "(bytes \<Rightarrow> string) \<Rightarrow> string \<Rightarrow> string" where
  "hash_refresh_token sha256_hex raw = sha256_hex (utf8 raw)"

definition new_refresh_token :: "(bytes \<Rightarrow> string) \<Rightarrow> string \<Rightarrow> string \<times> string" where
  "new_refresh_token sha256_hex drawn = (drawn, hash_refresh_token sha256_hex drawn)"

section \<open>Lemmas\<close>

lemma split_three:
  assumes "c \<notin> set x" and "c \<notin> set y" and "c \<notin> set z"
  shows "split_char c (x @ c # y @ c # z) = [x, y, z]"
  using assms by (simp add: split_char_append split_char_id)

lemma split_of_three:
  "split_char c s = [x, y, z] \<Longrightarrow> s = x @ [c] @ y @ [c] @ z"
  using join_split_char [of c s] by simp

text \<open>The codec gives an object back up to the order of its keys.\<close>

definition json_codec :: "(json \<Rightarrow> bytes) \<Rightarrow> (bytes \<Rightarrow> exn + json) \<Rightarrow> json \<Rightarrow> bool" where
  "json_codec dumps loads j \<longleftrightarrow> (case loads (dumps j) of
     Inr (JObj kvs) \<Rightarrow> (\<lambda>k. map_of kvs k) = (\<lambda>k. json_get k j) | _ \<Rightarrow> False)"

lemma decode_created:
  assumes "json_codec dumps loads (token_payload uid r t (token_ttl d ttl))"
  shows "\<exists>j. (\<forall>k. json_get k j = json_get k (token_payload uid r t (token_ttl d ttl))) \<and>
    decode_access_token sign loads t' (create_access_token sign dumps d t uid r ttl) =
    (if t + token_ttl d ttl < t' then Inl (TokenError ''expired'') else Inr j)"
proof -
  let ?p = "token_payload uid r t (token_ttl d ttl)"
  from assms obtain kvs where l: "loads (dumps ?p) = Inr (JObj kvs)"
    and m: "map_of kvs k = json_get k ?p" for k
    by (auto simp: json_codec_def fun_eq_iff split: sum.splits json.splits)
  have "decode_access_token sign loads t' (create_access_token sign dumps d t uid r ttl) =
      check_expiry t' (JObj kvs)"
    using l by (simp add: decode_access_token_def create_access_token_def Let_def split_three b64_chars
        unb64_b64)
  also have "\<dots> = (if t + token_ttl d ttl < t' then Inl (TokenError ''expired'') else Inr (JObj kvs))"
    by (simp add: check_expiry_def m) (simp add: json_get_def token_payload_def)
  finally show ?thesis
    using m by (intro exI [of _ "JObj kvs"]) (simp add: json_get_def)
qed

lemma decode_accepts:
  assumes "decode_access_token sign loads t token = Inr j"
  obtains h p s data where "token = h @ ''.'' @ p @ ''.'' @ s" "unb64 s = Inr (sign (h @ ''.'' @ p))"
    "unb64 p = Inr data" "loads data = Inr j" "check_expiry t j = Inr j"
  using assms
  by (auto simp: decode_access_token_def check_expiry_def dest!: split_of_three
      split: list.splits sum.splits if_splits json.splits option.splits)


lemma verify_hashed:
  assumes "scrypt (utf8 pw) salt 16384 8 1 32 = Inr d" and "length d = 32"
  shows "\<exists>enc. hash_password scrypt salt pw = Inr enc \<and> verify_password scrypt pw' (Some enc) =
    (case scrypt (utf8 pw') salt 16384 8 1 32 of
       Inl x \<Rightarrow> if value_or_type_error x then Inr False else Inl x
     | Inr d' \<Rightarrow> Inr (d' = d))"
proof -
  have nd: "CHR ''$'' \<notin> set (show_nat n)" for n
    using show_nat_decimal [of n] by (auto simp: list_all_iff is_decimal_def code_def)
  let ?enc = "''scrypt'' @ CHR ''$'' # show_nat 16384 @ CHR ''$'' # show_nat 8 @ CHR ''$'' #
    show_nat 1 @ CHR ''$'' # b64 salt @ CHR ''$'' # b64 d"
  have enc: "hash_password scrypt salt pw = Inr ?enc" using assms(1) by (simp add: hash_password_def)
  have "split_char CHR ''$'' ?enc = [''scrypt'', show_nat 16384, show_nat 8, show_nat 1, b64 salt, b64 d]"
    by (subst split_char_append, simp)+ (simp add: split_char_append nd split_char_id b64_chars)
  then have "verify_password scrypt pw' (Some ?enc) =
      (case verify_digest scrypt pw' (show_nat 16384) (show_nat 8) (show_nat 1) (b64 salt) (b64 d) of
         Inl x \<Rightarrow> if value_or_type_error x then Inr False else Inl x | Inr b \<Rightarrow> Inr b)"
    by (simp add: verify_password_def)
  also have "verify_digest scrypt pw' (show_nat 16384) (show_nat 8) (show_nat 1) (b64 salt) (b64 d) =
      (case scrypt (utf8 pw') salt 16384 8 1 32 of Inl x \<Rightarrow> Inl x | Inr d' \<Rightarrow> Inr (d' = d))"
    by (simp add: verify_digest_def unb64_b64 int_of_str_show_nat assms(2))
  finally show ?thesis using enc by (auto split: sum.splits)
qed

section \<open>Properties\<close>

text \<open>
  An access token, whatever the secret, is accepted by the decoder up to and including its
  expiry time and gives back the claims it was issued with; after that it is refused as expired.
\<close>

lemma token_roundtrip:
  assumes "json_codec dumps loads (token_payload uid r t (token_ttl d ttl))"
  shows "\<exists>j. (\<forall>k. json_get k j = json_get k (token_payload uid r t (token_ttl d ttl))) \<and>
    decode_access_token sign loads t' (create_access_token sign dumps d t uid r ttl) =
    (if t + token_ttl d ttl < t' then Inl (TokenError ''expired'') else Inr j)"
  using assms by (rule decode_created)

lemma token_roundtrip_witness:
  "decode_access_token (\<lambda>s. s) (\<lambda>_. Inr (token_payload ''u1'' ''ADMIN'' 100 900)) 1001
     (create_access_token (\<lambda>s. s) (\<lambda>_. ''payload'') 900 100 ''u1'' ''ADMIN'' None) = Inl (TokenError ''expired'')"
  using token_roundtrip [of "\<lambda>_. ''payload''" "\<lambda>_. Inr (token_payload ''u1'' ''ADMIN'' 100 900)"
      "''u1''" "''ADMIN''" 100 900 None "\<lambda>s. s" 1001]
  by (simp add: json_codec_def token_payload_def token_ttl_def json_get_def fun_eq_iff)

text \<open>
  C11. Only signed tokens are accepted: whatever text is presented, if it is accepted then it is
  three parts of which the third carries exactly the signature of the first two, the second
  carries the returned claims, and these have not expired.
\<close>

theorem token_authentic:
  assumes "decode_access_token sign loads t token = Inr j"
  shows "\<exists>h p s data. token = h @ ''.'' @ p @ ''.'' @ s \<and> unb64 s = Inr (sign (h @ ''.'' @ p)) \<and>
    unb64 p = Inr data \<and> loads data = Inr j \<and> check_expiry t j = Inr j"
  using assms by (elim decode_accepts) blast

theorem token_authentic_witness:
  "\<exists>h p s. ''..'' = h @ ''.'' @ p @ ''.'' @ s \<and> unb64 s = Inr []"
proof -
  have "decode_access_token (\<lambda>_. []) (\<lambda>_. Inr (JObj [(''exp'', JInt 5)])) 3 ''..'' =
      Inr (JObj [(''exp'', JInt 5)])"
    by (simp add: decode_access_token_def unb64_def pad4_def a2b_end check_expiry_def)
  from token_authentic [OF this] show ?thesis by blast
qed

text \<open>
  A password verifies against its own hash; another one verifies only when scrypt maps both to
  the same digest under the stored salt.
\<close>

lemma password_roundtrip:
  assumes "scrypt (utf8 pw) salt 16384 8 1 32 = Inr d" and "length d = 32"
  shows "\<exists>enc. hash_password scrypt salt pw = Inr enc \<and>
    verify_password scrypt pw (Some enc) = Inr True \<and>
    (verify_password scrypt pw' (Some enc) = Inr True \<longleftrightarrow> scrypt (utf8 pw') salt 16384 8 1 32 = Inr d)"
  using verify_hashed [of scrypt pw salt d pw] verify_hashed [of scrypt pw salt d pw'] assms
  by (auto split: sum.splits if_splits)

definition toy_scrypt :: scrypt_fn where
  "toy_scrypt pw salt n r p dklen = Inr (take dklen (pw @ replicate dklen CHR ''0''))"

lemma password_roundtrip_witness:
  "\<exists>enc. hash_password toy_scrypt ''salt'' ''hunter2'' = Inr enc \<and>
     verify_password toy_scrypt ''hunter2'' (Some enc) = Inr True"
proof -
  have "toy_scrypt (utf8 ''hunter2'') ''salt'' 16384 8 1 32 = Inr (''hunter2'' @ replicate 25 CHR ''0'')"
    by (simp add: toy_scrypt_def utf8_def code_def)
  from password_roundtrip [of toy_scrypt "''hunter2''" "''salt''", OF this] show ?thesis by auto
qed

end
