(* ===== verification/Users.thy ===== *)
theory Users
  imports BaseRepo Auth
begin

text \<open>
  Accounts: \<open>database/repositories/users.py\<close>, \<open>database/repositories/refresh_tokens.py\<close>, the
  API's principal (\<open>apps/api/deps.py\<close>) and its login, refresh and logout endpoints
  (\<open>apps/api/routers/auth.py\<close>). Password hashing and the token digest are parameters.
\<close>

section \<open>UserRepository\<close>

definition get_by_email :: "db \<Rightarrow> string \<Rightarrow> exn + user option" where
  "get_by_email d email = scalar_one_or_none (\<lambda>u. u_email u = lower (strip email)) (users d)"

definition get_by_telegram_id :: "db \<Rightarrow> int \<Rightarrow> exn + user option" where
  "get_by_telegram_id d tid = scalar_one_or_none (\<lambda>u. u_telegram_user_id u = Some tid) (users d)"

definition user_insert :: "string \<Rightarrow> string option \<Rightarrow> role \<Rightarrow> int option \<Rightarrow> string option \<Rightarrow> (db, user) action" where
  "user_insert email display_name r tid hashed =
     add_row users users_update uq_user (\<lambda>_ i.
       \<lparr>u_id = i, u_email = lower (strip email), u_display_name = display_name, u_role = r,
        u_is_active = True, u_hashed_password = hashed, u_telegram_user_id = tid,
        u_free_actions_used = 0, u_invited_by = None\<rparr>)"

definition user_create ::
  "scrypt_fn \<Rightarrow> bytes \<Rightarrow> string \<Rightarrow> string option \<Rightarrow> role \<Rightarrow> int option \<Rightarrow> string option \<Rightarrow>
   (db, user) action" where
  "user_create scrypt salt email display_name r tid password d =
     (case password of
        None \<Rightarrow> user_insert email display_name r tid None d
      | Some p \<Rightarrow>
          if p = [] then user_insert email display_name r tid None d
          else (case hash_password scrypt salt p of
                  Inl e \<Rightarrow> (Inl e, d)
                | Inr h \<Rightarrow> user_insert email display_name r tid (Some h) d))"

definition put_user :: "user \<Rightarrow> db \<Rightarrow> db" where
  "put_user u d = d\<lparr>users := update_where (\<lambda>x. u_id x = u_id u) (\<lambda>_. u) (users d)\<rparr>"

definition set_password :: "scrypt_fn \<Rightarrow> bytes \<Rightarrow> user \<Rightarrow> string \<Rightarrow> (db, unit) action" where
  "set_password scrypt salt u password d =
     (case hash_password scrypt salt password of
        Inl e \<Rightarrow> (Inl e, d)
      | Inr h \<Rightarrow> (Inr (), put_user (u\<lparr>u_hashed_password := Some h\<rparr>) d))"

definition telegram_email :: "int \<Rightarrow> string" where
  "telegram_email tid = ''telegram-'' @ show_int tid @ ''@users.noreply.local''"

definition get_or_create_for_telegram :: "int \<Rightarrow> role \<Rightarrow> (db, user \<times> bool) action" where
  "get_or_create_for_telegram tid r d =
     (case get_by_telegram_id d tid of
        Inl e \<Rightarrow> (Inl e, d)
      | Inr (Some u) \<Rightarrow> (Inr (u, False), d)
      | Inr None \<Rightarrow>
          (case user_insert (telegram_email tid) None r (Some tid) None d of
             (Inl e, d') \<Rightarrow> (Inl e, d') | (Inr u, d') \<Rightarrow> (Inr (u, True), d')))"

definition record_referral :: "user \<Rightarrow> int \<Rightarrow> (db, bool) action" where
  "record_referral u inviter d =
     (if u_invited_by u \<noteq> None then (Inr False, d)
      else if Some inviter = u_telegram_user_id u then (Inr False, d)
      else (Inr True, put_user (u\<lparr>u_invited_by := Some inviter\<rparr>) d))"

definition count_referrals :: "db \<Rightarrow> int \<Rightarrow> nat" where
  "count_referrals d tid = length (filter (\<lambda>u. u_invited_by u = Some tid) (users d))"

definition consume_free_action :: "user \<Rightarrow> db \<Rightarrow> user \<times> db" where
  "consume_free_action u d =
     (let u' = u\<lparr>u_free_actions_used := Suc (u_free_actions_used u)\<rparr> in (u', put_user u' d))"

section \<open>RefreshTokenRepository\<close>

definition rt_is_active :: "time \<Rightarrow> refresh_token \<Rightarrow> bool" where
  "rt_is_active t r \<longleftrightarrow> rt_revoked_at r = None \<and> rt_expires_at r > t"

text \<open>\<open>(user_agent or "")[:255] or None\<close>\<close>

definition cut_agent :: "string option \<Rightarrow> string option" where
  "cut_agent ua = (case ua of None \<Rightarrow> None
     | Some s \<Rightarrow> if take 255 s = [] then None else Some (take 255 s))"

definition rt_issue ::
  "(bytes \<Rightarrow> string) \<Rightarrow> string \<Rightarrow> int \<Rightarrow> user \<Rightarrow> string option \<Rightarrow> string option \<Rightarrow> (db, string) action" where
  "rt_issue sha drawn ttl u ua ip d =
     (case new_refresh_token sha drawn of (raw, digest) \<Rightarrow>
        (case add_row refresh_tokens refresh_tokens_update uq_refresh_token (\<lambda>d i.
            \<lparr>rt_id = i, rt_user_id = u_id u, rt_token_hash = digest, rt_expires_at = now d + ttl,
             rt_revoked_at = None, rt_replaced_by = None, rt_user_agent = cut_agent ua,
             rt_ip_metadata = ip\<rparr>) d of
           (Inl e, d') \<Rightarrow> (Inl e, d') | (Inr _, d') \<Rightarrow> (Inr raw, d')))"

definition rt_get :: "(bytes \<Rightarrow> string) \<Rightarrow> db \<Rightarrow> string \<Rightarrow> exn + refresh_token option" where
  "rt_get sha d raw = scalar_one_or_none (\<lambda>r. rt_token_hash r = hash_refresh_token sha raw) (refresh_tokens d)"

definition put_token :: "refresh_token \<Rightarrow> db \<Rightarrow> db" where
  "put_token r d = d\<lparr>refresh_tokens := update_where (\<lambda>x. rt_id x = rt_id r) (\<lambda>_. r) (refresh_tokens d)\<rparr>"

definition rt_revoke_all :: "uid \<Rightarrow> db \<Rightarrow> nat \<times> db" where
  "rt_revoke_all uid d =
     (length (filter (\<lambda>r. rt_user_id r = uid \<and> rt_revoked_at r = None) (refresh_tokens d)),
      d\<lparr>refresh_tokens := update_where (\<lambda>r. rt_user_id r = uid \<and> rt_revoked_at r = None)
           (\<lambda>r. r\<lparr>rt_revoked_at := Some (now d)\<rparr>) (refresh_tokens d)\<rparr>)"

definition rt_rotate ::
  "(bytes \<Rightarrow> string) \<Rightarrow> string \<Rightarrow> int \<Rightarrow> string \<Rightarrow> string option \<Rightarrow> string option \<Rightarrow>
   (db, string \<times> user) action" where
  "rt_rotate sha drawn ttl raw ua ip d =
     (case rt_get sha d raw of
        Inl e \<Rightarrow> (Inl e, d)
      | Inr None \<Rightarrow> (Inl (RefreshTokenReuseError ''unknown refresh token''), d)
      | Inr (Some row) \<Rightarrow>
          if \<not> rt_is_active (now d) row
          then (Inl (RefreshTokenReuseError ''refresh token already used or expired''),
                snd (rt_revoke_all (rt_user_id row) d))
          else (case get_by_id u_id (users d) (rt_user_id row) of
             None \<Rightarrow> (Inl (RefreshTokenReuseError ''user unavailable''), d)
           | Some u \<Rightarrow>
               if \<not> u_is_active u then (Inl (RefreshTokenReuseError ''user unavailable''), d)
               else (case rt_issue sha drawn ttl u ua ip d of
                  (Inl e, d') \<Rightarrow> (Inl e, d')
                | (Inr new_raw, d') \<Rightarrow>
                    (case rt_get sha d' new_raw of
                       Inl e \<Rightarrow> (Inl e, d')
                     | Inr new_row \<Rightarrow>
                         (Inr (new_raw, u), put_token
                            (row\<lparr>rt_revoked_at := Some (now d'), rt_replaced_by := map_option rt_id new_row\<rparr>) d')))))"

definition rt_revoke :: "(bytes \<Rightarrow> string) \<Rightarrow> string \<Rightarrow> (db, bool) action" where
  "rt_revoke sha raw d =
     (case rt_get sha d raw of
        Inl e \<Rightarrow> (Inl e, d)
      | Inr None \<Rightarrow> (Inr False, d)
      | Inr (Some row) \<Rightarrow>
          if rt_revoked_at row \<noteq> None then (Inr False, d)
          else (Inr True, put_token (row\<lparr>rt_revoked_at := Some (now d)\<rparr>) d))"

section \<open>The principal of an API request\<close>

record principal =
  pr_email :: "string option"
  pr_user_id :: "string option"
  pr_role :: string

definition pr_is_admin :: "principal \<Rightarrow> bool" where
  "pr_is_admin p \<longleftrightarrow> pr_role p = role_value R_ADMIN"

text \<open>\<open>str(v)\<close> of a claim; \<open>repr\<close> gives the text of a list or an object.\<close>

fun str_of_json :: "(json \<Rightarrow> string) \<Rightarrow> json \<Rightarrow> string" where
  "str_of_json repr JNull = ''None''"
| "str_of_json repr (JBool b) = (if b then ''True'' else ''False'')"
| "str_of_json repr (JInt i) = show_int i"
| "str_of_json repr (JStr s) = s"
| "str_of_json repr (JList l) = repr (JList l)"
| "str_of_json repr (JObj m) = repr (JObj m)"

text \<open>\<open>current_user\<close> at time \<open>t\<close>.\<close>

definition current_user ::
  "(string \<Rightarrow> bytes) \<Rightarrow> (bytes \<Rightarrow> exn + json) \<Rightarrow> int \<Rightarrow> (json \<Rightarrow> string) \<Rightarrow> bool \<Rightarrow> string option \<Rightarrow> string option \<Rightarrow> string option \<Rightarrow>
   exn + principal" where
  "current_user sign loads t repr is_production authorization x_user_email x_user_role =
     (case (case authorization of None \<Rightarrow> None
            | Some a \<Rightarrow> if a \<noteq> [] \<and> prefix ''bearer '' (lower a)
                        then after_first '' '' a else None) of
        Some rest \<Rightarrow>
          (case decode_access_token sign loads t (strip rest) of
             Inl (TokenError m) \<Rightarrow> Inl (HTTPException 401 (''invalid token: '' @ m))
           | Inl e \<Rightarrow> Inl e
           | Inr claims \<Rightarrow>
               (case json_get ''sub'' claims of
                  None \<Rightarrow> Inl (KeyError ''sub'')
                | Some sub \<Rightarrow> Inr \<lparr>pr_email = None, pr_user_id = Some (str_of_json repr sub),
                    pr_role = (case json_get ''role'' claims of None \<Rightarrow> role_value R_ANALYST
                               | Some r \<Rightarrow> str_of_json repr r)\<rparr>))
      | None \<Rightarrow>
          if is_production then Inl (HTTPException 401 ''authentication required'')
          else Inr \<lparr>pr_email = Some (lower (strip (case x_user_email of None \<Rightarrow> ''analyst@local''
                       | Some e \<Rightarrow> if e = [] then ''analyst@local'' else e))),
                    pr_user_id = None,
                    pr_role = (if upper (case x_user_role of None \<Rightarrow> [] | Some r \<Rightarrow> r) = ''ADMIN''
                               then role_value R_ADMIN else role_value R_ANALYST)\<rparr>)"

definition require_admin :: "principal \<Rightarrow> exn + principal" where
  "require_admin p = (if \<not> pr_is_admin p then Inl (HTTPException 403 ''admin role required'') else Inr p)"

text \<open>A truthy string.\<close>

definition or_default :: "string option \<Rightarrow> string \<Rightarrow> string" where
  "or_default s d = (case s of None \<Rightarrow> d | Some x \<Rightarrow> if x = [] then d else x)"

definition resolve_user :: "principal \<Rightarrow> (db, user) action" where
  "resolve_user p d =
     (if or_default (pr_user_id p) [] \<noteq> []
      then (case find (\<lambda>u. uid_text (u_id u) = or_default (pr_user_id p) []) (users d) of
              None \<Rightarrow> (Inl (HTTPException 401 ''user not found''), d)
            | Some u \<Rightarrow> (Inr u, d))
      else (let email = lower (strip (or_default (pr_email p) ''analyst@local'')) in
            case get_by_email d email of
              Inl e \<Rightarrow> (Inl e, d)
            | Inr (Some u) \<Rightarrow> (Inr u, d)
            | Inr None \<Rightarrow> user_insert email None R_ANALYST None None d))"

section \<open>Login, refresh, logout\<close>

record token_out =
  to_access :: string
  to_expires_in :: int
  to_refresh :: "string option"

definition access_for :: "(string \<Rightarrow> bytes) \<Rightarrow> (json \<Rightarrow> bytes) \<Rightarrow> int \<Rightarrow> int \<Rightarrow> user \<Rightarrow> string" where
  "access_for sign dumps ttl t u =
     create_access_token sign dumps ttl t (uid_text (u_id u)) (role_value (u_role u)) (Some ttl)"

definition login ::
  "scrypt_fn \<Rightarrow> (string \<Rightarrow> bytes) \<Rightarrow> (json \<Rightarrow> bytes) \<Rightarrow> (bytes \<Rightarrow> string) \<Rightarrow> string \<Rightarrow> int \<Rightarrow> int \<Rightarrow>
   string \<Rightarrow> string \<Rightarrow> string option \<Rightarrow> string option \<Rightarrow> (db, token_out) action" where
  "login scrypt sign dumps sha drawn ttl refresh_ttl email password ua ip = session_scope (\<lambda>d.
     case get_by_email d email of
       Inl e \<Rightarrow> (Inl e, d)
     | Inr None \<Rightarrow> (Inl (HTTPException 401 ''invalid email or password''), d)
     | Inr (Some u) \<Rightarrow>
         if \<not> u_is_active u then (Inl (HTTPException 401 ''invalid email or password''), d)
         else (case verify_password scrypt password (u_hashed_password u) of
            Inl e \<Rightarrow> (Inl e, d)
          | Inr False \<Rightarrow> (Inl (HTTPException 401 ''invalid email or password''), d)
          | Inr True \<Rightarrow>
              (case rt_issue sha drawn refresh_ttl u ua ip d of
                 (Inl e, d') \<Rightarrow> (Inl e, d')
               | (Inr raw, d') \<Rightarrow>
                   (Inr \<lparr>to_access = access_for sign dumps ttl (now d) u, to_expires_in = ttl,
                         to_refresh = Some raw\<rparr>, d'))))"

text \<open>
  \<open>refresh\<close>: a reuse error is committed (the revocation of the family must survive the rollback
  of the request) and becomes a 401; the body's token is used before the cookie's.
\<close>

definition pick_raw :: "string option \<Rightarrow> string option \<Rightarrow> string" where
  "pick_raw body cookie = (let b = or_default body [] in if b \<noteq> [] then b else or_default cookie [])"

definition refresh ::
  "(string \<Rightarrow> bytes) \<Rightarrow> (json \<Rightarrow> bytes) \<Rightarrow> (bytes \<Rightarrow> string) \<Rightarrow> string \<Rightarrow> int \<Rightarrow> int \<Rightarrow> string option \<Rightarrow>
   string option \<Rightarrow> string option \<Rightarrow> string option \<Rightarrow> (db, token_out) action" where
  "refresh sign dumps sha drawn ttl refresh_ttl body cookie ua ip d =
     (let raw = pick_raw body cookie in
      if raw = [] then (Inl (HTTPException 401 ''no refresh token''), d)
      else (case rt_rotate sha drawn refresh_ttl raw ua ip d of
         (Inl (RefreshTokenReuseError m), d') \<Rightarrow> (Inl (HTTPException 401 m), d')
       | (Inl e, d') \<Rightarrow> (Inl e, d)
       | (Inr (new_raw, u), d') \<Rightarrow>
           (Inr \<lparr>to_access = access_for sign dumps ttl (now d') u, to_expires_in = ttl,
                 to_refresh = Some new_raw\<rparr>, d')))"

definition logout :: "(bytes \<Rightarrow> string) \<Rightarrow> string option \<Rightarrow> string option \<Rightarrow> (db, bool) action" where
  "logout sha body cookie = session_scope (\<lambda>d.
     let raw = pick_raw body cookie in if raw = [] then (Inr False, d) else rt_revoke sha raw d)"


section \<open>Facts about the tokens\<close>

definition tokens_ok :: "db \<Rightarrow> bool" where
  "tokens_ok d \<longleftrightarrow> uq_refresh_token (refresh_tokens d) \<and> ids_ok rt_id (refresh_tokens d) (next_id d)"

lemma rt_get_ok: "tokens_ok d \<Longrightarrow>
    rt_get sha d raw = Inr (find (\<lambda>r. rt_token_hash r = hash_refresh_token sha raw) (refresh_tokens d))"
  unfolding rt_get_def by (rule refresh_table.scalar_key) (simp_all add: tokens_ok_def)

lemma rt_issue_Inr:
  assumes "rt_issue sha drawn ttl u ua ip d = (Inr raw, d')"
  obtains row where "raw = drawn" "refresh_tokens d' = refresh_tokens d @ [row]"
    "next_id d' = Suc (next_id d)" "users d' = users d" "now d' = now d"
    "rt_token_hash row = hash_refresh_token sha raw" "rt_user_id row = u_id u" "rt_revoked_at row = None"
    "rt_expires_at row = now d + ttl" "rt_id row = next_id d"
    "uq_refresh_token (refresh_tokens d @ [row])"
  using assms
  by (auto simp: rt_issue_def new_refresh_token_def add_row_def Let_def split: if_splits)

lemma rt_issue_tokens_ok: "rt_issue sha drawn ttl u ua ip d = (Inr raw, d') \<Longrightarrow> tokens_ok d \<Longrightarrow> tokens_ok d'"
  by (erule rt_issue_Inr) (simp add: tokens_ok_def ids_ok_snoc)

lemma put_token_ok:
  assumes "tokens_ok d" and "r \<in> set (refresh_tokens d)" and "rt_id r' = rt_id r"
    and "rt_token_hash r' = rt_token_hash r"
  shows "tokens_ok (put_token r' d)"
proof -
  have same: "x = r" if "x \<in> set (refresh_tokens d)" "rt_id x = rt_id r" for x
    using assms(1,2) that by (auto simp: tokens_ok_def ids_ok_def distinct_map inj_on_def)
  have "map rt_token_hash (refresh_tokens (put_token r' d)) = map rt_token_hash (refresh_tokens d)"
    using same assms(3,4) by (auto simp: put_token_def update_where_def)
  moreover have "ids_ok rt_id (refresh_tokens (put_token r' d)) (next_id d)"
    unfolding put_token_def by (simp, rule ids_ok_update_where) (use assms(1) in \<open>simp_all add: tokens_ok_def\<close>)
  moreover have "next_id (put_token r' d) = next_id d" by (simp add: put_token_def)
  ultimately show ?thesis using assms(1) by (simp add: tokens_ok_def uq_refresh_token_def)
qed

lemma in_put_token:
  "r \<in> set (refresh_tokens d) \<Longrightarrow> rt_id r' = rt_id r \<Longrightarrow> r' \<in> set (refresh_tokens (put_token r' d))"
  by (auto simp: put_token_def set_update_where image_iff intro!: bexI [of _ r])

lemma revoke_all_revokes:
  "r \<in> set (refresh_tokens (snd (rt_revoke_all uid d))) \<Longrightarrow> rt_user_id r = uid \<Longrightarrow> rt_revoked_at r \<noteq> None"
proof -
  assume "r \<in> set (refresh_tokens (snd (rt_revoke_all uid d)))" and u: "rt_user_id r = uid"
  then obtain x where x: "r = (if rt_user_id x = uid \<and> rt_revoked_at x = None
      then x\<lparr>rt_revoked_at := Some (now d)\<rparr> else x)"
    by (auto simp: rt_revoke_all_def set_update_where simp del: if_image_distrib)
  show ?thesis
  proof (cases "rt_user_id x = uid \<and> rt_revoked_at x = None")
    case True
    with x show ?thesis by simp
  next
    case False
    with x have "r = x" by simp
    with False u show ?thesis by simp
  qed
qed

lemma revoke_all_ok: "tokens_ok d \<Longrightarrow> tokens_ok (snd (rt_revoke_all uid d))"
proof -
  assume ok: "tokens_ok d"
  let ?d = "snd (rt_revoke_all uid d)"
  have "map rt_token_hash (refresh_tokens ?d) = map rt_token_hash (refresh_tokens d)"
    unfolding rt_revoke_all_def by (simp, rule map_update_where) simp
  moreover have "ids_ok rt_id (refresh_tokens ?d) (next_id d)"
    unfolding rt_revoke_all_def
    by (simp, rule ids_ok_update_where) (use ok in \<open>simp_all add: tokens_ok_def\<close>)
  moreover have "next_id ?d = next_id d" by (simp add: rt_revoke_all_def)
  ultimately show ?thesis using ok by (simp add: tokens_ok_def uq_refresh_token_def)
qed

lemma find_unique_hash:
  assumes "tokens_ok d" and "r \<in> set (refresh_tokens d)"
  shows "find (\<lambda>x. rt_token_hash x = rt_token_hash r) (refresh_tokens d) = Some r"
proof (cases "find (\<lambda>x. rt_token_hash x = rt_token_hash r) (refresh_tokens d)")
  case None
  with assms(2) show ?thesis by (auto simp: find_None_iff)
next
  case (Some y)
  then have "y \<in> set (refresh_tokens d)" "rt_token_hash y = rt_token_hash r" by (auto dest: find_Some_in)
  with assms have "y = r"
    by (auto simp: tokens_ok_def uq_refresh_token_def distinct_map inj_on_def)
  with Some show ?thesis by simp
qed

text \<open>A presented token that is not active costs its owner every token.\<close>

lemma refresh_inactive:
  assumes ok: "tokens_ok d" and r: "r \<in> set (refresh_tokens d)"
    and h: "rt_token_hash r = hash_refresh_token sha raw" and dead: "\<not> rt_is_active (now d) r" and ne: "raw \<noteq> []"
  shows "refresh sign dumps sha drawn ttl rttl (Some raw) cookie ua ip d =
    (Inl (HTTPException 401 ''refresh token already used or expired''), snd (rt_revoke_all (rt_user_id r) d))"
proof -
  have "rt_get sha d raw = Inr (Some r)"
    using rt_get_ok [OF ok] find_unique_hash [OF ok r] by (simp add: h)
  then show ?thesis
    using dead ne by (simp add: refresh_def pick_raw_def or_default_def rt_rotate_def Let_def)
qed

lemma refresh_Inr:
  assumes ok: "tokens_ok d" and run: "refresh sign dumps sha drawn ttl rttl (Some raw) cookie ua ip d = (Inr out, d')"
    and ne: "raw \<noteq> []"
  obtains r n where "tokens_ok d'" "r \<in> set (refresh_tokens d')" "n \<in> set (refresh_tokens d')"
    "rt_token_hash r = hash_refresh_token sha raw" "rt_revoked_at r \<noteq> None"
    "to_refresh out = Some drawn" "rt_token_hash n = hash_refresh_token sha drawn"
    "rt_user_id n = rt_user_id r" "rt_replaced_by r = Some (rt_id n)" "rt_revoked_at n = None"
proof -
  from run ne obtain u where rot: "rt_rotate sha drawn rttl raw ua ip d = (Inr (drawn, u), d')"
    and out: "to_refresh out = Some drawn"
    by (auto simp: refresh_def pick_raw_def or_default_def Let_def rt_rotate_def rt_issue_def
        new_refresh_token_def split: prod.splits sum.splits exn.splits option.splits if_splits)
  obtain r0 where r0: "find (\<lambda>r. rt_token_hash r = hash_refresh_token sha raw) (refresh_tokens d) = Some r0"
    and u: "get_by_id u_id (users d) (rt_user_id r0) = Some u"
    and more: "rt_is_active (now d) r0"
    using rot by (auto simp: rt_rotate_def rt_get_ok [OF ok] split: prod.splits sum.splits option.splits if_splits)
  obtain d1 where iss: "rt_issue sha drawn rttl u ua ip d = (Inr drawn, d1)"
    using rot by (auto simp: rt_rotate_def rt_get_ok [OF ok] r0 u more split: prod.splits sum.splits option.splits if_splits)
  from iss obtain n where d1: "refresh_tokens d1 = refresh_tokens d @ [n]"
    and n: "rt_token_hash n = hash_refresh_token sha drawn" "rt_user_id n = u_id u" "rt_revoked_at n = None"
      "rt_id n = next_id d"
    by (elim rt_issue_Inr) blast
  have ok1: "tokens_ok d1" by (rule rt_issue_tokens_ok [OF iss ok])
  have r0': "r0 \<in> set (refresh_tokens d)" "rt_token_hash r0 = hash_refresh_token sha raw"
    using r0 by (auto dest: find_Some_in)
  have n_in: "n \<in> set (refresh_tokens d1)" by (simp add: d1)
  have g1: "rt_get sha d1 drawn = Inr (Some n)"
    using rt_get_ok [OF ok1] find_unique_hash [OF ok1 n_in] by (simp add: n)
  let ?r = "r0\<lparr>rt_revoked_at := Some (now d1), rt_replaced_by := Some (rt_id n)\<rparr>"
  have d': "d' = put_token ?r d1"
    using rot by (auto simp: rt_rotate_def rt_get_ok [OF ok] r0 u more iss g1 split: if_splits)
  have r1: "r0 \<in> set (refresh_tokens d1)" using r0'(1) by (simp add: d1)
  have ne_id: "rt_id n \<noteq> rt_id r0" using r0'(1) ok n(4) by (auto simp: tokens_ok_def ids_ok_def)
  show thesis
  proof (rule that [of ?r n])
    show "tokens_ok d'" unfolding d' by (rule put_token_ok [OF ok1 r1]) simp_all
    show "?r \<in> set (refresh_tokens d')" unfolding d' by (rule in_put_token [OF r1]) simp
    show "n \<in> set (refresh_tokens d')"
      unfolding d' using n_in ne_id by (auto simp: put_token_def set_update_where image_iff intro!: bexI [of _ n])
    show "rt_user_id n = rt_user_id ?r" using u n(2) by (auto simp: get_by_id_def dest: find_Some_in)
  qed (use n r0' out in simp_all)
qed


lemma refresh_dead_tokens:
  assumes "tokens_ok d" and "r \<in> set (refresh_tokens d)" and "rt_token_hash r = hash_refresh_token sha raw"
    and "rt_revoked_at r \<noteq> None" and "raw \<noteq> []"
  shows "refresh sign dumps sha drawn ttl rttl (Some raw) cookie ua ip (d\<lparr>now := t\<rparr>) =
    (Inl (HTTPException 401 ''refresh token already used or expired''),
     snd (rt_revoke_all (rt_user_id r) (d\<lparr>now := t\<rparr>)))"
  using assms by (intro refresh_inactive) (simp_all add: tokens_ok_def rt_is_active_def)

lemma in_revoke_all:
  assumes "r \<in> set (refresh_tokens d)"
  obtains r' where "r' \<in> set (refresh_tokens (snd (rt_revoke_all uid d)))"
    "rt_token_hash r' = rt_token_hash r" "rt_user_id r' = rt_user_id r"
proof -
  let ?f = "\<lambda>x. if rt_user_id x = uid \<and> rt_revoked_at x = None then x\<lparr>rt_revoked_at := Some (now d)\<rparr> else x"
  have "?f r \<in> set (refresh_tokens (snd (rt_revoke_all uid d)))"
    using imageI [OF assms, of ?f] unfolding rt_revoke_all_def set_update_where [symmetric] by simp
  moreover have "rt_token_hash (?f r) = rt_token_hash r" "rt_user_id (?f r) = rt_user_id r" by simp_all
  ultimately show thesis by (rule that)
qed

section \<open>Properties\<close>

text \<open>
  C7. A refresh token works once. Presenting it again (by whoever stole it, at any later time, with
  any client data) is answered 401 and, although the request fails, every token of its owner ends
  revoked; the successor handed out by the first refresh is then refused as well.
\<close>

theorem replay_revokes_family:
  assumes "tokens_ok d" and "raw \<noteq> []" and "drawn \<noteq> []"
    and "refresh sign dumps sha drawn ttl rttl (Some raw) c1 ua1 ip1 d = (Inr out, d1)"
    and "refresh sign dumps sha drawn2 ttl rttl (Some raw) c2 ua2 ip2 (d1\<lparr>now := t\<rparr>) = (res, d2)"
  shows "to_refresh out = Some drawn \<and>
    res = Inl (HTTPException 401 ''refresh token already used or expired'') \<and>
    (\<exists>r \<in> set (refresh_tokens d1). rt_token_hash r = hash_refresh_token sha raw \<and>
       (\<forall>x \<in> set (refresh_tokens d2). rt_user_id x = rt_user_id r \<longrightarrow> rt_revoked_at x \<noteq> None)) \<and>
    fst (refresh sign dumps sha drawn3 ttl rttl (Some drawn) c3 ua3 ip3 (d2\<lparr>now := u\<rparr>)) =
      Inl (HTTPException 401 ''refresh token already used or expired'')"
proof -
  from refresh_Inr [OF assms(1,4,2)] obtain r n where ok1: "tokens_ok d1" and
    r: "r \<in> set (refresh_tokens d1)" "rt_token_hash r = hash_refresh_token sha raw" "rt_revoked_at r \<noteq> None" and
    n: "n \<in> set (refresh_tokens d1)" "rt_token_hash n = hash_refresh_token sha drawn"
      "rt_user_id n = rt_user_id r" and out: "to_refresh out = Some drawn" by metis
  from refresh_dead_tokens [OF ok1 r assms(2), of sign dumps drawn2 ttl rttl c2 ua2 ip2 t] assms(5)
  have res: "res = Inl (HTTPException 401 ''refresh token already used or expired'')"
    and d2: "d2 = snd (rt_revoke_all (rt_user_id r) (d1\<lparr>now := t\<rparr>))" by simp_all
  have ok1': "tokens_ok (d1\<lparr>now := t\<rparr>)" using ok1 by (simp add: tokens_ok_def)
  have ok2: "tokens_ok d2" unfolding d2 by (rule revoke_all_ok [OF ok1'])
  have gone: "\<forall>x \<in> set (refresh_tokens d2). rt_user_id x = rt_user_id r \<longrightarrow> rt_revoked_at x \<noteq> None"
    unfolding d2 using revoke_all_revokes by blast
  have "n \<in> set (refresh_tokens (d1\<lparr>now := t\<rparr>))" using n(1) by simp
  then obtain n' where n': "n' \<in> set (refresh_tokens d2)" "rt_token_hash n' = hash_refresh_token sha drawn"
    "rt_user_id n' = rt_user_id r"
    unfolding d2 using n(2,3) by (metis in_revoke_all)
  from refresh_dead_tokens [OF ok2 n'(1,2) _ assms(3), of sign dumps drawn3 ttl rttl c3 ua3 ip3 u] gone n'
  show ?thesis using res out r gone by auto
qed

definition sample_user :: user where
  "sample_user = \<lparr>u_id = 0, u_email = ''a@b'', u_display_name = None, u_role = R_ANALYST,
     u_is_active = True, u_hashed_password = None, u_telegram_user_id = None,
     u_free_actions_used = 0, u_invited_by = None\<rparr>"

definition sample_token_db :: db where
  "sample_token_db = empty_db\<lparr>users := [sample_user], refresh_tokens := [\<lparr>rt_id = 1, rt_user_id = 0,
     rt_token_hash = ''first'', rt_expires_at = 50, rt_revoked_at = None, rt_replaced_by = None,
     rt_user_agent = None, rt_ip_metadata = None\<rparr>], next_id := 2\<rparr>"

theorem replay_revokes_family_witness:
  "fst (refresh (\<lambda>s. s) (\<lambda>_. ''p'') (\<lambda>b. b) ''third'' 900 100 (Some ''second'') None None None
     (snd (refresh (\<lambda>s. s) (\<lambda>_. ''p'') (\<lambda>b. b) ''x'' 900 100 (Some ''first'') None None None
       (snd (refresh (\<lambda>s. s) (\<lambda>_. ''p'') (\<lambda>b. b) ''second'' 900 100 (Some ''first'') None None None
          sample_token_db)\<lparr>now := 3\<rparr>))\<lparr>now := 4\<rparr>)) =
   Inl (HTTPException 401 ''refresh token already used or expired'')"
proof -
  have ok: "tokens_ok sample_token_db"
    by (simp add: tokens_ok_def sample_token_db_def uq_refresh_token_def ids_ok_def)
  have u: "utf8 ''first'' = ''first''" "utf8 ''second'' = ''second''" by (simp_all add: utf8_def code_def)
  let ?r = "refresh (\<lambda>s. s) (\<lambda>_. ''p'') (\<lambda>b. b) ''second'' 900 100 (Some ''first'') None None None sample_token_db"
  have "\<exists>out. fst ?r = Inr out"
    by (simp add: refresh_def pick_raw_def or_default_def Let_def rt_rotate_def rt_get_def
        sample_token_db_def scalar_one_or_none_def hash_refresh_token_def u rt_is_active_def
        get_by_id_def sample_user_def empty_db_def rt_issue_def new_refresh_token_def add_row_def
        uq_refresh_token_def)
  then obtain out where r: "?r = (Inr out, snd ?r)" by (metis prod.collapse)
  show ?thesis
    using replay_revokes_family [OF ok _ _ r surjective_pairing, of "''x''" None None None 3] by simp
qed

text \<open>
  A login succeeds only for an active account whose stored hash the password verifies against,
  and then leaves exactly one new token row, active and owned by that account; in every other
  case the database is left as it was, and an unknown address, a disabled account and a wrong
  password are answered alike.
\<close>

lemma login_sound:
  assumes "login scrypt sign dumps sha drawn ttl rttl email pw ua ip d = (res, d')"
  shows "case res of
      Inr out \<Rightarrow> (\<exists>u row. u \<in> set (users d) \<and> u_email u = lower (strip email) \<and> u_is_active u \<and>
        verify_password scrypt pw (u_hashed_password u) = Inr True \<and>
        refresh_tokens d' = refresh_tokens d @ [row] \<and> rt_user_id row = u_id u \<and>
        rt_token_hash row = hash_refresh_token sha drawn \<and> to_refresh out = Some drawn \<and>
        rt_revoked_at row = None \<and> rt_expires_at row = now d + rttl)
    | Inl e \<Rightarrow> d' = d"
proof (cases res)
  case (Inl e)
  with assms show ?thesis unfolding login_def by (auto dest: session_scope_rollback)
next
  case (Inr out)
  from assms [unfolded login_def session_scope_Inr_iff Inr] obtain u d1 where
    u: "get_by_email d email = Inr (Some u)" "u_is_active u"
      "verify_password scrypt pw (u_hashed_password u) = Inr True"
    and iss: "rt_issue sha drawn rttl u ua ip d = (Inr drawn, d')" and out: "to_refresh out = Some drawn"
    by (auto simp: rt_issue_def new_refresh_token_def
        split: sum.splits option.splits if_splits bool.splits prod.splits)
  from u(1) have "u \<in> set (users d) \<and> u_email u = lower (strip email)"
    unfolding get_by_email_def by (rule scalar_one_or_none_Some)
  with u iss out Inr show ?thesis by (auto elim!: rt_issue_Inr)
qed

lemma login_sound_witness:
  "snd (login toy_scrypt (\<lambda>s. s) (\<lambda>_. ''p'') (\<lambda>b. b) ''x'' 900 100 ''A@b '' ''pw'' None None sample_token_db)
     = sample_token_db"
proof -
  obtain res d' where r: "login toy_scrypt (\<lambda>s. s) (\<lambda>_. ''p'') (\<lambda>b. b) ''x'' 900 100 ''A@b '' ''pw'' None None
      sample_token_db = (res, d')" by (metis surj_pair)
  from login_sound [OF r] show ?thesis
  proof (cases res)
    case (Inr out)
    with login_sound [OF r] show ?thesis
      by (auto simp: sample_token_db_def sample_user_def empty_db_def verify_password_def)
  qed (simp add: r)
qed



end
