(* ===== verification/BotGuard.thy ===== *)
theory BotGuard
  imports Users RateLimit
begin

text \<open>
  The gate in front of every bot command: \<open>apps/bot/auth.py\<close> (allow-list), \<open>apps/bot/guard.py\<close>
  (authorisation, rate limit, quota, error shield), \<open>apps/bot/quota.py\<close> (free actions and
  referrals), \<open>apps/bot/audit.py\<close> with \<open>database/repositories/audit.py\<close>, and the \<open>/start\<close>
  handler. A command handler is a parameter: an action on the state of the bot.
\<close>

section \<open>Audit log\<close>

definition forbidden_keys :: "string list" where
  "forbidden_keys = [''password'', ''passwd'', ''secret'', ''token'', ''otp'', ''code'', ''cookie'', ''session'',
     ''api_key'', ''apikey'', ''authorization'', ''auth'', ''bearer'']"

definition scrub :: "(string \<times> json) list option \<Rightarrow> (string \<times> json) list option" where
  "scrub metadata =
     (case metadata of
        None \<Rightarrow> None
      | Some m \<Rightarrow> if m = [] then None
          else Some (map (\<lambda>(k, v). (k, if lower k \<in> set forbidden_keys then JStr ''<redacted>'' else v)) m))"

definition audit_add ::
  "string \<Rightarrow> string \<Rightarrow> string option \<Rightarrow> string \<Rightarrow> string option \<Rightarrow> (string \<times> json) list option \<Rightarrow>
   (db, audit_log) action" where
  "audit_add actor act resource result ip metadata =
     add_row audit_logs audit_logs_update (\<lambda>_. True) (\<lambda>d i.
       \<lparr>al_id = i, al_actor = actor, al_action = act, al_resource = resource, al_result = result,
        al_ip_metadata = ip, al_metadata = scrub metadata, al_created_at = now d\<rparr>)"

definition audit_recent :: "nat \<Rightarrow> string option \<Rightarrow> db \<Rightarrow> audit_log list" where
  "audit_recent limit actor d =
     take limit (filter (\<lambda>a. actor = None \<or> Some (al_actor a) = actor)
       (sort_key (\<lambda>a. - al_created_at a) (audit_logs d)))"

text \<open>\<open>audit.record\<close> has a session of its own and swallows every error.\<close>

definition audit_record ::
  "string \<Rightarrow> string \<Rightarrow> string option \<Rightarrow> string \<Rightarrow> (string \<times> json) list option \<Rightarrow> db \<Rightarrow> db" where
  "audit_record actor act resource result metadata d =
     snd (session_scope (audit_add actor act resource result None metadata) d)"

section \<open>The allow-list\<close>

record bot_settings =
  bs_allowed_ids :: "int list"
  bs_admin_ids :: "int list"
  bs_public :: bool
  bs_per_minute :: int
  bs_rate_enabled :: bool
  bs_free_actions :: nat
  bs_referral_unlock :: nat

record bot_principal =
  bp_telegram_id :: int
  bp_role :: role

definition bp_is_admin :: "bot_principal \<Rightarrow> bool" where
  "bp_is_admin p \<longleftrightarrow> bp_role p = R_ADMIN"

definition bp_is_public :: "bot_principal \<Rightarrow> bool" where
  "bp_is_public p \<longleftrightarrow> bp_role p = R_USER"

definition bp_actor :: "bot_principal \<Rightarrow> string" where
  "bp_actor p = ''telegram:'' @ show_int (bp_telegram_id p)"

definition resolve_principal :: "bot_settings \<Rightarrow> int option \<Rightarrow> exn + bot_principal" where
  "resolve_principal st tid =
     (case tid of
        None \<Rightarrow> Inl (AccessDenied ''missing telegram user id'')
      | Some i \<Rightarrow>
          if i \<in> set (bs_admin_ids st) then Inr \<lparr>bp_telegram_id = i, bp_role = R_ADMIN\<rparr>
          else if i \<in> set (bs_allowed_ids st) then Inr \<lparr>bp_telegram_id = i, bp_role = R_ANALYST\<rparr>
          else if bs_public st then Inr \<lparr>bp_telegram_id = i, bp_role = R_USER\<rparr>
          else Inl (AccessDenied ''not on allow-list''))"

definition bot_require_admin :: "bot_principal \<Rightarrow> exn + bot_principal" where
  "bot_require_admin p = (if \<not> bp_is_admin p then Inl (AccessDenied ''admin role required'') else Inr p)"

section \<open>Quota\<close>

record quota_status =
  qs_allowed :: bool
  qs_used :: nat
  qs_limit :: nat
  qs_referrals :: nat
  qs_required :: nat

definition check_and_consume :: "bot_settings \<Rightarrow> int \<Rightarrow> (db, quota_status) action" where
  "check_and_consume st tid = session_scope (\<lambda>d.
     case get_or_create_for_telegram tid R_USER d of
       (Inl e, d1) \<Rightarrow> (Inl e, d1)
     | (Inr (u, _), d1) \<Rightarrow>
         (let referrals = count_referrals d1 tid;
              status = (\<lambda>ok used. \<lparr>qs_allowed = ok, qs_used = used, qs_limit = bs_free_actions st,
                          qs_referrals = referrals, qs_required = bs_referral_unlock st\<rparr>)
          in if bs_referral_unlock st \<le> referrals then (Inr (status True (u_free_actions_used u)), d1)
             else if u_free_actions_used u < bs_free_actions st
             then (let (u', d2) = consume_free_action u d1 in (Inr (status True (u_free_actions_used u')), d2))
             else (Inr (status False (u_free_actions_used u)), d1)))"

definition referral_link :: "string option \<Rightarrow> int \<Rightarrow> string option" where
  "referral_link name tid =
     (case name of None \<Rightarrow> None
      | Some b \<Rightarrow> if b = [] then None else Some (''https://t.me/'' @ b @ ''?start=ref_'' @ show_int tid))"

section \<open>The guard\<close>

datatype bot_reply =
    DENIED
  | RATE_LIMITED
  | QUOTA_EXCEEDED quota_status "string option"
  | GENERIC_ERROR
  | MESSAGE string

record 'l bot_state =
  bt_db :: db
  bt_limiter :: 'l
  bt_replies :: "bot_reply list"

definition reply :: "bot_reply \<Rightarrow> ('l, 'z) bot_state_scheme \<Rightarrow> ('l, 'z) bot_state_scheme" where
  "reply m b = b\<lparr>bt_replies := bt_replies b @ [m]\<rparr>"

definition audit_bot ::
  "string \<Rightarrow> string \<Rightarrow> string option \<Rightarrow> string \<Rightarrow> (string \<times> json) list option \<Rightarrow> ('l, 'z) bot_state_scheme \<Rightarrow> ('l, 'z) bot_state_scheme" where
  "audit_bot actor act resource result metadata b =
     b\<lparr>bt_db := audit_record actor act resource result metadata (bt_db b)\<rparr>"

definition actor_text :: "int option \<Rightarrow> string" where
  "actor_text tid = ''telegram:'' @ (case tid of None \<Rightarrow> ''None'' | Some i \<Rightarrow> show_int i)"

text \<open>The handler call: an exception is logged, audited and answered with a generic message.\<close>

definition shielded ::
  "string \<Rightarrow> string \<Rightarrow> string option \<Rightarrow> (bot_principal \<Rightarrow> (('l, 'z) bot_state_scheme, unit) action) \<Rightarrow> bot_principal \<Rightarrow>
   (('l, 'z) bot_state_scheme, unit) action" where
  "shielded actor act resource fn p b =
     (case fn p b of
        (Inr u, b') \<Rightarrow> (Inr u, b')
      | (Inl _, b') \<Rightarrow> (Inr (), reply GENERIC_ERROR (audit_bot actor act resource ''error'' None b')))"

text \<open>
  \<open>authorized(admin, action, quota)(fn)\<close> applied to an update of the user \<open>tid\<close>. \<open>hit\<close> is the
  rate limiter at the present time, \<open>bot_username\<close> what the application data holds. Only an
  exception outside the shielded handler call (the limiter, the quota) leaves the wrapper.
\<close>

definition authorized ::
  "bot_settings \<Rightarrow> (string \<Rightarrow> int \<Rightarrow> int \<Rightarrow> ('l, rl_result) action) \<Rightarrow> string option \<Rightarrow>
   bool \<Rightarrow> string \<Rightarrow> bool \<Rightarrow> (bot_principal \<Rightarrow> (('l, 'z) bot_state_scheme, unit) action) \<Rightarrow> int option \<Rightarrow>
   (('l, 'z) bot_state_scheme, unit) action" where
  "authorized st hit bot_username admin act quota fn tid b =
     (let actor = actor_text tid; resource = Some (''command:'' @ act) in
      case (case resolve_principal st tid of
              Inl e \<Rightarrow> Inl e | Inr p \<Rightarrow> if admin then bot_require_admin p else Inr p) of
        Inl (AccessDenied reason) \<Rightarrow>
          (Inr (), reply DENIED
             (audit_bot actor ''access_denied'' resource ''denied'' (Some [(''reason'', JStr reason)]) b))
      | Inl e \<Rightarrow> (Inl e, b)
      | Inr p \<Rightarrow>
          (case (if bs_per_minute st > 0
                 then enforce hit (bs_rate_enabled st) [''bot:'' @ show_int (bp_telegram_id p) @ '':'' @ act]
                        (bs_per_minute st) 60 (bt_limiter b)
                 else (Inr (rl_make True 0 0 0), bt_limiter b)) of
             (Inl e, l) \<Rightarrow> (Inl e, b\<lparr>bt_limiter := l\<rparr>)
           | (Inr verdict, l) \<Rightarrow>
               (let b = b\<lparr>bt_limiter := l\<rparr> in
                if \<not> rl_allowed verdict
                then (Inr (), reply RATE_LIMITED (audit_bot actor act resource ''rate_limited'' None b))
                else
                  (case (if quota \<and> bp_is_public p
                         then (case check_and_consume st (bp_telegram_id p) (bt_db b) of
                                 (x, d) \<Rightarrow> (map_sum id Some x, d))
                         else (Inr None, bt_db b)) of
                     (Inl e, d) \<Rightarrow> (Inl e, b\<lparr>bt_db := d\<rparr>)
                   | (Inr status, d) \<Rightarrow>
                       (let b = b\<lparr>bt_db := d\<rparr> in
                        case status of
                          Some s \<Rightarrow>
                            if \<not> qs_allowed s
                            then (Inr (), reply (QUOTA_EXCEEDED s (referral_link bot_username (bp_telegram_id p)))
                                   (audit_bot actor act resource ''quota_exceeded'' None b))
                            else shielded actor act resource fn p b
                        | None \<Rightarrow> shielded actor act resource fn p b)))))"

section \<open>/start\<close>

definition referrer_id :: "string list \<Rightarrow> int option" where
  "referrer_id args =
     (case args of
        [] \<Rightarrow> None
      | a # _ \<Rightarrow> if prefix ''ref_'' a
                then (case int_of_str (drop 4 a) of Inl _ \<Rightarrow> None | Inr i \<Rightarrow> Some i) else None)"

definition start_first_contact :: "int \<Rightarrow> string list \<Rightarrow> (db, unit) action" where
  "start_first_contact tid args = session_scope (\<lambda>d.
     case get_or_create_for_telegram tid R_USER d of
       (Inl e, d1) \<Rightarrow> (Inl e, d1)
     | (Inr (row, created), d1) \<Rightarrow>
         (case referrer_id args of
            Some r \<Rightarrow> if created then (Inr (), snd (record_referral row r d1)) else (Inr (), d1)
          | None \<Rightarrow> (Inr (), d1)))"

definition start :: "string list \<Rightarrow> bot_principal \<Rightarrow> (('l, 'z) bot_state_scheme, unit) action" where
  "start args p b =
     (let b = audit_bot (bp_actor p) ''start'' None ''success'' None b in
      if bp_is_public p
      then (case start_first_contact (bp_telegram_id p) args (bt_db b) of
              (Inl e, d) \<Rightarrow> (Inl e, b\<lparr>bt_db := d\<rparr>)
            | (Inr _, d) \<Rightarrow> (Inr (), reply (MESSAGE ''start'') (b\<lparr>bt_db := d\<rparr>)))
      else (Inr (), reply (MESSAGE ''start'') b))"


section \<open>Lemmas\<close>

lemma audit_record_frame [simp]:
  "users (audit_record actor act resource result metadata d) = users d"
  "jobs (audit_record actor act resource result metadata d) = jobs d"
  by (simp_all add: audit_record_def audit_add_def add_row_def session_scope_def Let_def)

lemma audit_record_rows:
  "\<exists>row. audit_logs (audit_record actor act resource result metadata d) = audit_logs d @ [row] \<and>
     al_actor row = actor \<and> al_action row = act \<and> al_result row = result \<and> al_metadata row = scrub metadata"
  by (simp add: audit_record_def audit_add_def add_row_def session_scope_def Let_def)

definition user_ids_ok :: "db \<Rightarrow> bool" where
  "user_ids_ok d \<longleftrightarrow> distinct (map u_id (users d))"

lemma users_put_user:
  assumes "user_ids_ok d" and "u \<in> set (users d)" and "u_id u' = u_id u"
  shows "users (put_user u' d) = map (\<lambda>x. if x = u then u' else x) (users d)"
proof -
  have "(u_id x = u_id u') = (x = u)" if "x \<in> set (users d)" for x
    using assms that by (auto simp: user_ids_ok_def distinct_map inj_on_def)
  then show ?thesis by (auto simp: put_user_def update_where_def)
qed

lemma map_replace_same:
  "g u' = g u \<Longrightarrow> map g (map (\<lambda>x. if x = u then u' else x) xs) = map g xs"
  by simp

lemma length_filter_map_same:
  "(\<And>x. x \<in> set xs \<Longrightarrow> p (f x) = p x) \<Longrightarrow> length (filter p (map f xs)) = length (filter p xs)"
  by (induction xs) auto

lemma check_existing:
  assumes ids: "user_ids_ok d" and u: "get_by_telegram_id d tid = Inr (Some u)"
    and few: "count_referrals d tid < bs_referral_unlock st"
  shows "\<exists>s d' u'. check_and_consume st tid d = (Inr s, d') \<and> user_ids_ok d' \<and>
    get_by_telegram_id d' tid = Inr (Some u') \<and> count_referrals d' tid = count_referrals d tid \<and>
    qs_allowed s = (u_free_actions_used u < bs_free_actions st) \<and>
    u_free_actions_used u' = (if qs_allowed s then Suc (u_free_actions_used u) else u_free_actions_used u) \<and>
    (\<not> qs_allowed s \<longrightarrow> d' = d)"
proof -
  have fu: "filter (\<lambda>x. u_telegram_user_id x = Some tid) (users d) = [u]"
    using u by (simp add: get_by_telegram_id_def scalar_filter)
  then have in_u: "u \<in> set (users d)" "u_telegram_user_id u = Some tid"
    using filter_single [OF fu] by simp_all
  show ?thesis
  proof (cases "u_free_actions_used u < bs_free_actions st")
    case False
    with u few show ?thesis
      by (simp add: check_and_consume_def session_scope_def get_or_create_for_telegram_def Let_def ids)
  next
    case True
    let ?u = "u\<lparr>u_free_actions_used := Suc (u_free_actions_used u)\<rparr>"
    have us: "users (put_user ?u d) = map (\<lambda>x. if x = u then ?u else x) (users d)"
      by (rule users_put_user [OF ids in_u(1)]) simp
    have "map u_id (users (put_user ?u d)) = map u_id (users d)"
      unfolding us by (rule map_replace_same) simp
    then have "user_ids_ok (put_user ?u d)" using ids by (simp only: user_ids_ok_def)
    moreover have "get_by_telegram_id (put_user ?u d) tid = Inr (Some ?u)"
      unfolding get_by_telegram_id_def scalar_filter us by (rule filter_replace [OF fu]) (simp add: in_u)
    moreover have "count_referrals (put_user ?u d) tid = count_referrals d tid"
      unfolding count_referrals_def us by (rule length_filter_map_same) simp
    ultimately show ?thesis
      using True u few
      by (simp add: check_and_consume_def session_scope_def get_or_create_for_telegram_def Let_def
          consume_free_action_def)
  qed
qed

text \<open>A run of quota checks of one user, and what each answered.\<close>

fun quota_checks :: "bot_settings \<Rightarrow> int \<Rightarrow> nat \<Rightarrow> db \<Rightarrow> bool list" where
  "quota_checks st tid 0 d = []"
| "quota_checks st tid (Suc n) d =
     (case check_and_consume st tid d of
        (Inl e, d') \<Rightarrow> False # quota_checks st tid n d'
      | (Inr s, d') \<Rightarrow> qs_allowed s # quota_checks st tid n d')"


lemma quota_checks_existing:
  "user_ids_ok d \<Longrightarrow> get_by_telegram_id d tid = Inr (Some u) \<Longrightarrow>
   count_referrals d tid < bs_referral_unlock st \<Longrightarrow>
   quota_checks st tid n d =
     replicate (min n (bs_free_actions st - u_free_actions_used u)) True @
     replicate (n - (bs_free_actions st - u_free_actions_used u)) False"
proof (induction n arbitrary: d u)
  case (Suc n)
  from check_existing [OF Suc.prems] obtain s d' u' where
    c: "check_and_consume st tid d = (Inr s, d')" and
    s: "user_ids_ok d'" "get_by_telegram_id d' tid = Inr (Some u')"
       "count_referrals d' tid = count_referrals d tid" and
    al: "qs_allowed s = (u_free_actions_used u < bs_free_actions st)" and
    u': "u_free_actions_used u' = (if qs_allowed s then Suc (u_free_actions_used u) else u_free_actions_used u)"
    by blast
  have few: "count_referrals d' tid < bs_referral_unlock st" using s(3) Suc.prems(3) by simp
  note IH = Suc.IH [OF s(1,2) few]
  show ?case
  proof (cases "qs_allowed s")
    case True
    with al u' have "bs_free_actions st - u_free_actions_used u =
        Suc (bs_free_actions st - u_free_actions_used u')" by simp
    with True c IH show ?thesis by simp
  next
    case False
    with al u' c IH show ?thesis by simp
  qed
qed simp

lemma length_filter_replace:
  "distinct xs \<Longrightarrow> u \<in> set xs \<Longrightarrow> \<not> p u \<Longrightarrow> p u' \<Longrightarrow>
   length (filter p (map (\<lambda>x. if x = u then u' else x) xs)) = Suc (length (filter p xs))"
proof (induction xs)
  case (Cons a xs)
  show ?case
  proof (cases "a = u")
    case True
    with Cons.prems have "u \<notin> set xs" by simp
    then have "map (\<lambda>x. if x = u then u' else x) xs = xs" by (auto intro: map_idI)
    with True Cons.prems show ?thesis by simp
  next
    case False
    with Cons show ?thesis by simp
  qed
qed simp

section \<open>Properties\<close>

text \<open>
  C6. The allow-list is closed by default: a user who is neither listed nor let in by the public
  tier, and for an admin command anyone who is not an administrator, never reaches the handler.
  Whatever the handler would do, all that happens is one audit row "denied" and the generic reply.
\<close>

theorem unlisted_never_reaches_handler:
  assumes "case tid of None \<Rightarrow> True | Some i \<Rightarrow>
      i \<notin> set (bs_admin_ids st) \<and> (admin \<or> i \<notin> set (bs_allowed_ids st) \<and> \<not> bs_public st)"
  shows "\<exists>b' row. authorized st hit name admin act quota fn tid b = (Inr (), b') \<and>
    authorized st hit name admin act quota fn' tid b = (Inr (), b') \<and>
    bt_replies b' = bt_replies b @ [DENIED] \<and> bt_limiter b' = bt_limiter b \<and>
    audit_logs (bt_db b') = audit_logs (bt_db b) @ [row] \<and> al_result row = ''denied'' \<and>
    al_actor row = actor_text tid \<and> users (bt_db b') = users (bt_db b) \<and> jobs (bt_db b') = jobs (bt_db b)"
proof -
  have "\<exists>reason. (case resolve_principal st tid of
      Inl e \<Rightarrow> Inl e | Inr p \<Rightarrow> if admin then bot_require_admin p else Inr p) = Inl (AccessDenied reason)"
    using assms
    by (cases tid) (auto simp: resolve_principal_def bot_require_admin_def bp_is_admin_def)
  then obtain reason where r: "(case resolve_principal st tid of
      Inl e \<Rightarrow> Inl e | Inr p \<Rightarrow> if admin then bot_require_admin p else Inr p) = Inl (AccessDenied reason)" ..
  let ?m = "Some [(''reason'', JStr reason)]" and ?res = "Some (''command:'' @ act)"
  obtain row where row: "audit_logs (audit_record (actor_text tid) ''access_denied'' ?res ''denied'' ?m (bt_db b))
      = audit_logs (bt_db b) @ [row]" "al_actor row = actor_text tid" "al_result row = ''denied''"
    using audit_record_rows [of "actor_text tid" "''access_denied''" ?res "''denied''" ?m "bt_db b"] by blast
  let ?b = "reply DENIED (audit_bot (actor_text tid) ''access_denied'' ?res ''denied'' ?m b)"
  have "authorized st hit name admin act quota g tid b = (Inr (), ?b)" for g
    by (simp add: authorized_def r Let_def)
  with row show ?thesis
    by (intro exI [of _ ?b] exI [of _ row]) (simp add: reply_def audit_bot_def)
qed

theorem unlisted_never_reaches_handler_witness:
  "\<exists>b'. authorized \<lparr>bs_allowed_ids = [7], bs_admin_ids = [1], bs_public = False, bs_per_minute = 0,
       bs_rate_enabled = True, bs_free_actions = 3, bs_referral_unlock = 3\<rparr>
     (\<lambda>k l w. mem_hit k l w 0) None True ''jobs'' False (\<lambda>_ _. undefined) (Some 7)
     \<lparr>bt_db = empty_db, bt_limiter = mem_limiter_empty, bt_replies = []\<rparr> = (Inr (), b') \<and>
     bt_replies b' = [DENIED]"
proof -
  let ?st = "\<lparr>bs_allowed_ids = [7], bs_admin_ids = [1], bs_public = False, bs_per_minute = 0,
       bs_rate_enabled = True, bs_free_actions = 3, bs_referral_unlock = 3\<rparr>"
  let ?b = "\<lparr>bt_db = empty_db, bt_limiter = mem_limiter_empty, bt_replies = []\<rparr>"
  have "case Some 7 of None \<Rightarrow> True | Some i \<Rightarrow> i \<notin> set (bs_admin_ids ?st) \<and>
      (True \<or> i \<notin> set (bs_allowed_ids ?st) \<and> \<not> bs_public ?st)" by simp
  from unlisted_never_reaches_handler [OF this, where b = ?b and fn = "\<lambda>_ _. undefined"] show ?thesis
    by fastforce
qed

text \<open>
  C13. The free tier is exact: as long as the referral unlock is not reached, of any number of
  checks of one public user precisely the first ones up to the unused part of the free allowance
  are allowed and all later ones refused.
\<close>

theorem quota_exact:
  assumes "user_ids_ok d" and "get_by_telegram_id d tid = Inr (Some u)"
    and "count_referrals d tid < bs_referral_unlock st"
  shows "quota_checks st tid n d =
     replicate (min n (bs_free_actions st - u_free_actions_used u)) True @
     replicate (n - (bs_free_actions st - u_free_actions_used u)) False"
  using assms by (rule quota_checks_existing)

definition public_settings :: bot_settings where
  "public_settings = \<lparr>bs_allowed_ids = [], bs_admin_ids = [], bs_public = True, bs_per_minute = 0,
     bs_rate_enabled = True, bs_free_actions = 3, bs_referral_unlock = 3\<rparr>"

theorem quota_exact_witness:
  "quota_checks public_settings 9 5 (empty_db\<lparr>users := [sample_user\<lparr>u_telegram_user_id := Some 9,
      u_free_actions_used := 1\<rparr>], next_id := 1\<rparr>) = [True, True, False, False, False]"
  using quota_exact [of "empty_db\<lparr>users := [sample_user\<lparr>u_telegram_user_id := Some 9,
      u_free_actions_used := 1\<rparr>], next_id := 1\<rparr>" 9 "sample_user\<lparr>u_telegram_user_id := Some 9,
      u_free_actions_used := 1\<rparr>" public_settings 5]
  by (simp add: user_ids_ok_def get_by_telegram_id_def scalar_one_or_none_def count_referrals_def
      sample_user_def public_settings_def numeral_eq_Suc)

text \<open>
  A referral is a one-time credit: recording one adds exactly one to the inviter's count and
  nothing to anybody else's, nobody can invite themselves, and a second attempt for the same user,
  whoever the inviter, changes nothing.
\<close>

lemma referral_once:
  assumes "user_ids_ok d" and "u \<in> set (users d)" and "record_referral u r d = (ok, d')"
  shows "ok = Inr (u_invited_by u = None \<and> u_telegram_user_id u \<noteq> Some r) \<and>
    (ok = Inr True \<longrightarrow> (\<forall>k. count_referrals d' k = count_referrals d k + (if k = r then 1 else 0)) \<and>
       (\<exists>u' \<in> set (users d'). u_id u' = u_id u \<and> (\<forall>r2. record_referral u' r2 d' = (Inr False, d')))) \<and>
    (ok = Inr False \<longrightarrow> d' = d)"
proof (cases "u_invited_by u = None \<and> u_telegram_user_id u \<noteq> Some r")
  case False
  with assms(3) show ?thesis by (auto simp: record_referral_def split: if_splits)
next
  case True
  let ?u = "u\<lparr>u_invited_by := Some r\<rparr>"
  from True assms(3) have d': "d' = put_user ?u d" and ok: "ok = Inr True"
    by (auto simp: record_referral_def split: if_splits)
  have us: "users d' = map (\<lambda>x. if x = u then ?u else x) (users d)"
    unfolding d' by (rule users_put_user [OF assms(1,2)]) simp
  have dist: "distinct (users d)" using assms(1) by (auto simp: user_ids_ok_def simp: distinct_map)
  have "count_referrals d' k = count_referrals d k + (if k = r then 1 else 0)" for k
  proof (cases "k = r")
    case True': True
    have "length (filter (\<lambda>x. u_invited_by x = Some r) (map (\<lambda>x. if x = u then ?u else x) (users d))) =
        Suc (length (filter (\<lambda>x. u_invited_by x = Some r) (users d)))"
      by (rule length_filter_replace [OF dist assms(2)]) (use True in simp_all)
    then show ?thesis by (simp add: count_referrals_def us True')
  next
    case False
    then show ?thesis
      unfolding count_referrals_def us by (subst length_filter_map_same) (use True in auto)
  qed
  moreover have "?u \<in> set (users d')" using assms(2) by (force simp: us)
  moreover have "record_referral ?u r2 d' = (Inr False, d')" for r2 by (simp add: record_referral_def)
  ultimately show ?thesis using ok True by (auto intro!: bexI [of _ ?u])
qed


definition invited_db :: db where
  "invited_db = empty_db\<lparr>users := [sample_user\<lparr>u_telegram_user_id := Some 9\<rparr>], next_id := 1\<rparr>"

lemma referral_once_witness:
  "count_referrals (snd (record_referral (sample_user\<lparr>u_telegram_user_id := Some 9\<rparr>) 4 invited_db)) 4 = 1"
proof -
  let ?u = "sample_user\<lparr>u_telegram_user_id := Some 9\<rparr>"
  have "user_ids_ok invited_db" "?u \<in> set (users invited_db)"
    by (simp_all add: user_ids_ok_def invited_db_def)
  from referral_once [OF this surjective_pairing, of 4] show ?thesis
    by (simp add: record_referral_def count_referrals_def invited_db_def sample_user_def)
qed

end
