(* ===== verification/PyNet.thy ===== *)
theory PyNet
  imports PyStr
begin

text \<open>
  What the program uses of Python's \<open>urllib.parse\<close> and \<open>ipaddress\<close> (3.11): splitting a URL,
  reading its host and port, and parsing, printing and classifying IP addresses. On the Latin-1
  texts of the model the NFKC check of \<open>urlsplit\<close> never fires. An address is its number.
\<close>

section \<open>ipaddress\<close>

datatype ip = V4 nat | V6 nat "string option"

definition parse_octet :: "string \<Rightarrow> nat option" where
  "parse_octet s =
     (if s = [] \<or> \<not> list_all is_decimal s \<or> length s > 3 \<or> (s \<noteq> ''0'' \<and> hd s = CHR ''0'') \<or> dec_value s > 255
      then None else Some (dec_value s))"

definition parse_v4 :: "string \<Rightarrow> nat option" where
  "parse_v4 s =
     (if CHR ''/'' \<in> set s then None
      else (case split_char CHR ''.'' s of
        [a, b, c, d] \<Rightarrow>
          (case (parse_octet a, parse_octet b, parse_octet c, parse_octet d) of
             (Some w, Some x, Some y, Some z) \<Rightarrow> Some (((w * 256 + x) * 256 + y) * 256 + z)
           | _ \<Rightarrow> None)
      | _ \<Rightarrow> None))"

definition hex_digit :: "char \<Rightarrow> nat option" where
  "hex_digit c =
     (if is_decimal c then Some (code c - 48)
      else if 97 \<le> code c \<and> code c \<le> 102 then Some (code c - 87)
      else if 65 \<le> code c \<and> code c \<le> 70 then Some (code c - 55) else None)"

fun hex_value :: "nat \<Rightarrow> string \<Rightarrow> nat option" where
  "hex_value n [] = Some n"
| "hex_value n (c # cs) = (case hex_digit c of None \<Rightarrow> None | Some v \<Rightarrow> hex_value (16 * n + v) cs)"

text \<open>A hextet; the empty string fails in \<open>int(s, 16)\<close>.\<close>

definition parse_hextet :: "string \<Rightarrow> nat option" where
  "parse_hextet s = (if s = [] \<or> length s > 4 then None else hex_value 0 s)"

fun parse_hextets :: "nat \<Rightarrow> string list \<Rightarrow> nat option" where
  "parse_hextets n [] = Some n"
| "parse_hextets n (h # hs) =
     (case parse_hextet h of None \<Rightarrow> None | Some v \<Rightarrow> parse_hextets (n * 65536 + v) hs)"

definition show_hex_digit :: "nat \<Rightarrow> char" where
  "show_hex_digit n = char_of (if n < 10 then 48 + n else 87 + n)"

fun show_hex :: "nat \<Rightarrow> string" where
  "show_hex n = (if n < 16 then [show_hex_digit n] else show_hex (n div 16) @ [show_hex_digit (n mod 16)])"

declare show_hex.simps [simp del]

text \<open>
  \<open>_ip_int_from_string\<close> of IPv6: an IPv4 tail becomes two hextets; an empty part inside marks the
  skipped zeros, at most once; an empty end must belong to it.
\<close>

definition v6_parts :: "string \<Rightarrow> string list option" where
  "v6_parts s =
     (let parts = split_char CHR '':'' s in
      if length parts < 3 then None
      else (let parts' = (if CHR ''.'' \<in> set (last parts)
              then (case parse_v4 (last parts) of None \<Rightarrow> None
                    | Some v \<Rightarrow> Some (butlast parts @ [show_hex (v div 65536), show_hex (v mod 65536)]))
              else Some parts)
            in case parts' of None \<Rightarrow> None | Some ps \<Rightarrow> if length ps > 9 then None else Some ps))"

definition skip_indices :: "string list \<Rightarrow> nat list" where
  "skip_indices ps = filter (\<lambda>i. ps ! i = []) [1 ..< length ps - 1]"

definition parse_v6_int :: "string \<Rightarrow> nat option" where
  "parse_v6_int s =
     (case v6_parts s of
        None \<Rightarrow> None
      | Some ps \<Rightarrow>
          (case skip_indices ps of
             [] \<Rightarrow> if length ps \<noteq> 8 \<or> hd ps = [] \<or> last ps = [] then None else parse_hextets 0 ps
           | [k] \<Rightarrow>
               (let hi = (if hd ps = [] then k - 1 else k);
                    lo = (if last ps = [] then length ps - k - 2 else length ps - k - 1) in
                if (hd ps = [] \<and> hi \<noteq> 0) \<or> (last ps = [] \<and> lo \<noteq> 0) \<or> hi + lo > 7 then None
                else (case parse_hextets 0 (take hi ps) of
                        None \<Rightarrow> None
                      | Some n \<Rightarrow> parse_hextets (n * 65536 ^ (8 - (hi + lo))) (drop (length ps - lo) ps)))
           | _ \<Rightarrow> None))"

text \<open>\<open>_split_scope_id\<close>: a zone must not be empty and holds no second percent sign.\<close>

definition parse_v6 :: "string \<Rightarrow> (nat \<times> string option) option" where
  "parse_v6 s =
     (if CHR ''/'' \<in> set s then None
      else (case partition_char CHR ''%'' s of
        (a, sep, zone) \<Rightarrow>
          if \<not> sep then map_option (\<lambda>n. (n, None)) (parse_v6_int a)
          else if zone = [] \<or> CHR ''%'' \<in> set zone then None
          else map_option (\<lambda>n. (n, Some zone)) (parse_v6_int a)))"

definition ip_address_of :: "string \<Rightarrow> exn + ip" where
  "ip_address_of s =
     (case parse_v4 s of
        Some n \<Rightarrow> Inr (V4 n)
      | None \<Rightarrow> (case parse_v6 s of
          Some (n, z) \<Rightarrow> Inr (V6 n z)
        | None \<Rightarrow> Inl (ValueError ''does not appear to be an IPv4 or IPv6 address'')))"

definition v4_text :: "nat \<Rightarrow> string" where
  "v4_text n = join ''.'' (map show_nat [n div 16777216, n div 65536 mod 256, n div 256 mod 256, n mod 256])"

text \<open>\<open>_compress_hextets\<close>: the first longest run of at least two zeros.\<close>

fun zero_run :: "nat list \<Rightarrow> nat" where
  "zero_run [] = 0"
| "zero_run (h # hs) = (if h = 0 then Suc (zero_run hs) else 0)"

definition best_run :: "nat list \<Rightarrow> nat \<times> nat" where
  "best_run hs = foldl (\<lambda>(st, len) i. let r = zero_run (drop i hs) in if r > len then (i, r) else (st, len))
     (0, 0) [0 ..< length hs]"

definition hextets :: "nat \<Rightarrow> nat list" where
  "hextets n = map (\<lambda>i. n div 65536 ^ (7 - i) mod 65536) [0 ..< 8]"

definition v6_text :: "nat \<Rightarrow> string" where
  "v6_text n =
     (let hs = hextets n; (st, len) = best_run hs in
      if len > 1
      then join '':'' (map show_hex (take st hs)) @ ''::'' @ join '':'' (map show_hex (drop (st + len) hs))
      else join '':'' (map show_hex hs))"

fun ip_text :: "ip \<Rightarrow> string" where
  "ip_text (V4 n) = v4_text n"
| "ip_text (V6 n None) = v6_text n"
| "ip_text (V6 n (Some z)) = v6_text n @ ''%'' @ z"

section \<open>Classification\<close>

text \<open>A network is its base and prefix length.\<close>

definition in_v4 :: "nat \<Rightarrow> nat \<times> nat \<times> nat \<times> nat \<Rightarrow> nat \<Rightarrow> bool" where
  "in_v4 n q bits = (case q of (a, b, c, d) \<Rightarrow>
     n div 2 ^ (32 - bits) = (((a * 256 + b) * 256 + c) * 256 + d) div 2 ^ (32 - bits))"

definition v4_private_nets :: "((nat \<times> nat \<times> nat \<times> nat) \<times> nat) list" where
  "v4_private_nets = [((0,0,0,0), 8), ((10,0,0,0), 8), ((127,0,0,0), 8), ((169,254,0,0), 16),
     ((172,16,0,0), 12), ((192,0,0,0), 24), ((192,0,0,170), 31), ((192,0,2,0), 24), ((192,168,0,0), 16),
     ((198,18,0,0), 15), ((198,51,100,0), 24), ((203,0,113,0), 24), ((240,0,0,0), 4), ((255,255,255,255), 32)]"

definition v4_private :: "nat \<Rightarrow> bool" where
  "v4_private n \<longleftrightarrow> list_ex (\<lambda>(q, b). in_v4 n q b) v4_private_nets \<and>
     \<not> in_v4 n (192,0,0,9) 32 \<and> \<not> in_v4 n (192,0,0,10) 32"

text \<open>The first hextets of an IPv6 network and its prefix length.\<close>

definition in_v6 :: "nat \<Rightarrow> nat list \<Rightarrow> nat \<Rightarrow> bool" where
  "in_v6 n hs bits \<longleftrightarrow>
     n div 2 ^ (128 - bits) = foldl (\<lambda>a h. a * 65536 + h) 0 (take 8 (hs @ replicate 8 0)) div 2 ^ (128 - bits)"

definition v6_private_nets :: "(nat list \<times> nat) list" where
  "v6_private_nets = [([0,0,0,0,0,0,0,1], 128), ([], 128), ([0,0,0,0,0,65535], 96), ([100,65435,1], 48),
     ([256], 64), ([8193], 23), ([8193,3512], 32), ([8194], 16), ([64512], 7), ([65152], 10)]"

definition v6_private_exceptions :: "(nat list \<times> nat) list" where
  "v6_private_exceptions = [([8193,1,0,0,0,0,0,1], 128), ([8193,1,0,0,0,0,0,2], 128), ([8193,3], 32),
     ([8193,4,274], 48), ([8193,32], 28), ([8193,48], 28)]"

definition v6_reserved_nets :: "(nat list \<times> nat) list" where
  "v6_reserved_nets = [([], 8), ([256], 8), ([512], 7), ([1024], 6), ([2048], 5), ([4096], 4), ([16384], 3),
     ([24576], 3), ([32768], 3), ([40960], 3), ([49152], 3), ([57344], 4), ([61440], 5), ([63488], 6), ([65024], 9)]"

fun is_loopback :: "ip \<Rightarrow> bool" where
  "is_loopback (V4 n) = in_v4 n (127,0,0,0) 8"
| "is_loopback (V6 n _) = (n = 1)"

fun is_private :: "ip \<Rightarrow> bool" where
  "is_private (V4 n) = v4_private n"
| "is_private (V6 n _) =
     (if n div 4294967296 = 65535 then v4_private (n mod 4294967296)
      else list_ex (\<lambda>(h, b). in_v6 n h b) v6_private_nets \<and>
           \<not> list_ex (\<lambda>(h, b). in_v6 n h b) v6_private_exceptions)"

fun is_link_local :: "ip \<Rightarrow> bool" where
  "is_link_local (V4 n) = in_v4 n (169,254,0,0) 16"
| "is_link_local (V6 n _) = in_v6 n [65152] 10"

fun is_multicast :: "ip \<Rightarrow> bool" where
  "is_multicast (V4 n) = in_v4 n (224,0,0,0) 4"
| "is_multicast (V6 n _) = in_v6 n [65280] 8"

fun is_reserved :: "ip \<Rightarrow> bool" where
  "is_reserved (V4 n) = in_v4 n (240,0,0,0) 4"
| "is_reserved (V6 n _) = list_ex (\<lambda>(h, b). in_v6 n h b) v6_reserved_nets"

fun is_unspecified :: "ip \<Rightarrow> bool" where
  "is_unspecified (V4 n) = (n = 0)"
| "is_unspecified (V6 n _) = (n = 0)"

fun ip_version_of :: "ip \<Rightarrow> nat" where
  "ip_version_of (V4 _) = 4"
| "ip_version_of (V6 _ _) = 6"

section \<open>urllib.parse\<close>

record split_result =
  sp_scheme :: string
  sp_netloc :: string
  sp_path :: string
  sp_query :: string
  sp_fragment :: string

definition is_scheme_char :: "char \<Rightarrow> bool" where
  "is_scheme_char c \<longleftrightarrow> is_alpha_az c \<or> is_decimal c \<or> c \<in> set ''+-.''"

definition split_scheme :: "string \<Rightarrow> string \<times> string" where
  "split_scheme u =
     (let pre = takeWhile (\<lambda>c. c \<noteq> CHR '':'') u in
      if CHR '':'' \<in> set u \<and> pre \<noteq> [] \<and> is_alpha_az (hd u) \<and> list_all is_scheme_char pre
      then (lower pre, drop (Suc (length pre)) u) else ([], u))"

text \<open>A bracketed host is an IPv6 address or an \<open>IPvFuture\<close> literal.\<close>

definition ipvfuture_ok :: "string \<Rightarrow> bool" where
  "ipvfuture_ok h =
     (let (a, sep, r) = partition_char CHR ''.'' (drop 1 h) in
      sep \<and> a \<noteq> [] \<and> list_all (\<lambda>c. hex_digit c \<noteq> None) a \<and> r \<noteq> [] \<and> CHR ''\<newline>'' \<notin> set r)"

definition bracketed_ok :: "string \<Rightarrow> bool" where
  "bracketed_ok h =
     (if prefix ''v'' h then ipvfuture_ok h
      else (case ip_address_of h of Inr (V6 _ _) \<Rightarrow> True | _ \<Rightarrow> False))"

definition netloc_ok :: "string \<Rightarrow> bool" where
  "netloc_ok n =
     (if CHR ''['' \<in> set n \<or> CHR '']'' \<in> set n
      then CHR ''['' \<in> set n \<and> CHR '']'' \<in> set n \<and>
           bracketed_ok (before_char CHR '']'' (snd (snd (partition_char CHR ''['' n))))
      else True)"

definition urlsplit :: "string \<Rightarrow> exn + split_result" where
  "urlsplit url =
     (let u = filter (\<lambda>c. c \<notin> {CHR 0x09, CHR 0x0A, CHR 0x0D}) (lstrip_by (\<lambda>c. code c \<le> 32) url);
          (scheme, u) = split_scheme u;
          (netloc, u) = (if prefix ''//'' u
             then (takeWhile (\<lambda>c. c \<notin> set ''/?#'') (drop 2 u), dropWhile (\<lambda>c. c \<notin> set ''/?#'') (drop 2 u))
             else ([], u));
          (u, _, fragment) = partition_char CHR ''#'' u;
          (path, _, query) = partition_char CHR ''?'' u
      in if netloc_ok netloc
         then Inr \<lparr>sp_scheme = scheme, sp_netloc = netloc, sp_path = path, sp_query = query, sp_fragment = fragment\<rparr>
         else Inl (ValueError ''Invalid IPv6 URL''))"

definition hostinfo :: "string \<Rightarrow> string \<times> string" where
  "hostinfo netloc =
     (let h = after_last CHR ''@'' netloc; (_, br, bracketed) = partition_char CHR ''['' h in
      if br then (before_char CHR '']'' bracketed,
                  snd (snd (partition_char CHR '':'' (snd (snd (partition_char CHR '']'' bracketed))))))
      else (before_char CHR '':'' h, snd (snd (partition_char CHR '':'' h))))"

definition url_hostname :: "split_result \<Rightarrow> string option" where
  "url_hostname p =
     (let h = fst (hostinfo (sp_netloc p)) in
      if h = [] then None
      else (let (a, sep, z) = partition_char CHR ''%'' h in
            Some (lower a @ (if sep then ''%'' @ z else []))))"

definition url_port :: "split_result \<Rightarrow> exn + nat option" where
  "url_port p =
     (let s = snd (hostinfo (sp_netloc p)) in
      if s = [] then Inr None
      else if \<not> list_all is_decimal s then Inl (ValueError ''Port could not be cast to integer value'')
      else if dec_value s > 65535 then Inl (ValueError ''Port out of range 0-65535'')
      else Inr (Some (dec_value s)))"

definition uses_netloc :: "string list" where
  "uses_netloc = [[], ''ftp'', ''http'', ''gopher'', ''nntp'', ''telnet'', ''imap'', ''wais'', ''file'', ''mms'',
     ''https'', ''shttp'', ''snews'', ''prospero'', ''rtsp'', ''rtspu'', ''rsync'', ''svn'', ''svn+ssh'',
     ''sftp'', ''nfs'', ''git'', ''git+ssh'', ''ws'', ''wss'']"

definition urlunsplit :: "split_result \<Rightarrow> string" where
  "urlunsplit p =
     (let u = sp_path p;
          u = (if sp_netloc p \<noteq> [] \<or> (sp_scheme p \<noteq> [] \<and> sp_scheme p \<in> set uses_netloc) \<or> prefix ''//'' u
               then ''//'' @ sp_netloc p @ (if u \<noteq> [] \<and> hd u \<noteq> CHR ''/'' then ''/'' @ u else u) else u);
          u = (if sp_scheme p \<noteq> [] then sp_scheme p @ '':'' @ u else u);
          u = (if sp_query p \<noteq> [] then u @ ''?'' @ sp_query p else u)
      in if sp_fragment p \<noteq> [] then u @ ''#'' @ sp_fragment p else u)"

end
