(* ===== verification/Fetcher.thy ===== *)
theory Fetcher
  imports PyNet
begin

text \<open>
  \<open>collectors/common/http.py\<close>: the fetcher all collectors go through. The network is a parameter:
  \<open>resolve\<close> answers a host name with addresses or fails, \<open>send\<close> answers a request, \<open>join_url\<close>
  resolves a \<open>Location\<close> against the current URL (the HTTP library's).
\<close>

section \<open>Policy\<close>

definition metadata_ips :: "string list" where
  "metadata_ips = [''169.254.169.254'', ''100.100.100.200'', ''fd00:ec2::254'']"

definition blocked_hosts :: "string list" where
  "blocked_hosts = [''metadata.google.internal'', ''metadata'', ''localhost'']"

definition ip_is_public :: "string \<Rightarrow> bool" where
  "ip_is_public s =
     (case ip_address_of s of
        Inl _ \<Rightarrow> False
      | Inr a \<Rightarrow> if ip_text a \<in> set metadata_ips then False
                 else \<not> (is_loopback a \<or> is_private a \<or> is_link_local a \<or> is_multicast a \<or>
                         is_reserved a \<or> is_unspecified a))"

type_synonym resolver = "string \<Rightarrow> exn + string list"

fun check_candidates :: "string list \<Rightarrow> exn + unit" where
  "check_candidates [] = Inr ()"
| "check_candidates (i # is) =
     (if \<not> ip_is_public i then Inl (SsrfBlocked ''resolves to non-public address'') else check_candidates is)"

definition candidates :: "resolver \<Rightarrow> string \<Rightarrow> exn + string list" where
  "candidates resolve host =
     (case ip_address_of host of
        Inr _ \<Rightarrow> Inr [host]
      | Inl _ \<Rightarrow>
          (case resolve host of
             Inl OSError \<Rightarrow> Inl (SsrfBlocked ''dns resolution failed'')
           | Inl e \<Rightarrow> Inl e
           | Inr [] \<Rightarrow> Inl (SsrfBlocked ''no addresses'')
           | Inr as \<Rightarrow> Inr as))"

definition check_url :: "bool \<Rightarrow> resolver \<Rightarrow> string \<Rightarrow> exn + string \<times> string" where
  "check_url allow_private resolve url =
     (case urlsplit url of
        Inl e \<Rightarrow> Inl e
      | Inr parts \<Rightarrow>
          (let scheme = lower (sp_scheme parts) in
           if scheme \<noteq> ''http'' \<and> scheme \<noteq> ''https'' then Inl (SsrfBlocked ''scheme not allowed'')
           else (case url_hostname parts of
                   None \<Rightarrow> Inl (SsrfBlocked ''missing host'')
                 | Some host \<Rightarrow>
                     if host = [] then Inl (SsrfBlocked ''missing host'')
                     else if lower host \<in> set blocked_hosts then Inl (SsrfBlocked ''host blocked'')
                     else if allow_private then Inr (scheme, host)
                     else (case candidates resolve host of
                             Inl e \<Rightarrow> Inl e
                           | Inr as \<Rightarrow> (case check_candidates as of
                               Inl e \<Rightarrow> Inl e | Inr _ \<Rightarrow> Inr (scheme, host))))))"

section \<open>Requests\<close>

record http_answer =
  ha_status :: nat
  ha_location :: "string option"
  ha_is_redirect :: bool
  ha_content :: string

record fetch_response =
  fr_url :: string
  fr_status :: nat
  fr_text :: string
  fr_truncated :: bool

definition fr_ok :: "fetch_response \<Rightarrow> bool" where
  "fr_ok r \<longleftrightarrow> 200 \<le> fr_status r \<and> fr_status r < 300"

text \<open>
  \<open>_request\<close> with the number of the hop; the second component of the result lists the URLs a
  request was sent to. \<open>decode\<close> is the byte decoder with replacement of what it cannot decode.
  The status filter does not change what is returned.
\<close>

function request_from ::
  "bool \<Rightarrow> resolver \<Rightarrow> (string \<Rightarrow> exn + http_answer) \<Rightarrow> (string \<Rightarrow> string \<Rightarrow> exn + string) \<Rightarrow> (string \<Rightarrow> string) \<Rightarrow>
   nat \<Rightarrow> nat \<Rightarrow> nat \<Rightarrow> string \<Rightarrow> (exn + fetch_response) \<times> string list" where
  "request_from allow_private resolve send join_url decode max_bytes max_redirects hop current =
     (if hop > max_redirects then (Inl (FetchError ''too many redirects''), [])
      else (case check_url allow_private resolve current of
        Inl e \<Rightarrow> (Inl e, [])
      | Inr _ \<Rightarrow>
          (case send current of
             Inl e \<Rightarrow> (Inl e, [current])
           | Inr a \<Rightarrow>
               if ha_is_redirect a then
                 if hop \<ge> max_redirects then (Inl (FetchError ''too many redirects''), [current])
                 else (case join_url current (case ha_location a of None \<Rightarrow> [] | Some l \<Rightarrow> l) of
                    Inl e \<Rightarrow> (Inl e, [current])
                  | Inr nxt \<Rightarrow>
                      (let (r, us) = request_from allow_private resolve send join_url decode max_bytes
                                       max_redirects (Suc hop) nxt in (r, current # us)))
               else (let body = take (max_bytes + 1) (ha_content a) in
                     (Inr \<lparr>fr_url = current, fr_status = ha_status a, fr_text = decode (take max_bytes body),
                           fr_truncated = (length body > max_bytes)\<rparr>, [current])))))"
  by pat_completeness auto
termination
  by (relation "measure (\<lambda>(a, b, c, d, e, f, max_redirects, hop, u). Suc max_redirects - hop)") auto

declare request_from.simps [simp del]

definition fetch ::
  "bool \<Rightarrow> resolver \<Rightarrow> (string \<Rightarrow> exn + http_answer) \<Rightarrow> (string \<Rightarrow> string \<Rightarrow> exn + string) \<Rightarrow> (string \<Rightarrow> string) \<Rightarrow>
   nat \<Rightarrow> nat \<Rightarrow> string \<Rightarrow> (exn + fetch_response) \<times> string list" where
  "fetch allow_private resolve send join_url decode max_bytes max_redirects url =
     request_from allow_private resolve send join_url decode max_bytes max_redirects 0 url"

section \<open>Lemmas\<close>

lemma check_candidates_Inr: "check_candidates is = Inr u \<Longrightarrow> \<forall>i \<in> set is. ip_is_public i"
  by (induction "is") (auto split: if_splits)

lemma check_url_Inr:
  assumes "check_url False resolve url = Inr (scheme, host)"
  shows "scheme \<in> {''http'', ''https''} \<and> lower host \<notin> set blocked_hosts \<and>
    (\<exists>parts as. urlsplit url = Inr parts \<and> url_hostname parts = Some host \<and>
       candidates resolve host = Inr as \<and> as \<noteq> [] \<and> (\<forall>i \<in> set as. ip_is_public i))"
proof -
  from assms obtain parts as where
    "urlsplit url = Inr parts" "url_hostname parts = Some host" "lower host \<notin> set blocked_hosts"
    "scheme \<in> {''http'', ''https''}" and c: "candidates resolve host = Inr as" and
    k: "check_candidates as = Inr ()"
    by (auto simp: check_url_def Let_def split: sum.splits option.splits if_splits)
  moreover have "as \<noteq> []" using c by (auto simp: candidates_def split: sum.splits list.splits exn.splits)
  ultimately show ?thesis using check_candidates_Inr [OF k] by blast
qed

lemma request_checked:
  "request_from ap resolve send join_url decode mb mr hop url = (r, us) \<Longrightarrow>
   (\<forall>u \<in> set us. \<exists>x. check_url ap resolve u = Inr x) \<and> length us \<le> Suc mr - hop \<and>
   (\<forall>resp. r = Inr resp \<longrightarrow> us \<noteq> [] \<and> fr_url resp = last us)"
proof (induction ap resolve send join_url decode mb mr hop url arbitrary: r us rule: request_from.induct)
  case (1 ap resolve send join_url decode mb mr hop url)
  show ?case
  proof (cases "mr < hop")
    case True
    with 1(2) show ?thesis by (auto simp: request_from.simps [of ap resolve send])
  next
    case hop: False
    show ?thesis
    proof (cases "check_url ap resolve url")
      case (Inl e)
      with 1(2) hop show ?thesis by (auto simp: request_from.simps [of ap resolve send])
    next
      case ok: (Inr x)
      show ?thesis
      proof (cases "\<exists>a nxt. send url = Inr a \<and> ha_is_redirect a \<and> hop < mr \<and>
          join_url url (case ha_location a of None \<Rightarrow> [] | Some l \<Rightarrow> l) = Inr nxt")
        case True
        then obtain a nxt where a: "send url = Inr a" "ha_is_redirect a" "hop < mr"
          "join_url url (case ha_location a of None \<Rightarrow> [] | Some l \<Rightarrow> l) = Inr nxt" by blast
        obtain r' us' where rec: "request_from ap resolve send join_url decode mb mr (Suc hop) nxt = (r', us')"
          by (metis surj_pair)
        have "r = r'" "us = url # us'"
          using 1(2) hop ok a rec by (simp_all add: request_from.simps [of ap resolve send join_url decode mb mr hop])
        moreover have "(\<forall>u \<in> set us'. \<exists>x. check_url ap resolve u = Inr x) \<and> length us' \<le> Suc mr - Suc hop \<and>
            (\<forall>resp. r' = Inr resp \<longrightarrow> us' \<noteq> [] \<and> fr_url resp = last us')"
          using 1(1) [OF hop ok a(1,2) _ a(4) rec] a(3) by simp
        ultimately show ?thesis using ok hop by auto
      next
        case False
        with 1(2) hop ok have "us = [url]" "\<forall>resp. r = Inr resp \<longrightarrow> fr_url resp = url"
          by (auto simp: request_from.simps [of ap resolve send join_url decode mb mr hop] Let_def
              split: sum.splits if_splits option.splits)
        with ok hop show ?thesis by auto
      qed
    qed
  qed
qed


lemma public_v4:
  assumes "ip_is_public s" and "ip_address_of s = Inr (V4 n)"
  shows "n div 16777216 \<notin> {0, 10, 127} \<and> n div 65536 \<notin> {43518, 49320} \<and> n div 1048576 \<noteq> 2753 \<and>
    n div 268435456 \<notin> {14, 15}"
proof -
  have priv: "\<not> v4_private n" and multi: "\<not> in_v4 n (224,0,0,0) 4" and res: "\<not> in_v4 n (240,0,0,0) 4"
    and loop: "\<not> in_v4 n (127,0,0,0) 8" and ll: "\<not> in_v4 n (169,254,0,0) 16"
    using assms by (simp_all add: ip_is_public_def split: if_splits)
  show ?thesis
  proof (cases "n = 3221225481 \<or> n = 3221225482")
    case True
    then show ?thesis by auto
  next
    case False
    then have "\<not> list_ex (\<lambda>(q, b). in_v4 n q b) v4_private_nets"
      using priv by (simp add: v4_private_def in_v4_def)
    then have "\<not> in_v4 n (0,0,0,0) 8 \<and> \<not> in_v4 n (10,0,0,0) 8 \<and> \<not> in_v4 n (172,16,0,0) 12 \<and>
        \<not> in_v4 n (192,168,0,0) 16"
      by (simp add: v4_private_nets_def)
    with multi res loop ll show ?thesis by (simp add: in_v4_def)
  qed
qed

lemma replicate_numeral: "replicate (numeral k) x = x # replicate (pred_numeral k) x"
  by (simp add: numeral_eq_Suc)

lemma in_v6_top:
  assumes "in_v6 n hs b" and "7 \<le> b" and "b \<le> 128"
  shows "n div 2 ^ 121 = foldl (\<lambda>a h. a * 65536 + h) 0 (take 8 (hs @ replicate 8 0)) div 2 ^ 121"
proof -
  have "(121 :: nat) = (128 - b) + (b - 7)" using assms(2,3) by simp
  then have e: "(2 :: nat) ^ 121 = 2 ^ (128 - b) * 2 ^ (b - 7)" by (metis power_add)
  show ?thesis
    unfolding e div_mult2_eq using assms(1) by (simp only: in_v6_def)
qed

lemma public_v6:
  assumes "ip_is_public s" and "ip_address_of s = Inr (V6 n z)"
  shows "n div 2 ^ 120 \<noteq> 0 \<and> n div 2 ^ 121 \<noteq> 126 \<and> n div 2 ^ 118 \<noteq> 1018 \<and> n div 2 ^ 120 \<noteq> 255"
proof -
  have res: "\<not> list_ex (\<lambda>(h, b). in_v6 n h b) v6_reserved_nets" and ll: "\<not> in_v6 n [65152] 10"
    and multi: "\<not> in_v6 n [65280] 8" and priv: "\<not> is_private (V6 n z)"
    using assms by (simp_all add: ip_is_public_def split: if_splits)
  from res have "\<not> in_v6 n [] 8"
    by (simp add: v6_reserved_nets_def)
  then have a: "n div 2 ^ 120 \<noteq> 0" by (simp add: in_v6_def replicate_numeral)
  have "n div 2 ^ 121 \<noteq> 126"
  proof
    assume c: "n div 2 ^ 121 = 126"
    have "\<not> in_v6 n h b" if "(h, b) \<in> set v6_private_exceptions" for h b
    proof
      assume "in_v6 n h b"
      moreover have "7 \<le> b" "b \<le> 128" using that by (auto simp: v6_private_exceptions_def)
      ultimately have "126 = foldl (\<lambda>a h. a * 65536 + h) 0 (take 8 (h @ replicate 8 0)) div (2 ^ 121 :: nat)"
        using in_v6_top c by metis
      with that show False by (auto simp: v6_private_exceptions_def replicate_numeral)
    qed
    then have "\<not> list_ex (\<lambda>(h, b). in_v6 n h b) v6_private_exceptions"
      by (auto simp: list_ex_iff)
    moreover have "list_ex (\<lambda>(h, b). in_v6 n h b) v6_private_nets"
      using c by (simp add: v6_private_nets_def in_v6_def replicate_numeral)
    moreover have "n div 4294967296 \<noteq> 65535"
    proof
      assume m: "n div 4294967296 = 65535"
      have "n div 2 ^ 121 = n div 4294967296 div 2 ^ 89" by (simp add: div_mult2_eq [symmetric])
      with c m show False by simp
    qed
    ultimately show False using priv by simp
  qed
  with a ll multi show ?thesis by (simp add: in_v6_def replicate_numeral)
qed

section \<open>Properties\<close>

text \<open>
  C8. With private targets disallowed, every URL a request is ever sent to, at every redirect hop,
  was checked first: its scheme is http or https, its host is not on the block list, and every
  address the host stands for is public. There are at most \<open>max_redirects + 1\<close> requests.
\<close>

theorem every_hop_checked:
  assumes "fetch False resolve send join_url decode max_bytes max_redirects url = (r, us)"
  shows "length us \<le> Suc max_redirects \<and>
    (\<forall>u \<in> set us. \<exists>parts host as. urlsplit u = Inr parts \<and> lower (sp_scheme parts) \<in> {''http'', ''https''} \<and>
       url_hostname parts = Some host \<and> lower host \<notin> set blocked_hosts \<and>
       candidates resolve host = Inr as \<and> as \<noteq> [] \<and> (\<forall>i \<in> set as. ip_is_public i)) \<and>
    (\<forall>resp. r = Inr resp \<longrightarrow> us \<noteq> [] \<and> fr_url resp = last us)"
proof -
  note req = request_checked [OF assms [unfolded fetch_def]]
  have "\<exists>parts host as. urlsplit u = Inr parts \<and> lower (sp_scheme parts) \<in> {''http'', ''https''} \<and>
       url_hostname parts = Some host \<and> lower host \<notin> set blocked_hosts \<and>
       candidates resolve host = Inr as \<and> as \<noteq> [] \<and> (\<forall>i \<in> set as. ip_is_public i)" if "u \<in> set us" for u
  proof -
    from req that obtain scheme host where c: "check_url False resolve u = Inr (scheme, host)" by fastforce
    then have "\<And>parts. urlsplit u = Inr parts \<Longrightarrow> lower (sp_scheme parts) = scheme"
      by (auto simp: check_url_def Let_def split: option.splits sum.splits if_splits)
    with check_url_Inr [OF c] show ?thesis by blast
  qed
  with req show ?thesis by simp
qed

lemma ip_8_text: "ip_address_of ''8.8.8.8'' = Inr (V4 134744072)"
  by (simp add: ip_address_of_def parse_v4_def parse_octet_def is_decimal_def code_def dec_value_def)

lemma ip_10: "ip_address_of ''10.0.0.1'' = Inr (V4 167772161)"
  by (simp add: ip_address_of_def parse_v4_def parse_octet_def is_decimal_def code_def dec_value_def)

lemma ip_8: "ip_is_public ''8.8.8.8''"
proof -
  have "v4_text 134744072 = join ''.'' (map show_nat [8, 8, 8, 8])" by (simp add: v4_text_def)
  also have "\<dots> \<notin> set metadata_ips" by code_simp
  finally show ?thesis
    by (simp add: ip_is_public_def ip_8_text v4_private_def v4_private_nets_def in_v4_def)
qed

definition redirecting :: "string \<Rightarrow> exn + http_answer" where
  "redirecting u = Inr \<lparr>ha_status = 302, ha_location = Some ''http://10.0.0.1/'', ha_is_redirect = True, ha_content = []\<rparr>"

theorem every_hop_checked_witness:
  "fetch False (\<lambda>_. Inr [''8.8.8.8'']) redirecting (\<lambda>_ l. Inr l) (\<lambda>b. b) 10 3 ''http://a/'' =
     (Inl (SsrfBlocked ''resolves to non-public address''), [''http://a/'']) \<and>
   (\<exists>parts as. urlsplit ''http://a/'' = Inr parts \<and>
      candidates (\<lambda>_. Inr [''8.8.8.8'']) ''a'' = Inr as \<and> (\<forall>i \<in> set as. ip_is_public i))"
proof -
  let ?f = "fetch False (\<lambda>_. Inr [''8.8.8.8'']) redirecting (\<lambda>_ l. Inr l) (\<lambda>b. b) 10 3 ''http://a/''"
  have a: "urlsplit ''http://a/'' = Inr \<lparr>sp_scheme = ''http'', sp_netloc = ''a'', sp_path = ''/'',
      sp_query = [], sp_fragment = []\<rparr>" by code_simp
  have b: "urlsplit ''http://10.0.0.1/'' = Inr \<lparr>sp_scheme = ''http'', sp_netloc = ''10.0.0.1'', sp_path = ''/'',
      sp_query = [], sp_fragment = []\<rparr>" by code_simp
  have ha: "url_hostname \<lparr>sp_scheme = ''http'', sp_netloc = ''a'', sp_path = ''/'',
      sp_query = [], sp_fragment = []\<rparr> = Some ''a''" by code_simp
  have hb: "url_hostname \<lparr>sp_scheme = ''http'', sp_netloc = ''10.0.0.1'', sp_path = ''/'',
      sp_query = [], sp_fragment = []\<rparr> = Some ''10.0.0.1''" by code_simp
  have l: "lower ''http'' = ''http''" "lower ''a'' = ''a''" "lower ''10.0.0.1'' = ''10.0.0.1''" by code_simp+
  have ia: "ip_address_of ''a'' = Inl (ValueError ''does not appear to be an IPv4 or IPv6 address'')" by code_simp
  have ib: "ip_address_of ''10.0.0.1'' = Inr (V4 167772161)" by (rule ip_10)
  have pb: "\<not> ip_is_public ''10.0.0.1''"
    by (simp add: ip_is_public_def ib v4_private_def v4_private_nets_def in_v4_def)
  have c1: "check_url False (\<lambda>_. Inr [''8.8.8.8'']) ''http://a/'' = Inr (''http'', ''a'')"
    by (simp add: check_url_def a ha l blocked_hosts_def candidates_def ia ip_8)
  have c2: "check_url False (\<lambda>_. Inr [''8.8.8.8'']) ''http://10.0.0.1/'' =
      Inl (SsrfBlocked ''resolves to non-public address'')"
    by (simp add: check_url_def b hb l blocked_hosts_def candidates_def ib pb)
  have f: "?f = (Inl (SsrfBlocked ''resolves to non-public address''), [''http://a/''])"
    by (simp add: fetch_def request_from.simps c1 c2 redirecting_def)
  from every_hop_checked [OF f] a ha f show ?thesis by auto
qed

text \<open>
  What counts as public: an IPv4 address that passes is outside 0/8, 10/8, 127/8, 169.254/16,
  172.16/12, 192.168/16 and everything from 224/4 up; an IPv6 address that passes is outside the
  reserved ::/8 (so neither loopback, nor unspecified, nor any IPv4-mapped or NAT64 form), the
  unique local fc00::/7, the link-local fe80::/10 and the multicast ff00::/8; what does not parse
  as an address never passes.
\<close>

lemma public_address:
  assumes "ip_is_public s"
  shows "case ip_address_of s of
      Inl _ \<Rightarrow> False
    | Inr (V4 n) \<Rightarrow> n div 16777216 \<notin> {0, 10, 127} \<and> n div 65536 \<notin> {43518, 49320} \<and>
        n div 1048576 \<noteq> 2753 \<and> n div 268435456 \<notin> {14, 15}
    | Inr (V6 n _) \<Rightarrow> n div 2 ^ 120 \<notin> {0, 255} \<and> n div 2 ^ 121 \<noteq> 126 \<and> n div 2 ^ 118 \<noteq> 1018"
proof (cases "ip_address_of s")
  case (Inl e)
  with assms show ?thesis by (simp add: ip_is_public_def)
next
  case (Inr a)
  then show ?thesis using public_v4 [OF assms] public_v6 [OF assms] by (cases a) auto
qed

lemma public_address_witness:
  "case ip_address_of ''8.8.8.8'' of Inr (V4 n) \<Rightarrow> n div 16777216 \<notin> {0, 10, 127} | _ \<Rightarrow> False"
  using public_address [OF ip_8] by (simp add: ip_8_text)

end
