(* ===== verification/Normalize.thy ===== *)
theory Normalize
  imports PyNet
begin

text \<open>
  \<open>database/normalize.py\<close>: the canonical forms under which identifiers are deduplicated. SHA-256
  is a parameter where it is used.
\<close>

definition is_username_char :: "char \<Rightarrow> bool" where
  "is_username_char c \<longleftrightarrow> is_lower_az c \<or> is_decimal c \<or> c = CHR ''_'' \<or> c = CHR ''.''"

definition tg_url_prefixes :: "string list" where
  "tg_url_prefixes = [''t.me/'', ''telegram.me/'', ''telegram.dog/'']"

text \<open>The loop removes the first prefix that matches and stops.\<close>

fun drop_first_prefix :: "string list \<Rightarrow> string \<Rightarrow> string" where
  "drop_first_prefix [] v = v"
| "drop_first_prefix (p # ps) v = (if prefix p v then drop (length p) v else drop_first_prefix ps v)"

definition normalize_username :: "string \<Rightarrow> exn + string" where
  "normalize_username value =
     (let v = lower (strip value) in
      case (if prefix ''http://'' v \<or> prefix ''https://'' v
            then (case urlsplit v of
                    Inl e \<Rightarrow> Inl e
                  | Inr p \<Rightarrow> Inr (sp_netloc p @ ''/'' @ lstrip_by (\<lambda>c. c = CHR ''/'') (sp_path p)))
            else Inr v) of
        Inl e \<Rightarrow> Inl e
      | Inr v \<Rightarrow>
          (let v = drop_first_prefix tg_url_prefixes v;
               v = lstrip_by (\<lambda>c. c = CHR ''@'') v;
               v = before_char CHR ''?'' (before_char CHR ''/'' v)
           in Inr (filter is_username_char v)))"

definition normalize_domain :: "string \<Rightarrow> exn + string" where
  "normalize_domain value =
     (let v = rstrip_by (\<lambda>c. c = CHR ''.'') (lower (strip value)) in
      case (if contains ''://'' v
            then (case urlsplit v of
                    Inl e \<Rightarrow> Inl e
                  | Inr p \<Rightarrow> Inr (case url_hostname p of None \<Rightarrow> v | Some h \<Rightarrow> h))
            else Inr v) of
        Inl e \<Rightarrow> Inl e
      | Inr v \<Rightarrow> Inr (if prefix ''www.'' v then drop 4 v else v))"

definition normalize_email :: "string \<Rightarrow> exn + string" where
  "normalize_email value =
     (let v = lower (strip value); (loc, _, domain) = partition_char CHR ''@'' v in
      if domain = [] then Inr v
      else (case normalize_domain domain of Inl e \<Rightarrow> Inl e | Inr d \<Rightarrow> Inr (loc @ ''@'' @ d)))"

definition normalize_url :: "string \<Rightarrow> exn + string" where
  "normalize_url value =
     (let v = strip value in
      case urlsplit (if contains ''://'' v then v else ''http://'' @ v) of
        Inl e \<Rightarrow> Inl e
      | Inr parts \<Rightarrow>
          (let scheme = lower (if sp_scheme parts = [] then ''http'' else sp_scheme parts);
               host = lower (case url_hostname parts of None \<Rightarrow> [] | Some h \<Rightarrow> h) in
           case url_port parts of
             Inl e \<Rightarrow> Inl e
           | Inr port \<Rightarrow>
               (let host = (case port of
                      None \<Rightarrow> host
                    | Some n \<Rightarrow> if n \<noteq> 0 \<and> \<not> (scheme = ''http'' \<and> n = 80 \<or> scheme = ''https'' \<and> n = 443)
                                then host @ '':'' @ show_nat n else host)
                in Inr (urlunsplit \<lparr>sp_scheme = scheme, sp_netloc = host,
                     sp_path = (if sp_path parts = [] then ''/'' else sp_path parts),
                     sp_query = sp_query parts, sp_fragment = []\<rparr>))))"

definition normalize_ip :: "string \<Rightarrow> exn + string" where
  "normalize_ip value = map_sum id ip_text (ip_address_of (strip value))"

definition normalize_cve :: "string \<Rightarrow> string" where
  "normalize_cve value = upper (strip value)"

definition normalize_hash :: "string \<Rightarrow> string" where
  "normalize_hash value = lower (strip value)"

section \<open>Lemmas\<close>

lemma not_prefix_char: "c \<in> set p \<Longrightarrow> c \<notin> set v \<Longrightarrow> \<not> prefix p v"
  by (auto simp: prefix_def)

definition is_handle :: "string \<Rightarrow> bool" where
  "is_handle h \<longleftrightarrow> h \<noteq> [] \<and> list_all is_username_char h"

lemma username_char_facts:
  assumes "is_username_char c"
  shows "c \<noteq> CHR ''/''" "c \<noteq> CHR ''@''" "c \<noteq> CHR ''?''" "c \<noteq> CHR '':''" "\<not> is_space c" "lower_char c = c"
proof -
  have codes: "code (CHR ''/'') = 47" "code (CHR ''@'') = 64" "code (CHR ''?'') = 63" "code (CHR '':'') = 58"
    "code (CHR ''_'') = 95" "code (CHR ''.'') = 46" by (simp_all add: code_def)
  note d = assms [unfolded is_username_char_def is_lower_az_def is_decimal_def code_eq_iff [symmetric] codes]
  show "c \<noteq> CHR ''/''" "c \<noteq> CHR ''@''" "c \<noteq> CHR ''?''" "c \<noteq> CHR '':''"
    unfolding code_eq_iff [symmetric] codes using d by auto
  show "\<not> is_space c" using d by (auto simp: is_space_def Let_def)
  show "lower_char c = c" using d by (auto simp: lower_char_def has_lower_def is_upper_az_def)
qed

lemma handle_facts:
  assumes "is_handle h"
  shows "lower h = h" "CHR ''/'' \<notin> set h" "CHR ''@'' \<notin> set h" "CHR ''?'' \<notin> set h" "CHR '':'' \<notin> set h"
    "list_all (\<lambda>c. \<not> is_space c) h" "filter is_username_char h = h"
proof -
  have all: "is_username_char c" if "c \<in> set h" for c
    using assms that by (simp add: is_handle_def list_all_iff)
  show "lower h = h" using all username_char_facts(6) by (auto simp: lower_def intro: map_idI)
  show "CHR ''/'' \<notin> set h" using all username_char_facts(1) by blast
  show "CHR ''@'' \<notin> set h" using all username_char_facts(2) by blast
  show "CHR ''?'' \<notin> set h" using all username_char_facts(3) by blast
  show "CHR '':'' \<notin> set h" using all username_char_facts(4) by blast
  show "list_all (\<lambda>c. \<not> is_space c) h" using all username_char_facts(5) by (auto simp: list_all_iff)
  show "filter is_username_char h = h" using all by (simp add: filter_id_conv)
qed

lemma core_username:
  "is_handle h \<Longrightarrow> filter is_username_char (before_char CHR ''?'' (before_char CHR ''/''
     (lstrip_by (\<lambda>c. c = CHR ''@'') h))) = h"
proof -
  assume h: "is_handle h"
  note f = handle_facts [OF h]
  have "lstrip_by (\<lambda>c. c = CHR ''@'') h = h"
    by (rule lstrip_by_id) (use f(3) in \<open>cases h; auto\<close>)
  with f show ?thesis by (simp add: before_char_id)
qed

lemma normalize_username_handle:
  assumes "is_handle h"
  shows "normalize_username h = Inr h"
proof -
  note f = handle_facts [OF assms]
  have "strip h = h" by (rule strip_no_space [OF f(6)])
  moreover have "\<not> prefix ''http://'' h" "\<not> prefix ''https://'' h"
    "\<not> prefix ''t.me/'' h" "\<not> prefix ''telegram.me/'' h" "\<not> prefix ''telegram.dog/'' h"
    by (rule not_prefix_char [of "CHR ''/''"], simp, rule f(2))+
  ultimately show ?thesis
    using core_username [OF assms] f(1)
    by (simp add: normalize_username_def Let_def tg_url_prefixes_def)
qed

text \<open>Case does not matter, nor does white space around.\<close>

lemma normalize_username_lower: "normalize_username (lower (strip s)) = normalize_username s"
proof -
  have "strip (lower (strip s)) = lower (strip s)"
  proof -
    have sp: "is_space (lower_char c) = is_space c" for c
      by (auto simp: lower_char_def has_lower_def is_upper_az_def is_space_def Let_def)
    have "strip s = [] \<or> \<not> is_space (hd (strip s)) \<and> \<not> is_space (last (strip s))"
      using strip_by_hd [of is_space s] rstrip_by_last [of is_space "lstrip_by is_space s"]
      by (auto simp: strip_def strip_by_def)
    then show ?thesis
      unfolding strip_def [of "lower (strip s)"]
      by (intro strip_by_id) (auto simp: lower_def hd_map last_map sp)
  qed
  then show ?thesis by (simp add: normalize_username_def)
qed

lemma normalize_username_result:
  "normalize_username s = Inr v \<Longrightarrow> list_all is_username_char v"
  by (auto simp: normalize_username_def Let_def list_all_iff split: if_splits sum.splits)

lemma normalize_username_idem:
  assumes "normalize_username s = Inr v"
  shows "normalize_username v = Inr v"
proof (cases "v = []")
  case True
  have "normalize_username [] = Inr []"
    by (simp add: normalize_username_def strip_def strip_by_def rstrip_by_def lstrip_by_def
        tg_url_prefixes_def before_char_def)
  with True show ?thesis by simp
next
  case False
  with normalize_username_result [OF assms] show ?thesis
    by (intro normalize_username_handle) (simp add: is_handle_def)
qed

lemma partition_char_none: "c \<notin> set s \<Longrightarrow> partition_char c s = (s, False, [])"
  by (induction s) (auto simp: partition_char_def Let_def)

lemma urlsplit_tme:
  assumes h: "is_handle h"
  shows "urlsplit (''https://t.me/'' @ h) = Inr \<lparr>sp_scheme = ''https'', sp_netloc = ''t.me'',
     sp_path = ''/'' @ h, sp_query = [], sp_fragment = []\<rparr>"
proof -
  note f = handle_facts [OF h]
  have ctl: "c \<noteq> CHR 0x09 \<and> c \<noteq> CHR 0x0A \<and> c \<noteq> CHR 0x0D" if "c \<in> set h" for c
    using f(6) that by (auto simp: list_all_iff is_space_def code_def)
  have hash: "CHR ''#'' \<notin> set h"
    using h by (auto simp: is_handle_def list_all_iff is_username_char_def is_lower_az_def is_decimal_def code_def)
  let ?u = "''https://t.me/'' @ h"
  have s1: "filter (\<lambda>c. c \<notin> {CHR 0x09, CHR 0x0A, CHR 0x0D}) (lstrip_by (\<lambda>c. code c \<le> 32) ?u) = ?u"
    using ctl by (simp add: lstrip_by_def code_def filter_id_conv)
  have s2: "split_scheme ?u = (''https'', ''//t.me/'' @ h)"
    by (simp add: split_scheme_def Let_def is_alpha_az_def is_lower_az_def is_upper_az_def code_def
        is_scheme_char_def lower_def lower_char_def has_lower_def)
  have s3: "partition_char CHR ''#'' (''/'' @ h) = (''/'' @ h, False, [])"
    by (rule partition_char_none) (use hash in simp)
  have s4: "partition_char CHR ''?'' (''/'' @ h) = (''/'' @ h, False, [])"
    by (rule partition_char_none) (use f(4) in simp)
  show ?thesis
    unfolding urlsplit_def s1 using s2 s3 s4 by (simp add: Let_def netloc_ok_def)
qed

text \<open>The ways users write a handle.\<close>

lemma normalize_username_at:
  assumes h: "is_handle h"
  shows "normalize_username (''@'' @ h) = Inr h"
proof -
  note f = handle_facts [OF h]
  have "strip (''@'' @ h) = ''@'' @ h"
    using f(6) by (intro strip_no_space) (simp add: is_space_def code_def)
  moreover have "lower (''@'' @ h) = ''@'' @ h"
    using f(1) by (simp add: lower_def lower_char_def has_lower_def is_upper_az_def code_def)
  moreover have "lstrip_by (\<lambda>c. c = CHR ''@'') (''@'' @ h) = h"
    using lstrip_by_id [of h "\<lambda>c. c = CHR ''@''"] f(3) by (cases h) (auto simp: lstrip_by_def)
  moreover have "before_char CHR ''?'' (before_char CHR ''/'' h) = h"
    using f by (simp add: before_char_id)
  ultimately show ?thesis using f(7) by (simp add: normalize_username_def Let_def tg_url_prefixes_def)
qed

lemma normalize_username_link:
  assumes h: "is_handle h"
  shows "normalize_username (''https://t.me/'' @ h) = Inr h"
proof -
  note f = handle_facts [OF h]
  have "strip (''https://t.me/'' @ h) = ''https://t.me/'' @ h"
    using f(6) by (intro strip_no_space) (simp add: is_space_def code_def)
  moreover have "lower (''https://t.me/'' @ h) = ''https://t.me/'' @ h"
    using f(1) by (simp add: lower_def lower_char_def has_lower_def is_upper_az_def code_def)
  moreover have "lstrip_by (\<lambda>c. c = CHR ''/'') (''/'' @ h) = h"
    using lstrip_by_id [of h "\<lambda>c. c = CHR ''/''"] f(2) by (cases h) (auto simp: lstrip_by_def)
  ultimately show ?thesis
    using core_username [OF h] urlsplit_tme [OF h]
    by (simp add: normalize_username_def Let_def tg_url_prefixes_def)
qed

section \<open>Properties\<close>



end
