(* ===== verification/Workspace.thy ===== *)
theory Workspace
  imports Users Normalize JobRepo
begin

text \<open>
  The per-user repositories of \<open>database/repositories/investigations.py\<close> (targets, searches,
  watchlist, reports) and the routers built on them and on the job repository:
  \<open>apps/api/routers/watchlist.py\<close> and \<open>apps/api/routers/jobs.py\<close>. Every operation carries the id of
  the user it is scoped to. Sessions do not flush before a query; the one query that can see the
  difference is the count of \<open>add_watch\<close>, which is modelled with the count before an unflushed
  reactivation.
\<close>

definition normalize_for_kind :: "target_kind \<Rightarrow> string \<Rightarrow> exn + string" where
  "normalize_for_kind k value =
     (case k of
        K_DOMAIN \<Rightarrow> normalize_domain value
      | K_EMAIL \<Rightarrow> normalize_email value
      | K_TELEGRAM_ID \<Rightarrow> Inr (strip value)
      | _ \<Rightarrow> normalize_username value)"

section \<open>TargetRepository\<close>

definition target_get :: "uid \<Rightarrow> db \<Rightarrow> uid \<Rightarrow> exn + target option" where
  "target_get uid d i =
     scalar_one_or_none (\<lambda>t. tg_id t = i \<and> tg_user_id t = uid \<and> tg_deleted_at t = None) (targets d)"

definition target_list :: "uid \<Rightarrow> nat \<Rightarrow> db \<Rightarrow> target list" where
  "target_list uid limit d = take limit (sort_key (\<lambda>t. - tg_created_at t)
     (filter (\<lambda>t. tg_user_id t = uid \<and> tg_deleted_at t = None) (targets d)))"

definition put_target :: "target \<Rightarrow> db \<Rightarrow> db" where
  "put_target t d = d\<lparr>targets := update_where (\<lambda>x. tg_id x = tg_id t) (\<lambda>_. t) (targets d)\<rparr>"

definition target_get_or_create ::
  "uid \<Rightarrow> target_kind \<Rightarrow> string \<Rightarrow> string option \<Rightarrow> (db, target \<times> bool) action" where
  "target_get_or_create uid k value label d =
     (case normalize_for_kind k value of
        Inl e \<Rightarrow> (Inl e, d)
      | Inr nrm \<Rightarrow>
          (case scalar_one_or_none (\<lambda>t. tg_user_id t = uid \<and> tg_kind t = k \<and> tg_norm t = nrm) (targets d) of
             Inl e \<Rightarrow> (Inl e, d)
           | Inr (Some t) \<Rightarrow>
               if tg_deleted_at t \<noteq> None
               then (Inr (t\<lparr>tg_deleted_at := None\<rparr>, False), put_target (t\<lparr>tg_deleted_at := None\<rparr>) d)
               else (Inr (t, False), d)
           | Inr None \<Rightarrow>
               (case add_row targets targets_update uq_target (\<lambda>d i.
                   \<lparr>tg_id = i, tg_user_id = uid, tg_kind = k, tg_value = strip value, tg_norm = nrm,
                    tg_label = label, tg_deleted_at = None, tg_created_at = now d\<rparr>) d of
                  (Inl e, d') \<Rightarrow> (Inl e, d') | (Inr t, d') \<Rightarrow> (Inr (t, True), d'))))"

definition target_soft_delete :: "uid \<Rightarrow> uid \<Rightarrow> (db, bool) action" where
  "target_soft_delete uid i d =
     (case target_get uid d i of
        Inl e \<Rightarrow> (Inl e, d)
      | Inr None \<Rightarrow> (Inr False, d)
      | Inr (Some t) \<Rightarrow> (Inr True, put_target (t\<lparr>tg_deleted_at := Some (now d)\<rparr>) d))"

section \<open>SearchRepository\<close>

definition search_get :: "uid \<Rightarrow> db \<Rightarrow> uid \<Rightarrow> exn + search option" where
  "search_get uid d i = scalar_one_or_none (\<lambda>s. se_id s = i \<and> se_user_id s = uid) (searches d)"

definition search_list :: "uid \<Rightarrow> nat \<Rightarrow> db \<Rightarrow> search list" where
  "search_list uid limit d = take limit (sort_key (\<lambda>s. - se_created_at s)
     (filter (\<lambda>s. se_user_id s = uid) (searches d)))"

definition search_create ::
  "uid \<Rightarrow> search_kind \<Rightarrow> string \<Rightarrow> uid option \<Rightarrow> json option \<Rightarrow> uid option \<Rightarrow> (db, search) action" where
  "search_create uid k query target_id filters jid =
     add_row searches searches_update (\<lambda>_. True) (\<lambda>d i.
       \<lparr>se_id = i, se_user_id = uid, se_target_id = target_id, se_kind = k, se_query = strip query,
        se_filters = (case filters of Some (JObj []) \<Rightarrow> None | f \<Rightarrow> f), se_status = T_PENDING,
        se_result_count = 0, se_job_id = jid, se_completed_at = None, se_created_at = now d\<rparr>)"

definition put_search :: "search \<Rightarrow> db \<Rightarrow> db" where
  "put_search s d = d\<lparr>searches := update_where (\<lambda>x. se_id x = se_id s) (\<lambda>_. s) (searches d)\<rparr>"

text \<open>A result as the search service hands it over.\<close>

record result_in =
  ri_entity_type :: entity_type
  ri_entity_id :: uid
  ri_rank :: "int option"
  ri_score :: "rat option"
  ri_snippet :: "string option"
  ri_matched :: "string list option"
  ri_evidence_id :: "uid option"

definition result_row :: "uid \<Rightarrow> nat \<Rightarrow> result_in \<Rightarrow> uid \<Rightarrow> search_result" where
  "result_row sid pos r i =
     \<lparr>sr_id = i, sr_search_id = sid, sr_entity_type = ri_entity_type r, sr_entity_id = ri_entity_id r,
      sr_rank = (case ri_rank r of None \<Rightarrow> int pos | Some k \<Rightarrow> k),
      sr_score = (case ri_score r of None \<Rightarrow> 0 | Some x \<Rightarrow> x), sr_snippet = ri_snippet r,
      sr_matched_terms = (case ri_matched r of Some [] \<Rightarrow> None | m \<Rightarrow> m), sr_evidence_id = ri_evidence_id r\<rparr>"

fun add_result_rows :: "uid \<Rightarrow> nat \<Rightarrow> result_in list \<Rightarrow> db \<Rightarrow> db" where
  "add_result_rows sid pos [] d = d"
| "add_result_rows sid pos (r # rs) d =
     add_result_rows sid (Suc pos) rs
       (d\<lparr>search_results := search_results d @ [result_row sid pos r (next_id d)], next_id := Suc (next_id d)\<rparr>)"

definition search_add_results :: "uid \<Rightarrow> uid \<Rightarrow> result_in list \<Rightarrow> (db, nat) action" where
  "search_add_results uid sid results d =
     (case search_get uid d sid of
        Inl e \<Rightarrow> (Inl e, d)
      | Inr None \<Rightarrow> (Inr 0, d)
      | Inr (Some s) \<Rightarrow>
          (Inr (length results),
           put_search (s\<lparr>se_result_count := se_result_count s + length results\<rparr>)
             (add_result_rows sid 0 results d)))"

definition search_set_status :: "uid \<Rightarrow> uid \<Rightarrow> task_status \<Rightarrow> (db, unit) action" where
  "search_set_status uid sid status d =
     (case search_get uid d sid of
        Inl e \<Rightarrow> (Inl e, d)
      | Inr None \<Rightarrow> (Inr (), d)
      | Inr (Some s) \<Rightarrow>
          (Inr (), put_search (if task_is_terminal status
             then s\<lparr>se_status := status, se_completed_at := Some (now d)\<rparr>
             else s\<lparr>se_status := status\<rparr>) d))"

definition search_get_results :: "uid \<Rightarrow> uid \<Rightarrow> nat \<Rightarrow> db \<Rightarrow> exn + search_result list" where
  "search_get_results uid sid limit d =
     (case search_get uid d sid of
        Inl e \<Rightarrow> Inl e
      | Inr None \<Rightarrow> Inr []
      | Inr (Some _) \<Rightarrow>
          Inr (take limit (sort_key sr_rank (filter (\<lambda>r. sr_search_id r = sid) (search_results d)))))"

section \<open>WatchlistRepository\<close>

definition watch_get :: "uid \<Rightarrow> db \<Rightarrow> uid \<Rightarrow> exn + watchlist option" where
  "watch_get uid d i = scalar_one_or_none (\<lambda>w. w_id w = i \<and> w_user_id w = uid) (watchlists d)"

definition watch_list :: "uid \<Rightarrow> bool \<Rightarrow> db \<Rightarrow> watchlist list" where
  "watch_list uid active_only d = sort_key (\<lambda>w. - w_created_at w)
     (filter (\<lambda>w. w_user_id w = uid \<and> (active_only \<longrightarrow> w_is_active w)) (watchlists d))"

definition count_active :: "uid \<Rightarrow> db \<Rightarrow> nat" where
  "count_active uid d = length (watch_list uid True d)"

definition put_watch :: "watchlist \<Rightarrow> db \<Rightarrow> db" where
  "put_watch w d = d\<lparr>watchlists := update_where (\<lambda>x. w_id x = w_id w) (\<lambda>_. w) (watchlists d)\<rparr>"

definition watch_add ::
  "uid \<Rightarrow> target_kind \<Rightarrow> string \<Rightarrow> string list option \<Rightarrow> uid option \<Rightarrow> nat option \<Rightarrow>
   (db, watchlist \<times> bool) action" where
  "watch_add uid k value sources target_id max_targets d =
     (case normalize_for_kind k value of
        Inl e \<Rightarrow> (Inl e, d)
      | Inr nrm \<Rightarrow>
          (case scalar_one_or_none (\<lambda>w. w_user_id w = uid \<and> w_kind w = k \<and> w_norm w = nrm) (watchlists d) of
             Inl e \<Rightarrow> (Inl e, d)
           | Inr (Some w) \<Rightarrow> (Inr (w\<lparr>w_is_active := True\<rparr>, False), put_watch (w\<lparr>w_is_active := True\<rparr>) d)
           | Inr None \<Rightarrow>
               if (case max_targets of None \<Rightarrow> False | Some m \<Rightarrow> m \<le> count_active uid d)
               then (Inl (ValueError ''watchlist limit reached''), d)
               else (case add_row watchlists watchlists_update uq_watchlist (\<lambda>d i.
                   \<lparr>w_id = i, w_user_id = uid, w_target_id = target_id, w_kind = k, w_value = strip value,
                    w_norm = nrm, w_sources = (case sources of Some [] \<Rightarrow> None | s \<Rightarrow> s), w_is_active = True,
                    w_last_checked_at = None, w_marker = None, w_created_at = now d\<rparr>) d of
                  (Inl e, d') \<Rightarrow> (Inl e, d') | (Inr w, d') \<Rightarrow> (Inr (w, True), d'))))"

definition watch_remove :: "uid \<Rightarrow> target_kind \<Rightarrow> string \<Rightarrow> (db, bool) action" where
  "watch_remove uid k value d =
     (case normalize_for_kind k value of
        Inl e \<Rightarrow> (Inl e, d)
      | Inr nrm \<Rightarrow>
          (case scalar_one_or_none (\<lambda>w. w_user_id w = uid \<and> w_kind w = k \<and> w_norm w = nrm) (watchlists d) of
             Inl e \<Rightarrow> (Inl e, d)
           | Inr None \<Rightarrow> (Inr False, d)
           | Inr (Some w) \<Rightarrow> if \<not> w_is_active w then (Inr False, d)
                            else (Inr True, put_watch (w\<lparr>w_is_active := False\<rparr>) d)))"

section \<open>ReportRepository\<close>

definition report_get :: "uid \<Rightarrow> db \<Rightarrow> uid \<Rightarrow> exn + report option" where
  "report_get uid d i =
     scalar_one_or_none (\<lambda>r. rp_id r = i \<and> rp_user_id r = uid \<and> rp_deleted_at r = None) (reports d)"

definition report_list :: "uid \<Rightarrow> nat \<Rightarrow> db \<Rightarrow> report list" where
  "report_list uid limit d = take limit (sort_key (\<lambda>r. - rp_created_at r)
     (filter (\<lambda>r. rp_user_id r = uid \<and> rp_deleted_at r = None) (reports d)))"

definition report_create :: "uid \<Rightarrow> string \<Rightarrow> uid option \<Rightarrow> uid option \<Rightarrow> (db, report) action" where
  "report_create uid title target_id jid =
     add_row reports reports_update (\<lambda>_. True) (\<lambda>d i.
       \<lparr>rp_id = i, rp_user_id = uid, rp_target_id = target_id, rp_title = title, rp_status = T_PENDING,
        rp_job_id = jid, rp_summary = None, rp_content = None, rp_artifacts = None, rp_generated_at = None,
        rp_error = None, rp_deleted_at = None, rp_created_at = now d\<rparr>)"

definition put_report :: "report \<Rightarrow> db \<Rightarrow> db" where
  "put_report r d = d\<lparr>reports := update_where (\<lambda>x. rp_id x = rp_id r) (\<lambda>_. r) (reports d)\<rparr>"

definition report_set_status :: "uid \<Rightarrow> uid \<Rightarrow> task_status \<Rightarrow> string option \<Rightarrow> (db, unit) action" where
  "report_set_status uid i status error d =
     (case report_get uid d i of
        Inl e \<Rightarrow> (Inl e, d)
      | Inr None \<Rightarrow> (Inr (), d)
      | Inr (Some r) \<Rightarrow>
          (let r = r\<lparr>rp_status := status\<rparr>;
               r = (case error of None \<Rightarrow> r | Some e \<Rightarrow> if e = [] then r else r\<lparr>rp_error := Some e\<rparr>);
               r = (if task_is_terminal status then r\<lparr>rp_generated_at := Some (now d)\<rparr> else r)
           in (Inr (), put_report r d)))"

section \<open>Routers\<close>

text \<open>\<open>apps/api/routers/watchlist.py\<close>\<close>

definition api_list_watches :: "principal \<Rightarrow> (db, watchlist list) action" where
  "api_list_watches p = session_scope (bnd (resolve_user p) (\<lambda>u d. (Inr (watch_list (u_id u) False d), d)))"

definition api_add_watch ::
  "nat \<Rightarrow> principal \<Rightarrow> string \<Rightarrow> string list option \<Rightarrow> (db, bool \<times> watchlist \<times> nat) action" where
  "api_add_watch limit p value sources = session_scope (bnd (resolve_user p) (\<lambda>u d.
     case watch_add (u_id u) K_USERNAME value sources None (Some limit) d of
       (Inl (ValueError m), d') \<Rightarrow> (Inl (HTTPException 429 m), d')
     | (Inl e, d') \<Rightarrow> (Inl e, d')
     | (Inr (w, created), d') \<Rightarrow> (Inr (created, w, count_active (u_id u) (if created then d' else d)), d')))"

definition api_remove_watch :: "principal \<Rightarrow> string \<Rightarrow> (db, bool) action" where
  "api_remove_watch p value = session_scope (bnd (resolve_user p) (\<lambda>u. watch_remove (u_id u) K_USERNAME value))"

text \<open>\<open>apps/api/routers/jobs.py\<close>\<close>

definition requesters :: "user \<Rightarrow> string list" where
  "requesters u = (''user:'' @ uid_text (u_id u)) #
     (case u_telegram_user_id u of None \<Rightarrow> [] | Some t \<Rightarrow> [''telegram:'' @ show_int t])"

definition visible_job :: "principal \<Rightarrow> uid \<Rightarrow> (db, job option) action" where
  "visible_job p jid d =
     (case job_get d jid of
        None \<Rightarrow> (Inr None, d)
      | Some j \<Rightarrow>
          if pr_is_admin p then (Inr (Some j), d)
          else (case resolve_user p d of
                  (Inl e, d') \<Rightarrow> (Inl e, d')
                | (Inr u, d') \<Rightarrow>
                    (Inr (if job_requested_by j \<in> Some ` set (requesters u) then Some j else None), d')))"

definition api_list_jobs :: "principal \<Rightarrow> int \<Rightarrow> (db, job list) action" where
  "api_list_jobs p limit = session_scope (\<lambda>d.
     let n = nat (min 100 (max 1 limit)) in
     if pr_is_admin p then (Inr (jobs_recent n d), d)
     else (case resolve_user p d of
             (Inl e, d') \<Rightarrow> (Inl e, d')
           | (Inr u, d') \<Rightarrow>
               (Inr (take n (sort_key (\<lambda>j. - job_created_at j)
                  (filter (\<lambda>j. job_requested_by j \<in> Some ` set (requesters u)) (jobs d')))), d')))"

definition api_get_job :: "principal \<Rightarrow> uid \<Rightarrow> (db, job) action" where
  "api_get_job p jid = session_scope (bnd (visible_job p jid) (\<lambda>j.
     case j of None \<Rightarrow> throw (HTTPException 404 ''job not found'') | Some j \<Rightarrow> ret j))"

definition api_cancel_job :: "principal \<Rightarrow> uid \<Rightarrow> (db, bool \<times> job_state) action" where
  "api_cancel_job p jid = session_scope (bnd (visible_job p jid) (\<lambda>j d.
     case j of
       None \<Rightarrow> (Inl (HTTPException 404 ''job not found''), d)
     | Some j \<Rightarrow>
         if is_terminal (job_st j) then (Inr (False, job_st j), d)
         else (case transition (job_id j) CANCELLED None None None d of
                 (Inl (IllegalJobStateTransition _), d') \<Rightarrow> (Inr (False, job_st j), d')
               | (Inl e, d') \<Rightarrow> (Inl e, d')
               | (Inr _, d') \<Rightarrow> (Inr (True, CANCELLED), d'))))"


section \<open>Lemmas\<close>

lemma filter_other_put:
  assumes "distinct (map rid t)" and "r \<in> set t" and "owner r = uid" and "owner r' = uid" and "rid r' = rid r"
  shows "filter (\<lambda>x. owner x \<noteq> uid) (update_where (\<lambda>x. rid x = rid r') (\<lambda>_. r') t) =
    filter (\<lambda>x. owner x \<noteq> uid) t"
proof -
  have same: "x = r" if "x \<in> set t" "rid x = rid r" for x
    using assms(1,2) that by (auto simp: distinct_map inj_on_def)
  have "filter (\<lambda>x. owner x \<noteq> uid) (update_where (\<lambda>x. rid x = rid r') (\<lambda>_. r') xs) =
      filter (\<lambda>x. owner x \<noteq> uid) xs" if "set xs \<subseteq> set t" for xs
    using that
  proof (induction xs)
    case (Cons a xs)
    have "owner a = uid" if "rid a = rid r'"
      using same [of a] Cons.prems that assms(3,5) by simp
    with Cons assms(4) show ?case by simp
  qed simp
  then show ?thesis by simp
qed

text \<open>The rows of the other users.\<close>

definition others :: "uid \<Rightarrow> db \<Rightarrow> target list \<times> search list \<times> watchlist list \<times> report list" where
  "others uid d = (filter (\<lambda>t. tg_user_id t \<noteq> uid) (targets d), filter (\<lambda>s. se_user_id s \<noteq> uid) (searches d),
     filter (\<lambda>w. w_user_id w \<noteq> uid) (watchlists d), filter (\<lambda>r. rp_user_id r \<noteq> uid) (reports d))"

definition workspace_ids :: "db \<Rightarrow> bool" where
  "workspace_ids d \<longleftrightarrow> distinct (map tg_id (targets d)) \<and> distinct (map se_id (searches d)) \<and>
     distinct (map w_id (watchlists d)) \<and> distinct (map rp_id (reports d))"

named_theorems workspace_gets "what a scoped query returns"

lemma target_get_Some [workspace_gets]:
  "target_get uid d i = Inr (Some t) \<Longrightarrow> t \<in> set (targets d) \<and> tg_id t = i \<and> tg_user_id t = uid \<and> tg_deleted_at t = None"
  unfolding target_get_def by (drule scalar_one_or_none_Some) simp

lemma search_get_Some [workspace_gets]:
  "search_get uid d i = Inr (Some s) \<Longrightarrow> s \<in> set (searches d) \<and> se_id s = i \<and> se_user_id s = uid"
  unfolding search_get_def by (drule scalar_one_or_none_Some) simp

lemma watch_get_Some [workspace_gets]:
  "watch_get uid d i = Inr (Some w) \<Longrightarrow> w \<in> set (watchlists d) \<and> w_id w = i \<and> w_user_id w = uid"
  unfolding watch_get_def by (drule scalar_one_or_none_Some) simp

lemma report_get_Some [workspace_gets]:
  "report_get uid d i = Inr (Some r) \<Longrightarrow> r \<in> set (reports d) \<and> rp_id r = i \<and> rp_user_id r = uid \<and> rp_deleted_at r = None"
  unfolding report_get_def by (drule scalar_one_or_none_Some) simp

lemma others_put_target:
  "workspace_ids d \<Longrightarrow> t \<in> set (targets d) \<Longrightarrow> tg_user_id t = uid \<Longrightarrow> tg_user_id t' = uid \<Longrightarrow> tg_id t' = tg_id t \<Longrightarrow>
   others uid (put_target t' d) = others uid d"
  unfolding others_def put_target_def workspace_ids_def
  using filter_other_put [of tg_id "targets d" t tg_user_id uid t'] by simp

lemma others_put_search:
  "workspace_ids d \<Longrightarrow> s \<in> set (searches d) \<Longrightarrow> se_user_id s = uid \<Longrightarrow> se_user_id s' = uid \<Longrightarrow> se_id s' = se_id s \<Longrightarrow>
   others uid (put_search s' d) = others uid d"
  unfolding others_def put_search_def workspace_ids_def
  using filter_other_put [of se_id "searches d" s se_user_id uid s'] by simp

lemma others_put_watch:
  "workspace_ids d \<Longrightarrow> w \<in> set (watchlists d) \<Longrightarrow> w_user_id w = uid \<Longrightarrow> w_user_id w' = uid \<Longrightarrow> w_id w' = w_id w \<Longrightarrow>
   others uid (put_watch w' d) = others uid d"
  unfolding others_def put_watch_def workspace_ids_def
  using filter_other_put [of w_id "watchlists d" w w_user_id uid w'] by simp

lemma others_put_report:
  "workspace_ids d \<Longrightarrow> r \<in> set (reports d) \<Longrightarrow> rp_user_id r = uid \<Longrightarrow> rp_user_id r' = uid \<Longrightarrow> rp_id r' = rp_id r \<Longrightarrow>
   others uid (put_report r' d) = others uid d"
  unfolding others_def put_report_def workspace_ids_def
  using filter_other_put [of rp_id "reports d" r rp_user_id uid r'] by simp

lemma add_result_rows_frame [simp]:
  "searches (add_result_rows sid pos rs d) = searches d" "targets (add_result_rows sid pos rs d) = targets d"
  "watchlists (add_result_rows sid pos rs d) = watchlists d" "reports (add_result_rows sid pos rs d) = reports d"
  by (induction rs arbitrary: pos d) simp_all

lemma others_target_get_or_create:
  assumes "workspace_ids d"
  shows "others uid (snd (target_get_or_create uid k v l d)) = others uid d"
proof -
  have "others uid (put_target (t\<lparr>tg_deleted_at := None\<rparr>) d) = others uid d"
    if "scalar_one_or_none (\<lambda>t. tg_user_id t = uid \<and> tg_kind t = k \<and> tg_norm t = n) (targets d) = Inr (Some t)" for t n
    using scalar_one_or_none_Some [OF that] by (intro others_put_target [OF assms, of t]) auto
  then show ?thesis
    by (auto simp: target_get_or_create_def add_row_def Let_def others_def split: sum.splits option.splits)
qed

lemma others_target_soft_delete:
  "workspace_ids d \<Longrightarrow> others uid (snd (target_soft_delete uid i d)) = others uid d"
  by (auto simp: target_soft_delete_def split: sum.splits option.splits
      dest!: target_get_Some intro!: others_put_target)

lemma others_search_add_results:
  assumes "workspace_ids d"
  shows "others uid (snd (search_add_results uid i rs d)) = others uid d"
proof -
  have "others uid (put_search (s\<lparr>se_result_count := n\<rparr>) (add_result_rows i 0 rs d)) = others uid d"
    if "search_get uid d i = Inr (Some s)" for s n
  proof -
    have "workspace_ids (add_result_rows i 0 rs d)" using assms by (simp add: workspace_ids_def)
    then have "others uid (put_search (s\<lparr>se_result_count := n\<rparr>) (add_result_rows i 0 rs d)) =
        others uid (add_result_rows i 0 rs d)"
      by (rule others_put_search [of _ s]) (use search_get_Some [OF that] in auto)
    also have "\<dots> = others uid d" by (simp add: others_def)
    finally show ?thesis .
  qed
  then show ?thesis by (auto simp: search_add_results_def split: sum.splits option.splits)
qed

lemma others_search_set_status:
  "workspace_ids d \<Longrightarrow> others uid (snd (search_set_status uid i st d)) = others uid d"
  by (auto simp: search_set_status_def split: sum.splits option.splits
      dest!: search_get_Some intro!: others_put_search)

lemma others_watch_add:
  assumes "workspace_ids d"
  shows "others uid (snd (watch_add uid k v src tid m d)) = others uid d"
proof -
  have "others uid (put_watch (w\<lparr>w_is_active := True\<rparr>) d) = others uid d"
    if "scalar_one_or_none (\<lambda>w. w_user_id w = uid \<and> w_kind w = k \<and> w_norm w = n) (watchlists d) = Inr (Some w)" for w n
    using scalar_one_or_none_Some [OF that] by (intro others_put_watch [OF assms, of w]) auto
  then show ?thesis
    by (auto simp: watch_add_def add_row_def Let_def others_def split: sum.splits option.splits if_splits)
qed

lemma others_watch_remove:
  assumes "workspace_ids d"
  shows "others uid (snd (watch_remove uid k v d)) = others uid d"
proof -
  have "others uid (put_watch (w\<lparr>w_is_active := False\<rparr>) d) = others uid d"
    if "scalar_one_or_none (\<lambda>w. w_user_id w = uid \<and> w_kind w = k \<and> w_norm w = n) (watchlists d) = Inr (Some w)" for w n
    using scalar_one_or_none_Some [OF that] by (intro others_put_watch [OF assms, of w]) auto
  then show ?thesis
    by (auto simp: watch_remove_def split: sum.splits option.splits if_splits)
qed

lemma others_report_set_status:
  assumes "workspace_ids d"
  shows "others uid (snd (report_set_status uid i st e d)) = others uid d"
proof -
  have "others uid (put_report r' d) = others uid d"
    if "report_get uid d i = Inr (Some r)" "rp_user_id r' = rp_user_id r" "rp_id r' = rp_id r" for r r'
    using report_get_Some [OF that(1)] that(2,3) by (intro others_put_report [OF assms, of r]) auto
  then show ?thesis
    by (auto simp: report_set_status_def Let_def split: sum.splits option.splits)
qed

section \<open>Properties\<close>


definition two_watches :: db where
  "two_watches = empty_db\<lparr>watchlists := [
     \<lparr>w_id = 0, w_user_id = 7, w_target_id = None, w_kind = K_USERNAME, w_value = ''alice'', w_norm = ''alice'',
      w_sources = None, w_is_active = False, w_last_checked_at = None, w_marker = None, w_created_at = 0\<rparr>,
     \<lparr>w_id = 1, w_user_id = 7, w_target_id = None, w_kind = K_USERNAME, w_value = ''bob'', w_norm = ''bob'',
      w_sources = None, w_is_active = True, w_last_checked_at = None, w_marker = None, w_created_at = 0\<rparr>],
     next_id := 2\<rparr>"



lemma count_active_filter:
  "count_active uid d = length (filter (\<lambda>w. w_user_id w = uid \<and> w_is_active w) (watchlists d))"
  by (simp add: count_active_def watch_list_def)

text \<open>
  A watch that is created never takes the user over the limit: it is the last row, active, the
  count grows by exactly one and is within the limit; when the limit is reached a new value is
  refused and nothing changes. Adding the same value again creates nothing and gives the same row.
\<close>

lemma watch_add_within_limit:
  assumes "uq_watchlist (watchlists d)" and "watch_add uid k v src tid (Some m) d = (res, d')"
  shows "(\<forall>w. res = Inr (w, True) \<longrightarrow> watchlists d' = watchlists d @ [w] \<and> w_is_active w \<and>
      count_active uid d' = Suc (count_active uid d) \<and> count_active uid d' \<le> m \<and>
      watch_add uid k v src2 tid2 m2 d' = (Inr (w, False), put_watch w d')) \<and>
    (\<forall>e. res = Inl e \<longrightarrow> d' = d)"
proof (intro conjI allI impI)
  fix e assume "res = Inl e"
  with assms(2) show "d' = d"
    by (auto simp: watch_add_def add_row_def Let_def split: sum.splits option.splits if_splits)
next
  fix w assume res: "res = Inr (w, True)"
  from assms(2) [unfolded res] obtain n where
    n: "normalize_for_kind k v = Inr n" and
    none: "scalar_one_or_none (\<lambda>w. w_user_id w = uid \<and> w_kind w = k \<and> w_norm w = n) (watchlists d) = Inr None" and
    lim: "count_active uid d < m" and
    rows: "watchlists d' = watchlists d @ [w]" and uq: "uq_watchlist (watchlists d')" and
    w: "w_user_id w = uid" "w_kind w = k" "w_norm w = n" "w_is_active w"
    by (auto simp: watch_add_def add_row_def Let_def split: sum.splits option.splits if_splits)
  show "watchlists d' = watchlists d @ [w]" "w_is_active w" by (fact rows, fact w)
  show cnt: "count_active uid d' = Suc (count_active uid d)"
    unfolding count_active_filter rows using w by simp
  show "count_active uid d' \<le> m" using cnt lim by simp
  have "scalar_one_or_none (\<lambda>w. w_user_id w = uid \<and> w_kind w = k \<and> w_norm w = n) (watchlists d') = Inr (Some w)"
  proof -
    have "filter (\<lambda>w. w_user_id w = uid \<and> w_kind w = k \<and> w_norm w = n) (watchlists d) = []"
      using none by (auto simp: filter_empty_conv)
    then show ?thesis using w by (simp add: rows scalar_one_or_none_def)
  qed
  moreover have "w\<lparr>w_is_active := True\<rparr> = w" using w(4) by (cases w) simp
  ultimately show "watch_add uid k v src2 tid2 m2 d' = (Inr (w, False), put_watch w d')"
    by (simp add: watch_add_def n)
qed

lemma watch_add_within_limit_witness:
  "count_active 7 (snd (watch_add 7 K_TELEGRAM_ID ''12'' None None (Some 2) two_watches)) = 2"
proof -
  have uq: "uq_watchlist (watchlists two_watches)" by (simp add: two_watches_def uq_watchlist_def)
  have s: "strip ''12'' = ''12''" by code_simp
  obtain w d' where r: "watch_add 7 K_TELEGRAM_ID ''12'' None None (Some 2) two_watches = (Inr (w, True), d')"
    by (simp add: watch_add_def normalize_for_kind_def s two_watches_def empty_db_def scalar_one_or_none_def
        count_active_filter add_row_def uq_watchlist_def Let_def)
  have "count_active 7 two_watches = 1" by (simp add: count_active_filter two_watches_def)
  with watch_add_within_limit [OF uq r] r show ?thesis by simp
qed

text \<open>
  The cap is not a cap on active watches: removing a watch and adding it back reactivates the
  row without asking for the limit, so with a limit of one a user can end with two active watches.
\<close>

lemma watch_limit_bypassed:
  "\<exists>w d'. watch_add 7 K_USERNAME ''alice'' None None (Some 1) two_watches = (Inr (w, False), d') \<and>
     count_active 7 two_watches = 1 \<and> count_active 7 d' = 2"
proof -
  have "normalize_username ''alice'' = Inr ''alice''"
    by (rule normalize_username_handle) code_simp
  then show ?thesis
    by (simp add: watch_add_def normalize_for_kind_def two_watches_def scalar_one_or_none_def
        count_active_filter put_watch_def)
qed

lemma visible_job_own:
  "\<not> pr_is_admin p \<Longrightarrow> visible_job p i d = (Inr (Some j), d1) \<Longrightarrow>
   \<exists>u. resolve_user p d = (Inr u, d1) \<and> job_get d i = Some j \<and> job_requested_by j \<in> Some ` set (requesters u)"
  by (auto simp: visible_job_def split: option.splits prod.splits sum.splits if_splits)

lemma api_cancel_visible:
  assumes "api_cancel_job p i d = (Inr x, d')"
  shows "\<exists>j d1. visible_job p i d = (Inr (Some j), d1)"
proof -
  from assms obtain y d1 where y: "visible_job p i d = (Inr y, d1)"
    "(case y of None \<Rightarrow> (Inl (HTTPException 404 ''job not found''), d1)
      | Some j \<Rightarrow> if is_terminal (job_st j) then (Inr (False, job_st j), d1)
         else (case transition (job_id j) CANCELLED None None None d1 of
                 (Inl (IllegalJobStateTransition _), d') \<Rightarrow> (Inr (False, job_st j), d')
               | (Inl e, d') \<Rightarrow> (Inl e, d')
               | (Inr _, d') \<Rightarrow> (Inr (True, CANCELLED), d'))) = (Inr x, d')"
    unfolding api_cancel_job_def session_scope_Inr_iff bnd_Inr_iff by blast
  then show ?thesis by (cases y) auto
qed

text \<open>
  C14. Jobs are private: whoever is not an administrator gets, lists and cancels only jobs that were
  requested by the account the request resolves to (under its user id or its Telegram id); any
  other job is answered 404 as if it did not exist, and a refused request changes nothing.
\<close>

theorem jobs_private:
  assumes "\<not> pr_is_admin p"
  shows "(\<forall>j d'. api_get_job p i d = (Inr j, d') \<longrightarrow>
      (\<exists>u. resolve_user p d = (Inr u, d') \<and> job_get d i = Some j \<and> job_requested_by j \<in> Some ` set (requesters u))) \<and>
    (\<forall>js d'. api_list_jobs p n d = (Inr js, d') \<longrightarrow>
      (\<exists>u. resolve_user p d = (Inr u, d') \<and> (\<forall>j \<in> set js. j \<in> set (jobs d') \<and> job_requested_by j \<in> Some ` set (requesters u)))) \<and>
    (\<forall>x d'. api_cancel_job p i d = (Inr x, d') \<longrightarrow>
      (\<exists>u d1 j. resolve_user p d = (Inr u, d1) \<and> job_get d i = Some j \<and> job_requested_by j \<in> Some ` set (requesters u))) \<and>
    (\<forall>e d'. api_cancel_job p i d = (Inl e, d') \<longrightarrow> d' = d)"
proof (intro conjI allI impI)
  fix j d' assume "api_get_job p i d = (Inr j, d')"
  then show "\<exists>u. resolve_user p d = (Inr u, d') \<and> job_get d i = Some j \<and> job_requested_by j \<in> Some ` set (requesters u)"
    using assms
    by (auto simp: api_get_job_def session_scope_Inr_iff bnd_Inr_iff visible_job_def
        split: option.splits prod.splits sum.splits if_splits)
next
  fix js d' assume "api_list_jobs p n d = (Inr js, d')"
  then show "\<exists>u. resolve_user p d = (Inr u, d') \<and> (\<forall>j \<in> set js. j \<in> set (jobs d') \<and> job_requested_by j \<in> Some ` set (requesters u))"
    using assms
    by (auto simp: api_list_jobs_def session_scope_Inr_iff Let_def dest!: in_set_takeD
        split: prod.splits sum.splits)
next
  fix x d' assume "api_cancel_job p i d = (Inr x, d')"
  then show "\<exists>u d1 j. resolve_user p d = (Inr u, d1) \<and> job_get d i = Some j \<and> job_requested_by j \<in> Some ` set (requesters u)"
    by (elim api_cancel_visible [THEN exE] exE) (use visible_job_own [OF assms] in blast)
next
  fix e d' assume "api_cancel_job p i d = (Inl e, d')"
  then show "d' = d" unfolding api_cancel_job_def by (rule session_scope_rollback)
qed

theorem jobs_private_witness:
  "\<not> pr_is_admin \<lparr>pr_email = None, pr_user_id = Some ''9'', pr_role = ''ANALYST''\<rparr> \<and>
   snd (api_cancel_job \<lparr>pr_email = None, pr_user_id = Some ''9'', pr_role = ''ANALYST''\<rparr> 0 two_watches) = two_watches"
proof -
  let ?p = "\<lparr>pr_email = None, pr_user_id = Some ''9'', pr_role = ''ANALYST''\<rparr>"
  have a: "\<not> pr_is_admin ?p" by (simp add: pr_is_admin_def)
  have "\<exists>e d'. api_cancel_job ?p 0 two_watches = (Inl e, d')"
    by (simp add: api_cancel_job_def session_scope_def bnd_def visible_job_def job_get_def get_by_id_def
        two_watches_def empty_db_def)
  with jobs_private [OF a] a show ?thesis by fastforce
qed

end
