(* ===== verification/Entities.thy ===== *)
theory Entities
  imports BaseRepo Normalize
begin

text \<open>
  \<open>database/repositories/entities.py\<close>: deduplicating access to the shared entities of the graph.
  Each operation normalises its input first (which may raise) and then looks up or creates the
  row of that key. \<open>sha\<close> is the hexadecimal SHA-256 of a text.
\<close>

section \<open>Keyed entities\<close>

definition username_get_or_create :: "string \<Rightarrow> string \<Rightarrow> (db, username \<times> bool) action" where
  "username_get_or_create platform value d =
     (case normalize_username value of
        Inl e \<Rightarrow> (Inl e, d)
      | Inr nrm \<Rightarrow>
          get_or_create usernames usernames_update uq_username
            (\<lambda>r. un_platform r = platform \<and> un_norm r = nrm)
            (\<lambda>_ i. \<lparr>un_id = i, un_platform = platform, un_value = strip value, un_norm = nrm\<rparr>) d)"

definition external_get_or_create :: "string \<Rightarrow> string \<Rightarrow> (db, external_account \<times> bool) action" where
  "external_get_or_create platform identifier d =
     (case normalize_username identifier of
        Inl e \<Rightarrow> (Inl e, d)
      | Inr nrm \<Rightarrow>
          get_or_create external_accounts external_accounts_update uq_external_account
            (\<lambda>r. ea_platform r = platform \<and> ea_norm r = nrm)
            (\<lambda>d i. \<lparr>ea_id = i, ea_platform = platform, ea_identifier = strip identifier, ea_norm = nrm,
                   ea_display_name = None, ea_profile_url = None, ea_bio = None, ea_linked_website = None,
                   ea_location = None, ea_created_at = now d\<rparr>) d)"

definition domain_get_or_create :: "string \<Rightarrow> (db, domain \<times> bool) action" where
  "domain_get_or_create name d =
     (case normalize_domain name of
        Inl e \<Rightarrow> (Inl e, d)
      | Inr nrm \<Rightarrow>
          get_or_create domains domains_update uq_domain (\<lambda>r. dm_norm r = nrm)
            (\<lambda>_ i. \<lparr>dm_id = i, dm_name = strip name, dm_norm = nrm,
                   dm_tld = (if CHR ''.'' \<in> set nrm then Some (after_last CHR ''.'' nrm) else None)\<rparr>) d)"

definition url_get_or_create :: "(string \<Rightarrow> string) \<Rightarrow> string \<Rightarrow> (db, url_row \<times> bool) action" where
  "url_get_or_create sha raw_url d =
     (case normalize_url raw_url of
        Inl e \<Rightarrow> (Inl e, d)
      | Inr nrm \<Rightarrow>
          (case urlsplit nrm of
             Inl e \<Rightarrow> (Inl e, d)
           | Inr parts \<Rightarrow>
               get_or_create urls urls_update uq_url (\<lambda>r. ur_hash r = sha nrm)
                 (\<lambda>_ i. \<lparr>ur_id = i, ur_url = take 2048 (strip raw_url), ur_norm = take 2048 nrm, ur_hash = sha nrm,
                        ur_scheme = (if sp_scheme parts = [] then None else Some (sp_scheme parts)),
                        ur_host = url_hostname parts\<rparr>) d))"

definition ip_get_or_create :: "string \<Rightarrow> (db, ip_row \<times> bool) action" where
  "ip_get_or_create addr d =
     (case normalize_ip addr of
        Inl e \<Rightarrow> (Inl e, d)
      | Inr nrm \<Rightarrow>
          (case ip_address_of nrm of
             Inl e \<Rightarrow> (Inl e, d)
           | Inr obj \<Rightarrow>
               get_or_create ips ips_update uq_ip (\<lambda>r. ip_address r = nrm)
                 (\<lambda>_ i. \<lparr>ip_id = i, ip_address = nrm, ip_version = ip_version_of obj,
                        ip_is_private = is_private obj\<rparr>) d))"

section \<open>Indicators\<close>

fun normalize_ioc :: "ioc_type \<Rightarrow> string \<Rightarrow> exn + string" where
  "normalize_ioc IOC_DOMAIN v = (if CHR ''.'' \<in> set v then normalize_domain v else normalize_username v)"
| "normalize_ioc TELEGRAM_USERNAME v = (if CHR ''.'' \<in> set v then normalize_domain v else normalize_username v)"
| "normalize_ioc IOC_URL v = normalize_url v"
| "normalize_ioc TELEGRAM_URL v = normalize_url v"
| "normalize_ioc IOC_EMAIL v = normalize_email v"
| "normalize_ioc IPV4 v = normalize_ip v"
| "normalize_ioc IPV6 v = normalize_ip v"
| "normalize_ioc MD5 v = Inr (normalize_hash v)"
| "normalize_ioc SHA1 v = Inr (normalize_hash v)"
| "normalize_ioc SHA256 v = Inr (normalize_hash v)"
| "normalize_ioc CVE v = Inr (normalize_cve v)"

definition put_ioc :: "ioc \<Rightarrow> db \<Rightarrow> db" where
  "put_ioc r d = d\<lparr>iocs := update_where (\<lambda>x. ioc_id x = ioc_id r) (\<lambda>_. r) (iocs d)\<rparr>"

definition ioc_get_or_create :: "ioc_type \<Rightarrow> string \<Rightarrow> (db, ioc \<times> bool) action" where
  "ioc_get_or_create t value d =
     (case normalize_ioc t value of
        Inl e \<Rightarrow> (Inl e, d)
      | Inr nrm \<Rightarrow>
          (case get_or_create iocs iocs_update uq_ioc (\<lambda>r. ioc_ty r = t \<and> ioc_norm r = nrm)
                  (\<lambda>d i. \<lparr>ioc_id = i, ioc_ty = t, ioc_val = strip value, ioc_norm = nrm, ioc_linked = None,
                         ioc_times_observed = 1, ioc_created_at = now d\<rparr>) d of
             (Inl e, d') \<Rightarrow> (Inl e, d')
           | (Inr (r, created), d') \<Rightarrow>
               if created then (Inr (r, True), d')
               else (let r' = r\<lparr>ioc_times_observed := Suc (ioc_times_observed r)\<rparr>
                     in (Inr (r', False), put_ioc r' d'))))"

section \<open>Telegram entities\<close>

text \<open>
  \<open>_resolve_telegram_entity\<close>, for a model given by its table and its columns: a row matches by
  the numeric id or else by the normalised username; a match is completed with the key it
  lacked.
\<close>

definition backfill_telegram ::
  "('r \<Rightarrow> int option) \<Rightarrow> ('r \<Rightarrow> string option) \<Rightarrow> (int \<Rightarrow> 'r \<Rightarrow> 'r) \<Rightarrow> (string \<Rightarrow> string \<Rightarrow> 'r \<Rightarrow> 'r) \<Rightarrow>
   int option \<Rightarrow> string option \<Rightarrow> string option \<Rightarrow> 'r \<Rightarrow> 'r" where
  "backfill_telegram tid_of norm_of set_tid set_name tid username nrm r =
     (let r = (case tid of Some t \<Rightarrow> if tid_of r = None then set_tid t r else r | None \<Rightarrow> r)
      in case (nrm, username) of
           (Some n, Some u) \<Rightarrow> if norm_of r = None then set_name u n r else r
         | _ \<Rightarrow> r)"

definition resolve_telegram_entity ::
  "(db \<Rightarrow> 'r list) \<Rightarrow> (('r list \<Rightarrow> 'r list) \<Rightarrow> db \<Rightarrow> db) \<Rightarrow> ('r list \<Rightarrow> bool) \<Rightarrow> ('r \<Rightarrow> uid) \<Rightarrow>
   ('r \<Rightarrow> int option) \<Rightarrow> ('r \<Rightarrow> string option) \<Rightarrow> (int \<Rightarrow> 'r \<Rightarrow> 'r) \<Rightarrow> (string \<Rightarrow> string \<Rightarrow> 'r \<Rightarrow> 'r) \<Rightarrow>
   (uid \<Rightarrow> int option \<Rightarrow> string option \<Rightarrow> string option \<Rightarrow> 'r) \<Rightarrow> int option \<Rightarrow> string option \<Rightarrow>
   (db, 'r \<times> bool) action" where
  "resolve_telegram_entity tbl upd uq rid tid_of norm_of set_tid set_name mk tid username d =
     (case (case username of
              None \<Rightarrow> Inr None
            | Some u \<Rightarrow> if u = [] then Inr None else map_sum id Some (normalize_username u)) of
        Inl e \<Rightarrow> (Inl e, d)
      | Inr nrm \<Rightarrow>
          (case (case tid of
                   None \<Rightarrow> Inr None
                 | Some t \<Rightarrow> scalar_one_or_none (\<lambda>r. tid_of r = Some t) (tbl d)) of
             Inl e \<Rightarrow> (Inl e, d)
           | Inr by_id \<Rightarrow>
               (case (case (by_id, nrm) of
                        (None, Some n) \<Rightarrow> scalar_one_or_none (\<lambda>r. norm_of r = Some n) (tbl d)
                      | _ \<Rightarrow> Inr by_id) of
                  Inl e \<Rightarrow> (Inl e, d)
                | Inr (Some obj) \<Rightarrow>
                    (let obj' = backfill_telegram tid_of norm_of set_tid set_name tid username nrm obj
                     in (Inr (obj', False), upd (update_where (\<lambda>r. rid r = rid obj) (\<lambda>_. obj')) d))
                | Inr None \<Rightarrow>
                    (case tid of
                       Some t \<Rightarrow> get_or_create tbl upd uq (\<lambda>r. tid_of r = Some t) (\<lambda>_ i. mk i tid username nrm) d
                     | None \<Rightarrow>
                         (case nrm of
                            None \<Rightarrow> (Inl (ValueError ''telegram_id or username is required''), d)
                          | Some n \<Rightarrow> get_or_create tbl upd uq (\<lambda>r. norm_of r = Some n)
                                        (\<lambda>_ i. mk i None username nrm) d)))))"

definition new_account :: "uid \<Rightarrow> int option \<Rightarrow> string option \<Rightarrow> string option \<Rightarrow> telegram_account" where
  "new_account i tid username nrm =
     \<lparr>ta_id = i, ta_telegram_id = tid, ta_username = username, ta_username_norm = nrm, ta_display_name = None,
      ta_bio = None, ta_is_bot = False, ta_is_verified = False, ta_is_scam = False, ta_photo_reference = None,
      ta_first_observed_at = None\<rparr>"

definition new_chat :: "uid \<Rightarrow> int option \<Rightarrow> string option \<Rightarrow> string option \<Rightarrow> telegram_chat" where
  "new_chat i tid username nrm =
     \<lparr>tc_id = i, tc_telegram_id = tid, tc_username = username, tc_username_norm = nrm, tc_title = None,
      tc_description = None, tc_participants_count = None, tc_is_public = True, tc_first_observed_at = None\<rparr>"

definition account_get_or_create :: "int option \<Rightarrow> string option \<Rightarrow> (db, telegram_account \<times> bool) action" where
  "account_get_or_create =
     resolve_telegram_entity telegram_accounts telegram_accounts_update uq_telegram_account ta_id
       ta_telegram_id ta_username_norm (\<lambda>t r. r\<lparr>ta_telegram_id := Some t\<rparr>)
       (\<lambda>u n r. r\<lparr>ta_username := Some u, ta_username_norm := Some n\<rparr>) new_account"

definition group_get_or_create :: "int option \<Rightarrow> string option \<Rightarrow> (db, telegram_chat \<times> bool) action" where
  "group_get_or_create =
     resolve_telegram_entity telegram_groups telegram_groups_update uq_telegram_chat tc_id
       tc_telegram_id tc_username_norm (\<lambda>t r. r\<lparr>tc_telegram_id := Some t\<rparr>)
       (\<lambda>u n r. r\<lparr>tc_username := Some u, tc_username_norm := Some n\<rparr>) new_chat"

definition channel_get_or_create :: "int option \<Rightarrow> string option \<Rightarrow> (db, telegram_chat \<times> bool) action" where
  "channel_get_or_create =
     resolve_telegram_entity telegram_channels telegram_channels_update uq_telegram_chat tc_id
       tc_telegram_id tc_username_norm (\<lambda>t r. r\<lparr>tc_telegram_id := Some t\<rparr>)
       (\<lambda>u n r. r\<lparr>tc_username := Some u, tc_username_norm := Some n\<rparr>) new_chat"

end
