(* ===== verification/Evidence.thy ===== *)
theory Evidence
  imports Entities
begin

text \<open>
  The observation side of the graph: \<open>database/repositories/evidence.py\<close> (append-only evidence),
  \<open>relationships.py\<close> (edges that are observed again rather than duplicated), \<open>messages.py\<close>, and
  the flush listener of \<open>database/models/evidence.py\<close> that makes evidence immutable. \<open>sha\<close> is
  SHA-256 of a text, \<open>dumps\<close> the sorted JSON text of a value.
\<close>

section \<open>EvidenceRepository\<close>

text \<open>The keyword arguments of \<open>record\<close>; the value \<open>JNull\<close> is \<open>None\<close>.\<close>

record evidence_in =
  ei_field :: "string option"
  ei_value :: json
  ei_source :: string
  ei_source_type :: string
  ei_reference :: "string option"
  ei_raw_content :: "string option"
  ei_content_hash :: "string option"
  ei_observed_at :: "time option"
  ei_method :: "string option"
  ei_confidence :: int
  ei_metadata :: "(string \<times> json) list"

definition evidence_hash :: "(string \<Rightarrow> string) \<Rightarrow> (json \<Rightarrow> string) \<Rightarrow> evidence_in \<Rightarrow> string" where
  "evidence_hash sha dumps e =
     (case ei_content_hash e of
        Some (c # h) \<Rightarrow> c # h
      | _ \<Rightarrow> sha (case ei_raw_content e of Some raw \<Rightarrow> raw | None \<Rightarrow> dumps (ei_value e)))"

definition same_observation ::
  "(string \<Rightarrow> string) \<Rightarrow> (json \<Rightarrow> string) \<Rightarrow> entity_type \<Rightarrow> uid \<Rightarrow> evidence_in \<Rightarrow> evidence \<Rightarrow> bool" where
  "same_observation sha dumps et eid e r \<longleftrightarrow>
     ev_entity_type r = et \<and> ev_entity_id r = eid \<and> ev_field r = ei_field e \<and>
     ev_source r = ei_source e \<and> ev_content_hash r = evidence_hash sha dumps e"

definition evidence_row ::
  "(string \<Rightarrow> string) \<Rightarrow> (json \<Rightarrow> string) \<Rightarrow> entity_type \<Rightarrow> uid \<Rightarrow> evidence_in \<Rightarrow> db \<Rightarrow> uid \<Rightarrow> evidence" where
  "evidence_row sha dumps et eid e d i =
     \<lparr>ev_id = i, ev_entity_type = et, ev_entity_id = eid, ev_field = ei_field e,
      ev_value = (if ei_value e = JNull then None else Some (ei_value e)),
      ev_source = ei_source e, ev_source_type = ei_source_type e, ev_reference = ei_reference e,
      ev_collected_at = now d, ev_observed_at = ei_observed_at e,
      ev_content_hash = evidence_hash sha dumps e, ev_extraction_method = ei_method e,
      ev_confidence = clamp 0 100 (ei_confidence e),
      ev_metadata = (if ei_metadata e = [] then None else Some (JObj (ei_metadata e)))\<rparr>"

definition record_evidence ::
  "(string \<Rightarrow> string) \<Rightarrow> (json \<Rightarrow> string) \<Rightarrow> entity_type \<Rightarrow> uid \<Rightarrow> evidence_in \<Rightarrow> (db, evidence \<times> bool) action" where
  "record_evidence sha dumps et eid e d =
     (case scalar_one_or_none (same_observation sha dumps et eid e) (evidences d) of
        Inl x \<Rightarrow> (Inl x, d)
      | Inr (Some r) \<Rightarrow> (Inr (r, False), d)
      | Inr None \<Rightarrow> get_or_create evidences evidences_update uq_evidence (same_observation sha dumps et eid e)
                      (evidence_row sha dumps et eid e) d)"

text \<open>Rows in descending order of a time; \<open>None\<close> last.\<close>

definition desc_time :: "('r \<Rightarrow> time option) \<Rightarrow> 'r list \<Rightarrow> 'r list" where
  "desc_time k rs =
     sort_key (\<lambda>r. case k r of None \<Rightarrow> 0 | Some t \<Rightarrow> - t) (filter (\<lambda>r. k r \<noteq> None) rs)
     @ filter (\<lambda>r. k r = None) rs"

definition evidence_for_entity :: "entity_type \<Rightarrow> uid \<Rightarrow> nat \<Rightarrow> db \<Rightarrow> evidence list" where
  "evidence_for_entity et eid limit d =
     take limit (sort_key (\<lambda>r. - ev_collected_at r)
       (filter (\<lambda>r. ev_entity_type r = et \<and> ev_entity_id r = eid) (evidences d)))"

definition latest_value :: "entity_type \<Rightarrow> uid \<Rightarrow> string \<Rightarrow> db \<Rightarrow> evidence option" where
  "latest_value et eid fld d =
     (case desc_time ev_observed_at (sort_key (\<lambda>r. - ev_collected_at r)
             (filter (\<lambda>r. ev_entity_type r = et \<and> ev_entity_id r = eid \<and> ev_field r = Some fld) (evidences d))) of
        [] \<Rightarrow> None | r # _ \<Rightarrow> Some r)"

section \<open>The immutability guard\<close>

text \<open>
  \<open>block_evidence_mutation\<close> runs before every flush. \<open>old\<close> are the persisted rows, \<open>new\<close> the rows
  of the session: a persisted row that changed is dirty, one that is gone was deleted.
  \<open>allow\<close> is the flag \<open>allow_evidence_repointing\<close> sets for a merge.
\<close>

definition repointed_only :: "evidence \<Rightarrow> evidence \<Rightarrow> bool" where
  "repointed_only r r' \<longleftrightarrow> r' = r\<lparr>ev_entity_type := ev_entity_type r', ev_entity_id := ev_entity_id r'\<rparr>"

fun block_evidence_mutation :: "bool \<Rightarrow> evidence list \<Rightarrow> evidence list \<Rightarrow> exn + unit" where
  "block_evidence_mutation allow [] new = Inr ()"
| "block_evidence_mutation allow (r # old) new =
     (case get_by_id ev_id new (ev_id r) of
        None \<Rightarrow> Inl (EvidenceImmutableError ''immutable and cannot be deleted'')
      | Some r' \<Rightarrow>
          if r' = r \<or> (allow \<and> repointed_only r r') then block_evidence_mutation allow old new
          else Inl (EvidenceImmutableError ''immutable; record a new observation instead''))"

text \<open>A flush of changed evidence rows: the guard, then the unique constraint.\<close>

definition flush_evidence :: "bool \<Rightarrow> evidence list \<Rightarrow> (db, unit) action" where
  "flush_evidence allow new d =
     (case block_evidence_mutation allow (evidences d) new of
        Inl e \<Rightarrow> (Inl e, d)
      | Inr _ \<Rightarrow> if uq_evidence new then (Inr (), d\<lparr>evidences := new\<rparr>)
                 else (Inl (IntegrityError ''unique constraint failed''), d))"

section \<open>RelationshipRepository\<close>

definition put_edge :: "relationship \<Rightarrow> db \<Rightarrow> db" where
  "put_edge r d = d\<lparr>relationships := update_where (\<lambda>x. rel_id x = rel_id r) (\<lambda>_. r) (relationships d)\<rparr>"

text \<open>What observing an edge again changes of it.\<close>

definition bump_edge :: "time \<Rightarrow> int \<Rightarrow> uid option \<Rightarrow> relationship \<Rightarrow> relationship" where
  "bump_edge t confidence evid r =
     r\<lparr>rel_last_seen := t, rel_observation_count := Suc (rel_observation_count r),
       rel_confidence := max (rel_confidence r) confidence,
       rel_evidence_id := (if rel_evidence_id r = None then evid else rel_evidence_id r)\<rparr>"

definition observe ::
  "entity_type \<times> uid \<Rightarrow> entity_type \<times> uid \<Rightarrow> rel_type \<Rightarrow> int \<Rightarrow> uid option \<Rightarrow> (string \<times> json) list \<Rightarrow>
   (db, relationship \<times> bool) action" where
  "observe src tgt rt confidence evid metadata d =
     (let confidence = clamp 0 100 confidence in
      case get_or_create relationships relationships_update uq_relationship
             (\<lambda>r. rel_source_type r = fst src \<and> rel_source_id r = snd src \<and>
                  rel_target_type r = fst tgt \<and> rel_target_id r = snd tgt \<and> rel_ty r = rt)
             (\<lambda>d i. \<lparr>rel_id = i, rel_source_type = fst src, rel_source_id = snd src, rel_target_type = fst tgt,
                    rel_target_id = snd tgt, rel_ty = rt, rel_confidence = confidence,
                    rel_observation_count = 1, rel_first_seen = now d, rel_last_seen = now d,
                    rel_evidence_id = evid, rel_metadata = (if metadata = [] then None else Some (JObj metadata))\<rparr>) d of
        (Inl e, d') \<Rightarrow> (Inl e, d')
      | (Inr (r, created), d') \<Rightarrow>
          if created then (Inr (r, True), d')
          else (let r' = bump_edge (now d') confidence evid r in (Inr (r', False), put_edge r' d')))"

definition neighbours :: "entity_type \<times> uid \<Rightarrow> nat \<Rightarrow> db \<Rightarrow> relationship list" where
  "neighbours e limit d =
     take limit (sort_key (\<lambda>r. - rel_last_seen r)
       (filter (\<lambda>r. (rel_source_type r, rel_source_id r) = e \<or> (rel_target_type r, rel_target_id r) = e)
          (relationships d)))"

section \<open>MessageRepository\<close>

text \<open>
  The keyword arguments of \<open>upsert\<close> as settings of columns; a name that is no column is
  \<open>MF_other\<close>: the constructor of the model refuses it, assigning it to a row only sets a Python
  attribute.
\<close>

datatype msg_field =
    MF_author_account_id uid
  | MF_author_username string
  | MF_text string
  | MF_posted_at time
  | MF_reply_to int
  | MF_forwarded_from string
  | MF_views int
  | MF_urls "string list"
  | MF_usernames "string list"
  | MF_source_url string
  | MF_other string

fun set_field :: "msg_field \<Rightarrow> message \<Rightarrow> message" where
  "set_field (MF_author_account_id v) m = m\<lparr>ms_author_account_id := Some v\<rparr>"
| "set_field (MF_author_username v) m = m\<lparr>ms_author_username := Some v\<rparr>"
| "set_field (MF_text v) m = m\<lparr>ms_text := Some v\<rparr>"
| "set_field (MF_posted_at v) m = m\<lparr>ms_posted_at := Some v\<rparr>"
| "set_field (MF_reply_to v) m = m\<lparr>ms_reply_to := Some v\<rparr>"
| "set_field (MF_forwarded_from v) m = m\<lparr>ms_forwarded_from := Some v\<rparr>"
| "set_field (MF_views v) m = m\<lparr>ms_views := Some v\<rparr>"
| "set_field (MF_urls v) m = m\<lparr>ms_urls := Some v\<rparr>"
| "set_field (MF_usernames v) m = m\<lparr>ms_usernames := Some v\<rparr>"
| "set_field (MF_source_url v) m = m\<lparr>ms_source_url := Some v\<rparr>"
| "set_field (MF_other _) m = m"

fun is_column :: "msg_field \<Rightarrow> bool" where
  "is_column (MF_other _) = False"
| "is_column _ = True"

definition put_message :: "message \<Rightarrow> db \<Rightarrow> db" where
  "put_message r d = d\<lparr>messages := update_where (\<lambda>x. ms_id x = ms_id r) (\<lambda>_. r) (messages d)\<rparr>"

definition message_upsert ::
  "entity_type \<Rightarrow> uid \<Rightarrow> int \<Rightarrow> msg_field list \<Rightarrow> (db, message \<times> bool) action" where
  "message_upsert st sid mid cols d =
     (let same = (\<lambda>r. ms_source_type r = st \<and> ms_source_id r = sid \<and> ms_message_id r = mid) in
      case scalar_one_or_none same (messages d) of
        Inl e \<Rightarrow> (Inl e, d)
      | Inr (Some m) \<Rightarrow> (let m' = fold set_field cols m in (Inr (m', False), put_message m' d))
      | Inr None \<Rightarrow>
          if \<not> list_all is_column cols
          then (Inl (TypeError ''invalid keyword argument for Message''), d)
          else (case get_or_create messages messages_update uq_message same
                  (\<lambda>_ i. fold set_field cols
                     \<lparr>ms_id = i, ms_source_type = st, ms_source_id = sid, ms_message_id = mid,
                      ms_author_account_id = None, ms_author_username = None, ms_text = None, ms_posted_at = None,
                      ms_reply_to = None, ms_forwarded_from = None, ms_views = None, ms_urls = None,
                      ms_usernames = None, ms_source_url = None\<rparr>) d of
                (Inl e, d') \<Rightarrow> (Inl e, d')
              | (Inr (m, created), d') \<Rightarrow>
                  if created then (Inr (m, True), d')
                  else (let m' = fold set_field cols m in (Inr (m', False), put_message m' d'))))"

definition messages_for_source :: "entity_type \<Rightarrow> uid \<Rightarrow> nat \<Rightarrow> db \<Rightarrow> message list" where
  "messages_for_source st sid limit d =
     take limit (desc_time ms_posted_at (filter (\<lambda>r. ms_source_type r = st \<and> ms_source_id r = sid) (messages d)))"

section \<open>Lemmas\<close>

text \<open>The newest rows come first, undated ones last.\<close>

definition newer :: "message \<Rightarrow> message \<Rightarrow> bool" where
  "newer m' m \<longleftrightarrow> (case ms_posted_at m' of None \<Rightarrow> False | Some t' \<Rightarrow> (case ms_posted_at m of None \<Rightarrow> True | Some t \<Rightarrow> t < t'))"

lemma desc_time_ordered: "sorted_wrt (\<lambda>a b. \<not> newer b a) (desc_time ms_posted_at ms)"
proof -
  have "sorted_wrt (\<lambda>a b. \<not> newer b a) (sort_key (\<lambda>r. case ms_posted_at r of None \<Rightarrow> 0 | Some t \<Rightarrow> - t) (filter (\<lambda>r. ms_posted_at r \<noteq> None) ms))" (is "sorted_wrt _ ?xs")
  proof (rule sorted_wrt_mono_rel [rotated])
    show "sorted_wrt (\<lambda>a b. (case ms_posted_at a of None \<Rightarrow> 0 | Some t \<Rightarrow> - t) \<le> (case ms_posted_at b of None \<Rightarrow> 0 | Some t \<Rightarrow> - t)) ?xs"
      using sorted_sort_key by (metis sorted_map)
  qed (auto simp: newer_def split: option.splits)
  moreover have "sorted_wrt (\<lambda>a b. \<not> newer b a) (filter (\<lambda>r. ms_posted_at r = None) ms)"
    by (rule sorted_wrt_mono_rel [of _ "\<lambda>_ _. True"]) (auto simp: newer_def)
  ultimately show ?thesis by (auto simp: desc_time_def sorted_wrt_append newer_def)
qed

lemma set_desc_time: "set (desc_time ms_posted_at ms) = set ms"
  by (auto simp: desc_time_def)

lemma take_newest:
  assumes "m \<in> set (take n (desc_time ms_posted_at xs))" "m' \<in> set xs" "newer m' m"
  shows "m' \<in> set (take n (desc_time ms_posted_at xs))"
proof (rule ccontr)
  let ?xs = "desc_time ms_posted_at xs"
  assume "m' \<notin> set (take n ?xs)"
  moreover have "m' \<in> set ?xs" using assms(2) by (simp add: set_desc_time)
  ultimately have "m' \<in> set (drop n ?xs)" by (metis append_take_drop_id Un_iff set_append)
  moreover have "sorted_wrt (\<lambda>a b. \<not> newer b a) (take n ?xs @ drop n ?xs)" by (simp add: desc_time_ordered)
  ultimately have "\<not> newer m' m" using assms(1) unfolding sorted_wrt_append by blast
  with assms(3) show False by simp
qed

text \<open>The guard lets a flush through only if no persisted row lost its payload.\<close>

lemma guard_keeps:
  "block_evidence_mutation allow old new = Inr () \<Longrightarrow> r \<in> set old \<Longrightarrow>
   \<exists>r' \<in> set new. ev_id r' = ev_id r \<and> (r' = r \<or> allow \<and> repointed_only r r')"
  by (induction old) (force split: option.splits if_splits dest: get_by_id_Some)+

lemma guard_passes:
  "distinct (map ev_id new) \<Longrightarrow>
   (\<And>r. r \<in> set old \<Longrightarrow> \<exists>r' \<in> set new. ev_id r' = ev_id r \<and> (r' = r \<or> allow \<and> repointed_only r r')) \<Longrightarrow>
   block_evidence_mutation allow old new = Inr ()"
proof (induction old)
  case (Cons r old)
  then obtain r' where r': "r' \<in> set new" "ev_id r' = ev_id r" "r' = r \<or> allow \<and> repointed_only r r'"
    by auto
  have "get_by_id ev_id new (ev_id r) = Some r'"
    using get_by_id_in [OF Cons.prems(1) r'(1)] r'(2) by simp
  with r'(3) Cons show ?case by auto
qed simp

text \<open>What recording does to the table: nothing, or one new row at the end.\<close>

lemma record_evidence_miss:
  assumes "\<forall>r \<in> set (evidences d). \<not> same_observation sha dumps et eid e r"
  shows "record_evidence sha dumps et eid e d =
    (let row = evidence_row sha dumps et eid e d (next_id d) in
     if uq_evidence (evidences d @ [row])
     then (Inr (row, True), d\<lparr>evidences := evidences d @ [row], next_id := Suc (next_id d)\<rparr>)
     else (Inl (IntegrityError ''unique constraint failed''), d))"
proof -
  have s: "scalar_one_or_none (same_observation sha dumps et eid e) (evidences d) = Inr None"
    using assms by simp
  show ?thesis by (simp add: record_evidence_def get_or_create_def get_or_create_race_def s Let_def)
qed

lemma record_evidence_cases:
  assumes "record_evidence sha dumps et eid e d = (res, d')"
  shows "d' = d \<or>
    (res = Inr (evidence_row sha dumps et eid e d (next_id d), True) \<and> uq_evidence (evidences d') \<and>
     (\<forall>r \<in> set (evidences d). \<not> same_observation sha dumps et eid e r) \<and>
     d' = d\<lparr>evidences := evidences d @ [evidence_row sha dumps et eid e d (next_id d)], next_id := Suc (next_id d)\<rparr>)"
proof (cases "\<forall>r \<in> set (evidences d). \<not> same_observation sha dumps et eid e r")
  case True
  from assms show ?thesis unfolding record_evidence_miss [OF True]
    by (auto simp: Let_def True split: if_splits)
next
  case False
  then have "scalar_one_or_none (same_observation sha dumps et eid e) (evidences d) \<noteq> Inr None" by simp
  with assms show ?thesis by (auto simp only: record_evidence_def split: sum.splits option.splits)
qed

lemma same_observation_row [simp]: "same_observation sha dumps et eid e (evidence_row sha dumps et eid e d i)"
  by (simp add: same_observation_def evidence_row_def)

text \<open>Recording the same observation again finds the row and changes nothing.\<close>

lemma record_evidence_again:
  assumes "record_evidence sha dumps et eid e d = (Inr (r, c), d')"
  shows "record_evidence sha dumps et eid e d' = (Inr (r, False), d')"
proof -
  have "scalar_one_or_none (same_observation sha dumps et eid e) (evidences d') = Inr (Some r)"
  proof (cases "\<forall>r \<in> set (evidences d). \<not> same_observation sha dumps et eid e r")
    case True
    from assms have "evidences d' = evidences d @ [r]" "same_observation sha dumps et eid e r"
      unfolding record_evidence_miss [OF True] by (auto simp: Let_def split: if_splits)
    with True show ?thesis by (simp add: scalar_filter filter_empty_conv)
  next
    case False
    then have "scalar_one_or_none (same_observation sha dumps et eid e) (evidences d) \<noteq> Inr None" by simp
    with assms show ?thesis by (auto simp only: record_evidence_def split: sum.splits option.splits)
  qed
  then show ?thesis by (simp add: record_evidence_def)
qed

abbreviation edge_between :: "entity_type \<times> uid \<Rightarrow> entity_type \<times> uid \<Rightarrow> rel_type \<Rightarrow> relationship \<Rightarrow> bool" where
  "edge_between src tgt rt r \<equiv> rel_source_type r = fst src \<and> rel_source_id r = snd src \<and>
     rel_target_type r = fst tgt \<and> rel_target_id r = snd tgt \<and> rel_ty r = rt"

text \<open>The edges are unique and carry distinct primary keys: then observing never raises.\<close>

definition edges_ok :: "db \<Rightarrow> bool" where
  "edges_ok d \<longleftrightarrow> uq_relationship (relationships d) \<and> ids_ok rel_id (relationships d) (next_id d)"

lemma observe_again:
  assumes ok: "edges_ok d" and one: "filter (edge_between src tgt rt) (relationships d) = [r]"
  shows "observe src tgt rt c evid md d =
      (Inr (bump_edge (now d) (clamp 0 100 c) evid r, False), put_edge (bump_edge (now d) (clamp 0 100 c) evid r) d)"
  using one by (simp add: observe_def get_or_create_def get_or_create_race_def scalar_filter [THEN iffD2] Let_def)

lemma observe_first:
  assumes ok: "edges_ok d" and none: "filter (edge_between src tgt rt) (relationships d) = []"
  shows "\<exists>r. observe src tgt rt c evid md d = (Inr (r, True), d\<lparr>relationships := relationships d @ [r], next_id := Suc (next_id d)\<rparr>) \<and>
      edge_between src tgt rt r \<and> rel_id r = next_id d \<and> rel_confidence r = clamp 0 100 c \<and> rel_observation_count r = 1 \<and>
      rel_first_seen r = now d \<and> rel_last_seen r = now d \<and> rel_evidence_id r = evid"
proof -
  from none have "\<forall>x \<in> set (relationships d). \<not> edge_between src tgt rt x" by (simp add: filter_empty_conv)
  with ok show ?thesis
    by (auto simp: observe_def get_or_create_def get_or_create_race_def Let_def edges_ok_def uq_relationship_def
        rel_key_def scalar_one_or_none_None [THEN iffD2])
qed

lemma filter_edge_cases:
  assumes "uq_relationship es"
  obtains "filter (edge_between src tgt rt) es = []" | r where "filter (edge_between src tgt rt) es = [r]"
proof -
  have "length (filter (edge_between src tgt rt) es) \<le> 1"
    by (rule filter_distinct_key [of rel_key]) (use assms in \<open>auto simp: uq_relationship_def rel_key_def\<close>)
  with that show ?thesis
    by (cases "filter (edge_between src tgt rt) es") auto
qed

lemma bump_edge_fields [simp]:
  "rel_id (bump_edge t c evid r) = rel_id r" "rel_key (bump_edge t c evid r) = rel_key r"
  "rel_first_seen (bump_edge t c evid r) = rel_first_seen r" "rel_last_seen (bump_edge t c evid r) = t"
  "rel_observation_count (bump_edge t c evid r) = Suc (rel_observation_count r)"
  "rel_confidence (bump_edge t c evid r) = max (rel_confidence r) c"
  "rel_evidence_id (bump_edge t c evid r) = (if rel_evidence_id r = None then evid else rel_evidence_id r)"
  by (simp_all add: bump_edge_def rel_key_def)

lemma put_edge_edges:
  assumes "edges_ok d" and "r \<in> set (relationships d)" and "rel_id r' = rel_id r"
  shows "relationships (put_edge r' d) = map (\<lambda>x. if x = r then r' else x) (relationships d)"
  using assms update_where_replace [of rel_id "relationships d" r r']
  by (simp add: put_edge_def edges_ok_def ids_ok_def)

lemma edges_ok_put:
  assumes ok: "edges_ok d" and r: "r \<in> set (relationships d)" and same: "rel_id r' = rel_id r" "rel_key r' = rel_key r"
  shows "edges_ok (put_edge r' d)"
proof -
  have m: "map f (relationships (put_edge r' d)) = map f (relationships d)" if "f r' = f r" for f :: "relationship \<Rightarrow> 'a"
    unfolding put_edge_edges [OF ok r same(1)] using that by simp
  have "set (relationships (put_edge r' d)) \<subseteq> insert r' (set (relationships d))"
    unfolding put_edge_edges [OF ok r same(1)] by auto
  moreover have "rel_id r' < next_id d" using ok r same(1) by (auto simp: edges_ok_def ids_ok_def)
  ultimately show ?thesis
    using ok m [of rel_id, OF same(1)] m [of rel_key, OF same(2)]
    by (auto simp: edges_ok_def ids_ok_def uq_relationship_def put_edge_def)
qed

lemma observe_edges_ok:
  assumes ok: "edges_ok d"
  shows "edges_ok (snd (observe src tgt rt c evid md d))"
proof (cases "filter (edge_between src tgt rt) (relationships d)")
  case Nil
  from observe_first [OF ok Nil] obtain r where
    "observe src tgt rt c evid md d = (Inr (r, True), d\<lparr>relationships := relationships d @ [r], next_id := Suc (next_id d)\<rparr>)"
    "edge_between src tgt rt r" "rel_id r = next_id d" by blast
  with ok Nil show ?thesis
    by (auto simp: edges_ok_def uq_relationship_def rel_key_def filter_empty_conv intro!: ids_ok_snoc)
next
  case (Cons r rs)
  then have one: "filter (edge_between src tgt rt) (relationships d) = [r]"
    using filter_edge_cases [of "relationships d" src tgt rt] ok by (auto simp: edges_ok_def)
  then have "r \<in> set (relationships d)" using filter_single by fastforce
  from edges_ok_put [OF ok this] show ?thesis
    by (simp add: observe_again [OF ok one])
qed

section \<open>A history of observations\<close>

text \<open>The same edge observed at the given times, with confidence and representative evidence.\<close>

fun observe_all ::
  "entity_type \<times> uid \<Rightarrow> entity_type \<times> uid \<Rightarrow> rel_type \<Rightarrow> (time \<times> int \<times> uid option) list \<Rightarrow> db \<Rightarrow> db" where
  "observe_all src tgt rt [] d = d"
| "observe_all src tgt rt ((t, c, evid) # obs) d =
     observe_all src tgt rt obs (snd (observe src tgt rt c evid [] (d\<lparr>now := t\<rparr>)))"

abbreviation bumps :: "(time \<times> int \<times> uid option) list \<Rightarrow> relationship \<Rightarrow> relationship" where
  "bumps obs \<equiv> fold (\<lambda>(t, c, evid). bump_edge t (clamp 0 100 c) evid) obs"

lemma edge_between_key:
  "edge_between src tgt rt r \<longleftrightarrow> rel_key r = (fst src, snd src, fst tgt, snd tgt, rt)"
  by (auto simp: rel_key_def)

lemma observe_all_edges:
  assumes "edges_ok d" and "filter (edge_between src tgt rt) (relationships d) = [r]"
  shows "filter (edge_between src tgt rt) (relationships (observe_all src tgt rt obs d)) = [bumps obs r] \<and>
    filter (\<lambda>x. \<not> edge_between src tgt rt x) (relationships (observe_all src tgt rt obs d)) =
      filter (\<lambda>x. \<not> edge_between src tgt rt x) (relationships d)"
  using assms
proof (induction obs arbitrary: d r)
  case (Cons ob obs)
  obtain t c evid where ob: "ob = (t, c, evid)" by (cases ob)
  let ?d = "d\<lparr>now := t\<rparr>" and ?r = "bump_edge t (clamp 0 100 c) evid r"
  have ok: "edges_ok ?d" and one: "filter (edge_between src tgt rt) (relationships ?d) = [r]"
    using Cons.prems by (simp_all add: edges_ok_def)
  from filter_single [OF one] have r: "r \<in> set (relationships ?d)" "edge_between src tgt rt r" by blast+
  then have r': "edge_between src tgt rt ?r" unfolding edge_between_key bump_edge_fields by blast
  have run: "snd (observe src tgt rt c evid [] ?d) = put_edge ?r ?d"
    by (simp add: observe_again [OF ok one])
  have "filter (edge_between src tgt rt) (relationships (put_edge ?r ?d)) = [?r]"
    unfolding put_edge_edges [OF ok r(1) bump_edge_fields(1)] by (rule filter_replace [OF one r'])
  moreover have "filter (\<lambda>x. \<not> edge_between src tgt rt x) (relationships (put_edge ?r ?d)) =
      filter (\<lambda>x. \<not> edge_between src tgt rt x) (relationships ?d)"
    unfolding put_edge_edges [OF ok r(1) bump_edge_fields(1)] by (rule filter_replace_other) (simp_all only: r(2) r' simp_thms)
  moreover have "edges_ok (put_edge ?r ?d)" by (rule edges_ok_put [OF ok r(1)]) simp_all
  moreover have "observe_all src tgt rt (ob # obs) d = observe_all src tgt rt obs (put_edge ?r ?d)"
    by (simp add: ob run)
  moreover have "bumps (ob # obs) r = bumps obs ?r" by (simp add: ob)
  ultimately show ?case using Cons.IH [of "put_edge ?r ?d" ?r] by simp
qed simp

lemma bumps_fields:
  "rel_observation_count (bumps obs r) = rel_observation_count r + length obs"
  "rel_first_seen (bumps obs r) = rel_first_seen r"
  "rel_last_seen (bumps obs r) = (if obs = [] then rel_last_seen r else fst (last obs))"
  "rel_evidence_id (bumps obs r) = hd (filter (\<lambda>e. e \<noteq> None) (rel_evidence_id r # map (snd \<circ> snd) obs) @ [None])"
  by (induction obs arbitrary: r) auto

lemma bumps_confidence:
  "rel_confidence (bumps obs r) = Max (insert (rel_confidence r) ((\<lambda>(t, c, evid). clamp 0 100 c) ` set obs))"
proof (induction obs arbitrary: r)
  case (Cons ob obs)
  obtain t c evid where ob: "ob = (t, c, evid)" by (cases ob)
  have "Max (insert (max a b) S) = Max (insert a (insert b S))" if "finite S" for a b :: int and S
    using that by (cases "S = {}") (simp_all add: max.assoc)
  then show ?case by (simp add: ob Cons.IH)
qed simp

text \<open>
  C18. Observing an edge again and again never duplicates it: after a history of observations
  there is one such edge, it was first seen at the first of them and last seen at the last, its
  count is their number, its confidence the highest clamped one ever given, its evidence the
  first one given; all other edges are as they were.
\<close>

theorem observe_accumulates:
  assumes "edges_ok d" and "\<forall>r \<in> set (relationships d). \<not> edge_between src tgt rt r"
    and "obs \<noteq> []"
  shows "\<exists>r. filter (edge_between src tgt rt) (relationships (observe_all src tgt rt obs d)) = [r] \<and>
    rel_observation_count r = length obs \<and>
    rel_first_seen r = fst (hd obs) \<and> rel_last_seen r = fst (last obs) \<and>
    rel_confidence r = Max ((\<lambda>(t, c, evid). clamp 0 100 c) ` set obs) \<and>
    rel_evidence_id r = hd (filter (\<lambda>e. e \<noteq> None) (map (snd \<circ> snd) obs) @ [None]) \<and>
    filter (\<lambda>x. \<not> edge_between src tgt rt x) (relationships (observe_all src tgt rt obs d)) = relationships d"
proof -
  obtain t c evid obs' where obs: "obs = (t, c, evid) # obs'"
    using assms(3) by (cases obs) auto
  let ?d = "d\<lparr>now := t\<rparr>"
  have ok: "edges_ok ?d" and none: "filter (edge_between src tgt rt) (relationships ?d) = []"
    and all: "filter (\<lambda>x. \<not> edge_between src tgt rt x) (relationships d) = relationships d"
    using assms(1,2) by (auto simp: edges_ok_def filter_empty_conv)
  from observe_first [OF ok none, of c evid "[]"] obtain r d' where
    run: "observe src tgt rt c evid [] ?d = (Inr (r, True), d')" "relationships d' = relationships d @ [r]"
    and r: "edge_between src tgt rt r" "rel_confidence r = clamp 0 100 c" "rel_observation_count r = 1"
      "rel_first_seen r = t" "rel_last_seen r = t" "rel_evidence_id r = evid" by auto
  have ok': "edges_ok d'" using observe_edges_ok [OF ok, of src tgt rt c evid "[]"] run(1) by simp
  have one: "filter (edge_between src tgt rt) (relationships d') = [r]" using run(2) r(1) none by simp
  from observe_all_edges [OF ok' one, of obs'] run(2) r(1) all show ?thesis
    by (auto simp: obs run(1) bumps_fields bumps_confidence r)
qed

theorem observe_accumulates_witness:
  "\<exists>r. filter (edge_between (E_TARGET, 0) (E_USERNAME, 1) TARGET_HAS_USERNAME)
         (relationships (observe_all (E_TARGET, 0) (E_USERNAME, 1) TARGET_HAS_USERNAME
            [(5, 60, None), (7, 120, Some 4), (9, 10, Some 3)] empty_db)) = [r] \<and>
       rel_observation_count r = 3 \<and> rel_first_seen r = 5 \<and> rel_last_seen r = 9 \<and> rel_confidence r = 100 \<and>
       rel_evidence_id r = Some 4"
proof -
  have "edges_ok empty_db" by (simp add: edges_ok_def uq_relationship_def ids_ok_def empty_db_def)
  moreover have "relationships empty_db = []" by (simp add: empty_db_def)
  ultimately show ?thesis
    using observe_accumulates [of empty_db "(E_TARGET, 0)" "(E_USERNAME, 1)" TARGET_HAS_USERNAME
        "[(5, 60, None), (7, 120, Some 4), (9, 10, Some 3)]"]
    by (auto simp: clamp_def)
qed

end
