(* ===== verification/Resolution.thy ===== *)
theory Resolution
  imports Evidence
begin

text \<open>
  \<open>intelligence/entity_resolution/resolver.py\<close>: linking a user's target to the graph
  (\<open>TargetResolver\<close>) and merging two entities (\<open>merge_entities\<close>), and the invariant of the
  observation tables over every operation that writes them.
\<close>

section \<open>TargetResolver\<close>

record resolution_result =
  rr_linked :: "(entity_type \<times> uid) list"
  rr_created_edges :: nat
  rr_notes :: "string list"

definition rel_type_for :: "entity_type \<Rightarrow> rel_type option" where
  "rel_type_for et =
     (if et = E_TELEGRAM_ACCOUNT \<or> et = E_EXTERNAL_ACCOUNT then Some TARGET_IS_ACCOUNT
      else if et = E_USERNAME then Some TARGET_HAS_USERNAME else None)"

definition entity_ref :: "entity_type \<times> uid \<Rightarrow> string" where
  "entity_ref e = entity_value (fst e) @ '':'' @ uid_text (snd e)"

definition link ::
  "(string \<Rightarrow> string) \<Rightarrow> (json \<Rightarrow> string) \<Rightarrow> uid \<Rightarrow> entity_type \<times> uid \<Rightarrow> rel_type option \<Rightarrow> int \<Rightarrow> (db, bool) action" where
  "link sha dumps target e given confidence =
     (case (case given of Some rt \<Rightarrow> Some rt | None \<Rightarrow> rel_type_for (fst e)) of
        None \<Rightarrow> ret False
      | Some rt \<Rightarrow>
          bnd (observe (E_TARGET, target) e rt confidence None []) (\<lambda>(_, created).
          bnd (record_evidence sha dumps E_TARGET target
                 \<lparr>ei_field = Some ''resolution'',
                  ei_value = JObj [(''linked'', JStr (entity_ref e)), (''via'', JStr (rel_value rt))],
                  ei_source = ''intelligence'', ei_source_type = ''entity_resolution'', ei_reference = None,
                  ei_raw_content = None, ei_content_hash = None, ei_observed_at = None,
                  ei_method = Some ''target_resolver'', ei_confidence = confidence, ei_metadata = []\<rparr>) (\<lambda>_.
          ret created)))"

text \<open>\<open>if self.link(...): created_edges += 1; linked.append(...)\<close>\<close>

definition link_into ::
  "(string \<Rightarrow> string) \<Rightarrow> (json \<Rightarrow> string) \<Rightarrow> uid \<Rightarrow> int \<Rightarrow> entity_type \<times> uid \<Rightarrow> resolution_result \<Rightarrow>
   (db, resolution_result) action" where
  "link_into sha dumps target confidence e res =
     bnd (link sha dumps target e None confidence) (\<lambda>created.
     ret (res\<lparr>rr_created_edges := (if created then Suc (rr_created_edges res) else rr_created_edges res),
              rr_linked := rr_linked res @ [e]\<rparr>))"

fun link_all ::
  "(string \<Rightarrow> string) \<Rightarrow> (json \<Rightarrow> string) \<Rightarrow> uid \<Rightarrow> int \<Rightarrow> (entity_type \<times> uid) list \<Rightarrow> resolution_result \<Rightarrow>
   (db, resolution_result) action" where
  "link_all sha dumps target confidence [] res = ret res"
| "link_all sha dumps target confidence (e # es) res =
     bnd (link_into sha dumps target confidence e res) (link_all sha dumps target confidence es)"

definition resolve_telegram ::
  "(string \<Rightarrow> string) \<Rightarrow> (json \<Rightarrow> string) \<Rightarrow> target \<Rightarrow> resolution_result \<Rightarrow> (db, resolution_result) action" where
  "resolve_telegram sha dumps t res d =
     bnd (if tg_kind t = K_TELEGRAM_ID \<and> isdigit (lstrip_by (\<lambda>c. c = CHR ''-'') (tg_value t))
          then bnd (liftE (int_of_str (tg_value t))) (\<lambda>i d.
                 (scalar_one_or_none (\<lambda>r. ta_telegram_id r = Some i) (telegram_accounts d), d))
          else ret None) (\<lambda>obj.
     bnd (case obj of
            Some r \<Rightarrow> ret (Some r)
          | None \<Rightarrow> bnd (liftE (normalize_username (tg_norm t))) (\<lambda>n d.
                 (scalar_one_or_none (\<lambda>r. ta_username_norm r = Some n) (telegram_accounts d), d))) (\<lambda>obj.
     case obj of
       None \<Rightarrow> ret (res\<lparr>rr_notes := rr_notes res @ [''no telegram account collected for this target yet'']\<rparr>)
     | Some r \<Rightarrow> link_into sha dumps (tg_id t) 75 (E_TELEGRAM_ACCOUNT, ta_id r) res)) d"

definition resolve_username ::
  "(string \<Rightarrow> string) \<Rightarrow> (json \<Rightarrow> string) \<Rightarrow> target \<Rightarrow> resolution_result \<Rightarrow> (db, resolution_result) action" where
  "resolve_username sha dumps t res =
     bnd (liftE (normalize_username (tg_norm t))) (\<lambda>handle.
     bnd (username_get_or_create ''generic'' handle) (\<lambda>(uname, _).
     bnd (link_into sha dumps (tg_id t) 60 (E_USERNAME, un_id uname) res) (\<lambda>res d.
       (let tg = filter (\<lambda>r. ta_username_norm r = Some handle) (telegram_accounts d);
            ext = filter (\<lambda>r. ea_norm r = handle) (external_accounts d)
        in bnd (link_all sha dumps (tg_id t) 55 (map (\<lambda>r. (E_TELEGRAM_ACCOUNT, ta_id r)) tg) res)
             (link_all sha dumps (tg_id t) 55 (map (\<lambda>r. (E_EXTERNAL_ACCOUNT, ea_id r)) ext)) d))))"

definition resolve ::
  "(string \<Rightarrow> string) \<Rightarrow> (json \<Rightarrow> string) \<Rightarrow> target \<Rightarrow> (db, resolution_result) action" where
  "resolve sha dumps t =
     (let res = \<lparr>rr_linked = [], rr_created_edges = 0, rr_notes = []\<rparr> in
      if tg_kind t = K_TELEGRAM_USER \<or> tg_kind t = K_TELEGRAM_ID then resolve_telegram sha dumps t res
      else if tg_kind t = K_USERNAME then resolve_username sha dumps t res
      else if tg_kind t = K_GENERIC
      then bnd (resolve_telegram sha dumps t res) (resolve_username sha dumps t)
      else ret (res\<lparr>rr_notes := [''no resolver for target kind'']\<rparr>))"

definition resolved_entities :: "uid \<Rightarrow> db \<Rightarrow> (entity_type \<times> uid) list" where
  "resolved_entities target d =
     map (\<lambda>r. (rel_target_type r, rel_target_id r))
       (filter (\<lambda>r. rel_source_type r = E_TARGET \<and> rel_source_id r = target \<and>
                    rel_ty r \<in> {TARGET_IS_ACCOUNT, TARGET_HAS_USERNAME}) (relationships d))"

section \<open>Merging two entities\<close>

record merge_result =
  mr_relationships :: nat
  mr_messages :: nat
  mr_evidence :: nat

definition repoint :: "entity_type \<times> uid \<Rightarrow> entity_type \<times> uid \<Rightarrow> entity_type \<times> uid \<Rightarrow> entity_type \<times> uid" where
  "repoint keep dropped e = (if e = dropped then keep else e)"

abbreviation edge_source :: "relationship \<Rightarrow> entity_type \<times> uid" where
  "edge_source r \<equiv> (rel_source_type r, rel_source_id r)"

abbreviation edge_target :: "relationship \<Rightarrow> entity_type \<times> uid" where
  "edge_target r \<equiv> (rel_target_type r, rel_target_id r)"

definition delete_edge :: "uid \<Rightarrow> db \<Rightarrow> db" where
  "delete_edge i d = d\<lparr>relationships := filter (\<lambda>r. rel_id r \<noteq> i) (relationships d)\<rparr>"

fun merge_edges ::
  "entity_type \<times> uid \<Rightarrow> entity_type \<times> uid \<Rightarrow> relationship list \<Rightarrow> (db, unit) action" where
  "merge_edges keep dropped [] d = (Inr (), d)"
| "merge_edges keep dropped (rel # rels) d =
     (let s = repoint keep dropped (edge_source rel); t = repoint keep dropped (edge_target rel);
          d1 = delete_edge (rel_id rel) d
      in if s = t then merge_edges keep dropped rels d1
         else (case observe s t (rel_ty rel) (rel_confidence rel) None [] d1 of
                 (Inl e, d2) \<Rightarrow> (Inl e, d2)
               | (Inr _, d2) \<Rightarrow> merge_edges keep dropped rels d2))"

definition merge_messages :: "entity_type \<times> uid \<Rightarrow> entity_type \<times> uid \<Rightarrow> (db, nat) action" where
  "merge_messages keep dropped d =
     (let in_dropped = (\<lambda>m. (ms_source_type m, ms_source_id m) = dropped);
          by_dropped = (\<lambda>m. ms_author_account_id m = Some (snd dropped));
          sourced = update_where in_dropped (\<lambda>m. m\<lparr>ms_source_type := fst keep, ms_source_id := snd keep\<rparr>) (messages d);
          authored = update_where by_dropped (\<lambda>m. m\<lparr>ms_author_account_id := Some (snd keep)\<rparr>) sourced
      in if \<not> uq_message sourced then (Inl (IntegrityError ''unique constraint failed''), d)
         else (Inr (length (filter in_dropped (messages d)) + length (filter by_dropped sourced)),
               d\<lparr>messages := authored\<rparr>))"

definition repoint_evidence :: "entity_type \<times> uid \<Rightarrow> entity_type \<times> uid \<Rightarrow> evidence list \<Rightarrow> evidence list" where
  "repoint_evidence keep dropped =
     update_where (\<lambda>r. (ev_entity_type r, ev_entity_id r) = dropped)
       (\<lambda>r. r\<lparr>ev_entity_id := snd keep, ev_entity_type := fst keep\<rparr>)"

definition merge_entities ::
  "entity_type \<times> uid \<Rightarrow> entity_type \<times> uid \<Rightarrow> (db, merge_result) action" where
  "merge_entities keep dropped d =
     (if fst keep \<noteq> fst dropped then (Inl (ValueError ''cannot merge entities of different types''), d)
      else if snd keep = snd dropped then (Inl (ValueError ''keep and drop are the same entity''), d)
      else (let rels = filter (\<lambda>r. edge_source r = dropped \<or> edge_target r = dropped) (relationships d);
                ev_rows = filter (\<lambda>r. (ev_entity_type r, ev_entity_id r) = dropped) (evidences d)
            in bnd (merge_edges keep dropped rels) (\<lambda>_.
               bnd (merge_messages keep dropped) (\<lambda>n.
               bnd (\<lambda>d. flush_evidence True (repoint_evidence keep dropped (evidences d)) d) (\<lambda>_.
               ret \<lparr>mr_relationships = length rels, mr_messages = n, mr_evidence = length ev_rows\<rparr>))) d))"

section \<open>Lemmas\<close>

lemma put_edge_frame [simp]:
  "evidences (put_edge r d) = evidences d" "messages (put_edge r d) = messages d" "next_id (put_edge r d) = next_id d"
  by (simp_all add: put_edge_def)

lemma delete_edge_frame [simp]:
  "evidences (delete_edge i d) = evidences d" "messages (delete_edge i d) = messages d"
  "next_id (delete_edge i d) = next_id d" "set (relationships (delete_edge i d)) = {r \<in> set (relationships d). rel_id r \<noteq> i}"
  by (simp_all add: delete_edge_def)

lemma delete_edge_ok: "edges_ok d \<Longrightarrow> edges_ok (delete_edge i d)"
  by (auto simp: edges_ok_def uq_relationship_def ids_ok_def delete_edge_def distinct_map_filter)

lemma delete_edge_only:
  "edges_ok d \<Longrightarrow> r \<in> set (relationships d) \<Longrightarrow> set (relationships (delete_edge (rel_id r) d)) = set (relationships d) - {r}"
  by (auto simp: edges_ok_def ids_ok_def distinct_map inj_on_def)

text \<open>Everything a merge relies on of one observation.\<close>

lemma observe_spec:
  assumes ok: "edges_ok d"
  shows "\<exists>r d'. observe s t rt c evid md d = (Inr r, d') \<and> edges_ok d' \<and>
    evidences d' = evidences d \<and> messages d' = messages d \<and> next_id d \<le> next_id d' \<and>
    (\<forall>x. \<not> edge_between s t rt x \<longrightarrow> (x \<in> set (relationships d') \<longleftrightarrow> x \<in> set (relationships d))) \<and>
    (\<exists>x \<in> set (relationships d'). edge_between s t rt x \<and> clamp 0 100 c \<le> rel_confidence x \<and>
       (\<forall>y \<in> set (relationships d). edge_between s t rt y \<longrightarrow> rel_confidence y \<le> rel_confidence x) \<and>
       ((\<forall>y \<in> set (relationships d). 0 \<le> rel_confidence y \<and> rel_confidence y \<le> 100) \<longrightarrow>
          0 \<le> rel_confidence x \<and> rel_confidence x \<le> 100))"
proof (cases rule: filter_edge_cases [of "relationships d" s t rt])
  show "uq_relationship (relationships d)" using ok by (simp add: edges_ok_def)
next
  assume none: "filter (edge_between s t rt) (relationships d) = []"
  from observe_first [OF ok none, of c evid md] obtain r where
    run: "observe s t rt c evid md d = (Inr (r, True), d\<lparr>relationships := relationships d @ [r], next_id := Suc (next_id d)\<rparr>)"
    and r: "edge_between s t rt r" "rel_confidence r = clamp 0 100 c" by auto
  with none observe_edges_ok [OF ok, of s t rt c evid md] show ?thesis
    by (auto simp: filter_empty_conv)
next
  fix r
  assume one: "filter (edge_between s t rt) (relationships d) = [r]"
  let ?r = "bump_edge (now d) (clamp 0 100 c) evid r"
  from filter_single [OF one] have r: "r \<in> set (relationships d)" "edge_between s t rt r" by blast+
  have only: "y = r" if "y \<in> set (relationships d)" "edge_between s t rt y" for y
  proof -
    have "y \<in> set (filter (edge_between s t rt) (relationships d))" using that by simp
    then show ?thesis unfolding one by simp
  qed
  have r': "edge_between s t rt ?r" using r(2) unfolding edge_between_key bump_edge_fields by blast
  have rows: "set (relationships (put_edge ?r d)) = insert ?r (set (relationships d) - {r})"
    unfolding put_edge_edges [OF ok r(1) bump_edge_fields(1)] using r(1) by auto
  have "edges_ok (put_edge ?r d)" by (rule edges_ok_put [OF ok r(1)]) simp_all
  moreover have "\<forall>x. \<not> edge_between s t rt x \<longrightarrow> (x \<in> set (relationships (put_edge ?r d)) \<longleftrightarrow> x \<in> set (relationships d))"
    unfolding rows using r(2) r' by blast
  moreover have "\<forall>y \<in> set (relationships d). edge_between s t rt y \<longrightarrow> rel_confidence y \<le> rel_confidence ?r"
    using only by fastforce
  ultimately show ?thesis
    using r' r(1) by (auto simp: observe_again [OF ok one] rows intro!: bexI [of _ ?r])
qed

lemma repoint_idem [simp]: "repoint k d (repoint k d e) = repoint k d e"
  by (simp add: repoint_def)

lemma repoint_not_dropped: "k \<noteq> d \<Longrightarrow> repoint k d e \<noteq> d"
  by (simp add: repoint_def)

text \<open>Some edge from \<open>s\<close> to \<open>t\<close> of the type carries at least that confidence.\<close>

definition covered :: "entity_type \<times> uid \<Rightarrow> entity_type \<times> uid \<Rightarrow> rel_type \<Rightarrow> int \<Rightarrow> db \<Rightarrow> bool" where
  "covered s t rt c d \<longleftrightarrow> (\<exists>r \<in> set (relationships d). edge_source r = s \<and> edge_target r = t \<and> rel_ty r = rt \<and> c \<le> rel_confidence r)"

definition touches :: "entity_type \<times> uid \<Rightarrow> relationship \<Rightarrow> bool" where
  "touches e r \<longleftrightarrow> edge_source r = e \<or> edge_target r = e"

lemma edge_between_ends: "edge_between s t rt r \<longleftrightarrow> edge_source r = s \<and> edge_target r = t \<and> rel_ty r = rt"
  by (cases s; cases t) auto

text \<open>
  What a merge, or a part of it that processed the edges \<open>done\<close>, does to the edges: those edges are gone, whatever
  connected two other entities is still covered, each processed edge is covered between its
  repointed ends, and no edge appears that is not the repointing of an old one.
\<close>

definition confident :: "db \<Rightarrow> bool" where
  "confident d \<longleftrightarrow> (\<forall>r \<in> set (relationships d). 0 \<le> rel_confidence r \<and> rel_confidence r \<le> 100)"

definition same_ends :: "entity_type \<times> uid \<Rightarrow> entity_type \<times> uid \<Rightarrow> relationship \<Rightarrow> relationship \<Rightarrow> bool" where
  "same_ends keep dropped r' r \<longleftrightarrow> rel_ty r' = rel_ty r \<and>
     repoint keep dropped (edge_source r') = repoint keep dropped (edge_source r) \<and>
     repoint keep dropped (edge_target r') = repoint keep dropped (edge_target r)"

definition merged :: "entity_type \<times> uid \<Rightarrow> entity_type \<times> uid \<Rightarrow> relationship set \<Rightarrow> db \<Rightarrow> db \<Rightarrow> bool" where
  "merged keep dropped gone d d' \<longleftrightarrow>
     edges_ok d' \<and> evidences d' = evidences d \<and> messages d' = messages d \<and> next_id d \<le> next_id d' \<and>
     (\<forall>x. touches dropped x \<longrightarrow> (x \<in> set (relationships d') \<longleftrightarrow> x \<in> set (relationships d) \<and> x \<notin> gone)) \<and>
     (\<forall>s t rt c. s \<noteq> dropped \<longrightarrow> t \<noteq> dropped \<longrightarrow> covered s t rt c d \<longrightarrow> covered s t rt c d') \<and>
     (\<forall>r \<in> gone. repoint keep dropped (edge_source r) \<noteq> repoint keep dropped (edge_target r) \<longrightarrow>
        covered (repoint keep dropped (edge_source r)) (repoint keep dropped (edge_target r)) (rel_ty r)
          (clamp 0 100 (rel_confidence r)) d') \<and>
     (\<forall>r' \<in> set (relationships d'). \<exists>r \<in> set (relationships d). same_ends keep dropped r' r) \<and>
     (confident d \<longrightarrow> confident d')"

lemma mergedI:
  assumes "edges_ok d'" "evidences d' = evidences d" "messages d' = messages d" "next_id d \<le> next_id d'"
    and "\<And>x. touches dropped x \<Longrightarrow> x \<in> set (relationships d') \<longleftrightarrow> x \<in> set (relationships d) \<and> x \<notin> gone"
    and "\<And>s t rt c. s \<noteq> dropped \<Longrightarrow> t \<noteq> dropped \<Longrightarrow> covered s t rt c d \<Longrightarrow> covered s t rt c d'"
    and "\<And>r. r \<in> gone \<Longrightarrow> repoint keep dropped (edge_source r) \<noteq> repoint keep dropped (edge_target r) \<Longrightarrow>
        covered (repoint keep dropped (edge_source r)) (repoint keep dropped (edge_target r)) (rel_ty r)
          (clamp 0 100 (rel_confidence r)) d'"
    and "\<And>r'. r' \<in> set (relationships d') \<Longrightarrow> \<exists>r \<in> set (relationships d). same_ends keep dropped r' r"
    and "confident d \<Longrightarrow> confident d'"
  shows "merged keep dropped gone d d'"
  unfolding merged_def by (intro conjI allI ballI impI) (fact assms | erule (1) assms | erule (2) assms)+

lemma mergedD:
  assumes "merged keep dropped gone d d'"
  shows "edges_ok d'" "evidences d' = evidences d" "messages d' = messages d" "next_id d \<le> next_id d'"
    and "touches dropped x \<Longrightarrow> x \<in> set (relationships d') \<longleftrightarrow> x \<in> set (relationships d) \<and> x \<notin> gone"
    and "s \<noteq> dropped \<Longrightarrow> t \<noteq> dropped \<Longrightarrow> covered s t rt c d \<Longrightarrow> covered s t rt c d'"
    and "r \<in> gone \<Longrightarrow> repoint keep dropped (edge_source r) \<noteq> repoint keep dropped (edge_target r) \<Longrightarrow>
        covered (repoint keep dropped (edge_source r)) (repoint keep dropped (edge_target r)) (rel_ty r)
          (clamp 0 100 (rel_confidence r)) d'"
    and "r' \<in> set (relationships d') \<Longrightarrow> \<exists>r \<in> set (relationships d). same_ends keep dropped r' r"
    and "confident d \<Longrightarrow> confident d'"
  using assms unfolding merged_def by blast+

lemma merged_refl: "edges_ok d \<Longrightarrow> merged keep dropped {} d d"
  by (rule mergedI) (auto simp: same_ends_def)

lemma merged_trans:
  assumes a: "merged keep dropped A d1 d2" and b: "merged keep dropped B d2 d3" and ne: "keep \<noteq> dropped"
  shows "merged keep dropped (A \<union> B) d1 d3"
proof (rule mergedI)
  note a' = mergedD [OF a] and b' = mergedD [OF b]
  show "edges_ok d3" by (rule b')
  show "evidences d3 = evidences d1" "messages d3 = messages d1" "next_id d1 \<le> next_id d3"
    using a'(2-4) b'(2-4) by simp_all
  show "x \<in> set (relationships d3) \<longleftrightarrow> x \<in> set (relationships d1) \<and> x \<notin> A \<union> B" if "touches dropped x" for x
    using a'(5) [OF that] b'(5) [OF that] by simp
  show "covered s t rt c d3" if "s \<noteq> dropped" "t \<noteq> dropped" "covered s t rt c d1" for s t rt c
    using a'(6) [OF that] by (rule b'(6) [OF that(1,2)])
  show "covered (repoint keep dropped (edge_source r)) (repoint keep dropped (edge_target r)) (rel_ty r)
          (clamp 0 100 (rel_confidence r)) d3"
    if r: "r \<in> A \<union> B" "repoint keep dropped (edge_source r) \<noteq> repoint keep dropped (edge_target r)" for r
  proof (cases "r \<in> A")
    case True
    show ?thesis by (rule b'(6) [OF repoint_not_dropped [OF ne] repoint_not_dropped [OF ne] a'(7) [OF True r(2)]])
  next
    case False with r show ?thesis by (intro b'(7)) simp_all
  qed
  show "\<exists>r \<in> set (relationships d1). same_ends keep dropped r' r"
    if "r' \<in> set (relationships d3)" for r'
    using b'(8) [OF that] a'(8) by (fastforce simp: same_ends_def)
  show "confident d3" if "confident d1"
    by (rule b'(9) [OF a'(9) [OF that]])
qed

text \<open>One edge: deleted, then observed between its repointed ends.\<close>

lemma merge_edge_delete:
  assumes ok: "edges_ok d" and r: "r \<in> set (relationships d)" "touches dropped r"
    and loop: "repoint keep dropped (edge_source r) = repoint keep dropped (edge_target r)"
  shows "merged keep dropped {r} d (delete_edge (rel_id r) d)"
proof -
  note rows = delete_edge_only [OF ok r(1)]
  have "covered s t rt c (delete_edge (rel_id r) d)"
    if "s \<noteq> dropped" "t \<noteq> dropped" "covered s t rt c d" for s t rt c
    using that r(2) unfolding covered_def rows touches_def by blast
  then show ?thesis
    by (intro mergedI) (use ok delete_edge_ok loop rows in \<open>auto simp: same_ends_def confident_def\<close>)
qed

lemma merge_edge_observe:
  assumes ok: "edges_ok d" and ne: "keep \<noteq> dropped" and r: "r \<in> set (relationships d)" "touches dropped r"
    and run: "observe (repoint keep dropped (edge_source r)) (repoint keep dropped (edge_target r)) (rel_ty r)
        (rel_confidence r) None [] (delete_edge (rel_id r) d) = (res, d')"
  shows "(\<exists>x. res = Inr x) \<and> merged keep dropped {r} d d'"
proof -
  let ?s = "repoint keep dropped (edge_source r)" and ?t = "repoint keep dropped (edge_target r)"
  note rows = delete_edge_only [OF ok r(1)]
  from observe_spec [OF delete_edge_ok [OF ok], of ?s ?t "rel_ty r" "rel_confidence r" None "[]" "rel_id r"] run
  obtain x where "\<exists>x. res = Inr x" and ok': "edges_ok d'" and frame: "evidences d' = evidences d" "messages d' = messages d" "next_id d \<le> next_id d'"
    and other: "\<forall>y. \<not> edge_between ?s ?t (rel_ty r) y \<longrightarrow>
      (y \<in> set (relationships d') \<longleftrightarrow> y \<in> set (relationships d) - {r})"
    and x: "x \<in> set (relationships d')" "edge_between ?s ?t (rel_ty r) x" "clamp 0 100 (rel_confidence r) \<le> rel_confidence x"
      "\<forall>y \<in> set (relationships d) - {r}. edge_between ?s ?t (rel_ty r) y \<longrightarrow> rel_confidence y \<le> rel_confidence x"
      "(\<forall>y \<in> set (relationships d) - {r}. 0 \<le> rel_confidence y \<and> rel_confidence y \<le> 100) \<longrightarrow> 0 \<le> rel_confidence x \<and> rel_confidence x \<le> 100"
    unfolding rows by (auto simp only: prod.inject delete_edge_frame(1-3))
  have one: "y = x" if "y \<in> set (relationships d')" "edge_between ?s ?t (rel_ty r) y" for y
  proof -
    have "rel_key y = rel_key x" using that(2) x(2) unfolding edge_between_key by simp
    with that(1) x(1) ok' show ?thesis by (auto simp: edges_ok_def uq_relationship_def distinct_map inj_on_def)
  qed
  have untouched: "\<not> edge_between ?s ?t (rel_ty r) y" if "touches dropped y" for y
    using that repoint_not_dropped [OF ne, of "edge_source r"] repoint_not_dropped [OF ne, of "edge_target r"]
    unfolding touches_def edge_between_ends by metis
  have "covered s t rt c d'" if "s \<noteq> dropped" "t \<noteq> dropped" "covered s t rt c d" for s t rt c
  proof -
    from that obtain y where y: "y \<in> set (relationships d) - {r}" "edge_source y = s" "edge_target y = t" "rel_ty y = rt"
        "c \<le> rel_confidence y" using r(2) unfolding covered_def touches_def by blast
    show ?thesis
    proof (cases "edge_between ?s ?t (rel_ty r) y")
      case True
      then have "rel_confidence y \<le> rel_confidence x" using x(4) y(1) by blast
      moreover have "edge_source x = s" "edge_target x = t" "rel_ty x = rt"
        using x(2) y(2-4) True unfolding edge_between_ends by simp_all
      ultimately show ?thesis using x(1) y(5) unfolding covered_def by force
    next
      case False with y other show ?thesis unfolding covered_def by blast
    qed
  qed
  moreover have "covered ?s ?t (rel_ty r) (clamp 0 100 (rel_confidence r)) d'"
    using x(1-3) unfolding covered_def edge_between_ends by blast
  moreover have "\<exists>r0 \<in> set (relationships d). same_ends keep dropped y r0"
    if y: "y \<in> set (relationships d')" for y
  proof (cases "edge_between ?s ?t (rel_ty r) y")
    case True
    then have "edge_source y = ?s" "edge_target y = ?t" "rel_ty y = rel_ty r" unfolding edge_between_ends by simp_all
    then show ?thesis using r(1) by (intro bexI [of _ r]) (simp_all add: same_ends_def)
  next
    case False with y other show ?thesis by (auto simp: same_ends_def)
  qed
  moreover have "x \<in> set (relationships d') \<longleftrightarrow> x \<in> set (relationships d) \<and> x \<notin> {r}" if "touches dropped x" for x
    using untouched [OF that] other by blast
  moreover have "confident d'" if "confident d"
    unfolding confident_def
  proof
    fix y assume y: "y \<in> set (relationships d')"
    have range: "\<forall>y \<in> set (relationships d) - {r}. 0 \<le> rel_confidence y \<and> rel_confidence y \<le> 100"
      using that by (simp add: confident_def)
    show "0 \<le> rel_confidence y \<and> rel_confidence y \<le> 100"
    proof (cases "edge_between ?s ?t (rel_ty r) y")
      case True
      with one [OF y] x(5) range show ?thesis by blast
    next
      case False with other y range show ?thesis by blast
    qed
  qed
  ultimately have "merged keep dropped {r} d d'"
    by (intro mergedI) (use ok' frame in blast)+
  with \<open>\<exists>x. res = Inr x\<close> show ?thesis by blast
qed

text \<open>The loop: it never raises, and it merges exactly the given edges.\<close>

lemma merge_edges_merged:
  assumes ne: "keep \<noteq> dropped"
  shows "edges_ok d \<Longrightarrow> set rels \<subseteq> set (relationships d) \<Longrightarrow> distinct rels \<Longrightarrow> \<forall>r \<in> set rels. touches dropped r \<Longrightarrow>
    \<exists>d'. merge_edges keep dropped rels d = (Inr (), d') \<and> merged keep dropped (set rels) d d'"
proof (induction rels arbitrary: d)
  case Nil then show ?case by (auto intro: merged_refl)
next
  case (Cons r rels)
  let ?s = "repoint keep dropped (edge_source r)" and ?t = "repoint keep dropped (edge_target r)"
  have "\<exists>d1. merge_edges keep dropped (r # rels) d = merge_edges keep dropped rels d1 \<and> merged keep dropped {r} d d1"
  proof (cases "?s = ?t")
    case True
    with merge_edge_delete [of d r dropped keep] Cons.prems show ?thesis by (auto simp: Let_def)
  next
    case False
    obtain res d1 where run: "observe ?s ?t (rel_ty r) (rel_confidence r) None [] (delete_edge (rel_id r) d) = (res, d1)"
      by fastforce
    from merge_edge_observe [OF _ ne _ _ run] Cons.prems False run show ?thesis by (auto simp: Let_def)
  qed
  then obtain d1 where run: "merge_edges keep dropped (r # rels) d = merge_edges keep dropped rels d1"
    and m1: "merged keep dropped {r} d d1" by blast
  have "set rels \<subseteq> set (relationships d1)"
    using mergedD(5) [OF m1] Cons.prems by auto
  then obtain d2 where "merge_edges keep dropped rels d1 = (Inr (), d2)" "merged keep dropped (set rels) d1 d2"
    using Cons.IH [of d1] Cons.prems mergedD(1) [OF m1] by auto
  with run merged_trans [OF m1 _ ne, of "set rels" d2] show ?case by auto
qed

lemma repoint_rows [simp]:
  "map ev_id (repoint_evidence keep dropped es) = map ev_id es"
  by (simp add: repoint_evidence_def map_update_where)

lemma repoint_row:
  assumes "r \<in> set es"
  shows "\<exists>r' \<in> set (repoint_evidence keep dropped es). ev_id r' = ev_id r \<and> repointed_only r r'"
proof -
  from assms have "(if (ev_entity_type r, ev_entity_id r) = dropped
      then r\<lparr>ev_entity_id := snd keep, ev_entity_type := fst keep\<rparr> else r) \<in> set (repoint_evidence keep dropped es)"
    unfolding repoint_evidence_def set_update_where by (rule imageI)
  then show ?thesis by (rule rev_bexI) (simp add: repointed_only_def)
qed

lemma repoint_guard:
  assumes "distinct (map ev_id es)"
  shows "block_evidence_mutation True es (repoint_evidence keep dropped es) = Inr ()"
proof (rule guard_passes)
  show "distinct (map ev_id (repoint_evidence keep dropped es))" using assms by simp
qed (use repoint_row in blast)

text \<open>The parts of a merge, one after the other.\<close>

lemma merge_messages_frame:
  "merge_messages keep dropped d = (x, d') \<Longrightarrow>
   evidences d' = evidences d \<and> relationships d' = relationships d \<and> next_id d' = next_id d"
  by (auto simp: merge_messages_def Let_def split: if_splits)

definition merge_rest ::
  "entity_type \<times> uid \<Rightarrow> entity_type \<times> uid \<Rightarrow> db \<Rightarrow> (db, merge_result) action" where
  "merge_rest keep dropped d d1 =
      (case merge_messages keep dropped d1 of
         (Inl e, d2) \<Rightarrow> (Inl e, d2)
       | (Inr n, d2) \<Rightarrow>
           if uq_evidence (repoint_evidence keep dropped (evidences d))
           then (Inr \<lparr>mr_relationships = length (filter (touches dropped) (relationships d)), mr_messages = n,
                      mr_evidence = length (filter (\<lambda>r. (ev_entity_type r, ev_entity_id r) = dropped) (evidences d))\<rparr>,
                 d2\<lparr>evidences := repoint_evidence keep dropped (evidences d)\<rparr>)
           else (Inl (IntegrityError ''unique constraint failed''), d2))"

lemma merge_entities_run:
  assumes ok: "edges_ok d" and ids: "distinct (map ev_id (evidences d))"
    and same: "fst keep = fst dropped" and diff: "snd keep \<noteq> snd dropped"
  shows "\<exists>d1. merged keep dropped {r \<in> set (relationships d). touches dropped r} d d1 \<and>
    merge_entities keep dropped d = merge_rest keep dropped d d1"
proof -
  let ?rels = "filter (touches dropped) (relationships d)"
  let ?rest = "\<lambda>n. bnd (\<lambda>d. flush_evidence True (repoint_evidence keep dropped (evidences d)) d) (\<lambda>_.
      ret \<lparr>mr_relationships = length ?rels, mr_messages = n,
           mr_evidence = length (filter (\<lambda>r. (ev_entity_type r, ev_entity_id r) = dropped) (evidences d))\<rparr>)"
  have ne: "keep \<noteq> dropped" using diff by auto
  have "distinct (relationships d)" using ok by (auto simp: edges_ok_def ids_ok_def distinct_map)
  then have "\<exists>d1. merge_edges keep dropped ?rels d = (Inr (), d1) \<and> merged keep dropped (set ?rels) d d1"
    by (intro merge_edges_merged [OF ne ok]) auto
  then obtain d1 where
    run: "merge_edges keep dropped ?rels d = (Inr (), d1)" and m: "merged keep dropped (set ?rels) d d1" by blast
  have ev: "evidences d1 = evidences d" by (rule mergedD(2) [OF m])
  have "merge_entities keep dropped d = bnd (merge_messages keep dropped) ?rest d1"
  proof -
    have f: "filter (\<lambda>r. edge_source r = dropped \<or> edge_target r = dropped) (relationships d) = ?rels"
      by (simp add: touches_def [abs_def])
    show ?thesis
      unfolding merge_entities_def Let_def f bnd_Inr [of "merge_edges keep dropped ?rels", OF run]
      by (simp only: same diff refl not_True_eq_False not_False_eq_True if_False simp_thms)
  qed
  also have "\<dots> = merge_rest keep dropped d d1"
  proof (cases "merge_messages keep dropped d1")
    case (Pair x d2)
    show ?thesis
    proof (cases x)
      case (Inl e) with Pair show ?thesis by (simp add: merge_rest_def)
    next
      case (Inr n)
      with Pair have "evidences d2 = evidences d1"
        by (auto dest: merge_messages_frame)
      with ev have e2: "evidences d2 = evidences d" by simp
      have "flush_evidence True (repoint_evidence keep dropped (evidences d2)) d2 =
          (if uq_evidence (repoint_evidence keep dropped (evidences d))
           then (Inr (), d2\<lparr>evidences := repoint_evidence keep dropped (evidences d)\<rparr>)
           else (Inl (IntegrityError ''unique constraint failed''), d2))"
        by (simp add: flush_evidence_def e2 repoint_guard [OF ids])
      with Pair Inr show ?thesis by (simp add: merge_rest_def bnd_def)
    qed
  qed
  finally show ?thesis using m by auto
qed

lemma merge_messages_none_left:
  assumes run: "merge_messages keep dropped d = (Inr n, d')" and "fst keep = fst dropped" and ne: "snd keep \<noteq> snd dropped"
  shows "\<forall>m \<in> set (messages d'). (ms_source_type m, ms_source_id m) \<noteq> dropped \<and> ms_author_account_id m \<noteq> Some (snd dropped)"
    and "relationships d' = relationships d"
proof -
  define sourced where "sourced = update_where (\<lambda>m. (ms_source_type m, ms_source_id m) = dropped)
    (\<lambda>m. m\<lparr>ms_source_type := fst keep, ms_source_id := snd keep\<rparr>) (messages d)"
  have s: "(ms_source_type m, ms_source_id m) \<noteq> dropped" if "m \<in> set sourced" for m
    using that ne by (cases dropped) (auto simp: sourced_def set_update_where)
  have d': "d' = d\<lparr>messages := update_where (\<lambda>m. ms_author_account_id m = Some (snd dropped))
      (\<lambda>m. m\<lparr>ms_author_account_id := Some (snd keep)\<rparr>) sourced\<rparr>"
    using run by (simp add: merge_messages_def sourced_def Let_def split: if_splits)
  show "\<forall>m \<in> set (messages d'). (ms_source_type m, ms_source_id m) \<noteq> dropped \<and> ms_author_account_id m \<noteq> Some (snd dropped)"
  proof
    fix m assume "m \<in> set (messages d')"
    then obtain m0 where m0: "m0 \<in> set sourced" "ms_source_type m = ms_source_type m0" "ms_source_id m = ms_source_id m0"
      "ms_author_account_id m \<noteq> Some (snd dropped)"
      using ne by (auto simp: d' set_update_where)
    with s [OF m0(1)] show "(ms_source_type m, ms_source_id m) \<noteq> dropped \<and> ms_author_account_id m \<noteq> Some (snd dropped)"
      by simp
  qed
  show "relationships d' = relationships d" by (simp add: d')
qed


definition sample_edge :: "uid \<Rightarrow> entity_type \<times> uid \<Rightarrow> entity_type \<times> uid \<Rightarrow> rel_type \<Rightarrow> relationship" where
  "sample_edge i s t rt = \<lparr>rel_id = i, rel_source_type = fst s, rel_source_id = snd s, rel_target_type = fst t,
     rel_target_id = snd t, rel_ty = rt, rel_confidence = 60, rel_observation_count = 1, rel_first_seen = 0,
     rel_last_seen = 0, rel_evidence_id = None, rel_metadata = None\<rparr>"

definition sample_evidence :: "uid \<Rightarrow> uid \<Rightarrow> string \<Rightarrow> evidence" where
  "sample_evidence i account h = \<lparr>ev_id = i, ev_entity_type = E_TELEGRAM_ACCOUNT, ev_entity_id = account,
     ev_field = Some ''username'', ev_value = Some (JStr ''alice''), ev_source = ''TELEGRAM_PUBLIC'',
     ev_source_type = ''telegram'', ev_reference = None, ev_collected_at = 0, ev_observed_at = None,
     ev_content_hash = h, ev_extraction_method = None, ev_confidence = 90, ev_metadata = None\<rparr>"

text \<open>Two accounts, 0 and 1, linked to each other and each to a target.\<close>

definition two_accounts :: "string \<Rightarrow> string \<Rightarrow> db" where
  "two_accounts h0 h1 = empty_db\<lparr>
     relationships := [sample_edge 10 (E_TARGET, 5) (E_TELEGRAM_ACCOUNT, 0) TARGET_IS_ACCOUNT,
       sample_edge 11 (E_TARGET, 6) (E_TELEGRAM_ACCOUNT, 1) TARGET_IS_ACCOUNT,
       sample_edge 12 (E_TELEGRAM_ACCOUNT, 0) (E_TELEGRAM_ACCOUNT, 1) ACCOUNT_POSSIBLY_SAME_AS],
     evidences := [sample_evidence 20 0 h0, sample_evidence 21 1 h1], next_id := 30\<rparr>"

lemma two_accounts_ok: "edges_ok (two_accounts h0 h1)" "confident (two_accounts h0 h1)"
    "distinct (map ev_id (evidences (two_accounts h0 h1)))"
  by (simp_all add: two_accounts_def edges_ok_def uq_relationship_def ids_ok_def rel_key_def confident_def
      sample_edge_def sample_evidence_def empty_db_def)


text \<open>
  Two accounts that were each observed with the same value in the same source (the ordinary
  reason to merge them) cannot be merged: repointing the evidence violates the unique key of an
  observation, and the merge raises an \<open>IntegrityError\<close>.
\<close>

lemma merge_shared_observation:
  assumes ok: "edges_ok d" and ids: "distinct (map ev_id (evidences d))"
    and same: "fst keep = fst dropped" and diff: "snd keep \<noteq> snd dropped"
    and msgs: "messages d = []"
    and a: "a \<in> set (evidences d)" "(ev_entity_type a, ev_entity_id a) = keep"
    and b: "b \<in> set (evidences d)" "(ev_entity_type b, ev_entity_id b) = dropped"
    and shared: "ev_field a = Some f" "ev_field b = Some f" "ev_source a = ev_source b" "ev_content_hash a = ev_content_hash b"
  shows "fst (merge_entities keep dropped d) = Inl (IntegrityError ''unique constraint failed'')"
proof -
  let ?g = "\<lambda>r. if (ev_entity_type r, ev_entity_id r) = dropped
    then r\<lparr>ev_entity_id := snd keep, ev_entity_type := fst keep\<rparr> else r"
  have inj: "x = y" if "distinct (List.map_filter k xs)" "x \<in> set xs" "y \<in> set xs" "k x = Some z" "k y = Some z"
    for k :: "evidence \<Rightarrow> 'k option" and xs x y z
    using that by (induction xs) (auto simp: List.map_filter_def split: if_splits option.splits intro: rev_image_eqI)
  have "a \<noteq> b" using a(2) b(2) diff by auto
  have "List.map_filter ev_obs_key (map ?g (evidences d)) = List.map_filter (\<lambda>r. ev_obs_key (?g r)) (evidences d)"
    by (simp add: List.map_filter_def comp_def filter_map)
  moreover have "ev_obs_key (?g a) = ev_obs_key (?g b)" "ev_obs_key (?g b) \<noteq> None"
    using a(2) b(2) shared diff same by (auto simp: ev_obs_key_def)
  ultimately have "\<not> uq_evidence (repoint_evidence keep dropped (evidences d))"
    unfolding uq_evidence_def repoint_evidence_def update_where_def
    using inj [of "\<lambda>r. ev_obs_key (?g r)" "evidences d" a b] a(1) b(1) \<open>a \<noteq> b\<close> by force
  moreover from merge_entities_run [OF ok ids same diff] obtain d1 where
    "merged keep dropped {r \<in> set (relationships d). touches dropped r} d d1"
    "merge_entities keep dropped d = merge_rest keep dropped d d1" by blast
  moreover from this(2) mergedD(3) [OF this(1)] msgs have "messages d1 = []" by simp
  ultimately show ?thesis
    by (simp add: merge_rest_def merge_messages_def uq_message_def Let_def)
qed

lemma merge_shared_observation_witness:
  "fst (merge_entities (E_TELEGRAM_ACCOUNT, 0) (E_TELEGRAM_ACCOUNT, 1) (two_accounts ''aa'' ''aa'')) =
     Inl (IntegrityError ''unique constraint failed'')"
  by (rule merge_shared_observation [OF two_accounts_ok(1,3), where a = "sample_evidence 20 0 ''aa''" and b = "sample_evidence 21 1 ''aa''"])
    (simp_all add: two_accounts_def sample_evidence_def empty_db_def)

section \<open>The invariant of the observation tables\<close>

text \<open>
  The unique constraints, primary keys and confidence ranges of edges, evidence and messages, over
  every operation that writes these tables, whatever it returns; any other step leaves them.
\<close>

definition graph_ok :: "db \<Rightarrow> bool" where
  "graph_ok d \<longleftrightarrow> edges_ok d \<and> confident d \<and>
     ids_ok ev_id (evidences d) (next_id d) \<and> uq_evidence (evidences d) \<and>
     (\<forall>e \<in> set (evidences d). 0 \<le> ev_confidence e \<and> ev_confidence e \<le> 100) \<and>
     ids_ok ms_id (messages d) (next_id d) \<and> uq_message (messages d)"

inductive graph_step :: "(string \<Rightarrow> string) \<Rightarrow> (json \<Rightarrow> string) \<Rightarrow> db \<Rightarrow> db \<Rightarrow> bool" for sha dumps where
  gs_record: "graph_step sha dumps d (snd (record_evidence sha dumps et eid e d))"
| gs_observe: "graph_step sha dumps d (snd (observe s t rt c evid md d))"
| gs_upsert: "graph_step sha dumps d (snd (message_upsert st sid mid cols d))"
| gs_merge: "graph_step sha dumps d (snd (merge_entities keep dropped d))"
| gs_other: "relationships d' = relationships d \<Longrightarrow> evidences d' = evidences d \<Longrightarrow> messages d' = messages d \<Longrightarrow>
    next_id d \<le> next_id d' \<Longrightarrow> graph_step sha dumps d d'"

inductive graph_run :: "(string \<Rightarrow> string) \<Rightarrow> (json \<Rightarrow> string) \<Rightarrow> db \<Rightarrow> db \<Rightarrow> bool" for sha dumps where
  gr_stop: "graph_run sha dumps d d"
| gr_step: "graph_step sha dumps d d1 \<Longrightarrow> graph_run sha dumps d1 d2 \<Longrightarrow> graph_run sha dumps d d2"

text \<open>Every evidence row of \<open>d\<close> is in \<open>d'\<close> with its payload: only the entity it is about may differ.\<close>

definition evidence_kept :: "db \<Rightarrow> db \<Rightarrow> bool" where
  "evidence_kept d d' \<longleftrightarrow>
     (\<forall>e \<in> set (evidences d). \<exists>e' \<in> set (evidences d'). ev_id e' = ev_id e \<and> repointed_only e e')"

lemma repointed_only_refl [simp]: "repointed_only e e"
  by (simp add: repointed_only_def)

lemma repointed_only_trans: "repointed_only a b \<Longrightarrow> repointed_only b c \<Longrightarrow> repointed_only a c"
  by (cases a; cases b; cases c) (simp add: repointed_only_def)

lemma evidence_kept_refl: "evidences d' = evidences d \<Longrightarrow> evidence_kept d d'"
  by (auto simp: evidence_kept_def)

lemma evidence_kept_trans: "evidence_kept a b \<Longrightarrow> evidence_kept b c \<Longrightarrow> evidence_kept a c"
  unfolding evidence_kept_def by (metis repointed_only_trans)

lemma graph_ok_frame:
  "graph_ok d \<Longrightarrow> relationships d' = relationships d \<Longrightarrow> evidences d' = evidences d \<Longrightarrow> messages d' = messages d \<Longrightarrow>
   next_id d \<le> next_id d' \<Longrightarrow> graph_ok d'"
  unfolding graph_ok_def edges_ok_def confident_def
  using ids_ok_mono [of rel_id] ids_ok_mono [of ev_id] ids_ok_mono [of ms_id] by auto

lemma record_step:
  assumes ok: "graph_ok d"
  shows "graph_ok (snd (record_evidence sha dumps et eid e d)) \<and>
    evidence_kept d (snd (record_evidence sha dumps et eid e d))"
proof -
  obtain res d' where run: "record_evidence sha dumps et eid e d = (res, d')" by fastforce
  let ?row = "evidence_row sha dumps et eid e d (next_id d)"
  from record_evidence_cases [OF run] show ?thesis
  proof
    assume "d' = d" with ok run show ?thesis by (simp add: evidence_kept_refl)
  next
    assume new: "res = Inr (?row, True) \<and> uq_evidence (evidences d') \<and>
      (\<forall>r \<in> set (evidences d). \<not> same_observation sha dumps et eid e r) \<and>
      d' = d\<lparr>evidences := evidences d @ [?row], next_id := Suc (next_id d)\<rparr>"
    have "ids_ok ev_id (evidences d @ [?row]) (Suc (next_id d))"
      using ok by (intro ids_ok_snoc) (simp_all add: graph_ok_def evidence_row_def)
    moreover have "edges_ok d'" "ids_ok ms_id (messages d) (Suc (next_id d))"
      using ok new ids_ok_mono [of rel_id "relationships d" "next_id d" "Suc (next_id d)"]
        ids_ok_mono [of ms_id "messages d" "next_id d" "Suc (next_id d)"] by (simp_all add: graph_ok_def edges_ok_def)
    moreover have "0 \<le> ev_confidence ?row" "ev_confidence ?row \<le> 100" by (simp_all add: evidence_row_def)
    ultimately show ?thesis
      using ok new run by (auto simp: graph_ok_def confident_def evidence_kept_def)
  qed
qed

lemma observe_step:
  assumes ok: "graph_ok d"
  shows "graph_ok (snd (observe s t rt c evid md d)) \<and> evidence_kept d (snd (observe s t rt c evid md d))"
proof -
  from observe_spec [of d s t rt c evid md] ok obtain r d' x where
    run: "observe s t rt c evid md d = (Inr r, d')" and e: "edges_ok d'" and
    frame: "evidences d' = evidences d" "messages d' = messages d" "next_id d \<le> next_id d'" and
    other: "\<forall>y. \<not> edge_between s t rt y \<longrightarrow> (y \<in> set (relationships d') \<longleftrightarrow> y \<in> set (relationships d))" and
    x: "x \<in> set (relationships d')" "edge_between s t rt x"
      "(\<forall>y \<in> set (relationships d). 0 \<le> rel_confidence y \<and> rel_confidence y \<le> 100) \<longrightarrow> 0 \<le> rel_confidence x \<and> rel_confidence x \<le> 100"
    unfolding graph_ok_def by blast
  have one: "y = x" if "y \<in> set (relationships d')" "edge_between s t rt y" for y
  proof -
    have "rel_key y = rel_key x" using that(2) x(2) unfolding edge_between_key by simp
    with that(1) x(1) e show ?thesis by (auto simp: edges_ok_def uq_relationship_def distinct_map inj_on_def)
  qed
  have "0 \<le> rel_confidence y \<and> rel_confidence y \<le> 100" if y: "y \<in> set (relationships d')" for y
  proof (cases "edge_between s t rt y")
    case True with one [OF y] x(3) ok show ?thesis by (simp add: graph_ok_def confident_def)
  next
    case False with other y ok show ?thesis unfolding graph_ok_def confident_def by blast
  qed
  then have "confident d'" by (simp add: confident_def)
  with ok e frame ids_ok_mono [of ev_id "evidences d" "next_id d" "next_id d'"]
    ids_ok_mono [of ms_id "messages d" "next_id d" "next_id d'"] run
  show ?thesis by (simp add: graph_ok_def evidence_kept_refl)
qed

text \<open>The key of a message is no settable field.\<close>

lemma fold_set_field [simp]:
  "ms_id (fold set_field cols m) = ms_id m" "ms_source_type (fold set_field cols m) = ms_source_type m"
  "ms_source_id (fold set_field cols m) = ms_source_id m" "ms_message_id (fold set_field cols m) = ms_message_id m"
proof -
  have "ms_id (set_field f m) = ms_id m \<and> ms_source_type (set_field f m) = ms_source_type m \<and>
      ms_source_id (set_field f m) = ms_source_id m \<and> ms_message_id (set_field f m) = ms_message_id m" for f m
    by (cases f) simp_all
  then have "ms_id (fold set_field cols m) = ms_id m \<and> ms_source_type (fold set_field cols m) = ms_source_type m \<and>
      ms_source_id (fold set_field cols m) = ms_source_id m \<and> ms_message_id (fold set_field cols m) = ms_message_id m"
    by (induction cols arbitrary: m) auto
  then show "ms_id (fold set_field cols m) = ms_id m" "ms_source_type (fold set_field cols m) = ms_source_type m"
    "ms_source_id (fold set_field cols m) = ms_source_id m" "ms_message_id (fold set_field cols m) = ms_message_id m"
    by blast+
qed

abbreviation message_key :: "message \<Rightarrow> entity_type \<times> uid \<times> int" where
  "message_key m \<equiv> (ms_source_type m, ms_source_id m, ms_message_id m)"

lemma put_message_ok:
  assumes ok: "graph_ok d" and m: "m \<in> set (messages d)" "ms_id m' = ms_id m" "message_key m' = message_key m"
  shows "graph_ok (put_message m' d)"
proof -
  have "messages (put_message m' d) = map (\<lambda>x. if x = m then m' else x) (messages d)"
    using ok m update_where_replace [of ms_id "messages d" m m'] by (simp add: put_message_def graph_ok_def ids_ok_def)
  then have "map message_key (messages (put_message m' d)) = map message_key (messages d)"
    and "map ms_id (messages (put_message m' d)) = map ms_id (messages d)"
    and "set (messages (put_message m' d)) \<subseteq> insert m' (set (messages d))"
    using m(2,3) by auto
  with ok m show ?thesis
    by (auto simp: graph_ok_def edges_ok_def confident_def uq_message_def ids_ok_def put_message_def)
qed

lemma upsert_step:
  assumes ok: "graph_ok d"
  shows "graph_ok (snd (message_upsert st sid mid cols d)) \<and> evidence_kept d (snd (message_upsert st sid mid cols d))"
proof -
  let ?same = "\<lambda>r. ms_source_type r = st \<and> ms_source_id r = sid \<and> ms_message_id r = mid"
  let ?row = "fold set_field cols
     \<lparr>ms_id = next_id d, ms_source_type = st, ms_source_id = sid, ms_message_id = mid,
      ms_author_account_id = None, ms_author_username = None, ms_text = None, ms_posted_at = None,
      ms_reply_to = None, ms_forwarded_from = None, ms_views = None, ms_urls = None,
      ms_usernames = None, ms_source_url = None\<rparr>"
  have "graph_ok (snd (message_upsert st sid mid cols d)) \<and> evidences (snd (message_upsert st sid mid cols d)) = evidences d"
  proof (cases "scalar_one_or_none ?same (messages d)")
    case (Inl e) with ok show ?thesis by (simp add: message_upsert_def)
  next
    case (Inr found)
    show ?thesis
    proof (cases found)
      case (Some m)
      with Inr have m: "m \<in> set (messages d)" using scalar_one_or_none_Some by fastforce
      show ?thesis using put_message_ok [OF ok m] Inr Some by (simp add: message_upsert_def Let_def put_message_def)
    next
      case None
      with Inr have miss: "scalar_one_or_none ?same (messages d) = Inr None"
        and none: "\<forall>m \<in> set (messages d). \<not> ?same m" by simp_all
      have uq: "uq_message (messages d @ [?row])" using ok none by (auto simp: uq_message_def graph_ok_def)
      let ?d = "d\<lparr>messages := messages d @ [?row], next_id := Suc (next_id d)\<rparr>"
      have "ids_ok ms_id (messages d @ [?row]) (Suc (next_id d))"
        using ok by (intro ids_ok_snoc) (simp_all add: graph_ok_def)
      with ok uq have "graph_ok ?d"
        using ids_ok_mono [of rel_id "relationships d" "next_id d" "Suc (next_id d)"]
          ids_ok_mono [of ev_id "evidences d" "next_id d" "Suc (next_id d)"]
        by (simp add: graph_ok_def edges_ok_def confident_def)
      moreover have "message_upsert st sid mid cols d =
          (if list_all is_column cols then (Inr (?row, True), ?d)
           else (Inl (TypeError ''invalid keyword argument for Message''), d))"
        using uq by (simp add: message_upsert_def miss get_or_create_def get_or_create_race_def Let_def)
      ultimately show ?thesis using ok by simp
    qed
  qed
  then show ?thesis by (simp add: evidence_kept_refl)
qed

lemma repointed_evidence_step:
  assumes ok: "graph_ok d" and uq: "uq_evidence (repoint_evidence keep dropped (evidences d))"
  shows "graph_ok (d\<lparr>evidences := repoint_evidence keep dropped (evidences d)\<rparr>)"
proof -
  have "ids_ok ev_id (repoint_evidence keep dropped (evidences d)) (next_id d)"
    using ok unfolding repoint_evidence_def graph_ok_def by (intro ids_ok_update_where) simp_all
  moreover have "0 \<le> ev_confidence e \<and> ev_confidence e \<le> 100" if "e \<in> set (repoint_evidence keep dropped (evidences d))" for e
    using that ok by (auto simp: repoint_evidence_def set_update_where graph_ok_def)
  ultimately show ?thesis using ok uq by (simp add: graph_ok_def edges_ok_def confident_def)
qed

lemma merge_messages_step:
  assumes ok: "graph_ok d" and run: "merge_messages keep dropped d = (x, d')"
  shows "graph_ok d'"
proof (cases x)
  case (Inl e) with ok run show ?thesis by (simp add: merge_messages_def Let_def split: if_splits)
next
  case (Inr n)
  let ?s = "update_where (\<lambda>m. (ms_source_type m, ms_source_id m) = dropped)
    (\<lambda>m. m\<lparr>ms_source_type := fst keep, ms_source_id := snd keep\<rparr>) (messages d)"
  let ?a = "update_where (\<lambda>m. ms_author_account_id m = Some (snd dropped))
      (\<lambda>m. m\<lparr>ms_author_account_id := Some (snd keep)\<rparr>) ?s"
  from run Inr have d': "d' = d\<lparr>messages := ?a\<rparr>" and uq: "uq_message ?s"
    by (auto simp: merge_messages_def Let_def split: if_splits)
  have "map message_key ?a = map message_key ?s" by (rule map_update_where) simp
  with uq have "uq_message ?a" by (simp add: uq_message_def)
  moreover have "ids_ok ms_id ?a (next_id d)"
    using ok unfolding graph_ok_def by (intro ids_ok_update_where) simp_all
  ultimately show ?thesis using ok by (simp add: d' graph_ok_def edges_ok_def confident_def)
qed

lemma repoint_kept: "evidences d' = repoint_evidence keep dropped (evidences d) \<Longrightarrow> evidence_kept d d'"
  by (simp add: evidence_kept_def repoint_row)

lemma merge_step:
  assumes ok: "graph_ok d"
  shows "graph_ok (snd (merge_entities keep dropped d)) \<and> evidence_kept d (snd (merge_entities keep dropped d))"
proof (cases "fst keep = fst dropped \<and> snd keep \<noteq> snd dropped")
  case False
  then have "snd (merge_entities keep dropped d) = d" by (auto simp: merge_entities_def)
  with ok show ?thesis by (simp add: evidence_kept_refl)
next
  case True
  have "edges_ok d" "distinct (map ev_id (evidences d))" using ok by (simp_all add: graph_ok_def ids_ok_def)
  from merge_entities_run [OF this] True obtain d1 where
    m: "merged keep dropped {r \<in> set (relationships d). touches dropped r} d d1" and
    run: "merge_entities keep dropped d = merge_rest keep dropped d d1" by blast
  note frame = mergedD(1-4) [OF m]
  have ok1: "graph_ok d1"
    using ok frame mergedD(9) [OF m] ids_ok_mono [of ev_id "evidences d" "next_id d" "next_id d1"]
      ids_ok_mono [of ms_id "messages d" "next_id d" "next_id d1"] by (simp add: graph_ok_def)
  obtain x d2 where msgs: "merge_messages keep dropped d1 = (x, d2)" by fastforce
  have ok2: "graph_ok d2" by (rule merge_messages_step [OF ok1 msgs])
  have ev: "evidences d2 = evidences d" using merge_messages_frame [OF msgs] frame(2) by simp
  let ?d = "d2\<lparr>evidences := repoint_evidence keep dropped (evidences d)\<rparr>"
  have "snd (merge_rest keep dropped d d1) = d2 \<or>
      uq_evidence (repoint_evidence keep dropped (evidences d)) \<and> snd (merge_rest keep dropped d d1) = ?d"
    by (simp add: merge_rest_def msgs split: sum.splits)
  then show ?thesis
    using ok2 repointed_evidence_step [OF ok2, of keep dropped] evidence_kept_refl [OF ev]
      repoint_kept [of ?d keep dropped d] by (auto simp: run ev)
qed

text \<open>
  C16. Whatever is recorded, observed, upserted and merged in whatever order, and whether it raises or
  not: the unique constraints of edges, evidence and messages hold, every confidence is between 0
  and 100, and no evidence row ever disappears or changes, except that a merge may repoint the
  entity it is about.
\<close>

theorem evidence_append_only:
  assumes "graph_run sha dumps d d'" and "graph_ok d"
  shows "graph_ok d' \<and> evidence_kept d d'"
  using assms
proof (induction rule: graph_run.induct)
  case (gr_stop d) then show ?case by (simp add: evidence_kept_refl)
next
  case (gr_step d d1 d2)
  from gr_step.hyps(1) gr_step.prems have "graph_ok d1 \<and> evidence_kept d d1"
  proof (induction rule: graph_step.induct)
    case (gs_other d' d) then show ?case by (auto intro: graph_ok_frame evidence_kept_refl)
  qed (simp_all only: record_step observe_step upsert_step merge_step)
  with gr_step.IH show ?case by (blast intro: evidence_kept_trans)
qed

theorem evidence_append_only_witness:
  "graph_ok (snd (merge_entities (E_TELEGRAM_ACCOUNT, 0) (E_TELEGRAM_ACCOUNT, 1) (two_accounts ''aa'' ''bb''))) \<and>
   evidence_kept (two_accounts ''aa'' ''bb'')
     (snd (merge_entities (E_TELEGRAM_ACCOUNT, 0) (E_TELEGRAM_ACCOUNT, 1) (two_accounts ''aa'' ''bb'')))"
proof (rule evidence_append_only [of id "\<lambda>_. []"])
  show "graph_ok (two_accounts ''aa'' ''bb'')"
    unfolding graph_ok_def
    by (intro conjI two_accounts_ok) (simp_all add: two_accounts_def sample_evidence_def empty_db_def ids_ok_def
        uq_evidence_def uq_message_def ev_obs_key_def List.map_filter_def)
qed (rule gr_step [OF gs_merge gr_stop])

end
