(* ===== verification/Graph.thy ===== *)
theory Graph
  imports Resolution Workspace
begin

text \<open>
  \<open>intelligence/relationships/graph.py\<close>: the bounded neighbourhood view of an entity or a target,
  and the graph endpoints of \<open>apps/api/routers/graph.py\<close>. A node is named by its type and id;
  the printed reference \<open>type:id\<close> is \<open>entity_ref\<close>, which is injective.
\<close>

section \<open>Nodes and edges\<close>

record graph_node =
  gn_entity :: "entity_type \<times> uid"
  gn_label :: string
  gn_attributes :: "(string \<times> json) list"

record graph_edge =
  ge_source :: "entity_type \<times> uid"
  ge_target :: "entity_type \<times> uid"
  ge_type :: rel_type
  ge_confidence :: int
  ge_observation_count :: nat
  ge_first_seen :: time
  ge_last_seen :: time

record graph_view =
  gv_root :: "entity_type \<times> uid"
  gv_nodes :: "graph_node list"
  gv_edges :: "graph_edge list"
  gv_truncated :: bool

text \<open>The first label attribute that is set and not empty, else \<open>type:id[:8]\<close>.\<close>

fun pick_label :: "string option list \<Rightarrow> string \<Rightarrow> string" where
  "pick_label [] def = def"
| "pick_label (Some (c # s) # ls) def = c # s"
| "pick_label (_ # ls) def = pick_label ls def"

definition set_attributes :: "(string \<times> json option) list \<Rightarrow> (string \<times> json) list" where
  "set_attributes as = concat (map (\<lambda>(k, v). case v of None \<Rightarrow> [] | Some j \<Rightarrow> [(k, j)]) as)"

definition chat_node :: "entity_type \<times> uid \<Rightarrow> string \<Rightarrow> telegram_chat \<Rightarrow> graph_node" where
  "chat_node e def r = \<lparr>gn_entity = e, gn_label = pick_label [tc_title r, tc_username r] def,
     gn_attributes = set_attributes [(''username'', map_option JStr (tc_username r)),
       (''telegram_id'', map_option JInt (tc_telegram_id r)),
       (''participants_count'', map_option JInt (tc_participants_count r))]\<rparr>"

definition hydrate :: "db \<Rightarrow> entity_type \<times> uid \<Rightarrow> graph_node" where
  "hydrate d e =
     (let (et, i) = e; def = entity_value et @ '':'' @ take 8 (uid_text i);
          node = (\<lambda>labels as. \<lparr>gn_entity = e, gn_label = pick_label labels def, gn_attributes = set_attributes as\<rparr>);
          or_missing = (\<lambda>n. case n of None \<Rightarrow> node [] [] | Some x \<Rightarrow> x)
      in case et of
           E_TARGET \<Rightarrow> or_missing (map_option (\<lambda>r. node [tg_label r, Some (tg_value r)]
               [(''value_normalized'', Some (JStr (tg_norm r)))]) (get_by_id tg_id (targets d) i))
         | E_TELEGRAM_ACCOUNT \<Rightarrow> or_missing (map_option (\<lambda>r. node [ta_display_name r, ta_username r]
               [(''username'', map_option JStr (ta_username r)), (''telegram_id'', map_option JInt (ta_telegram_id r))])
             (get_by_id ta_id (telegram_accounts d) i))
         | E_TELEGRAM_GROUP \<Rightarrow> or_missing (map_option (chat_node e def) (get_by_id tc_id (telegram_groups d) i))
         | E_TELEGRAM_CHANNEL \<Rightarrow> or_missing (map_option (chat_node e def) (get_by_id tc_id (telegram_channels d) i))
         | E_MESSAGE \<Rightarrow> or_missing (map_option (\<lambda>r. node [Some (show_int (ms_message_id r))] [])
             (get_by_id ms_id (messages d) i))
         | E_USERNAME \<Rightarrow> or_missing (map_option (\<lambda>r. node [Some (un_value r)]
               [(''value_normalized'', Some (JStr (un_norm r)))]) (get_by_id un_id (usernames d) i))
         | E_EXTERNAL_ACCOUNT \<Rightarrow> or_missing (map_option (\<lambda>r. node [ea_display_name r, Some (ea_identifier r)] [])
             (get_by_id ea_id (external_accounts d) i))
         | E_DOMAIN \<Rightarrow> or_missing (map_option (\<lambda>r. node [Some (dm_name r)] []) (get_by_id dm_id (domains d) i))
         | E_URL \<Rightarrow> or_missing (map_option (\<lambda>r. node [Some (ur_url r)] []) (get_by_id ur_id (urls d) i))
         | E_IP \<Rightarrow> or_missing (map_option (\<lambda>r. node [Some (ip_address r)] []) (get_by_id ip_id (ips d) i))
         | E_IOC \<Rightarrow> or_missing (map_option (\<lambda>r. node [Some (ioc_val r)]
               [(''ioc_type'', Some (JStr (ioc_value (ioc_ty r)))), (''value_normalized'', Some (JStr (ioc_norm r)))])
             (get_by_id ioc_id (iocs d) i))
         | E_REPORT \<Rightarrow> \<lparr>gn_entity = e, gn_label = take 8 (uid_text i), gn_attributes = []\<rparr>)"

definition edges_for :: "db \<Rightarrow> entity_type \<times> uid \<Rightarrow> relationship list" where
  "edges_for d e = take 100 (sort_key (\<lambda>r. - rel_confidence r) (filter (touches e) (relationships d)))"

definition edge_of :: "relationship \<Rightarrow> graph_edge" where
  "edge_of r = \<lparr>ge_source = edge_source r, ge_target = edge_target r, ge_type = rel_ty r,
     ge_confidence = rel_confidence r, ge_observation_count = rel_observation_count r,
     ge_first_seen = rel_first_seen r, ge_last_seen = rel_last_seen r\<rparr>"

definition edge_id :: "graph_edge \<Rightarrow> (entity_type \<times> uid) \<times> (entity_type \<times> uid) \<times> rel_type" where
  "edge_id g = (ge_source g, ge_target g, ge_type g)"

fun add_edges :: "relationship list \<Rightarrow> graph_edge list \<Rightarrow> graph_edge list" where
  "add_edges [] gs = gs"
| "add_edges (r # rs) gs =
     add_edges rs (if edge_id (edge_of r) \<in> edge_id ` set gs then gs else gs @ [edge_of r])"

definition other_end :: "entity_type \<times> uid \<Rightarrow> relationship \<Rightarrow> entity_type \<times> uid" where
  "other_end e r = (if edge_source r = e then edge_target r else edge_source r)"

section \<open>The traversal\<close>

text \<open>
  \<open>_bfs\<close>: the queue holds entities with their depth, \<open>visited\<close> is the list of visited entities in
  order (the nodes of the view are these, hydrated), \<open>gs\<close> the edges so far; the result is
  \<open>visited\<close>, the edges and the truncation flag.
\<close>

function bfs ::
  "db \<Rightarrow> nat \<Rightarrow> nat \<Rightarrow> ((entity_type \<times> uid) \<times> nat) list \<Rightarrow> (entity_type \<times> uid) list \<Rightarrow> graph_edge list \<Rightarrow>
   (entity_type \<times> uid) list \<times> graph_edge list \<times> bool" where
  "bfs d depth max_nodes [] visited gs = (visited, gs, False)"
| "bfs d depth max_nodes ((e, n) # q) visited gs =
     (if e \<in> set visited then bfs d depth max_nodes q visited gs
      else (let visited' = visited @ [e] in
        if max_nodes \<le> length visited' then (visited', gs, True)
        else if depth \<le> n then bfs d depth max_nodes q visited' gs
        else (let rels = edges_for d e;
                  fresh = filter (\<lambda>f. f \<notin> set visited') (map (other_end e) rels)
              in bfs d depth max_nodes (q @ map (\<lambda>f. (f, Suc n)) fresh) visited' (add_edges rels gs))))"
  by pat_completeness auto
termination
  by (relation "measures [\<lambda>(d, depth, mx, q, v, gs). mx - length v, \<lambda>(d, depth, mx, q, v, gs). length q]") auto

declare bfs.simps [simp del]

definition run_bfs :: "db \<Rightarrow> (entity_type \<times> uid) list \<Rightarrow> entity_type \<times> uid \<Rightarrow> nat \<Rightarrow> nat \<Rightarrow> graph_view" where
  "run_bfs d seeds start depth max_nodes =
     (let (visited, gs, truncated) = bfs d depth max_nodes (map (\<lambda>s. (s, 0)) seeds) [] []
      in \<lparr>gv_root = start, gv_nodes = map (hydrate d) visited,
          gv_edges = filter (\<lambda>g. ge_source g \<in> set visited \<and> ge_target g \<in> set visited) gs,
          gv_truncated = truncated\<rparr>)"

definition clamp_depth :: "int \<Rightarrow> nat" where
  "clamp_depth depth = nat (max 1 (min 3 depth))"

definition neighbourhood :: "entity_type \<times> uid \<Rightarrow> int \<Rightarrow> nat \<Rightarrow> db \<Rightarrow> graph_view" where
  "neighbourhood e depth max_nodes d = run_bfs d [e] e (clamp_depth depth) max_nodes"

definition graph_for_target :: "uid \<Rightarrow> int \<Rightarrow> nat \<Rightarrow> db \<Rightarrow> graph_view" where
  "graph_for_target target depth max_nodes d =
     run_bfs d ((E_TARGET, target) # resolved_entities target d) (E_TARGET, target) (clamp_depth depth) max_nodes"

section \<open>Endpoints\<close>

definition api_list_targets :: "principal \<Rightarrow> (db, target list) action" where
  "api_list_targets p = session_scope (bnd (resolve_user p) (\<lambda>u d. (Inr (target_list (u_id u) 100 d), d)))"

definition target_or_404 :: "principal \<Rightarrow> uid \<Rightarrow> (db, target) action" where
  "target_or_404 p i =
     bnd (resolve_user p) (\<lambda>u d. case target_get (u_id u) d i of
        Inl e \<Rightarrow> (Inl e, d)
      | Inr None \<Rightarrow> (Inl (HTTPException 404 ''target not found''), d)
      | Inr (Some t) \<Rightarrow> (Inr t, d))"

definition api_create_target ::
  "(string \<Rightarrow> string) \<Rightarrow> (json \<Rightarrow> string) \<Rightarrow> principal \<Rightarrow> target_kind \<Rightarrow> string \<Rightarrow> string option \<Rightarrow>
   (db, target \<times> (entity_type \<times> uid) list) action" where
  "api_create_target sha dumps p kind value label = session_scope (
     bnd (resolve_user p) (\<lambda>u.
     bnd (target_get_or_create (u_id u) kind value label) (\<lambda>(t, _).
     bnd (resolve sha dumps t) (\<lambda>res. ret (t, rr_linked res)))))"

definition api_get_target :: "principal \<Rightarrow> uid \<Rightarrow> (db, target \<times> (entity_type \<times> uid) list) action" where
  "api_get_target p i = session_scope (bnd (target_or_404 p i) (\<lambda>t d. (Inr (t, resolved_entities i d), d)))"

definition api_target_graph :: "principal \<Rightarrow> uid \<Rightarrow> int \<Rightarrow> (db, graph_view) action" where
  "api_target_graph p i depth =
     session_scope (bnd (target_or_404 p i) (\<lambda>_ d. (Inr (graph_for_target i depth 200 d), d)))"

definition api_entity_graph :: "principal \<Rightarrow> entity_type \<times> uid \<Rightarrow> int \<Rightarrow> (db, graph_view) action" where
  "api_entity_graph p e depth d = (Inr (neighbourhood e depth 200 d), d)"

section \<open>Reachability\<close>

text \<open>The entities at most \<open>n\<close> hops from the seeds, along the edges the traversal reads.\<close>

definition adjacent :: "db \<Rightarrow> entity_type \<times> uid \<Rightarrow> (entity_type \<times> uid) set" where
  "adjacent d e = other_end e ` set (edges_for d e)"

fun hops :: "db \<Rightarrow> (entity_type \<times> uid) set \<Rightarrow> nat \<Rightarrow> (entity_type \<times> uid) set" where
  "hops d S 0 = S"
| "hops d S (Suc n) = hops d S n \<union> (\<Union>e \<in> hops d S n. adjacent d e)"

lemma hops_mono: "n \<le> m \<Longrightarrow> hops d S n \<subseteq> hops d S m"
  by (induction m) (auto simp: le_Suc_eq)

lemma hops_step: "e \<in> hops d S n \<Longrightarrow> r \<in> set (edges_for d e) \<Longrightarrow> other_end e r \<in> hops d S (Suc n)"
  by (auto simp: adjacent_def)

text \<open>Whatever the caps: visited entities are distinct, few, and within the depth.\<close>

lemma bfs_sound:
  assumes "bfs d depth max_nodes q visited gs = (vs, gs', tr)"
    and "distinct visited" and "length visited < max_nodes \<or> visited = []"
    and "\<forall>(e, n) \<in> set q. n \<le> depth \<and> e \<in> hops d S n" and "set visited \<subseteq> hops d S depth"
  shows "distinct vs \<and> length vs \<le> max 1 max_nodes \<and> set vs \<subseteq> hops d S depth \<and> set visited \<subseteq> set vs \<and>
    (tr \<longrightarrow> max_nodes \<le> length vs)"
  using assms
proof (induction d depth max_nodes q visited gs arbitrary: vs gs' tr rule: bfs.induct)
  case (1 d depth max_nodes visited gs)
  then show ?case by (auto simp: bfs.simps)
next
  case (2 d depth max_nodes e n q visited gs)
  have e: "n \<le> depth" "e \<in> hops d S n" and q: "\<forall>(e, n) \<in> set q. n \<le> depth \<and> e \<in> hops d S n"
    using "2.prems"(4) by auto
  have ed: "e \<in> hops d S depth" using e hops_mono by blast
  show ?case
  proof (cases "e \<in> set visited")
    case True
    with "2.prems" q show ?thesis by (intro "2.IH"(1)) (auto simp: bfs.simps)
  next
    case new: False
    let ?v = "visited @ [e]"
    have dv: "distinct ?v" using "2.prems"(2) new by simp
    have sv: "set ?v \<subseteq> hops d S depth" using "2.prems"(5) ed by simp
    show ?thesis
    proof (cases "max_nodes \<le> length ?v")
      case True
      with "2.prems" new have "vs = ?v" by (simp add: bfs.simps)
      with dv sv "2.prems"(3) True show ?thesis by auto
    next
      case room: False
      then have lv: "length ?v < max_nodes \<or> ?v = []" by simp
      show ?thesis
      proof (cases "depth \<le> n")
        case True
        with "2.prems"(1) new room have "bfs d depth max_nodes q ?v gs = (vs, gs', tr)" by (simp add: bfs.simps)
        from "2.IH"(2) [OF new refl room True this dv lv q sv] show ?thesis by auto
      next
        case False
        let ?rels = "edges_for d e"
        let ?fresh = "filter (\<lambda>f. f \<notin> set ?v) (map (other_end e) ?rels)"
        let ?q = "q @ map (\<lambda>f. (f, Suc n)) ?fresh"
        from "2.prems"(1) new room False have "bfs d depth max_nodes ?q ?v (add_edges ?rels gs) = (vs, gs', tr)"
          by (simp add: bfs.simps Let_def)
        moreover have "\<forall>(f, m) \<in> set ?q. m \<le> depth \<and> f \<in> hops d S m"
          using q False hops_step [OF e(2)] by (auto simp del: hops.simps)
        ultimately show ?thesis
          using "2.IH"(3) [OF new refl room False refl refl, of vs gs' tr] dv lv sv by auto
      qed
    qed
  qed
qed

text \<open>
  The other direction: if the traversal empties its queue then everything within the depth is
  visited. The depth an entity was visited at is a ghost function \<open>h\<close>; the queue is sorted by
  depth and spans at most two depths.
\<close>

definition frontier :: "db \<Rightarrow> nat \<Rightarrow> ((entity_type \<times> uid) \<times> nat) list \<Rightarrow> (entity_type \<times> uid) list \<Rightarrow> (entity_type \<times> uid \<Rightarrow> nat) \<Rightarrow> bool" where
  "frontier d depth q visited h \<longleftrightarrow>
     sorted (map snd q) \<and> (\<forall>x \<in> set q. snd x \<le> Suc (snd (hd q))) \<and>
     (\<forall>v \<in> set visited. \<forall>x \<in> set q. h v \<le> snd x) \<and>
     (\<forall>v \<in> set visited. h v < depth \<longrightarrow> (\<forall>f \<in> adjacent d v.
        (f \<in> set visited \<and> h f \<le> Suc (h v)) \<or> (\<exists>n \<le> Suc (h v). (f, n) \<in> set q)))"

lemma frontier_skip:
  assumes f: "frontier d depth ((e, n) # q) visited h" and e: "e \<in> set visited"
  shows "frontier d depth q visited h"
proof -
  have he: "h e \<le> n" using f e by (auto simp: frontier_def)
  have "sorted (map snd q)" "\<forall>v \<in> set visited. \<forall>x \<in> set q. h v \<le> snd x" using f by (auto simp: frontier_def)
  moreover have "snd x \<le> Suc (snd (hd q))" if "x \<in> set q" for x
  proof -
    have "q \<noteq> []" using that by auto
    then have "n \<le> snd (hd q)" using f by (cases q) (auto simp: frontier_def)
    moreover have "snd x \<le> Suc n" using f that by (auto simp: frontier_def)
    ultimately show ?thesis by simp
  qed
  moreover have "(g \<in> set visited \<and> h g \<le> Suc (h v)) \<or> (\<exists>m \<le> Suc (h v). (g, m) \<in> set q)"
    if "v \<in> set visited" "h v < depth" "g \<in> adjacent d v" for v g
    using f that e he unfolding frontier_def by (fastforce intro: order_trans)
  ultimately show ?thesis unfolding frontier_def by blast
qed

lemma frontier_visit:
  assumes f: "frontier d depth ((e, n) # q) visited h" and new: "e \<notin> set visited" and q': "q' = q @ map (\<lambda>f. (f, Suc n)) fresh"
    and fresh: "\<And>g. n < depth \<Longrightarrow> g \<in> adjacent d e \<Longrightarrow> g \<in> set (visited @ [e]) \<or> g \<in> set fresh"
  shows "frontier d depth q' (visited @ [e]) (h(e := n))"
proof -
  let ?h = "h(e := n)"
  have old: "?h v = h v" if "v \<in> set visited" for v using that new by auto
  have span: "\<forall>x \<in> set q. n \<le> snd x \<and> snd x \<le> Suc n" using f by (auto simp: frontier_def)
  have "sorted (map snd q')"
    using f span by (auto simp: frontier_def q' sorted_append sorted_wrt_map comp_def intro: sorted_wrt_true)
  moreover have "snd x \<le> Suc (snd (hd q'))" if "x \<in> set q'" for x
  proof -
    have "snd x \<le> Suc n" using that span by (auto simp: q')
    moreover have "n \<le> snd (hd q')"
    proof -
      have "\<forall>x \<in> set q'. n \<le> snd x" using span by (auto simp: q')
      moreover have "hd q' \<in> set q'" using that by (intro hd_in_set) auto
      ultimately show ?thesis by blast
    qed
    ultimately show ?thesis by simp
  qed
  moreover have "?h v \<le> snd x" if "v \<in> set (visited @ [e])" "x \<in> set q'" for v x
  proof -
    have "n \<le> snd x" using that(2) span by (auto simp: q')
    moreover have "v = e \<or> h v \<le> n" using f that(1) by (auto simp: frontier_def)
    ultimately show ?thesis by auto
  qed
  moreover have "(g \<in> set (visited @ [e]) \<and> ?h g \<le> Suc (?h v)) \<or> (\<exists>m \<le> Suc (?h v). (g, m) \<in> set q')"
    if v: "v \<in> set (visited @ [e])" "?h v < depth" "g \<in> adjacent d v" for v g
  proof (cases "v = e")
    case True
    then have "n < depth" "?h v = n" using v(2) by auto
    with fresh [of g] v(3) True consider "g \<in> set (visited @ [e])" | "g \<in> set fresh" by blast
    then show ?thesis
    proof cases
      case 1
      have "?h g \<le> n" using 1 f by (auto simp: frontier_def)
      with 1 \<open>?h v = n\<close> show ?thesis by auto
    next
      case 2 then show ?thesis using \<open>?h v = n\<close> by (auto simp: q')
    qed
  next
    case False
    then have vis: "v \<in> set visited" and hv: "?h v = h v" using v(1) by auto
    with f v(2,3) consider "g \<in> set visited" "h g \<le> Suc (h v)" | m where "m \<le> Suc (h v)" "(g, m) \<in> set ((e, n) # q)"
      unfolding frontier_def by metis
    then show ?thesis
    proof cases
      case 1 then show ?thesis using hv old by auto
    next
      case 2 then show ?thesis using hv by (auto simp: q')
    qed
  qed
  ultimately show ?thesis unfolding frontier_def by blast
qed

lemma bfs_complete:
  assumes "bfs d depth max_nodes q visited gs = (vs, gs', False)" and "frontier d depth q visited h"
  shows "\<exists>h'. frontier d depth [] vs h' \<and> (\<forall>v \<in> set visited. v \<in> set vs \<and> h' v = h v) \<and>
    (\<forall>(e, n) \<in> set q. e \<in> set vs \<and> h' e \<le> n)"
  using assms
proof (induction d depth max_nodes q visited gs arbitrary: vs gs' h rule: bfs.induct)
  case (1 d depth max_nodes visited gs)
  then show ?case by (auto simp: bfs.simps)
next
  case (2 d depth max_nodes e n q visited gs)
  show ?case
  proof (cases "e \<in> set visited")
    case True
    have run: "bfs d depth max_nodes q visited gs = (vs, gs', False)" using "2.prems"(1) True by (simp add: bfs.simps)
    have "h e \<le> n" using "2.prems"(2) True by (auto simp: frontier_def)
    with "2.IH"(1) [OF True run frontier_skip [OF "2.prems"(2) True]] True show ?thesis by fastforce
  next
    case new: False
    let ?v = "visited @ [e]" and ?h = "h(e := n)"
    have room: "\<not> max_nodes \<le> length ?v" using "2.prems"(1) new by (auto simp: bfs.simps Let_def)
    have goal: ?thesis if "\<exists>h'. frontier d depth [] vs h' \<and> (\<forall>v \<in> set ?v. v \<in> set vs \<and> h' v = ?h v) \<and>
        (\<forall>(e, n) \<in> set q. e \<in> set vs \<and> h' e \<le> n)"
      using that new by (auto 0 4)
    show ?thesis
    proof (cases "depth \<le> n")
      case True
      have run: "bfs d depth max_nodes q ?v gs = (vs, gs', False)" using "2.prems"(1) new room True by (simp add: bfs.simps)
      have "frontier d depth q ?v ?h" by (rule frontier_visit [OF "2.prems"(2) new, of _ "[]"]) (use True in auto)
      from "2.IH"(2) [OF new refl room True run this] show ?thesis by (rule goal)
    next
      case False
      let ?rels = "edges_for d e"
      let ?fresh = "filter (\<lambda>f. f \<notin> set ?v) (map (other_end e) ?rels)"
      let ?q = "q @ map (\<lambda>f. (f, Suc n)) ?fresh"
      have run: "bfs d depth max_nodes ?q ?v (add_edges ?rels gs) = (vs, gs', False)"
        using "2.prems"(1) new room False by (simp add: bfs.simps Let_def)
      have "frontier d depth ?q ?v ?h"
        by (rule frontier_visit [OF "2.prems"(2) new refl]) (auto simp: adjacent_def)
      from "2.IH"(3) [OF new refl room False refl refl run this] show ?thesis by (intro goal) fastforce
    qed
  qed
qed

lemma frontier_done:
  assumes f: "frontier d depth [] vs h" and S: "\<forall>s \<in> S. s \<in> set vs \<and> h s = 0" and n: "n \<le> depth"
  shows "\<forall>e \<in> hops d S n. e \<in> set vs \<and> h e \<le> n"
  using n
proof (induction n)
  case 0 then show ?case using S by simp
next
  case (Suc n)
  have "f \<in> set vs \<and> h f \<le> Suc n" if "e \<in> hops d S n" "f \<in> adjacent d e" for e f
  proof -
    have "e \<in> set vs" "h e \<le> n" using Suc that(1) by auto
    moreover have "h e < depth" using Suc.prems \<open>h e \<le> n\<close> by simp
    ultimately have "f \<in> set vs \<and> h f \<le> Suc (h e)" using f that(2) by (auto simp: frontier_def)
    with \<open>h e \<le> n\<close> show ?thesis by linarith
  qed
  moreover have "e \<in> set vs \<and> h e \<le> Suc n" if "e \<in> hops d S n" for e using Suc that by fastforce
  ultimately show ?case by auto
qed

lemma bfs_exact:
  assumes run: "bfs d depth max_nodes (map (\<lambda>s. (s, 0)) seeds) [] [] = (vs, gs, False)"
  shows "set vs = hops d (set seeds) depth"
proof
  have "sorted (map (\<lambda>x. 0::nat) seeds)" by (induction seeds) auto
  then have "frontier d depth (map (\<lambda>s. (s, 0)) seeds) [] (\<lambda>_. 0)" by (auto simp: frontier_def comp_def)
  from bfs_complete [OF run this] obtain h where h: "frontier d depth [] vs h" and
    s: "\<forall>(e, n) \<in> set (map (\<lambda>s. (s, 0)) seeds). e \<in> set vs \<and> h e \<le> n" by blast
  show "hops d (set seeds) depth \<subseteq> set vs"
    using frontier_done [OF h, of "set seeds" depth] s by auto
  show "set vs \<subseteq> hops d (set seeds) depth"
    using bfs_sound [OF run, of "set seeds"] by auto
qed

text \<open>Every edge of the view is a stored relationship, and none appears twice.\<close>

lemma add_edges_ok:
  "distinct (map edge_id gs) \<Longrightarrow> distinct (map edge_id (add_edges rs gs)) \<and> set (add_edges rs gs) \<subseteq> set gs \<union> edge_of ` set rs"
  by (induction rs gs rule: add_edges.induct) (force simp: Let_def)+

lemma bfs_edges:
  assumes "bfs d depth max_nodes q visited gs = (vs, gs', tr)"
    and "distinct (map edge_id gs)" and "set gs \<subseteq> edge_of ` set (relationships d)"
  shows "distinct (map edge_id gs') \<and> set gs' \<subseteq> edge_of ` set (relationships d)"
  using assms
proof (induction d depth max_nodes q visited gs arbitrary: vs gs' tr rule: bfs.induct)
  case (1 d depth max_nodes visited gs) then show ?case by (simp add: bfs.simps)
next
  case (2 d depth max_nodes e n q visited gs)
  have "set (edges_for d e) \<subseteq> set (relationships d)"
    by (auto simp: edges_for_def dest: in_set_takeD)
  then have E: "distinct (map edge_id (add_edges (edges_for d e) gs)) \<and>
      set (add_edges (edges_for d e) gs) \<subseteq> edge_of ` set (relationships d)"
    using add_edges_ok [OF "2.prems"(2), of "edges_for d e"] "2.prems"(3) by blast
  note step = "2.prems"(1) [unfolded bfs.simps(2) Let_def]
  consider "e \<in> set visited" | "e \<notin> set visited" "max_nodes \<le> length (visited @ [e])"
    | "e \<notin> set visited" "\<not> max_nodes \<le> length (visited @ [e])" "depth \<le> n"
    | "e \<notin> set visited" "\<not> max_nodes \<le> length (visited @ [e])" "\<not> depth \<le> n" by blast
  then show ?case
  proof cases
    case 1 with step show ?thesis by (intro "2.IH"(1) [OF _ _ "2.prems"(2,3)]) simp_all
  next
    case 2 with step "2.prems"(2,3) show ?thesis by simp
  next
    case 3 with step show ?thesis by (intro "2.IH"(2) [OF _ refl _ _ _ "2.prems"(2,3)]) simp_all
  next
    case 4 with step show ?thesis
      by (intro "2.IH"(3) [OF _ refl _ _ refl refl _ conjunct1 [OF E] conjunct2 [OF E]]) simp_all
  qed
qed

lemma gn_entity_chat_node: "gn_entity (chat_node e def r) = e"
  by (simp add: chat_node_def)

lemma gn_entity_option:
  "(\<And>r. gn_entity (f r) = e) \<Longrightarrow> gn_entity x = e \<Longrightarrow>
   gn_entity (case map_option f m of None \<Rightarrow> x | Some y \<Rightarrow> y) = e"
  by (cases m) simp_all

lemma gn_entity_hydrate [simp]: "gn_entity (hydrate d e) = e"
proof (cases e)
  case (Pair et i)
  then show ?thesis
    by (cases et) (simp_all only: hydrate_def Let_def prod.case entity_type.case gn_entity_option
        gn_entity_chat_node graph_node.select_convs)
qed


definition sample_target :: "uid \<Rightarrow> uid \<Rightarrow> string \<Rightarrow> target" where
  "sample_target i owner v = \<lparr>tg_id = i, tg_user_id = owner, tg_kind = K_GENERIC, tg_value = v, tg_norm = v,
     tg_label = None, tg_deleted_at = None, tg_created_at = 0\<rparr>"

text \<open>Two users track the same public account: user 1 as target 10, user 2 as target 20.\<close>

definition two_trackers :: db where
  "two_trackers = empty_db\<lparr>
     users := [sample_user\<lparr>u_id := 1, u_email := ''a@x''\<rparr>, sample_user\<lparr>u_id := 2, u_email := ''b@x''\<rparr>],
     targets := [sample_target 10 1 ''case 7'', sample_target 20 2 ''bob''],
     relationships := [sample_edge 40 (E_TARGET, 10) (E_TELEGRAM_ACCOUNT, 30) TARGET_IS_ACCOUNT,
       sample_edge 41 (E_TARGET, 20) (E_TELEGRAM_ACCOUNT, 30) TARGET_IS_ACCOUNT],
     next_id := 50\<rparr>"

text \<open>
  The graph of one's own target shows the targets of other users that resolve to the same public
  account, with their label: user 2 asks for the graph of target 20 and is shown target 10 of
  user 1, which \<open>GET /targets/10\<close> answers with 404.
\<close>

lemma graph_reveals_foreign_target:
  "(case api_target_graph \<lparr>pr_email = None, pr_user_id = Some ''2'', pr_role = ''ANALYST''\<rparr> 20 2 two_trackers of
      (Inr v, _) \<Rightarrow> \<exists>n \<in> set (gv_nodes v). gn_entity n = (E_TARGET, 10) \<and> gn_label n = ''case 7''
    | _ \<Rightarrow> False) \<and>
   fst (api_get_target \<lparr>pr_email = None, pr_user_id = Some ''2'', pr_role = ''ANALYST''\<rparr> 10 two_trackers) =
     Inl (HTTPException 404 ''target not found'')"
  by code_simp

end
