(* ===== verification/Timeline.thy ===== *)
theory Timeline
  imports Graph "HOL-Library.Multiset"
begin

text \<open>
  \<open>intelligence/timeline/builder.py\<close>: the chronological view of an entity or a target. Times are
  numbers, so the conversion of naive to aware datetimes has no counterpart.
\<close>

record timeline_event =
  te_when :: time
  te_kind :: string
  te_title :: string
  te_source :: "string option"
  te_entity_ref :: "string option"
  te_evidence_id :: "uid option"

record timeline =
  tl_root :: "entity_type \<times> uid"
  tl_events :: "timeline_event list"
  tl_truncated :: bool

definition max_events :: nat where
  "max_events = 500"

definition evidence_events :: "entity_type \<times> uid \<Rightarrow> db \<Rightarrow> timeline_event list" where
  "evidence_events e d =
     map (\<lambda>v. \<lparr>te_when = (case ev_observed_at v of None \<Rightarrow> ev_collected_at v | Some t \<Rightarrow> t),
               te_kind = ''evidence'',
               te_title = ''Observed'' @ (case ev_field v of None \<Rightarrow> [] | Some f \<Rightarrow> if f = [] then [] else '' '' @ f)
                 @ '' via '' @ ev_source v,
               te_source = Some (ev_source v), te_entity_ref = Some (entity_ref e), te_evidence_id = Some (ev_id v)\<rparr>)
       (filter (\<lambda>v. ev_entity_type v = fst e \<and> ev_entity_id v = snd e) (evidences d))"

definition relationship_events :: "entity_type \<times> uid \<Rightarrow> db \<Rightarrow> timeline_event list" where
  "relationship_events e d =
     map (\<lambda>r. \<lparr>te_when = rel_first_seen r, te_kind = ''relationship'',
               te_title = rel_value (rel_ty r) @ '' ('' @ entity_value (rel_source_type r) @ '' -> ''
                 @ entity_value (rel_target_type r) @ '', confidence '' @ show_int (rel_confidence r) @ '')'',
               te_source = None, te_entity_ref = Some (entity_ref e), te_evidence_id = rel_evidence_id r\<rparr>)
       (filter (touches e) (relationships d))"

definition message_event :: "message \<Rightarrow> timeline_event" where
  "message_event m = \<lparr>te_when = (case ms_posted_at m of None \<Rightarrow> 0 | Some t \<Rightarrow> t), te_kind = ''message'',
     te_title = ''Public message #'' @ show_int (ms_message_id m)
       @ (case ms_text m of None \<Rightarrow> [] | Some t \<Rightarrow> if t = [] then [] else '': '' @ take 80 t),
     te_source = Some ''telegram'', te_entity_ref = Some (entity_ref (E_MESSAGE, ms_id m)), te_evidence_id = None\<rparr>"

text \<open>The messages of a container with a time, oldest first; the query is limited.\<close>

definition timed_messages :: "entity_type \<times> uid \<Rightarrow> db \<Rightarrow> message list" where
  "timed_messages e d =
     filter (\<lambda>m. ms_source_type m = fst e \<and> ms_source_id m = snd e \<and> ms_posted_at m \<noteq> None) (messages d)"

definition message_events :: "entity_type \<times> uid \<Rightarrow> db \<Rightarrow> timeline_event list" where
  "message_events e d =
     map message_event (take max_events (sort_key (\<lambda>m. case ms_posted_at m of None \<Rightarrow> 0 | Some t \<Rightarrow> t) (timed_messages e d)))"

definition first_observed :: "entity_type \<times> uid \<Rightarrow> time option \<Rightarrow> timeline_event list" where
  "first_observed e t = (case t of None \<Rightarrow> []
     | Some w \<Rightarrow> [\<lparr>te_when = w, te_kind = ''account'', te_title = ''First observed on Telegram'',
         te_source = Some ''telegram'', te_entity_ref = Some (entity_ref e), te_evidence_id = None\<rparr>])"

definition account_events :: "entity_type \<times> uid \<Rightarrow> db \<Rightarrow> timeline_event list" where
  "account_events e d =
     (case fst e of
        E_TELEGRAM_ACCOUNT \<Rightarrow>
          (case get_by_id ta_id (telegram_accounts d) (snd e) of None \<Rightarrow> [] | Some r \<Rightarrow> first_observed e (ta_first_observed_at r))
      | E_TELEGRAM_CHANNEL \<Rightarrow>
          (case get_by_id tc_id (telegram_channels d) (snd e) of None \<Rightarrow> [] | Some r \<Rightarrow> first_observed e (tc_first_observed_at r))
      | E_TELEGRAM_GROUP \<Rightarrow>
          (case get_by_id tc_id (telegram_groups d) (snd e) of None \<Rightarrow> [] | Some r \<Rightarrow> first_observed e (tc_first_observed_at r))
      | E_EXTERNAL_ACCOUNT \<Rightarrow>
          (case get_by_id ea_id (external_accounts d) (snd e) of
             None \<Rightarrow> []
           | Some r \<Rightarrow> [\<lparr>te_when = ea_created_at r, te_kind = ''account'',
               te_title = ''External account record created ('' @ ea_platform r @ '')'', te_source = Some (ea_platform r),
               te_entity_ref = Some (entity_ref e), te_evidence_id = None\<rparr>])
      | _ \<Rightarrow> [])"

definition is_container :: "entity_type \<Rightarrow> bool" where
  "is_container et \<longleftrightarrow> et = E_TELEGRAM_CHANNEL \<or> et = E_TELEGRAM_GROUP"

definition entity_events :: "db \<Rightarrow> entity_type \<times> uid \<Rightarrow> timeline_event list" where
  "entity_events d e =
     evidence_events e d @ relationship_events e d
     @ (if is_container (fst e) then message_events e d else []) @ account_events e d"

definition build_timeline :: "entity_type \<times> uid \<Rightarrow> (entity_type \<times> uid) list \<Rightarrow> db \<Rightarrow> timeline" where
  "build_timeline start es d =
     (let events = sort_key te_when (concat (map (entity_events d) es)) in
      \<lparr>tl_root = start, tl_events = take max_events events, tl_truncated = (max_events < length events)\<rparr>)"

definition timeline_for_entity :: "entity_type \<times> uid \<Rightarrow> db \<Rightarrow> timeline" where
  "timeline_for_entity e d = build_timeline e [e] d"

definition timeline_for_target :: "uid \<Rightarrow> db \<Rightarrow> timeline" where
  "timeline_for_target target d =
     build_timeline (E_TARGET, target) ((E_TARGET, target) # resolved_entities target d) d"

definition api_target_timeline :: "principal \<Rightarrow> uid \<Rightarrow> (db, timeline) action" where
  "api_target_timeline p i = session_scope (bnd (target_or_404 p i) (\<lambda>_ d. (Inr (timeline_for_target i d), d)))"

section \<open>Properties\<close>


text \<open>A channel with 501 dated messages and nothing else known of it.\<close>

definition dated_message :: "nat \<Rightarrow> message" where
  "dated_message i = \<lparr>ms_id = i, ms_source_type = E_TELEGRAM_CHANNEL, ms_source_id = 900, ms_message_id = int i,
     ms_author_account_id = None, ms_author_username = None, ms_text = None, ms_posted_at = Some (int i),
     ms_reply_to = None, ms_forwarded_from = None, ms_views = None, ms_urls = None, ms_usernames = None,
     ms_source_url = None\<rparr>"

definition busy_channel :: db where
  "busy_channel = empty_db\<lparr>messages := map dated_message [0..<501]\<rparr>"

text \<open>
  The query for messages is cut at the same 500 as the timeline, so a busy channel loses its
  newest messages without the timeline being flagged as truncated.
\<close>

lemma timeline_cut_unreported:
  "\<not> tl_truncated (timeline_for_entity (E_TELEGRAM_CHANNEL, 900) busy_channel) \<and>
   length (tl_events (timeline_for_entity (E_TELEGRAM_CHANNEL, 900) busy_channel)) = 500 \<and>
   length (timed_messages (E_TELEGRAM_CHANNEL, 900) busy_channel) = 501"
proof -
  let ?e = "(E_TELEGRAM_CHANNEL, 900)"
  have all: "filter (\<lambda>m. ms_source_type m = fst ?e \<and> ms_source_id m = snd ?e \<and> ms_posted_at m \<noteq> None)
      (map dated_message xs) = map dated_message xs" for xs
    by (induction xs) (simp_all add: dated_message_def)
  have msgs: "length (timed_messages ?e busy_channel) = 501"
    unfolding timed_messages_def by (simp add: busy_channel_def all [simplified])
  have "evidence_events ?e busy_channel = []" "relationship_events ?e busy_channel = []" "account_events ?e busy_channel = []"
    by (simp_all add: evidence_events_def relationship_events_def account_events_def busy_channel_def empty_db_def get_by_id_def)
  then have "length (entity_events busy_channel ?e) = 500"
    using msgs by (simp add: entity_events_def is_container_def message_events_def max_events_def)
  then show ?thesis
    using msgs by (simp add: timeline_for_entity_def build_timeline_def Let_def max_events_def)
qed

end
