(* ===== verification/Confidence.thy ===== *)
theory Confidence
  imports Normalize
begin

text \<open>
  \<open>intelligence/confidence/engine.py\<close>: how strongly public facts suggest that two accounts with the
  same handle belong together. The quotients compared with 0.5 and 0.4 are quotients of small
  set sizes, whose floating point comparison agrees with the exact one; they are cross-multiplied
  here. The dash of two labels is not a Latin-1 character and is written by its UTF-8 bytes.
\<close>

record facts =
  fa_display_name :: "string option"
  fa_bio :: "string option"
  fa_website :: "string option"
  fa_email :: "string option"
  fa_location :: "string option"
  fa_avatar :: "string option"

definition no_facts :: facts where
  "no_facts = \<lparr>fa_display_name = None, fa_bio = None, fa_website = None, fa_email = None, fa_location = None, fa_avatar = None\<rparr>"

datatype signal_name =
    exact_username | display_name_exact | display_name_overlap | website_same_domain | bio_similar
  | email_exact | email_domain_match | avatar_exact | location_exact

fun weight_of :: "signal_name \<Rightarrow> int" where
  "weight_of exact_username = 25"
| "weight_of display_name_exact = 25"
| "weight_of display_name_overlap = 12"
| "weight_of website_same_domain = 22"
| "weight_of bio_similar = 15"
| "weight_of email_exact = 30"
| "weight_of email_domain_match = 10"
| "weight_of avatar_exact = 15"
| "weight_of location_exact = 5"

record sig =
  sg_name :: signal_name
  sg_weight :: int
  sg_detail :: string

record confidence_result =
  cr_score :: int
  cr_band :: string
  cr_label :: string
  cr_signals :: "sig list"

definition em_dash :: string where
  "em_dash = [CHR 0xE2, CHR 0x80, CHR 0x94]"

definition bands :: "(int \<times> string \<times> string) list" where
  "bands =
     [(75, ''high'', ''High-confidence potential match based on available public evidence.''),
      (45, ''medium'', ''Possible match '' @ em_dash @ '' several public signals align, but not conclusive.''),
      (20, ''low'', ''Weak signal '' @ em_dash @ '' limited corroborating public evidence.''),
      (0, ''username_only'',
       ''Username match only '' @ em_dash @ '' no corroborating evidence. Do not assume the same person.'')]"

definition forbidden_phrases :: "string list" where
  "forbidden_phrases = [''the same person'', ''definitely'', ''confirmed identity'', ''certainly'']"

text \<open>An optional text as a condition and as a value: \<open>None\<close> and the empty text are false.\<close>

definition text_of :: "string option \<Rightarrow> string" where
  "text_of v = (case v of None \<Rightarrow> [] | Some s \<Rightarrow> s)"

text \<open>\<open>_WORD_RE.sub(" ", v.strip().lower()).strip()\<close>: runs of other characters become one space.\<close>

definition is_az09 :: "char \<Rightarrow> bool" where
  "is_az09 c \<longleftrightarrow> is_lower_az c \<or> is_decimal c"

fun squeeze :: "bool \<Rightarrow> string \<Rightarrow> string" where
  "squeeze gap [] = []"
| "squeeze gap (c # s) = (if is_az09 c then c # squeeze False s else if gap then squeeze True s else CHR '' '' # squeeze True s)"

definition norm_name :: "string option \<Rightarrow> string" where
  "norm_name v = (if text_of v = [] then [] else strip (squeeze False (lower (strip (text_of v)))))"

definition tokens :: "string option \<Rightarrow> string set" where
  "tokens v = set (filter (\<lambda>t. 2 < length t) (py_words (norm_name v)))"

definition website_domain :: "string option \<Rightarrow> exn + string option" where
  "website_domain v =
     (if text_of v = [] then Inr None
      else (let w = strip (text_of v) in
        case urlsplit (if contains ''://'' w then w else ''http://'' @ w) of
          Inl e \<Rightarrow> Inl e
        | Inr p \<Rightarrow> (case url_hostname p of
            None \<Rightarrow> Inr None
          | Some h \<Rightarrow> map_sum id Some (normalize_domain h))))"

text \<open>\<open>_jaccard(a, b) >= num / den\<close> for a positive bound.\<close>

definition jaccard_ge :: "nat \<Rightarrow> nat \<Rightarrow> string set \<Rightarrow> string set \<Rightarrow> bool" where
  "jaccard_ge num den a b \<longleftrightarrow> a \<noteq> {} \<and> b \<noteq> {} \<and> num * card (a \<union> b) \<le> den * card (a \<inter> b)"

definition add_signal :: "signal_name \<Rightarrow> string \<Rightarrow> sig" where
  "add_signal n detail = \<lparr>sg_name = n, sg_weight = weight_of n, sg_detail = detail\<rparr>"

text \<open>The signals by kind; \<open>repr\<close> is the quoted form of a text.\<close>

definition name_signals :: "(string \<Rightarrow> string) \<Rightarrow> facts \<Rightarrow> facts \<Rightarrow> sig list" where
  "name_signals repr a b =
     (let na = norm_name (fa_display_name a); nb = norm_name (fa_display_name b) in
      if na = [] \<or> nb = [] then []
      else if na = nb
      then [add_signal display_name_exact (''Matching display name ('' @ repr (text_of (fa_display_name a)) @ '')'')]
      else if jaccard_ge 1 2 (tokens (fa_display_name a)) (tokens (fa_display_name b))
      then [add_signal display_name_overlap ''Overlapping display-name tokens''] else [])"

definition website_signals :: "string option \<Rightarrow> string option \<Rightarrow> sig list" where
  "website_signals da db =
     (if text_of da \<noteq> [] \<and> text_of db \<noteq> [] \<and> da = db
      then [add_signal website_same_domain (''Both link to '' @ text_of da)] else [])"

definition bio_signals :: "facts \<Rightarrow> facts \<Rightarrow> sig list" where
  "bio_signals a b =
     (if text_of (fa_bio a) \<noteq> [] \<and> text_of (fa_bio b) \<noteq> [] \<and> jaccard_ge 2 5 (tokens (fa_bio a)) (tokens (fa_bio b))
      then [add_signal bio_similar ''Similar public bio text''] else [])"

definition norm_email :: "string option \<Rightarrow> exn + string" where
  "norm_email v = (if text_of v = [] then Inr [] else normalize_email (text_of v))"

definition email_signals :: "string \<Rightarrow> string \<Rightarrow> sig list" where
  "email_signals ea eb =
     (if ea \<noteq> [] \<and> eb \<noteq> [] \<and> ea = eb then [add_signal email_exact (''Matching public email ('' @ ea @ '')'')]
      else if ea \<noteq> [] \<and> eb \<noteq> [] \<and> after_last CHR ''@'' ea = after_last CHR ''@'' eb
      then [add_signal email_domain_match ''Matching public email domain''] else [])"

text \<open>The loop over the two crossed pairs stops at the first match.\<close>

fun cross_signals :: "(string \<times> string) list \<Rightarrow> exn + sig list" where
  "cross_signals [] = Inr []"
| "cross_signals ((host, email) # ps) =
     (if host = [] \<or> email = [] then cross_signals ps
      else (case normalize_domain (after_last CHR ''@'' email) of
              Inl e \<Rightarrow> Inl e
            | Inr n \<Rightarrow> if host = n
                then Inr [add_signal email_domain_match ''Website domain matches the other account's email domain'']
                else cross_signals ps))"

definition avatar_signals :: "facts \<Rightarrow> facts \<Rightarrow> sig list" where
  "avatar_signals a b =
     (if text_of (fa_avatar a) \<noteq> [] \<and> text_of (fa_avatar b) \<noteq> [] \<and> fa_avatar a = fa_avatar b
      then [add_signal avatar_exact ''Identical public avatar reference''] else [])"

definition location_signals :: "facts \<Rightarrow> facts \<Rightarrow> sig list" where
  "location_signals a b =
     (if text_of (fa_location a) \<noteq> [] \<and> text_of (fa_location b) \<noteq> [] \<and> norm_name (fa_location a) = norm_name (fa_location b)
      then [add_signal location_exact (''Matching location ('' @ text_of (fa_location a) @ '')'')] else [])"

text \<open>The dictionary \<open>best\<close>: one signal per name, in order of first insertion, replaced by a heavier one.\<close>

fun keep_best :: "sig list \<Rightarrow> sig list \<Rightarrow> sig list" where
  "keep_best [] best = best"
| "keep_best (s # ss) best = keep_best ss
     (case find (\<lambda>b. sg_name b = sg_name s) best of
        None \<Rightarrow> best @ [s]
      | Some b \<Rightarrow> if sg_weight s > sg_weight b
                  then update_where (\<lambda>b. sg_name b = sg_name s) (\<lambda>_. s) best else best)"

definition band_of :: "int \<Rightarrow> string \<times> string" where
  "band_of score = (case find (\<lambda>(threshold, _). threshold \<le> score) bands of
     Some (_, name, label) \<Rightarrow> (name, label)
   | None \<Rightarrow> (''username_only'', snd (snd (last bands))))"

definition result_of :: "sig list \<Rightarrow> confidence_result" where
  "result_of signals =
     (let ordered = sort_key (\<lambda>s. - sg_weight s) (keep_best signals []);
          score = max 0 (min 100 (sum_list (map sg_weight ordered)));
          (band, label) = band_of score
      in \<lparr>cr_score = score, cr_band = band, cr_label = label, cr_signals = ordered\<rparr>)"

definition facts_of :: "facts option \<Rightarrow> facts" where
  "facts_of a = (case a of None \<Rightarrow> no_facts | Some f \<Rightarrow> f)"

text \<open>All signals in the order they are added, given the derived domains, emails and crossed matches.\<close>

definition pair_signals ::
  "(string \<Rightarrow> string) \<Rightarrow> bool \<Rightarrow> facts \<Rightarrow> facts \<Rightarrow> string option \<Rightarrow> string option \<Rightarrow> string \<Rightarrow> string \<Rightarrow> sig list \<Rightarrow> sig list" where
  "pair_signals repr same_username a b da db ea eb cross =
     (if same_username then [add_signal exact_username ''Exact username match''] else [])
     @ name_signals repr a b @ website_signals da db @ bio_signals a b @ email_signals ea eb @ cross
     @ avatar_signals a b @ location_signals a b"

definition score_pair ::
  "(string \<Rightarrow> string) \<Rightarrow> facts option \<Rightarrow> facts option \<Rightarrow> bool \<Rightarrow> exn + confidence_result" where
  "score_pair repr a b same_username =
     (let a = facts_of a; b = facts_of b in
      case website_domain (fa_website a) of Inl e \<Rightarrow> Inl e | Inr da \<Rightarrow>
         (case website_domain (fa_website b) of Inl e \<Rightarrow> Inl e | Inr db \<Rightarrow>
         (case norm_email (fa_email a) of Inl e \<Rightarrow> Inl e | Inr ea \<Rightarrow>
         (case norm_email (fa_email b) of Inl e \<Rightarrow> Inl e | Inr eb \<Rightarrow>
         (case cross_signals [(text_of da, eb), (text_of db, ea)] of Inl e \<Rightarrow> Inl e | Inr cross \<Rightarrow>
           Inr (result_of (pair_signals repr same_username a b da db ea eb cross)))))))"

text \<open>\<open>score_account\<close>: the first of the highest pairwise results; the list is built before the maximum.\<close>

fun score_peers :: "(string \<Rightarrow> string) \<Rightarrow> facts option \<Rightarrow> bool \<Rightarrow> facts list \<Rightarrow> exn + confidence_result list" where
  "score_peers repr f same [] = Inr []"
| "score_peers repr f same (p # ps) =
     (case score_pair repr f (Some p) same of Inl e \<Rightarrow> Inl e | Inr r \<Rightarrow>
        (case score_peers repr f same ps of Inl e \<Rightarrow> Inl e | Inr rs \<Rightarrow> Inr (r # rs)))"

fun first_max :: "confidence_result \<Rightarrow> confidence_result list \<Rightarrow> confidence_result" where
  "first_max r [] = r"
| "first_max r (x # xs) = first_max (if cr_score r < cr_score x then x else r) xs"

definition score_account :: "(string \<Rightarrow> string) \<Rightarrow> facts option \<Rightarrow> facts list \<Rightarrow> bool \<Rightarrow> exn + confidence_result" where
  "score_account repr f peers same =
     (case score_peers repr f same peers of
        Inl e \<Rightarrow> Inl e
      | Inr [] \<Rightarrow> score_pair repr f None same
      | Inr (r # rs) \<Rightarrow> Inr (first_max r rs))"

definition assert_safe_phrasing :: "string \<Rightarrow> exn + unit" where
  "assert_safe_phrasing text =
     (if list_ex (\<lambda>p. contains p (lower text)) forbidden_phrases
      then Inl (AssertionError ''forbidden identity claim in output'') else Inr ())"

section \<open>Lemmas\<close>

definition weighed :: "sig list \<Rightarrow> bool" where
  "weighed ss \<longleftrightarrow> list_all (\<lambda>s. sg_weight s = weight_of (sg_name s)) ss"

lemma weighed_signals [simp]:
  "weighed []" "weighed (s # ss) \<longleftrightarrow> sg_weight s = weight_of (sg_name s) \<and> weighed ss"
  "weighed (ss @ ts) \<longleftrightarrow> weighed ss \<and> weighed ts"
  "weighed (name_signals repr a b)" "weighed (website_signals da db)" "weighed (bio_signals a b)"
  "weighed (email_signals ea eb)" "weighed (avatar_signals a b)" "weighed (location_signals a b)"
  "sg_weight (add_signal n t) = weight_of n" "sg_name (add_signal n t) = n"
  by (auto simp: weighed_def name_signals_def website_signals_def bio_signals_def email_signals_def avatar_signals_def
      location_signals_def add_signal_def Let_def)

lemma weighed_cross: "cross_signals ps = Inr ss \<Longrightarrow> weighed ss"
  by (induction ps arbitrary: ss rule: cross_signals.induct) (auto split: if_splits sum.splits)

text \<open>As weights depend on the name only, the dictionary keeps one signal per name and loses no name.\<close>

lemma keep_best_names:
  assumes "weighed ss" and "weighed best" and "distinct (map sg_name best)"
  shows "weighed (keep_best ss best) \<and> distinct (map sg_name (keep_best ss best)) \<and>
    sg_name ` set (keep_best ss best) = sg_name ` set best \<union> sg_name ` set ss"
  using assms
proof (induction ss best rule: keep_best.induct)
  case (2 s ss best)
  show ?case
  proof (cases "find (\<lambda>b. sg_name b = sg_name s) best")
    case None
    then have "sg_name s \<notin> sg_name ` set best" by (auto simp: find_None_iff)
    with 2 None show ?thesis by auto
  next
    case (Some b)
    then have b: "b \<in> set best" "sg_name b = sg_name s" by (auto dest: find_Some_in)
    have "sg_weight b = weight_of (sg_name b)" using b(1) "2.prems"(2) by (auto simp: weighed_def list_all_iff)
    with b(2) "2.prems"(1) have "\<not> sg_weight s > sg_weight b" by simp
    moreover have "sg_name s \<in> sg_name ` set best" using b by (metis image_eqI)
    ultimately show ?thesis using 2 Some by auto
  qed
qed simp

lemma weight_nonneg [simp]: "0 \<le> weight_of n"
  by (cases n) simp_all

lemma result_of_facts:
  assumes "weighed ss"
  shows "cr_score (result_of ss) = min 100 (\<Sum>n \<in> sg_name ` set ss. weight_of n)"
    and "distinct (map sg_name (cr_signals (result_of ss)))"
    and "sg_name ` set (cr_signals (result_of ss)) = sg_name ` set ss"
    and "sorted (map (\<lambda>s. - sg_weight s) (cr_signals (result_of ss)))"
    and "(cr_band (result_of ss), cr_label (result_of ss)) = band_of (cr_score (result_of ss))"
proof -
  let ?best = "keep_best ss []"
  have best: "weighed ?best" "distinct (map sg_name ?best)" "sg_name ` set ?best = sg_name ` set ss"
    using keep_best_names [OF assms, of "[]"] by simp_all
  have sigs: "cr_signals (result_of ss) = sort_key (\<lambda>s. - sg_weight s) ?best"
    by (simp add: result_of_def Let_def split: prod.splits)
  have dist: "distinct (map sg_name (sort_key (\<lambda>s. - sg_weight s) ?best))"
    using best(2) by (simp add: distinct_map)
  show "distinct (map sg_name (cr_signals (result_of ss)))" by (simp only: sigs dist)
  show "sg_name ` set (cr_signals (result_of ss)) = sg_name ` set ss" by (simp add: sigs best(3))
  show "sorted (map (\<lambda>s. - sg_weight s) (cr_signals (result_of ss)))" by (simp add: sigs)
  have "map sg_weight (sort_key (\<lambda>s. - sg_weight s) ?best) = map weight_of (map sg_name (sort_key (\<lambda>s. - sg_weight s) ?best))"
    using best(1) unfolding map_map by (intro map_cong) (simp_all add: weighed_def list_all_iff)
  then have "sum_list (map sg_weight (sort_key (\<lambda>s. - sg_weight s) ?best)) =
      (\<Sum>n \<in> set (map sg_name (sort_key (\<lambda>s. - sg_weight s) ?best)). weight_of n)"
    using sum_list_distinct_conv_sum_set [OF dist, of weight_of] by (simp only:)
  also have "\<dots> = (\<Sum>n \<in> sg_name ` set ss. weight_of n)" by (simp add: best(3))
  finally have total: "sum_list (map sg_weight (sort_key (\<lambda>s. - sg_weight s) ?best)) = (\<Sum>n \<in> sg_name ` set ss. weight_of n)" .
  have "0 \<le> (\<Sum>n \<in> sg_name ` set ss. weight_of n)" by (intro sum_nonneg) simp
  then show "cr_score (result_of ss) = min 100 (\<Sum>n \<in> sg_name ` set ss. weight_of n)"
    by (simp add: result_of_def Let_def total split: prod.splits)
  show "(cr_band (result_of ss), cr_label (result_of ss)) = band_of (cr_score (result_of ss))"
    by (simp add: result_of_def Let_def split: prod.splits)
qed

text \<open>What a successful comparison consists of.\<close>

lemma score_pair_Inr:
  assumes "score_pair repr a b same = Inr r"
  obtains da db ea eb cross where
    "website_domain (fa_website (facts_of a)) = Inr da" "website_domain (fa_website (facts_of b)) = Inr db"
    "norm_email (fa_email (facts_of a)) = Inr ea" "norm_email (fa_email (facts_of b)) = Inr eb"
    "cross_signals [(text_of da, eb), (text_of db, ea)] = Inr cross"
    "r = result_of (pair_signals repr same (facts_of a) (facts_of b) da db ea eb cross)"
proof -
  from assms have "\<exists>da db ea eb cross. website_domain (fa_website (facts_of a)) = Inr da \<and>
    website_domain (fa_website (facts_of b)) = Inr db \<and>
    norm_email (fa_email (facts_of a)) = Inr ea \<and> norm_email (fa_email (facts_of b)) = Inr eb \<and>
    cross_signals [(text_of da, eb), (text_of db, ea)] = Inr cross \<and>
    r = result_of (pair_signals repr same (facts_of a) (facts_of b) da db ea eb cross)"
    by (simp add: score_pair_def Let_def del: cross_signals.simps split: sum.splits)
  with that show ?thesis by blast
qed

lemma pair_signals_weighed: "weighed cross \<Longrightarrow> weighed (pair_signals repr same a b da db ea eb cross)"
  by (simp add: pair_signals_def)

text \<open>The names of the signals do not depend on the order of the two accounts.\<close>

lemma jaccard_ge_commute: "jaccard_ge n m a b = jaccard_ge n m b a"
  by (auto simp: jaccard_ge_def Un_commute Int_commute)

lemma signal_names_commute:
  "sg_name ` set (name_signals repr a b) = sg_name ` set (name_signals repr b a)"
  "sg_name ` set (website_signals da db) = sg_name ` set (website_signals db da)"
  "sg_name ` set (bio_signals a b) = sg_name ` set (bio_signals b a)"
  "sg_name ` set (email_signals ea eb) = sg_name ` set (email_signals eb ea)"
  "sg_name ` set (avatar_signals a b) = sg_name ` set (avatar_signals b a)"
  "sg_name ` set (location_signals a b) = sg_name ` set (location_signals b a)"
  using jaccard_ge_commute by (auto simp: name_signals_def website_signals_def bio_signals_def email_signals_def
      avatar_signals_def location_signals_def Let_def)

lemma cross_names_commute:
  "cross_signals [p, q] = Inr ss \<Longrightarrow> cross_signals [q, p] = Inr ts \<Longrightarrow> sg_name ` set ss = sg_name ` set ts"
  by (cases p; cases q) (auto split: if_splits sum.splits)

section \<open>Properties\<close>

text \<open>
  C21. A comparison that returns gives a score between 0 and 100, the capped sum of the weights of its
  signals; each signal is listed once, heaviest first; the band and label are those of the score; and
  the two accounts can be swapped: the score and the band are the same.
\<close>

theorem confidence_sound:
  assumes run: "score_pair repr a b same = Inr r" and swapped: "score_pair repr b a same = Inr r'"
  shows "0 \<le> cr_score r \<and> cr_score r \<le> 100 \<and>
    cr_score r = min 100 (sum_list (map (\<lambda>s. weight_of (sg_name s)) (cr_signals r))) \<and>
    distinct (map sg_name (cr_signals r)) \<and> sorted (map (\<lambda>s. - sg_weight s) (cr_signals r)) \<and>
    (cr_band r, cr_label r) = band_of (cr_score r) \<and>
    cr_score r' = cr_score r \<and> cr_band r' = cr_band r"
proof -
  from score_pair_Inr [OF run] obtain da db ea eb cross where
    e: "website_domain (fa_website (facts_of a)) = Inr da" "website_domain (fa_website (facts_of b)) = Inr db"
      "norm_email (fa_email (facts_of a)) = Inr ea" "norm_email (fa_email (facts_of b)) = Inr eb" and
    cross: "cross_signals [(text_of da, eb), (text_of db, ea)] = Inr cross" and
    r: "r = result_of (pair_signals repr same (facts_of a) (facts_of b) da db ea eb cross)" .
  from score_pair_Inr [OF swapped] obtain da' db' ea' eb' cross' where
    e': "website_domain (fa_website (facts_of b)) = Inr da'" "website_domain (fa_website (facts_of a)) = Inr db'"
      "norm_email (fa_email (facts_of b)) = Inr ea'" "norm_email (fa_email (facts_of a)) = Inr eb'" and
    cross': "cross_signals [(text_of da', eb'), (text_of db', ea')] = Inr cross'" and
    r': "r' = result_of (pair_signals repr same (facts_of b) (facts_of a) da' db' ea' eb' cross')" .
  have eq: "da' = db" "db' = da" "ea' = eb" "eb' = ea" using e e' by simp_all
  let ?ss = "pair_signals repr same (facts_of a) (facts_of b) da db ea eb cross"
  let ?ts = "pair_signals repr same (facts_of b) (facts_of a) db da eb ea cross'"
  have w: "weighed ?ss" "weighed ?ts"
    by (rule pair_signals_weighed weighed_cross [OF cross] weighed_cross [OF cross'])+
  note names = result_of_facts [OF w(1)] and names' = result_of_facts [OF w(2)]
  have "sg_name ` set ?ss = sg_name ` set ?ts"
    unfolding pair_signals_def set_append image_Un
    using cross_names_commute [OF cross cross' [unfolded eq]] signal_names_commute(1) [of repr "facts_of a" "facts_of b"]
      signal_names_commute(3,5,6) [of "facts_of a" "facts_of b"] signal_names_commute(2) [of da db] signal_names_commute(4) [of ea eb] by simp
  then have same: "cr_score r' = cr_score r" unfolding r r' eq names(1) names'(1) by simp
  have nonneg: "0 \<le> (\<Sum>n \<in> sg_name ` set ?ss. weight_of n)" by (intro sum_nonneg) simp
  have "sum_list (map weight_of (map sg_name (cr_signals r))) = (\<Sum>n \<in> sg_name ` set ?ss. weight_of n)"
    unfolding r using sum_list_distinct_conv_sum_set [OF names(2), of weight_of] by (simp only: set_map names(3))
  then have total: "cr_score r = min 100 (sum_list (map (\<lambda>s. weight_of (sg_name s)) (cr_signals r)))"
    using names(1) by (simp add: r comp_def)
  have "(cr_band r', cr_label r') = (cr_band r, cr_label r)"
    using names(5) names'(5) same unfolding r r' eq by simp
  then have "cr_band r' = cr_band r" by simp
  moreover have "0 \<le> cr_score r" "cr_score r \<le> 100" using nonneg unfolding r names(1) by simp_all
  moreover have "distinct (map sg_name (cr_signals r))" "sorted (map (\<lambda>s. - sg_weight s) (cr_signals r))"
    "(cr_band r, cr_label r) = band_of (cr_score r)" using names(2,4,5) unfolding r by blast+
  ultimately show ?thesis using same total by blast
qed

definition alice :: facts where
  "alice = \<lparr>fa_display_name = Some ''Alice B. Smith'', fa_bio = None, fa_website = Some ''https://www.alice.example/x'',
     fa_email = Some ''a@alice.example'', fa_location = None, fa_avatar = None\<rparr>"

definition alice2 :: facts where
  "alice2 = \<lparr>fa_display_name = Some ''alice  b smith'', fa_bio = None, fa_website = None,
     fa_email = Some ''info@alice.example'', fa_location = None, fa_avatar = None\<rparr>"

theorem confidence_sound_witness:
  "\<exists>r. score_pair id (Some alice) (Some alice2) True = Inr r \<and> cr_score r = 60 \<and> cr_score r \<le> 100"
proof -
  have "case score_pair id (Some alice) (Some alice2) True of Inl _ \<Rightarrow> False | Inr r \<Rightarrow> cr_score r = 60"
    by code_simp
  then obtain r where r: "score_pair id (Some alice) (Some alice2) True = Inr r" "cr_score r = 60"
    by (auto split: sum.splits)
  have "case score_pair id (Some alice2) (Some alice) True of Inl _ \<Rightarrow> False | Inr r \<Rightarrow> True"
    by code_simp
  then obtain r' where r': "score_pair id (Some alice2) (Some alice) True = Inr r'"
    by (auto split: sum.splits)
  from confidence_sound [OF r(1) r'] r show ?thesis by blast
qed

text \<open>
  The lowest band cannot be reached when the handles match: the match itself already scores 25,
  above the threshold 20 of the next band. So the label "username match only" is never given to
  a mere username match, and it is as well, since the engine's own phrasing guard rejects that label.
\<close>

lemma username_only_unreachable:
  "(case score_pair repr a b True of Inl _ \<Rightarrow> True | Inr r \<Rightarrow> 25 \<le> cr_score r \<and> cr_band r \<noteq> ''username_only'') \<and>
   fst (band_of 0) = ''username_only'' \<and>
   assert_safe_phrasing (snd (band_of 0)) = Inl (AssertionError ''forbidden identity claim in output'')"
proof -
  have "25 \<le> cr_score r \<and> cr_band r \<noteq> ''username_only''" if run: "score_pair repr a b True = Inr r" for r
  proof -
    from score_pair_Inr [OF run] obtain da db ea eb cross where
      cross: "cross_signals [(text_of da, eb), (text_of db, ea)] = Inr cross" and
      r: "r = result_of (pair_signals repr True (facts_of a) (facts_of b) da db ea eb cross)" .
    let ?ss = "pair_signals repr True (facts_of a) (facts_of b) da db ea eb cross"
    have w: "weighed ?ss" by (rule pair_signals_weighed weighed_cross [OF cross])+
    have "weight_of exact_username \<le> (\<Sum>n \<in> sg_name ` set ?ss. weight_of n)"
      by (rule member_le_sum) (simp_all add: pair_signals_def)
    then have "25 \<le> cr_score r" unfolding r result_of_facts(1) [OF w] by simp
    moreover from this have "fst (band_of (cr_score r)) \<noteq> ''username_only''"
      by (simp add: band_of_def bands_def)
    moreover have "fst (band_of (cr_score r)) = cr_band r" using result_of_facts(5) [OF w] unfolding r by (metis fst_conv)
    ultimately show ?thesis by simp
  qed
  moreover have "fst (band_of 0) = ''username_only''" by (simp add: band_of_def bands_def)
  moreover have "assert_safe_phrasing (snd (band_of 0)) = Inl (AssertionError ''forbidden identity claim in output'')"
    by code_simp
  ultimately show ?thesis by (auto split: sum.splits)
qed

end
