(* ===== verification/Collector.thy ===== *)
theory Collector
  imports Auth
begin

text \<open>
  \<open>collectors/common/interfaces.py\<close>: the data collectors hand to ingestion, the validation every
  collector shares, and the orchestration \<open>run\<close>. What a concrete collector fetches and how it
  normalises it are parameters. Entity and edge types are the values of their enums. Natural keys and attributes are dictionaries of JSON values.
\<close>

record collect_request =
  rq_query :: string
  rq_kind :: string
  rq_limit :: int
  rq_since :: "int option"

record health_status =
  hs_name :: string
  hs_healthy :: bool
  hs_detail :: "string option"

record evidence_draft =
  dr_ref :: string
  dr_field :: "string option"
  dr_value :: json
  dr_source :: string
  dr_source_type :: string
  dr_reference :: "string option"
  dr_observed_at :: "int option"
  dr_confidence :: int
  dr_raw :: "string option"
  dr_method :: "string option"

record normalized_record =
  nr_ref :: string
  nr_entity_type :: entity_type
  nr_natural_key :: "(string \<times> json) list"
  nr_attributes :: "(string \<times> json) list"
  nr_evidence :: "evidence_draft list"

record relationship_draft =
  rd_source_ref :: string
  rd_target_ref :: string
  rd_type :: rel_type
  rd_confidence :: int

record 'p raw_bundle =
  rb_kind :: string
  rb_source :: string
  rb_payload :: 'p
  rb_partial :: bool
  rb_error :: "string option"
  rb_notes :: "string list"

record collect_result =
  co_source :: string
  co_ok :: bool
  co_records :: "normalized_record list"
  co_relationships :: "relationship_draft list"
  co_partial :: bool
  co_error :: "string option"
  co_notes :: "string list"

section \<open>Validation\<close>

text \<open>A key without a usable value; a list inside a key cannot be hashed.\<close>

definition empty_value :: "json \<Rightarrow> bool" where
  "empty_value v \<longleftrightarrow> v = JNull \<or> v = JStr [] \<or> v = JList []"

fun unhashable :: "json \<Rightarrow> bool" where
  "unhashable (JList _) = True"
| "unhashable (JObj _) = True"
| "unhashable _ = False"

text \<open>The keys of a dictionary are distinct, so its sorted items are compared as a set of items.\<close>

definition dedup_key :: "normalized_record \<Rightarrow> entity_type \<times> (string \<times> json) set" where
  "dedup_key r = (nr_entity_type r, set (nr_natural_key r))"

definition unusable :: "normalized_record \<Rightarrow> bool" where
  "unusable r \<longleftrightarrow> nr_natural_key r = [] \<or> list_all (\<lambda>(k, v). empty_value v) (nr_natural_key r)"

fun validate_from :: "(entity_type \<times> (string \<times> json) set) list \<Rightarrow> normalized_record list \<Rightarrow> exn + normalized_record list" where
  "validate_from seen [] = Inr []"
| "validate_from seen (r # rs) =
     (if unusable r then validate_from seen rs
      else if list_ex (\<lambda>(k, v). unhashable v) (nr_natural_key r) then Inl (TypeError ''unhashable type'')
      else if dedup_key r \<in> set seen then validate_from seen rs
      else map_sum id (\<lambda>out. r # out) (validate_from (seen @ [dedup_key r]) rs))"

definition validate :: "normalized_record list \<Rightarrow> exn + normalized_record list" where
  "validate rs = validate_from [] rs"

section \<open>Orchestration\<close>

definition failed_result :: "string \<Rightarrow> string \<Rightarrow> collect_result" where
  "failed_result source err = \<lparr>co_source = source, co_ok = False, co_records = [], co_relationships = [],
     co_partial = False, co_error = Some err, co_notes = []\<rparr>"

definition run_collector ::
  "string \<Rightarrow> bool \<Rightarrow> string \<Rightarrow> (exn + 'p raw_bundle) \<Rightarrow> ('p raw_bundle \<Rightarrow> exn + normalized_record list) \<Rightarrow>
   ('p raw_bundle \<Rightarrow> normalized_record list \<Rightarrow> relationship_draft list) \<Rightarrow> exn + collect_result" where
  "run_collector source supported kind collected normalise rels_of =
     (if \<not> supported then Inr (failed_result source (''unsupported kind: '' @ kind))
      else (case collected of
        Inl (CollectorError m) \<Rightarrow> Inr (failed_result source m)
      | Inl e \<Rightarrow> Inr (failed_result source (exn_text e))
      | Inr raw \<Rightarrow>
          (case normalise raw of
             Inl e \<Rightarrow> Inl e
           | Inr recs \<Rightarrow>
               (case validate recs of
                  Inl e \<Rightarrow> Inl e
                | Inr out \<Rightarrow>
                    Inr \<lparr>co_source = source, co_ok = (rb_error raw = None), co_records = out,
                         co_relationships = rels_of raw out, co_partial = rb_partial raw,
                         co_error = rb_error raw, co_notes = rb_notes raw\<rparr>))))"

text \<open>A batch of usable records with distinct keys passes as it is.\<close>

lemma validate_from_id:
  "list_all (\<lambda>r. \<not> unusable r \<and> \<not> list_ex (\<lambda>(k, v). unhashable v) (nr_natural_key r)) rs \<Longrightarrow> distinct (map dedup_key rs) \<Longrightarrow>
   set seen \<inter> dedup_key ` set rs = {} \<Longrightarrow> validate_from seen rs = Inr rs"
  by (induction rs arbitrary: seen) auto

section \<open>Properties\<close>

text \<open>The three ways a record can go.\<close>

lemma validate_from_cases:
  assumes "validate_from seen (r # rs) = Inr out"
  shows "(unusable r \<or> dedup_key r \<in> set seen) \<and> validate_from seen rs = Inr out \<or>
    \<not> unusable r \<and> dedup_key r \<notin> set seen \<and>
    (\<exists>out'. validate_from (seen @ [dedup_key r]) rs = Inr out' \<and> out = r # out')"
  using assms by (cases "validate_from (seen @ [dedup_key r]) rs") (auto split: if_splits)

lemma validate_from_spec:
  "validate_from seen rs = Inr out \<Longrightarrow>
   subseq out rs \<and> distinct (map dedup_key out) \<and> (\<forall>r \<in> set out. \<not> unusable r \<and> dedup_key r \<notin> set seen) \<and>
   (\<forall>r \<in> set rs. unusable r \<or> dedup_key r \<in> set seen \<union> dedup_key ` set out)"
proof (induction rs arbitrary: seen out)
  case (Cons r rs)
  from validate_from_cases [OF Cons.prems] show ?case
  proof (elim disjE conjE exE)
    assume "validate_from seen rs = Inr out" "unusable r"
    with Cons.IH [of seen out] show ?thesis by auto
  next
    assume "validate_from seen rs = Inr out" "dedup_key r \<in> set seen"
    with Cons.IH [of seen out] show ?thesis by auto
  next
    fix out' assume "validate_from (seen @ [dedup_key r]) rs = Inr out'" "out = r # out'"
      "\<not> unusable r" "dedup_key r \<notin> set seen"
    with Cons.IH [of "seen @ [dedup_key r]" out'] show ?thesis by auto
  qed
qed simp

text \<open>
  C20. A collector whose fetch raises yields a failed result, never an exception; whatever a successful
  run hands to ingestion has been validated: a subsequence of what was normalised, with one record
  per type and natural key, none without a usable key, and no usable key dropped.
\<close>

theorem collector_run_sound:
  "(case collected of
      Inl e \<Rightarrow> \<exists>r. run_collector source True kind collected normalise rels_of = Inr r \<and>
        \<not> co_ok r \<and> co_error r \<noteq> None \<and> co_records r = []
    | Inr raw \<Rightarrow> True) \<and>
   (case run_collector source True kind collected normalise rels_of of
      Inl e \<Rightarrow> True
    | Inr r \<Rightarrow> distinct (map dedup_key (co_records r)) \<and> list_all (\<lambda>x. \<not> unusable x) (co_records r) \<and>
        (case collected of Inl e \<Rightarrow> True | Inr raw \<Rightarrow>
          (case normalise raw of Inl e \<Rightarrow> True | Inr recs \<Rightarrow>
             subseq (co_records r) recs \<and> dedup_key ` set (filter (\<lambda>x. \<not> unusable x) recs) = dedup_key ` set (co_records r))))"
proof (cases collected)
  case (Inl e)
  then show ?thesis by (cases e) (simp_all add: run_collector_def failed_result_def)
next
  case (Inr raw)
  show ?thesis
  proof (cases "normalise raw")
    case (Inr recs)
    show ?thesis
    proof (cases "validate recs")
      case valid: (Inr out)
      note spec = validate_from_spec [OF valid [unfolded validate_def]]
      then have "set out \<subseteq> set recs" by (auto elim: list_emb_set)
      with spec have "dedup_key ` set (filter (\<lambda>x. \<not> unusable x) recs) = dedup_key ` set out" by auto
      with spec valid Inr \<open>collected = Inr raw\<close> show ?thesis
        by (simp add: run_collector_def list_all_iff)
    qed (use Inr \<open>collected = Inr raw\<close> in \<open>simp add: run_collector_def\<close>)
  qed (use Inr in \<open>simp add: run_collector_def\<close>)
qed

end
