(* ===== verification/IocExtract.thy ===== *)
theory IocExtract
  imports Regex Entities "HOL-Library.Product_Lexorder"
begin

text \<open>
  \<open>intelligence/ioc/extract.py\<close>: the indicators a text contains. The regular expressions are
  written out as terms of \<^typ>\<open>regex\<close>; the scan is a sequence of stages over the matches so far
  and the spans they cover.
\<close>

section \<open>Patterns\<close>

definition chr :: "char \<Rightarrow> regex" where
  "chr c = Chr (\<lambda>d. d = c)"

definition spaces :: regex where
  "spaces = star (Chr is_space)"

definition is_alnum_az :: "char \<Rightarrow> bool" where
  "is_alnum_az c \<longleftrightarrow> is_alpha_az c \<or> is_decimal c"

definition is_hex :: "char \<Rightarrow> bool" where
  "is_hex c \<longleftrightarrow> hex_digit c \<noteq> None"

definition is_word_az :: "char \<Rightarrow> bool" where
  "is_word_az c \<longleftrightarrow> is_alnum_az c \<or> c = CHR ''_''"

text \<open>\<open>_DEFANG_SUBS\<close>: patterns and replacements, applied one after the other.\<close>

definition bracketed :: "char \<Rightarrow> regex \<Rightarrow> char \<Rightarrow> regex" where
  "bracketed a r b = seqs [spaces, chr a, spaces, r, spaces, chr b, spaces]"

definition hxxp_re :: regex where
  "hxxp_re = seqs [lit_nc ''hxxp'', opt (lit_nc ''s''), lit ''://'']"

definition defang_subs :: "(regex \<times> (string \<Rightarrow> string)) list" where
  "defang_subs =
     (let dot = Alt (chr CHR ''.'') (lit_nc ''dot''); at_sign = Alt (chr CHR ''@'') (lit_nc ''at'');
          blanks = plus (Chr is_space)
      in [(hxxp_re, \<lambda>m. ''http'' @ take (length m - 7) (drop 4 m) @ ''://''),
          (seqs [chr CHR ''['', spaces, chr CHR '':'', spaces, chr CHR '']''], \<lambda>_. '':''),
          (seqs [chr CHR ''['', spaces, lit ''://'', spaces, chr CHR '']''], \<lambda>_. ''://''),
          (bracketed CHR ''['' dot CHR '']'', \<lambda>_. ''.''),
          (bracketed CHR ''('' dot CHR '')'', \<lambda>_. ''.''),
          (bracketed CHR ''{'' dot CHR ''}'', \<lambda>_. ''.''),
          (seqs [blanks, lit_nc ''dot'', blanks], \<lambda>_. ''.''),
          (bracketed CHR ''['' at_sign CHR '']'', \<lambda>_. ''@''),
          (bracketed CHR ''('' at_sign CHR '')'', \<lambda>_. ''@''),
          (seqs [blanks, lit_nc ''at'', blanks], \<lambda>_. ''@'')])"

definition refang :: "string \<Rightarrow> string" where
  "refang text = foldl (\<lambda>out (r, f). resub r f out) text defang_subs"

definition url_re :: regex where
  "url_re = seqs [Bound, Alt (seqs [lit_nc ''http'', opt (lit_nc ''s'')]) (lit_nc ''ftp''), lit ''://'',
     plus (Chr (\<lambda>c. \<not> is_space c \<and> c \<notin> set ''<>`)]}|'' \<and> code c \<noteq> 34 \<and> code c \<noteq> 39))]"

definition tg_hosts :: regex where
  "tg_hosts = alts [lit_nc ''t.me'', lit_nc ''telegram.me'', lit_nc ''telegram.dog'']"

definition tg_url_re :: regex where
  "tg_url_re = seqs [Bound, opt (seqs [lit_nc ''http'', opt (lit_nc ''s''), lit ''://'']), tg_hosts, chr CHR ''/'',
     opt (Alt (lit_nc ''joinchat/'') (chr CHR ''+'')),
     plus (Chr (\<lambda>c. is_alnum_az c \<or> c \<in> set ''_./+-''))]"

definition email_re :: regex where
  "email_re = seqs [Bound, plus (Chr (\<lambda>c. is_alnum_az c \<or> c \<in> set ''._%+-'')), chr CHR ''@'',
     plus (seqs [plus (Chr (\<lambda>c. is_alnum_az c \<or> c = CHR ''-'')), chr CHR ''.'']), Rep 2 None (Chr is_alpha_az), Bound]"

definition octet_re :: regex where
  "octet_re = (let d = Chr is_decimal; digits = (\<lambda>w. Chr (\<lambda>c. c \<in> set w)) in
     alts [seqs [lit ''25'', digits ''012345''], seqs [chr CHR ''2'', digits ''01234'', d], seqs [chr CHR ''1'', d, d],
           seqs [opt (digits ''123456789''), d]])"

definition ipv4_re :: regex where
  "ipv4_re = seqs [NotAfter (\<lambda>c. is_word c \<or> c = CHR ''.''), Rep 3 (Some 3) (seqs [octet_re, chr CHR ''.'']), octet_re,
     NotBefore (\<lambda>c. is_word c \<or> c = CHR ''.'')]"

definition ipv6_re :: regex where
  "ipv6_re =
     (let h = Rep 1 (Some 4) (Chr is_hex); colon = chr CHR '':'';
          edge = (\<lambda>c. is_word c \<or> c = CHR '':'' \<or> c = CHR ''.'');
          left = (\<lambda>m n. Rep m (Some n) (seqs [h, colon])); right = (\<lambda>n. Rep 1 (Some n) (seqs [colon, h]))
      in seqs [NotAfter edge,
           alts [seqs [left 7 7, h], seqs [left 1 7, colon], seqs [left 1 6, colon, h], seqs [left 1 5, right 2],
                 seqs [left 1 4, right 3], seqs [left 1 3, right 4], seqs [left 1 2, right 5], seqs [h, colon, right 6]],
           NotBefore edge])"

definition domain_re :: regex where
  "domain_re =
     (let alnum = Chr is_alnum_az in
      seqs [Bound, plus (seqs [alnum, opt (seqs [Rep 0 (Some 61) (Chr (\<lambda>c. is_alnum_az c \<or> c = CHR ''-'')), alnum]), chr CHR ''.'']),
        Rep 2 (Some 24) (Chr is_alpha_az), Bound])"

definition hash_re :: "nat \<Rightarrow> regex" where
  "hash_re n = seqs [Bound, Rep n (Some n) (Chr is_hex), Bound]"

definition cve_re :: regex where
  "cve_re = seqs [Bound, lit_nc ''cve-'', Rep 4 (Some 4) (Chr is_decimal), chr CHR ''-'', Rep 4 (Some 7) (Chr is_decimal), Bound]"

definition handle_re :: regex where
  "handle_re = seqs [Chr is_alpha_az, Rep 4 (Some 31) (Chr is_word_az), Bound]"

definition tg_username_re :: regex where
  "tg_username_re = seqs [NotAfter (\<lambda>c. is_word c \<or> c \<in> set ''@/''), chr CHR ''@'', handle_re]"

definition domain_stop_tlds :: "string list" where
  "domain_stop_tlds = py_words (
     ''php html htm json xml yaml yml toml ini cfg conf txt md rst log csv tsv pdf doc docx ''
   @ ''xls xlsx ppt pptx odt rtf py js ts jsx tsx rb go rs java kt cpp cc hpp cs sh bat ps1 ''
   @ ''pl lua sql exe dll so dylib bin app msi deb rpm apk dmg iso zip tar gz bz2 xz 7z rar ''
   @ ''png jpg jpeg gif bmp svg webp ico mp3 mp4 wav avi mov mkv webm flac woff woff2 ttf ''
   @ ''eot css scss less map lock env bak tmp old orig swp class jar war pyc lib dat'')"

section \<open>Matches\<close>

record ioc_match =
  im_type :: ioc_type
  im_value :: string
  im_norm :: string
  im_start :: nat
  im_end :: nat
  im_derived :: "string option"

definition im_key :: "ioc_match \<Rightarrow> ioc_type \<times> string" where
  "im_key m = (im_type m, im_norm m)"

definition ioc_match_of :: "ioc_type \<Rightarrow> string \<Rightarrow> string \<Rightarrow> nat \<Rightarrow> nat \<Rightarrow> string option \<Rightarrow> ioc_match" where
  "ioc_match_of t v n a b dv = \<lparr>im_type = t, im_value = v, im_norm = n, im_start = a, im_end = b, im_derived = dv\<rparr>"

definition valid_ipv6 :: "string \<Rightarrow> bool" where
  "valid_ipv6 candidate \<longleftrightarrow> parse_v6 candidate \<noteq> None"

definition looks_like_domain :: "string \<Rightarrow> bool" where
  "looks_like_domain value =
     (let tld = lower (after_last CHR ''.'' value) in tld \<notin> set domain_stop_tlds \<and> \<not> isdigit tld)"

definition host_of :: "string \<Rightarrow> exn + string option" where
  "host_of normalized_url = map_sum id url_hostname (urlsplit normalized_url)"

definition inside :: "nat \<Rightarrow> (nat \<times> nat) list \<Rightarrow> bool" where
  "inside i spans \<longleftrightarrow> list_ex (\<lambda>(a, b). a \<le> i \<and> i < b) spans"

section \<open>The stages\<close>

type_synonym scan_state = "ioc_match list \<times> (nat \<times> nat) list"

definition trailing :: "char \<Rightarrow> bool" where
  "trailing c \<longleftrightarrow> c \<in> set ''.,;:!?''"

text \<open>The domain an indicator implies, if it looks like one.\<close>

definition derive_domain :: "string \<Rightarrow> nat \<Rightarrow> nat \<Rightarrow> string \<Rightarrow> exn + ioc_match list" where
  "derive_domain host a b origin =
     (if host \<noteq> [] \<and> looks_like_domain host
      then map_sum id (\<lambda>n. [ioc_match_of IOC_DOMAIN host n a b (Some origin)]) (normalize_domain host)
      else Inr [])"

definition url_step :: "string \<Rightarrow> nat \<times> nat \<Rightarrow> scan_state \<Rightarrow> exn + scan_state" where
  "url_step s = (\<lambda>(a, b) (ms, covered).
     let raw = rstrip_by trailing (slice s a b); e = a + length raw in
     case normalize_url raw of Inl x \<Rightarrow> Inl x | Inr nrm \<Rightarrow>
       (case host_of nrm of Inl x \<Rightarrow> Inl x | Inr host \<Rightarrow>
         (case derive_domain (case host of None \<Rightarrow> [] | Some h \<Rightarrow> h) a e ''url'' of Inl x \<Rightarrow> Inl x | Inr ds \<Rightarrow>
           Inr (ms @ ioc_match_of IOC_URL raw nrm a e None # ds, covered @ [(a, e)]))))"

definition tg_url_step :: "string \<Rightarrow> nat \<times> nat \<Rightarrow> scan_state \<Rightarrow> exn + scan_state" where
  "tg_url_step s = (\<lambda>(a, b) (ms, covered).
     let raw = rstrip_by trailing (slice s a b) in
     case normalize_url raw of Inl x \<Rightarrow> Inl x | Inr nrm \<Rightarrow>
       (case search_group (seqs [tg_hosts, chr CHR ''/'']) handle_re (None, raw) of
          None \<Rightarrow> Inr (ms @ [ioc_match_of TELEGRAM_URL raw nrm a b None], covered @ [(a, b)])
        | Some h \<Rightarrow>
            (case normalize_username h of Inl x \<Rightarrow> Inl x | Inr u \<Rightarrow>
               Inr (ms @ [ioc_match_of TELEGRAM_URL raw nrm a b None,
                          ioc_match_of TELEGRAM_USERNAME h u a b (Some ''telegram_url'')], covered @ [(a, b)]))))"

definition email_step :: "string \<Rightarrow> nat \<times> nat \<Rightarrow> scan_state \<Rightarrow> exn + scan_state" where
  "email_step s = (\<lambda>(a, b) (ms, covered).
     if inside a covered then Inr (ms, covered)
     else (let raw = slice s a b in
       case normalize_email raw of Inl x \<Rightarrow> Inl x | Inr nrm \<Rightarrow>
         (case derive_domain (snd (snd (partition_char CHR ''@'' raw))) a b ''email'' of Inl x \<Rightarrow> Inl x | Inr ds \<Rightarrow>
            Inr (ms @ ioc_match_of IOC_EMAIL raw nrm a b None # ds, covered @ [(a, b)]))))"

definition hash_step :: "ioc_type \<Rightarrow> string \<Rightarrow> nat \<times> nat \<Rightarrow> scan_state \<Rightarrow> exn + scan_state" where
  "hash_step t s = (\<lambda>(a, b) (ms, covered).
     if inside a covered then Inr (ms, covered)
     else (let w = slice s a b in
       Inr (ms @ [ioc_match_of t w (normalize_hash w) a b None], covered @ [(a, b)])))"

definition cve_step :: "string \<Rightarrow> nat \<times> nat \<Rightarrow> scan_state \<Rightarrow> exn + scan_state" where
  "cve_step s = (\<lambda>(a, b) (ms, covered).
     let w = slice s a b in Inr (ms @ [ioc_match_of CVE w (normalize_cve w) a b None], covered))"

text \<open>An IPv4 candidate that does not parse is skipped; an IPv6 one may raise after \<open>strip(":")\<close>.\<close>

definition ipv4_step :: "string \<Rightarrow> nat \<times> nat \<Rightarrow> scan_state \<Rightarrow> exn + scan_state" where
  "ipv4_step s = (\<lambda>(a, b) (ms, covered).
     if inside a covered then Inr (ms, covered)
     else (let w = slice s a b in
       case normalize_ip w of
         Inl x \<Rightarrow> Inr (ms, covered)
       | Inr nrm \<Rightarrow> Inr (ms @ [ioc_match_of IPV4 w nrm a b None], covered)))"

definition ipv6_step :: "string \<Rightarrow> nat \<times> nat \<Rightarrow> scan_state \<Rightarrow> exn + scan_state" where
  "ipv6_step s = (\<lambda>(a, b) (ms, covered).
     let w = slice s a b in
     if inside a covered \<or> \<not> valid_ipv6 w then Inr (ms, covered)
     else (case normalize_ip (strip_by (\<lambda>c. c = CHR '':'') w) of
         Inl x \<Rightarrow> Inl x
       | Inr nrm \<Rightarrow> Inr (ms @ [ioc_match_of IPV6 w nrm a b None], covered)))"

text \<open>\<open>have_domain\<close> is the set of normal forms of the domains among the matches.\<close>

definition have_domain :: "ioc_match list \<Rightarrow> string list" where
  "have_domain ms = map im_norm (filter (\<lambda>m. im_type m = IOC_DOMAIN) ms)"

definition domain_step :: "string \<Rightarrow> nat \<times> nat \<Rightarrow> scan_state \<Rightarrow> exn + scan_state" where
  "domain_step s = (\<lambda>(a, b) (ms, covered).
     let w = slice s a b in
     if inside a covered \<or> \<not> looks_like_domain w then Inr (ms, covered)
     else (case normalize_domain w of
         Inl x \<Rightarrow> Inl x
       | Inr nrm \<Rightarrow>
           if nrm \<in> set (have_domain ms) then Inr (ms, covered)
           else Inr (ms @ [ioc_match_of IOC_DOMAIN w nrm a b None], covered)))"

definition mention_step :: "string \<Rightarrow> nat \<times> nat \<Rightarrow> scan_state \<Rightarrow> exn + scan_state" where
  "mention_step s = (\<lambda>(a, b) (ms, covered).
     if inside a covered then Inr (ms, covered)
     else (let h = drop 1 (slice s a b) in
       case normalize_username h of
         Inl x \<Rightarrow> Inl x
       | Inr u \<Rightarrow> Inr (ms @ [ioc_match_of TELEGRAM_USERNAME h u a b None], covered)))"

definition stages :: "(regex \<times> (string \<Rightarrow> nat \<times> nat \<Rightarrow> scan_state \<Rightarrow> exn + scan_state)) list" where
  "stages = [(url_re, url_step), (tg_url_re, tg_url_step), (email_re, email_step),
     (hash_re 64, hash_step SHA256), (hash_re 40, hash_step SHA1), (hash_re 32, hash_step MD5),
     (cve_re, cve_step), (ipv4_re, ipv4_step), (ipv6_re, ipv6_step), (domain_re, domain_step),
     (tg_username_re, mention_step)]"

definition scan :: "string \<Rightarrow> exn + scan_state" where
  "scan s = foldE (\<lambda>(r, step). foldE (step s) (finditer r s)) stages ([], [])"

text \<open>\<open>_dedupe\<close>: of the matches with one key the earliest, then the longest, is kept.\<close>

fun first_per_key :: "ioc_match list \<Rightarrow> ioc_match list \<Rightarrow> ioc_match list" where
  "first_per_key seen [] = seen"
| "first_per_key seen (m # ms) = first_per_key (if im_key m \<in> im_key ` set seen then seen else seen @ [m]) ms"

definition dedupe :: "ioc_match list \<Rightarrow> ioc_match list" where
  "dedupe ms = sort_key (\<lambda>m. (im_start m, im_type m))
     (first_per_key [] (sort_key (\<lambda>m. (im_start m, - int (im_end m - im_start m))) ms))"

definition extract_iocs :: "string \<Rightarrow> exn + ioc_match list" where
  "extract_iocs text = (if text = [] then Inr [] else map_sum id (\<lambda>(ms, covered). dedupe ms) (scan (refang text)))"

section \<open>Lemmas\<close>

lemma first_per_key_keys:
  "distinct (map im_key seen) \<Longrightarrow> distinct (map im_key (first_per_key seen ms)) \<and>
   set (first_per_key seen ms) \<subseteq> set seen \<union> set ms \<and> im_key ` set (first_per_key seen ms) = im_key ` (set seen \<union> set ms)"
  by (induction seen ms rule: first_per_key.induct) (auto simp: image_Un insert_absorb split: if_splits)

text \<open>Deduplication keeps exactly one match of every key and orders by position and type.\<close>

lemma dedupe_spec:
  "distinct (map im_key (dedupe ms))" "set (dedupe ms) \<subseteq> set ms" "im_key ` set (dedupe ms) = im_key ` set ms"
  "sorted (map (\<lambda>m. (im_start m, im_type m)) (dedupe ms))"
proof -
  let ?f = "first_per_key [] (sort_key (\<lambda>m. (im_start m, - int (im_end m - im_start m))) ms)"
  have f: "distinct (map im_key ?f)" "set ?f \<subseteq> set ms" "im_key ` set ?f = im_key ` set ms"
    using first_per_key_keys [of "[]" "sort_key (\<lambda>m. (im_start m, - int (im_end m - im_start m))) ms"] by simp_all
  have perm: "distinct (map im_key (sort_key k ?f)) = distinct (map im_key ?f)" for k :: "ioc_match \<Rightarrow> nat \<times> ioc_type"
    by (simp add: distinct_map)
  from f perm show "distinct (map im_key (dedupe ms))" by (simp add: dedupe_def)
  from f show "set (dedupe ms) \<subseteq> set ms" "im_key ` set (dedupe ms) = im_key ` set ms" by (simp_all add: dedupe_def)
  show "sorted (map (\<lambda>m. (im_start m, im_type m)) (dedupe ms))" by (simp add: dedupe_def)
qed

text \<open>What is promised of a reported indicator, for a scanned text \<open>s\<close>.\<close>

definition is_hash :: "nat \<Rightarrow> string \<Rightarrow> bool" where
  "is_hash n w \<longleftrightarrow> length w = n \<and> list_all is_hex w"

definition is_mention :: "string \<Rightarrow> bool" where
  "is_mention w \<longleftrightarrow> 5 \<le> length w \<and> length w \<le> 32 \<and> list_all is_word_az w \<and> is_alpha_az (hd w)"

fun shape_ok :: "ioc_type \<Rightarrow> string \<Rightarrow> bool" where
  "shape_ok MD5 w = is_hash 32 w"
| "shape_ok SHA1 w = is_hash 40 w"
| "shape_ok SHA256 w = is_hash 64 w"
| "shape_ok TELEGRAM_USERNAME w = is_mention w"
| "shape_ok IPV4 w = (normalize_ip w \<noteq> Inl (ValueError ''does not appear to be an IPv4 or IPv6 address''))"
| "shape_ok IPV6 w = valid_ipv6 w"
| "shape_ok IOC_DOMAIN w = looks_like_domain w"
| "shape_ok _ w = True"

definition key_agrees :: "ioc_match \<Rightarrow> bool" where
  "key_agrees m \<longleftrightarrow>
     (if im_type m = IOC_DOMAIN then normalize_domain (im_value m) = Inr (im_norm m)
      else if im_type m = IPV6 then normalize_ip (strip_by (\<lambda>c. c = CHR '':'') (im_value m)) = Inr (im_norm m)
      else normalize_ioc (im_type m) (im_value m) = Inr (im_norm m))"

definition indicator_ok :: "string \<Rightarrow> ioc_match \<Rightarrow> bool" where
  "indicator_ok s m \<longleftrightarrow> im_start m \<le> im_end m \<and> im_end m \<le> length s \<and> shape_ok (im_type m) (im_value m) \<and> key_agrees m"

definition scan_ok :: "string \<Rightarrow> scan_state \<Rightarrow> bool" where
  "scan_ok s st \<longleftrightarrow> list_all (indicator_ok s) (fst st)"

lemma length_rstrip_by: "length (rstrip_by p w) \<le> length w"
  using length_dropWhile_le [of p "rev w"] by (simp add: rstrip_by_def)

lemma word_of_chr [simp]: "word_of (chr c) u \<longleftrightarrow> u = [c]"
  by (auto simp: chr_def intro: word_of.intros)

lemma hash_word: "word_of (hash_re n) w \<Longrightarrow> is_hash n w"
  by (auto simp: hash_re_def is_hash_def dest!: word_of_Rep_class elim!: word_SeqE)

lemma handle_word: "word_of handle_re w \<Longrightarrow> is_mention w"
  by (auto simp: handle_re_def is_mention_def is_word_az_def is_alnum_az_def dest!: word_of_Rep_class elim!: word_SeqE)

lemma mention_word: "word_of tg_username_re w \<Longrightarrow> is_mention (drop 1 w)"
  by (auto simp: tg_username_re_def dest: handle_word)

lemma mention_no_dot: "is_mention w \<Longrightarrow> CHR ''.'' \<notin> set w"
  by (auto simp: is_mention_def list_all_iff is_word_az_def is_alnum_az_def is_alpha_az_def is_upper_az_def
      is_lower_az_def is_decimal_def code_def)

lemma first_group_word: "first_group r ys = Some w \<Longrightarrow> word_of r w"
proof (induction r ys rule: first_group.induct)
  case (2 r y ys)
  show ?case
  proof (cases "rmatch r y")
    case Nil with 2 show ?thesis by simp
  next
    case (Cons z zs)
    then obtain u where u: "consumed y z u" "word_of r u" using rmatch_word [of z r y] by auto
    with Cons "2.prems" show ?thesis by (simp add: consumed_def)
  qed
qed simp

lemma search_group_word: "search_group r g x = Some w \<Longrightarrow> word_of g w"
  by (induction r g x rule: search_group.induct)
     (auto split: option.splits list.splits dest: first_group_word)

text \<open>Every stage reports only well-formed indicators.\<close>

lemma scan_okI: "scan_ok s (ms, covered) \<Longrightarrow> list_all (indicator_ok s) ns \<Longrightarrow> scan_ok s (ms @ ns, covered')"
  by (simp add: scan_ok_def)

lemma indicator_okI:
  "a \<le> b \<Longrightarrow> b \<le> length s \<Longrightarrow> shape_ok t v \<Longrightarrow>
   (if t = IOC_DOMAIN then normalize_domain v = Inr n
    else if t = IPV6 then normalize_ip (strip_by (\<lambda>c. c = CHR '':'') v) = Inr n else normalize_ioc t v = Inr n) \<Longrightarrow>
   indicator_ok s (ioc_match_of t v n a b dv)"
  by (simp add: indicator_ok_def ioc_match_of_def key_agrees_def)

lemma derive_domain_ok:
  "derive_domain host a b origin = Inr ds \<Longrightarrow> a \<le> b \<Longrightarrow> b \<le> length s \<Longrightarrow> list_all (indicator_ok s) ds"
  by (cases "normalize_domain host")
     (auto simp: derive_domain_def intro!: indicator_okI split: if_splits)

lemma match_raw_bounds:
  "match_at r s a b \<Longrightarrow> a + length (rstrip_by p (slice s a b)) \<le> length s"
  using length_rstrip_by [of p "slice s a b"] by (auto simp: match_at_def)

lemma url_step_ok:
  assumes "url_step s (a, b) (ms, covered) = Inr st" and "match_at url_re s a b" and "scan_ok s (ms, covered)"
  shows "scan_ok s st"
proof -
  let ?raw = "rstrip_by trailing (slice s a b)"
  obtain nrm host ds where n: "normalize_url ?raw = Inr nrm" and h: "host_of nrm = Inr host"
    and d: "derive_domain (case host of None \<Rightarrow> [] | Some h \<Rightarrow> h) a (a + length ?raw) ''url'' = Inr ds"
    and st: "st = (ms @ ioc_match_of IOC_URL ?raw nrm a (a + length ?raw) None # ds, covered @ [(a, a + length ?raw)])"
    using assms(1) by (auto simp: url_step_def Let_def split: sum.splits)
  have "a + length ?raw \<le> length s" by (rule match_raw_bounds [OF assms(2)])
  with n derive_domain_ok [OF d] show ?thesis
    unfolding st by (intro scan_okI [OF assms(3)]) (auto intro!: indicator_okI)
qed

lemma tg_url_step_ok:
  assumes "tg_url_step s (a, b) (ms, covered) = Inr st" and m: "match_at tg_url_re s a b" and "scan_ok s (ms, covered)"
  shows "scan_ok s st"
proof -
  let ?raw = "rstrip_by trailing (slice s a b)"
  let ?g = "search_group (seqs [tg_hosts, chr CHR ''/'']) handle_re (None, ?raw)"
  obtain nrm where n: "normalize_url ?raw = Inr nrm"
    using assms(1) by (auto simp: tg_url_step_def Let_def split: sum.splits)
  have url: "indicator_ok s (ioc_match_of TELEGRAM_URL ?raw nrm a b None)"
    using match_at_bounds [OF m] n by (intro indicator_okI) auto
  show ?thesis
  proof (cases ?g)
    case None
    with assms(1) n have "st = (ms @ [ioc_match_of TELEGRAM_URL ?raw nrm a b None], covered @ [(a, b)])"
      by (simp add: tg_url_step_def Let_def)
    with url assms(3) show ?thesis by (auto intro: scan_okI)
  next
    case (Some h)
    with assms(1) n obtain u where u: "normalize_username h = Inr u"
      "st = (ms @ [ioc_match_of TELEGRAM_URL ?raw nrm a b None,
                   ioc_match_of TELEGRAM_USERNAME h u a b (Some ''telegram_url'')], covered @ [(a, b)])"
      by (auto simp: tg_url_step_def Let_def split: sum.splits)
    have "is_mention h" by (rule handle_word [OF search_group_word [OF Some]])
    with u(1) match_at_bounds [OF m] have "indicator_ok s (ioc_match_of TELEGRAM_USERNAME h u a b (Some ''telegram_url''))"
      by (intro indicator_okI) (auto dest: mention_no_dot)
    with url assms(3) show ?thesis unfolding u(2) by (auto intro: scan_okI)
  qed
qed

lemma email_step_ok:
  assumes "email_step s (a, b) (ms, covered) = Inr st" and m: "match_at email_re s a b" and "scan_ok s (ms, covered)"
  shows "scan_ok s st"
proof (cases "inside a covered")
  case True with assms show ?thesis by (auto simp: email_step_def)
next
  case False
  let ?raw = "slice s a b"
  from assms(1) False obtain nrm ds where n: "normalize_email ?raw = Inr nrm"
    and d: "derive_domain (snd (snd (partition_char CHR ''@'' ?raw))) a b ''email'' = Inr ds"
    and st: "st = (ms @ ioc_match_of IOC_EMAIL ?raw nrm a b None # ds, covered @ [(a, b)])"
    by (auto simp: email_step_def Let_def split: sum.splits)
  from match_at_bounds [OF m] n derive_domain_ok [OF d] show ?thesis
    unfolding st by (intro scan_okI [OF assms(3)]) (auto intro!: indicator_okI)
qed

lemma hash_step_ok:
  assumes "hash_step t s (a, b) (ms, covered) = Inr st" and m: "match_at (hash_re n) s a b" and "scan_ok s (ms, covered)"
    and t: "(t, n) \<in> {(SHA256, 64), (SHA1, 40), (MD5, 32)}"
  shows "scan_ok s st"
proof -
  have "is_hash n (slice s a b)" by (rule hash_word [OF match_at_word [OF m]])
  with t match_at_bounds [OF m] have "indicator_ok s (ioc_match_of t (slice s a b) (normalize_hash (slice s a b)) a b None)"
    by (intro indicator_okI) auto
  with assms(1,3) show ?thesis by (auto simp: hash_step_def Let_def intro!: scan_okI split: if_splits)
qed

lemma cve_step_ok:
  assumes "cve_step s (a, b) (ms, covered) = Inr st" and m: "match_at cve_re s a b" and "scan_ok s (ms, covered)"
  shows "scan_ok s st"
  using assms match_at_bounds [OF m]
  by (auto simp: cve_step_def Let_def intro!: scan_okI indicator_okI)

lemma ipv4_step_ok:
  assumes "ipv4_step s (a, b) (ms, covered) = Inr st" and m: "match_at ipv4_re s a b" and "scan_ok s (ms, covered)"
  shows "scan_ok s st"
  using assms match_at_bounds [OF m]
  by (auto simp: ipv4_step_def Let_def intro!: scan_okI indicator_okI split: if_splits sum.splits)

lemma ipv6_step_ok:
  assumes "ipv6_step s (a, b) (ms, covered) = Inr st" and m: "match_at ipv6_re s a b" and "scan_ok s (ms, covered)"
  shows "scan_ok s st"
  using assms match_at_bounds [OF m]
  by (auto simp: ipv6_step_def Let_def intro!: scan_okI indicator_okI split: if_splits sum.splits)

lemma domain_step_ok:
  assumes "domain_step s (a, b) (ms, covered) = Inr st" and m: "match_at domain_re s a b" and "scan_ok s (ms, covered)"
  shows "scan_ok s st"
  using assms match_at_bounds [OF m]
  by (auto simp: domain_step_def Let_def intro!: scan_okI indicator_okI split: if_splits sum.splits)

lemma mention_step_ok:
  assumes "mention_step s (a, b) (ms, covered) = Inr st" and m: "match_at tg_username_re s a b" and "scan_ok s (ms, covered)"
  shows "scan_ok s st"
proof -
  have w: "is_mention (drop 1 (slice s a b))" by (rule mention_word [OF match_at_word [OF m]])
  with mention_no_dot [OF w] assms match_at_bounds [OF m] show ?thesis
    by (auto simp: mention_step_def Let_def intro!: scan_okI indicator_okI split: if_splits sum.splits)
qed

lemma stage_ok:
  assumes "(r, step) \<in> set stages" and "(a, b) \<in> set (finditer r s)" and "step s (a, b) st = Inr st'" and "scan_ok s st"
  shows "scan_ok s st'"
proof -
  obtain ms covered where st: "st = (ms, covered)" by (cases st) auto
  note m = finditer_match [OF assms(2)]
  note run = assms(3,4) [unfolded st]
  from assms(1) consider "r = url_re" "step = url_step" | "r = tg_url_re" "step = tg_url_step"
    | "r = email_re" "step = email_step" | "r = hash_re 64" "step = hash_step SHA256"
    | "r = hash_re 40" "step = hash_step SHA1" | "r = hash_re 32" "step = hash_step MD5"
    | "r = cve_re" "step = cve_step" | "r = ipv4_re" "step = ipv4_step" | "r = ipv6_re" "step = ipv6_step"
    | "r = domain_re" "step = domain_step" | "r = tg_username_re" "step = mention_step"
    by (auto simp: stages_def)
  then show ?thesis
  proof cases
    case 1 then show ?thesis using url_step_ok m run by blast
  next case 2 then show ?thesis using tg_url_step_ok m run by blast
  next case 3 then show ?thesis using email_step_ok m run by blast
  next case 4 then show ?thesis using hash_step_ok [of SHA256 s a b ms covered st' 64] m run by simp
  next case 5 then show ?thesis using hash_step_ok [of SHA1 s a b ms covered st' 40] m run by simp
  next case 6 then show ?thesis using hash_step_ok [of MD5 s a b ms covered st' 32] m run by simp
  next case 7 then show ?thesis using cve_step_ok m run by blast
  next case 8 then show ?thesis using ipv4_step_ok m run by blast
  next case 9 then show ?thesis using ipv6_step_ok m run by blast
  next case 10 then show ?thesis using domain_step_ok m run by blast
  next case 11 then show ?thesis using mention_step_ok m run by blast
  qed
qed

lemma scan_sound: "scan s = Inr st \<Longrightarrow> scan_ok s st"
  unfolding scan_def
proof (erule foldE_inv)
  fix x st st' assume x: "x \<in> set stages" and run: "(\<lambda>(r, step). foldE (step s) (finditer r s)) x st = Inr st'" and ok: "scan_ok s st"
  obtain r step where rs: "x = (r, step)" by (cases x)
  from run rs have "foldE (step s) (finditer r s) st = Inr st'" by simp
  then show "scan_ok s st'"
    using ok by (rule foldE_inv [where P = "scan_ok s"]) (use x rs stage_ok in \<open>metis prod.collapse\<close>)
qed (simp add: scan_ok_def)

lemma extract_iocs_scan:
  "extract_iocs text = Inr ms \<longleftrightarrow> (text = [] \<and> ms = []) \<or>
     (text \<noteq> [] \<and> (\<exists>raw covered. scan (refang text) = Inr (raw, covered) \<and> ms = dedupe raw))"
  by (cases "scan (refang text)") (auto simp: extract_iocs_def)

section \<open>Nothing is missed\<close>

text \<open>Covered spans belong to matches of these types.\<close>

definition covering :: "ioc_type set" where
  "covering = {IOC_URL, TELEGRAM_URL, IOC_EMAIL, SHA256, SHA1, MD5}"

definition spans_ok :: "scan_state \<Rightarrow> bool" where
  "spans_ok st \<longleftrightarrow> (\<forall>x \<in> set (snd st). \<exists>m \<in> set (fst st). im_type m \<in> covering \<and> im_start m = fst x \<and> im_end m = snd x)"

text \<open>A candidate is reported, or starts inside a reported indicator of a covering type.\<close>

definition accounted :: "ioc_match list \<Rightarrow> ioc_type \<times> string \<Rightarrow> nat \<Rightarrow> bool" where
  "accounted ms k a \<longleftrightarrow> k \<in> im_key ` set ms \<or>
     (\<exists>m \<in> set ms. im_type m \<in> covering \<and> im_start m \<le> a \<and> a < im_end m)"

lemma accounted_mono: "accounted ms k a \<Longrightarrow> set ms \<subseteq> set ms' \<Longrightarrow> accounted ms' k a"
  unfolding accounted_def by blast

text \<open>What a stage does to the state: it appends matches, and spans of matches it appends.\<close>

definition grows :: "scan_state \<Rightarrow> scan_state \<Rightarrow> bool" where
  "grows st st' \<longleftrightarrow> set (fst st) \<subseteq> set (fst st') \<and> (spans_ok st \<longrightarrow> spans_ok st')"

lemma grows_refl [simp]: "grows st st"
  by (simp add: grows_def)

lemma grows_trans: "grows st st' \<Longrightarrow> grows st' st'' \<Longrightarrow> grows st st''"
  by (auto simp: grows_def)

lemma grows_append: "grows (ms, covered) (ms @ ns, covered)"
  by (auto simp: grows_def spans_ok_def)

lemma grows_span:
  "im_type m \<in> covering \<Longrightarrow> im_start m = a \<Longrightarrow> im_end m = b \<Longrightarrow> grows (ms, covered) (ms @ m # ns, covered @ [(a, b)])"
  by (auto simp: grows_def spans_ok_def)

lemma ioc_match_of_sel [simp]:
  "im_type (ioc_match_of t v n a b dv) = t" "im_norm (ioc_match_of t v n a b dv) = n"
  "im_start (ioc_match_of t v n a b dv) = a" "im_end (ioc_match_of t v n a b dv) = b"
  by (simp_all add: ioc_match_of_def)

lemma step_grows:
  assumes "(r, step) \<in> set stages" and "step s (a, b) st = Inr st'"
  shows "grows st st'"
proof -
  obtain ms covered where st: "st = (ms, covered)" by (cases st) auto
  from assms(1) consider "step = url_step" | "step = tg_url_step" | "step = email_step"
    | "step = hash_step SHA256" | "step = hash_step SHA1" | "step = hash_step MD5"
    | "step = cve_step" | "step = ipv4_step" | "step = ipv6_step" | "step = domain_step" | "step = mention_step"
    by (auto simp: stages_def)
  then show ?thesis
    using assms(2) unfolding st
    by cases (auto simp: url_step_def tg_url_step_def email_step_def hash_step_def cve_step_def ipv4_step_def
      ipv6_step_def domain_step_def mention_step_def Let_def covering_def
      intro!: grows_append grows_span split: sum.splits option.splits if_splits)
qed

lemma foldE_grows:
  assumes "foldE f xs st = Inr st'" and f: "\<And>x u v. x \<in> set xs \<Longrightarrow> f x u = Inr v \<Longrightarrow> grows u v"
  shows "grows st st'"
  by (rule foldE_inv [where P = "grows st", OF assms(1)]) (simp, rule grows_trans, assumption, rule f)

lemma loop_grows:
  assumes "(r, step) \<in> set stages" and "foldE (step s) spans st = Inr st'"
  shows "grows st st'"
proof (rule foldE_grows [OF assms(2)])
  fix x u v assume "step s x u = Inr v"
  then show "grows u v" using step_grows [OF assms(1), of s "fst x" "snd x" u v] by simp
qed

text \<open>What one round of each stage accounts for.\<close>

lemma inside_accounted: "spans_ok (ms, covered) \<Longrightarrow> inside a covered \<Longrightarrow> accounted ms k a"
  by (fastforce simp: inside_def list_ex_iff spans_ok_def accounted_def)

lemma key_accounted: "im_key m = k \<Longrightarrow> accounted (ms @ m # ns) k a"
  by (auto simp: accounted_def)

fun candidate :: "string \<Rightarrow> regex \<Rightarrow> ioc_type \<Rightarrow> nat \<times> nat \<Rightarrow> string \<Rightarrow> bool" where
  "candidate s r IOC_URL (a, b) n = (r = url_re \<and> normalize_url (rstrip_by trailing (slice s a b)) = Inr n)"
| "candidate s r TELEGRAM_URL (a, b) n = (r = tg_url_re \<and> normalize_url (rstrip_by trailing (slice s a b)) = Inr n)"
| "candidate s r IOC_EMAIL (a, b) n = (r = email_re \<and> normalize_email (slice s a b) = Inr n)"
| "candidate s r SHA256 (a, b) n = (r = hash_re 64 \<and> n = normalize_hash (slice s a b))"
| "candidate s r SHA1 (a, b) n = (r = hash_re 40 \<and> n = normalize_hash (slice s a b))"
| "candidate s r MD5 (a, b) n = (r = hash_re 32 \<and> n = normalize_hash (slice s a b))"
| "candidate s r CVE (a, b) n = (r = cve_re \<and> n = normalize_cve (slice s a b))"
| "candidate s r IPV4 (a, b) n = (r = ipv4_re \<and> normalize_ip (slice s a b) = Inr n)"
| "candidate s r IPV6 (a, b) n = (r = ipv6_re \<and> valid_ipv6 (slice s a b) \<and>
     normalize_ip (strip_by (\<lambda>c. c = CHR '':'') (slice s a b)) = Inr n)"
| "candidate s r IOC_DOMAIN (a, b) n = (r = domain_re \<and> looks_like_domain (slice s a b) \<and> normalize_domain (slice s a b) = Inr n)"
| "candidate s r TELEGRAM_USERNAME (a, b) n = (r = tg_username_re \<and> normalize_username (drop 1 (slice s a b)) = Inr n)"

fun step_of :: "ioc_type \<Rightarrow> string \<Rightarrow> nat \<times> nat \<Rightarrow> scan_state \<Rightarrow> exn + scan_state" where
  "step_of IOC_URL = url_step" | "step_of TELEGRAM_URL = tg_url_step" | "step_of IOC_EMAIL = email_step"
| "step_of SHA256 = hash_step SHA256" | "step_of SHA1 = hash_step SHA1" | "step_of MD5 = hash_step MD5"
| "step_of CVE = cve_step" | "step_of IPV4 = ipv4_step" | "step_of IPV6 = ipv6_step"
| "step_of IOC_DOMAIN = domain_step" | "step_of TELEGRAM_USERNAME = mention_step"

lemma candidate_stage: "candidate s r t (a, b) n \<Longrightarrow> (r, step_of t) \<in> set stages"
  by (cases t) (auto simp: stages_def)

lemma have_domain_key: "n \<in> set (have_domain ms) \<longleftrightarrow> (IOC_DOMAIN, n) \<in> im_key ` set ms"
  by (induction ms) (auto simp: have_domain_def im_key_def)

lemma im_key_ioc_match_of: "im_key (ioc_match_of t v n a b dv) = (t, n)"
  by (simp add: im_key_def)

lemma candidate_step:
  assumes c: "candidate s r t (a, b) n" and run: "step_of t s (a, b) (ms, covered) = Inr (ms', covered')"
    and ok: "spans_ok (ms, covered)"
  shows "accounted ms' (t, n) a"
proof (cases "t \<notin> {IOC_URL, TELEGRAM_URL, CVE} \<and> inside a covered")
  case True
  with run have "ms' = ms"
    by (cases t) (auto simp: email_step_def hash_step_def ipv4_step_def ipv6_step_def domain_step_def mention_step_def Let_def)
  with inside_accounted [OF ok] True show ?thesis by simp
next
  case False
  with c run show ?thesis
    by (cases t) (auto simp: url_step_def tg_url_step_def email_step_def hash_step_def cve_step_def ipv4_step_def
      ipv6_step_def domain_step_def mention_step_def Let_def im_key_ioc_match_of accounted_def have_domain_key
      split: sum.splits option.splits if_splits)
qed


lemma scan_complete:
  assumes run: "scan s = Inr (ms, covered)" and c: "candidate s r t (a, b) n" and span: "(a, b) \<in> set (finditer r s)"
  shows "accounted ms (t, n) a"
proof -
  let ?f = "\<lambda>(r, step). foldE (step s) (finditer r s)"
  note stage = candidate_stage [OF c]
  obtain as bs where split: "stages = as @ (r, step_of t) # bs" using split_list [OF stage] by blast
  from run obtain st1 st2 where st1: "foldE ?f as ([], []) = Inr st1"
    and st2: "foldE (step_of t s) (finditer r s) st1 = Inr st2" and rest: "foldE ?f bs st2 = Inr (ms, covered)"
    unfolding scan_def split foldE_append foldE.simps by (auto split: sum.splits)
  have grow: "grows st st'" if "foldE ?f xs st = Inr st'" "set xs \<subseteq> set stages" for xs st st'
  proof (rule foldE_grows [OF that(1)])
    fix x u v assume "x \<in> set xs" "?f x u = Inr v"
    then show "grows u v"
      using loop_grows [of "fst x" "snd x" s "finditer (fst x) s" u v] that(2) by (auto simp: case_prod_beta)
  qed
  have sub: "set as \<subseteq> set stages" "set bs \<subseteq> set stages" by (auto simp: split)
  have ok1: "spans_ok st1"
    using grow [OF st1 sub(1)] by (auto simp: grows_def spans_ok_def)
  obtain xs ys where fi: "finditer r s = xs @ (a, b) # ys" using split_list [OF span] by blast
  from st2 obtain u v where u: "foldE (step_of t s) xs st1 = Inr u" and v: "step_of t s (a, b) u = Inr v"
    and w: "foldE (step_of t s) ys v = Inr st2"
    unfolding fi foldE_append foldE.simps by (auto split: sum.splits)
  have "spans_ok u" using loop_grows [OF stage u] ok1 by (simp add: grows_def)
  then have "accounted (fst v) (t, n) a"
    using candidate_step [OF c, of "fst u" "snd u" "fst v" "snd v"] v by simp
  moreover have "set (fst v) \<subseteq> set ms"
    using loop_grows [OF stage w] grow [OF rest sub(2)] by (auto simp: grows_def)
  ultimately show ?thesis by (rule accounted_mono)
qed

section \<open>Properties\<close>


text \<open>A text with a bracketed IPv6 URL, or with a port that is no number, makes the extraction raise.\<close>

lemma extraction_raises:
  "extract_iocs ''http://[::1]/'' = Inl (ValueError ''Invalid IPv6 URL'')"
  "extract_iocs ''http://a:b'' = Inl (ValueError ''Port could not be cast to integer value'')"
  by code_simp+

lemma alice_extracted: "extract_iocs ''@alice'' = Inr [ioc_match_of TELEGRAM_USERNAME ''alice'' ''alice'' 0 6 None]"
  by code_simp


end
