(* ===== verification/Rerun.thy ===== *)
theory Rerun
  imports Evidence
begin

text \<open>
  Deduplication as a law: an operation on the graph tables \<open>settles\<close> if running it again later,
  on any store that still has the rows the first run left, finds them and adds none. The notion
  is closed under sequencing, error handling and loops, so it carries from the repositories to
  everything that is built from them.
\<close>

section \<open>The rows of a store\<close>

text \<open>Identity and key of every row of the graph tables; the rest of a row may change.\<close>

record rows =
  rw_usernames :: "(uid \<times> string \<times> string) list"
  rw_externals :: "(uid \<times> string \<times> string) list"
  rw_domains :: "(uid \<times> string) list"
  rw_urls :: "(uid \<times> string) list"
  rw_ips :: "(uid \<times> string) list"
  rw_iocs :: "(uid \<times> ioc_type \<times> string) list"
  rw_messages :: "(uid \<times> entity_type \<times> uid \<times> int) list"
  rw_relationships :: "(uid \<times> entity_type \<times> uid \<times> entity_type \<times> uid \<times> rel_type) list"
  rw_evidences :: "evidence list"
  rw_accounts :: "uid list"
  rw_groups :: "uid list"
  rw_channels :: "uid list"
  rw_targets :: "uid list"
  rw_reports :: "uid list"

definition rows_of :: "db \<Rightarrow> rows" where
  "rows_of d = \<lparr>rw_usernames = map (\<lambda>r. (un_id r, un_platform r, un_norm r)) (usernames d),
     rw_externals = map (\<lambda>r. (ea_id r, ea_platform r, ea_norm r)) (external_accounts d),
     rw_domains = map (\<lambda>r. (dm_id r, dm_norm r)) (domains d),
     rw_urls = map (\<lambda>r. (ur_id r, ur_hash r)) (urls d),
     rw_ips = map (\<lambda>r. (ip_id r, ip_address r)) (ips d),
     rw_iocs = map (\<lambda>r. (ioc_id r, ioc_ty r, ioc_norm r)) (iocs d),
     rw_messages = map (\<lambda>r. (ms_id r, ms_source_type r, ms_source_id r, ms_message_id r)) (messages d),
     rw_relationships = map (\<lambda>r. (rel_id r, rel_key r)) (relationships d),
     rw_evidences = evidences d, rw_accounts = map ta_id (telegram_accounts d),
     rw_groups = map tc_id (telegram_groups d), rw_channels = map tc_id (telegram_channels d),
     rw_targets = map tg_id (targets d), rw_reports = map rp_id (reports d)\<rparr>"

text \<open>\<open>later\<close>: rows were only added.\<close>

definition later :: "db \<Rightarrow> db \<Rightarrow> bool" where
  "later d e \<longleftrightarrow>
     set (rw_usernames (rows_of d)) \<subseteq> set (rw_usernames (rows_of e)) \<and>
     set (rw_externals (rows_of d)) \<subseteq> set (rw_externals (rows_of e)) \<and>
     set (rw_domains (rows_of d)) \<subseteq> set (rw_domains (rows_of e)) \<and>
     set (rw_urls (rows_of d)) \<subseteq> set (rw_urls (rows_of e)) \<and>
     set (rw_ips (rows_of d)) \<subseteq> set (rw_ips (rows_of e)) \<and>
     set (rw_iocs (rows_of d)) \<subseteq> set (rw_iocs (rows_of e)) \<and>
     set (rw_messages (rows_of d)) \<subseteq> set (rw_messages (rows_of e)) \<and>
     set (rw_relationships (rows_of d)) \<subseteq> set (rw_relationships (rows_of e)) \<and>
     set (rw_evidences (rows_of d)) \<subseteq> set (rw_evidences (rows_of e)) \<and>
     set (rw_accounts (rows_of d)) \<subseteq> set (rw_accounts (rows_of e)) \<and>
     set (rw_groups (rows_of d)) \<subseteq> set (rw_groups (rows_of e)) \<and>
     set (rw_channels (rows_of d)) \<subseteq> set (rw_channels (rows_of e)) \<and>
     set (rw_targets (rows_of d)) \<subseteq> set (rw_targets (rows_of e)) \<and>
     set (rw_reports (rows_of d)) \<subseteq> set (rw_reports (rows_of e))"

lemma later_refl [simp]: "later d d"
  by (simp add: later_def)

lemma later_trans: "later c d \<Longrightarrow> later d e \<Longrightarrow> later c e"
  unfolding later_def by (elim conjE) (intro conjI; erule (1) subset_trans)

lemma later_same: "rows_of d' = rows_of d \<Longrightarrow> later d d'"
  by (simp add: later_def)

lemma later_rows: "later c d \<Longrightarrow> rows_of e = rows_of d \<Longrightarrow> later c e"
  by (simp add: later_def)

text \<open>The unique constraints and primary keys of these tables.\<close>

definition store_ok :: "db \<Rightarrow> bool" where
  "store_ok d \<longleftrightarrow>
     uq_username (usernames d) \<and> uq_external_account (external_accounts d) \<and> uq_domain (domains d) \<and>
     uq_url (urls d) \<and> uq_ip (ips d) \<and> uq_ioc (iocs d) \<and> uq_message (messages d) \<and>
     uq_evidence (evidences d) \<and> uq_relationship (relationships d) \<and>
     ids_ok un_id (usernames d) (next_id d) \<and> ids_ok ea_id (external_accounts d) (next_id d) \<and>
     ids_ok dm_id (domains d) (next_id d) \<and> ids_ok ur_id (urls d) (next_id d) \<and> ids_ok ip_id (ips d) (next_id d) \<and>
     ids_ok ioc_id (iocs d) (next_id d) \<and> ids_ok ms_id (messages d) (next_id d) \<and>
     ids_ok ev_id (evidences d) (next_id d) \<and> ids_ok rel_id (relationships d) (next_id d) \<and>
     uq_telegram_account (telegram_accounts d) \<and> uq_telegram_chat (telegram_groups d) \<and> uq_telegram_chat (telegram_channels d) \<and>
     ids_ok ta_id (telegram_accounts d) (next_id d) \<and> ids_ok tc_id (telegram_groups d) (next_id d) \<and>
     ids_ok tc_id (telegram_channels d) (next_id d)"

lemma store_ok_empty: "store_ok empty_db"
  by (simp add: store_ok_def empty_db_def uq_username_def uq_external_account_def uq_domain_def uq_url_def uq_ip_def
      uq_ioc_def uq_message_def uq_evidence_def uq_relationship_def uq_telegram_account_def uq_telegram_chat_def ids_ok_def List.map_filter_def)

section \<open>Settling\<close>

text \<open>
  \<open>g\<close> reads the store from a state, \<open>Q\<close> is what a second run may do to the rest of the state,
  \<open>R\<close> relates the results. An error comes back as an error.
\<close>

definition settles ::
  "('s \<Rightarrow> db) \<Rightarrow> ('s \<Rightarrow> 's \<Rightarrow> bool) \<Rightarrow> ('a \<Rightarrow> 'b \<Rightarrow> bool) \<Rightarrow> ('s, 'a) action \<Rightarrow> ('s, 'b) action \<Rightarrow> bool" where
  "settles g Q R m m' \<longleftrightarrow> (\<forall>s r s'. store_ok (g s) \<longrightarrow> m s = (r, s') \<longrightarrow>
     store_ok (g s') \<and> later (g s) (g s') \<and>
     (\<forall>t. store_ok (g t) \<longrightarrow> later (g s') (g t) \<longrightarrow>
        (\<exists>r2 t'. m' t = (r2, t') \<and> store_ok (g t') \<and> rows_of (g t') = rows_of (g t) \<and> Q t t' \<and>
           rel_sum (\<lambda>_ _. True) R r r2)))"

lemma settlesI:
  assumes "\<And>s r s'. store_ok (g s) \<Longrightarrow> m s = (r, s') \<Longrightarrow> store_ok (g s') \<and> later (g s) (g s')"
    and "\<And>s r s' t. store_ok (g s) \<Longrightarrow> m s = (r, s') \<Longrightarrow> store_ok (g t) \<Longrightarrow> later (g s') (g t) \<Longrightarrow>
      \<exists>r2 t'. m' t = (r2, t') \<and> store_ok (g t') \<and> rows_of (g t') = rows_of (g t) \<and> Q t t' \<and> rel_sum (\<lambda>_ _. True) R r r2"
  shows "settles g Q R m m'"
  unfolding settles_def using assms by blast

lemma settlesD1: "settles g Q R m m' \<Longrightarrow> store_ok (g s) \<Longrightarrow> m s = (r, s') \<Longrightarrow> store_ok (g s') \<and> later (g s) (g s')"
  unfolding settles_def by blast

lemma settlesD2:
  "settles g Q R m m' \<Longrightarrow> store_ok (g s) \<Longrightarrow> m s = (r, s') \<Longrightarrow> store_ok (g t) \<Longrightarrow> later (g s') (g t) \<Longrightarrow>
   \<exists>r2 t'. m' t = (r2, t') \<and> store_ok (g t') \<and> rows_of (g t') = rows_of (g t) \<and> Q t t' \<and> rel_sum (\<lambda>_ _. True) R r r2"
  unfolding settles_def by blast

lemma settles_mono: "settles g Q R m m' \<Longrightarrow> (\<And>x y. R x y \<Longrightarrow> S x y) \<Longrightarrow> settles g Q S m m'"
  by (rule settlesI, erule (2) settlesD1) (drule (4) settlesD2, auto elim!: rel_sum.cases)

text \<open>What may happen to the rest of the state in a second run.\<close>

locale quiet_runs =
  fixes g :: "'s \<Rightarrow> db" and Q :: "'s \<Rightarrow> 's \<Rightarrow> bool"
  assumes quiet_refl: "Q s s" and quiet_trans: "Q s t \<Longrightarrow> Q t u \<Longrightarrow> Q s u"
begin

lemma settles_pure: "(\<And>s. fst (m s) = r) \<Longrightarrow> (\<And>s. snd (m s) = s) \<Longrightarrow> (\<And>s. fst (m' s) = r') \<Longrightarrow> (\<And>s. snd (m' s) = s) \<Longrightarrow>
   rel_sum (\<lambda>_ _. True) R r r' \<Longrightarrow> settles g Q R m m'"
  by (rule settlesI) (metis prod.collapse later_refl snd_conv, metis prod.collapse quiet_refl fst_conv)

lemma settles_ret: "R x y \<Longrightarrow> settles g Q R (ret x) (ret y)"
  by (rule settles_pure) auto

lemma settles_throw: "settles g Q R (throw e) (throw e')"
  by (rule settles_pure) auto

lemma settles_liftE: "settles g Q (=) (liftE x) (liftE x)"
  by (rule settles_pure) (auto simp: liftE_def rel_sum.simps split: sum.splits intro: sum.exhaust [of x])

lemma settles_bnd:
  assumes m: "settles g Q R m m'" and f: "\<And>x y. R x y \<Longrightarrow> settles g Q S (f x) (f' y)"
  shows "settles g Q S (bnd m f) (bnd m' f')"
proof (rule settlesI)
  fix s r s' assume ok: "store_ok (g s)" and run: "bnd m f s = (r, s')"
  obtain r1 s1 where s1: "m s = (r1, s1)" by (cases "m s")
  note d1 = settlesD1 [OF m ok s1]
  obtain t1 where refl_run: "\<exists>r2. m' s1 = (r2, t1) \<and> rel_sum (\<lambda>_ _. True) R r1 r2"
    using settlesD2 [OF m ok s1 conjunct1 [OF d1] later_refl] by blast
  show "store_ok (g s') \<and> later (g s) (g s')"
  proof (cases r1)
    case (Inl e) with run s1 d1 show ?thesis by simp
  next
    case (Inr x)
    with refl_run obtain y where "R x y" by (auto elim: rel_sum.cases)
    from settlesD1 [OF f [OF this] conjunct1 [OF d1]] run s1 Inr d1 show ?thesis by (auto intro: later_trans)
  qed
next
  fix s r s' t
  assume ok: "store_ok (g s)" and run: "bnd m f s = (r, s')" and okt: "store_ok (g t)" and lt: "later (g s') (g t)"
  obtain r1 s1 where s1: "m s = (r1, s1)" by (cases "m s")
  note d1 = settlesD1 [OF m ok s1]
  show "\<exists>r2 t'. bnd m' f' t = (r2, t') \<and> store_ok (g t') \<and> rows_of (g t') = rows_of (g t) \<and> Q t t' \<and> rel_sum (\<lambda>_ _. True) S r r2"
  proof (cases r1)
    case (Inl e)
    with run s1 have "s' = s1" "r = Inl e" by simp_all
    with settlesD2 [OF m ok s1 okt] lt Inl show ?thesis by (fastforce elim: rel_sum.cases)
  next
    case (Inr x)
    then have fx: "f x s1 = (r, s')" using run s1 by simp
    obtain z where "R x z"
      using settlesD2 [OF m ok s1 conjunct1 [OF d1] later_refl] Inr by (auto elim: rel_sum.cases)
    from settlesD1 [OF f [OF this] conjunct1 [OF d1] fx] lt have "later (g s1) (g t)" by (blast intro: later_trans)
    from settlesD2 [OF m ok s1 okt this] Inr obtain y t1 where t1: "m' t = (Inr y, t1)" "store_ok (g t1)"
      "rows_of (g t1) = rows_of (g t)" "Q t t1" and R: "R x y" by (auto elim: rel_sum.cases)
    from lt t1(3) have "later (g s') (g t1)" by (rule later_rows)
    from settlesD2 [OF f [OF R] conjunct1 [OF d1] fx t1(2) this] t1 show ?thesis
      by (auto intro: quiet_trans)
  qed
qed

lemma settles_catch:
  assumes m: "settles g Q R m m'" and h: "\<And>e e'. settles g Q R (h e) (h' e')"
  shows "settles g Q R (catch m h) (catch m' h')"
proof (rule settlesI)
  fix s r s' assume ok: "store_ok (g s)" and run: "catch m h s = (r, s')"
  obtain r1 s1 where s1: "m s = (r1, s1)" by (cases "m s")
  note d1 = settlesD1 [OF m ok s1]
  show "store_ok (g s') \<and> later (g s) (g s')"
  proof (cases r1)
    case (Inl e)
    with run s1 have "h e s1 = (r, s')" by (simp add: catch_def)
    from settlesD1 [OF h conjunct1 [OF d1] this] d1 show ?thesis by (blast intro: later_trans)
  next
    case (Inr x) with run s1 d1 show ?thesis by (simp add: catch_def)
  qed
next
  fix s r s' t
  assume ok: "store_ok (g s)" and run: "catch m h s = (r, s')" and okt: "store_ok (g t)" and lt: "later (g s') (g t)"
  obtain r1 s1 where s1: "m s = (r1, s1)" by (cases "m s")
  note d1 = settlesD1 [OF m ok s1]
  show "\<exists>r2 t'. catch m' h' t = (r2, t') \<and> store_ok (g t') \<and> rows_of (g t') = rows_of (g t) \<and> Q t t' \<and> rel_sum (\<lambda>_ _. True) R r r2"
  proof (cases r1)
    case (Inl e)
    with run s1 have he: "h e s1 = (r, s')" by (simp add: catch_def)
    from settlesD1 [OF h conjunct1 [OF d1] he] lt have "later (g s1) (g t)" by (blast intro: later_trans)
    from settlesD2 [OF m ok s1 okt this] Inl obtain e' t1 where t1: "m' t = (Inl e', t1)" "store_ok (g t1)"
      "rows_of (g t1) = rows_of (g t)" "Q t t1" by (auto elim: rel_sum.cases)
    from lt t1(3) have "later (g s') (g t1)" by (rule later_rows)
    from settlesD2 [OF h conjunct1 [OF d1] he t1(2) this, of e'] t1 show ?thesis
      by (auto simp: catch_def intro: quiet_trans)
  next
    case (Inr x)
    with run s1 have "s' = s1" "r = Inr x" by (simp_all add: catch_def)
    with settlesD2 [OF m ok s1 okt] lt Inr show ?thesis by (fastforce simp: catch_def elim: rel_sum.cases)
  qed
qed

lemma settles_for_each:
  "(\<And>x. x \<in> set xs \<Longrightarrow> settles g Q (\<lambda>_ _. True) (f x) (f' x)) \<Longrightarrow> settles g Q (\<lambda>_ _. True) (for_each f xs) (for_each f' xs)"
  by (induction xs) (auto intro: settles_ret settles_bnd)

end

section \<open>Keyed tables\<close>

text \<open>
  The interface: the table is one of the store's, its constraint is part of \<^const>\<open>store_ok\<close>,
  inserting a row with the next primary key keeps the store well formed, and a row is still
  there, with its identity and key, in every later store.
\<close>

locale store_table = keyed_table tbl upd uq key
  for tbl :: "db \<Rightarrow> 'r list" and upd :: "('r list \<Rightarrow> 'r list) \<Rightarrow> db \<Rightarrow> db"
    and uq :: "'r list \<Rightarrow> bool" and key :: "'r \<Rightarrow> 'k" +
  fixes rid :: "'r \<Rightarrow> uid"
  assumes store_uq: "store_ok d \<Longrightarrow> uq (tbl d)"
    and insert_ok: "store_ok d \<Longrightarrow> uq (tbl d @ [r]) \<Longrightarrow> rid r = next_id d \<Longrightarrow>
          store_ok (upd (\<lambda>t. t @ [r]) (d\<lparr>next_id := Suc (next_id d)\<rparr>))"
    and insert_later: "later d (upd (\<lambda>t. t @ [r]) (d\<lparr>next_id := n\<rparr>))"
    and later_rows_sub: "later d e \<Longrightarrow> (\<lambda>r. (rid r, key r)) ` set (tbl d) \<subseteq> (\<lambda>r. (rid r, key r)) ` set (tbl e)"
begin

lemma later_row: "later d e \<Longrightarrow> r \<in> set (tbl d) \<Longrightarrow> \<exists>r' \<in> set (tbl e). rid r' = rid r \<and> key r' = key r"
  using later_rows_sub by (fastforce simp: image_subset_iff)

lemma get_or_create_found_again:
  assumes "store_ok e" and "r \<in> set (tbl e)" and p: "\<And>x. p x \<longleftrightarrow> key x = key r"
  shows "get_or_create tbl upd uq p mk e = (Inr (r, False), e)"
proof -
  have "find p (tbl e) = Some r"
  proof -
    have "find p (tbl e) \<noteq> None" using assms(2) p by (auto simp: find_None_iff)
    then obtain x where x: "find p (tbl e) = Some x" by blast
    then have "x \<in> set (tbl e)" "key x = key r" by (auto dest: find_Some_in simp: p)
    with assms(2) store_uq [OF assms(1)] have "x = r" by (auto simp: uq_key distinct_map inj_on_def)
    with x show ?thesis by simp
  qed
  then show ?thesis
    by (simp add: get_or_create_def get_or_create_race_def scalar_key [OF store_uq [OF assms(1)] p])
qed

lemma get_or_create_store:
  assumes ok: "store_ok d" and p: "\<And>x. p x \<longleftrightarrow> key x = k" and mk: "\<And>i. key (mk d i) = k \<and> rid (mk d i) = i"
  shows "\<exists>r c d'. get_or_create tbl upd uq p mk d = (Inr (r, c), d') \<and> r \<in> set (tbl d') \<and> key r = k \<and>
     store_ok d' \<and> later d d'"
proof -
  obtain r c d' where run: "get_or_create tbl upd uq p mk d = (Inr (r, c), d')" and r: "key r = k" "r \<in> set (tbl d')" "uq (tbl d')"
    using get_or_create_total [OF store_uq [OF ok], of p k mk] p mk by blast
  have "store_ok d' \<and> later d d'"
  proof (cases c)
    case True
    with run have new: "get_or_create tbl upd uq p mk d = (Inr (r, True), d')" by simp
    from get_or_create_new [OF new] have "d' = upd (\<lambda>t. t @ [r]) (d\<lparr>next_id := Suc (next_id d)\<rparr>)" "rid r = next_id d" "tbl d' = tbl d @ [r]"
      using new mk by (auto simp: get_or_create_def get_or_create_race_def Let_def split: sum.splits option.splits if_splits)
    with insert_ok [OF ok, of r] insert_later r(3) show ?thesis by simp
  next
    case False
    with run ok show ?thesis using get_or_create_found [of p mk d r d'] by simp
  qed
  with run r show ?thesis by blast
qed

lemma settles_get_or_create:
  assumes Q: "\<And>t. Q t t" and p: "\<And>x. p x \<longleftrightarrow> key x = k"
    and mk: "\<And>d i. key (mk d i) = k \<and> rid (mk d i) = i"
  shows "settles id Q (\<lambda>a b. rid (fst b) = rid (fst a) \<and> \<not> snd b) (get_or_create tbl upd uq p mk) (get_or_create tbl upd uq p mk')"
proof (rule settlesI)
  fix s r s' assume "store_ok (id s)" "get_or_create tbl upd uq p mk s = (r, s')"
  with get_or_create_store [of s p k mk] p mk show "store_ok (id s') \<and> later (id s) (id s')" by auto
next
  fix s r s' t
  assume run: "store_ok (id s)" "get_or_create tbl upd uq p mk s = (r, s')" and t: "store_ok (id t)" "later (id s') (id t)"
  with get_or_create_store [of s p k mk] p mk obtain x c where x: "r = Inr (x, c)" "x \<in> set (tbl s')" "key x = k" by auto
  from later_row [OF _ x(2)] t(2) obtain y where y: "y \<in> set (tbl t)" "rid y = rid x" "key y = key x" by auto
  have "get_or_create tbl upd uq p mk' t = (Inr (y, False), t)"
    using get_or_create_found_again [of t y p mk'] t(1) y x(3) p by simp
  with t(1) Q x y show "\<exists>r2 t'. get_or_create tbl upd uq p mk' t = (r2, t') \<and> store_ok (id t') \<and> rows_of (id t') = rows_of (id t) \<and>
      Q t t' \<and> rel_sum (\<lambda>_ _. True) (\<lambda>a b. rid (fst b) = rid (fst a) \<and> \<not> snd b) r r2" by auto
qed

end

lemmas store_defs = store_ok_def later_def rows_of_def ids_ok_def

interpretation username_store: store_table usernames usernames_update uq_username "\<lambda>r. (un_platform r, un_norm r)" un_id
  by unfold_locales (auto simp: store_defs less_Suc_eq)

interpretation external_store: store_table external_accounts external_accounts_update uq_external_account
  "\<lambda>r. (ea_platform r, ea_norm r)" ea_id
  by unfold_locales (auto simp: store_defs less_Suc_eq)

interpretation domain_store: store_table domains domains_update uq_domain dm_norm dm_id
  by unfold_locales (auto simp: store_defs less_Suc_eq)

interpretation url_store: store_table urls urls_update uq_url ur_hash ur_id
  by unfold_locales (auto simp: store_defs less_Suc_eq)

interpretation ip_store: store_table ips ips_update uq_ip ip_address ip_id
  by unfold_locales (auto simp: store_defs less_Suc_eq)

interpretation ioc_store: store_table iocs iocs_update uq_ioc "\<lambda>r. (ioc_ty r, ioc_norm r)" ioc_id
  by unfold_locales (auto simp: store_defs less_Suc_eq)

interpretation message_store: store_table messages messages_update uq_message
  "\<lambda>r. (ms_source_type r, ms_source_id r, ms_message_id r)" ms_id
  by unfold_locales (auto simp: store_defs less_Suc_eq)

interpretation relationship_store: store_table relationships relationships_update uq_relationship rel_key rel_id
  by unfold_locales (auto simp: store_defs less_Suc_eq)

section \<open>The repositories settle\<close>

text \<open>Rewriting a row in place, with its identity and key, is invisible to \<^const>\<open>rows_of\<close>.\<close>

lemma rows_rewrite:
  assumes "distinct (map rid t)" and "r \<in> set t" and "rid r' = rid r" and "f r' = f r"
  shows "map f (update_where (\<lambda>x. rid x = rid r') (\<lambda>_. r') t) = map f t"
proof -
  have "update_where (\<lambda>x. rid x = rid r') (\<lambda>_. r') t = map (\<lambda>x. if x = r then r' else x) t"
    using update_where_replace [of rid t r r'] assms(1-3) by simp
  with assms(4) show ?thesis by simp
qed

lemma ids_ok_map: "ids_ok rid t n \<longleftrightarrow> distinct (map rid t) \<and> (\<forall>i \<in> set (map rid t). i < n)"
  by (simp add: ids_ok_def)

lemma put_ioc_same:
  assumes ok: "store_ok d" and r: "r \<in> set (iocs d)" and same: "ioc_id r' = ioc_id r" "ioc_ty r' = ioc_ty r" "ioc_norm r' = ioc_norm r"
  shows "store_ok (put_ioc r' d) \<and> rows_of (put_ioc r' d) = rows_of d"
proof -
  have dist: "distinct (map ioc_id (iocs d))" using ok by (simp add: store_ok_def ids_ok_def)
  have m: "map f (iocs (put_ioc r' d)) = map f (iocs d)" if "f r' = f r" for f :: "ioc \<Rightarrow> 'a"
    using rows_rewrite [OF dist r same(1), of f] that by (simp add: put_ioc_def)
  have k: "map (\<lambda>r. (ioc_ty r, ioc_norm r)) (iocs (put_ioc r' d)) = map (\<lambda>r. (ioc_ty r, ioc_norm r)) (iocs d)"
    "map (\<lambda>r. (ioc_id r, ioc_ty r, ioc_norm r)) (iocs (put_ioc r' d)) = map (\<lambda>r. (ioc_id r, ioc_ty r, ioc_norm r)) (iocs d)"
    "map ioc_id (iocs (put_ioc r' d)) = map ioc_id (iocs d)"
    by (rule m, simp add: same)+
  have "ids_ok ioc_id (iocs d) (next_id d)" using ok by (simp add: store_ok_def)
  then have "ids_ok ioc_id (iocs (put_ioc r' d)) (next_id d)"
    unfolding ids_ok_map k(3) .
  moreover have "uq_ioc (iocs (put_ioc r' d))"
    using ok k(1) by (simp add: store_ok_def uq_ioc_def)
  ultimately show ?thesis
    using ok k(2) by (simp add: store_ok_def rows_of_def put_ioc_def)
qed

lemma put_edge_same:
  assumes ok: "store_ok d" and r: "r \<in> set (relationships d)" and same: "rel_id r' = rel_id r" "rel_key r' = rel_key r"
  shows "store_ok (put_edge r' d) \<and> rows_of (put_edge r' d) = rows_of d"
proof -
  have e: "edges_ok d" using ok by (simp add: store_ok_def edges_ok_def)
  have "map (\<lambda>r. (rel_id r, rel_key r)) (relationships (put_edge r' d)) = map (\<lambda>r. (rel_id r, rel_key r)) (relationships d)"
    unfolding put_edge_edges [OF e r same(1)] using same by simp
  with edges_ok_put [OF e r same] ok show ?thesis
    by (simp add: store_ok_def edges_ok_def rows_of_def put_edge_def)
qed

text \<open>Observing an edge.\<close>

lemma observe_new_store:
  assumes ok: "store_ok d" and none: "filter (edge_between src tgt rt) (relationships d) = []"
  shows "\<exists>r d'. observe src tgt rt c evid md d = (Inr (r, True), d') \<and> store_ok d' \<and> later d d' \<and>
    r \<in> set (relationships d') \<and> edge_between src tgt rt r"
proof -
  have e: "edges_ok d" using ok by (simp add: store_ok_def edges_ok_def)
  from observe_first [OF e none, of c evid md] obtain r where r:
    "observe src tgt rt c evid md d = (Inr (r, True), d\<lparr>relationships := relationships d @ [r], next_id := Suc (next_id d)\<rparr>)"
    "edge_between src tgt rt r" "rel_id r = next_id d" by blast
  have "uq_relationship (relationships d @ [r])"
    using observe_edges_ok [OF e, of src tgt rt c evid md] by (simp add: r(1) edges_ok_def)
  moreover have upd: "relationships_update (\<lambda>t. t @ [r]) (d\<lparr>next_id := Suc (next_id d)\<rparr>) =
      d\<lparr>relationships := relationships d @ [r], next_id := Suc (next_id d)\<rparr>"
    by (rule db.equality) simp_all
  ultimately have "store_ok (d\<lparr>relationships := relationships d @ [r], next_id := Suc (next_id d)\<rparr>)"
    using relationship_store.insert_ok [OF ok _ r(3)] unfolding upd by blast
  moreover have "later d (d\<lparr>relationships := relationships d @ [r], next_id := Suc (next_id d)\<rparr>)"
    using relationship_store.insert_later [of d r "Suc (next_id d)"] unfolding upd .
  ultimately show ?thesis using r(1,2) by auto
qed

lemma observe_old_store:
  assumes ok: "store_ok d" and one: "filter (edge_between src tgt rt) (relationships d) = [r]"
  shows "\<exists>r' d'. observe src tgt rt c evid md d = (Inr (r', False), d') \<and> store_ok d' \<and> rows_of d' = rows_of d"
proof -
  have e: "edges_ok d" using ok by (simp add: store_ok_def edges_ok_def)
  have "r \<in> set (relationships d)" using filter_single [OF one] by blast
  then show ?thesis
    using observe_again [OF e one] put_edge_same [OF ok _ bump_edge_fields(1,2)] by blast
qed

lemma edge_filter_later:
  assumes "later d e" and "r \<in> set (relationships d)" and "edge_between src tgt rt r" and "store_ok e"
  shows "\<exists>r'. filter (edge_between src tgt rt) (relationships e) = [r']"
proof -
  obtain r' where r': "r' \<in> set (relationships e)" "rel_key r' = rel_key r"
    using relationship_store.later_row [OF assms(1,2)] by blast
  have "edge_between src tgt rt r'" using assms(3) r'(2) unfolding edge_between_key by metis
  with r'(1) show ?thesis
    using filter_edge_cases [of "relationships e" src tgt rt] assms(4) by (auto simp: store_ok_def filter_empty_conv)
qed

lemma observe_settles:
  assumes Q: "\<And>d d'. rows_of d' = rows_of d \<Longrightarrow> Q d d'"
  shows "settles id Q (\<lambda>a b. \<not> snd b) (observe src tgt rt c evid md) (observe src tgt rt c evid md)"
proof -
  have once: "\<exists>x d' r. observe src tgt rt c evid md d = (Inr x, d') \<and> store_ok d' \<and> later d d' \<and>
      r \<in> set (relationships d') \<and> edge_between src tgt rt r" if ok: "store_ok d" for d
  proof (cases "filter (edge_between src tgt rt) (relationships d)")
    case Nil from observe_new_store [OF ok this] show ?thesis by blast
  next
    case (Cons r rs)
    then have one: "filter (edge_between src tgt rt) (relationships d) = [r]"
      using filter_edge_cases [of "relationships d" src tgt rt] ok by (auto simp: store_ok_def)
    from observe_old_store [OF ok this] obtain r' d' where run: "observe src tgt rt c evid md d = (Inr (r', False), d')"
      "store_ok d'" "rows_of d' = rows_of d" by blast
    from filter_single [OF one] have r: "r \<in> set (relationships d)" "edge_between src tgt rt r" by blast+
    from edge_filter_later [OF later_same [OF run(3)] r run(2)]
    obtain z where z: "filter (edge_between src tgt rt) (relationships d') = [z]" ..
    from filter_single [OF z] have "z \<in> set (relationships d')" "edge_between src tgt rt z" by (rule conjunct1, rule conjunct2)
    with run(1,2) later_same [OF run(3)] show ?thesis
      by (intro exI [of _ "(r', False)"] exI [of _ d'] exI [of _ z]) (intro conjI; assumption?; elim conjE; assumption)
  qed
  show ?thesis
  proof (rule settlesI)
    fix s r s' assume "store_ok (id s)" "observe src tgt rt c evid md s = (r, s')"
    with once [of s] show "store_ok (id s') \<and> later (id s) (id s')" by auto
  next
    fix s r s' t assume run: "store_ok (id s)" "observe src tgt rt c evid md s = (r, s')" and t: "store_ok (id t)" "later (id s') (id t)"
    with once [of s] obtain x y where r: "r = Inr x" "y \<in> set (relationships s')" "edge_between src tgt rt y" by auto
    from edge_filter_later [OF _ r(2,3)] t obtain z where "filter (edge_between src tgt rt) (relationships t) = [z]" by auto
    from observe_old_store [OF _ this, of c evid md] t(1) obtain r' t' where
      "observe src tgt rt c evid md t = (Inr (r', False), t')" "store_ok t'" "rows_of t' = rows_of t" by auto
    moreover from this have "Q t t'" by (intro Q)
    ultimately show "\<exists>r2 t'. observe src tgt rt c evid md t = (r2, t') \<and> store_ok (id t') \<and> rows_of (id t') = rows_of (id t) \<and>
        Q t t' \<and> rel_sum (\<lambda>_ _. True) (\<lambda>a b. \<not> snd b) r r2" using r(1) by auto
  qed
qed

text \<open>Recording evidence about a named field: the unique constraint then applies.\<close>

lemma map_filter_unique:
  "distinct (List.map_filter g t) \<Longrightarrow> length (filter (\<lambda>x. g x = Some k) t) \<le> 1"
proof (induction t)
  case (Cons x t)
  show ?case
  proof (cases "g x = Some k")
    case True
    with Cons.prems have "k \<notin> set (List.map_filter g t)" by (simp add: List.map_filter_simps)
    then have "filter (\<lambda>x. g x = Some k) t = []" by (force simp: List.map_filter_def filter_empty_conv)
    with True show ?thesis by simp
  next
    case False with Cons show ?thesis by (auto simp: List.map_filter_simps split: option.splits)
  qed
qed simp

lemma same_observation_key:
  "ei_field e = Some f \<Longrightarrow> same_observation sha dumps et eid e r \<longleftrightarrow>
   ev_obs_key r = Some (et, eid, f, ei_source e, evidence_hash sha dumps e)"
  by (auto simp: same_observation_def ev_obs_key_def)

lemma same_observation_unique:
  assumes "uq_evidence t" and "ei_field e = Some f"
  shows "length (filter (same_observation sha dumps et eid e) t) \<le> 1"
proof -
  have "same_observation sha dumps et eid e = (\<lambda>r. ev_obs_key r = Some (et, eid, f, ei_source e, evidence_hash sha dumps e))"
    using same_observation_key [OF assms(2)] by blast
  with map_filter_unique [of ev_obs_key t] assms(1) show ?thesis by (simp add: uq_evidence_def)
qed

lemma record_evidence_store:
  assumes ok: "store_ok d" and f: "ei_field e = Some f"
  shows "\<exists>r c d'. record_evidence sha dumps et eid e d = (Inr (r, c), d') \<and> store_ok d' \<and> later d d' \<and>
    r \<in> set (evidences d') \<and> same_observation sha dumps et eid e r"
proof (cases "filter (same_observation sha dumps et eid e) (evidences d)")
  case Nil
  let ?row = "evidence_row sha dumps et eid e d (next_id d)"
  from Nil have none: "\<forall>r \<in> set (evidences d). \<not> same_observation sha dumps et eid e r" by (simp add: filter_empty_conv)
  have "ev_obs_key ?row = Some (et, eid, f, ei_source e, evidence_hash sha dumps e)"
    using f same_observation_key [OF f] same_observation_row by blast
  with none ok f have "uq_evidence (evidences d @ [?row])"
    by (auto simp: store_ok_def uq_evidence_def List.map_filter_def same_observation_key)
  then have "record_evidence sha dumps et eid e d = (Inr (?row, True), d\<lparr>evidences := evidences d @ [?row], next_id := Suc (next_id d)\<rparr>)"
    by (simp add: record_evidence_miss [OF none] Let_def)
  moreover from \<open>uq_evidence (evidences d @ [?row])\<close> ok
  have "store_ok (d\<lparr>evidences := evidences d @ [?row], next_id := Suc (next_id d)\<rparr>)"
    by (auto simp: store_defs evidence_row_def less_Suc_eq)
  moreover have "later d (d\<lparr>evidences := evidences d @ [?row], next_id := Suc (next_id d)\<rparr>)" by (auto simp: later_def rows_of_def)
  ultimately show ?thesis by auto
next
  case (Cons r rs)
  have "length (filter (same_observation sha dumps et eid e) (evidences d)) \<le> 1"
    using same_observation_unique [OF _ f] ok by (simp add: store_ok_def)
  with Cons have one: "filter (same_observation sha dumps et eid e) (evidences d) = [r]" by simp
  then have "record_evidence sha dumps et eid e d = (Inr (r, False), d)"
    by (simp add: record_evidence_def scalar_filter [THEN iffD2])
  with ok filter_single [OF one] show ?thesis by auto
qed

lemma record_evidence_settles:
  assumes Q: "\<And>d. Q d d" and f: "ei_field e = Some f"
  shows "settles id Q (\<lambda>a b. \<not> snd b) (record_evidence sha dumps et eid e) (record_evidence sha dumps et eid e)"
proof (rule settlesI)
  fix s r s' assume "store_ok (id s)" "record_evidence sha dumps et eid e s = (r, s')"
  with record_evidence_store [OF _ f, of s sha dumps et eid] show "store_ok (id s') \<and> later (id s) (id s')" by auto
next
  fix s r s' t assume run: "store_ok (id s)" "record_evidence sha dumps et eid e s = (r, s')" and t: "store_ok (id t)" "later (id s') (id t)"
  with record_evidence_store [OF _ f, of s sha dumps et eid] obtain x y where r: "r = Inr x" "y \<in> set (evidences s')"
    "same_observation sha dumps et eid e y" by auto
  from t(2) r(2) have y: "y \<in> set (evidences t)" by (auto simp: later_def rows_of_def)
  have "length (filter (same_observation sha dumps et eid e) (evidences t)) \<le> 1"
    using same_observation_unique [OF _ f] t(1) by (simp add: store_ok_def)
  with y r(3) obtain z where "filter (same_observation sha dumps et eid e) (evidences t) = [z]"
    by (cases "filter (same_observation sha dumps et eid e) (evidences t)") (auto simp: filter_empty_conv)
  then have "record_evidence sha dumps et eid e t = (Inr (z, False), t)"
    by (simp add: record_evidence_def scalar_filter [THEN iffD2])
  with t r Q show "\<exists>r2 t'. record_evidence sha dumps et eid e t = (r2, t') \<and> store_ok (id t') \<and> rows_of (id t') = rows_of (id t) \<and>
      Q t t' \<and> rel_sum (\<lambda>_ _. True) (\<lambda>a b. \<not> snd b) r r2" by auto
qed

text \<open>Entities.\<close>

lemma settles_error: "(\<And>t. Q t t) \<Longrightarrow> settles g Q R (\<lambda>d. (Inl e, d)) (\<lambda>d. (Inl e', d))"
  by (rule settlesI) auto

lemma username_settles:
  "(\<And>t. Q t t) \<Longrightarrow> settles id Q (\<lambda>a b. un_id (fst b) = un_id (fst a) \<and> \<not> snd b)
    (username_get_or_create platform v) (username_get_or_create platform v)"
  unfolding username_get_or_create_def [abs_def]
  by (cases "normalize_username v")
     (auto intro!: settles_error username_store.settles_get_or_create)

lemma external_settles:
  "(\<And>t. Q t t) \<Longrightarrow> settles id Q (\<lambda>a b. ea_id (fst b) = ea_id (fst a) \<and> \<not> snd b)
    (external_get_or_create platform v) (external_get_or_create platform v)"
  unfolding external_get_or_create_def [abs_def]
  by (cases "normalize_username v")
     (auto intro!: settles_error external_store.settles_get_or_create)

lemma domain_settles:
  "(\<And>t. Q t t) \<Longrightarrow> settles id Q (\<lambda>a b. dm_id (fst b) = dm_id (fst a) \<and> \<not> snd b)
    (domain_get_or_create v) (domain_get_or_create v)"
  unfolding domain_get_or_create_def [abs_def]
  by (cases "normalize_domain v")
     (auto intro!: settles_error domain_store.settles_get_or_create)

lemma url_settles:
  "(\<And>t. Q t t) \<Longrightarrow> settles id Q (\<lambda>a b. ur_id (fst b) = ur_id (fst a) \<and> \<not> snd b)
    (url_get_or_create sha v) (url_get_or_create sha v)"
  unfolding url_get_or_create_def [abs_def]
  by (cases "normalize_url v"; cases "urlsplit (projr (normalize_url v))")
     (auto intro!: settles_error url_store.settles_get_or_create)

lemma ip_settles:
  "(\<And>t. Q t t) \<Longrightarrow> settles id Q (\<lambda>a b. ip_id (fst b) = ip_id (fst a) \<and> \<not> snd b)
    (ip_get_or_create v) (ip_get_or_create v)"
  unfolding ip_get_or_create_def [abs_def]
  by (cases "normalize_ip v"; cases "ip_address_of (projr (normalize_ip v))")
     (auto intro!: settles_error ip_store.settles_get_or_create)

lemma ioc_settles:
  assumes Q: "\<And>d d'. rows_of d' = rows_of d \<Longrightarrow> Q d d'"
  shows "settles id Q (\<lambda>a b. ioc_id (fst b) = ioc_id (fst a) \<and> \<not> snd b) (ioc_get_or_create t v) (ioc_get_or_create t v)"
proof (cases "normalize_ioc t v")
  case (Inl e)
  then show ?thesis unfolding ioc_get_or_create_def [abs_def] by (auto intro!: settles_error Q)
next
  case (Inr n)
  let ?mk = "\<lambda>d i. \<lparr>ioc_id = i, ioc_ty = t, ioc_val = strip v, ioc_norm = n, ioc_linked = None, ioc_times_observed = 1,
        ioc_created_at = now d\<rparr>"
  let ?get = "get_or_create iocs iocs_update uq_ioc (\<lambda>r. ioc_ty r = t \<and> ioc_norm r = n) ?mk"
  have run: "ioc_get_or_create t v d = (case ?get d of
      (Inl e, d') \<Rightarrow> (Inl e, d')
    | (Inr (r, created), d') \<Rightarrow> if created then (Inr (r, True), d')
        else (Inr (r\<lparr>ioc_times_observed := Suc (ioc_times_observed r)\<rparr>, False),
              put_ioc (r\<lparr>ioc_times_observed := Suc (ioc_times_observed r)\<rparr>) d'))" for d
    by (simp only: ioc_get_or_create_def Inr sum.case Let_def)
  have again: "\<exists>x e'. ioc_get_or_create t v e = (Inr (x, False), e') \<and> ioc_id x = ioc_id r \<and> store_ok e' \<and> rows_of e' = rows_of e"
    if ok: "store_ok e" and r: "r \<in> set (iocs e)" "(ioc_ty r, ioc_norm r) = (t, n)" for r e
  proof -
    have "?get e = (Inr (r, False), e)"
      using ioc_store.get_or_create_found_again [OF ok r(1)] r(2) by auto
    with put_ioc_same [OF ok r(1), of "r\<lparr>ioc_times_observed := Suc (ioc_times_observed r)\<rparr>"] show ?thesis
      by (simp add: run)
  qed
  have once: "\<exists>x c d'. ioc_get_or_create t v d = (Inr (x, c), d') \<and> store_ok d' \<and> later d d' \<and>
      (\<exists>r \<in> set (iocs d'). (ioc_ty r, ioc_norm r) = (t, n) \<and> ioc_id r = ioc_id x)" if ok: "store_ok d" for d
  proof -
    obtain r c d' where g: "?get d = (Inr (r, c), d')" "r \<in> set (iocs d')" "(ioc_ty r, ioc_norm r) = (t, n)" "store_ok d'" "later d d'"
      using ioc_store.get_or_create_store [OF ok, of "\<lambda>r. ioc_ty r = t \<and> ioc_norm r = n" "(t, n)" ?mk] by auto
    show ?thesis
    proof (cases c)
      case True with g show ?thesis by (auto simp: run)
    next
      case False
      let ?r = "r\<lparr>ioc_times_observed := Suc (ioc_times_observed r)\<rparr>"
      from False g have res: "ioc_get_or_create t v d = (Inr (?r, False), put_ioc ?r d')" by (simp add: run)
      from put_ioc_same [OF g(4,2), of ?r] have same: "store_ok (put_ioc ?r d')" "rows_of (put_ioc ?r d') = rows_of d'" by simp_all
      from ioc_store.later_row [OF later_same [OF same(2)] g(2)] g(3)
      have "\<exists>x \<in> set (iocs (put_ioc ?r d')). (ioc_ty x, ioc_norm x) = (t, n) \<and> ioc_id x = ioc_id r" by auto
      with res same g(5) later_rows show ?thesis by auto
    qed
  qed
  show ?thesis
  proof (rule settlesI)
    fix s r s' assume "store_ok (id s)" "ioc_get_or_create t v s = (r, s')"
    with once [of s] show "store_ok (id s') \<and> later (id s) (id s')" by auto
  next
    fix s r s' u assume first: "store_ok (id s)" "ioc_get_or_create t v s = (r, s')" and u: "store_ok (id u)" "later (id s') (id u)"
    with once [of s] obtain x c y where r: "r = Inr (x, c)" "y \<in> set (iocs s')" "(ioc_ty y, ioc_norm y) = (t, n)" "ioc_id y = ioc_id x"
      by auto
    from ioc_store.later_row [OF _ r(2)] u(2) obtain z where z: "z \<in> set (iocs u)" "ioc_id z = ioc_id x" "(ioc_ty z, ioc_norm z) = (t, n)"
      using r(3,4) by auto
    from again [OF _ z(1,3)] u(1) z(2) obtain w u' where
      "ioc_get_or_create t v u = (Inr (w, False), u')" "ioc_id w = ioc_id x" "store_ok u'" "rows_of u' = rows_of u" by auto
    moreover from this have "Q u u'" by (intro Q)
    ultimately show "\<exists>r2 t'. ioc_get_or_create t v u = (r2, t') \<and> store_ok (id t') \<and> rows_of (id t') = rows_of (id u) \<and>
        Q u t' \<and> rel_sum (\<lambda>_ _. True) (\<lambda>a b. ioc_id (fst b) = ioc_id (fst a) \<and> \<not> snd b) r r2" using r(1) by auto
  qed
qed

text \<open>On a state with a tally.\<close>

lemma settles_on_fst:
  fixes Q :: "db \<times> 't \<Rightarrow> db \<times> 't \<Rightarrow> bool"
  assumes m: "settles id (\<lambda>_ _. True) R m m'" and Q: "\<And>d d' x. Q (d, x) (d', x)"
  shows "settles fst Q R (on_fst m) (on_fst m')"
proof (rule settlesI)
  fix s r and s' :: "db \<times> 't" assume "store_ok (fst s)" "on_fst m s = (r, s')"
  with settlesD1 [OF m, of "fst s" "fst (m (fst s))" "snd (m (fst s))"] show "store_ok (fst s') \<and> later (fst s) (fst s')"
    by (auto simp: on_fst_def split: prod.splits)
next
  fix s r and s' t :: "db \<times> 't"
  assume "store_ok (fst s)" and run: "on_fst m s = (r, s')" and "store_ok (fst t)" "later (fst s') (fst t)"
  moreover from run have "m (fst s) = (r, fst s')" by (auto simp: on_fst_def split: prod.splits)
  ultimately obtain r2 d' where "m' (fst t) = (r2, d')" "store_ok d'" "rows_of d' = rows_of (fst t)" "rel_sum (\<lambda>_ _. True) R r r2"
    using settlesD2 [OF m, of "fst s" r "fst s'" "fst t"] by auto
  with Q show "\<exists>r2 t'. on_fst m' t = (r2, t') \<and> store_ok (fst t') \<and> rows_of (fst t') = rows_of (fst t) \<and> Q t t' \<and>
      rel_sum (\<lambda>_ _. True) R r r2"
    by (cases t) (auto simp: on_fst_def)
qed

end
