(* ===== verification/Enrich.thy ===== *)
theory Enrich
  imports Rerun IocExtract "HOL-Library.List_Lexorder" "HOL-Library.Char_ord"
begin

text \<open>
  \<open>intelligence/ioc/enrich.py\<close>: the indicators of a stored text become IOC rows, typed entities,
  evidence and edges; and \<open>intelligence/ioc/service.py\<close>, which reads them back. The state is the
  database and the summary the pass counts into.
\<close>

definition message_rel :: "ioc_type \<Rightarrow> rel_type \<times> int" where
  "message_rel t = (case t of
     IPV4 \<Rightarrow> (MESSAGE_CONTAINS_IP, 80) | IPV6 \<Rightarrow> (MESSAGE_CONTAINS_IP, 80)
   | IOC_DOMAIN \<Rightarrow> (MESSAGE_CONTAINS_DOMAIN, 70)
   | IOC_URL \<Rightarrow> (MESSAGE_CONTAINS_URL, 85) | TELEGRAM_URL \<Rightarrow> (MESSAGE_CONTAINS_URL, 85)
   | IOC_EMAIL \<Rightarrow> (MESSAGE_CONTAINS_IOC, 85)
   | MD5 \<Rightarrow> (MESSAGE_CONTAINS_IOC, 90) | SHA1 \<Rightarrow> (MESSAGE_CONTAINS_IOC, 90) | SHA256 \<Rightarrow> (MESSAGE_CONTAINS_IOC, 90)
   | CVE \<Rightarrow> (MESSAGE_CONTAINS_IOC, 90)
   | TELEGRAM_USERNAME \<Rightarrow> (MESSAGE_MENTIONS_USERNAME, 75))"

definition derived_penalty :: int where
  "derived_penalty = 10"

definition penalty :: "ioc_match \<Rightarrow> int" where
  "penalty m = (case im_derived m of Some (c # w) \<Rightarrow> derived_penalty | _ \<Rightarrow> 0)"

record enrich_summary =
  es_iocs_created :: nat
  es_relationships :: nat
  es_evidence :: nat
  es_by_type :: "ioc_type \<Rightarrow> nat"

definition empty_summary :: enrich_summary where
  "empty_summary = \<lparr>es_iocs_created = 0, es_relationships = 0, es_evidence = 0, es_by_type = (\<lambda>_. 0)\<rparr>"

text \<open>The counters.\<close>

definition count_ioc :: "ioc_type \<Rightarrow> bool \<Rightarrow> enrich_summary \<Rightarrow> enrich_summary" where
  "count_ioc t created s =
     (if created then s\<lparr>es_iocs_created := Suc (es_iocs_created s),
                        es_by_type := (es_by_type s)(t := Suc (es_by_type s t))\<rparr> else s)"

definition count_evidence :: "enrich_summary \<Rightarrow> enrich_summary" where
  "count_evidence s = s\<lparr>es_evidence := Suc (es_evidence s)\<rparr>"

definition count_edge :: "bool \<Rightarrow> enrich_summary \<Rightarrow> enrich_summary" where
  "count_edge created s = (if created then s\<lparr>es_relationships := Suc (es_relationships s)\<rparr> else s)"

section \<open>The enricher\<close>

type_synonym 'a enriching = "(db \<times> enrich_summary, 'a) action"

definition upsert_ioc :: "ioc_match \<Rightarrow> ioc enriching" where
  "upsert_ioc m =
     bnd (on_fst (ioc_get_or_create (im_type m) (im_value m))) (\<lambda>x.
     bnd (tally (count_ioc (im_type m) (snd x))) (\<lambda>_. ret (fst x)))"

text \<open>The first typed entity an IOC is seen as becomes its link.\<close>

definition set_link :: "ioc \<Rightarrow> entity_type \<times> uid \<Rightarrow> (db, (entity_type \<times> uid) option) action" where
  "set_link i e d =
     (Inr (Some e), d\<lparr>iocs := update_where (\<lambda>r. ioc_id r = ioc_id i \<and> ioc_linked r = None)
        (\<lambda>r. r\<lparr>ioc_linked := Some e\<rparr>) (iocs d)\<rparr>)"

definition link_typed_entity :: "(string \<Rightarrow> string) \<Rightarrow> ioc \<Rightarrow> ioc_match \<Rightarrow> (db, (entity_type \<times> uid) option) action" where
  "link_typed_entity sha i m =
     (if im_type m = IPV4 \<or> im_type m = IPV6
      then bnd (ip_get_or_create (im_value m)) (\<lambda>x. set_link i (E_IP, ip_id (fst x)))
      else if im_type m = IOC_DOMAIN
      then bnd (domain_get_or_create (im_value m)) (\<lambda>x. set_link i (E_DOMAIN, dm_id (fst x)))
      else if im_type m = IOC_URL \<or> im_type m = TELEGRAM_URL
      then bnd (url_get_or_create sha (im_value m)) (\<lambda>x. set_link i (E_URL, ur_id (fst x)))
      else ret None)"

text \<open>Where and how a text was observed.\<close>

record provenance =
  pv_source :: string
  pv_source_type :: string
  pv_reference :: "string option"
  pv_observed_at :: "time option"

definition snippet :: "string \<Rightarrow> ioc_match \<Rightarrow> string" where
  "snippet text m = slice text (im_start m - 60) (im_end m + 60)"

definition ioc_evidence :: "provenance \<Rightarrow> string \<Rightarrow> string \<Rightarrow> ioc_match \<Rightarrow> evidence_in" where
  "ioc_evidence pv text field_name m =
     \<lparr>ei_field = Some field_name, ei_value = JStr (im_value m),
      ei_source = (if pv_source pv = [] then ''manual'' else pv_source pv), ei_source_type = pv_source_type pv,
      ei_reference = pv_reference pv, ei_raw_content = Some (snippet text m), ei_content_hash = None,
      ei_observed_at = pv_observed_at pv, ei_method = Some ''ioc_regex'', ei_confidence = 80 - penalty m, ei_metadata = []\<rparr>"

definition record_ioc_evidence ::
  "(string \<Rightarrow> string) \<Rightarrow> (json \<Rightarrow> string) \<Rightarrow> provenance \<Rightarrow> string \<Rightarrow> string \<Rightarrow> ioc_match \<Rightarrow> uid \<Rightarrow> unit enriching" where
  "record_ioc_evidence sha dumps pv text field_name m i =
     bnd (on_fst (record_evidence sha dumps E_IOC i (ioc_evidence pv text field_name m))) (\<lambda>_. tally count_evidence)"

definition observe_counted :: "entity_type \<times> uid \<Rightarrow> entity_type \<times> uid \<Rightarrow> rel_type \<Rightarrow> int \<Rightarrow> unit enriching" where
  "observe_counted src tgt rt conf =
     bnd (on_fst (observe src tgt rt conf None [])) (\<lambda>x. tally (count_edge (snd x)))"

definition mention_edge :: "entity_type \<times> uid \<Rightarrow> ioc_match \<Rightarrow> int \<Rightarrow> unit enriching" where
  "mention_edge container m conf =
     (if im_type m = TELEGRAM_USERNAME
      then bnd (on_fst (username_get_or_create ''telegram'' (im_value m))) (\<lambda>x.
             observe_counted container (E_USERNAME, un_id (fst x)) MESSAGE_MENTIONS_USERNAME conf)
      else ret ())"

definition typed_edge :: "entity_type \<times> uid \<Rightarrow> ioc_match \<Rightarrow> int \<Rightarrow> (entity_type \<times> uid) option \<Rightarrow> unit enriching" where
  "typed_edge container m conf typed =
     (case typed of
        Some e \<Rightarrow> if fst container = E_MESSAGE then observe_counted container e (fst (message_rel (im_type m))) conf else ret ()
      | None \<Rightarrow> ret ())"

definition ingest_match ::
  "(string \<Rightarrow> string) \<Rightarrow> (json \<Rightarrow> string) \<Rightarrow> entity_type \<times> uid \<Rightarrow> provenance \<Rightarrow> string \<Rightarrow> ioc_match \<Rightarrow> unit enriching" where
  "ingest_match sha dumps container pv text m =
     bnd (upsert_ioc m) (\<lambda>i.
     bnd (on_fst (link_typed_entity sha i m)) (\<lambda>typed.
     bnd (record_ioc_evidence sha dumps pv text ''observed_in_message'' m (ioc_id i)) (\<lambda>_.
     let conf = snd (message_rel (im_type m)) - penalty m in
     bnd (observe_counted container (E_IOC, ioc_id i)
            (if fst container = E_MESSAGE then MESSAGE_CONTAINS_IOC else fst (message_rel (im_type m))) conf) (\<lambda>_.
     bnd (typed_edge container m conf typed) (\<lambda>_. mention_edge container m conf)))))"

text \<open>One failing match is logged and skipped; the extraction itself is outside the \<open>try\<close>.\<close>

definition enrich ::
  "(string \<Rightarrow> string) \<Rightarrow> (json \<Rightarrow> string) \<Rightarrow> entity_type \<times> uid \<Rightarrow> provenance \<Rightarrow> string \<Rightarrow> unit enriching" where
  "enrich sha dumps container pv text =
     bnd (liftE (extract_iocs text)) (\<lambda>ms.
     for_each (\<lambda>m. catch (ingest_match sha dumps container pv text m) (\<lambda>_. ret ())) ms)"

definition with_summary :: "unit enriching \<Rightarrow> (db, enrich_summary) action" where
  "with_summary m d = (case m (d, empty_summary) of (Inl e, (d', _)) \<Rightarrow> (Inl e, d') | (Inr _, (d', s)) \<Rightarrow> (Inr s, d'))"

definition enrich_message ::
  "(string \<Rightarrow> string) \<Rightarrow> (json \<Rightarrow> string) \<Rightarrow> uid \<Rightarrow> string \<Rightarrow> provenance \<Rightarrow> (db, enrich_summary) action" where
  "enrich_message sha dumps message_id text pv = with_summary (enrich sha dumps (E_MESSAGE, message_id) pv text)"

definition entity_text_types :: "ioc_type set" where
  "entity_text_types = {IOC_DOMAIN, IOC_URL, TELEGRAM_URL, IOC_EMAIL}"

definition enrich_entity_match ::
  "(string \<Rightarrow> string) \<Rightarrow> (json \<Rightarrow> string) \<Rightarrow> entity_type \<times> uid \<Rightarrow> provenance \<Rightarrow> string \<Rightarrow> string \<Rightarrow> ioc_match \<Rightarrow> unit enriching" where
  "enrich_entity_match sha dumps e pv text field_name m =
     (if im_type m \<notin> entity_text_types then ret ()
      else bnd (upsert_ioc m) (\<lambda>i.
           bnd (record_ioc_evidence sha dumps pv text field_name m (ioc_id i)) (\<lambda>_.
           observe_counted e (E_IOC, ioc_id i)
             (if im_type m \<in> {IOC_URL, TELEGRAM_URL} then ACCOUNT_LINKED_TO_WEBSITE else DOMAIN_REFERENCED_BY_ACCOUNT) 60)))"

definition enrich_entity_text ::
  "(string \<Rightarrow> string) \<Rightarrow> (json \<Rightarrow> string) \<Rightarrow> entity_type \<times> uid \<Rightarrow> string \<Rightarrow> provenance \<Rightarrow> string \<Rightarrow> (db, enrich_summary) action" where
  "enrich_entity_text sha dumps e text pv field_name =
     with_summary (bnd (liftE (extract_iocs text)) (for_each (enrich_entity_match sha dumps e pv text field_name)))"

section \<open>Reading indicators\<close>

definition ioc_edge_types :: "rel_type set" where
  "ioc_edge_types = {MESSAGE_CONTAINS_IOC, MESSAGE_CONTAINS_DOMAIN, MESSAGE_CONTAINS_IP, MESSAGE_CONTAINS_URL}"

text \<open>A typed target is resolved back to the IOC linked to it; two such IOCs raise.\<close>

fun ioc_ids_of_targets :: "db \<Rightarrow> (entity_type \<times> uid) list \<Rightarrow> exn + uid list" where
  "ioc_ids_of_targets d [] = Inr []"
| "ioc_ids_of_targets d (t # ts) =
     (case scalar_one_or_none (\<lambda>r. ioc_linked r = Some t) (iocs d) of
        Inl e \<Rightarrow> Inl e
      | Inr hit \<Rightarrow> map_sum id (\<lambda>is. (case hit of None \<Rightarrow> [] | Some r \<Rightarrow> [ioc_id r]) @ is) (ioc_ids_of_targets d ts))"

definition ioc_ids_from_messages :: "db \<Rightarrow> uid list \<Rightarrow> exn + uid list" where
  "ioc_ids_from_messages d mids =
     (let ts = map (\<lambda>r. (rel_target_type r, rel_target_id r))
                 (filter (\<lambda>r. rel_source_type r = E_MESSAGE \<and> rel_source_id r \<in> set mids \<and> rel_ty r \<in> ioc_edge_types)
                    (relationships d))
      in map_sum id (\<lambda>is. map snd (filter (\<lambda>t. fst t = E_IOC) ts) @ is)
           (ioc_ids_of_targets d (filter (\<lambda>t. fst t \<noteq> E_IOC) ts)))"

record ioc_view =
  iv_ioc :: ioc
  iv_evidence_count :: nat

definition ioc_row :: "db \<Rightarrow> ioc \<Rightarrow> ioc_view" where
  "ioc_row d i = \<lparr>iv_ioc = i,
     iv_evidence_count = length (filter (\<lambda>v. ev_entity_type v = E_IOC \<and> ev_entity_id v = ioc_id i) (evidences d))\<rparr>"

definition iocs_hydrate :: "db \<Rightarrow> uid list \<Rightarrow> ioc_view list" where
  "iocs_hydrate d is =
     sort_key (\<lambda>v. (ioc_ty (iv_ioc v), ioc_val (iv_ioc v))) (map (ioc_row d) (filter (\<lambda>r. ioc_id r \<in> set is) (iocs d)))"

definition iocs_for_message :: "uid \<Rightarrow> (db, ioc_view list) action" where
  "iocs_for_message mid d = (map_sum id (iocs_hydrate d) (ioc_ids_from_messages d [mid]), d)"

definition iocs_for_container :: "entity_type \<times> uid \<Rightarrow> nat \<Rightarrow> (db, ioc_view list) action" where
  "iocs_for_container c limit d =
     (map_sum id (iocs_hydrate d) (ioc_ids_from_messages d
        (map ms_id (take limit (filter (\<lambda>m. (ms_source_type m, ms_source_id m) = c) (messages d))))), d)"

definition recent_iocs :: "nat \<Rightarrow> ioc_type option \<Rightarrow> db \<Rightarrow> ioc_view list" where
  "recent_iocs limit t d =
     map (ioc_row d) (take limit (sort_key (\<lambda>r. - ioc_created_at r) (filter (\<lambda>r. t = None \<or> t = Some (ioc_ty r)) (iocs d))))"

section \<open>Enriching again\<close>

text \<open>A second pass may count evidence and nothing else.\<close>

definition no_growth :: "db \<times> enrich_summary \<Rightarrow> db \<times> enrich_summary \<Rightarrow> bool" where
  "no_growth s t \<longleftrightarrow> es_iocs_created (snd t) = es_iocs_created (snd s) \<and> es_relationships (snd t) = es_relationships (snd s)"

interpretation enriching: quiet_runs fst no_growth
  by unfold_locales (auto simp: no_growth_def)

interpretation storing: quiet_runs id "\<lambda>_ _. True"
  by unfold_locales auto

lemma settles_count:
  assumes "\<And>s. no_growth s (fst s, f' (snd s))"
  shows "settles fst no_growth (\<lambda>_ _. True) (tally f) (tally f')"
  by (rule settlesI) (use assms in \<open>auto simp: tally_def\<close>)

lemma settles_stored:
  "settles id (\<lambda>_ _. True) R m m' \<Longrightarrow> settles fst no_growth R (on_fst m) (on_fst m')"
  by (rule settles_on_fst) (simp_all add: no_growth_def)

lemma upsert_ioc_settles:
  "settles fst no_growth (\<lambda>a b. ioc_id b = ioc_id a) (upsert_ioc m) (upsert_ioc m)"
  unfolding upsert_ioc_def
  by (rule enriching.settles_bnd [OF settles_stored [OF ioc_settles]], simp,
      rule enriching.settles_bnd [OF settles_count]) (auto simp: no_growth_def count_ioc_def intro: enriching.settles_ret)

lemma observe_counted_settles:
  "settles fst no_growth (\<lambda>_ _. True) (observe_counted src tgt rt conf) (observe_counted src tgt rt conf)"
  unfolding observe_counted_def
  by (rule enriching.settles_bnd [OF settles_stored [OF observe_settles]], simp)
     (rule settles_count, simp add: no_growth_def count_edge_def)

lemma record_ioc_evidence_settles:
  "settles fst no_growth (\<lambda>_ _. True) (record_ioc_evidence sha dumps pv text f m i) (record_ioc_evidence sha dumps pv text f m i)"
  unfolding record_ioc_evidence_def
  by (rule enriching.settles_bnd [OF settles_stored [OF record_evidence_settles]])
     (auto simp: ioc_evidence_def no_growth_def count_evidence_def intro: settles_count)

lemma set_link_store:
  assumes "store_ok d" and "set_link i e d = (r, d')"
  shows "r = Inr (Some e) \<and> store_ok d' \<and> rows_of d' = rows_of d"
proof -
  let ?t = "update_where (\<lambda>r. ioc_id r = ioc_id i \<and> ioc_linked r = None) (\<lambda>r. r\<lparr>ioc_linked := Some e\<rparr>) (iocs d)"
  have m: "map f ?t = map f (iocs d)" if "\<And>r. f (r\<lparr>ioc_linked := Some e\<rparr>) = f r" for f :: "ioc \<Rightarrow> 'a"
    using that by (simp add: update_where_def)
  have "ids_ok ioc_id ?t (next_id d)"
    using assms(1) unfolding ids_ok_map by (simp add: m store_ok_def ids_ok_map)
  moreover have "map (\<lambda>r. (ioc_ty r, ioc_norm r)) ?t = map (\<lambda>r. (ioc_ty r, ioc_norm r)) (iocs d)"
    "map (\<lambda>r. (ioc_id r, ioc_ty r, ioc_norm r)) ?t = map (\<lambda>r. (ioc_id r, ioc_ty r, ioc_norm r)) (iocs d)"
    by (rule m, simp)+
  moreover have "r = Inr (Some e)" "d' = d\<lparr>iocs := ?t\<rparr>" using assms(2) by (simp_all add: set_link_def)
  ultimately show ?thesis
    using assms(1) by (simp add: store_ok_def uq_ioc_def rows_of_def)
qed

lemma set_link_settles: "settles id (\<lambda>_ _. True) (=) (set_link i e) (set_link j e)"
proof (rule settlesI)
  fix s r s' assume "store_ok (id s)" "set_link i e s = (r, s')"
  with set_link_store [of s i e r s'] later_same show "store_ok (id s') \<and> later (id s) (id s')" by auto
next
  fix s r s' t assume "store_ok (id s)" "set_link i e s = (r, s')" "store_ok (id t)"
  with set_link_store [of s i e r s'] set_link_store [of t j e "fst (set_link j e t)" "snd (set_link j e t)"]
  show "\<exists>r2 t'. set_link j e t = (r2, t') \<and> store_ok (id t') \<and> rows_of (id t') = rows_of (id t) \<and> True \<and> rel_sum (\<lambda>_ _. True) (=) r r2"
    by (cases "set_link j e t") simp
qed

lemma link_typed_entity_settles:
  "settles id (\<lambda>_ _. True) (=) (link_typed_entity sha i m) (link_typed_entity sha j m)"
  unfolding link_typed_entity_def
  by (auto intro!: storing.settles_ret storing.settles_bnd [OF ip_settles] storing.settles_bnd [OF domain_settles]
      storing.settles_bnd [OF url_settles] set_link_settles)

lemma mention_edge_settles:
  "settles fst no_growth (\<lambda>_ _. True) (mention_edge container m conf) (mention_edge container m conf)"
  unfolding mention_edge_def
  by (auto intro!: enriching.settles_ret enriching.settles_bnd [OF settles_stored [OF username_settles]] observe_counted_settles)

lemma typed_edge_settles:
  "settles fst no_growth (\<lambda>_ _. True) (typed_edge container m conf typed) (typed_edge container m conf typed)"
  unfolding typed_edge_def
  by (auto intro!: enriching.settles_ret observe_counted_settles split: option.splits)

lemma ingest_match_settles:
  "settles fst no_growth (\<lambda>_ _. True) (ingest_match sha dumps container pv text m) (ingest_match sha dumps container pv text m)"
  unfolding ingest_match_def Let_def
proof (rule enriching.settles_bnd [OF upsert_ioc_settles])
  fix i j :: ioc assume same: "ioc_id j = ioc_id i"
  show "settles fst no_growth (\<lambda>_ _. True)
     (bnd (on_fst (link_typed_entity sha i m)) (\<lambda>typed.
      bnd (record_ioc_evidence sha dumps pv text ''observed_in_message'' m (ioc_id i)) (\<lambda>_.
      bnd (observe_counted container (E_IOC, ioc_id i)
        (if fst container = E_MESSAGE then MESSAGE_CONTAINS_IOC else fst (message_rel (im_type m)))
        (snd (message_rel (im_type m)) - penalty m)) (\<lambda>_.
      bnd (typed_edge container m (snd (message_rel (im_type m)) - penalty m) typed) (\<lambda>_.
        mention_edge container m (snd (message_rel (im_type m)) - penalty m))))))
     (bnd (on_fst (link_typed_entity sha j m)) (\<lambda>typed.
      bnd (record_ioc_evidence sha dumps pv text ''observed_in_message'' m (ioc_id j)) (\<lambda>_.
      bnd (observe_counted container (E_IOC, ioc_id j)
        (if fst container = E_MESSAGE then MESSAGE_CONTAINS_IOC else fst (message_rel (im_type m)))
        (snd (message_rel (im_type m)) - penalty m)) (\<lambda>_.
      bnd (typed_edge container m (snd (message_rel (im_type m)) - penalty m) typed) (\<lambda>_.
        mention_edge container m (snd (message_rel (im_type m)) - penalty m))))))"
    unfolding same
    by (rule enriching.settles_bnd [OF settles_stored [OF link_typed_entity_settles]], hypsubst,
        rule enriching.settles_bnd [OF record_ioc_evidence_settles],
        rule enriching.settles_bnd [OF observe_counted_settles],
        rule enriching.settles_bnd [OF typed_edge_settles], rule mention_edge_settles)
qed

lemma enrich_settles:
  "settles fst no_growth (\<lambda>_ _. True) (enrich sha dumps container pv text) (enrich sha dumps container pv text)"
  unfolding enrich_def
  by (rule enriching.settles_bnd [OF enriching.settles_liftE], simp, rule enriching.settles_for_each)
     (auto intro: enriching.settles_catch ingest_match_settles enriching.settles_ret)

lemma enrich_entity_match_settles:
  "settles fst no_growth (\<lambda>_ _. True) (enrich_entity_match sha dumps e pv text f m) (enrich_entity_match sha dumps e pv text f m)"
  unfolding enrich_entity_match_def
  by (auto intro!: enriching.settles_ret enriching.settles_bnd [OF upsert_ioc_settles]
      enriching.settles_bnd [OF record_ioc_evidence_settles] observe_counted_settles)

lemma with_summary_settles:
  assumes m: "settles fst no_growth (\<lambda>_ _. True) m m"
  shows "settles id (\<lambda>_ _. True) (\<lambda>_ s. es_iocs_created s = 0 \<and> es_relationships s = 0) (with_summary m) (with_summary m)"
proof (rule settlesI)
  fix s r s' assume "store_ok (id s)" "with_summary m s = (r, s')"
  with settlesD1 [OF m, of "(s, empty_summary)" "fst (m (s, empty_summary))" "snd (m (s, empty_summary))"]
  show "store_ok (id s') \<and> later (id s) (id s')" by (auto simp: with_summary_def split: prod.splits sum.splits)
next
  fix s r s' t assume a: "store_ok (id s)" "with_summary m s = (r, s')" "store_ok (id t)" "later (id s') (id t)"
  obtain r1 s1 where s1: "m (s, empty_summary) = (r1, s1)" by (cases "m (s, empty_summary)")
  with a(2) have s': "fst s1 = s'" by (auto simp: with_summary_def split: prod.splits sum.splits)
  from settlesD2 [OF m _ s1, of "(t, empty_summary)"] a s' obtain r2 t1 where t1: "m (t, empty_summary) = (r2, t1)"
    "store_ok (fst t1)" "rows_of (fst t1) = rows_of t" "no_growth (t, empty_summary) t1" "rel_sum (\<lambda>_ _. True) (\<lambda>_ _. True) r1 r2" by auto
  from t1(1,4,5) a(2) s1 have "with_summary m t = (map_sum id (\<lambda>_. snd t1) r2, fst t1)"
    "rel_sum (\<lambda>_ _. True) (\<lambda>_ s. es_iocs_created s = 0 \<and> es_relationships s = 0) r (map_sum id (\<lambda>_. snd t1) r2)"
    by (auto simp: with_summary_def no_growth_def empty_summary_def elim!: rel_sum.cases split: prod.splits)
  with t1(2,3) show "\<exists>r2 t'. with_summary m t = (r2, t') \<and> store_ok (id t') \<and> rows_of (id t') = rows_of (id t) \<and> True \<and>
      rel_sum (\<lambda>_ _. True) (\<lambda>_ s. es_iocs_created s = 0 \<and> es_relationships s = 0) r r2" by auto
qed

lemma enrich_message_settles:
  "settles id (\<lambda>_ _. True) (\<lambda>_ s. es_iocs_created s = 0 \<and> es_relationships s = 0)
     (enrich_message sha dumps mid text pv) (enrich_message sha dumps mid text pv)"
  unfolding enrich_message_def by (rule with_summary_settles [OF enrich_settles])

lemma enrich_entity_text_settles:
  "settles id (\<lambda>_ _. True) (\<lambda>_ s. es_iocs_created s = 0 \<and> es_relationships s = 0)
     (enrich_entity_text sha dumps e text pv f) (enrich_entity_text sha dumps e text pv f)"
  unfolding enrich_entity_text_def
  by (rule with_summary_settles, rule enriching.settles_bnd [OF enriching.settles_liftE], simp,
      rule enriching.settles_for_each, rule enrich_entity_match_settles)

section \<open>Properties\<close>

text \<open>
  Enrichment is idempotent: whatever a pass over a message leaves in the store, a second pass
  over the same message, then or on any later store, creates no IOC, no typed entity, no edge and
  no evidence, fails exactly if the first one failed, and reports nothing created.
\<close>

lemma enrich_idempotent:
  assumes "store_ok d" and "enrich_message sha dumps mid text pv d = (r, d1)"
    and "store_ok e" and "later d1 e"
  shows "store_ok d1 \<and> later d d1 \<and>
    (\<exists>r2 e'. enrich_message sha dumps mid text pv e = (r2, e') \<and> store_ok e' \<and> rows_of e' = rows_of e \<and>
       rel_sum (\<lambda>_ _. True) (\<lambda>_ s. es_iocs_created s = 0 \<and> es_relationships s = 0) r r2)"
  using settlesD1 [OF enrich_message_settles, of d] settlesD2 [OF enrich_message_settles, of d] assms
  by (auto 4 3)

definition sample_provenance :: provenance where
  "sample_provenance = \<lparr>pv_source = ''telegram_public'', pv_source_type = ''telegram'', pv_reference = None, pv_observed_at = None\<rparr>"

lemma enrich_idempotent_witness:
  "let d1 = snd (enrich_message id (\<lambda>_. []) 7 ''@alice'' sample_provenance empty_db)
   in length (iocs d1) = 1 \<and> length (relationships d1) = 2 \<and> length (evidences d1) = 1 \<and> length (usernames d1) = 1 \<and>
      rows_of (snd (enrich_message id (\<lambda>_. []) 7 ''@alice'' sample_provenance d1)) = rows_of d1"
proof -
  let ?run = "enrich_message id (\<lambda>_. []) 7 ''@alice'' sample_provenance"
  define d1 where "d1 = snd (?run empty_db)"
  have run: "?run empty_db = (fst (?run empty_db), d1)" by (simp add: d1_def)
  have ok: "store_ok d1" using settlesD1 [OF enrich_message_settles _ run] store_ok_empty by simp
  have "rows_of (snd (?run d1)) = rows_of d1"
    using enrich_idempotent [OF store_ok_empty run ok later_refl] by auto
  moreover have "length (iocs (snd (?run empty_db))) = 1 \<and> length (relationships (snd (?run empty_db))) = 2 \<and>
      length (evidences (snd (?run empty_db))) = 1 \<and> length (usernames (snd (?run empty_db))) = 1"
    unfolding enrich_message_def enrich_def alice_extracted by code_simp
  ultimately show ?thesis by (simp add: d1_def)
qed

text \<open>The summary still counts evidence in the second pass, although none was recorded.\<close>

lemma evidence_over_counted:
  "(let d1 = snd (enrich_message id (\<lambda>_. []) 7 ''@alice'' sample_provenance empty_db)
    in map_sum id es_evidence (fst (enrich_message id (\<lambda>_. []) 7 ''@alice'' sample_provenance d1))) = Inr 1"
  unfolding enrich_message_def enrich_def alice_extracted by code_simp

text \<open>
  A host without a dot is a domain to the extractor and a user name to the IOC repository, which
  drops the characters that user names lack: the row is stored under another name.
\<close>

lemma single_label_host_renamed:
  "derive_domain ''a-b'' 0 3 ''url'' = Inr [ioc_match_of IOC_DOMAIN ''a-b'' ''a-b'' 0 3 (Some ''url'')] \<and>
   normalize_ioc IOC_DOMAIN ''a-b'' = Inr ''ab''"
  by code_simp

end
