(* ===== verification/Links.thy ===== *)
theory Links
  imports Rerun
begin

text \<open>
  Referential integrity of the graph. Edges, evidence, messages and indicators name the entities
  they are about by type and id, without a foreign key; \<open>linked\<close> says that every such reference
  names an existing row. Here is a calculus for operations that keep this, and the proof that the
  repositories do.
\<close>

section \<open>Existing rows\<close>

fun exists_row :: "db \<Rightarrow> entity_type \<times> uid \<Rightarrow> bool" where
  "exists_row d (E_TARGET, i) \<longleftrightarrow> i \<in> tg_id ` set (targets d)"
| "exists_row d (E_TELEGRAM_ACCOUNT, i) \<longleftrightarrow> i \<in> ta_id ` set (telegram_accounts d)"
| "exists_row d (E_TELEGRAM_GROUP, i) \<longleftrightarrow> i \<in> tc_id ` set (telegram_groups d)"
| "exists_row d (E_TELEGRAM_CHANNEL, i) \<longleftrightarrow> i \<in> tc_id ` set (telegram_channels d)"
| "exists_row d (E_MESSAGE, i) \<longleftrightarrow> i \<in> ms_id ` set (messages d)"
| "exists_row d (E_USERNAME, i) \<longleftrightarrow> i \<in> un_id ` set (usernames d)"
| "exists_row d (E_EXTERNAL_ACCOUNT, i) \<longleftrightarrow> i \<in> ea_id ` set (external_accounts d)"
| "exists_row d (E_DOMAIN, i) \<longleftrightarrow> i \<in> dm_id ` set (domains d)"
| "exists_row d (E_URL, i) \<longleftrightarrow> i \<in> ur_id ` set (urls d)"
| "exists_row d (E_IP, i) \<longleftrightarrow> i \<in> ip_id ` set (ips d)"
| "exists_row d (E_IOC, i) \<longleftrightarrow> i \<in> ioc_id ` set (iocs d)"
| "exists_row d (E_REPORT, i) \<longleftrightarrow> i \<in> rp_id ` set (reports d)"

lemma exists_row_rows:
  "exists_row d e \<longleftrightarrow> (case fst e of
     E_TARGET \<Rightarrow> snd e \<in> set (rw_targets (rows_of d)) | E_REPORT \<Rightarrow> snd e \<in> set (rw_reports (rows_of d))
   | E_TELEGRAM_ACCOUNT \<Rightarrow> snd e \<in> set (rw_accounts (rows_of d)) | E_TELEGRAM_GROUP \<Rightarrow> snd e \<in> set (rw_groups (rows_of d))
   | E_TELEGRAM_CHANNEL \<Rightarrow> snd e \<in> set (rw_channels (rows_of d)) | E_MESSAGE \<Rightarrow> snd e \<in> fst ` set (rw_messages (rows_of d))
   | E_USERNAME \<Rightarrow> snd e \<in> fst ` set (rw_usernames (rows_of d)) | E_EXTERNAL_ACCOUNT \<Rightarrow> snd e \<in> fst ` set (rw_externals (rows_of d))
   | E_DOMAIN \<Rightarrow> snd e \<in> fst ` set (rw_domains (rows_of d)) | E_URL \<Rightarrow> snd e \<in> fst ` set (rw_urls (rows_of d))
   | E_IP \<Rightarrow> snd e \<in> fst ` set (rw_ips (rows_of d)) | E_IOC \<Rightarrow> snd e \<in> fst ` set (rw_iocs (rows_of d)))"
  by (cases e; cases "fst e") (auto simp: rows_of_def image_image)

lemma exists_row_later: "exists_row d e \<Longrightarrow> later d d' \<Longrightarrow> exists_row d' e"
  unfolding exists_row_rows later_def
  by (elim conjE, cases "fst e"; simp only: entity_type.case; blast)

definition linked :: "db \<Rightarrow> bool" where
  "linked d \<longleftrightarrow>
     (\<forall>r \<in> set (relationships d). exists_row d (rel_source_type r, rel_source_id r) \<and> exists_row d (rel_target_type r, rel_target_id r)) \<and>
     (\<forall>v \<in> set (evidences d). exists_row d (ev_entity_type v, ev_entity_id v)) \<and>
     (\<forall>m \<in> set (messages d). exists_row d (ms_source_type m, ms_source_id m)) \<and>
     (\<forall>i \<in> set (iocs d). \<forall>e. ioc_linked i = Some e \<longrightarrow> exists_row d e)"

definition graph_inv :: "db \<Rightarrow> bool" where
  "graph_inv d \<longleftrightarrow> store_ok d \<and> linked d"

lemma graph_inv_empty: "graph_inv empty_db"
  unfolding graph_inv_def by (rule conjI, rule store_ok_empty) (simp add: linked_def empty_db_def)

text \<open>
  The rows that may be added or rewritten: new references must name rows that exist afterwards.
\<close>

lemma linkedI:
  assumes "linked d" and "later d d'"
    and "\<And>r. r \<in> set (relationships d') \<Longrightarrow> (\<exists>r0 \<in> set (relationships d). rel_key r0 = rel_key r) \<or>
      exists_row d' (rel_source_type r, rel_source_id r) \<and> exists_row d' (rel_target_type r, rel_target_id r)"
    and "\<And>v. v \<in> set (evidences d') \<Longrightarrow> v \<in> set (evidences d) \<or> exists_row d' (ev_entity_type v, ev_entity_id v)"
    and "\<And>m. m \<in> set (messages d') \<Longrightarrow> (\<exists>m0 \<in> set (messages d). ms_source_type m0 = ms_source_type m \<and> ms_source_id m0 = ms_source_id m) \<or>
      exists_row d' (ms_source_type m, ms_source_id m)"
    and "\<And>i e. i \<in> set (iocs d') \<Longrightarrow> ioc_linked i = Some e \<Longrightarrow> (\<exists>i0 \<in> set (iocs d). ioc_linked i0 = Some e) \<or> exists_row d' e"
  shows "linked d'"
  unfolding linked_def
proof (intro conjI ballI allI impI)
  fix r assume "r \<in> set (relationships d')"
  from assms(3) [OF this] have "exists_row d' (rel_source_type r, rel_source_id r) \<and> exists_row d' (rel_target_type r, rel_target_id r)"
  proof
    assume "\<exists>r0 \<in> set (relationships d). rel_key r0 = rel_key r"
    then obtain r0 where r0: "r0 \<in> set (relationships d)" "rel_key r0 = rel_key r" ..
    with assms(1) have "exists_row d (rel_source_type r0, rel_source_id r0)" "exists_row d (rel_target_type r0, rel_target_id r0)"
      by (simp_all add: linked_def)
    with exists_row_later [OF _ assms(2)] r0(2) show ?thesis by (simp add: rel_key_def)
  qed
  then show "exists_row d' (rel_source_type r, rel_source_id r)" "exists_row d' (rel_target_type r, rel_target_id r)" by simp_all
next
  fix v assume "v \<in> set (evidences d')"
  with assms(4) [OF this] assms(1) exists_row_later [OF _ assms(2)] show "exists_row d' (ev_entity_type v, ev_entity_id v)"
    unfolding linked_def by blast
next
  fix m assume "m \<in> set (messages d')"
  from assms(5) [OF this] show "exists_row d' (ms_source_type m, ms_source_id m)"
  proof
    assume "\<exists>m0 \<in> set (messages d). ms_source_type m0 = ms_source_type m \<and> ms_source_id m0 = ms_source_id m"
    then obtain m0 where m0: "m0 \<in> set (messages d)" "ms_source_type m0 = ms_source_type m" "ms_source_id m0 = ms_source_id m" by blast
    from m0(1) assms(1) have "exists_row d (ms_source_type m0, ms_source_id m0)" unfolding linked_def by blast
    with exists_row_later [OF _ assms(2)] m0(2,3) show ?thesis by simp
  qed
next
  fix i e assume "i \<in> set (iocs d')" "ioc_linked i = Some e"
  with assms(6) [OF this] assms(1) exists_row_later [OF _ assms(2)] show "exists_row d' e"
    unfolding linked_def by blast
qed

section \<open>A calculus\<close>

text \<open>
  \<open>sound g P m R\<close>: from a store with the invariant and \<open>P\<close>, \<open>m\<close> keeps the invariant, only adds
  rows, and if it returns, its result satisfies \<open>R\<close> in the store it leaves. \<open>P\<close> and \<open>R\<close> are
  about rows that exist, so they last (\<open>lasting\<close>).
\<close>

definition lasting :: "(db \<Rightarrow> bool) \<Rightarrow> bool" where
  "lasting P \<longleftrightarrow> (\<forall>d e. P d \<longrightarrow> later d e \<longrightarrow> P e)"

lemma lasting_const [simp]: "lasting (\<lambda>_. c)"
  by (simp add: lasting_def)

lemma lasting_exists [simp]: "lasting (\<lambda>d. exists_row d e)"
  by (auto simp: lasting_def intro: exists_row_later)

lemma lasting_conj [simp]: "lasting P \<Longrightarrow> lasting Q \<Longrightarrow> lasting (\<lambda>d. P d \<and> Q d)"
  by (auto simp: lasting_def)

definition sound :: "('s \<Rightarrow> db) \<Rightarrow> (db \<Rightarrow> bool) \<Rightarrow> ('s, 'a) action \<Rightarrow> ('a \<Rightarrow> db \<Rightarrow> bool) \<Rightarrow> bool" where
  "sound g P m R \<longleftrightarrow> (\<forall>s r s'. graph_inv (g s) \<longrightarrow> P (g s) \<longrightarrow> m s = (r, s') \<longrightarrow>
     graph_inv (g s') \<and> later (g s) (g s') \<and> (\<forall>x. r = Inr x \<longrightarrow> R x (g s')))"

lemma soundI:
  assumes "\<And>s r s'. graph_inv (g s) \<Longrightarrow> P (g s) \<Longrightarrow> m s = (r, s') \<Longrightarrow>
    graph_inv (g s') \<and> later (g s) (g s') \<and> (\<forall>x. r = Inr x \<longrightarrow> R x (g s'))"
  shows "sound g P m R"
  using assms unfolding sound_def by blast

lemma soundD:
  "sound g P m R \<Longrightarrow> graph_inv (g s) \<Longrightarrow> P (g s) \<Longrightarrow> m s = (r, s') \<Longrightarrow>
   graph_inv (g s') \<and> later (g s) (g s') \<and> (\<forall>x. r = Inr x \<longrightarrow> R x (g s'))"
  unfolding sound_def by blast

lemma sound_weaken:
  "sound g P m R \<Longrightarrow> (\<And>d. P' d \<Longrightarrow> P d) \<Longrightarrow> (\<And>x d. R x d \<Longrightarrow> R' x d) \<Longrightarrow> sound g P' m R'"
  unfolding sound_def by blast

lemma sound_pure:
  "(\<And>s. snd (m s) = s) \<Longrightarrow> (\<And>s x. P (g s) \<Longrightarrow> fst (m s) = Inr x \<Longrightarrow> R x (g s)) \<Longrightarrow> sound g P m R"
  by (rule soundI) (metis fst_conv later_refl snd_conv)

lemma sound_ret: "(\<And>d. P d \<Longrightarrow> R x d) \<Longrightarrow> sound g P (ret x) R"
  by (rule sound_pure) auto

lemma sound_throw: "sound g P (throw e) R"
  by (rule sound_pure) auto

lemma sound_error: "sound g P (\<lambda>d. (Inl e, d)) R"
  by (rule sound_pure) auto

lemma sound_liftE: "sound g P (liftE x) (\<lambda>y d. P d \<and> x = Inr y)"
  by (rule sound_pure) (auto simp: liftE_def)

lemma sound_bnd:
  assumes P: "lasting P" and m: "sound g P m R" and f: "\<And>x. sound g (\<lambda>d. P d \<and> R x d) (f x) S"
  shows "sound g P (bnd m f) S"
proof (rule soundI)
  fix s r s' assume pre: "graph_inv (g s)" "P (g s)" and run: "bnd m f s = (r, s')"
  obtain r1 s1 where s1: "m s = (r1, s1)" by (cases "m s")
  note d1 = soundD [OF m pre s1]
  show "graph_inv (g s') \<and> later (g s) (g s') \<and> (\<forall>x. r = Inr x \<longrightarrow> S x (g s'))"
  proof (cases r1)
    case (Inl e) with run s1 d1 show ?thesis by auto
  next
    case (Inr x)
    with run s1 have "f x s1 = (r, s')" by simp
    moreover have "P (g s1) \<and> R x (g s1)" using d1 Inr P pre(2) unfolding lasting_def by blast
    ultimately show ?thesis using soundD [OF f, of s1 x r s'] d1 by (blast intro: later_trans)
  qed
qed

lemma sound_catch:
  assumes P: "lasting P" and m: "sound g P m R" and h: "\<And>e. sound g P (h e) R"
  shows "sound g P (catch m h) R"
proof (rule soundI)
  fix s r s' assume pre: "graph_inv (g s)" "P (g s)" and run: "catch m h s = (r, s')"
  obtain r1 s1 where s1: "m s = (r1, s1)" by (cases "m s")
  note d1 = soundD [OF m pre s1]
  show "graph_inv (g s') \<and> later (g s) (g s') \<and> (\<forall>x. r = Inr x \<longrightarrow> R x (g s'))"
  proof (cases r1)
    case (Inl e)
    with run s1 have "h e s1 = (r, s')" by (simp add: catch_def)
    moreover have "P (g s1)" using d1 P pre(2) unfolding lasting_def by blast
    ultimately show ?thesis using soundD [OF h, of s1 e r s'] d1 by (blast intro: later_trans)
  next
    case (Inr x) with run s1 d1 show ?thesis by (auto simp: catch_def)
  qed
qed

lemma sound_for_each:
  "lasting P \<Longrightarrow> (\<And>x. x \<in> set xs \<Longrightarrow> sound g P (f x) (\<lambda>_ _. True)) \<Longrightarrow> sound g P (for_each f xs) (\<lambda>_ _. True)"
proof (induction xs)
  case (Cons x xs)
  then have "sound g P (for_each f xs) (\<lambda>_ _. True)" "sound g P (f x) (\<lambda>_ _. True)" by auto
  with Cons.prems(1) show ?case by (auto intro: sound_bnd)
qed (simp add: sound_ret)

lemma sound_on_fst: "sound id P m R \<Longrightarrow> sound fst P (on_fst m) R"
proof (rule soundI)
  fix s r s' assume m: "sound id P m R" and "graph_inv (fst s)" "P (fst s)" and run: "on_fst m s = (r, s')"
  moreover from run have "m (fst s) = (r, fst s')" by (auto simp: on_fst_def split: prod.splits)
  ultimately show "graph_inv (fst s') \<and> later (fst s) (fst s') \<and> (\<forall>x. r = Inr x \<longrightarrow> R x (fst s'))"
    using soundD [OF m, of "fst s" r "fst s'"] by simp
qed

lemma sound_tally: "(\<And>d. P d \<Longrightarrow> R () d) \<Longrightarrow> sound fst P (tally f) R"
  by (rule soundI) (auto simp: tally_def)

section \<open>Inserting rows\<close>

text \<open>
  A table of the graph: \<open>fresh d r\<close> says that the references of a new row \<open>r\<close> exist in \<open>d\<close>.
\<close>

locale linked_table = store_table tbl upd uq key rid
  for tbl :: "db \<Rightarrow> 'r list" and upd :: "('r list \<Rightarrow> 'r list) \<Rightarrow> db \<Rightarrow> db"
    and uq :: "'r list \<Rightarrow> bool" and key :: "'r \<Rightarrow> 'k" and rid :: "'r \<Rightarrow> uid" +
  fixes fresh :: "db \<Rightarrow> 'r \<Rightarrow> bool"
  assumes insert_linked: "linked d \<Longrightarrow> fresh d r \<Longrightarrow> linked (upd (\<lambda>t. t @ [r]) (d\<lparr>next_id := n\<rparr>))"
begin

lemma sound_get_or_create:
  assumes p: "\<And>x. p x \<longleftrightarrow> key x = k" and mk: "\<And>d i. key (mk d i) = k \<and> rid (mk d i) = i"
    and fresh: "\<And>d i. P d \<Longrightarrow> fresh d (mk d i)"
  shows "sound id P (get_or_create tbl upd uq p mk) (\<lambda>x d. fst x \<in> set (tbl d) \<and> key (fst x) = k)"
proof (rule soundI)
  fix d r d' assume pre: "graph_inv (id d)" "P (id d)" and run: "get_or_create tbl upd uq p mk d = (r, d')"
  from get_or_create_store [of d p k mk] p mk pre(1) run obtain x c where
    r: "r = Inr (x, c)" "x \<in> set (tbl d')" "key x = k" "store_ok d'" "later d d'" by (auto simp: graph_inv_def)
  have "linked d'"
  proof (cases c)
    case True
    with run r(1) have new: "get_or_create tbl upd uq p mk d = (Inr (x, True), d')" by simp
    then have "d' = upd (\<lambda>t. t @ [x]) (d\<lparr>next_id := Suc (next_id d)\<rparr>)" "x = mk d (next_id d)"
      by (auto simp: get_or_create_def get_or_create_race_def Let_def split: sum.splits option.splits if_splits)
    with insert_linked [of d x "Suc (next_id d)"] fresh pre show ?thesis by (simp add: graph_inv_def)
  next
    case False
    with run r(1) pre(1) get_or_create_found [of p mk d x d'] show ?thesis by (simp add: graph_inv_def)
  qed
  with r show "graph_inv (id d') \<and> later (id d) (id d') \<and> (\<forall>x. r = Inr x \<longrightarrow> fst x \<in> set (tbl (id d')) \<and> key (fst x) = k)"
    by (simp add: graph_inv_def)
qed

end

text \<open>Inserting a row that refers to nothing.\<close>

lemma insert_plain:
  assumes "linked d" and "later d d'" and "relationships d' = relationships d" and "evidences d' = evidences d"
    and "messages d' = messages d" and "\<And>i e. i \<in> set (iocs d') \<Longrightarrow> ioc_linked i = Some e \<Longrightarrow> i \<in> set (iocs d)"
  shows "linked d'"
  using assms by (intro linkedI [OF assms(1,2)]) auto

interpretation username_link: linked_table usernames usernames_update uq_username "\<lambda>r. (un_platform r, un_norm r)" un_id "\<lambda>_ _. True"
  by unfold_locales (erule insert_plain [OF _ username_store.insert_later]; simp)

interpretation external_link: linked_table external_accounts external_accounts_update uq_external_account
  "\<lambda>r. (ea_platform r, ea_norm r)" ea_id "\<lambda>_ _. True"
  by unfold_locales (erule insert_plain [OF _ external_store.insert_later]; simp)

interpretation domain_link: linked_table domains domains_update uq_domain dm_norm dm_id "\<lambda>_ _. True"
  by unfold_locales (erule insert_plain [OF _ domain_store.insert_later]; simp)

interpretation url_link: linked_table urls urls_update uq_url ur_hash ur_id "\<lambda>_ _. True"
  by unfold_locales (erule insert_plain [OF _ url_store.insert_later]; simp)

interpretation ip_link: linked_table ips ips_update uq_ip ip_address ip_id "\<lambda>_ _. True"
  by unfold_locales (erule insert_plain [OF _ ip_store.insert_later]; simp)

interpretation ioc_link: linked_table iocs iocs_update uq_ioc "\<lambda>r. (ioc_ty r, ioc_norm r)" ioc_id "\<lambda>_ r. ioc_linked r = None"
  by unfold_locales (erule insert_plain [OF _ ioc_store.insert_later]; auto)

interpretation message_link: linked_table messages messages_update uq_message
  "\<lambda>r. (ms_source_type r, ms_source_id r, ms_message_id r)" ms_id "\<lambda>d r. exists_row d (ms_source_type r, ms_source_id r)"
proof unfold_locales
  fix d :: db and r :: message and n assume l: "linked d" and e: "exists_row d (ms_source_type r, ms_source_id r)"
  note later = message_store.insert_later [of d r n]
  from exists_row_later [OF e later] show "linked (messages_update (\<lambda>t. t @ [r]) (d\<lparr>next_id := n\<rparr>))"
    by (intro linkedI [OF l later]) auto
qed

interpretation relationship_link: linked_table relationships relationships_update uq_relationship rel_key rel_id
  "\<lambda>d r. exists_row d (rel_source_type r, rel_source_id r) \<and> exists_row d (rel_target_type r, rel_target_id r)"
proof unfold_locales
  fix d :: db and r :: relationship and n assume l: "linked d"
    and e: "exists_row d (rel_source_type r, rel_source_id r) \<and> exists_row d (rel_target_type r, rel_target_id r)"
  note later = relationship_store.insert_later [of d r n]
  from exists_row_later [OF _ later] e show "linked (relationships_update (\<lambda>t. t @ [r]) (d\<lparr>next_id := n\<rparr>))"
    by (intro linkedI [OF l later]) auto
qed

section \<open>The repositories\<close>

lemma username_sound: "sound id P (username_get_or_create platform v) (\<lambda>x d. exists_row d (E_USERNAME, un_id (fst x)))"
  unfolding username_get_or_create_def [abs_def]
  by (cases "normalize_username v")
     (auto intro!: sound_error sound_weaken [OF username_link.sound_get_or_create [where P = "\<lambda>_. True"]])

lemma external_sound: "sound id P (external_get_or_create platform v) (\<lambda>x d. exists_row d (E_EXTERNAL_ACCOUNT, ea_id (fst x)))"
  unfolding external_get_or_create_def [abs_def]
  by (cases "normalize_username v")
     (auto intro!: sound_error sound_weaken [OF external_link.sound_get_or_create [where P = "\<lambda>_. True"]])

lemma domain_sound: "sound id P (domain_get_or_create v) (\<lambda>x d. exists_row d (E_DOMAIN, dm_id (fst x)))"
  unfolding domain_get_or_create_def [abs_def]
  by (cases "normalize_domain v")
     (auto intro!: sound_error sound_weaken [OF domain_link.sound_get_or_create [where P = "\<lambda>_. True"]])

lemma url_sound: "sound id P (url_get_or_create sha v) (\<lambda>x d. exists_row d (E_URL, ur_id (fst x)))"
  unfolding url_get_or_create_def [abs_def]
  by (cases "normalize_url v"; cases "urlsplit (projr (normalize_url v))")
     (auto intro!: sound_error sound_weaken [OF url_link.sound_get_or_create [where P = "\<lambda>_. True"]])

lemma ip_sound: "sound id P (ip_get_or_create v) (\<lambda>x d. exists_row d (E_IP, ip_id (fst x)))"
  unfolding ip_get_or_create_def [abs_def]
  by (cases "normalize_ip v"; cases "ip_address_of (projr (normalize_ip v))")
     (auto intro!: sound_error sound_weaken [OF ip_link.sound_get_or_create [where P = "\<lambda>_. True"]])

text \<open>Rewriting an IOC, an edge or a message in place.\<close>

lemma put_ioc_inv:
  assumes "graph_inv d" and "r \<in> set (iocs d)" and "ioc_id r' = ioc_id r" "ioc_ty r' = ioc_ty r" "ioc_norm r' = ioc_norm r"
    and "\<And>e. ioc_linked r' = Some e \<Longrightarrow> ioc_linked r = Some e \<or> exists_row d e"
  shows "graph_inv (put_ioc r' d) \<and> later d (put_ioc r' d)"
proof -
  have ok: "store_ok d" "linked d" using assms(1) by (simp_all add: graph_inv_def)
  note same = put_ioc_same [OF ok(1) assms(2-5)]
  then have later: "later d (put_ioc r' d)" by (intro later_same) simp
  have "linked (put_ioc r' d)"
  proof (rule linkedI [OF ok(2) later])
    fix i e assume "i \<in> set (iocs (put_ioc r' d))" and e: "ioc_linked i = Some e"
    then have "i \<in> set (iocs d) \<or> i = r'" by (auto simp: put_ioc_def set_update_where split: if_splits)
    with e assms(2,6) exists_row_later [OF _ later]
    show "(\<exists>i0 \<in> set (iocs d). ioc_linked i0 = Some e) \<or> exists_row (put_ioc r' d) e" by blast
  qed (auto simp: put_ioc_def)
  with same later show ?thesis by (simp add: graph_inv_def)
qed

lemma ioc_sound: "sound id P (ioc_get_or_create t v) (\<lambda>x d. exists_row d (E_IOC, ioc_id (fst x)))"
proof (cases "normalize_ioc t v")
  case (Inl e)
  then show ?thesis unfolding ioc_get_or_create_def [abs_def] by (simp add: sound_error)
next
  case (Inr n)
  let ?mk = "\<lambda>d i. \<lparr>ioc_id = i, ioc_ty = t, ioc_val = strip v, ioc_norm = n, ioc_linked = None, ioc_times_observed = 1,
        ioc_created_at = now d\<rparr>"
  let ?get = "get_or_create iocs iocs_update uq_ioc (\<lambda>r. ioc_ty r = t \<and> ioc_norm r = n) ?mk"
  have get: "sound id (\<lambda>_. True) ?get (\<lambda>x d. fst x \<in> set (iocs d) \<and> (ioc_ty (fst x), ioc_norm (fst x)) = (t, n))"
    by (rule ioc_link.sound_get_or_create) simp_all
  show ?thesis
  proof (rule soundI)
    fix d r d' assume pre: "graph_inv (id d)" and run: "ioc_get_or_create t v d = (r, d')"
    obtain r1 d1 where g: "?get d = (r1, d1)" by (cases "?get d")
    note s = soundD [OF get pre _ g, simplified]
    show "graph_inv (id d') \<and> later (id d) (id d') \<and> (\<forall>x. r = Inr x \<longrightarrow> exists_row (id d') (E_IOC, ioc_id (fst x)))"
    proof (cases r1)
      case (Inl e) with run g s Inr show ?thesis by (auto simp: ioc_get_or_create_def)
    next
      case r1: (Inr y)
      obtain x c where y: "y = (x, c)" by (cases y)
      with s r1 have x: "graph_inv d1" "later d d1" "x \<in> set (iocs d1)" by auto
      let ?x = "x\<lparr>ioc_times_observed := Suc (ioc_times_observed x)\<rparr>"
      show ?thesis
      proof (cases c)
        case True with run g r1 y x Inr show ?thesis by (auto simp: ioc_get_or_create_def)
      next
        case False
        with run g r1 y Inr have "r = Inr (?x, False)" "d' = put_ioc ?x d1" by (simp_all add: ioc_get_or_create_def Let_def)
        moreover have "graph_inv (put_ioc ?x d1) \<and> later d1 (put_ioc ?x d1)" by (rule put_ioc_inv [OF x(1,3)]) simp_all
        moreover have "exists_row d1 (E_IOC, ioc_id x)" using x(3) by simp
        ultimately show ?thesis using x(2) exists_row_later [of d1 "(E_IOC, ioc_id x)" "put_ioc ?x d1"] later_trans [of d d1 "put_ioc ?x d1"]
          by simp
      qed
    qed
  qed
qed

lemma observe_sound:
  "sound id (\<lambda>d. P d \<and> exists_row d src \<and> exists_row d tgt) (observe src tgt rt c evid md) (\<lambda>_ _. True)"
proof (rule soundI)
  fix d r d' assume pre: "graph_inv (id d)" "P (id d) \<and> exists_row (id d) src \<and> exists_row (id d) tgt"
    and run: "observe src tgt rt c evid md d = (r, d')"
  have ok: "store_ok d" "linked d" "edges_ok d" using pre(1) by (simp_all add: graph_inv_def store_ok_def edges_ok_def)
  have s: "store_ok d' \<and> later d d'"
    using settlesD1 [OF observe_settles [where Q = "\<lambda>_ _. True"], of d src tgt rt c evid md r d'] ok(1) run by simp
  have edges: "(\<exists>r0 \<in> set (relationships d). rel_key r0 = rel_key x) \<or>
      exists_row d (rel_source_type x, rel_source_id x) \<and> exists_row d (rel_target_type x, rel_target_id x)"
    if x: "x \<in> set (relationships d')" for x
  proof (cases "filter (edge_between src tgt rt) (relationships d)")
    case Nil
    from observe_first [OF ok(3) Nil, of c evid md] obtain y where y: "edge_between src tgt rt y"
      "observe src tgt rt c evid md d = (Inr (y, True), d\<lparr>relationships := relationships d @ [y], next_id := Suc (next_id d)\<rparr>)" by blast
    with run x have "x \<in> set (relationships d) \<or> x = y" by auto
    with y(1) pre(2) show ?thesis by auto
  next
    case (Cons y ys)
    with filter_edge_cases [of "relationships d" src tgt rt] ok(1)
    have one: "filter (edge_between src tgt rt) (relationships d) = [y]" by (auto simp: store_ok_def)
    have y: "y \<in> set (relationships d)" using filter_single [OF one] by (rule conjunct1)
    have "relationships d' = map (\<lambda>x. if x = y then bump_edge (now d) (clamp 0 100 c) evid y else x) (relationships d)"
      using run observe_again [OF ok(3) one, of c evid md] put_edge_edges [OF ok(3) y, of "bump_edge (now d) (clamp 0 100 c) evid y"] by simp
    with x y show ?thesis by (auto split: if_splits)
  qed
  have "linked d'"
  proof (rule linkedI [OF ok(2) conjunct2 [OF s]])
    fix x assume "x \<in> set (relationships d')"
    from edges [OF this] exists_row_later [OF _ conjunct2 [OF s]]
    show "(\<exists>r0 \<in> set (relationships d). rel_key r0 = rel_key x) \<or>
      exists_row d' (rel_source_type x, rel_source_id x) \<and> exists_row d' (rel_target_type x, rel_target_id x)" by blast
  qed (use run in \<open>auto simp: observe_def get_or_create_def get_or_create_race_def put_edge_def Let_def
         split: sum.splits option.splits if_splits\<close>)
  with s show "graph_inv (id d') \<and> later (id d) (id d') \<and> (\<forall>x. r = Inr x \<longrightarrow> True)" by (simp add: graph_inv_def)
qed

lemma record_evidence_sound:
  "sound id (\<lambda>d. P d \<and> exists_row d (et, i)) (record_evidence sha dumps et i e) (\<lambda>_ _. True)"
proof (rule soundI)
  fix d r d' assume pre: "graph_inv (id d)" "P (id d) \<and> exists_row (id d) (et, i)"
    and run: "record_evidence sha dumps et i e d = (r, d')"
  let ?row = "evidence_row sha dumps et i e d (next_id d)"
  have ok: "store_ok d" "linked d" using pre(1) by (simp_all add: graph_inv_def)
  from record_evidence_cases [OF run] show "graph_inv (id d') \<and> later (id d) (id d') \<and> (\<forall>x. r = Inr x \<longrightarrow> True)"
  proof (elim disjE conjE)
    assume "d' = d" with pre(1) show ?thesis by simp
  next
    assume uq: "uq_evidence (evidences d')" and d': "d' = d\<lparr>evidences := evidences d @ [?row], next_id := Suc (next_id d)\<rparr>"
    have later: "later d d'" unfolding d' by (auto simp: later_def rows_of_def)
    have "store_ok d'" using ok(1) uq unfolding d' by (auto simp: store_defs evidence_row_def less_Suc_eq)
    moreover have "linked d'"
    proof (rule linkedI [OF ok(2) later])
      fix v assume "v \<in> set (evidences d')"
      then have "v \<in> set (evidences d) \<or> v = ?row" unfolding d' by auto
      with pre(2) exists_row_later [OF _ later] show "v \<in> set (evidences d) \<or> exists_row d' (ev_entity_type v, ev_entity_id v)"
        by (auto simp: evidence_row_def)
    qed (auto simp: d')
    ultimately show ?thesis using later by (simp add: graph_inv_def)
  qed
qed

text \<open>Messages.\<close>

lemma set_field_key [simp]:
  "ms_id (set_field f m) = ms_id m" "ms_source_type (set_field f m) = ms_source_type m"
  "ms_source_id (set_field f m) = ms_source_id m" "ms_message_id (set_field f m) = ms_message_id m"
  by (cases f; simp)+

lemma fold_set_field_key [simp]:
  "ms_id (fold set_field fs m) = ms_id m" "ms_source_type (fold set_field fs m) = ms_source_type m"
  "ms_source_id (fold set_field fs m) = ms_source_id m" "ms_message_id (fold set_field fs m) = ms_message_id m"
  by (induction fs arbitrary: m) simp_all

lemma put_message_inv:
  assumes inv: "graph_inv d" and r: "r \<in> set (messages d)" and same: "ms_id r' = ms_id r" "ms_source_type r' = ms_source_type r"
    "ms_source_id r' = ms_source_id r" "ms_message_id r' = ms_message_id r"
  shows "graph_inv (put_message r' d) \<and> later d (put_message r' d)"
proof -
  have ok: "store_ok d" "linked d" using inv by (simp_all add: graph_inv_def)
  have dist: "distinct (map ms_id (messages d))" using ok(1) by (simp add: store_ok_def ids_ok_def)
  have m: "map f (messages (put_message r' d)) = map f (messages d)" if "f r' = f r" for f :: "message \<Rightarrow> 'a"
    using rows_rewrite [OF dist r same(1), of f] that by (simp add: put_message_def)
  have k: "map (\<lambda>r. (ms_source_type r, ms_source_id r, ms_message_id r)) (messages (put_message r' d)) =
      map (\<lambda>r. (ms_source_type r, ms_source_id r, ms_message_id r)) (messages d)"
    "map (\<lambda>r. (ms_id r, ms_source_type r, ms_source_id r, ms_message_id r)) (messages (put_message r' d)) =
      map (\<lambda>r. (ms_id r, ms_source_type r, ms_source_id r, ms_message_id r)) (messages d)"
    "map ms_id (messages (put_message r' d)) = map ms_id (messages d)"
    by (rule m, simp add: same)+
  have "ids_ok ms_id (messages d) (next_id d)" using ok(1) by (simp add: store_ok_def)
  then have "ids_ok ms_id (messages (put_message r' d)) (next_id d)" unfolding ids_ok_map k(3) .
  then have "store_ok (put_message r' d) \<and> rows_of (put_message r' d) = rows_of d"
    using ok(1) k(1,2) by (simp add: store_ok_def uq_message_def rows_of_def put_message_def)
  moreover from this have later: "later d (put_message r' d)" by (intro later_same) simp
  moreover have "linked (put_message r' d)"
  proof (rule linkedI [OF ok(2) later])
    fix x assume "x \<in> set (messages (put_message r' d))"
    then have "x \<in> set (messages d) \<or> x = r'" by (auto simp: put_message_def set_update_where split: if_splits)
    then show "(\<exists>m0 \<in> set (messages d). ms_source_type m0 = ms_source_type x \<and> ms_source_id m0 = ms_source_id x) \<or>
      exists_row (put_message r' d) (ms_source_type x, ms_source_id x)"
      by (elim disjE; intro disjI1 bexI [of _ "if x = r' then r else x"]) (simp_all add: r same)
  qed (auto simp: put_message_def)
  ultimately show ?thesis by (simp add: graph_inv_def)
qed

lemma message_sound:
  "sound id (\<lambda>d. P d \<and> exists_row d (st, sid)) (message_upsert st sid mid cols) (\<lambda>x d. exists_row d (E_MESSAGE, ms_id (fst x)))"
proof (rule soundI)
  fix d r d' assume pre: "graph_inv (id d)" "P (id d) \<and> exists_row (id d) (st, sid)" and run: "message_upsert st sid mid cols d = (r, d')"
  let ?same = "\<lambda>r. ms_source_type r = st \<and> ms_source_id r = sid \<and> ms_message_id r = mid"
  let ?mk = "\<lambda>d i. fold set_field cols \<lparr>ms_id = i, ms_source_type = st, ms_source_id = sid, ms_message_id = mid,
     ms_author_account_id = None, ms_author_username = None, ms_text = None, ms_posted_at = None,
     ms_reply_to = None, ms_forwarded_from = None, ms_views = None, ms_urls = None, ms_usernames = None, ms_source_url = None\<rparr>"
  let ?get = "get_or_create messages messages_update uq_message ?same ?mk"
  let ?goal = "graph_inv (id d') \<and> later (id d) (id d') \<and> (\<forall>x. r = Inr x \<longrightarrow> exists_row (id d') (E_MESSAGE, ms_id (fst x)))"
  have put: ?goal if "graph_inv d1" "later d d1" "m \<in> set (messages d1)" "r = Inr (fold set_field cols m, False)"
    "d' = put_message (fold set_field cols m) d1" for m d1
  proof -
    have p: "graph_inv d'" "later d1 d'" unfolding that(5) using put_message_inv [OF that(1,3), of "fold set_field cols m"] by simp_all
    have "exists_row d1 (E_MESSAGE, ms_id m)" using that(3) by simp
    from exists_row_later [OF this p(2)] p that(2,4) later_trans [of d d1 d'] show ?thesis by simp
  qed
  show ?goal
  proof (cases "scalar_one_or_none ?same (messages d)")
    case (Inl e) with run pre(1) show ?thesis by (auto simp: message_upsert_def)
  next
    case (Inr found)
    show ?thesis
    proof (cases found)
      case (Some m)
      with Inr have "m \<in> set (messages d)" using scalar_one_or_none_Some [of ?same "messages d" m] by auto
      moreover from run Inr Some have "r = Inr (fold set_field cols m, False)" "d' = put_message (fold set_field cols m) d"
        by (auto simp: message_upsert_def Let_def)
      ultimately show ?thesis using pre(1) by (intro put [of d m]) simp_all
    next
      case None
      have get: "sound id (\<lambda>d. exists_row d (st, sid)) ?get (\<lambda>x d. fst x \<in> set (messages d) \<and>
          (ms_source_type (fst x), ms_source_id (fst x), ms_message_id (fst x)) = (st, sid, mid))"
        by (rule message_link.sound_get_or_create) simp_all
      obtain r1 d1 where g: "?get d = (r1, d1)" by (cases "?get d")
      have s: "graph_inv d1" "later d d1" "\<And>x. r1 = Inr x \<Longrightarrow> fst x \<in> set (messages d1)"
        using soundD [OF get, of d r1 d1] pre g by auto
      show ?thesis
      proof (cases "list_all is_column cols")
        case False with run Inr None pre(1) show ?thesis by (auto simp: message_upsert_def)
      next
        case True
        with run Inr None have run': "(case ?get d of (Inl e, d') \<Rightarrow> (Inl e, d')
            | (Inr (m, created), d') \<Rightarrow> if created then (Inr (m, True), d')
                else (let m' = fold set_field cols m in (Inr (m', False), put_message m' d'))) = (r, d')"
          by (simp only: message_upsert_def Let_def sum.case option.case simp_thms if_True if_False)
        show ?thesis
        proof (cases r1)
          case (Inl e) with run' g s show ?thesis by auto
        next
          case (Inr y)
          obtain m created where y: "y = (m, created)" by (cases y)
          with s(3) [OF Inr] have m: "m \<in> set (messages d1)" by simp
          show ?thesis
          proof (cases created)
            case True with run' g y Inr s m show ?thesis by auto
          next
            case False with run' g y Inr show ?thesis by (intro put [OF s(1,2) m]) (simp_all add: Let_def)
          qed
        qed
      qed
    qed
  qed
qed

section \<open>Telegram entities\<close>

text \<open>
  A table of Telegram entities: replacing it by one with the same primary keys and unique
  numeric ids, or adding a row, keeps the invariant.
\<close>

lemma map_filter_cons:
  "List.map_filter f (as @ x # bs) = List.map_filter f as @ (case f x of None \<Rightarrow> [] | Some y \<Rightarrow> [y]) @ List.map_filter f bs"
  by (simp add: List.map_filter_def split: option.split)

lemma map_filter_update:
  assumes "distinct (map rid t)" and "r \<in> set t" and "rid r' = rid r"
    and "distinct (List.map_filter f t)" and "f r' = f r \<or> f r = None \<and> (\<forall>x \<in> set t. f x \<noteq> f r')"
  shows "distinct (List.map_filter f (update_where (\<lambda>x. rid x = rid r) (\<lambda>_. r') t))"
proof -
  obtain as bs where t: "t = as @ r # bs" using split_list [OF assms(2)] by blast
  have "rid r \<notin> rid ` set as" "rid r \<notin> rid ` set bs" using assms(1) unfolding t by auto
  have "map (\<lambda>x. if rid x = rid r then r' else x) zs = zs" if "rid r \<notin> rid ` set zs" for zs
    using that by (induction zs) auto
  then have "map (\<lambda>x. if rid x = rid r then r' else x) as = as" "map (\<lambda>x. if rid x = rid r then r' else x) bs = bs"
    using \<open>rid r \<notin> rid ` set as\<close> \<open>rid r \<notin> rid ` set bs\<close> by blast+
  then have "update_where (\<lambda>x. rid x = rid r) (\<lambda>_. r') t = as @ r' # bs"
    unfolding t update_where_def by simp
  then have new: "List.map_filter f (update_where (\<lambda>x. rid x = rid r) (\<lambda>_. r') t) =
      List.map_filter f as @ (case f r' of None \<Rightarrow> [] | Some y \<Rightarrow> [y]) @ List.map_filter f bs"
    by (simp add: map_filter_cons)
  have old: "List.map_filter f t = List.map_filter f as @ (case f r of None \<Rightarrow> [] | Some y \<Rightarrow> [y]) @ List.map_filter f bs"
    unfolding t by (rule map_filter_cons)
  show ?thesis
  proof (cases "f r' = f r")
    case True with new old assms(4) show ?thesis by simp
  next
    case False
    with assms(5) have "f r = None" "\<And>x. x \<in> set as \<union> set bs \<Longrightarrow> f x \<noteq> f r'" unfolding t by auto
    then have "y \<notin> set (List.map_filter f as)" "y \<notin> set (List.map_filter f bs)" if "f r' = Some y" for y
      using that by (fastforce simp: List.map_filter_def)+
    with \<open>f r = None\<close> assms(4) show ?thesis unfolding new old by (cases "f r'") simp_all
  qed
qed

lemma telegram_linked:
  assumes "graph_inv d" and "store_ok d'" and "later d d'" and "relationships d' = relationships d" and "evidences d' = evidences d"
    and "messages d' = messages d" and "iocs d' = iocs d"
  shows "graph_inv d' \<and> later d d'"
  using assms insert_plain [of d d'] by (simp add: graph_inv_def)

lemma ids_ok_same: "map rid t' = map rid t \<Longrightarrow> ids_ok rid t n \<Longrightarrow> ids_ok rid t' n"
  unfolding ids_ok_map by simp

locale telegram_table = table tbl upd uq
  for tbl :: "db \<Rightarrow> 'r list" and upd :: "('r list \<Rightarrow> 'r list) \<Rightarrow> db \<Rightarrow> db" and uq :: "'r list \<Rightarrow> bool" +
  fixes rid :: "'r \<Rightarrow> uid" and tid_of :: "'r \<Rightarrow> int option" and norm_of :: "'r \<Rightarrow> string option"
    and set_tid :: "int \<Rightarrow> 'r \<Rightarrow> 'r" and set_name :: "string \<Rightarrow> string \<Rightarrow> 'r \<Rightarrow> 'r"
    and mk :: "uid \<Rightarrow> int option \<Rightarrow> string option \<Rightarrow> string option \<Rightarrow> 'r" and et :: entity_type
  assumes uq_tid: "uq t \<longleftrightarrow> distinct (List.map_filter tid_of t)"
    and rid_simps: "rid (set_tid k r) = rid r" "rid (set_name u n r) = rid r" "rid (mk i tid un nn) = i"
    and tid_simps: "tid_of (set_tid k r) = Some k" "tid_of (set_name u n r) = tid_of r"
    and tbl_ok: "store_ok d \<Longrightarrow> uq (tbl d) \<and> ids_ok rid (tbl d) (next_id d)"
    and replace_ok: "store_ok d \<Longrightarrow> ids_ok rid (f (tbl d)) (next_id d) \<Longrightarrow> uq (f (tbl d)) \<Longrightarrow> store_ok (upd f d)"
    and replace_rows: "map rid (f (tbl d)) = map rid (tbl d) \<Longrightarrow> rows_of (upd f d) = rows_of d"
    and insert_ok: "store_ok d \<Longrightarrow> rid r = next_id d \<Longrightarrow> uq (tbl d @ [r]) \<Longrightarrow> store_ok (upd (\<lambda>t. t @ [r]) (d\<lparr>next_id := Suc (next_id d)\<rparr>))"
    and insert_later: "later d (upd (\<lambda>t. t @ [r]) (d\<lparr>next_id := nx\<rparr>))"
    and others: "relationships (upd f d) = relationships d" "evidences (upd f d) = evidences d" "messages (upd f d) = messages d" "iocs (upd f d) = iocs d"
    and exists_tbl: "exists_row d (et, i) \<longleftrightarrow> i \<in> rid ` set (tbl d)"
begin

lemma tbl_inv: "graph_inv d \<Longrightarrow> uq (tbl d) \<and> ids_ok rid (tbl d) (next_id d)"
  using tbl_ok by (simp add: graph_inv_def)

lemma replace_inv:
  assumes "graph_inv d" and "map rid (f (tbl d)) = map rid (tbl d)" and "uq (f (tbl d))"
  shows "graph_inv (upd f d) \<and> later d (upd f d)"
proof (rule telegram_linked [OF assms(1)])
  show "store_ok (upd f d)"
    using assms tbl_inv [OF assms(1)] by (intro replace_ok ids_ok_same [OF assms(2)]) (simp_all add: graph_inv_def)
  show "later d (upd f d)" by (rule later_same, rule replace_rows, rule assms(2))
qed (rule others)+

lemma insert_inv:
  assumes "graph_inv d" and "rid r = next_id d" and "uq (tbl d @ [r])"
  shows "graph_inv (upd (\<lambda>t. t @ [r]) (d\<lparr>next_id := Suc (next_id d)\<rparr>)) \<and> later d (upd (\<lambda>t. t @ [r]) (d\<lparr>next_id := Suc (next_id d)\<rparr>))"
  using assms by (intro telegram_linked [OF assms(1)] insert_ok insert_later) (simp_all add: graph_inv_def others)

lemma rid_backfill: "rid (backfill_telegram tid_of norm_of set_tid set_name tid u nn r) = rid r"
  by (auto simp: backfill_telegram_def Let_def rid_simps split: option.splits)

lemma create_sound:
  "sound id P (get_or_create tbl upd uq p (\<lambda>_ i. mk i a b c)) (\<lambda>x d. exists_row d (et, rid (fst x)))"
proof (rule soundI)
  fix d r d' assume inv: "graph_inv (id d)" and run: "get_or_create tbl upd uq p (\<lambda>_ i. mk i a b c) d = (r, d')"
  show "graph_inv (id d') \<and> later (id d) (id d') \<and> (\<forall>x. r = Inr x \<longrightarrow> exists_row (id d') (et, rid (fst x)))"
  proof (cases r)
    case (Inl e)
    with run get_or_create_Inl have "d' = d" by blast
    with inv Inl show ?thesis by simp
  next
    case (Inr y)
    obtain x created where y: "y = (x, created)" by (cases y)
    show ?thesis
    proof (cases created)
      case False
      with run Inr y get_or_create_found [of p _ d x d'] have "d' = d" "x \<in> set (tbl d)" by auto
      with inv Inr y show ?thesis by (simp add: exists_tbl)
    next
      case True
      with run Inr y have "d' = upd (\<lambda>t. t @ [x]) (d\<lparr>next_id := Suc (next_id d)\<rparr>)" "x = mk (next_id d) a b c" "uq (tbl d @ [x])"
        by (auto simp: get_or_create_def get_or_create_race_def Let_def split: sum.splits option.splits if_splits)
      with insert_inv [of d x] inv Inr y show ?thesis by (auto simp: rid_simps exists_tbl)
    qed
  qed
qed

lemma resolve_sound:
  "sound id P (resolve_telegram_entity tbl upd uq rid tid_of norm_of set_tid set_name mk tid u) (\<lambda>x d. exists_row d (et, rid (fst x)))"
proof (rule soundI)
  fix d r d' assume inv: "graph_inv (id d)"
    and run: "resolve_telegram_entity tbl upd uq rid tid_of norm_of set_tid set_name mk tid u d = (r, d')"
  let ?goal = "graph_inv (id d') \<and> later (id d) (id d') \<and> (\<forall>x. r = Inr x \<longrightarrow> exists_row (id d') (et, rid (fst x)))"
  let ?nn = "case u of None \<Rightarrow> Inr None | Some w \<Rightarrow> if w = [] then Inr None else map_sum id Some (normalize_username w)"
  let ?by_id = "case tid of None \<Rightarrow> Inr None | Some t \<Rightarrow> scalar_one_or_none (\<lambda>r. tid_of r = Some t) (tbl d)"
  have same: ?goal if "r = Inl e" "d' = d" for e using that inv by simp
  have create: ?goal if "get_or_create tbl upd uq p (\<lambda>_ i. mk i a b c) d = (r, d')" for p a b c
    using soundD [OF create_sound [where P = "\<lambda>_. True"] inv _ that] by simp
  show ?goal
  proof (cases ?nn)
    case (Inl e) with run show ?thesis by (intro same) (auto simp: resolve_telegram_entity_def)
  next
    case nn: (Inr nn)
    show ?thesis
    proof (cases ?by_id)
      case (Inl e) with run nn show ?thesis by (intro same) (auto simp: resolve_telegram_entity_def)
    next
      case by_id: (Inr by_id)
      let ?hit = "case (by_id, nn) of (None, Some n) \<Rightarrow> scalar_one_or_none (\<lambda>r. norm_of r = Some n) (tbl d) | _ \<Rightarrow> Inr by_id"
      show ?thesis
      proof (cases ?hit)
        case (Inl e) with run nn by_id show ?thesis by (intro same) (auto simp: resolve_telegram_entity_def)
      next
        case hit: (Inr hit)
        have run': "(case hit of
            Some obj \<Rightarrow> (let obj' = backfill_telegram tid_of norm_of set_tid set_name tid u nn obj
                         in (Inr (obj', False), upd (update_where (\<lambda>r. rid r = rid obj) (\<lambda>_. obj')) d))
          | None \<Rightarrow> (case tid of
               Some t \<Rightarrow> get_or_create tbl upd uq (\<lambda>r. tid_of r = Some t) (\<lambda>_ i. mk i tid u nn) d
             | None \<Rightarrow> (case nn of
                 None \<Rightarrow> (Inl (ValueError ''telegram_id or username is required''), d)
               | Some n \<Rightarrow> get_or_create tbl upd uq (\<lambda>r. norm_of r = Some n) (\<lambda>_ i. mk i None u nn) d))) = (r, d')"
          using run unfolding resolve_telegram_entity_def nn by_id sum.case hit .
        show ?thesis
        proof (cases hit)
          case None
          show ?thesis
          proof (cases tid)
            case (Some t)
            with run' None show ?thesis by (intro create) simp
          next
            case tid: None
            show ?thesis
            proof (cases nn)
              case None with run' \<open>hit = None\<close> tid show ?thesis by (intro same) auto
            next
              case (Some n) with run' \<open>hit = None\<close> tid show ?thesis by (intro create) simp
            qed
          qed
        next
          case (Some obj)
          let ?obj = "backfill_telegram tid_of norm_of set_tid set_name tid u nn obj"
          let ?f = "update_where (\<lambda>r. rid r = rid obj) (\<lambda>_. ?obj)"
          from run' Some have res: "r = Inr (?obj, False)" "d' = upd ?f d" by (auto simp: Let_def)
          have obj: "obj \<in> set (tbl d)"
            using by_id hit Some by (auto dest!: scalar_one_or_none_Some split: option.splits)
          have tids: "tid_of ?obj = tid_of obj \<or> tid_of obj = None \<and> (\<forall>x \<in> set (tbl d). tid_of x \<noteq> tid_of ?obj)"
          proof (cases tid)
            case None then show ?thesis by (auto simp: backfill_telegram_def Let_def tid_simps split: option.splits)
          next
            case tid: (Some t)
            show ?thesis
            proof (cases by_id)
              case None
              with by_id tid have "\<forall>x \<in> set (tbl d). tid_of x \<noteq> Some t" by simp
              then show ?thesis using tid by (auto simp: backfill_telegram_def Let_def tid_simps split: option.splits)
            next
              case (Some y)
              with by_id tid have "tid_of y = Some t" by (auto dest: scalar_one_or_none_Some)
              moreover have "y = obj" using hit \<open>hit = Some obj\<close> Some by (auto split: option.splits)
              ultimately show ?thesis using tid by (auto simp: backfill_telegram_def Let_def tid_simps split: option.splits)
            qed
          qed
          have ids: "distinct (map rid (tbl d))" "uq (tbl d)" using tbl_inv [of d] inv by (simp_all add: ids_ok_def)
          have "map rid (?f (tbl d)) = map rid (tbl d)" by (simp add: update_where_def rid_backfill)
          moreover have "uq (?f (tbl d))"
            by (rule map_filter_update [OF ids(1) obj rid_backfill ids(2) [unfolded uq_tid] tids, folded uq_tid])
          ultimately have keep: "graph_inv (upd ?f d) \<and> later d (upd ?f d)" by (intro replace_inv) (use inv in simp_all)
          have "exists_row d (et, rid obj)" using obj by (simp add: exists_tbl)
          from exists_row_later [OF this] keep res show ?thesis by (simp add: rid_backfill)
        qed
      qed
    qed
  qed
qed

end

lemmas telegram_table_defs = new_account_def new_chat_def store_defs less_Suc_eq

interpretation account_link: telegram_table telegram_accounts telegram_accounts_update uq_telegram_account ta_id
  ta_telegram_id ta_username_norm "\<lambda>t r. r\<lparr>ta_telegram_id := Some t\<rparr>"
  "\<lambda>u n r. r\<lparr>ta_username := Some u, ta_username_norm := Some n\<rparr>" new_account E_TELEGRAM_ACCOUNT
  by (unfold_locales; (rule uq_telegram_account_def)?) (auto simp: telegram_table_defs)

interpretation group_link: telegram_table telegram_groups telegram_groups_update uq_telegram_chat tc_id
  tc_telegram_id tc_username_norm "\<lambda>t r. r\<lparr>tc_telegram_id := Some t\<rparr>"
  "\<lambda>u n r. r\<lparr>tc_username := Some u, tc_username_norm := Some n\<rparr>" new_chat E_TELEGRAM_GROUP
  by (unfold_locales; (rule uq_telegram_chat_def)?) (auto simp: telegram_table_defs)

interpretation channel_link: telegram_table telegram_channels telegram_channels_update uq_telegram_chat tc_id
  tc_telegram_id tc_username_norm "\<lambda>t r. r\<lparr>tc_telegram_id := Some t\<rparr>"
  "\<lambda>u n r. r\<lparr>tc_username := Some u, tc_username_norm := Some n\<rparr>" new_chat E_TELEGRAM_CHANNEL
  by (unfold_locales; (rule uq_telegram_chat_def)?) (auto simp: telegram_table_defs)

lemma telegram_sound:
  "sound id P (account_get_or_create tid u) (\<lambda>x d. exists_row d (E_TELEGRAM_ACCOUNT, ta_id (fst x)))"
  "sound id P (group_get_or_create tid u) (\<lambda>x d. exists_row d (E_TELEGRAM_GROUP, tc_id (fst x)))"
  "sound id P (channel_get_or_create tid u) (\<lambda>x d. exists_row d (E_TELEGRAM_CHANNEL, tc_id (fst x)))"
  unfolding account_get_or_create_def group_get_or_create_def channel_get_or_create_def
  by (rule account_link.resolve_sound group_link.resolve_sound channel_link.resolve_sound)+

end
