(* ===== verification/EnrichLinks.thy ===== *)
theory EnrichLinks
  imports Enrich Links
begin

text \<open>
  Enrichment and the graph's invariant: what the enricher writes refers to existing rows, and it
  returns whenever the indicators of the text can be found and stored.
\<close>

section \<open>Enrichment keeps the graph\<close>

declare exists_row.simps [simp del]

lemma set_link_sound: "sound id (\<lambda>d. P d \<and> exists_row d e) (set_link i e) (\<lambda>x d. pred_option (exists_row d) x)"
proof (rule soundI)
  fix d r d' assume inv: "graph_inv (id d)" and e: "P (id d) \<and> exists_row (id d) e" and run: "set_link i e d = (r, d')"
  then have ok: "store_ok d" "linked d" by (simp_all add: graph_inv_def)
  from set_link_store [OF ok(1) run] have s: "r = Inr (Some e)" "store_ok d'" "rows_of d' = rows_of d" by simp_all
  then have later: "later d d'" by (intro later_same)
  have "linked d'"
  proof (rule linkedI [OF ok(2) later])
    fix x y assume "x \<in> set (iocs d')" and y: "ioc_linked x = Some y"
    then have "x \<in> set (iocs d) \<or> y = e" using run by (auto simp: set_link_def set_update_where split: if_splits)
    then show "(\<exists>i0 \<in> set (iocs d). ioc_linked i0 = Some y) \<or> exists_row d' y"
    proof
      assume "y = e" with e exists_row_later [OF _ later, of e] show ?thesis by simp
    qed (use y in blast)
  qed (use run in \<open>auto simp: set_link_def\<close>)
  with s later e exists_row_later [OF _ later] show
    "graph_inv (id d') \<and> later (id d) (id d') \<and> (\<forall>x. r = Inr x \<longrightarrow> pred_option (exists_row (id d')) x)"
    by (simp add: graph_inv_def)
qed

lemma lasting_linked [simp]: "lasting (\<lambda>d. pred_option (exists_row d) x)"
  by (cases x) simp_all

lemma link_typed_entity_sound:
  "lasting P \<Longrightarrow> sound id P (link_typed_entity sha i m) (\<lambda>x d. pred_option (exists_row d) x)"
  unfolding link_typed_entity_def
  by (auto intro!: sound_ret sound_bnd [OF _ ip_sound] sound_bnd [OF _ domain_sound] sound_bnd [OF _ url_sound] set_link_sound)

lemma upsert_ioc_sound: "lasting P \<Longrightarrow> sound fst P (upsert_ioc m) (\<lambda>i d. exists_row d (E_IOC, ioc_id i))"
  unfolding upsert_ioc_def
  by (rule sound_bnd [OF _ sound_on_fst [OF ioc_sound]], assumption,
      rule sound_bnd [OF _ sound_tally], auto intro: sound_ret)

lemma record_ioc_evidence_sound:
  "lasting P \<Longrightarrow> (\<And>d. P d \<Longrightarrow> exists_row d (E_IOC, i)) \<Longrightarrow>
   sound fst P (record_ioc_evidence sha dumps pv text f m i) (\<lambda>_ _. True)"
  unfolding record_ioc_evidence_def
  by (rule sound_bnd [OF _ sound_on_fst [OF sound_weaken [OF record_evidence_sound [where P = P]]]])
     (auto intro: sound_tally)

lemma observe_counted_sound:
  "lasting P \<Longrightarrow> (\<And>d. P d \<Longrightarrow> exists_row d src \<and> exists_row d tgt) \<Longrightarrow>
   sound fst P (observe_counted src tgt rt conf) (\<lambda>_ _. True)"
  unfolding observe_counted_def
  by (rule sound_bnd [OF _ sound_on_fst [OF sound_weaken [OF observe_sound [where P = P]]]])
     (auto intro: sound_tally)

lemma mention_edge_sound:
  "lasting P \<Longrightarrow> (\<And>d. P d \<Longrightarrow> exists_row d container) \<Longrightarrow> sound fst P (mention_edge container m conf) (\<lambda>_ _. True)"
  unfolding mention_edge_def
  by (auto intro!: sound_ret sound_bnd [OF _ sound_on_fst [OF username_sound]] observe_counted_sound)

lemma typed_edge_sound:
  "lasting P \<Longrightarrow> (\<And>d. P d \<Longrightarrow> exists_row d container \<and> pred_option (exists_row d) typed) \<Longrightarrow>
   sound fst P (typed_edge container m conf typed) (\<lambda>_ _. True)"
  unfolding typed_edge_def by (auto intro!: sound_ret observe_counted_sound split: option.split)

lemma ingest_match_sound:
  "sound fst (\<lambda>d. exists_row d container) (ingest_match sha dumps container pv text m) (\<lambda>_ _. True)"
  unfolding ingest_match_def Let_def
  by (rule sound_bnd [OF _ upsert_ioc_sound], simp, simp,
      rule sound_bnd [OF _ sound_on_fst [OF link_typed_entity_sound]], simp, simp,
      rule sound_bnd [OF _ record_ioc_evidence_sound], simp, simp, simp,
      rule sound_bnd [OF _ observe_counted_sound], simp, simp, simp,
      rule sound_bnd [OF _ typed_edge_sound], simp, simp, simp,
      rule mention_edge_sound, simp, simp)

lemma with_summary_sound: "sound fst P m (\<lambda>_ _. True) \<Longrightarrow> sound id P (with_summary m) (\<lambda>_ _. True)"
proof (rule soundI)
  fix d r d' assume m: "sound fst P m (\<lambda>_ _. True)" and pre: "graph_inv (id d)" "P (id d)" and run: "with_summary m d = (r, d')"
  obtain r1 s1 where s1: "m (d, empty_summary) = (r1, s1)" by (cases "m (d, empty_summary)")
  with run have "d' = fst s1" by (auto simp: with_summary_def split: prod.splits sum.splits)
  with soundD [OF m, of "(d, empty_summary)" r1 s1] pre s1
  show "graph_inv (id d') \<and> later (id d) (id d') \<and> (\<forall>x. r = Inr x \<longrightarrow> True)" by simp
qed

lemma enrich_message_sound:
  "sound id (\<lambda>d. exists_row d (E_MESSAGE, i)) (enrich_message sha dumps i text pv) (\<lambda>_ _. True)"
  unfolding enrich_message_def enrich_def
  by (intro with_summary_sound sound_bnd [OF _ sound_liftE] sound_for_each sound_catch)
     (auto intro: sound_weaken [OF ingest_match_sound] sound_ret)

lemma enrich_entity_match_sound:
  "sound fst (\<lambda>d. exists_row d e) (enrich_entity_match sha dumps e pv text f m) (\<lambda>_ _. True)"
  unfolding enrich_entity_match_def
  by (auto intro!: sound_ret sound_bnd [OF _ upsert_ioc_sound] sound_bnd [OF _ record_ioc_evidence_sound] observe_counted_sound)

lemma enrich_entity_text_sound:
  "sound id (\<lambda>d. exists_row d e) (enrich_entity_text sha dumps e text pv f) (\<lambda>_ _. True)"
  unfolding enrich_entity_text_def
  by (intro with_summary_sound sound_bnd [OF _ sound_liftE] sound_for_each)
     (auto intro: sound_weaken [OF enrich_entity_match_sound])

section \<open>What always returns\<close>

definition returns :: "('s \<Rightarrow> db) \<Rightarrow> (db \<Rightarrow> bool) \<Rightarrow> ('s, 'a) action \<Rightarrow> bool" where
  "returns g P m \<longleftrightarrow> (\<forall>s. graph_inv (g s) \<longrightarrow> P (g s) \<longrightarrow> (\<exists>x s'. m s = (Inr x, s')))"

lemma returnsI: "(\<And>s. graph_inv (g s) \<Longrightarrow> P (g s) \<Longrightarrow> \<exists>x s'. m s = (Inr x, s')) \<Longrightarrow> returns g P m"
  by (simp add: returns_def)

lemma returns_ret: "returns g P (ret x)"
  by (simp add: returns_def)

lemma returns_tally: "returns fst P (tally f)"
  by (simp add: returns_def tally_def split_def)

lemma returns_bnd:
  assumes P: "lasting P" and m: "sound g P m R" "returns g P m" and f: "\<And>x. returns g (\<lambda>d. P d \<and> R x d) (f x)"
  shows "returns g P (bnd m f)"
proof (rule returnsI)
  fix s assume pre: "graph_inv (g s)" "P (g s)"
  with m(2) obtain x s1 where s1: "m s = (Inr x, s1)" unfolding returns_def by blast
  with soundD [OF m(1) pre s1] P pre(2) have "graph_inv (g s1)" "P (g s1) \<and> R x (g s1)" unfolding lasting_def by blast+
  with f s1 show "\<exists>x s'. bnd m f s = (Inr x, s')" unfolding returns_def by simp
qed

lemma returns_for_each:
  "lasting P \<Longrightarrow> (\<And>x. x \<in> set xs \<Longrightarrow> sound g P (f x) (\<lambda>_ _. True) \<and> returns g P (f x)) \<Longrightarrow> returns g P (for_each f xs)"
proof (induction xs)
  case (Cons x xs)
  then have "returns g P (for_each f xs)" "sound g P (f x) (\<lambda>_ _. True)" "returns g P (f x)" by auto
  with Cons.prems(1) show ?case by (auto intro: returns_bnd)
qed (simp add: returns_ret)

lemma returns_on_fst: "returns id P m \<Longrightarrow> returns fst P (on_fst m)"
  unfolding returns_def on_fst_def by (auto split: prod.split) (metis Pair_inject)

lemma bnd_liftE [simp]: "bnd (liftE (Inr x)) f = f x"
  by (rule ext) (simp add: liftE_def)

definition storable :: "ioc_match \<Rightarrow> bool" where
  "storable m \<longleftrightarrow> (case normalize_ioc (im_type m) (im_value m) of Inl _ \<Rightarrow> False | Inr _ \<Rightarrow> True)"

lemma ioc_returns: "normalize_ioc t v = Inr n \<Longrightarrow> returns id P (ioc_get_or_create t v)"
proof (rule returnsI)
  fix d assume n: "normalize_ioc t v = Inr n" and "graph_inv (id d)"
  then have "store_ok d" by (simp add: graph_inv_def)
  from ioc_store.get_or_create_store [OF this, of "\<lambda>r. ioc_ty r = t \<and> ioc_norm r = n" "(t, n)"
      "\<lambda>d i. \<lparr>ioc_id = i, ioc_ty = t, ioc_val = strip v, ioc_norm = n, ioc_linked = None, ioc_times_observed = 1,
        ioc_created_at = now d\<rparr>"]
  show "\<exists>x s'. ioc_get_or_create t v d = (Inr x, s')"
    unfolding ioc_get_or_create_def n by (auto simp: Let_def)
qed

lemma observe_returns: "returns id P (observe src tgt rt c evid md)"
proof (rule returnsI)
  fix d assume "graph_inv (id d)"
  then have ok: "store_ok d" by (simp add: graph_inv_def)
  then have "uq_relationship (relationships d)" by (simp add: store_ok_def)
  then show "\<exists>x s'. observe src tgt rt c evid md d = (Inr x, s')"
  proof (rule filter_edge_cases)
    assume "filter (edge_between src tgt rt) (relationships d) = []"
    from observe_new_store [OF ok this, of c evid md] show ?thesis by blast
  next
    fix r assume "filter (edge_between src tgt rt) (relationships d) = [r]"
    from observe_old_store [OF ok this, of c evid md] show ?thesis by blast
  qed
qed

lemma record_evidence_returns: "ei_field e = Some f \<Longrightarrow> returns id P (record_evidence sha dumps et i e)"
  using record_evidence_store by (fastforce intro!: returnsI simp: graph_inv_def)

lemma upsert_ioc_returns:
  assumes "lasting P" and "storable m"
  shows "returns fst P (upsert_ioc m)"
proof -
  from assms(2) obtain n where n: "normalize_ioc (im_type m) (im_value m) = Inr n" by (auto simp: storable_def split: sum.splits)
  have "returns fst (\<lambda>d. P d \<and> exists_row d (E_IOC, ioc_id (fst x))) (bnd (tally (count_ioc (im_type m) (snd x))) (\<lambda>_. ret (fst x)))" for x
    using assms(1) by (intro returns_bnd [OF _ sound_tally [where R = "\<lambda>_ _. True"] returns_tally] returns_ret) simp_all
  then show ?thesis unfolding upsert_ioc_def
    by (rule returns_bnd [OF assms(1) sound_on_fst [OF ioc_sound] returns_on_fst [OF ioc_returns [OF n]]])
qed

lemma record_ioc_evidence_returns:
  assumes P: "lasting P" and i: "\<And>d. P d \<Longrightarrow> exists_row d (E_IOC, i)"
  shows "returns fst P (record_ioc_evidence sha dumps pv text f m i)"
  unfolding record_ioc_evidence_def
proof (rule returns_bnd [OF P sound_on_fst returns_on_fst returns_tally])
  show "sound id P (record_evidence sha dumps E_IOC i (ioc_evidence pv text f m)) (\<lambda>_ _. True)"
    by (rule sound_weaken [OF record_evidence_sound [where P = P]]) (use i in blast)+
  show "returns id P (record_evidence sha dumps E_IOC i (ioc_evidence pv text f m))"
    by (rule record_evidence_returns) (simp add: ioc_evidence_def)
qed

lemma observe_counted_returns:
  assumes P: "lasting P" and e: "\<And>d. P d \<Longrightarrow> exists_row d src \<and> exists_row d tgt"
  shows "returns fst P (observe_counted src tgt rt conf)"
  unfolding observe_counted_def
proof (rule returns_bnd [OF P sound_on_fst returns_on_fst returns_tally])
  show "sound id P (observe src tgt rt conf None []) (\<lambda>_ _. True)"
    by (rule sound_weaken [OF observe_sound [where P = P]]) (use e in blast)+
qed (rule observe_returns)

lemma enrich_entity_match_returns:
  "storable m \<Longrightarrow> returns fst (\<lambda>d. exists_row d e) (enrich_entity_match sha dumps e pv text f m)"
  unfolding enrich_entity_match_def
  by (auto intro!: returns_ret returns_bnd [OF _ upsert_ioc_sound upsert_ioc_returns]
      returns_bnd [OF _ record_ioc_evidence_sound record_ioc_evidence_returns] observe_counted_returns)

lemma with_summary_returns: "returns fst P m \<Longrightarrow> returns id P (with_summary m)"
  unfolding returns_def with_summary_def by (auto split: prod.split sum.split) (metis Inl_Inr_False Pair_inject fst_conv)

text \<open>Text the enrichment can handle: the indicators are found, and each can be stored.\<close>

definition text_fine :: "string \<Rightarrow> bool" where
  "text_fine text \<longleftrightarrow> (case extract_iocs text of Inl _ \<Rightarrow> False | Inr ms \<Rightarrow> list_all storable ms)"

lemma enrich_message_returns:
  "text_fine text \<Longrightarrow> returns id (\<lambda>d. exists_row d (E_MESSAGE, i)) (enrich_message sha dumps i text pv)"
proof -
  assume "text_fine text"
  then obtain ms where ms: "extract_iocs text = Inr ms" by (auto simp: text_fine_def split: sum.splits)
  have "returns fst (\<lambda>d. exists_row d (E_MESSAGE, i)) (catch (ingest_match sha dumps (E_MESSAGE, i) pv text m) (\<lambda>_. ret ()))" for m
    by (rule returnsI) (auto simp: catch_def ret_def split: prod.split sum.split)
  then show ?thesis
    unfolding enrich_message_def enrich_def ms
    by (intro with_summary_returns) (auto intro!: returns_for_each sound_catch
        sound_weaken [OF ingest_match_sound] sound_ret)
qed

lemma enrich_entity_text_returns:
  "text_fine text \<Longrightarrow> returns id (\<lambda>d. exists_row d e) (enrich_entity_text sha dumps e text pv f)"
proof -
  assume "text_fine text"
  then obtain ms where ms: "extract_iocs text = Inr ms" "list_all storable ms" by (auto simp: text_fine_def split: sum.splits)
  then show ?thesis
    unfolding enrich_entity_text_def ms(1)
    by (intro with_summary_returns) (auto simp: liftE_def list_all_iff intro!: returns_for_each enrich_entity_match_sound
        enrich_entity_match_returns)
qed

end
