(* ===== verification/Ingest.thy ===== *)
theory Ingest
  imports EnrichLinks Collector "HOL-Library.AList"
begin

text \<open>
  \<open>intelligence/ingest.py\<close>: the STORE step. Entities first, then messages, then evidence, then
  edges; a failing record is skipped. Attributes are dictionaries of JSON values (a time is a
  number) of the type of the column they name; \<open>telegram_id\<close> is a key, never an attribute.
\<close>

record ingest_summary =
  in_created :: nat
  in_updated :: nat
  in_evidence :: nat
  in_edges :: nat
  in_iocs :: nat
  in_resolved :: "(string \<times> entity_type \<times> uid) list"
  in_skipped :: "string list"

definition empty_ingest :: ingest_summary where
  "empty_ingest = \<lparr>in_created = 0, in_updated = 0, in_evidence = 0, in_edges = 0, in_iocs = 0, in_resolved = [], in_skipped = []\<rparr>"

definition hint_keys :: "string list" where
  "hint_keys = [''_container_ref'']"

definition skip_attr :: "string list" where
  "skip_attr = [''username_normalized'', ''name_normalized'', ''value_normalized'']"

section \<open>Reading dictionaries\<close>

definition text_attr :: "string \<Rightarrow> (string \<times> json) list \<Rightarrow> string option" where
  "text_attr k kvs = (case map_of kvs k of Some (JStr (c # s)) \<Rightarrow> Some (c # s) | _ \<Rightarrow> None)"

definition int_attr :: "string \<Rightarrow> (string \<times> json) list \<Rightarrow> int option" where
  "int_attr k kvs = (case map_of kvs k of Some (JInt i) \<Rightarrow> Some i | _ \<Rightarrow> None)"

text \<open>\<open>nk.get(k, default)\<close> where a text is needed: another value makes the repository raise.\<close>

definition key_text :: "string \<Rightarrow> string \<Rightarrow> (string \<times> json) list \<Rightarrow> exn + string" where
  "key_text k dflt kvs =
     (case map_of kvs k of
        None \<Rightarrow> Inr dflt
      | Some (JStr s) \<Rightarrow> Inr s
      | Some _ \<Rightarrow> Inl (AttributeError ''object has no attribute strip''))"

text \<open>\<open>nk.get(k) or rec.attributes.get(a, "")\<close>\<close>

definition key_or_attr :: "string \<Rightarrow> string \<Rightarrow> normalized_record \<Rightarrow> exn + string" where
  "key_or_attr k a r =
     (case text_attr k (nr_natural_key r) of Some s \<Rightarrow> Inr s | None \<Rightarrow> key_text a [] (nr_attributes r))"

definition username_of :: "normalized_record \<Rightarrow> string option" where
  "username_of r =
     (case text_attr ''username'' (nr_attributes r) of
        Some u \<Rightarrow> Some u
      | None \<Rightarrow> text_attr ''username_normalized'' (nr_natural_key r))"

definition ioc_type_of :: "string \<Rightarrow> ioc_type option" where
  "ioc_type_of v = find (\<lambda>t. ioc_value t = v)
     [IPV4, IPV6, IOC_DOMAIN, IOC_URL, IOC_EMAIL, MD5, SHA1, SHA256, CVE, TELEGRAM_USERNAME, TELEGRAM_URL]"

section \<open>Entities\<close>

definition with_id :: "('r \<Rightarrow> uid) \<Rightarrow> (db, 'r \<times> bool) action \<Rightarrow> (db, uid \<times> bool) action" where
  "with_id rid m = bnd m (\<lambda>x. ret (rid (fst x), snd x))"

definition dispatch_get_or_create :: "(string \<Rightarrow> string) \<Rightarrow> normalized_record \<Rightarrow> (db, uid \<times> bool) action" where
  "dispatch_get_or_create sha r =
     (let nk = nr_natural_key r; et = nr_entity_type r in
      if et = E_TELEGRAM_ACCOUNT then with_id ta_id (account_get_or_create (int_attr ''telegram_id'' nk) (username_of r))
      else if et = E_TELEGRAM_GROUP then with_id tc_id (group_get_or_create (int_attr ''telegram_id'' nk) (username_of r))
      else if et = E_TELEGRAM_CHANNEL then with_id tc_id (channel_get_or_create (int_attr ''telegram_id'' nk) (username_of r))
      else if et = E_USERNAME
      then bnd (liftE (key_text ''platform'' ''generic'' nk)) (\<lambda>p. bnd (liftE (key_or_attr ''value'' ''value'' r)) (\<lambda>v.
             with_id un_id (username_get_or_create p v)))
      else if et = E_DOMAIN
      then bnd (liftE (key_or_attr ''name'' ''name'' r)) (\<lambda>v. with_id dm_id (domain_get_or_create v))
      else if et = E_URL
      then bnd (liftE (key_or_attr ''url'' ''url'' r)) (\<lambda>v. with_id ur_id (url_get_or_create sha v))
      else if et = E_IP
      then bnd (liftE (key_or_attr ''address'' ''address'' r)) (\<lambda>v. with_id ip_id (ip_get_or_create v))
      else if et = E_IOC
      then (case text_attr ''ioc_type'' nk of
              None \<Rightarrow> throw (KeyError ''ioc_type'')
            | Some t \<Rightarrow> (case ioc_type_of t of
                None \<Rightarrow> throw (ValueError ''not a valid IOCType'')
              | Some ty \<Rightarrow> bnd (liftE (key_or_attr ''value'' ''value'' r)) (\<lambda>v. with_id ioc_id (ioc_get_or_create ty v))))
      else if et = E_EXTERNAL_ACCOUNT
      then bnd (liftE (key_text ''platform'' ''generic'' nk)) (\<lambda>p. bnd (liftE (key_or_attr ''identifier'' ''identifier'' r)) (\<lambda>v.
             with_id ea_id (external_get_or_create p v)))
      else throw (ValueError ''no ingestion handler for entity_type''))"

text \<open>\<open>_apply_attributes\<close>: only an empty column is filled.\<close>

definition fill_text :: "json \<Rightarrow> string option \<Rightarrow> string option" where
  "fill_text v old = (case v of JStr s \<Rightarrow> if old = None \<or> old = Some [] then Some s else old | _ \<Rightarrow> old)"

definition fill_str :: "json \<Rightarrow> string \<Rightarrow> string" where
  "fill_str v old = (case v of JStr s \<Rightarrow> if old = [] then s else old | _ \<Rightarrow> old)"

definition fill_int :: "json \<Rightarrow> int option \<Rightarrow> int option" where
  "fill_int v old = (case v of JInt i \<Rightarrow> if old = None \<or> old = Some 0 then Some i else old | _ \<Rightarrow> old)"

definition fill_bool :: "json \<Rightarrow> bool \<Rightarrow> bool" where
  "fill_bool v old = (case v of JBool b \<Rightarrow> if \<not> old then b else old | _ \<Rightarrow> old)"

definition set_account :: "string \<times> json \<Rightarrow> telegram_account \<Rightarrow> telegram_account" where
  "set_account kv r =
     (let k = fst kv; v = snd kv in
      if k = ''username'' then r\<lparr>ta_username := fill_text v (ta_username r)\<rparr>
      else if k = ''display_name'' then r\<lparr>ta_display_name := fill_text v (ta_display_name r)\<rparr>
      else if k = ''bio'' then r\<lparr>ta_bio := fill_text v (ta_bio r)\<rparr>
      else if k = ''is_bot'' then r\<lparr>ta_is_bot := fill_bool v (ta_is_bot r)\<rparr>
      else if k = ''is_verified'' then r\<lparr>ta_is_verified := fill_bool v (ta_is_verified r)\<rparr>
      else if k = ''is_scam'' then r\<lparr>ta_is_scam := fill_bool v (ta_is_scam r)\<rparr>
      else if k = ''photo_reference'' then r\<lparr>ta_photo_reference := fill_text v (ta_photo_reference r)\<rparr>
      else if k = ''first_observed_at'' then r\<lparr>ta_first_observed_at := fill_int v (ta_first_observed_at r)\<rparr>
      else r)"

definition set_chat :: "string \<times> json \<Rightarrow> telegram_chat \<Rightarrow> telegram_chat" where
  "set_chat kv r =
     (let k = fst kv; v = snd kv in
      if k = ''username'' then r\<lparr>tc_username := fill_text v (tc_username r)\<rparr>
      else if k = ''title'' then r\<lparr>tc_title := fill_text v (tc_title r)\<rparr>
      else if k = ''description'' then r\<lparr>tc_description := fill_text v (tc_description r)\<rparr>
      else if k = ''participants_count'' then r\<lparr>tc_participants_count := fill_int v (tc_participants_count r)\<rparr>
      else if k = ''is_public'' then r\<lparr>tc_is_public := fill_bool v (tc_is_public r)\<rparr>
      else if k = ''first_observed_at'' then r\<lparr>tc_first_observed_at := fill_int v (tc_first_observed_at r)\<rparr>
      else r)"

definition set_external :: "string \<times> json \<Rightarrow> external_account \<Rightarrow> external_account" where
  "set_external kv r =
     (let k = fst kv; v = snd kv in
      if k = ''identifier'' then r\<lparr>ea_identifier := fill_str v (ea_identifier r)\<rparr>
      else if k = ''display_name'' then r\<lparr>ea_display_name := fill_text v (ea_display_name r)\<rparr>
      else if k = ''profile_url'' then r\<lparr>ea_profile_url := fill_text v (ea_profile_url r)\<rparr>
      else if k = ''bio'' then r\<lparr>ea_bio := fill_text v (ea_bio r)\<rparr>
      else if k = ''linked_website'' then r\<lparr>ea_linked_website := fill_text v (ea_linked_website r)\<rparr>
      else if k = ''location'' then r\<lparr>ea_location := fill_text v (ea_location r)\<rparr>
      else r)"

definition set_username :: "string \<times> json \<Rightarrow> username \<Rightarrow> username" where
  "set_username kv r = (if fst kv = ''value'' then r\<lparr>un_value := fill_str (snd kv) (un_value r)\<rparr> else r)"

definition set_domain :: "string \<times> json \<Rightarrow> domain \<Rightarrow> domain" where
  "set_domain kv r =
     (if fst kv = ''name'' then r\<lparr>dm_name := fill_str (snd kv) (dm_name r)\<rparr>
      else if fst kv = ''tld'' then r\<lparr>dm_tld := fill_text (snd kv) (dm_tld r)\<rparr> else r)"

definition set_url :: "string \<times> json \<Rightarrow> url_row \<Rightarrow> url_row" where
  "set_url kv r =
     (if fst kv = ''url'' then r\<lparr>ur_url := fill_str (snd kv) (ur_url r)\<rparr>
      else if fst kv = ''scheme'' then r\<lparr>ur_scheme := fill_text (snd kv) (ur_scheme r)\<rparr>
      else if fst kv = ''host'' then r\<lparr>ur_host := fill_text (snd kv) (ur_host r)\<rparr> else r)"

definition set_ip :: "string \<times> json \<Rightarrow> ip_row \<Rightarrow> ip_row" where
  "set_ip kv r = (if fst kv = ''is_private'' then r\<lparr>ip_is_private := fill_bool (snd kv) (ip_is_private r)\<rparr> else r)"

definition set_ioc :: "string \<times> json \<Rightarrow> ioc \<Rightarrow> ioc" where
  "set_ioc kv r = (if fst kv = ''value'' then r\<lparr>ioc_val := fill_str (snd kv) (ioc_val r)\<rparr> else r)"

definition apply_attributes :: "entity_type \<Rightarrow> uid \<Rightarrow> (string \<times> json) list \<Rightarrow> db \<Rightarrow> db" where
  "apply_attributes et i attrs d =
     (case et of
        E_TELEGRAM_ACCOUNT \<Rightarrow> d\<lparr>telegram_accounts := update_where (\<lambda>r. ta_id r = i) (fold set_account attrs) (telegram_accounts d)\<rparr>
      | E_TELEGRAM_GROUP \<Rightarrow> d\<lparr>telegram_groups := update_where (\<lambda>r. tc_id r = i) (fold set_chat attrs) (telegram_groups d)\<rparr>
      | E_TELEGRAM_CHANNEL \<Rightarrow> d\<lparr>telegram_channels := update_where (\<lambda>r. tc_id r = i) (fold set_chat attrs) (telegram_channels d)\<rparr>
      | E_EXTERNAL_ACCOUNT \<Rightarrow> d\<lparr>external_accounts := update_where (\<lambda>r. ea_id r = i) (fold set_external attrs) (external_accounts d)\<rparr>
      | E_USERNAME \<Rightarrow> d\<lparr>usernames := update_where (\<lambda>r. un_id r = i) (fold set_username attrs) (usernames d)\<rparr>
      | E_DOMAIN \<Rightarrow> d\<lparr>domains := update_where (\<lambda>r. dm_id r = i) (fold set_domain attrs) (domains d)\<rparr>
      | E_URL \<Rightarrow> d\<lparr>urls := update_where (\<lambda>r. ur_id r = i) (fold set_url attrs) (urls d)\<rparr>
      | E_IP \<Rightarrow> d\<lparr>ips := update_where (\<lambda>r. ip_id r = i) (fold set_ip attrs) (ips d)\<rparr>
      | E_IOC \<Rightarrow> d\<lparr>iocs := update_where (\<lambda>r. ioc_id r = i) (fold set_ioc attrs) (iocs d)\<rparr>
      | _ \<Rightarrow> d)"

section \<open>The summary\<close>

definition resolve_ref :: "string \<Rightarrow> entity_type \<times> uid \<Rightarrow> bool \<Rightarrow> ingest_summary \<Rightarrow> ingest_summary" where
  "resolve_ref ref e created s =
     s\<lparr>in_resolved := AList.update ref e (in_resolved s),
       in_created := in_created s + (if created then 1 else 0),
       in_updated := in_updated s + (if created then 0 else 1)\<rparr>"

definition skip_ref :: "string \<Rightarrow> ingest_summary \<Rightarrow> ingest_summary" where
  "skip_ref ref s = s\<lparr>in_skipped := in_skipped s @ [ref]\<rparr>"

definition add_enriched :: "enrich_summary \<Rightarrow> ingest_summary \<Rightarrow> ingest_summary" where
  "add_enriched es s =
     s\<lparr>in_iocs := in_iocs s + es_iocs_created es, in_edges := in_edges s + es_relationships es,
       in_evidence := in_evidence s + es_evidence es\<rparr>"

type_synonym 'a ingesting = "(db \<times> ingest_summary, 'a) action"

text \<open>\<open>try ... except Exception\<close> around a step: \<open>None\<close> if it raised.\<close>

definition attempt :: "('s, 'a) action \<Rightarrow> ('s, 'a option) action" where
  "attempt m = catch (bnd m (\<lambda>x. ret (Some x))) (\<lambda>_. ret None)"

definition provenance_of :: "normalized_record \<Rightarrow> string option \<Rightarrow> time option \<Rightarrow> provenance" where
  "provenance_of r reference observed =
     (case nr_evidence r of
        [] \<Rightarrow> \<lparr>pv_source = ''manual'', pv_source_type = ''telegram'', pv_reference = reference, pv_observed_at = None\<rparr>
      | ev # _ \<Rightarrow> \<lparr>pv_source = dr_source ev, pv_source_type = dr_source_type ev, pv_reference = reference, pv_observed_at = observed\<rparr>)"

section \<open>The passes\<close>

definition enrich_blurb :: "(string \<Rightarrow> string) \<Rightarrow> (json \<Rightarrow> string) \<Rightarrow> normalized_record \<Rightarrow> uid \<Rightarrow> string \<Rightarrow> unit ingesting" where
  "enrich_blurb sha dumps r i field_name =
     (case text_attr field_name (nr_attributes r) of
        None \<Rightarrow> ret ()
      | Some blurb \<Rightarrow>
          if nr_entity_type r \<in> {E_TELEGRAM_ACCOUNT, E_TELEGRAM_CHANNEL, E_TELEGRAM_GROUP}
          then bnd (on_fst (enrich_entity_text sha dumps (nr_entity_type r, i) blurb
                      (provenance_of r (text_attr ''reference'' (nr_attributes r)) None) field_name)) (\<lambda>es.
               tally (add_enriched es))
          else ret ())"

definition ingest_entity :: "(string \<Rightarrow> string) \<Rightarrow> (json \<Rightarrow> string) \<Rightarrow> normalized_record \<Rightarrow> unit ingesting" where
  "ingest_entity sha dumps r =
     bnd (attempt (on_fst (dispatch_get_or_create sha r))) (\<lambda>x.
     case x of
       None \<Rightarrow> tally (skip_ref (nr_ref r))
     | Some (i, created) \<Rightarrow>
         bnd (on_fst (\<lambda>d. (Inr (), apply_attributes (nr_entity_type r) i (nr_attributes r) d))) (\<lambda>_.
         bnd (tally (resolve_ref (nr_ref r) (nr_entity_type r, i) created)) (\<lambda>_.
         for_each (enrich_blurb sha dumps r i) [''bio'', ''description''])))"

text \<open>A message attribute as a column setting; \<open>None\<close> values are left out.\<close>

definition text_field :: "(string \<Rightarrow> msg_field) \<Rightarrow> string \<Rightarrow> json \<Rightarrow> msg_field option" where
  "text_field f k v = Some (case v of JStr s \<Rightarrow> f s | _ \<Rightarrow> MF_other k)"

definition int_field :: "(int \<Rightarrow> msg_field) \<Rightarrow> string \<Rightarrow> json \<Rightarrow> msg_field option" where
  "int_field f k v = Some (case v of JInt i \<Rightarrow> f i | _ \<Rightarrow> MF_other k)"

definition list_field :: "(string list \<Rightarrow> msg_field) \<Rightarrow> string \<Rightarrow> json \<Rightarrow> msg_field option" where
  "list_field f k v = Some (case v of JList vs \<Rightarrow> f (map (\<lambda>x. case x of JStr s \<Rightarrow> s | _ \<Rightarrow> []) vs) | _ \<Rightarrow> MF_other k)"

definition msg_field_of :: "string \<times> json \<Rightarrow> msg_field option" where
  "msg_field_of kv =
     (let k = fst kv; v = snd kv in
      if k \<in> set hint_keys \<or> k \<in> set skip_attr \<or> v = JNull then None
      else if k = ''text'' then text_field MF_text k v
      else if k = ''posted_at'' then int_field MF_posted_at k v
      else if k = ''author_username'' then text_field MF_author_username k v
      else if k = ''author_account_id'' then int_field (\<lambda>i. MF_author_account_id (nat i)) k v
      else if k = ''reply_to_message_id'' then int_field MF_reply_to k v
      else if k = ''forwarded_from'' then text_field MF_forwarded_from k v
      else if k = ''views'' then int_field MF_views k v
      else if k = ''source_url'' then text_field MF_source_url k v
      else if k = ''urls_json'' then list_field MF_urls k v
      else if k = ''usernames_json'' then list_field MF_usernames k v
      else Some (MF_other k))"

definition message_number :: "normalized_record \<Rightarrow> exn + int" where
  "message_number r =
     (case map_of (nr_natural_key r) ''message_id'' of
        None \<Rightarrow> Inl (KeyError ''message_id'')
      | Some (JInt i) \<Rightarrow> Inr i
      | Some (JStr s) \<Rightarrow> int_of_str s
      | Some _ \<Rightarrow> Inl (TypeError ''int() argument''))"

definition is_chat :: "entity_type \<Rightarrow> bool" where
  "is_chat et \<longleftrightarrow> et = E_TELEGRAM_GROUP \<or> et = E_TELEGRAM_CHANNEL"

text \<open>The container of a message: the named one, else the only one of the batch.\<close>

definition container_of :: "normalized_record \<Rightarrow> ingest_summary \<Rightarrow> (entity_type \<times> uid) option" where
  "container_of r s =
     (let named = (case text_attr ''_container_ref'' (nr_attributes r) of
                     Some ref \<Rightarrow> map_of (in_resolved s) ref | None \<Rightarrow> None) in
      case named of
        Some c \<Rightarrow> Some c
      | None \<Rightarrow> (case filter (\<lambda>e. is_chat (fst e)) (map snd (in_resolved s)) of [c] \<Rightarrow> Some c | _ \<Rightarrow> None))"

definition with_tally :: "('t \<Rightarrow> ('s \<times> 't, 'a) action) \<Rightarrow> ('s \<times> 't, 'a) action" where
  "with_tally f = (\<lambda>st. f (snd st) st)"

definition store_message ::
  "(string \<Rightarrow> string) \<Rightarrow> (json \<Rightarrow> string) \<Rightarrow> normalized_record \<Rightarrow> entity_type \<times> uid \<Rightarrow> unit ingesting" where
  "store_message sha dumps r c =
     bnd (attempt (on_fst (bnd (liftE (message_number r)) (\<lambda>mid.
            message_upsert (fst c) (snd c) mid (List.map_filter msg_field_of (nr_attributes r)))))) (\<lambda>x.
     case x of
       None \<Rightarrow> tally (skip_ref (nr_ref r))
     | Some (m, created) \<Rightarrow>
         bnd (tally (resolve_ref (nr_ref r) (E_MESSAGE, ms_id m) created)) (\<lambda>_.
         case text_attr ''text'' (nr_attributes r) of
           None \<Rightarrow> ret ()
         | Some text \<Rightarrow>
             bnd (on_fst (enrich_message sha dumps (ms_id m) text
                    (provenance_of r (text_attr ''source_url'' (nr_attributes r))
                       (case nr_evidence r of [] \<Rightarrow> None | ev # _ \<Rightarrow> dr_observed_at ev)))) (\<lambda>es.
             tally (add_enriched es))))"

definition ingest_message :: "(string \<Rightarrow> string) \<Rightarrow> (json \<Rightarrow> string) \<Rightarrow> normalized_record \<Rightarrow> unit ingesting" where
  "ingest_message sha dumps r =
     with_tally (\<lambda>s. case container_of r s of
       None \<Rightarrow> tally (skip_ref (nr_ref r))
     | Some c \<Rightarrow> store_message sha dumps r c)"

definition draft_evidence :: "evidence_draft \<Rightarrow> evidence_in" where
  "draft_evidence dr =
     \<lparr>ei_field = dr_field dr, ei_value = dr_value dr, ei_source = dr_source dr, ei_source_type = dr_source_type dr,
      ei_reference = dr_reference dr, ei_raw_content = dr_raw dr, ei_content_hash = None,
      ei_observed_at = dr_observed_at dr, ei_method = dr_method dr, ei_confidence = dr_confidence dr, ei_metadata = []\<rparr>"

definition ingest_evidence :: "(string \<Rightarrow> string) \<Rightarrow> (json \<Rightarrow> string) \<Rightarrow> evidence_draft \<Rightarrow> unit ingesting" where
  "ingest_evidence sha dumps dr =
     with_tally (\<lambda>s. case map_of (in_resolved s) (dr_ref dr) of
       None \<Rightarrow> ret ()
     | Some e \<Rightarrow>
         bnd (attempt (on_fst (record_evidence sha dumps (fst e) (snd e) (draft_evidence dr)))) (\<lambda>x.
         case x of
           None \<Rightarrow> ret ()
         | Some y \<Rightarrow> tally (\<lambda>s. s\<lparr>in_evidence := in_evidence s + (if snd y then 1 else 0)\<rparr>)))"

definition ingest_edge :: "relationship_draft \<Rightarrow> unit ingesting" where
  "ingest_edge rd =
     with_tally (\<lambda>s. case (map_of (in_resolved s) (rd_source_ref rd), map_of (in_resolved s) (rd_target_ref rd)) of
       (Some src, Some tgt) \<Rightarrow>
         bnd (attempt (on_fst (observe src tgt (rd_type rd) (rd_confidence rd) None []))) (\<lambda>x.
         case x of
           None \<Rightarrow> ret ()
         | Some y \<Rightarrow> tally (\<lambda>s. s\<lparr>in_edges := in_edges s + (if snd y then 1 else 0)\<rparr>))
     | _ \<Rightarrow> ret ())"

definition ingest_all :: "(string \<Rightarrow> string) \<Rightarrow> (json \<Rightarrow> string) \<Rightarrow> collect_result \<Rightarrow> unit ingesting" where
  "ingest_all sha dumps res =
     (if co_records res = [] then ret ()
      else bnd (for_each (ingest_entity sha dumps) (filter (\<lambda>r. nr_entity_type r \<noteq> E_MESSAGE) (co_records res))) (\<lambda>_.
           bnd (for_each (ingest_message sha dumps) (filter (\<lambda>r. nr_entity_type r = E_MESSAGE) (co_records res))) (\<lambda>_.
           bnd (for_each (ingest_evidence sha dumps) (concat (map nr_evidence (co_records res)))) (\<lambda>_.
           for_each ingest_edge (co_relationships res)))))"

definition ingest :: "(string \<Rightarrow> string) \<Rightarrow> (json \<Rightarrow> string) \<Rightarrow> collect_result \<Rightarrow> (db, ingest_summary) action" where
  "ingest sha dumps res d =
     (case ingest_all sha dumps res (d, empty_ingest) of (Inl e, (d', _)) \<Rightarrow> (Inl e, d') | (Inr _, (d', s)) \<Rightarrow> (Inr s, d'))"

section \<open>One step of an ingest\<close>

text \<open>
  \<open>step_ok P n fine m\<close>: from a sound store in which the resolved references exist, and \<open>P\<close>, the
  step keeps both, only adds rows, deals with exactly \<open>n\<close> records, and raises only if not \<open>fine\<close>.
\<close>

definition refs_ok :: "db \<Rightarrow> ingest_summary \<Rightarrow> bool" where
  "refs_ok d s \<longleftrightarrow> (\<forall>x \<in> set (in_resolved s). exists_row d (snd x))"

definition handled :: "ingest_summary \<Rightarrow> nat" where
  "handled s = in_created s + in_updated s + length (in_skipped s)"

definition step_ok :: "(db \<Rightarrow> bool) \<Rightarrow> nat \<Rightarrow> bool \<Rightarrow> unit ingesting \<Rightarrow> bool" where
  "step_ok P n fine m \<longleftrightarrow> (\<forall>d s r d' s'. graph_inv d \<longrightarrow> refs_ok d s \<longrightarrow> P d \<longrightarrow> m (d, s) = (r, (d', s')) \<longrightarrow>
     graph_inv d' \<and> later d d' \<and> refs_ok d' s' \<and> (fine \<longrightarrow> r = Inr ()) \<and> (r = Inr () \<longrightarrow> handled s' = handled s + n))"

lemma step_okI:
  assumes "\<And>d s r d' s'. graph_inv d \<Longrightarrow> refs_ok d s \<Longrightarrow> P d \<Longrightarrow> m (d, s) = (r, (d', s')) \<Longrightarrow>
     graph_inv d' \<and> later d d' \<and> refs_ok d' s' \<and> (fine \<longrightarrow> r = Inr ()) \<and> (r = Inr () \<longrightarrow> handled s' = handled s + n)"
  shows "step_ok P n fine m"
  using assms unfolding step_ok_def by blast

lemma step_okD:
  "step_ok P n fine m \<Longrightarrow> graph_inv d \<Longrightarrow> refs_ok d s \<Longrightarrow> P d \<Longrightarrow> m (d, s) = (r, (d', s')) \<Longrightarrow>
   graph_inv d' \<and> later d d' \<and> refs_ok d' s' \<and> (fine \<longrightarrow> r = Inr ()) \<and> (r = Inr () \<longrightarrow> handled s' = handled s + n)"
  unfolding step_ok_def by blast

lemma refs_ok_later: "refs_ok d s \<Longrightarrow> later d d' \<Longrightarrow> refs_ok d' s"
  unfolding refs_ok_def using exists_row_later by blast

lemma lasting_refs [simp]: "lasting (\<lambda>d. refs_ok d s)"
  by (auto simp: lasting_def intro: refs_ok_later)

lemma step_weaken: "step_ok P n fine m \<Longrightarrow> (\<And>d. Q d \<Longrightarrow> P d) \<Longrightarrow> step_ok Q n fine m"
  unfolding step_ok_def by blast

lemma step_ret: "step_ok P 0 fine (ret ())"
  by (rule step_okI) auto

lemma step_tally:
  "(\<And>d s. P d \<Longrightarrow> refs_ok d s \<Longrightarrow> refs_ok d (f s) \<and> handled (f s) = handled s + n) \<Longrightarrow> step_ok P n fine (tally f)"
  by (rule step_okI) (auto simp: tally_def)

lemma step_bnd:
  assumes P: "lasting P" and m: "step_ok P n fine m" and f: "step_ok P k fine m2"
  shows "step_ok P (n + k) fine (bnd m (\<lambda>_. m2))"
proof (rule step_okI)
  fix d s r d' s' assume pre: "graph_inv d" "refs_ok d s" "P d" and run: "bnd m (\<lambda>_. m2) (d, s) = (r, (d', s'))"
  obtain r1 d1 s1 where s1: "m (d, s) = (r1, (d1, s1))" by (cases "m (d, s)") auto
  note o1 = step_okD [OF m pre s1]
  show "graph_inv d' \<and> later d d' \<and> refs_ok d' s' \<and> (fine \<longrightarrow> r = Inr ()) \<and> (r = Inr () \<longrightarrow> handled s' = handled s + (n + k))"
  proof (cases r1)
    case (Inl e) with run s1 o1 show ?thesis by auto
  next
    case (Inr x)
    have "P d1" using o1 P pre(3) unfolding lasting_def by blast
    moreover from run s1 Inr have "m2 (d1, s1) = (r, (d', s'))" by simp
    ultimately have "graph_inv d' \<and> later d1 d' \<and> refs_ok d' s' \<and> (fine \<longrightarrow> r = Inr ()) \<and> (r = Inr () \<longrightarrow> handled s' = handled s1 + k)"
      using step_okD [OF f, of d1 s1 r d' s'] o1 by blast
    with o1 Inr show ?thesis by (auto intro: later_trans)
  qed
qed

lemma step_for_each:
  "lasting P \<Longrightarrow> (\<And>x. x \<in> set xs \<Longrightarrow> step_ok P n fine (f x)) \<Longrightarrow> step_ok P (n * length xs) fine (for_each f xs)"
proof (induction xs)
  case (Cons x xs)
  then have "step_ok P n fine (f x)" "step_ok P (n * length xs) fine (for_each f xs)" by auto
  from step_bnd [OF Cons.prems(1) this] show ?case by simp
qed (simp add: step_ret)

lemma step_with:
  assumes "\<And>s. step_ok (\<lambda>d. P d \<and> refs_ok d s) n fine (h s)"
  shows "step_ok P n fine (with_tally h)"
proof (rule step_okI)
  fix d s r d' s' assume "graph_inv d" "refs_ok d s" "P d" "with_tally h (d, s) = (r, (d', s'))"
  then show "graph_inv d' \<and> later d d' \<and> refs_ok d' s' \<and> (fine \<longrightarrow> r = Inr ()) \<and> (r = Inr () \<longrightarrow> handled s' = handled s + n)"
    using step_okD [OF assms, of d s s r d' s'] by (simp add: with_tally_def)
qed

lemma step_store:
  assumes P: "lasting P" and m: "sound id P m R" and ret: "fine \<Longrightarrow> returns id P m"
    and k: "\<And>x. step_ok (\<lambda>d. P d \<and> R x d) n fine (k x)"
  shows "step_ok P n fine (bnd (on_fst m) k)"
proof (rule step_okI)
  fix d s r d' s' assume pre: "graph_inv d" "refs_ok d s" "P d" and run: "bnd (on_fst m) k (d, s) = (r, (d', s'))"
  obtain r1 d1 where d1: "m d = (r1, d1)" by (cases "m d")
  have o1: "graph_inv d1" "later d d1" "\<And>x. r1 = Inr x \<Longrightarrow> R x d1" using soundD [OF m, of d r1 d1] pre d1 by auto
  then have refs: "refs_ok d1 s" "P d1" using pre refs_ok_later P unfolding lasting_def by blast+
  show "graph_inv d' \<and> later d d' \<and> refs_ok d' s' \<and> (fine \<longrightarrow> r = Inr ()) \<and> (r = Inr () \<longrightarrow> handled s' = handled s + n)"
  proof (cases r1)
    case (Inl e)
    with ret d1 pre have "\<not> fine" by (fastforce simp: returns_def)
    with run d1 Inl o1 refs show ?thesis by (auto simp: on_fst_def)
  next
    case (Inr x)
    with run d1 have "k x (d1, s) = (r, (d', s'))" by (simp add: on_fst_def)
    from step_okD [OF k o1(1) refs(1) _ this] refs(2) o1(3) [OF Inr] o1(2) show ?thesis by (auto intro: later_trans)
  qed
qed

lemma step_attempt:
  assumes P: "lasting P" and m: "sound id P m R" and k: "\<And>x. step_ok (\<lambda>d. P d \<and> R x d) n fine (k (Some x))"
    and none: "step_ok P n fine (k None)"
  shows "step_ok P n fine (bnd (attempt (on_fst m)) k)"
proof (rule step_okI)
  fix d s r d' s' assume pre: "graph_inv d" "refs_ok d s" "P d" and run: "bnd (attempt (on_fst m)) k (d, s) = (r, (d', s'))"
  obtain r1 d1 where d1: "m d = (r1, d1)" by (cases "m d")
  have o1: "graph_inv d1" "later d d1" "\<And>x. r1 = Inr x \<Longrightarrow> R x d1" using soundD [OF m, of d r1 d1] pre d1 by auto
  then have refs: "refs_ok d1 s" "P d1" using pre refs_ok_later P unfolding lasting_def by blast+
  show "graph_inv d' \<and> later d d' \<and> refs_ok d' s' \<and> (fine \<longrightarrow> r = Inr ()) \<and> (r = Inr () \<longrightarrow> handled s' = handled s + n)"
  proof (cases r1)
    case (Inl e)
    with run d1 have "k None (d1, s) = (r, (d', s'))" by (simp add: attempt_def catch_def on_fst_def)
    from step_okD [OF none o1(1) refs this] o1(2) show ?thesis by (auto intro: later_trans)
  next
    case (Inr x)
    with run d1 have "k (Some x) (d1, s) = (r, (d', s'))" by (simp add: attempt_def catch_def on_fst_def)
    from step_okD [OF k o1(1) refs(1) _ this] refs(2) o1(3) [OF Inr] o1(2) show ?thesis by (auto intro: later_trans)
  qed
qed

section \<open>Setting attributes\<close>

lemma set_attr_keys [simp]:
  "ta_id (set_account kv r) = ta_id r" "ta_telegram_id (set_account kv r) = ta_telegram_id r"
  "tc_id (set_chat kv c) = tc_id c" "tc_telegram_id (set_chat kv c) = tc_telegram_id c"
  "ea_id (set_external kv x) = ea_id x" "ea_platform (set_external kv x) = ea_platform x" "ea_norm (set_external kv x) = ea_norm x"
  "un_id (set_username kv u) = un_id u" "un_platform (set_username kv u) = un_platform u" "un_norm (set_username kv u) = un_norm u"
  "dm_id (set_domain kv m) = dm_id m" "dm_norm (set_domain kv m) = dm_norm m"
  "ur_id (set_url kv l) = ur_id l" "ur_hash (set_url kv l) = ur_hash l"
  "ip_id (set_ip kv a) = ip_id a" "ip_address (set_ip kv a) = ip_address a"
  "ioc_id (set_ioc kv j) = ioc_id j" "ioc_ty (set_ioc kv j) = ioc_ty j" "ioc_norm (set_ioc kv j) = ioc_norm j"
  "ioc_linked (set_ioc kv j) = ioc_linked j"
  by (simp_all add: set_account_def set_chat_def set_external_def set_username_def set_domain_def set_url_def
      set_ip_def set_ioc_def Let_def)

lemma fold_same: "(\<And>x r. f (g x r) = f r) \<Longrightarrow> f (fold g xs r) = f r"
  by (induction xs arbitrary: r) simp_all

lemma map_update_same: "(\<And>x r. f (g x r) = f r) \<Longrightarrow> map f (update_where p (fold g xs) t) = map f t"
  by (simp add: update_where_def fold_same)

lemma map_filter_update_same:
  "(\<And>x r. f (g x r) = f r) \<Longrightarrow> List.map_filter f (update_where p (fold g xs) t) = List.map_filter f t"
  by (induction t) (auto simp: update_where_def List.map_filter_simps fold_same split: option.split)

lemma ids_ok_update_same: "(\<And>x r. f (g x r) = f r) \<Longrightarrow> ids_ok f (update_where p (fold g xs) t) n = ids_ok f t n"
  unfolding ids_ok_map by (simp only: map_update_same)

lemma apply_attributes_store:
  assumes "store_ok d"
  shows "store_ok (apply_attributes et i attrs d) \<and> rows_of (apply_attributes et i attrs d) = rows_of d"
  using assms
  by (cases et) (simp_all add: apply_attributes_def store_ok_def rows_of_def map_update_same map_filter_update_same
      ids_ok_update_same uq_username_def uq_external_account_def uq_domain_def uq_url_def uq_ip_def uq_ioc_def
      uq_telegram_account_def uq_telegram_chat_def)

lemma apply_attributes_sound: "sound id P (\<lambda>d. (Inr (), apply_attributes et i attrs d)) (\<lambda>_ _. True)"
proof (rule soundI)
  fix d r d' assume inv: "graph_inv (id d)" and "(Inr (), apply_attributes et i attrs d) = (r, d')"
  then have d': "d' = apply_attributes et i attrs d" and ok: "store_ok d" "linked d" by (simp_all add: graph_inv_def)
  note s = apply_attributes_store [OF ok(1), of et i attrs, folded d']
  then have later: "later d d'" by (intro later_same) simp
  have "linked d'"
  proof (rule linkedI [OF ok(2) later])
    fix x e assume "x \<in> set (iocs d')" "ioc_linked x = Some e"
    then show "(\<exists>i0 \<in> set (iocs d). ioc_linked i0 = Some e) \<or> exists_row d' e"
      unfolding d' by (cases et) (auto simp: apply_attributes_def update_where_def fold_same split: if_splits)
  qed (unfold d', cases et; simp add: apply_attributes_def; blast)+
  with s later show "graph_inv (id d') \<and> later (id d) (id d') \<and> (\<forall>x. r = Inr x \<longrightarrow> True)"
    by (simp add: graph_inv_def)
qed

section \<open>The passes are sound\<close>

lemma with_id_sound:
  "lasting P \<Longrightarrow> sound id P m (\<lambda>x d. exists_row d (et, rid (fst x))) \<Longrightarrow> sound id P (with_id rid m) (\<lambda>x d. exists_row d (et, fst x))"
  unfolding with_id_def by (rule sound_bnd) (auto intro: sound_ret)

lemma dispatch_sound:
  "lasting P \<Longrightarrow> sound id P (dispatch_get_or_create sha r) (\<lambda>x d. exists_row d (nr_entity_type r, fst x))"
  unfolding dispatch_get_or_create_def Let_def
  by (auto intro!: with_id_sound telegram_sound sound_throw sound_bnd [OF _ sound_liftE] username_sound domain_sound
      url_sound ip_sound ioc_sound external_sound split: option.split)

definition record_fine :: "normalized_record \<Rightarrow> bool" where
  "record_fine r \<longleftrightarrow> list_all (\<lambda>k. pred_option text_fine (text_attr k (nr_attributes r))) [''bio'', ''description'', ''text'']"

lemma refs_add_enriched [simp]: "refs_ok d (add_enriched es s) = refs_ok d s" "handled (add_enriched es s) = handled s"
  by (simp_all add: refs_ok_def handled_def add_enriched_def)

lemma blurb_step:
  "f \<in> {''bio'', ''description''} \<Longrightarrow>
   step_ok (\<lambda>d. exists_row d (nr_entity_type r, i)) 0 (record_fine r) (enrich_blurb sha dumps r i f)"
  unfolding enrich_blurb_def
  by (auto split!: option.split intro!: step_ret step_store [OF _ enrich_entity_text_sound enrich_entity_text_returns] step_tally
      simp: record_fine_def)

lemma skip_step: "step_ok P (Suc 0) fine (tally (skip_ref ref))"
  by (rule step_tally) (auto simp: skip_ref_def refs_ok_def handled_def)

lemma set_alist_update: "x \<in> set (AList.update k v xs) \<Longrightarrow> x = (k, v) \<or> x \<in> set xs"
  by (induction xs) (auto split: if_splits)

lemma resolve_step: "(\<And>d. P d \<Longrightarrow> exists_row d e) \<Longrightarrow> step_ok P (Suc 0) fine (tally (resolve_ref ref e created))"
  by (rule step_tally) (auto simp: resolve_ref_def refs_ok_def handled_def dest!: set_alist_update)

lemma entity_step: "step_ok (\<lambda>_. True) 1 (record_fine r) (ingest_entity sha dumps r)"
proof -
  let ?e = "\<lambda>i. (nr_entity_type r, i)"
  have blurbs: "step_ok (\<lambda>d. exists_row d (?e i)) 0 (record_fine r) (for_each (enrich_blurb sha dumps r i) [''bio'', ''description''])" for i
    using step_for_each [where n = 0, OF lasting_exists [of "?e i"]] blurb_step by (metis list.set_intros mult_0 set_simps(1,2))
  have found: "step_ok (\<lambda>d. exists_row d (?e i)) 1 (record_fine r)
      (bnd (on_fst (\<lambda>d. (Inr (), apply_attributes (nr_entity_type r) i (nr_attributes r) d))) (\<lambda>_.
       bnd (tally (resolve_ref (nr_ref r) (?e i) created)) (\<lambda>_.
       for_each (enrich_blurb sha dumps r i) [''bio'', ''description''])))" for i created
    using step_bnd [OF lasting_exists resolve_step blurbs]
    by (intro step_store [OF lasting_exists apply_attributes_sound]) (simp_all add: returns_def)
  show ?thesis unfolding ingest_entity_def
    by (rule step_attempt [OF lasting_const dispatch_sound [OF lasting_const]])
       (use found skip_step in \<open>auto simp: split_def simp del: for_each.simps\<close>)
qed

lemma filter_singletonD: "filter p xs = [x] \<Longrightarrow> x \<in> set xs"
  using filter_is_subset [of p xs] by simp

lemma container_exists:
  assumes "refs_ok d s" and "container_of r s = Some c"
  shows "exists_row d c"
proof -
  have "c \<in> snd ` set (in_resolved s)"
    using assms(2) unfolding container_of_def Let_def
    by (auto split: option.splits list.splits dest!: filter_singletonD) (force dest: map_of_SomeD)+
  with assms(1) show ?thesis unfolding refs_ok_def by auto
qed

lemma message_step: "step_ok (\<lambda>_. True) 1 (record_fine r) (ingest_message sha dumps r)"
proof -
  let ?text = "\<lambda>i. case text_attr ''text'' (nr_attributes r) of None \<Rightarrow> ret ()
      | Some text \<Rightarrow> bnd (on_fst (enrich_message sha dumps i text (provenance_of r (text_attr ''source_url'' (nr_attributes r))
            (case nr_evidence r of [] \<Rightarrow> None | ev # _ \<Rightarrow> dr_observed_at ev)))) (\<lambda>es. tally (add_enriched es))"
  have texts: "step_ok (\<lambda>d. exists_row d (E_MESSAGE, i)) 0 (record_fine r) (?text i)" for i
    by (auto split!: option.split intro!: step_ret step_store [OF _ enrich_message_sound enrich_message_returns] step_tally
        simp: record_fine_def)
  have stored: "step_ok (\<lambda>d. exists_row d (E_MESSAGE, i)) (1 + 0) (record_fine r)
      (bnd (tally (resolve_ref ref (E_MESSAGE, i) created)) (\<lambda>_. ?text i))" for i ref created
    by (rule step_bnd [OF lasting_exists _ texts], unfold One_nat_def, rule resolve_step)
  have store: "step_ok (\<lambda>d. exists_row d c) 1 (record_fine r) (store_message sha dumps r c)" for c
  proof -
    have "sound id (\<lambda>d. exists_row d c)
        (bnd (liftE (message_number r)) (\<lambda>mid. message_upsert (fst c) (snd c) mid (List.map_filter msg_field_of (nr_attributes r))))
        (\<lambda>x d. exists_row d (E_MESSAGE, ms_id (fst x)))"
      by (rule sound_bnd [OF _ sound_liftE]) (auto intro: sound_weaken [OF message_sound [where P = "\<lambda>_. True"]])
    then show ?thesis unfolding store_message_def
      by (rule step_attempt [OF lasting_exists])
         (use skip_step in \<open>auto simp: split_def intro: step_weaken [OF stored, simplified]\<close>)
  qed
  show ?thesis unfolding ingest_message_def
    by (rule step_with) (auto split: option.split intro: step_weaken [OF store, simplified] container_exists step_weaken [OF skip_step])
qed

lemma refs_add_count [simp]:
  "refs_ok d (s\<lparr>in_evidence := n\<rparr>) = refs_ok d s" "handled (s\<lparr>in_evidence := n\<rparr>) = handled s"
  "refs_ok d (s\<lparr>in_edges := n\<rparr>) = refs_ok d s" "handled (s\<lparr>in_edges := n\<rparr>) = handled s"
  by (simp_all add: refs_ok_def handled_def)

lemma refs_lookup: "refs_ok d s \<Longrightarrow> map_of (in_resolved s) ref = Some e \<Longrightarrow> exists_row d e"
  unfolding refs_ok_def by (force dest: map_of_SomeD)

lemma evidence_step: "step_ok (\<lambda>_. True) 0 fine (ingest_evidence sha dumps dr)"
proof -
  have found: "step_ok (\<lambda>d. exists_row d e) 0 fine (bnd (attempt (on_fst (record_evidence sha dumps (fst e) (snd e) (draft_evidence dr)))) (\<lambda>x.
      case x of None \<Rightarrow> ret () | Some y \<Rightarrow> tally (\<lambda>s. s\<lparr>in_evidence := in_evidence s + (if snd y then 1 else 0)\<rparr>)))" for e
    by (rule step_attempt [OF lasting_exists sound_weaken [OF record_evidence_sound [where P = "\<lambda>_. True"]]])
       (auto intro: step_ret step_tally)
  show ?thesis unfolding ingest_evidence_def
  proof (rule step_with)
    fix s
    show "step_ok (\<lambda>d. True \<and> refs_ok d s) 0 fine (case map_of (in_resolved s) (dr_ref dr) of None \<Rightarrow> ret ()
      | Some e \<Rightarrow> bnd (attempt (on_fst (record_evidence sha dumps (fst e) (snd e) (draft_evidence dr)))) (\<lambda>x.
          case x of None \<Rightarrow> ret () | Some y \<Rightarrow> tally (\<lambda>s. s\<lparr>in_evidence := in_evidence s + (if snd y then 1 else 0)\<rparr>)))"
    proof (cases "map_of (in_resolved s) (dr_ref dr)")
      case (Some e)
      with step_weaken [OF found [of e]] refs_lookup show ?thesis by simp
    qed (simp add: step_ret)
  qed
qed

lemma edge_step: "step_ok (\<lambda>_. True) 0 fine (ingest_edge rd)"
proof -
  have found: "step_ok (\<lambda>d. exists_row d src \<and> exists_row d tgt) 0 fine (bnd (attempt (on_fst (observe src tgt (rd_type rd) (rd_confidence rd) None []))) (\<lambda>x.
      case x of None \<Rightarrow> ret () | Some y \<Rightarrow> tally (\<lambda>s. s\<lparr>in_edges := in_edges s + (if snd y then 1 else 0)\<rparr>)))" for src tgt
    by (rule step_attempt [OF _ sound_weaken [OF observe_sound [where P = "\<lambda>_. True"]]])
       (auto intro: step_ret step_tally)
  show ?thesis unfolding ingest_edge_def
    by (rule step_with) (auto split: option.split intro: step_ret step_weaken [OF found, simplified] refs_lookup)
qed

definition batch_fine :: "collect_result \<Rightarrow> bool" where
  "batch_fine res \<longleftrightarrow> list_all record_fine (co_records res)"

lemma step_fewer: "step_ok P n fine m \<Longrightarrow> (fine' \<Longrightarrow> fine) \<Longrightarrow> step_ok P n fine' m"
  unfolding step_ok_def by blast

lemma ingest_all_step: "step_ok (\<lambda>_. True) (length (co_records res)) (batch_fine res) (ingest_all sha dumps res)"
proof -
  let ?es = "filter (\<lambda>r. nr_entity_type r \<noteq> E_MESSAGE) (co_records res)"
  let ?ms = "filter (\<lambda>r. nr_entity_type r = E_MESSAGE) (co_records res)"
  have fine: "batch_fine res \<Longrightarrow> r \<in> set (co_records res) \<Longrightarrow> record_fine r" for r
    by (simp add: batch_fine_def list_all_iff)
  have steps: "step_ok (\<lambda>_. True) (1 * length ?es) (batch_fine res) (for_each (ingest_entity sha dumps) ?es)"
    "step_ok (\<lambda>_. True) (1 * length ?ms) (batch_fine res) (for_each (ingest_message sha dumps) ?ms)"
    "step_ok (\<lambda>_. True) (0 * length (concat (map nr_evidence (co_records res)))) (batch_fine res)
       (for_each (ingest_evidence sha dumps) (concat (map nr_evidence (co_records res))))"
    "step_ok (\<lambda>_. True) (0 * length (co_relationships res)) (batch_fine res) (for_each ingest_edge (co_relationships res))"
    by (rule step_for_each, simp, rule step_fewer [OF entity_step], rule fine, assumption, simp)
       (rule step_for_each, simp, rule step_fewer [OF message_step], rule fine, assumption, simp,
        rule step_for_each, simp, rule evidence_step, rule step_for_each, simp, rule edge_step)
  have "length ?es + length ?ms = length (co_records res)"
    using sum_length_filter_compl [of "\<lambda>r. nr_entity_type r = E_MESSAGE" "co_records res"] by simp
  with step_bnd [OF lasting_const steps(1) step_bnd [OF lasting_const steps(2) step_bnd [OF lasting_const steps(3,4)]]]
  show ?thesis unfolding ingest_all_def by (simp add: step_ret)
qed

lemma ingest_run:
  assumes "graph_inv d" and "ingest sha dumps res d = (r, d')"
  obtains r1 s where "ingest_all sha dumps res (d, empty_ingest) = (r1, (d', s))" and "r = map_sum id (\<lambda>_. s) r1"
    and "graph_inv d'" and "later d d'" and "refs_ok d' s" and "batch_fine res \<Longrightarrow> r1 = Inr ()"
    and "r1 = Inr () \<Longrightarrow> handled s = length (co_records res)"
proof -
  obtain r1 d1 s where run: "ingest_all sha dumps res (d, empty_ingest) = (r1, (d1, s))"
    by (cases "ingest_all sha dumps res (d, empty_ingest)") auto
  with assms(2) have r: "d1 = d'" "r = map_sum id (\<lambda>_. s) r1" by (auto simp: ingest_def split: sum.splits)
  from step_okD [OF ingest_all_step assms(1) _ _ run] that run r show thesis
    by (simp add: refs_ok_def empty_ingest_def handled_def)
qed

section \<open>Properties\<close>



text \<open>
  A channel, a message in it that mentions an account, and an IOC without a type: three records.
\<close>

definition sample_batch :: collect_result where
  "sample_batch = \<lparr>co_source = ''telegram'', co_ok = True,
     co_records =
       [\<lparr>nr_ref = ''c'', nr_entity_type = E_TELEGRAM_CHANNEL, nr_natural_key = [(''telegram_id'', JInt 5)],
         nr_attributes = [(''title'', JStr ''News'')], nr_evidence = []\<rparr>,
        \<lparr>nr_ref = ''m'', nr_entity_type = E_MESSAGE, nr_natural_key = [(''message_id'', JInt 7)],
         nr_attributes = [(''text'', JStr ''@alice''), (''_container_ref'', JStr ''c'')], nr_evidence = []\<rparr>,
        \<lparr>nr_ref = ''i'', nr_entity_type = E_IOC, nr_natural_key = [], nr_attributes = [], nr_evidence = []\<rparr>],
     co_relationships = [], co_partial = False, co_error = None, co_notes = []\<rparr>"

definition sample_report :: "exn + ingest_summary \<Rightarrow> bool" where
  "sample_report r = (case r of Inl _ \<Rightarrow> False | Inr s \<Rightarrow>
     in_resolved s = [(''c'', E_TELEGRAM_CHANNEL, 0), (''m'', E_MESSAGE, 1)] \<and> in_skipped s = [''i''] \<and> in_edges s = 2)"

lemma sample_batch_run: "sample_report (fst (ingest id (\<lambda>_. []) sample_batch empty_db))"
  by code_simp


lemma sample_batch_fine: "batch_fine sample_batch"
proof -
  have "text_fine ''@alice''"
    unfolding text_fine_def alice_extracted by code_simp
  then show ?thesis by (simp add: batch_fine_def sample_batch_def record_fine_def text_attr_def)
qed


text \<open>
  The Telegram collector names the author of a message in \<open>author_id\<close>, which is no column of the
  message table: every new message with an author is skipped.
\<close>

definition authored_batch :: collect_result where
  "authored_batch = sample_batch\<lparr>co_records := map (\<lambda>r. if nr_ref r = ''m''
     then r\<lparr>nr_attributes := (''author_id'', JInt 9) # nr_attributes r\<rparr> else r) (co_records sample_batch)\<rparr>"

lemma authored_message_skipped:
  "map_sum id in_skipped (fst (ingest id (\<lambda>_. []) authored_batch empty_db)) = Inr [''i'', ''m'']"
  by code_simp

end
