(* ===== verification/Monitor.thy ===== *)
theory Monitor
  imports Ingest Workspace Runner
begin

text \<open>
  \<open>workers/scheduler.py\<close> and \<open>intelligence/monitoring.py\<close>: which watches are due, one job per due
  watch, and the poll a job runs: collect, ingest, report what is newer than the watch's marker.
  What the collectors return is a parameter. The marker is kept as the JSON object its text holds.
\<close>

section \<open>Scheduling\<close>

definition due :: "int \<Rightarrow> time \<Rightarrow> watchlist \<Rightarrow> bool" where
  "due interval t w \<longleftrightarrow> w_is_active w \<and> (case w_last_checked_at w of None \<Rightarrow> True | Some c \<Rightarrow> c < t - interval)"

definition due_limit :: nat where
  "due_limit = 200"

definition due_watchlist_ids :: "int \<Rightarrow> db \<Rightarrow> uid list" where
  "due_watchlist_ids interval d = take due_limit (map w_id (filter (due interval (now d)) (watchlists d)))"

definition stamp :: "time \<Rightarrow> watchlist \<Rightarrow> watchlist" where
  "stamp t w = w\<lparr>w_last_checked_at := Some t\<rparr>"

definition mark_scheduled :: "uid \<Rightarrow> (db, unit) action" where
  "mark_scheduled wid d =
     (Inr (), case get_by_id w_id (watchlists d) wid of
                None \<Rightarrow> d
              | Some w \<Rightarrow> put_watch (stamp (now d) w) d)"

definition watch_params :: "uid \<Rightarrow> json" where
  "watch_params wid = JObj [(''watchlist_id'', JInt (int wid))]"

definition schedule_one :: "uid \<Rightarrow> (db, uid) action" where
  "schedule_one wid =
     bnd (job_create ''watch_poll'' (Some (watch_params wid)) None 3) (\<lambda>j.
     bnd (mark_scheduled wid) (\<lambda>_. ret (job_id j)))"

primrec schedule_each :: "uid list \<Rightarrow> (db, uid list) action" where
  "schedule_each [] = ret []"
| "schedule_each (w # ws) = bnd (schedule_one w) (\<lambda>j. bnd (schedule_each ws) (\<lambda>js. ret (j # js)))"

text \<open>
  The rows are committed before the queue sees the ids; \<open>enq\<close> may raise (a Redis server that is
  down), and then the remaining ids are never enqueued.
\<close>

definition schedule_due_watches ::
  "(uid \<Rightarrow> 'q \<Rightarrow> exn + 'q) \<Rightarrow> int \<Rightarrow> (db \<times> 'q, nat) action" where
  "schedule_due_watches enq interval st =
     (case session_scope (\<lambda>d. schedule_each (due_watchlist_ids interval d) d) (fst st) of
        (Inl e, d') \<Rightarrow> (Inl e, (d', snd st))
      | (Inr js, d') \<Rightarrow>
          (case foldE enq js (snd st) of
             Inl e \<Rightarrow> (Inl e, (d', snd st))
           | Inr q \<Rightarrow> (Inr (length js), (d', q))))"

section \<open>Polling\<close>

record activity =
  ac_source :: string
  ac_kind :: string
  ac_detail :: string
  ac_when :: "time option"
  ac_reference :: "string option"

record poll_result =
  po_watchlist_id :: uid
  po_target :: string
  po_activities :: "activity list"
  po_notes :: "string list"

type_synonym marker = "(string \<times> json) list"

definition marker_of :: "watchlist \<Rightarrow> exn + marker" where
  "marker_of w = (case w_marker w of None \<Rightarrow> Inr [] | Some (JObj m) \<Rightarrow> Inr m
     | Some _ \<Rightarrow> Inl (AttributeError ''object has no attribute get''))"

text \<open>\<open>int(marker.get("telegram_max_msg_id", 0))\<close>\<close>

definition seen_max :: "marker \<Rightarrow> exn + int" where
  "seen_max m =
     (case map_of m ''telegram_max_msg_id'' of
        None \<Rightarrow> Inr 0
      | Some (JInt i) \<Rightarrow> Inr i
      | Some (JBool b) \<Rightarrow> Inr (if b then 1 else 0)
      | Some (JStr s) \<Rightarrow> int_of_str s
      | Some _ \<Rightarrow> Inl (TypeError ''int() argument''))"

text \<open>The container a handle names: a channel, or else a group.\<close>

definition watched_container :: "string \<Rightarrow> db \<Rightarrow> exn + (entity_type \<times> uid) option" where
  "watched_container n d =
     (case scalar_one_or_none (\<lambda>c. tc_username_norm c = Some n) (telegram_channels d) of
        Inl e \<Rightarrow> Inl e
      | Inr (Some c) \<Rightarrow> Inr (Some (E_TELEGRAM_CHANNEL, tc_id c))
      | Inr None \<Rightarrow>
          (case scalar_one_or_none (\<lambda>c. tc_username_norm c = Some n) (telegram_groups d) of
             Inl e \<Rightarrow> Inl e
           | Inr x \<Rightarrow> Inr (map_option (\<lambda>c. (E_TELEGRAM_GROUP, tc_id c)) x)))"

definition container_label :: "entity_type \<Rightarrow> string" where
  "container_label et = (if et = E_TELEGRAM_CHANNEL then ''Public Channel'' else ''Public Group'')"

definition container_messages :: "entity_type \<times> uid \<Rightarrow> db \<Rightarrow> message list" where
  "container_messages c d =
     sort_key ms_message_id (filter (\<lambda>m. ms_source_type m = fst c \<and> ms_source_id m = snd c) (messages d))"

definition message_activity :: "string \<Rightarrow> message \<Rightarrow> activity" where
  "message_activity label m =
     \<lparr>ac_source = label, ac_kind = ''message'',
      ac_detail = take 200 (case ms_text m of Some (c # s) \<Rightarrow> c # s | _ \<Rightarrow> ''New public message detected.''),
      ac_when = ms_posted_at m, ac_reference = ms_source_url m\<rparr>"

text \<open>The loop over the messages: the highest id so far, and the activities so far.\<close>

definition report_message :: "int \<Rightarrow> string \<Rightarrow> message \<Rightarrow> int \<times> activity list \<Rightarrow> int \<times> activity list" where
  "report_message seen label m = (\<lambda>(mx, acts).
     if ms_message_id m \<le> seen then (mx, acts)
     else (max mx (ms_message_id m), acts @ [message_activity label m]))"

text \<open>The state of a poll: the marker and the result.\<close>

type_synonym polling = "(db \<times> marker \<times> poll_result, unit) action"

definition add_note :: "string \<Rightarrow> poll_result \<Rightarrow> poll_result" where
  "add_note n r = r\<lparr>po_notes := po_notes r @ [n]\<rparr>"

definition add_activities :: "activity list \<Rightarrow> poll_result \<Rightarrow> poll_result" where
  "add_activities as r = r\<lparr>po_activities := po_activities r @ as\<rparr>"

definition report_container :: "entity_type \<times> uid \<Rightarrow> db \<Rightarrow> marker \<times> poll_result \<Rightarrow> exn + marker \<times> poll_result" where
  "report_container c d = (\<lambda>(m, r).
     case seen_max m of
       Inl e \<Rightarrow> Inl e
     | Inr seen \<Rightarrow>
         (let (mx, acts) = fold (report_message seen (container_label (fst c))) (container_messages c d) (seen, [])
          in Inr (AList.update ''telegram_max_msg_id'' (JInt mx) m, add_activities acts r)))"

definition poll_telegram ::
  "(string \<Rightarrow> string) \<Rightarrow> (json \<Rightarrow> string) \<Rightarrow> exn + collect_result \<Rightarrow> string \<Rightarrow> polling" where
  "poll_telegram sha dumps collected handle =
     (case collected of
        Inl e \<Rightarrow> throw e
      | Inr res \<Rightarrow>
          (case co_error res of
             Some (c # msg) \<Rightarrow> tally (\<lambda>(m, r). (m, add_note (c # msg) r))
           | _ \<Rightarrow>
               bnd (on_fst (ingest sha dumps res)) (\<lambda>_.
               bnd (liftE (normalize_username handle)) (\<lambda>n.
               (\<lambda>(d, t). case watched_container n d of
                  Inl e \<Rightarrow> (Inl e, (d, t))
                | Inr None \<Rightarrow> (Inr (), (d, t))
                | Inr (Some c) \<Rightarrow>
                    (case report_container c d t of Inl e \<Rightarrow> (Inl e, (d, t)) | Inr t' \<Rightarrow> (Inr (), (d, t'))))))))"

text \<open>The platforms a collection found: the truthy \<open>platform\<close> keys of its external accounts.\<close>

definition platform_name :: "normalized_record \<Rightarrow> string option" where
  "platform_name r =
     (if nr_entity_type r \<noteq> E_EXTERNAL_ACCOUNT then None
      else (case map_of (nr_natural_key r) ''platform'' of
              Some (JStr (c # s)) \<Rightarrow> Some (c # s)
            | Some (JInt i) \<Rightarrow> if i = 0 then None else Some (show_int i)
            | _ \<Rightarrow> None))"

definition missing_platform :: "normalized_record \<Rightarrow> bool" where
  "missing_platform r \<longleftrightarrow> nr_entity_type r = E_EXTERNAL_ACCOUNT \<and> map_of (nr_natural_key r) ''platform'' = None"

definition known_platforms :: "marker \<Rightarrow> exn + string list" where
  "known_platforms m =
     (case map_of m ''platforms'' of
        None \<Rightarrow> Inr []
      | Some (JList l) \<Rightarrow> Inr (List.map_filter (\<lambda>x. case x of JStr s \<Rightarrow> Some s | _ \<Rightarrow> None) l)
      | Some (JStr s) \<Rightarrow> Inr (map (\<lambda>c. [c]) s)
      | Some (JObj kvs) \<Rightarrow> Inr (map fst kvs)
      | Some _ \<Rightarrow> Inl (TypeError ''object is not iterable''))"

definition capitalize :: "string \<Rightarrow> string" where
  "capitalize s = (case s of [] \<Rightarrow> [] | c # cs \<Rightarrow> upper [c] @ lower cs)"

definition platform_activity :: "string \<Rightarrow> activity" where
  "platform_activity p =
     \<lparr>ac_source = capitalize p, ac_kind = ''account'',
      ac_detail = ''New public account discovered for this handle on '' @ p @ ''.'', ac_when = None, ac_reference = None\<rparr>"

definition report_platforms :: "normalized_record list \<Rightarrow> marker \<times> poll_result \<Rightarrow> exn + marker \<times> poll_result" where
  "report_platforms recs = (\<lambda>(m, r).
     case known_platforms m of
       Inl e \<Rightarrow> Inl e
     | Inr known \<Rightarrow>
         if list_ex missing_platform recs then Inl (KeyError ''platform'')
         else (let found = List.map_filter platform_name recs;
                   fresh = sort (remdups (filter (\<lambda>p. p \<notin> set known) found))
               in Inr (AList.update ''platforms'' (JList (map JStr (sort (remdups (known @ found))))) m,
                       add_activities (map platform_activity fresh) r)))"

definition poll_username_platforms ::
  "(string \<Rightarrow> string) \<Rightarrow> (json \<Rightarrow> string) \<Rightarrow> (exn + collect_result) option \<Rightarrow> polling" where
  "poll_username_platforms sha dumps collected =
     (case collected of
        None \<Rightarrow> ret ()
      | Some (Inl e) \<Rightarrow> throw e
      | Some (Inr res) \<Rightarrow>
          (case co_error res of
             Some (c # msg) \<Rightarrow> tally (\<lambda>(m, r). (m, add_note (c # msg) r))
           | _ \<Rightarrow>
               bnd (on_fst (ingest sha dumps res)) (\<lambda>_.
               (\<lambda>(d, t). case report_platforms (co_records res) t of
                  Inl e \<Rightarrow> (Inl e, (d, t)) | Inr t' \<Rightarrow> (Inr (), (d, t'))))))"

definition handle_of :: "watchlist \<Rightarrow> exn + string" where
  "handle_of w = normalize_username (if w_norm w = [] then w_value w else w_norm w)"

definition store_marker :: "uid \<Rightarrow> marker \<Rightarrow> db \<Rightarrow> db" where
  "store_marker wid m d = d\<lparr>watchlists := update_where (\<lambda>w. w_id w = wid)
     (\<lambda>w. w\<lparr>w_marker := Some (JObj m), w_last_checked_at := Some (now d)\<rparr>) (watchlists d)\<rparr>"

definition poll ::
  "(string \<Rightarrow> string) \<Rightarrow> (json \<Rightarrow> string) \<Rightarrow> exn + collect_result \<Rightarrow> (exn + collect_result) option \<Rightarrow>
   watchlist \<Rightarrow> (db, poll_result) action" where
  "poll sha dumps telegram platforms w d =
     (case handle_of w of
        Inl e \<Rightarrow> (Inl e, d)
      | Inr handle \<Rightarrow>
     (case marker_of w of
        Inl e \<Rightarrow> (Inl e, d)
      | Inr m \<Rightarrow>
     (case bnd (poll_telegram sha dumps telegram handle) (\<lambda>_. poll_username_platforms sha dumps platforms)
             (d, m, \<lparr>po_watchlist_id = w_id w, po_target = CHR ''@'' # handle, po_activities = [], po_notes = []\<rparr>) of
        (Inl e, (d', _)) \<Rightarrow> (Inl e, d')
      | (Inr _, (d', m', r)) \<Rightarrow> (Inr r, store_marker (w_id w) m' d'))))"

section \<open>The job handler\<close>

definition watch_id_of :: "json \<Rightarrow> exn + uid" where
  "watch_id_of params = (case json_get ''watchlist_id'' params of
     Some (JInt i) \<Rightarrow> Inr (nat i) | _ \<Rightarrow> Inl (KeyError ''watchlist_id''))"

definition activity_note :: "(poll_result \<Rightarrow> string) \<Rightarrow> watchlist \<Rightarrow> poll_result \<Rightarrow> db \<Rightarrow> notification option" where
  "activity_note render w r d =
     (if po_activities r = [] then None
      else (case get_by_id u_id (users d) (w_user_id w) of
              None \<Rightarrow> None
            | Some u \<Rightarrow> map_option (\<lambda>i. \<lparr>nt_chat_id = JInt i, nt_text = render r, nt_parse_mode = Some ''Markdown''\<rparr>) (u_telegram_user_id u)))"

definition run_watch_poll ::
  "(string \<Rightarrow> string) \<Rightarrow> (json \<Rightarrow> string) \<Rightarrow> (poll_result \<Rightarrow> string) \<Rightarrow> exn + collect_result \<Rightarrow>
   (exn + collect_result) option \<Rightarrow> json \<Rightarrow> (db, outcome) action" where
  "run_watch_poll sha dumps render telegram platforms params d =
     (case watch_id_of params of
        Inl e \<Rightarrow> (Inl e, d)
      | Inr wid \<Rightarrow>
     (case get_by_id w_id (watchlists d) wid of
        None \<Rightarrow> (Inr \<lparr>oc_summary = JObj [(''skipped'', JBool True)], oc_notification = None\<rparr>, d)
      | Some w \<Rightarrow>
          if \<not> w_is_active w
          then (Inr \<lparr>oc_summary = JObj [(''skipped'', JBool True)], oc_notification = None\<rparr>, d)
          else (case poll sha dumps telegram platforms w d of
             (Inl e, d') \<Rightarrow> (Inl e, d')
           | (Inr r, d') \<Rightarrow>
               (Inr \<lparr>oc_summary = JObj [(''activities'', JInt (int (length (po_activities r)))),
                                        (''notes'', JList (map JStr (po_notes r)))],
                     oc_notification = activity_note render w r d'\<rparr>, d'))))"

text \<open>A poll on request (\<open>apps/api/routers/watchlist.py\<close>), for the owner of the watch only.\<close>

definition api_poll_now ::
  "(string \<Rightarrow> string) \<Rightarrow> (json \<Rightarrow> string) \<Rightarrow> exn + collect_result \<Rightarrow> (exn + collect_result) option \<Rightarrow>
   principal \<Rightarrow> uid \<Rightarrow> (db, poll_result) action" where
  "api_poll_now sha dumps telegram platforms p wid = session_scope (bnd (resolve_user p) (\<lambda>u d.
     case watch_get (u_id u) d wid of
       Inl e \<Rightarrow> (Inl e, d)
     | Inr None \<Rightarrow> (Inl (HTTPException 404 ''watch not found''), d)
     | Inr (Some w) \<Rightarrow> poll sha dumps telegram platforms w d))"

text \<open>The runner's periodic call: a tick that raises is logged.\<close>

definition maybe_tick :: "('s \<Rightarrow> (exn + nat) \<times> 's) option \<Rightarrow> real \<Rightarrow> real \<Rightarrow> real \<times> 's \<Rightarrow> real \<times> 's" where
  "maybe_tick on_tick interval t = (\<lambda>(last_tick, s).
     case on_tick of
       None \<Rightarrow> (last_tick, s)
     | Some tick \<Rightarrow> if t - last_tick < interval then (last_tick, s) else (t, snd (tick s)))"

section \<open>What a tick does\<close>

definition all_due :: "int \<Rightarrow> db \<Rightarrow> uid list" where
  "all_due interval d = map w_id (filter (due interval (now d)) (watchlists d))"

definition watch_job :: "uid \<Rightarrow> db \<Rightarrow> uid \<Rightarrow> job" where
  "watch_job wid d i = new_job ''watch_poll'' (Some (watch_params wid)) None 3 d i"

definition stamp_all :: "uid list \<Rightarrow> time \<Rightarrow> watchlist list \<Rightarrow> watchlist list" where
  "stamp_all ids t ws = update_where (\<lambda>w. w_id w \<in> set ids) (stamp t) ws"

lemma stamp_id [simp]: "w_id (stamp t w) = w_id w"
  by (simp add: stamp_def)

lemma stamp_twice [simp]: "stamp t (stamp t w) = stamp t w"
  by (simp add: stamp_def)

lemma map_id_stamp_all [simp]: "map w_id (stamp_all ids t ws) = map w_id ws"
  by (simp add: stamp_all_def update_where_def)

lemma mark_scheduled_run:
  assumes "distinct (map w_id (watchlists d))"
  shows "mark_scheduled wid d = (Inr (), d\<lparr>watchlists := stamp_all [wid] (now d) (watchlists d)\<rparr>)"
proof (cases "get_by_id w_id (watchlists d) wid")
  case None
  then have "\<And>r. r \<in> set (watchlists d) \<Longrightarrow> w_id r \<noteq> wid" unfolding get_by_id_None by blast
  then have "stamp_all [wid] (now d) (watchlists d) = watchlists d"
    unfolding stamp_all_def update_where_def by (intro map_idI) simp
  moreover have "d\<lparr>watchlists := watchlists d\<rparr> = d" by (cases d) simp
  ultimately show ?thesis unfolding mark_scheduled_def None by (simp only: option.case)
next
  case (Some w)
  from get_by_id_Some [OF Some] have w: "w \<in> set (watchlists d)" "w_id w = wid" by simp_all
  have "update_where (\<lambda>x. w_id x = wid) (\<lambda>_. stamp (now d) w) (watchlists d) = stamp_all [wid] (now d) (watchlists d)"
    unfolding stamp_all_def update_where_def
  proof (rule map_cong [OF refl])
    fix x assume x: "x \<in> set (watchlists d)"
    have "x = w" if "w_id x = wid" using inj_onD [of w_id "set (watchlists d)" x w] assms x w that by (simp add: distinct_map)
    then show "(if w_id x = wid then stamp (now d) w else x) = (if w_id x \<in> set [wid] then stamp (now d) x else x)" by auto
  qed
  with Some w(2) show ?thesis by (simp add: mark_scheduled_def put_watch_def)
qed

lemma watch_job_create:
  "job_create ''watch_poll'' (Some (watch_params wid)) None 3 d =
   (Inr (watch_job wid d (next_id d)), d\<lparr>jobs := jobs d @ [watch_job wid d (next_id d)], next_id := Suc (next_id d)\<rparr>)"
  by (cases d) (simp add: job_create_def add_row_def watch_job_def Let_def)

lemma watch_job_id [simp]: "job_id (watch_job wid d i) = i"
  by (simp add: watch_job_def new_job_def)

lemma schedule_one_run:
  assumes "distinct (map w_id (watchlists d))"
  shows "schedule_one wid d = (Inr (next_id d), d\<lparr>jobs := jobs d @ [watch_job wid d (next_id d)],
     next_id := Suc (next_id d), watchlists := stamp_all [wid] (now d) (watchlists d)\<rparr>)"
  using mark_scheduled_run [of "d\<lparr>jobs := jobs d @ [watch_job wid d (next_id d)], next_id := Suc (next_id d)\<rparr>" wid] assms
  by (simp add: schedule_one_def bnd_def watch_job_create)

lemma stamp_all_Cons: "stamp_all ids t (stamp_all [w] t ws) = stamp_all (w # ids) t ws"
  by (simp add: stamp_all_def update_where_def)

lemma schedule_each_run:
  assumes "distinct (map w_id (watchlists d))"
  shows "schedule_each ids d = (Inr [next_id d ..< next_id d + length ids],
     d\<lparr>jobs := jobs d @ map (\<lambda>(i, w). watch_job w d i) (zip [next_id d ..< next_id d + length ids] ids),
       next_id := next_id d + length ids, watchlists := stamp_all ids (now d) (watchlists d)\<rparr>)"
  using assms
proof (induction ids arbitrary: d)
  case Nil
  have "stamp_all [] (now d) (watchlists d) = watchlists d" by (simp add: stamp_all_def update_where_def)
  then show ?case by simp
next
  case (Cons w ids)
  let ?d = "d\<lparr>jobs := jobs d @ [watch_job w d (next_id d)], next_id := Suc (next_id d),
     watchlists := stamp_all [w] (now d) (watchlists d)\<rparr>"
  have job: "watch_job v ?d i = watch_job v d i" for v i by (simp add: watch_job_def new_job_def)
  have upt: "[next_id d ..< Suc (next_id d + length ids)] = next_id d # [Suc (next_id d) ..< Suc (next_id d + length ids)]"
    by (simp add: upt_rec)
  from Cons.IH [of ?d] Cons.prems schedule_one_run [OF Cons.prems, of w] show ?case
    by (simp add: bnd_def job stamp_all_Cons upt del: upt_Suc)
qed

lemma schedule_run:
  assumes ids: "distinct (map w_id (watchlists d))" and up: "foldE enq [next_id d ..< next_id d + length (due_watchlist_ids interval d)] q = Inr q'"
  shows "schedule_due_watches enq interval (d, q) = (Inr (length (due_watchlist_ids interval d)),
     (d\<lparr>jobs := jobs d @ map (\<lambda>(i, w). watch_job w d i)
           (zip [next_id d ..< next_id d + length (due_watchlist_ids interval d)] (due_watchlist_ids interval d)),
        next_id := next_id d + length (due_watchlist_ids interval d),
        watchlists := stamp_all (due_watchlist_ids interval d) (now d) (watchlists d)\<rparr>, q'))"
  using up by (simp add: schedule_due_watches_def session_scope_def schedule_each_run [OF ids])

lemma due_stamped: "0 \<le> interval \<Longrightarrow> t' \<le> t + interval \<Longrightarrow> \<not> due interval t' (stamp t w)"
  by (simp add: due_def stamp_def)

text \<open>A tick takes the first 200 of the due watches; the others stay due.\<close>

lemma all_due_stamped:
  assumes "distinct (map w_id ws)" and "0 \<le> interval"
  shows "map w_id (filter (due interval t) (stamp_all (take n (map w_id (filter (due interval t) ws))) t ws)) =
    drop n (map w_id (filter (due interval t) ws))"
  using assms(1)
proof (induction ws arbitrary: n)
  case (Cons w ws)
  then have w: "w_id w \<notin> w_id ` set ws" and ws: "distinct (map w_id ws)" by auto
  have neq: "w_id x \<noteq> w_id w" if "x \<in> set ws" for x using w that by (metis image_eqI)
  have other: "stamp_all (w_id w # ids) t ws = stamp_all ids t ws" for ids
    unfolding stamp_all_def update_where_def using neq by (intro map_cong refl) simp
  have skip: "w_id w \<notin> set (take k (map w_id (filter (due interval t) ws)))" for k
    using w set_take_subset by fastforce
  show ?case
  proof (cases "due interval t w")
    case False
    with Cons.IH [OF ws, of n] skip [of n] show ?thesis by (simp add: stamp_all_def)
  next
    case True
    show ?thesis
    proof (cases n)
      case 0
      with True Cons.IH [OF ws, of 0] show ?thesis by (simp add: stamp_all_def)
    next
      case (Suc k)
      have "stamp_all (w_id w # take k (map w_id (filter (due interval t) ws))) t (w # ws) =
          stamp t w # stamp_all (take k (map w_id (filter (due interval t) ws))) t ws"
        using other by (simp add: stamp_all_def)
      with True Suc Cons.IH [OF ws, of k] due_stamped [OF assms(2), of t t w] assms(2) show ?thesis by simp
    qed
  qed
qed (simp add: stamp_all_def)

text \<open>Several ticks at one time, on a queue that accepts the ids.\<close>

primrec ticks :: "nat \<Rightarrow> (uid \<Rightarrow> 'q \<Rightarrow> 'q) \<Rightarrow> int \<Rightarrow> db \<times> 'q \<Rightarrow> db \<times> 'q" where
  "ticks 0 enq interval st = st"
| "ticks (Suc k) enq interval st = ticks k enq interval (snd (schedule_due_watches (\<lambda>j q. Inr (enq j q)) interval st))"

lemma foldE_total [simp]: "foldE (\<lambda>x s. Inr (f x s)) xs s = Inr (fold f xs s)"
  by (induction xs arbitrary: s) simp_all

lemma tick_run:
  fixes d :: db and interval :: int
  defines "ids \<equiv> due_watchlist_ids interval d" and "js \<equiv> [next_id d ..< next_id d + length (due_watchlist_ids interval d)]"
  assumes "distinct (map w_id (watchlists d))"
  shows "snd (schedule_due_watches (\<lambda>j q. Inr (enq j q)) interval (d, q)) =
     (d\<lparr>jobs := jobs d @ map (\<lambda>(i, w). watch_job w d i) (zip js ids), next_id := next_id d + length ids,
        watchlists := stamp_all ids (now d) (watchlists d)\<rparr>, fold enq js q)"
  unfolding ids_def js_def by (subst schedule_run [OF assms(3) foldE_total]) simp

lemma ticks_run:
  assumes "distinct (map w_id (watchlists d))" and "0 \<le> interval"
  shows "\<exists>new. ticks k enq interval (d, q) = (fst (ticks k enq interval (d, q)), fold enq (map job_id new) q) \<and>
    jobs (fst (ticks k enq interval (d, q))) = jobs d @ new \<and>
    map job_params new = map watch_params (take (k * due_limit) (all_due interval d)) \<and>
    list_all (\<lambda>j. job_kind j = ''watch_poll'' \<and> job_st j = PENDING) new \<and>
    all_due interval (fst (ticks k enq interval (d, q))) = drop (k * due_limit) (all_due interval d) \<and>
    watchlists (fst (ticks k enq interval (d, q))) = stamp_all (take (k * due_limit) (all_due interval d)) (now d) (watchlists d)"
  using assms(1)
proof (induction k arbitrary: d q)
  case 0
  then show ?case by (simp add: stamp_all_def update_where_def all_due_def)
next
  case (Suc k)
  let ?ids = "due_watchlist_ids interval d" and ?js = "[next_id d ..< next_id d + length (due_watchlist_ids interval d)]"
  let ?jobs = "map (\<lambda>(i, w). watch_job w d i) (zip ?js ?ids)"
  let ?d = "d\<lparr>jobs := jobs d @ ?jobs, next_id := next_id d + length ?ids, watchlists := stamp_all ?ids (now d) (watchlists d)\<rparr>"
  have ids: "?ids = take due_limit (all_due interval d)" by (simp add: due_watchlist_ids_def all_due_def take_map)
  have due: "all_due interval ?d = drop due_limit (all_due interval d)"
    using all_due_stamped [OF Suc.prems assms(2), of "now d" due_limit] ids by (simp add: all_due_def)
  have more: "take (Suc k * due_limit) xs = take due_limit xs @ take (k * due_limit) (drop due_limit xs)" for xs :: "uid list"
    by (simp add: take_add)
  have jobs: "map job_id ?jobs = ?js" "map job_params ?jobs = map watch_params ?ids"
    "list_all (\<lambda>j. job_kind j = ''watch_poll'' \<and> job_st j = PENDING) ?jobs"
    by (auto simp: list_all_iff watch_job_def new_job_def split_def comp_def map_fst_zip map_snd_zip intro!: nth_equalityI)
  from Suc.IH [of ?d "fold enq ?js q"] Suc.prems obtain new where new:
    "ticks k enq interval (?d, fold enq ?js q) = (fst (ticks k enq interval (?d, fold enq ?js q)), fold enq (map job_id new) (fold enq ?js q))"
    "jobs (fst (ticks k enq interval (?d, fold enq ?js q))) = jobs ?d @ new"
    "map job_params new = map watch_params (take (k * due_limit) (all_due interval ?d))"
    "list_all (\<lambda>j. job_kind j = ''watch_poll'' \<and> job_st j = PENDING) new"
    "all_due interval (fst (ticks k enq interval (?d, fold enq ?js q))) = drop (k * due_limit) (all_due interval ?d)"
    "watchlists (fst (ticks k enq interval (?d, fold enq ?js q))) = stamp_all (take (k * due_limit) (all_due interval ?d)) (now ?d) (watchlists ?d)"
    by auto
  have run: "ticks (Suc k) enq interval (d, q) = ticks k enq interval (?d, fold enq ?js q)"
    by (simp only: ticks.simps tick_run [OF Suc.prems])
  have stamps: "stamp_all ys t (stamp_all xs t ws) = stamp_all (xs @ ys) t ws" for xs ys t ws
    by (auto simp: stamp_all_def update_where_def)
  show ?case
  proof (intro exI [of _ "?jobs @ new"] conjI)
    show "ticks (Suc k) enq interval (d, q) = (fst (ticks (Suc k) enq interval (d, q)), fold enq (map job_id (?jobs @ new)) q)"
      unfolding run map_append fold_append jobs(1) comp_apply by (rule new(1))
    show "map job_params (?jobs @ new) = map watch_params (take (Suc k * due_limit) (all_due interval d))"
      using jobs(2) new(3) by (simp only: map_append due more ids [symmetric])
    show "watchlists (fst (ticks (Suc k) enq interval (d, q))) = stamp_all (take (Suc k * due_limit) (all_due interval d)) (now d) (watchlists d)"
      unfolding run new(6) due more by (simp add: stamps ids)
  qed (use new(2,4,5) jobs(3) run due in \<open>simp_all add: add.commute\<close>)
qed

section \<open>What a poll reports\<close>

definition message_reports :: "poll_result \<Rightarrow> activity list" where
  "message_reports r = filter (\<lambda>a. ac_kind a = ''message'') (po_activities r)"

definition seen_of :: "watchlist \<Rightarrow> exn + int" where
  "seen_of w = (case marker_of w of Inl e \<Rightarrow> Inl e | Inr m \<Rightarrow> seen_max m)"

lemma fold_report:
  "fold (report_message seen label) ms (mx, acts) =
   (fold max (map ms_message_id (filter (\<lambda>m. seen < ms_message_id m) ms)) mx,
    acts @ map (message_activity label) (filter (\<lambda>m. seen < ms_message_id m) ms))"
  by (induction ms arbitrary: mx acts) (auto simp: report_message_def max.commute)

lemma fold_max: "(mx :: int) \<le> fold max xs mx \<and> (\<forall>x \<in> set xs. x \<le> fold max xs mx)"
proof (induction xs arbitrary: mx)
  case (Cons a xs)
  from Cons [of "max a mx"] show ?case by auto
qed simp

lemma report_container_run:
  assumes "seen_max m = Inr s0" and "report_container c d (m, r) = Inr (m', r')"
  shows "po_activities r' = po_activities r @ map (message_activity (container_label (fst c)))
      (filter (\<lambda>x. s0 < ms_message_id x) (container_messages c d)) \<and>
    (\<exists>s1. seen_max m' = Inr s1 \<and> s0 \<le> s1 \<and> (\<forall>x \<in> set (container_messages c d). ms_message_id x \<le> s1))"
proof -
  let ?new = "filter (\<lambda>x. s0 < ms_message_id x) (container_messages c d)"
  let ?s1 = "fold max (map ms_message_id ?new) s0"
  have "\<forall>x \<in> set (container_messages c d). ms_message_id x \<le> ?s1" "s0 \<le> ?s1"
    using fold_max [of s0 "map ms_message_id ?new"] by force+
  with assms show ?thesis
    by (auto simp: report_container_def fold_report add_activities_def seen_max_def update_conv')
qed

lemma poll_telegram_run:
  assumes "poll_telegram sha dumps tg h (d, m, r) = (Inr (), (d', m', r'))" and "seen_max m = Inr s0"
  shows "\<exists>ms et s1. po_activities r' = po_activities r @ map (message_activity (container_label et)) ms \<and> seen_max m' = Inr s1 \<and>
    s0 \<le> s1 \<and> sorted (map ms_message_id ms) \<and> (\<forall>x \<in> set ms. s0 < ms_message_id x \<and> ms_message_id x \<le> s1)"
proof -
  have none: ?thesis if "m' = m" "po_activities r' = po_activities r"
    using that assms(2) by (intro exI [of _ "[]"] exI [of _ s0]) simp
  show ?thesis
  proof (cases tg)
    case (Inl e) with assms show ?thesis by (simp add: poll_telegram_def)
  next
    case (Inr res)
    show ?thesis
    proof (cases "co_error res = None \<or> co_error res = Some []")
      case False
      then obtain c msg where "co_error res = Some (c # msg)" by (metis list.exhaust option.exhaust)
      with assms(1) Inr show ?thesis by (intro none) (auto simp: poll_telegram_def tally_def add_note_def)
    next
      case True
      obtain r1 d1 where g: "ingest sha dumps res d = (r1, d1)" by (cases "ingest sha dumps res d")
      from True Inr have "poll_telegram sha dumps tg h = bnd (on_fst (ingest sha dumps res)) (\<lambda>_.
          bnd (liftE (normalize_username h)) (\<lambda>n.
          (\<lambda>(d, t). case watched_container n d of
             Inl e \<Rightarrow> (Inl e, (d, t)) | Inr None \<Rightarrow> (Inr (), (d, t))
           | Inr (Some c) \<Rightarrow> (case report_container c d t of Inl e \<Rightarrow> (Inl e, (d, t)) | Inr t' \<Rightarrow> (Inr (), (d, t'))))))"
        by (auto simp: poll_telegram_def)
      with assms(1) g obtain n x where n: "watched_container n d1 = Inr x" and
        x: "case x of None \<Rightarrow> m' = m \<and> r' = r | Some c \<Rightarrow> report_container c d1 (m, r) = Inr (m', r')"
        by (auto simp: bnd_def liftE_def on_fst_def split: sum.splits option.splits)
      show ?thesis
      proof (cases x)
        case None with x show ?thesis by (intro none) simp_all
      next
        case (Some c)
        with x have "report_container c d1 (m, r) = Inr (m', r')" by simp
        from report_container_run [OF assms(2) this] obtain s1 where s1:
          "po_activities r' = po_activities r @ map (message_activity (container_label (fst c))) (filter (\<lambda>x. s0 < ms_message_id x) (container_messages c d1))"
          "seen_max m' = Inr s1" "s0 \<le> s1" "\<forall>x \<in> set (container_messages c d1). ms_message_id x \<le> s1" by blast
        moreover have "sorted (map ms_message_id (filter (\<lambda>x. s0 < ms_message_id x) (container_messages c d1)))"
          by (simp add: container_messages_def sorted_filter)
        ultimately show ?thesis
          by (intro exI [of _ "filter (\<lambda>x. s0 < ms_message_id x) (container_messages c d1)"] exI [of _ "fst c"] exI [of _ s1]) simp
      qed
    qed
  qed
qed

lemma poll_platforms_run:
  assumes "poll_username_platforms sha dumps pl (d, m, r) = (Inr (), (d', m', r'))"
  shows "seen_max m' = seen_max m \<and> (\<exists>ps. po_activities r' = po_activities r @ map platform_activity ps)"
proof (cases pl)
  case None with assms show ?thesis by (auto simp: poll_username_platforms_def intro: exI [of _ "[]"])
next
  case (Some tried)
  show ?thesis
  proof (cases tried)
    case (Inl e) with assms Some show ?thesis by (simp add: poll_username_platforms_def)
  next
    case (Inr res)
    show ?thesis
    proof (cases "co_error res = None \<or> co_error res = Some []")
      case False
      then obtain c msg where "co_error res = Some (c # msg)" by (metis list.exhaust option.exhaust)
      with assms Some Inr show ?thesis
        by (auto simp: poll_username_platforms_def tally_def add_note_def intro: exI [of _ "[]"])
    next
      case True
      with Some Inr have "poll_username_platforms sha dumps pl = bnd (on_fst (ingest sha dumps res)) (\<lambda>_.
          (\<lambda>(d, t). case report_platforms (co_records res) t of Inl e \<Rightarrow> (Inl e, (d, t)) | Inr t' \<Rightarrow> (Inr (), (d, t'))))"
        by (auto simp: poll_username_platforms_def)
      with assms have "report_platforms (co_records res) (m, r) = Inr (m', r')"
        by (auto simp: bnd_def on_fst_def split: sum.splits prod.splits)
      then show ?thesis
        by (auto simp: report_platforms_def Let_def add_activities_def seen_max_def update_conv' split: sum.splits if_splits)
    qed
  qed
qed

lemma poll_run:
  assumes "poll sha dumps tg pl w d = (Inr r, d')"
  obtains h m m1 r1 d1 m2 d2 where "handle_of w = Inr h" "marker_of w = Inr m"
    "poll_telegram sha dumps tg h (d, m, \<lparr>po_watchlist_id = w_id w, po_target = CHR ''@'' # h, po_activities = [], po_notes = []\<rparr>) =
       (Inr (), (d1, m1, r1))"
    "poll_username_platforms sha dumps pl (d1, m1, r1) = (Inr (), (d2, m2, r))" "d' = store_marker (w_id w) m2 d2"
  using assms unfolding poll_def bnd_def by (auto split: sum.splits prod.splits)

lemma stored_marker:
  assumes "w' \<in> set (watchlists (store_marker i m d))" and "w_id w' = i"
  shows "marker_of w' = Inr m"
proof -
  from assms(1) have "w' \<in> (\<lambda>w. if w_id w = i then w\<lparr>w_marker := Some (JObj m), w_last_checked_at := Some (now d)\<rparr> else w) ` set (watchlists d)"
    by (simp add: store_marker_def set_update_where)
  then obtain w where "w' = (if w_id w = i then w\<lparr>w_marker := Some (JObj m), w_last_checked_at := Some (now d)\<rparr> else w)"
    by (rule imageE)
  with assms(2) show ?thesis by (cases "w_id w = i") (simp_all add: marker_of_def)
qed

lemma store_marker_others:
  "telegram_channels (store_marker i m d) = telegram_channels d" "telegram_groups (store_marker i m d) = telegram_groups d"
  "messages (store_marker i m d) = messages d"
  by (simp_all add: store_marker_def)

lemma store_marker_reads:
  "watched_container n (store_marker i m d) = watched_container n d"
  "container_messages c (store_marker i m d) = container_messages c d"
  unfolding watched_container_def container_messages_def store_marker_others by (rule refl)+

lemma poll_messages:
  assumes run: "poll sha dumps tg pl w d = (Inr r, d')" and s0: "seen_of w = Inr s0"
  shows "\<exists>ms et s1. message_reports r = map (message_activity (container_label et)) ms \<and> sorted (map ms_message_id ms) \<and>
    (\<forall>x \<in> set ms. s0 < ms_message_id x \<and> ms_message_id x \<le> s1) \<and> s0 \<le> s1 \<and>
    (\<forall>w' \<in> set (watchlists d'). w_id w' = w_id w \<longrightarrow> seen_of w' = Inr s1)"
proof (rule poll_run [OF run])
  fix h m m1 r1 d1 m2 d2
  assume m: "marker_of w = Inr m"
    and tg: "poll_telegram sha dumps tg h (d, m, \<lparr>po_watchlist_id = w_id w, po_target = CHR ''@'' # h, po_activities = [], po_notes = []\<rparr>) =
       (Inr (), (d1, m1, r1))"
    and pl: "poll_username_platforms sha dumps pl (d1, m1, r1) = (Inr (), (d2, m2, r))" and d': "d' = store_marker (w_id w) m2 d2"
  from s0 m have "seen_max m = Inr s0" by (simp add: seen_of_def)
  from poll_telegram_run [OF tg this] obtain ms et s1 where ms:
    "po_activities r1 = map (message_activity (container_label et)) ms" "seen_max m1 = Inr s1" "s0 \<le> s1"
    "sorted (map ms_message_id ms)" "\<forall>x \<in> set ms. s0 < ms_message_id x \<and> ms_message_id x \<le> s1" by auto
  from poll_platforms_run [OF pl] ms(1,2) obtain ps where ps: "seen_max m2 = Inr s1"
    "po_activities r = map (message_activity (container_label et)) ms @ map platform_activity ps" by auto
  have "message_reports r = map (message_activity (container_label et)) ms"
    unfolding message_reports_def ps(2) by (simp add: message_activity_def platform_activity_def filter_map comp_def)
  moreover have "seen_of w' = Inr s1" if "w' \<in> set (watchlists d')" "w_id w' = w_id w" for w'
    using stored_marker that ps(1) unfolding d' seen_of_def by fastforce
  ultimately show ?thesis using ms(3-5) by blast
qed

section \<open>Properties\<close>

text \<open>
  C26. Every due watch is polled: \<open>k\<close> ticks, with a queue that accepts the ids, create and enqueue
  exactly one pending job for each of the first \<open>200 * k\<close> due watches, in order, and no other; so
  enough ticks leave no watch waiting. A watch that got its job is not due again until its interval
  has passed, however often the scheduler runs, and no other watch is touched.
\<close>

theorem every_due_watch_scheduled_once:
  assumes "distinct (map w_id (watchlists d))" and "0 \<le> interval" and "ticks k enq interval (d, q) = (d', q')"
  shows "(\<exists>new. jobs d' = jobs d @ new \<and> q' = fold enq (map job_id new) q \<and>
      map job_params new = map watch_params (take (k * 200) (all_due interval d)) \<and>
      list_all (\<lambda>j. job_kind j = ''watch_poll'' \<and> job_st j = PENDING) new) \<and>
    distinct (all_due interval d) \<and> all_due interval d' = drop (k * 200) (all_due interval d) \<and>
    (\<forall>w \<in> set (watchlists d'). w_id w \<in> set (take (k * 200) (all_due interval d)) \<longrightarrow>
       (\<forall>t \<le> now d + interval. \<not> due interval t w)) \<and>
    filter (\<lambda>w. w_id w \<notin> set (all_due interval d)) (watchlists d') = filter (\<lambda>w. w_id w \<notin> set (all_due interval d)) (watchlists d)"
proof -
  let ?ids = "take (k * due_limit) (all_due interval d)"
  from ticks_run [OF assms(1,2), of k enq q] assms(3) obtain new where new: "q' = fold enq (map job_id new) q" "jobs d' = jobs d @ new"
    "map job_params new = map watch_params ?ids" "list_all (\<lambda>j. job_kind j = ''watch_poll'' \<and> job_st j = PENDING) new"
    "all_due interval d' = drop (k * due_limit) (all_due interval d)" "watchlists d' = stamp_all ?ids (now d) (watchlists d)"
    by auto
  have "distinct (all_due interval d)" using assms(1) by (simp add: all_due_def distinct_map_filter)
  moreover have "\<not> due interval t w" if "w \<in> set (watchlists d')" "w_id w \<in> set ?ids" "t \<le> now d + interval" for w t
    using that due_stamped [OF assms(2) that(3)] unfolding new(6) by (auto simp: stamp_all_def set_update_where split: if_splits)
  moreover have "filter (\<lambda>w. w_id w \<notin> set (all_due interval d)) (stamp_all ?ids t ws) = filter (\<lambda>w. w_id w \<notin> set (all_due interval d)) ws" for t ws
    by (induction ws) (auto simp: stamp_all_def dest: in_set_takeD)
  ultimately show ?thesis
    unfolding new(6) by (intro conjI exI [of _ new]) (use new in \<open>simp_all add: due_limit_def\<close>)
qed


text \<open>
  Nothing new is missed: if the collection succeeded and the handle names a container, a poll
  reports exactly the messages of the container, those ingested just now included, that are newer
  than the stored marker, in the order of their ids.
\<close>

lemma every_new_message_reported:
  assumes run: "poll sha dumps (Inr res) None w d = (Inr r, d')" and ok: "co_error res = None" and s0: "seen_of w = Inr s0"
    and h: "handle_of w = Inr h" "normalize_username h = Inr n" and c: "watched_container n d' = Inr (Some c)"
  shows "message_reports r =
    map (message_activity (container_label (fst c))) (filter (\<lambda>m. s0 < ms_message_id m) (container_messages c d'))"
proof (rule poll_run [OF run])
  fix h' m m1 r1 d1 m2 d2
  assume m: "handle_of w = Inr h'" "marker_of w = Inr m"
    and tg: "poll_telegram sha dumps (Inr res) h' (d, m, \<lparr>po_watchlist_id = w_id w, po_target = CHR ''@'' # h', po_activities = [], po_notes = []\<rparr>) =
       (Inr (), (d1, m1, r1))"
    and pl: "poll_username_platforms sha dumps None (d1, m1, r1) = (Inr (), (d2, m2, r))" and d': "d' = store_marker (w_id w) m2 d2"
  from pl have same: "d2 = d1" "r = r1" by (simp_all add: poll_username_platforms_def)
  have h': "h' = h" using m(1) h(1) by simp
  have c1: "watched_container n d1 = Inr (Some c)" and msgs: "container_messages c d' = container_messages c d1"
    using c unfolding d' same store_marker_reads by simp_all
  obtain s d0 where g: "ingest sha dumps res d = (s, d0)" by (cases "ingest sha dumps res d")
  from tg ok h(2) g have rep: "report_container c d1 (m, \<lparr>po_watchlist_id = w_id w, po_target = CHR ''@'' # h, po_activities = [], po_notes = []\<rparr>) = Inr (m1, r1)"
    using c1 by (auto simp: h' poll_telegram_def bnd_def liftE_def on_fst_def split: sum.splits option.splits)
  have "seen_max m = Inr s0" using s0 m(2) by (simp add: seen_of_def)
  from report_container_run [OF this rep] have "po_activities r = map (message_activity (container_label (fst c)))
      (filter (\<lambda>x. s0 < ms_message_id x) (container_messages c d'))"
    by (simp add: same msgs)
  then show ?thesis by (simp add: message_reports_def message_activity_def filter_map comp_def)
qed

text \<open>A watch on a channel, polled before and after message 9 was posted.\<close>

definition sample_watch :: watchlist where
  "sample_watch = \<lparr>w_id = 0, w_user_id = 5, w_target_id = None, w_kind = K_USERNAME, w_value = ''@chan'', w_norm = ''chan'',
     w_sources = None, w_is_active = True, w_last_checked_at = None, w_marker = None, w_created_at = 0\<rparr>"

definition watched_db :: db where
  "watched_db = empty_db\<lparr>watchlists := [sample_watch], next_id := 1\<rparr>"

definition posted :: "int list \<Rightarrow> collect_result" where
  "posted ids = \<lparr>co_source = ''telegram'', co_ok = True,
     co_records = \<lparr>nr_ref = ''c'', nr_entity_type = E_TELEGRAM_CHANNEL, nr_natural_key = [(''telegram_id'', JInt 5)],
         nr_attributes = [(''username'', JStr ''chan'')], nr_evidence = []\<rparr> #
       map (\<lambda>i. \<lparr>nr_ref = show_int i, nr_entity_type = E_MESSAGE, nr_natural_key = [(''message_id'', JInt i)],
         nr_attributes = [], nr_evidence = []\<rparr>) ids,
     co_relationships = [], co_partial = False, co_error = None, co_notes = []\<rparr>"

definition sample_poll :: "int list \<Rightarrow> db \<Rightarrow> (exn + poll_result) \<times> db" where
  "sample_poll ids d = poll id (\<lambda>_. []) (Inr (posted ids)) None (hd (watchlists d)) d"

lemma sample_polls:
  "(case sample_poll [7] watched_db of
      (Inr r1, e1) \<Rightarrow> map w_id (watchlists e1) = [0] \<and> length (message_reports r1) = 1 \<and>
        (case sample_poll [7, 9] e1 of (Inr r2, e2) \<Rightarrow> length (message_reports r2) = 1 | _ \<Rightarrow> False)
    | _ \<Rightarrow> False)"
  by code_simp

lemma sample_poll_run:
  obtains r1 e1 w r2 e2 where "poll id (\<lambda>_. []) (Inr (posted [7])) None sample_watch watched_db = (Inr r1, e1)"
    "watchlists e1 = [w]" "w_id w = 0" "poll id (\<lambda>_. []) (Inr (posted [7, 9])) None w e1 = (Inr r2, e2)"
    "length (message_reports r1) = 1" "length (message_reports r2) = 1"
  using sample_polls unfolding sample_poll_def
  by (auto simp: watched_db_def map_eq_Cons_conv split: prod.splits sum.splits)


lemma every_new_message_reported_witness:
  "\<exists>r d'. sample_poll [7] watched_db = (Inr r, d') \<and>
     message_reports r = map (message_activity ''Public Channel'') (filter (\<lambda>m. 0 < ms_message_id m) (container_messages (E_TELEGRAM_CHANNEL, 1) d'))"
proof -
  have "case sample_poll [7] watched_db of (Inr r, d') \<Rightarrow> watched_container ''chan'' d' = Inr (Some (E_TELEGRAM_CHANNEL, 1)) | _ \<Rightarrow> False"
    by code_simp
  then obtain r d' where run: "sample_poll [7] watched_db = (Inr r, d')" "watched_container ''chan'' d' = Inr (Some (E_TELEGRAM_CHANNEL, 1))"
    by (auto split: prod.splits sum.splits)
  have poll: "poll id (\<lambda>_. []) (Inr (posted [7])) None sample_watch watched_db = (Inr r, d')"
    using run(1) by (simp add: sample_poll_def watched_db_def)
  have w: "seen_of sample_watch = Inr 0" "handle_of sample_watch = Inr ''chan''" "normalize_username ''chan'' = Inr ''chan''"
    by code_simp+
  have "message_reports r = map (message_activity (container_label (fst (E_TELEGRAM_CHANNEL, 1))))
      (filter (\<lambda>m. 0 < ms_message_id m) (container_messages (E_TELEGRAM_CHANNEL, 1) d'))"
    using every_new_message_reported [OF poll _ w run(2)] by (simp add: posted_def)
  with run(1) show ?thesis by (auto simp: container_label_def)
qed

theorem every_due_watch_scheduled_once_witness:
  "let d' = fst (ticks 1 (\<lambda>j q. q @ [j]) 60 (watched_db, []))
   in map job_params (jobs d') = [watch_params 0] \<and> snd (ticks 1 (\<lambda>j q. q @ [j]) 60 (watched_db, [])) = map job_id (jobs d')"
proof -
  obtain d' q' where run: "ticks 1 (\<lambda>j q. q @ [j]) 60 (watched_db, []) = (d', q')"
    by (cases "ticks 1 (\<lambda>j q. q @ [j]) 60 (watched_db, [])")
  have due: "all_due 60 watched_db = [0]" and jobs: "jobs watched_db = []" by code_simp+
  have "fold (\<lambda>j q. q @ [j]) xs q = q @ xs" for xs q :: "uid list" by (induction xs arbitrary: q) simp_all
  with every_due_watch_scheduled_once [OF _ _ run] due jobs run show ?thesis by (auto simp: watched_db_def)
qed

text \<open>
  A queue that is down when the scheduler enqueues: the job row is committed and the watch stamped,
  but no worker will ever see the job.
\<close>

lemma queue_outage_loses_polls:
  "let (r, (d', q)) = schedule_due_watches (\<lambda>j q. Inl (RuntimeError ''queue unavailable'')) 60 (watched_db, [])
   in r = Inl (RuntimeError ''queue unavailable'') \<and> map job_st (jobs d') = [PENDING] \<and> q = [] \<and> all_due 60 d' = []"
  by code_simp

end
