(* ===== verification/Target.thy ===== *)
theory Target
  imports IocExtract
begin

text \<open>
  \<open>intelligence/investigation/target.py\<close> and \<open>classifier.py\<close>: which texts name a Telegram user
  name or numeric id, and how a public message relates to the target. \<open>InvalidTarget\<close> is a
  subclass of \<open>ValueError\<close>; the callers that catch it do not catch other \<open>ValueError\<close>s.
\<close>

section \<open>Targets\<close>

record parsed_target =
  pt_raw :: string
  pt_type :: target_kind
  pt_canonical :: string

definition is_username_target :: "parsed_target \<Rightarrow> bool" where
  "is_username_target t \<longleftrightarrow> pt_type t = K_TELEGRAM_USER"

definition display :: "parsed_target \<Rightarrow> string" where
  "display t = (if is_username_target t then CHR ''@'' # pt_canonical t else pt_canonical t)"

definition max_raw_len :: nat where
  "max_raw_len = 128"

definition is_control :: "char \<Rightarrow> bool" where
  "is_control c \<longleftrightarrow> code c < 32 \<or> code c = 127"

definition is_handle_char :: "char \<Rightarrow> bool" where
  "is_handle_char c \<longleftrightarrow> is_lower_az c \<or> is_decimal c \<or> c = CHR ''_''"

definition valid_handle :: "string \<Rightarrow> bool" where
  "valid_handle s \<longleftrightarrow> 5 \<le> length s \<and> length s \<le> 32 \<and> is_lower_az (hd s) \<and> list_all is_handle_char s \<and>
     (is_lower_az (last s) \<or> is_decimal (last s))"

text \<open>\<open>re.match\<close> looks at the start of the text only.\<close>

definition matches_start :: "regex \<Rightarrow> string \<Rightarrow> bool" where
  "matches_start r s \<longleftrightarrow> rmatch r (None, s) \<noteq> []"

definition found_in :: "regex \<Rightarrow> string \<Rightarrow> bool" where
  "found_in r s \<longleftrightarrow> finditer r s \<noteq> []"

definition any_url_re :: regex where
  "any_url_re = seqs [plus (Chr is_alpha_az), lit ''://'']"

definition tg_host_re :: regex where
  "tg_host_re = seqs [opt (seqs [lit_nc ''http'', opt (lit_nc ''s''), lit ''://'']),
     alts [lit_nc ''t.me'', lit_nc ''telegram.me'', lit_nc ''telegram.dog''], lit ''/'']"

definition lossy_username :: exn where
  "lossy_username = InvalidTarget ''Not a valid Telegram username. Use letters, digits and underscores only.''"

definition invalid_username :: exn where
  "invalid_username = InvalidTarget (''Not a valid Telegram username. Usernames are 5-32 characters, '' @
     ''letters/digits/underscores, and start with a letter.'')"

definition parse_username :: "string \<Rightarrow> string \<Rightarrow> exn + parsed_target" where
  "parse_username txt src =
     (if src = [] \<or> \<not> list_all is_word_az src then Inl lossy_username
      else (case normalize_username txt of
              Inl e \<Rightarrow> Inl e
            | Inr canonical \<Rightarrow>
                if \<not> valid_handle canonical \<or> contains ''__'' canonical then Inl invalid_username
                else Inr \<lparr>pt_raw = txt, pt_type = K_TELEGRAM_USER, pt_canonical = canonical\<rparr>))"

definition parse_id :: "string \<Rightarrow> string \<Rightarrow> exn + parsed_target" where
  "parse_id txt digits =
     (if length digits < 3 \<or> 15 < length digits then Inl (InvalidTarget ''Not a valid Telegram numeric id.'')
      else (case int_of_str digits of
              Inl e \<Rightarrow> Inl e
            | Inr n \<Rightarrow> if n \<le> 0 then Inl (InvalidTarget ''Not a valid Telegram numeric id.'')
                       else Inr \<lparr>pt_raw = txt, pt_type = K_TELEGRAM_ID, pt_canonical = digits\<rparr>))"

text \<open>The bare handle, or what a link to Telegram wraps.\<close>

definition target_source :: "string \<Rightarrow> exn + string" where
  "target_source txt =
     (if matches_start tg_host_re txt then normalize_username txt else Inr (lstrip_by (\<lambda>c. c = CHR ''@'') txt))"

definition parse_target :: "string option \<Rightarrow> exn + parsed_target" where
  "parse_target raw =
     (case raw of
        None \<Rightarrow> Inl (InvalidTarget ''No target supplied. Send a Telegram @username or numeric id.'')
      | Some r \<Rightarrow>
          (let txt = strip r in
           if txt = [] then Inl (InvalidTarget ''Empty target. Send a Telegram @username or numeric id.'')
           else if max_raw_len < length txt then Inl (InvalidTarget ''Target is too long.'')
           else if list_ex is_control txt then Inl (InvalidTarget ''Target contains invalid characters.'')
           else if matches_start any_url_re txt \<and> \<not> matches_start tg_host_re txt
           then Inl (InvalidTarget ''Only Telegram usernames/ids or t.me links are supported.'')
           else (case target_source txt of
                   Inl e \<Rightarrow> Inl e
                 | Inr src \<Rightarrow> if isdigit src then parse_id txt src else parse_username txt src)))"

section \<open>Classification\<close>

definition mention_re :: regex where
  "mention_re = seqs [NotAfter (\<lambda>c. is_word c \<or> c = CHR ''@''), chr CHR ''@'', Chr is_alpha_az, Rep 3 (Some 31) (Chr is_word_az)]"

definition tme_prefix_re :: regex where
  "tme_prefix_re = seqs [opt (seqs [lit_nc ''http'', opt (lit_nc ''s''), lit ''://'']), lit_nc ''t.me/'']"

definition tme_handle_re :: regex where
  "tme_handle_re = seqs [Chr is_alpha_az, Rep 3 (Some 31) (Chr is_word_az)]"

definition mentions :: "string \<Rightarrow> string list" where
  "mentions txt = map (\<lambda>(a, b). lower (drop 1 (slice txt a b))) (finditer mention_re txt)"

text \<open>The handle of a \<open>t.me\<close> link; the group is matched again at the end of the prefix.\<close>

definition tme_handles :: "string \<Rightarrow> string list" where
  "tme_handles txt = List.map_filter (\<lambda>(a, b). search_group tme_prefix_re tme_handle_re (prev_at txt a, drop a txt))
     (finditer (Seq tme_prefix_re tme_handle_re) txt)"

definition mentions_username :: "string option \<Rightarrow> string \<Rightarrow> bool" where
  "mentions_username txt u =
     (case txt of
        Some (c # s) \<Rightarrow> u \<in> set (mentions (c # s)) \<or> Inr u \<in> normalize_username ` set (tme_handles (c # s))
      | _ \<Rightarrow> False)"

definition reference_re :: "string \<Rightarrow> regex" where
  "reference_re u = seqs [NotAfter (\<lambda>c. is_word c \<or> c = CHR ''@''), lit_nc u, NotBefore is_word]"

definition plain_reference :: "string option \<Rightarrow> string \<Rightarrow> bool" where
  "plain_reference txt u = (case txt of Some (c # s) \<Rightarrow> found_in (reference_re u) (c # s) | _ \<Rightarrow> False)"

text \<open>\<open>author and normalize_username(author) == tgt\<close>; the normaliser may raise.\<close>

definition names :: "string option \<Rightarrow> string \<Rightarrow> exn + bool" where
  "names who u = (case who of Some (c # s) \<Rightarrow> map_sum id (\<lambda>n. n = u) (normalize_username (c # s)) | _ \<Rightarrow> Inr False)"

definition classify_by_username ::
  "string \<Rightarrow> string option \<Rightarrow> string option \<Rightarrow> bool \<Rightarrow> string option \<Rightarrow> exn + observation_type \<times> int" where
  "classify_by_username u author txt is_reply reply_to =
     (case names author u of
        Inl e \<Rightarrow> Inl e
      | Inr True \<Rightarrow> Inr (AUTHOR, 92)
      | Inr False \<Rightarrow>
          (case (if is_reply then names reply_to u else Inr False) of
             Inl e \<Rightarrow> Inl e
           | Inr to_target \<Rightarrow>
               if is_reply \<and> (to_target \<or> mentions_username txt u) then Inr (REPLY, 70)
               else if mentions_username txt u then Inr (MENTION, 80)
               else if plain_reference txt u then Inr (REFERENCE, 55)
               else Inr (UNKNOWN, 30)))"

definition classify_by_id :: "string \<Rightarrow> int option \<Rightarrow> string option \<Rightarrow> observation_type \<times> int" where
  "classify_by_id i author txt =
     (case int_of_str i of
        Inl e \<Rightarrow> (UNKNOWN, 20)
      | Inr n \<Rightarrow>
          if author = Some n then (AUTHOR, 92)
          else if (case txt of Some (c # s) \<Rightarrow> contains i (c # s) | _ \<Rightarrow> False) then (REFERENCE, 45)
          else (UNKNOWN, 25))"

definition classify_observation ::
  "parsed_target \<Rightarrow> string option \<Rightarrow> int option \<Rightarrow> string option \<Rightarrow> bool \<Rightarrow> string option \<Rightarrow> exn + observation_type \<times> int" where
  "classify_observation t author_name author_id txt is_reply reply_to =
     (if is_username_target t then classify_by_username (pt_canonical t) author_name txt is_reply reply_to
      else Inr (classify_by_id (pt_canonical t) author_id txt))"

section \<open>Lemmas\<close>

lemma handle_char_facts:
  assumes "is_handle_char c"
  shows "is_username_char c" "is_word_az c" "\<not> is_control c"
  using assms by (auto simp: is_handle_char_def is_username_char_def is_word_az_def is_alnum_az_def is_alpha_az_def is_control_def
      is_lower_az_def is_decimal_def code_def)

lemma valid_handle_is_handle: "valid_handle u \<Longrightarrow> is_handle u"
  by (cases u) (auto simp: valid_handle_def is_handle_def list_all_iff handle_char_facts)

text \<open>A text that does not start with a letter is neither a link nor a wrapped handle.\<close>

lemma no_url_start:
  assumes "\<not> is_alpha_az c"
  shows "\<not> matches_start any_url_re (c # s)" "\<not> matches_start tg_host_re (c # s)"
proof -
  have "code (lower_char c) \<noteq> 104" "code (lower_char c) \<noteq> 116"
    using assms by (auto simp: lower_char_def has_lower_def is_alpha_az_def is_upper_az_def is_lower_az_def)
  then have "lower_char c \<noteq> CHR ''h''" "lower_char c \<noteq> CHR ''t''" by (auto simp: code_def)
  with assms show "\<not> matches_start any_url_re (c # s)" "\<not> matches_start tg_host_re (c # s)"
    by (simp_all add: matches_start_def any_url_re_def tg_host_re_def plus_def opt_def lit_def lit_nc_def)
qed

lemma digit_no_underscore: "is_digit_char c \<Longrightarrow> c \<noteq> CHR ''_'' \<and> c \<noteq> CHR ''-'' \<and> c \<noteq> CHR ''+'' \<and> \<not> is_space c"
  by (auto simp: is_digit_char_def is_decimal_def is_space_def code_def Let_def)

lemma digits_ok_digits: "list_all is_digit_char s \<Longrightarrow> digits_ok s \<Longrightarrow> list_all is_decimal s"
  by (induction s rule: digits_ok.induct) (auto dest: digit_no_underscore)

text \<open>An id that \<open>int\<close> reads is made of decimal digits.\<close>

lemma isdigit_int: "isdigit s \<Longrightarrow> int_of_str s = Inr n \<Longrightarrow> list_all is_decimal s"
proof -
  assume d: "isdigit s" and i: "int_of_str s = Inr n"
  have "list_all (\<lambda>c. \<not> is_space c) s" using d by (auto simp: isdigit_def list_all_iff dest: digit_no_underscore)
  then have "strip s = s" by (rule strip_no_space)
  moreover have "unsign s = (False, s)" using d by (cases s) (auto simp: isdigit_def unsign_def dest: digit_no_underscore)
  ultimately have "digits_ok s" using i by (simp add: int_of_str_def split: if_splits)
  with d show ?thesis by (simp add: isdigit_def digits_ok_digits)
qed

definition canonical_target :: "parsed_target \<Rightarrow> bool" where
  "canonical_target t \<longleftrightarrow>
     (if is_username_target t then valid_handle (pt_canonical t) \<and> \<not> contains ''__'' (pt_canonical t)
      else pt_type t = K_TELEGRAM_ID \<and> list_all is_decimal (pt_canonical t) \<and> 3 \<le> length (pt_canonical t) \<and>
           length (pt_canonical t) \<le> 15 \<and> 0 < dec_value (pt_canonical t))"

lemma parse_id_canonical: "isdigit s \<Longrightarrow> parse_id r s = Inr t \<Longrightarrow> canonical_target t"
proof -
  assume d: "isdigit s" and t: "parse_id r s = Inr t"
  from t obtain n where n: "int_of_str s = Inr n" "0 < n" "3 \<le> length s" "length s \<le> 15"
      "t = \<lparr>pt_raw = r, pt_type = K_TELEGRAM_ID, pt_canonical = s\<rparr>"
    by (auto simp: parse_id_def split: if_splits sum.splits)
  note dec = isdigit_int [OF d n(1)]
  have "s \<noteq> []" using n(3) by auto
  with n int_of_str_decimal [OF dec] dec show ?thesis by (simp add: canonical_target_def is_username_target_def)
qed

lemma parse_username_canonical: "parse_username r s = Inr t \<Longrightarrow> canonical_target t"
  by (auto simp: parse_username_def canonical_target_def is_username_target_def split: if_splits sum.splits)

lemma parse_target_canonical:
  assumes "parse_target raw = Inr t" shows "canonical_target t"
proof -
  from assms obtain r s where "isdigit s \<and> parse_id r s = Inr t \<or> parse_username r s = Inr t"
    by (auto simp: parse_target_def Let_def split: option.splits if_splits sum.splits)
  then show ?thesis using parse_id_canonical parse_username_canonical by blast
qed

text \<open>A bare text without spaces or control characters goes straight to the two parsers.\<close>

lemma parse_target_bare:
  assumes "list_all (\<lambda>c. \<not> is_space c \<and> \<not> is_control c) (c # s)" "length s < 128" "\<not> is_alpha_az c"
  shows "parse_target (Some (c # s)) =
    (let src = lstrip_by (\<lambda>c. c = CHR ''@'') (c # s) in
     if isdigit src then parse_id (c # s) src else parse_username (c # s) src)"
proof -
  have "list_all (\<lambda>c. \<not> is_space c) (c # s)" "\<not> list_ex is_control (c # s)"
    using assms(1) by (auto simp: list_all_iff list_ex_iff)
  then have "strip (c # s) = c # s" "\<not> list_ex is_control (c # s)" using strip_no_space by blast+
  with assms(2) no_url_start [OF assms(3), of s] show ?thesis
    by (simp add: parse_target_def target_source_def max_raw_len_def Let_def)
qed

lemma parse_display_username:
  assumes "valid_handle u" "\<not> contains ''__'' u"
  shows "parse_target (Some (CHR ''@'' # u)) =
    Inr \<lparr>pt_raw = CHR ''@'' # u, pt_type = K_TELEGRAM_USER, pt_canonical = u\<rparr>"
proof -
  note h = valid_handle_is_handle [OF assms(1)]
  have ok: "list_all is_handle_char u" "u \<noteq> []" "length u \<le> 32" "is_lower_az (hd u)"
    using assms(1) by (auto simp: valid_handle_def)
  have "list_all (\<lambda>c. \<not> is_space c \<and> \<not> is_control c) (CHR ''@'' # u)"
    using ok(1) handle_facts(6) [OF h] handle_char_facts(3) by (auto simp: list_all_iff is_space_def is_control_def code_def)
  moreover have "lstrip_by (\<lambda>c. c = CHR ''@'') (CHR ''@'' # u) = u"
    using lstrip_by_id [of u "\<lambda>c. c = CHR ''@''"] handle_facts(3) [OF h] ok(2) by (cases u) (auto simp: lstrip_by_def)
  moreover have "\<not> isdigit u"
    using ok(2,4) by (cases u) (auto simp: isdigit_def is_digit_char_def is_decimal_def is_lower_az_def)
  moreover have "list_all is_word_az u" using ok(1) handle_char_facts(2) by (auto simp: list_all_iff)
  ultimately show ?thesis
    using ok normalize_username_at [OF h] assms parse_target_bare [of "CHR ''@''" u]
    by (simp add: parse_username_def is_alpha_az_def is_upper_az_def is_lower_az_def code_def)
qed

lemma parse_display_id:
  assumes "list_all is_decimal d" "3 \<le> length d" "length d \<le> 15" "0 < dec_value d"
  shows "parse_target (Some d) = Inr \<lparr>pt_raw = d, pt_type = K_TELEGRAM_ID, pt_canonical = d\<rparr>"
proof -
  obtain c s where d: "d = c # s" using assms(2) by (cases d) auto
  have "list_all (\<lambda>c. \<not> is_space c \<and> \<not> is_control c) d"
    using assms(1) by (auto simp: list_all_iff is_space_def is_control_def is_decimal_def Let_def)
  moreover have "\<not> is_alpha_az c" "c \<noteq> CHR ''@''" "\<not> is_space c"
    using assms(1) d by (auto simp: is_decimal_def is_alpha_az_def is_upper_az_def is_lower_az_def code_def decimal_not_space)
  moreover have "isdigit d" using assms(1) d by (intro isdigit_decimal) auto
  ultimately show ?thesis
    using parse_target_bare [of c s] assms int_of_str_decimal [OF assms(1)] d by (simp add: lstrip_by_def parse_id_def Let_def)
qed

text \<open>Authorship rests on the author field alone, and every confidence lies between 20 and 92.\<close>

lemma classify_author:
  assumes "classify_observation t author_name author_id txt is_reply reply_to = Inr (ty, conf)"
  shows "(ty = AUTHOR) = (if is_username_target t then names author_name (pt_canonical t) = Inr True
      else \<exists>n. int_of_str (pt_canonical t) = Inr n \<and> author_id = Some n) \<and> 20 \<le> conf \<and> conf \<le> 92"
  using assms
  by (auto simp: classify_observation_def classify_by_username_def classify_by_id_def split: if_splits sum.splits bool.splits)

section \<open>Properties\<close>

text \<open>
  C28. An accepted target is canonical: a user name of 5 to 32 lower-case letters, digits and single
  underscores that starts with a letter and does not end in an underscore, or a positive id of 3 to
  15 decimal digits; and what is displayed for it parses to the same target again.
\<close>

theorem parse_target_roundtrip:
  assumes "parse_target raw = Inr t"
  shows "canonical_target t \<and>
    (\<exists>t'. parse_target (Some (display t)) = Inr t' \<and> pt_type t' = pt_type t \<and> pt_canonical t' = pt_canonical t)"
proof (cases "is_username_target t")
  case True
  with parse_target_canonical [OF assms] show ?thesis
    by (simp add: canonical_target_def display_def parse_display_username is_username_target_def)
next
  case False
  with parse_target_canonical [OF assms] show ?thesis
    by (simp add: canonical_target_def display_def parse_display_id)
qed

lemma example_link: "parse_target (Some ''https://t.me/Example_User'') =
    Inr \<lparr>pt_raw = ''https://t.me/Example_User'', pt_type = K_TELEGRAM_USER, pt_canonical = ''example_user''\<rparr>"
  by code_simp

theorem parse_target_roundtrip_witness:
  "canonical_target \<lparr>pt_raw = ''https://t.me/Example_User'', pt_type = K_TELEGRAM_USER, pt_canonical = ''example_user''\<rparr>"
  using parse_target_roundtrip [OF example_link] by blast

text \<open>
  \<open>isdigit\<close> accepts superscript digits that \<open>int\<close> refuses, so such a text raises a plain
  \<open>ValueError\<close> instead of \<open>InvalidTarget\<close>.
\<close>

lemma superscript_target_raises:
  "parse_target (Some [CHR 0xB2, CHR 0xB2, CHR 0xB2]) = Inl (ValueError ''invalid literal for int()'')"
  by code_simp

end
