(* ===== verification/Telegram.thy ===== *)
theory Telegram
  imports Ingest
begin

text \<open>
  \<open>collectors/telegram/source.py\<close> and \<open>collector.py\<close>: the adapters over public Telegram data and
  the collector that turns what they return into records and edges. A source is a record of its
  operations; the client of the Bot API is a parameter. What \<open>dataclasses.asdict\<close> and a
  \<open>type\<close> tag make of a profile, a chat or a message is a constructor of \<open>tg_item\<close>.
\<close>

section \<open>Sources\<close>

record public_profile =
  pp_telegram_id :: "int option"
  pp_username :: "string option"
  pp_display_name :: "string option"
  pp_bio :: "string option"
  pp_is_bot :: bool
  pp_is_verified :: bool
  pp_is_scam :: bool
  pp_photo_reference :: "string option"
  pp_reference :: "string option"

record public_chat =
  pc_chat_type :: string
  pc_telegram_id :: "int option"
  pc_username :: "string option"
  pc_title :: "string option"
  pc_description :: "string option"
  pc_participants_count :: "int option"
  pc_is_public :: bool
  pc_reference :: "string option"

record public_message =
  pm_message_id :: int
  pm_chat_username :: "string option"
  pm_chat_id :: "int option"
  pm_author_id :: "int option"
  pm_author_username :: "string option"
  pm_text :: "string option"
  pm_posted_at :: "time option"
  pm_reply_to :: "int option"
  pm_forwarded_from :: "string option"
  pm_views :: "int option"
  pm_reference :: "string option"

record telegram_source =
  ts_name :: string
  ts_available :: "exn + bool"
  ts_profile :: "string \<Rightarrow> exn + public_profile option"
  ts_chat :: "string \<Rightarrow> exn + public_chat option"
  ts_messages :: "string \<Rightarrow> int \<Rightarrow> time option \<Rightarrow> exn + public_message list"
  ts_search :: "string \<Rightarrow> int \<Rightarrow> exn + public_message list"

definition null_source :: telegram_source where
  "null_source = \<lparr>ts_name = ''null'', ts_available = Inr False, ts_profile = (\<lambda>_. Inr None), ts_chat = (\<lambda>_. Inr None),
     ts_messages = (\<lambda>_ _ _. Inr []), ts_search = (\<lambda>_ _. Inr [])\<rparr>"

definition operator_source :: telegram_source where
  "operator_source = \<lparr>ts_name = ''operator'', ts_available = Inr False, ts_profile = (\<lambda>_. Inr None),
     ts_chat = (\<lambda>_. Inr None), ts_messages = (\<lambda>_ _ _. Inr []), ts_search = (\<lambda>_ _. Inr [])\<rparr>"

text \<open>The in-memory source. \<open>xs[:n]\<close> counts a negative \<open>n\<close> from the end.\<close>

definition py_take :: "int \<Rightarrow> 'a list \<Rightarrow> 'a list" where
  "py_take n xs = (if 0 \<le> n then take (nat n) xs else take (length xs - nat (- n)) xs)"

definition fake_key :: "string \<Rightarrow> string" where
  "fake_key u = lower (lstrip_by (\<lambda>c. c = CHR ''@'') (strip u))"

definition fake_messages :: "(string \<times> public_message list) list \<Rightarrow> string \<Rightarrow> int \<Rightarrow> time option \<Rightarrow> public_message list" where
  "fake_messages ms chat limit since =
     (let found = (case map_of ms (fake_key chat) of None \<Rightarrow> [] | Some l \<Rightarrow> l);
          recent = (case since of None \<Rightarrow> found
            | Some t \<Rightarrow> filter (\<lambda>m. case pm_posted_at m of None \<Rightarrow> True | Some p \<Rightarrow> t \<le> p) found)
      in py_take limit recent)"

definition fake_search :: "(string \<times> public_message list) list \<Rightarrow> string \<Rightarrow> int \<Rightarrow> public_message list" where
  "fake_search ms query limit =
     (let q = lower (strip query) in
      py_take limit (filter (\<lambda>m. case pm_text m of Some (c # s) \<Rightarrow> contains q (lower (c # s)) | _ \<Rightarrow> False)
        (concat (map snd ms))))"

definition fake_source ::
  "(string \<times> public_profile) list \<Rightarrow> (string \<times> public_chat) list \<Rightarrow> (string \<times> public_message list) list \<Rightarrow> telegram_source" where
  "fake_source profiles chats ms = \<lparr>ts_name = ''fake'', ts_available = Inr True,
     ts_profile = (\<lambda>u. Inr (map_of profiles (fake_key u))), ts_chat = (\<lambda>u. Inr (map_of chats (fake_key u))),
     ts_messages = (\<lambda>c l s. Inr (fake_messages ms c l s)), ts_search = (\<lambda>q l. Inr (fake_search ms q l))\<rparr>"

text \<open>The Bot API: what \<open>get_chat\<close> returns, read attribute by attribute.\<close>

record bot_chat =
  bc_type :: string
  bc_id :: "int option"
  bc_username :: "string option"
  bc_first_name :: "string option"
  bc_last_name :: "string option"
  bc_bio :: "string option"
  bc_is_bot :: bool
  bc_title :: "string option"
  bc_description :: "string option"

record bot_client =
  bot_get_chat :: "string \<Rightarrow> exn + bot_chat"
  bot_member_count :: "int option \<Rightarrow> exn + int"

definition bot_handle :: "string \<Rightarrow> string" where
  "bot_handle u =
     (let h = strip u in
      if prefix ''@'' h \<or> isdigit (lstrip_by (\<lambda>c. c = CHR ''-'') h) then h else CHR ''@'' # h)"

definition full_name :: "bot_chat \<Rightarrow> string option" where
  "full_name c =
     (let s = join '' '' (filter (\<lambda>p. p \<noteq> []) (List.map_filter (\<lambda>p. p) [bc_first_name c, bc_last_name c]))
      in if s = [] then None else Some s)"

definition tme_reference :: "string option \<Rightarrow> string option" where
  "tme_reference u = (case u of Some (c # s) \<Rightarrow> Some (''https://t.me/'' @ c # s) | _ \<Rightarrow> None)"

definition bot_profile :: "bot_client \<Rightarrow> string \<Rightarrow> exn + public_profile option" where
  "bot_profile b u =
     (case bot_get_chat b (bot_handle u) of
        Inl e \<Rightarrow> Inr None
      | Inr c \<Rightarrow>
          if bc_type c \<noteq> ''private'' then Inr None
          else Inr (Some \<lparr>pp_telegram_id = bc_id c, pp_username = bc_username c, pp_display_name = full_name c,
                 pp_bio = bc_bio c, pp_is_bot = bc_is_bot c, pp_is_verified = False, pp_is_scam = False,
                 pp_photo_reference = None, pp_reference = tme_reference (bc_username c)\<rparr>))"

definition bot_chat_of :: "bot_client \<Rightarrow> string \<Rightarrow> exn + public_chat option" where
  "bot_chat_of b u =
     (case bot_get_chat b (bot_handle u) of
        Inl e \<Rightarrow> Inr None
      | Inr c \<Rightarrow>
          if bc_type c = ''private'' then Inr None
          else Inr (Some \<lparr>pc_chat_type = bc_type c, pc_telegram_id = bc_id c, pc_username = bc_username c,
                 pc_title = bc_title c, pc_description = bc_description c,
                 pc_participants_count = (case bot_member_count b (bc_id c) of Inl e \<Rightarrow> None | Inr n \<Rightarrow> Some n),
                 pc_is_public = (tme_reference (bc_username c) \<noteq> None), pc_reference = tme_reference (bc_username c)\<rparr>))"

definition bot_api_source :: "bot_client \<Rightarrow> telegram_source" where
  "bot_api_source b = \<lparr>ts_name = ''bot_api'', ts_available = Inr True, ts_profile = bot_profile b,
     ts_chat = bot_chat_of b, ts_messages = (\<lambda>_ _ _. Inr []), ts_search = (\<lambda>_ _. Inr [])\<rparr>"

definition build_source :: "string \<Rightarrow> (string \<Rightarrow> exn + bot_client) \<Rightarrow> telegram_source" where
  "build_source token mk_bot =
     (if token = [] then null_source
      else (case mk_bot token of Inl e \<Rightarrow> null_source | Inr b \<Rightarrow> bot_api_source b))"

section \<open>Collecting\<close>

datatype tg_item = Profile_Item public_profile | Chat_Item public_chat | Message_Item public_message

definition kind_user :: string where "kind_user = ''telegram_user''"
definition kind_group :: string where "kind_group = ''telegram_group''"
definition kind_channel :: string where "kind_channel = ''telegram_channel''"
definition kind_message_search :: string where "kind_message_search = ''telegram_message_search''"

definition no_source :: string where
  "no_source = ''no public Telegram source is configured''"

definition tg_bundle :: "string \<Rightarrow> tg_item list \<Rightarrow> string option \<Rightarrow> string list \<Rightarrow> tg_item list raw_bundle" where
  "tg_bundle kind payload err notes = \<lparr>rb_kind = kind, rb_source = ''telegram_public'', rb_payload = payload,
     rb_partial = False, rb_error = err, rb_notes = notes\<rparr>"

definition collect_profile :: "telegram_source \<Rightarrow> collect_request \<Rightarrow> string \<Rightarrow> exn + tg_item list raw_bundle" where
  "collect_profile src rq handle =
     (case ts_profile src handle of
        Inl e \<Rightarrow> Inl e
      | Inr None \<Rightarrow> Inr (tg_bundle (rq_kind rq) [] None [''no public profile data available for this identifier''])
      | Inr (Some p) \<Rightarrow> Inr (tg_bundle (rq_kind rq) [Profile_Item p] None []))"

definition collect_chat :: "telegram_source \<Rightarrow> collect_request \<Rightarrow> string \<Rightarrow> exn + tg_item list raw_bundle" where
  "collect_chat src rq handle =
     (case ts_chat src handle of
        Inl e \<Rightarrow> Inl e
      | Inr None \<Rightarrow> Inr (tg_bundle (rq_kind rq) [] None [''no public data available for this chat''])
      | Inr (Some c) \<Rightarrow>
          (case ts_messages src handle (rq_limit rq) (rq_since rq) of
             Inl e \<Rightarrow> Inl e
           | Inr ms \<Rightarrow> Inr (tg_bundle (rq_kind rq) (Chat_Item c # map Message_Item ms) None
               (if ms = [] then [''message history is not publicly readable via this source''] else []))))"

definition collect_search :: "telegram_source \<Rightarrow> collect_request \<Rightarrow> string \<Rightarrow> exn + tg_item list raw_bundle" where
  "collect_search src rq handle =
     (case ts_search src handle (rq_limit rq) of
        Inl e \<Rightarrow> Inl e
      | Inr ms \<Rightarrow> Inr (tg_bundle (rq_kind rq) (map Message_Item ms) None
          (if ms = [] then [''message search returned nothing for this source''] else [])))"

definition tg_collect :: "telegram_source \<Rightarrow> collect_request \<Rightarrow> exn + tg_item list raw_bundle" where
  "tg_collect src rq =
     (case ts_available src of
        Inl e \<Rightarrow> Inl e
      | Inr False \<Rightarrow> Inr (tg_bundle (rq_kind rq) [] (Some no_source) [])
      | Inr True \<Rightarrow>
          (let handle = strip (rq_query rq) in
           if rq_kind rq = kind_user then collect_profile src rq handle
           else if rq_kind rq = kind_group \<or> rq_kind rq = kind_channel then collect_chat src rq handle
           else collect_search src rq handle))"

section \<open>Records\<close>

text \<open>\<open>repr\<close> of the values evidence is drafted from.\<close>

definition hex2 :: "nat \<Rightarrow> string" where
  "hex2 n = [''0123456789abcdef'' ! (n div 16), ''0123456789abcdef'' ! (n mod 16)]"

definition repr_char :: "char \<Rightarrow> char \<Rightarrow> string" where
  "repr_char q c =
     (if c = q \<or> c = CHR 0x5C then [CHR 0x5C, c]
      else if code c = 9 then [CHR 0x5C, CHR ''t'']
      else if code c = 10 then [CHR 0x5C, CHR ''n'']
      else if code c = 13 then [CHR 0x5C, CHR ''r'']
      else if code c < 32 \<or> (127 \<le> code c \<and> code c \<le> 160) \<or> code c = 173 then CHR 0x5C # CHR ''x'' # hex2 (code c)
      else [c])"

definition repr_str :: "string \<Rightarrow> string" where
  "repr_str s =
     (let q = (if CHR 0x27 \<in> set s \<and> CHR 0x22 \<notin> set s then CHR 0x22 else CHR 0x27)
      in q # concat (map (repr_char q) s) @ [q])"

fun py_repr :: "json \<Rightarrow> string" where
  "py_repr JNull = ''None''"
| "py_repr (JBool b) = (if b then ''True'' else ''False'')"
| "py_repr (JInt i) = show_int i"
| "py_repr (JStr s) = repr_str s"
| "py_repr (JList vs) = ''['' @ join '', '' (map py_repr vs) @ '']''"
| "py_repr (JObj kvs) = ''{'' @ join '', '' (map (\<lambda>(k, v). repr_str k @ '': '' @ py_repr v) kvs) @ ''}''"

definition tg_evidence :: "string \<Rightarrow> string \<Rightarrow> json \<Rightarrow> string option \<Rightarrow> int \<Rightarrow> evidence_draft" where
  "tg_evidence ref f v reference conf = \<lparr>dr_ref = ref, dr_field = Some f, dr_value = v,
     dr_source = ''telegram_public'', dr_source_type = ''telegram'', dr_reference = reference, dr_observed_at = None,
     dr_confidence = conf, dr_raw = Some (f @ ''='' @ py_repr v), dr_method = Some ''telegram_public_collector''\<rparr>"

text \<open>A dictionary entry whose value is not \<open>None\<close>; a username is used only if not empty.\<close>

definition entry :: "('a \<Rightarrow> json) \<Rightarrow> string \<Rightarrow> 'a option \<Rightarrow> (string \<times> json) list" where
  "entry f k v = (case v of None \<Rightarrow> [] | Some x \<Rightarrow> [(k, f x)])"

definition name_entries :: "string option \<Rightarrow> exn + (string \<times> json) list \<times> (string \<times> json) list" where
  "name_entries u =
     (case u of
        Some (c # s) \<Rightarrow> map_sum id (\<lambda>n. ([(''username_normalized'', JStr n)],
           [(''username'', JStr (c # s)), (''username_normalized'', JStr n)])) (normalize_username (c # s))
      | _ \<Rightarrow> Inr ([], []))"

definition attribute_evidence :: "string \<Rightarrow> string option \<Rightarrow> (string \<times> json) list \<Rightarrow> evidence_draft list" where
  "attribute_evidence ref reference attrs =
     map (\<lambda>(k, v). tg_evidence ref k v reference 80) (filter (\<lambda>(k, v). k \<noteq> ''username_normalized'') attrs)"

definition numbered :: "string \<Rightarrow> nat \<Rightarrow> string" where
  "numbered p i = p @ show_nat i"

definition normalize_profile :: "public_profile \<Rightarrow> nat \<Rightarrow> exn + normalized_record" where
  "normalize_profile p i =
     (case name_entries (pp_username p) of
        Inl e \<Rightarrow> Inl e
      | Inr (nk, names) \<Rightarrow>
          (let ref = numbered ''account-'' i;
               attrs = entry JStr ''display_name'' (pp_display_name p) @ entry JStr ''bio'' (pp_bio p) @
                 [(''is_bot'', JBool (pp_is_bot p)), (''is_verified'', JBool (pp_is_verified p)), (''is_scam'', JBool (pp_is_scam p))] @
                 entry JStr ''photo_reference'' (pp_photo_reference p) @ names
           in Inr \<lparr>nr_ref = ref, nr_entity_type = E_TELEGRAM_ACCOUNT,
                nr_natural_key = entry JInt ''telegram_id'' (pp_telegram_id p) @ nk, nr_attributes = attrs,
                nr_evidence = attribute_evidence ref (pp_reference p) attrs\<rparr>))"

definition normalize_chat :: "public_chat \<Rightarrow> string \<Rightarrow> nat \<Rightarrow> exn + normalized_record" where
  "normalize_chat c kind i =
     (case name_entries (pc_username c) of
        Inl e \<Rightarrow> Inl e
      | Inr (nk, names) \<Rightarrow>
          (let ref = numbered ''chat-'' i;
               attrs = entry JStr ''title'' (pc_title c) @ entry JStr ''description'' (pc_description c) @
                 entry JInt ''participants_count'' (pc_participants_count c) @ [(''is_public'', JBool (pc_is_public c))] @ names
           in Inr \<lparr>nr_ref = ref,
                nr_entity_type = (if pc_chat_type c = ''channel'' \<or> kind = kind_channel then E_TELEGRAM_CHANNEL else E_TELEGRAM_GROUP),
                nr_natural_key = entry JInt ''telegram_id'' (pc_telegram_id c) @ nk, nr_attributes = attrs,
                nr_evidence = attribute_evidence ref (pc_reference c) attrs\<rparr>))"

definition body_url_re :: regex where
  "body_url_re = seqs [lit_nc ''http'', opt (lit_nc ''s''), lit ''://'',
     plus (Chr (\<lambda>c. \<not> is_space c \<and> c \<notin> {CHR ''<'', CHR ''>'', CHR 0x22, CHR 0x27, CHR '')''}))]"

definition body_mention_re :: regex where
  "body_mention_re = seqs [NotAfter (\<lambda>c. is_word c \<or> c = CHR ''@''), chr CHR ''@'', Chr is_alpha_az, Rep 3 (Some 31) (Chr is_word_az)]"

definition found_urls :: "string \<Rightarrow> string list" where
  "found_urls txt = sort (remdups (map (\<lambda>(a, b). slice txt a b) (finditer body_url_re txt)))"

definition found_mentions :: "string \<Rightarrow> string list" where
  "found_mentions txt = sort (remdups (map (\<lambda>(a, b). lower (drop 1 (slice txt a b))) (finditer body_mention_re txt)))"

definition nonempty :: "string list \<Rightarrow> string list option" where
  "nonempty xs = (if xs = [] then None else Some xs)"

definition chat_key :: "public_message \<Rightarrow> exn + string" where
  "chat_key m =
     (case pm_chat_username m of
        Some (c # s) \<Rightarrow> normalize_username (c # s)
      | _ \<Rightarrow> Inr (case pm_chat_id m of Some i \<Rightarrow> if i = 0 then ''unknown'' else show_int i | None \<Rightarrow> ''unknown''))"

definition normalize_message :: "public_message \<Rightarrow> nat \<Rightarrow> normalized_record option \<Rightarrow> exn + normalized_record" where
  "normalize_message m i container =
     (case chat_key m of
        Inl e \<Rightarrow> Inl e
      | Inr key \<Rightarrow>
          (let ref = numbered ''message-'' i; txt = (case pm_text m of None \<Rightarrow> [] | Some t \<Rightarrow> t);
               strs = (\<lambda>xs. JList (map JStr xs)) in
           Inr \<lparr>nr_ref = ref, nr_entity_type = E_MESSAGE,
             nr_natural_key = [(''container_key'', JStr key), (''message_id'', JInt (pm_message_id m))],
             nr_attributes =
               entry JStr ''text'' (pm_text m) @ entry JInt ''posted_at'' (pm_posted_at m) @
               entry JStr ''author_username'' (pm_author_username m) @ entry JInt ''author_id'' (pm_author_id m) @
               entry JInt ''reply_to_message_id'' (pm_reply_to m) @ entry JStr ''forwarded_from'' (pm_forwarded_from m) @
               entry JInt ''views'' (pm_views m) @ entry JStr ''source_url'' (pm_reference m) @
               entry strs ''urls_json'' (nonempty (found_urls txt)) @
               entry strs ''usernames_json'' (nonempty (found_mentions txt)) @
               entry (\<lambda>c. JStr (nr_ref c)) ''_container_ref'' container,
             nr_evidence = (if txt = [] then [] else [tg_evidence ref ''text'' (JStr txt) (pm_reference m) 85])\<rparr>))"

text \<open>The containers a search implies: one channel per chat name, kept with its key.\<close>

type_synonym synth = "(string \<times> normalized_record) list"

definition synth_container :: "synth \<Rightarrow> string \<Rightarrow> string \<Rightarrow> synth" where
  "synth_container sy key u =
     (if key \<in> fst ` set sy then sy
      else sy @ [(key, \<lparr>nr_ref = numbered ''chat-synth-'' (length sy), nr_entity_type = E_TELEGRAM_CHANNEL,
        nr_natural_key = [(''username_normalized'', JStr key)],
        nr_attributes = [(''username'', JStr u), (''username_normalized'', JStr key)], nr_evidence = []\<rparr>)])"

definition is_chat_item :: "tg_item \<Rightarrow> bool" where
  "is_chat_item it = (case it of Chat_Item c \<Rightarrow> True | _ \<Rightarrow> False)"

definition normalize_found ::
  "bool \<Rightarrow> public_message \<Rightarrow> nat \<Rightarrow> synth \<times> normalized_record list \<Rightarrow> exn + synth \<times> normalized_record list" where
  "normalize_found have_chat m i st =
     (case (case pm_chat_username m of
              Some (c # s) \<Rightarrow> map_sum id (\<lambda>key. (key, if have_chat then fst st else synth_container (fst st) key (c # s)))
                               (normalize_username (c # s))
            | _ \<Rightarrow> Inr ([], fst st)) of
        Inl e \<Rightarrow> Inl e
      | Inr (key, sy) \<Rightarrow>
          (case normalize_message m i (map_of sy key) of Inl e \<Rightarrow> Inl e | Inr r \<Rightarrow> Inr (sy, snd st @ [r])))"

definition normalize_item ::
  "bool \<Rightarrow> string \<Rightarrow> nat \<times> tg_item \<Rightarrow> synth \<times> normalized_record list \<Rightarrow> exn + synth \<times> normalized_record list" where
  "normalize_item have_chat kind x st =
     (case snd x of
        Profile_Item p \<Rightarrow> map_sum id (\<lambda>r. (fst st, snd st @ [r])) (normalize_profile p (fst x))
      | Chat_Item c \<Rightarrow> map_sum id (\<lambda>r. (fst st, snd st @ [r])) (normalize_chat c kind (fst x))
      | Message_Item m \<Rightarrow> normalize_found have_chat m (fst x) st)"

definition tg_normalize :: "tg_item list raw_bundle \<Rightarrow> exn + normalized_record list" where
  "tg_normalize raw =
     (case foldE (normalize_item (list_ex is_chat_item (rb_payload raw)) (rb_kind raw)) (enumerate 0 (rb_payload raw)) ([], []) of
        Inl e \<Rightarrow> Inl e
      | Inr (sy, recs) \<Rightarrow> Inr (map snd sy @ recs))"

section \<open>Edges\<close>

definition is_chat_record :: "normalized_record \<Rightarrow> bool" where
  "is_chat_record r \<longleftrightarrow> nr_entity_type r = E_TELEGRAM_GROUP \<or> nr_entity_type r = E_TELEGRAM_CHANNEL"

definition single_container :: "normalized_record list \<Rightarrow> string option" where
  "single_container recs = (case remdups (map nr_ref (filter is_chat_record recs)) of [ref] \<Rightarrow> Some ref | _ \<Rightarrow> None)"

definition message_container :: "normalized_record list \<Rightarrow> normalized_record \<Rightarrow> string option" where
  "message_container recs r =
     (case text_attr ''_container_ref'' (nr_attributes r) of Some ref \<Rightarrow> Some ref | None \<Rightarrow> single_container recs)"

definition container_rel :: "string \<Rightarrow> normalized_record list \<Rightarrow> string \<Rightarrow> rel_type" where
  "container_rel kind recs ref =
     (if kind = kind_channel \<or>
         (case find (\<lambda>c. nr_ref c = ref) (rev (filter is_chat_record recs)) of
            None \<Rightarrow> False | Some c \<Rightarrow> nr_entity_type c = E_TELEGRAM_CHANNEL)
      then MESSAGE_IN_CHANNEL else MESSAGE_IN_GROUP)"

definition tg_relationships :: "tg_item list raw_bundle \<Rightarrow> normalized_record list \<Rightarrow> relationship_draft list" where
  "tg_relationships raw recs =
     List.map_filter (\<lambda>r.
       if nr_entity_type r \<noteq> E_MESSAGE then None
       else map_option (\<lambda>ref. \<lparr>rd_source_ref = nr_ref r, rd_target_ref = ref,
              rd_type = container_rel (rb_kind raw) recs ref, rd_confidence = 90\<rparr>) (message_container recs r)) recs"

section \<open>The collector\<close>

definition tg_supported :: "string \<Rightarrow> bool" where
  "tg_supported kind \<longleftrightarrow> kind \<in> {kind_user, kind_group, kind_channel, kind_message_search}"

definition tg_run :: "telegram_source \<Rightarrow> collect_request \<Rightarrow> exn + collect_result" where
  "tg_run src rq = run_collector ''telegram_public'' (tg_supported (rq_kind rq)) (rq_kind rq) (tg_collect src rq) tg_normalize tg_relationships"

definition tg_health :: "telegram_source \<Rightarrow> health_status" where
  "tg_health src =
     (case ts_available src of
        Inl e \<Rightarrow> \<lparr>hs_name = ''telegram_public'', hs_healthy = False, hs_detail = Some (exn_str e)\<rparr>
      | Inr ok \<Rightarrow> \<lparr>hs_name = ''telegram_public'', hs_healthy = ok,
          hs_detail = Some (''source='' @ ts_name src @ (if ok then [] else '' (unavailable)''))\<rparr>)"

section \<open>Lemmas\<close>

lemma show_nat_inj [simp]: "show_nat i = show_nat j \<longleftrightarrow> i = j"
  by (metis dec_value_show_nat)

lemma numbered_inj [simp]: "numbered p i = numbered p j \<longleftrightarrow> i = j"
  by (simp add: numbered_def)

lemma show_nat_head: "\<exists>c w. show_nat i = c # w \<and> is_decimal c"
  using show_nat_decimal [of i] by (cases "show_nat i") auto

lemma numbered_kinds [simp]:
  "numbered ''account-'' i \<noteq> numbered ''chat-'' j" "numbered ''account-'' i \<noteq> numbered ''message-'' j"
  "numbered ''account-'' i \<noteq> numbered ''chat-synth-'' j" "numbered ''chat-'' i \<noteq> numbered ''message-'' j"
  "numbered ''chat-synth-'' i \<noteq> numbered ''message-'' j" "numbered ''chat-'' i \<noteq> numbered ''chat-synth-'' j"
  using show_nat_head [of i] by (auto simp: numbered_def is_decimal_def code_def)

lemma map_sum_Inr: "map_sum id f x = Inr y \<Longrightarrow> (\<And>z. x = Inr z \<Longrightarrow> y = f z \<Longrightarrow> P) \<Longrightarrow> P"
  by (cases x) auto

text \<open>What one item of the payload becomes.\<close>

definition item_ref :: "nat \<times> tg_item \<Rightarrow> string" where
  "item_ref x = numbered (case snd x of Profile_Item p \<Rightarrow> ''account-'' | Chat_Item c \<Rightarrow> ''chat-'' | Message_Item m \<Rightarrow> ''message-'') (fst x)"

definition from_item :: "string \<Rightarrow> synth \<Rightarrow> nat \<times> tg_item \<Rightarrow> normalized_record \<Rightarrow> bool" where
  "from_item kind sy x r \<longleftrightarrow>
     (case snd x of
        Profile_Item p \<Rightarrow> normalize_profile p (fst x) = Inr r
      | Chat_Item c \<Rightarrow> normalize_chat c kind (fst x) = Inr r
      | Message_Item m \<Rightarrow> \<exists>c. normalize_message m (fst x) c = Inr r \<and> (\<forall>y. c = Some y \<longrightarrow> y \<in> snd ` set sy))"

lemma normalize_profile_facts:
  assumes "normalize_profile p i = Inr r"
  shows "nr_ref r = numbered ''account-'' i" "nr_entity_type r = E_TELEGRAM_ACCOUNT"
    "\<forall>ev \<in> set (nr_evidence r). dr_ref ev = nr_ref r \<and> dr_source ev = ''telegram_public''"
  using assms by (auto simp: normalize_profile_def Let_def attribute_evidence_def tg_evidence_def split: sum.splits)

lemma normalize_chat_facts:
  assumes "normalize_chat c kind i = Inr r"
  shows "nr_ref r = numbered ''chat-'' i" "is_chat_record r" "kind = kind_channel \<longrightarrow> nr_entity_type r = E_TELEGRAM_CHANNEL"
    "\<forall>ev \<in> set (nr_evidence r). dr_ref ev = nr_ref r \<and> dr_source ev = ''telegram_public''"
  using assms by (auto simp: normalize_chat_def is_chat_record_def Let_def attribute_evidence_def tg_evidence_def split: sum.splits)

lemma normalize_message_facts:
  assumes "normalize_message m i c = Inr r"
  shows "nr_ref r = numbered ''message-'' i" "nr_entity_type r = E_MESSAGE"
    "\<forall>ev \<in> set (nr_evidence r). dr_ref ev = nr_ref r \<and> dr_source ev = ''telegram_public''"
  using assms by (auto simp: normalize_message_def Let_def tg_evidence_def split: sum.splits if_splits)

lemma map_of_entry: "map_of (entry f k v @ kvs) j = (if j = k \<and> v \<noteq> None then map_option f v else map_of kvs j)"
  by (cases v) (auto simp: entry_def)

lemma map_of_entry_last: "map_of (entry f k v) j = (if j = k then map_option f v else None)"
  by (cases v) (auto simp: entry_def)

text \<open>The attributes of a message are what the source said.\<close>

definition attrs_of :: "public_message \<Rightarrow> normalized_record \<Rightarrow> bool" where
  "attrs_of m r \<longleftrightarrow>
     map_of (nr_attributes r) ''text'' = map_option JStr (pm_text m) \<and>
     map_of (nr_attributes r) ''author_username'' = map_option JStr (pm_author_username m) \<and>
     map_of (nr_attributes r) ''author_id'' = map_option JInt (pm_author_id m) \<and>
     map_of (nr_attributes r) ''reply_to_message_id'' = map_option JInt (pm_reply_to m) \<and>
     map_of (nr_attributes r) ''posted_at'' = map_option JInt (pm_posted_at m) \<and>
     map_of (nr_attributes r) ''source_url'' = map_option JStr (pm_reference m)"

lemma normalize_message_attrs:
  assumes "normalize_message m i c = Inr r"
  shows "attrs_of m r"
    "map_of (nr_attributes r) ''_container_ref'' = map_option (\<lambda>c. JStr (nr_ref c)) c"
    "map_of (nr_attributes r) ''message_id'' = None"
proof -
  from assms obtain key where r: "nr_attributes r =
      entry JStr ''text'' (pm_text m) @ entry JInt ''posted_at'' (pm_posted_at m) @
      entry JStr ''author_username'' (pm_author_username m) @ entry JInt ''author_id'' (pm_author_id m) @
      entry JInt ''reply_to_message_id'' (pm_reply_to m) @ entry JStr ''forwarded_from'' (pm_forwarded_from m) @
      entry JInt ''views'' (pm_views m) @ entry JStr ''source_url'' (pm_reference m) @
      entry (\<lambda>xs. JList (map JStr xs)) ''urls_json'' (nonempty (found_urls (case pm_text m of None \<Rightarrow> [] | Some t \<Rightarrow> t))) @
      entry (\<lambda>xs. JList (map JStr xs)) ''usernames_json'' (nonempty (found_mentions (case pm_text m of None \<Rightarrow> [] | Some t \<Rightarrow> t))) @
      entry (\<lambda>c. JStr (nr_ref c)) ''_container_ref'' c"
    by (auto simp: normalize_message_def Let_def split: sum.splits)
  show "attrs_of m r" unfolding attrs_of_def r
    by (simp add: map_of_entry map_of_entry_last del: map_of_append)
  show "map_of (nr_attributes r) ''_container_ref'' = map_option (\<lambda>c. JStr (nr_ref c)) c" unfolding r
    by (simp add: map_of_entry map_of_entry_last del: map_of_append)
  show "map_of (nr_attributes r) ''message_id'' = None" unfolding r
    by (simp add: map_of_entry map_of_entry_last del: map_of_append)
qed

text \<open>The synthesised containers.\<close>

definition synth_ok :: "synth \<Rightarrow> bool" where
  "synth_ok sy \<longleftrightarrow> distinct (map fst sy) \<and>
     (\<forall>j < length sy. nr_ref (snd (sy ! j)) = numbered ''chat-synth-'' j \<and> nr_entity_type (snd (sy ! j)) = E_TELEGRAM_CHANNEL \<and>
        nr_natural_key (snd (sy ! j)) = [(''username_normalized'', JStr (fst (sy ! j)))] \<and> nr_evidence (snd (sy ! j)) = [])"

lemma synth_container_ok: "synth_ok sy \<Longrightarrow> synth_ok (synth_container sy key u) \<and> prefix sy (synth_container sy key u)"
  by (auto simp: synth_ok_def synth_container_def nth_append less_Suc_eq)

definition chat_named :: "public_message \<Rightarrow> string \<Rightarrow> string \<Rightarrow> bool" where
  "chat_named m u key \<longleftrightarrow> pm_chat_username m = Some u \<and> normalize_username u = Inr key"

lemma normalize_found_step:
  assumes "normalize_found hc m i (sy, recs) = Inr (sy', recs')"
  shows "\<exists>key r. (sy' = sy \<or> \<not> hc \<and> (\<exists>u. chat_named m u key \<and> sy' = synth_container sy key u)) \<and>
    normalize_message m i (map_of sy' key) = Inr r \<and> recs' = recs @ [r]"
proof -
  let ?named = "case pm_chat_username m of
              Some (c # s) \<Rightarrow> map_sum id (\<lambda>key. (key, if hc then sy else synth_container sy key (c # s)))
                               (normalize_username (c # s))
            | _ \<Rightarrow> Inr ([], sy)"
  from assms obtain key r where n: "?named = Inr (key, sy')" "normalize_message m i (map_of sy' key) = Inr r" "recs' = recs @ [r]"
    unfolding normalize_found_def fst_conv snd_conv by (auto split: sum.splits prod.splits)
  from n(1) have "sy' = sy \<or> \<not> hc \<and> (\<exists>u. chat_named m u key \<and> sy' = synth_container sy key u)"
    by (auto simp: chat_named_def split: option.splits list.splits if_splits elim!: map_sum_Inr)
  with n(2,3) show ?thesis by blast
qed

lemma synth_container_keys: "fst ` set (synth_container sy key u) = insert key (fst ` set sy)"
  by (auto simp: synth_container_def)

lemma normalize_item_step:
  assumes "normalize_item hc kind x (sy, recs) = Inr (sy', recs')" and "synth_ok sy"
  shows "synth_ok sy' \<and> prefix sy sy' \<and> (hc \<longrightarrow> sy' = sy) \<and> (\<exists>r. recs' = recs @ [r] \<and> from_item kind sy' x r) \<and>
    (\<forall>k \<in> fst ` set sy'. k \<in> fst ` set sy \<or> (\<exists>m u. snd x = Message_Item m \<and> chat_named m u k))"
proof (cases "snd x")
  case (Message_Item m)
  with assms(1) obtain key r where sy: "sy' = sy \<or> \<not> hc \<and> (\<exists>u. chat_named m u key \<and> sy' = synth_container sy key u)"
      and r: "normalize_message m (fst x) (map_of sy' key) = Inr r" "recs' = recs @ [r]"
    using normalize_found_step [of hc m "fst x" sy recs sy' recs'] by (auto simp: normalize_item_def)
  have "from_item kind sy' x r" using Message_Item r(1) by (force simp: from_item_def dest: map_of_SomeD)
  moreover have "fst ` set sy' \<subseteq> fst ` set sy \<union> {k. \<exists>u. chat_named m u k}"
    using sy by (elim disjE conjE exE) (simp_all only: synth_container_keys, auto)
  then have "\<forall>k \<in> fst ` set sy'. k \<in> fst ` set sy \<or> (\<exists>m u. snd x = Message_Item m \<and> chat_named m u k)"
    using Message_Item by blast
  ultimately show ?thesis using sy r(2) assms(2) synth_container_ok [OF assms(2)] by auto
qed (use assms in \<open>auto simp: normalize_item_def from_item_def split: sum.splits elim!: map_sum_Inr\<close>)

lemma normalize_items:
  assumes "foldE (normalize_item hc kind) (enumerate n items) (sy, recs) = Inr (sy', recs')" and "synth_ok sy"
  shows "synth_ok sy' \<and> prefix sy sy' \<and> (hc \<longrightarrow> sy' = sy) \<and>
    (\<exists>rs. recs' = recs @ rs \<and> list_all2 (from_item kind sy') (enumerate n items) rs) \<and>
    (\<forall>k \<in> fst ` set sy'. k \<in> fst ` set sy \<or> (\<exists>m u. Message_Item m \<in> set items \<and> chat_named m u k))"
  using assms
proof (induction items arbitrary: n sy recs)
  case (Cons it items)
  from Cons.prems(1) obtain sy1 recs1 where
      s1: "normalize_item hc kind (n, it) (sy, recs) = Inr (sy1, recs1)" and
      s2: "foldE (normalize_item hc kind) (enumerate (Suc n) items) (sy1, recs1) = Inr (sy', recs')"
    by (auto split: sum.splits)
  from normalize_item_step [OF s1 Cons.prems(2)] obtain r where
      r: "synth_ok sy1" "prefix sy sy1" "hc \<longrightarrow> sy1 = sy" "recs1 = recs @ [r]" "from_item kind sy1 (n, it) r"
      "\<forall>k \<in> fst ` set sy1. k \<in> fst ` set sy \<or> (\<exists>m u. it = Message_Item m \<and> chat_named m u k)" unfolding snd_conv by blast
  from Cons.IH [OF s2 r(1)] obtain rs where
      rs: "synth_ok sy'" "prefix sy1 sy'" "hc \<longrightarrow> sy' = sy1" "recs' = recs1 @ rs" "list_all2 (from_item kind sy') (enumerate (Suc n) items) rs"
      "\<forall>k \<in> fst ` set sy'. k \<in> fst ` set sy1 \<or> (\<exists>m u. Message_Item m \<in> set items \<and> chat_named m u k)"
    by blast
  have "from_item kind sy' (n, it) r"
    using r(5) set_mono_prefix [OF rs(2)] by (fastforce simp: from_item_def split: tg_item.splits)
  moreover have "\<forall>k \<in> fst ` set sy'. k \<in> fst ` set sy \<or> (\<exists>m u. Message_Item m \<in> set (it # items) \<and> chat_named m u k)"
    using r(6) rs(6) by (metis list.set_intros)
  ultimately show ?case using r(1-5) rs(1-5) by (auto intro: prefix_order.trans)
qed simp

lemma from_item_facts:
  assumes "from_item kind sy x r"
  shows "nr_ref r = item_ref x \<and> (nr_entity_type r = E_MESSAGE) = (\<exists>m. snd x = Message_Item m) \<and>
    is_chat_record r = (\<exists>c. snd x = Chat_Item c) \<and>
    (\<forall>ev \<in> set (nr_evidence r). dr_ref ev = nr_ref r \<and> dr_source ev = ''telegram_public'')"
proof (cases "snd x")
  case (Profile_Item p)
  with assms have n: "normalize_profile p (fst x) = Inr r" by (simp add: from_item_def)
  note f = normalize_profile_facts [OF n]
  show ?thesis using Profile_Item f by (simp add: item_ref_def is_chat_record_def)
next
  case (Chat_Item c)
  with assms have n: "normalize_chat c kind (fst x) = Inr r" by (simp add: from_item_def)
  note f = normalize_chat_facts [OF n]
  have "nr_entity_type r \<noteq> E_MESSAGE" using f(2) by (auto simp: is_chat_record_def)
  with Chat_Item f show ?thesis by (simp add: item_ref_def)
next
  case (Message_Item m)
  with assms obtain c where n: "normalize_message m (fst x) c = Inr r" by (auto simp: from_item_def)
  note f = normalize_message_facts [OF n]
  show ?thesis using Message_Item f by (simp add: item_ref_def is_chat_record_def)
qed

text \<open>The references of a batch are distinct, and everything in it comes from the payload or is a synthesised channel.\<close>

definition item_refs :: "nat \<Rightarrow> tg_item list \<Rightarrow> string list" where
  "item_refs n items = map item_ref (enumerate n items)"

lemma item_ref_fst: "item_ref x = item_ref y \<Longrightarrow> fst x = fst y"
  by (cases "snd x"; cases "snd y") (simp_all add: item_ref_def numbered_kinds [symmetric])

lemma item_refs_distinct: "distinct (item_refs n items)"
proof -
  have "inj_on item_ref (set (enumerate n items))"
  proof (rule inj_onI)
    fix x y assume xy: "x \<in> set (enumerate n items)" "y \<in> set (enumerate n items)" "item_ref x = item_ref y"
    from item_ref_fst [OF xy(3)] xy(1,2) show "x = y" by (intro prod_eqI) (auto simp: in_set_enumerate_eq)
  qed
  then show ?thesis by (simp add: item_refs_def distinct_map)
qed

lemma synth_refs: "synth_ok sy \<Longrightarrow> map (nr_ref \<circ> snd) sy = map (numbered ''chat-synth-'') [0..<length sy]"
  by (rule nth_equalityI) (auto simp: synth_ok_def)

definition from_source :: "string \<Rightarrow> tg_item list \<Rightarrow> synth \<Rightarrow> normalized_record \<Rightarrow> bool" where
  "from_source kind items sy r \<longleftrightarrow> r \<in> snd ` set sy \<or> (\<exists>x \<in> set (enumerate 0 items). from_item kind sy x r)"

lemma list_all2_right: "list_all2 P xs ys \<Longrightarrow> y \<in> set ys \<Longrightarrow> \<exists>x \<in> set xs. P x y"
  by (induction rule: list_all2_induct) auto

lemma tg_normalize_spec:
  assumes "tg_normalize raw = Inr recs"
  obtains sy where "synth_ok sy" "list_ex is_chat_item (rb_payload raw) \<longrightarrow> sy = []" "distinct (map nr_ref recs)"
    "snd ` set sy \<subseteq> set recs" "\<forall>r \<in> set recs. from_source (rb_kind raw) (rb_payload raw) sy r"
    "length recs = length sy + length (rb_payload raw)"
    "\<forall>k \<in> fst ` set sy. \<exists>m u. Message_Item m \<in> set (rb_payload raw) \<and> chat_named m u k"
proof -
  let ?items = "enumerate 0 (rb_payload raw)"
  from assms obtain sy rs where run: "foldE (normalize_item (list_ex is_chat_item (rb_payload raw)) (rb_kind raw)) ?items ([], []) = Inr (sy, rs)"
      and recs: "recs = map snd sy @ rs"
    by (auto simp: tg_normalize_def split: sum.splits)
  have "synth_ok []" by (simp add: synth_ok_def)
  from normalize_items [OF run this] have ok: "synth_ok sy" "list_ex is_chat_item (rb_payload raw) \<longrightarrow> sy = []"
      "list_all2 (from_item (rb_kind raw) sy) ?items rs"
      "\<forall>k \<in> fst ` set sy. \<exists>m u. Message_Item m \<in> set (rb_payload raw) \<and> chat_named m u k" by auto
  have refs: "map nr_ref rs = item_refs 0 (rb_payload raw)"
    unfolding item_refs_def using ok(3) by (induction rule: list_all2_induct) (auto dest: from_item_facts)
  have "numbered ''chat-synth-'' j \<notin> set (item_refs 0 (rb_payload raw))" for j
    by (auto simp: item_refs_def item_ref_def numbered_kinds [symmetric] split: tg_item.splits)
  moreover have "distinct (map (numbered ''chat-synth-'') [0..<length sy])" by (simp add: distinct_map inj_on_def)
  moreover have "map nr_ref recs = map (numbered ''chat-synth-'') [0..<length sy] @ item_refs 0 (rb_payload raw)"
    using synth_refs [OF ok(1)] refs by (simp add: recs)
  ultimately have "distinct (map nr_ref recs)" using item_refs_distinct [of 0 "rb_payload raw"] by auto
  moreover have "\<forall>r \<in> set rs. \<exists>x \<in> set ?items. from_item (rb_kind raw) sy x r"
    using ok(3) by (auto dest: list_all2_right)
  ultimately show thesis
    using that [OF ok(1,2)] recs list_all2_lengthD [OF ok(3)] ok(4) by (auto simp: from_source_def)
qed

lemma subseq_distinct: "subseq xs ys \<Longrightarrow> distinct ys \<Longrightarrow> distinct xs"
proof (induction rule: list_emb.induct)
  case (list_emb_Cons2 x y xs ys)
  then show ?case using list_emb_set [OF list_emb_Cons2.hyps(2)] by auto
qed auto

lemma same_ref:
  assumes "distinct (map nr_ref rs)" "x \<in> set rs" "y \<in> set rs" "nr_ref x = nr_ref y" shows "x = y"
  using assms by (auto simp: distinct_map inj_on_def)

lemma find_unique: "distinct (map k xs) \<Longrightarrow> x \<in> set xs \<Longrightarrow> find (\<lambda>y. k y = k x) xs = Some x"
  by (induction xs) auto

definition container_edge :: "entity_type \<Rightarrow> rel_type" where
  "container_edge et = (if et = E_TELEGRAM_CHANNEL then MESSAGE_IN_CHANNEL else MESSAGE_IN_GROUP)"

lemma container_rel_eq:
  assumes "distinct (map nr_ref recs)" "c \<in> set recs" "is_chat_record c"
    and "kind = kind_channel \<Longrightarrow> nr_entity_type c = E_TELEGRAM_CHANNEL"
  shows "container_rel kind recs (nr_ref c) = container_edge (nr_entity_type c)"
proof -
  have "distinct (map nr_ref (rev (filter is_chat_record recs)))"
    using assms(1) by (simp add: distinct_map_filter rev_map [symmetric])
  from find_unique [OF this, of c] assms show ?thesis by (auto simp: container_rel_def container_edge_def)
qed

text \<open>The edges of a batch: each leaves a message, and points to its container if that is in the batch.\<close>

definition edge_ok :: "normalized_record list \<Rightarrow> relationship_draft \<Rightarrow> bool" where
  "edge_ok recs e \<longleftrightarrow>
     (\<exists>r \<in> set recs. nr_entity_type r = E_MESSAGE \<and> nr_ref r = rd_source_ref e) \<and>
     (\<forall>c \<in> set recs. nr_ref c = rd_target_ref e \<longrightarrow> is_chat_record c \<and> rd_type e = container_edge (nr_entity_type c))"

lemma synth_member:
  assumes "synth_ok sy" "y \<in> snd ` set sy"
  obtains j k where "nr_ref y = numbered ''chat-synth-'' j" "nr_entity_type y = E_TELEGRAM_CHANNEL" "(k, y) \<in> set sy"
    "nr_natural_key y = [(''username_normalized'', JStr k)]"
proof -
  from assms(2) obtain j where j: "j < length sy" "y = snd (sy ! j)" by (auto simp: in_set_conv_nth)
  then have "(fst (sy ! j), y) \<in> set sy" by (metis nth_mem prod.collapse)
  with j assms(1) show thesis using that unfolding synth_ok_def by blast
qed

lemma from_source_container:
  assumes "synth_ok sy" "from_source kind items sy c" "is_chat_record c" "kind = kind_channel"
  shows "nr_entity_type c = E_TELEGRAM_CHANNEL"
proof (cases "c \<in> snd ` set sy")
  case True
  from synth_member [OF assms(1) True] show ?thesis by metis
next
  case False
  with assms(2) obtain x where x: "from_item kind sy x c" by (auto simp: from_source_def)
  with from_item_facts [OF x] assms(3,4) show ?thesis by (auto simp: from_item_def dest: normalize_chat_facts(3))
qed

text \<open>Where the container of a message is not in the batch, it was a synthesised one without a key.\<close>

definition unnamed_chat :: "tg_item list \<Rightarrow> bool" where
  "unnamed_chat items \<longleftrightarrow> (\<exists>m u. Message_Item m \<in> set items \<and> chat_named m u [])"

lemma message_from_source:
  assumes "synth_ok sy" "from_source kind items sy r" "nr_entity_type r = E_MESSAGE"
  obtains m c where "Message_Item m \<in> set items" "attrs_of m r" "\<forall>y. c = Some y \<longrightarrow> y \<in> snd ` set sy"
    "map_of (nr_attributes r) ''_container_ref'' = map_option (\<lambda>c. JStr (nr_ref c)) c"
    "map_of (nr_attributes r) ''message_id'' = None"
proof -
  have "r \<notin> snd ` set sy" using synth_member [OF assms(1), of r] assms(3) by auto
  with assms(2) obtain x where x: "x \<in> set (enumerate 0 items)" "from_item kind sy x r" by (auto simp: from_source_def)
  from from_item_facts [OF x(2)] assms(3) obtain m where m: "snd x = Message_Item m" by auto
  with x(2) obtain c where c: "normalize_message m (fst x) c = Inr r" "\<forall>y. c = Some y \<longrightarrow> y \<in> snd ` set sy"
    by (auto simp: from_item_def)
  have "Message_Item m \<in> set items" using x(1) m by (auto simp: in_set_enumerate_eq) (metis nth_mem)
  from that [OF this normalize_message_attrs(1) [OF c(1)] c(2) normalize_message_attrs(2,3) [OF c(1)]] show thesis .
qed

lemma numbered_not_Nil: "numbered p i \<noteq> []"
  by (simp add: numbered_def)

lemma edges_ok:
  assumes norm: "tg_normalize raw = Inr recs" and val: "validate recs = Inr out" and e: "e \<in> set (tg_relationships raw out)"
  shows "edge_ok out e \<and> ((\<exists>c \<in> set out. nr_ref c = rd_target_ref e) \<or> unnamed_chat (rb_payload raw))"
proof -
  from tg_normalize_spec [OF norm] obtain sy where sy: "synth_ok sy" "list_ex is_chat_item (rb_payload raw) \<longrightarrow> sy = []"
      "distinct (map nr_ref recs)" "snd ` set sy \<subseteq> set recs" "\<forall>r \<in> set recs. from_source (rb_kind raw) (rb_payload raw) sy r"
      "\<forall>k \<in> fst ` set sy. \<exists>m u. Message_Item m \<in> set (rb_payload raw) \<and> chat_named m u k" by metis
  note v = validate_from_spec [OF val [unfolded validate_def]]
  have sub: "set out \<subseteq> set recs" using v by (auto elim: list_emb_set)
  have dist: "distinct (map nr_ref out)" using subseq_distinct [OF subseq_map sy(3)] v by blast
  from e obtain r where r: "r \<in> set out" "nr_entity_type r = E_MESSAGE" "nr_ref r = rd_source_ref e"
      "message_container out r = Some (rd_target_ref e)" "rd_type e = container_rel (rb_kind raw) out (rd_target_ref e)"
    by (auto simp: tg_relationships_def List.map_filter_def split: if_splits)
  obtain m c where m: "\<forall>y. c = Some y \<longrightarrow> y \<in> snd ` set sy"
      "map_of (nr_attributes r) ''_container_ref'' = map_option (\<lambda>c. JStr (nr_ref c)) c"
    using message_from_source [OF sy(1) sy(5) [rule_format] r(2), of thesis] sub r(1) by blast
  obtain y where y: "y \<in> set recs" "is_chat_record y" "nr_ref y = rd_target_ref e" "y \<in> set out \<or> unnamed_chat (rb_payload raw)"
  proof (cases c)
    case None
    with m(2) r(4) have "single_container out = Some (rd_target_ref e)" by (simp add: message_container_def text_attr_def)
    then have "rd_target_ref e \<in> nr_ref ` set (filter is_chat_record out)"
      by (auto simp: single_container_def split: list.splits) (metis list.set_intros(1) set_map set_remdups set_filter image_iff mem_Collect_eq)
    with that sub show ?thesis by auto
  next
    case (Some y)
    with m(1) have y: "y \<in> snd ` set sy" by simp
    from synth_member [OF sy(1) y] obtain j k where k: "nr_ref y = numbered ''chat-synth-'' j" "nr_entity_type y = E_TELEGRAM_CHANNEL"
        "(k, y) \<in> set sy" "nr_natural_key y = [(''username_normalized'', JStr k)]" by metis
    have "nr_ref y = rd_target_ref e"
      using m(2) r(4) Some k(1) by (simp add: message_container_def text_attr_def numbered_not_Nil split: list.splits)
    moreover have "y \<in> set out \<or> unnamed_chat (rb_payload raw)"
    proof (cases "k = []")
      case True
      with sy(6) k(3) show ?thesis by (force simp: unnamed_chat_def)
    next
      case False
      with k(4) have "\<not> unusable y" by (simp add: unusable_def empty_value_def)
      with v y sy(4) have "dedup_key y \<in> dedup_key ` set out" by auto
      then obtain z where z: "z \<in> set out" "dedup_key z = dedup_key y" by auto
      with k(2,4) have zk: "nr_entity_type z = E_TELEGRAM_CHANNEL" "set (nr_natural_key z) = {(''username_normalized'', JStr k)}"
        by (auto simp: dedup_key_def)
      have "z = y"
      proof (cases "z \<in> snd ` set sy")
        case True
        from synth_member [OF sy(1) True] obtain k' where k': "(k', z) \<in> set sy" "nr_natural_key z = [(''username_normalized'', JStr k')]" by metis
        with zk(2) k(3) sy(1) show ?thesis by (auto simp: synth_ok_def dest: eq_key_imp_eq_value)
      next
        case False
        with sy(5) z(1) sub obtain x where x: "x \<in> set (enumerate 0 (rb_payload raw))" "from_item (rb_kind raw) sy x z"
          by (auto simp: from_source_def)
        from from_item_facts [OF x(2)] zk(1) have "is_chat_item (snd x)" by (auto simp: is_chat_record_def is_chat_item_def)
        with x(1) have "list_ex is_chat_item (rb_payload raw)" by (auto simp: in_set_enumerate_eq list_ex_iff) (metis nth_mem)
        with sy(2) y show ?thesis by simp
      qed
      with z(1) show ?thesis by simp
    qed
    ultimately show ?thesis using that [of y] y sy(4) k(2) by (auto simp: is_chat_record_def)
  qed
  have "is_chat_record c \<and> rd_type e = container_edge (nr_entity_type c)" if c: "c \<in> set out" "nr_ref c = rd_target_ref e" for c
  proof -
    have "c = y" using same_ref [OF sy(3) _ y(1)] c sub y(3) by auto
    moreover have "rb_kind raw = kind_channel \<Longrightarrow> nr_entity_type c = E_TELEGRAM_CHANNEL"
      using from_source_container [OF sy(1) _ _ _, of "rb_kind raw" "rb_payload raw" c] sy(5) c(1) sub \<open>c = y\<close> y(2) by blast
    ultimately show ?thesis using container_rel_eq [OF dist c(1), of "rb_kind raw"] y(2) r(5) c(2) by simp
  qed
  with r(1-3) y(3,4) show ?thesis unfolding edge_ok_def by blast
qed

section \<open>The contract of a source\<close>

text \<open>What the collector relies on: no more messages than it asked for.\<close>

locale bounded_source =
  fixes src :: telegram_source
  assumes messages_bounded: "ts_messages src chat n since = Inr ms \<Longrightarrow> 0 \<le> n \<Longrightarrow> int (length ms) \<le> n"
    and search_bounded: "ts_search src q n = Inr ms \<Longrightarrow> 0 \<le> n \<Longrightarrow> int (length ms) \<le> n"
begin

lemma payload_bounded:
  "tg_collect src rq = Inr raw \<Longrightarrow> 0 \<le> rq_limit rq \<Longrightarrow> int (length (rb_payload raw)) \<le> rq_limit rq + 1"
  using messages_bounded [of "strip (rq_query rq)" "rq_limit rq" "rq_since rq"] search_bounded [of "strip (rq_query rq)" "rq_limit rq"]
  by (auto simp: tg_collect_def collect_profile_def collect_chat_def collect_search_def tg_bundle_def Let_def
      split: sum.splits bool.splits option.splits if_splits)

lemma records_bounded:
  assumes "tg_collect src rq = Inr raw" "0 \<le> rq_limit rq" "tg_normalize raw = Inr recs" "validate recs = Inr out"
  shows "int (length out) \<le> 2 * (rq_limit rq + 1)"
proof -
  from tg_normalize_spec [OF assms(3)] obtain sy where sy: "synth_ok sy" "length recs = length sy + length (rb_payload raw)"
      "\<forall>k \<in> fst ` set sy. \<exists>m u. Message_Item m \<in> set (rb_payload raw) \<and> chat_named m u k" by metis
  have "fst ` set sy \<subseteq> (\<lambda>it. case it of Message_Item m \<Rightarrow> projr (normalize_username (the (pm_chat_username m))) | _ \<Rightarrow> []) ` set (rb_payload raw)"
  proof
    fix k assume "k \<in> fst ` set sy"
    with sy(3) obtain m u where "Message_Item m \<in> set (rb_payload raw)" "chat_named m u k" by blast
    then show "k \<in> (\<lambda>it. case it of Message_Item m \<Rightarrow> projr (normalize_username (the (pm_chat_username m))) | _ \<Rightarrow> []) ` set (rb_payload raw)"
      by (force simp: chat_named_def)
  qed
  then have "card (fst ` set sy) \<le> length (rb_payload raw)"
    by (meson card_image_le card_length card_mono finite_imageI finite_set le_trans)
  moreover have "card (fst ` set sy) = length sy"
    using sy(1) distinct_card [of "map fst sy"] by (simp add: synth_ok_def)
  moreover have "length out \<le> length recs"
    using validate_from_spec [OF assms(4) [unfolded validate_def]] by (auto dest: list_emb_length)
  ultimately have "length out \<le> 2 * length (rb_payload raw)" using sy(2) by linarith
  then have "int (length out) \<le> 2 * int (length (rb_payload raw))" by (metis of_nat_mono of_nat_mult of_nat_numeral)
  also have "\<dots> \<le> 2 * (rq_limit rq + 1)" using payload_bounded [OF assms(1,2)] by simp
  finally show ?thesis .
qed

end

lemma py_take_bounded: "0 \<le> n \<Longrightarrow> int (length (py_take n xs)) \<le> n"
  by (simp add: py_take_def)

interpretation null_src: bounded_source null_source
  by unfold_locales (auto simp: null_source_def)

interpretation operator_src: bounded_source operator_source
  by unfold_locales (auto simp: operator_source_def)

interpretation bot_src: bounded_source "bot_api_source b"
  by unfold_locales (auto simp: bot_api_source_def)

interpretation fake_src: bounded_source "fake_source profiles chats ms"
  by unfold_locales (auto simp: fake_source_def fake_messages_def fake_search_def Let_def py_take_bounded)

text \<open>Whatever is configured, the collector works on a bounded source.\<close>

lemma build_source_bounded: "bounded_source (build_source token mk_bot)"
  using null_src.bounded_source_axioms bot_src.bounded_source_axioms by (simp add: build_source_def split: sum.split)

section \<open>Properties\<close>


definition example_source :: telegram_source where
  "example_source = fake_source [] [] [(''news'', [\<lparr>pm_message_id = 7, pm_chat_username = Some ''News'', pm_chat_id = None,
     pm_author_id = None, pm_author_username = Some ''alice'', pm_text = Some ''hi'', pm_posted_at = Some 5, pm_reply_to = None,
     pm_forwarded_from = None, pm_views = None, pm_reference = Some ''https://t.me/news/7''\<rparr>])]"

definition example_request :: collect_request where
  "example_request = \<lparr>rq_query = ''hi'', rq_kind = kind_message_search, rq_limit = 50, rq_since = None\<rparr>"

definition example_result :: collect_result where
  "example_result = projr (tg_run example_source example_request)"

lemma example_collected: "tg_collect example_source example_request = Inr (projr (tg_collect example_source example_request))"
  by code_simp

lemma example_ran: "tg_run example_source example_request = Inr example_result"
  unfolding example_result_def by (rule sum.collapse(2) [symmetric]) code_simp

lemma example_linked: "length (co_records example_result) = 2 \<and> length (co_relationships example_result) = 1"
  by code_simp


end
