(* ===== verification/Adapters.thy ===== *)
theory Adapters
  imports Telegram Fetcher Confidence
begin

text \<open>
  \<open>collectors/username/base.py\<close>, \<open>adapters.py\<close> and \<open>collector.py\<close>, and \<open>collectors/common/registry.py\<close>:
  which public accounts carry a user name. An adapter answers for one platform; the collector asks
  them all. The fetcher is a parameter, which \<open>Fetcher.fetch\<close> provides; \<open>loads\<close> is \<open>json.loads\<close>. Profile
  facts hold JSON values, since nothing checks what a platform sends. The \<open>extra\<close> facts, which
  nothing reads, are left out.
\<close>

section \<open>Registries\<close>

text \<open>A dictionary of named things in order of first registration.\<close>

definition register :: "('a \<Rightarrow> string) \<Rightarrow> 'a \<Rightarrow> (string \<times> 'a) list \<Rightarrow> exn + (string \<times> 'a) list" where
  "register name x r = (if name x = [] then Inl (ValueError ''name is required'') else Inr (AList.update (name x) x r))"

definition unregister :: "string \<Rightarrow> (string \<times> 'a) list \<Rightarrow> (string \<times> 'a) list" where
  "unregister n r = AList.delete n r"

definition registered :: "(string \<times> 'a) list \<Rightarrow> 'a list" where
  "registered r = map snd r"

definition for_kind :: "('a \<Rightarrow> string \<Rightarrow> bool) \<Rightarrow> string \<Rightarrow> (string \<times> 'a) list \<Rightarrow> 'a list" where
  "for_kind supports kind r = filter (\<lambda>c. supports c kind) (map snd r)"

definition registry_health :: "('a \<Rightarrow> string) \<Rightarrow> ('a \<Rightarrow> exn + health_status) \<Rightarrow> (string \<times> 'a) list \<Rightarrow> health_status list" where
  "registry_health name check r = map (\<lambda>(_, c). case check c of
     Inl e \<Rightarrow> \<lparr>hs_name = name c, hs_healthy = False, hs_detail = Some (exn_str e)\<rparr> | Inr h \<Rightarrow> h) r"

section \<open>Adapters\<close>

record profile_facts =
  pf_display_name :: json
  pf_bio :: json
  pf_website :: json
  pf_email :: json
  pf_location :: json
  pf_avatar :: json
  pf_account_id :: "string option"
  pf_created_at :: json

definition no_profile_facts :: profile_facts where
  "no_profile_facts = \<lparr>pf_display_name = JNull, pf_bio = JNull, pf_website = JNull, pf_email = JNull, pf_location = JNull,
     pf_avatar = JNull, pf_account_id = None, pf_created_at = JNull\<rparr>"

record adapter_result =
  ar_platform :: string
  ar_username :: string
  ar_exists :: bool
  ar_url :: "string option"
  ar_facts :: "profile_facts option"
  ar_confidence :: int
  ar_evidence :: "string list"
  ar_error :: "string option"

definition not_found :: "string \<Rightarrow> string \<Rightarrow> string option \<Rightarrow> adapter_result" where
  "not_found platform u url = \<lparr>ar_platform = platform, ar_username = u, ar_exists = False, ar_url = url, ar_facts = None,
     ar_confidence = 0, ar_evidence = [], ar_error = None\<rparr>"

definition failed :: "string \<Rightarrow> string \<Rightarrow> string \<Rightarrow> adapter_result" where
  "failed platform u err = (not_found platform u None)\<lparr>ar_error := Some err\<rparr>"

record username_adapter =
  ad_platform :: string
  ad_check :: "string \<Rightarrow> exn + adapter_result"

text \<open>JSON values as conditions, as text and as dictionaries.\<close>

fun truthy :: "json \<Rightarrow> bool" where
  "truthy JNull = False"
| "truthy (JBool b) = b"
| "truthy (JInt i) = (i \<noteq> 0)"
| "truthy (JStr s) = (s \<noteq> [])"
| "truthy (JList vs) = (vs \<noteq> [])"
| "truthy (JObj kvs) = (kvs \<noteq> [])"

definition or_json :: "json \<Rightarrow> json \<Rightarrow> json" where
  "or_json a b = (if truthy a then a else b)"

definition py_str :: "json \<Rightarrow> string" where
  "py_str v = (case v of JStr s \<Rightarrow> s | _ \<Rightarrow> py_repr v)"

definition dict_get :: "(string \<times> json) list \<Rightarrow> string \<Rightarrow> json" where
  "dict_get kvs k = (case map_of kvs k of None \<Rightarrow> JNull | Some v \<Rightarrow> v)"

definition as_dict :: "json \<Rightarrow> exn + (string \<times> json) list" where
  "as_dict v = (case v of JObj kvs \<Rightarrow> Inr kvs | _ \<Rightarrow> Inl (AttributeError ''object has no attribute get''))"

definition opt_json :: "string option \<Rightarrow> json" where
  "opt_json v = (case v of None \<Rightarrow> JNull | Some s \<Rightarrow> JStr s)"

text \<open>\<open>template.format(username=...)\<close> for templates whose only field is the user name.\<close>

fun fill_name :: "string \<Rightarrow> string \<Rightarrow> string" where
  "fill_name u [] = []"
| "fill_name u (c # s) = (if prefix ''{username}'' (c # s) then u @ fill_name u (drop 10 (c # s)) else c # fill_name u s)"

type_synonym getter = "string \<Rightarrow> exn + fetch_response"

text \<open>\<open>except (SsrfBlocked, FetchError) as exc\<close>: what a failed fetch becomes.\<close>

definition fetch_failed :: "string \<Rightarrow> string \<Rightarrow> exn \<Rightarrow> exn + adapter_result" where
  "fetch_failed platform u e =
     (case e of SsrfBlocked m \<Rightarrow> Inr (failed platform u m) | FetchError m \<Rightarrow> Inr (failed platform u m) | _ \<Rightarrow> Inl e)"

definition github_found :: "string \<Rightarrow> string \<Rightarrow> (string \<times> json) list \<Rightarrow> adapter_result" where
  "github_found handle api data =
     \<lparr>ar_platform = ''github'', ar_username = handle, ar_exists = True,
      ar_url = Some (case dict_get data ''html_url'' of JStr (c # s) \<Rightarrow> c # s | v \<Rightarrow>
                 if truthy v then py_str v else fill_name handle ''https://github.com/{username}''),
      ar_facts = Some \<lparr>pf_display_name = dict_get data ''name'', pf_bio = dict_get data ''bio'',
        pf_website = or_json (dict_get data ''blog'') JNull, pf_email = dict_get data ''email'',
        pf_location = dict_get data ''location'', pf_avatar = dict_get data ''avatar_url'',
        pf_account_id = (case dict_get data ''id'' of JNull \<Rightarrow> None | v \<Rightarrow> Some (py_str v)),
        pf_created_at = dict_get data ''created_at''\<rparr>,
      ar_confidence = 90, ar_evidence = [''GET '' @ api @ '' -> 200'', ''login='' @ py_str (dict_get data ''login'')],
      ar_error = None\<rparr>"

definition github_check :: "getter \<Rightarrow> (string \<Rightarrow> exn + json) \<Rightarrow> string \<Rightarrow> exn + adapter_result" where
  "github_check get loads u =
     (case normalize_username u of
        Inl e \<Rightarrow> Inl e
      | Inr handle \<Rightarrow>
          (let api = ''https://api.github.com/users/'' @ handle in
           case get api of
             Inl e \<Rightarrow> fetch_failed ''github'' handle e
           | Inr resp \<Rightarrow>
               if fr_status resp = 404
               then Inr (not_found ''github'' handle (Some (fill_name handle ''https://github.com/{username}'')))
               else if \<not> fr_ok resp then Inr (failed ''github'' handle (''github api status '' @ show_nat (fr_status resp)))
               else (case loads (fr_text resp) of
                       Inr (JObj data) \<Rightarrow> Inr (github_found handle api data)
                     | Inl (ValueError m) \<Rightarrow> Inr (failed ''github'' handle ''unparseable github response'')
                     | Inl e \<Rightarrow> Inl e
                     | Inr v \<Rightarrow> Inr (failed ''github'' handle ''unparseable github response''))))"

text \<open>
  \<open>payload["data"]\<close> and the facts of a Reddit profile. The guarded \<open>sub\<close> is not used for the
  title, which is read from \<open>data.get("subreddit", {})\<close>: a null there raises.
\<close>

definition reddit_data :: "json \<Rightarrow> exn + json" where
  "reddit_data payload =
     (case payload of
        JObj kvs \<Rightarrow> (case map_of kvs ''data'' of None \<Rightarrow> Inl (KeyError ''data'') | Some v \<Rightarrow> Inr v)
      | _ \<Rightarrow> Inr (JObj []))"

definition reddit_avatar :: "json \<Rightarrow> exn + json" where
  "reddit_avatar icon =
     (if \<not> truthy icon then Inr JNull
      else (case icon of
              JStr s \<Rightarrow> Inr (or_json (JStr (before_char CHR ''?'' s)) JNull)
            | _ \<Rightarrow> Inl (AttributeError ''object has no attribute split'')))"

definition reddit_facts :: "(string \<times> json) list \<Rightarrow> exn + profile_facts" where
  "reddit_facts data =
     (case as_dict (case map_of data ''subreddit'' of None \<Rightarrow> JObj [] | Some v \<Rightarrow> v) of
        Inl e \<Rightarrow> Inl e
      | Inr titled \<Rightarrow>
          (case as_dict (or_json (dict_get data ''subreddit'') (JObj [])) of
             Inl e \<Rightarrow> Inl e
           | Inr sub \<Rightarrow>
               (case reddit_avatar (dict_get data ''icon_img'') of
                  Inl e \<Rightarrow> Inl e
                | Inr avatar \<Rightarrow> Inr \<lparr>pf_display_name = or_json (dict_get titled ''title'') (dict_get data ''name''),
                    pf_bio = or_json (dict_get sub ''public_description'') JNull, pf_website = JNull, pf_email = JNull,
                    pf_location = JNull, pf_avatar = avatar,
                    pf_account_id = (case dict_get data ''id'' of JNull \<Rightarrow> None | v \<Rightarrow> Some (py_str v)),
                    pf_created_at = (if truthy (dict_get data ''created_utc'') then JStr (py_str (dict_get data ''created_utc'')) else JNull)\<rparr>)))"

definition reddit_found :: "string \<Rightarrow> string \<Rightarrow> json \<Rightarrow> exn + adapter_result" where
  "reddit_found handle api v =
     (case as_dict v of
        Inl e \<Rightarrow> Inl e
      | Inr data \<Rightarrow>
          (case reddit_facts data of
             Inl e \<Rightarrow> Inl e
           | Inr facts \<Rightarrow> Inr \<lparr>ar_platform = ''reddit'', ar_username = handle, ar_exists = True,
               ar_url = Some (fill_name handle ''https://www.reddit.com/user/{username}''), ar_facts = Some facts,
               ar_confidence = 85,
               ar_evidence = [''GET '' @ api @ '' -> 200'', ''karma='' @ py_str (dict_get data ''total_karma'')],
               ar_error = None\<rparr>))"

definition reddit_check :: "getter \<Rightarrow> (string \<Rightarrow> exn + json) \<Rightarrow> string \<Rightarrow> exn + adapter_result" where
  "reddit_check get loads u =
     (case normalize_username u of
        Inl e \<Rightarrow> Inl e
      | Inr handle \<Rightarrow>
          (let api = ''https://www.reddit.com/user/'' @ handle @ ''/about.json'' in
           case get api of
             Inl e \<Rightarrow> fetch_failed ''reddit'' handle e
           | Inr resp \<Rightarrow>
               if fr_status resp = 404 \<or> fr_status resp = 403
               then Inr (not_found ''reddit'' handle (Some (fill_name handle ''https://www.reddit.com/user/{username}'')))
               else if \<not> fr_ok resp then Inr (failed ''reddit'' handle (''reddit status '' @ show_nat (fr_status resp)))
               else (case (case loads (fr_text resp) of Inl e \<Rightarrow> Inl e | Inr payload \<Rightarrow> reddit_data payload) of
                       Inl (ValueError m) \<Rightarrow> Inr (failed ''reddit'' handle ''unparseable reddit response'')
                     | Inl (KeyError m) \<Rightarrow> Inr (failed ''reddit'' handle ''unparseable reddit response'')
                     | Inl (TypeError m) \<Rightarrow> Inr (failed ''reddit'' handle ''unparseable reddit response'')
                     | Inl e \<Rightarrow> Inl e
                     | Inr v \<Rightarrow> reddit_found handle api v)))"

definition web_check ::
  "getter \<Rightarrow> string \<Rightarrow> string option \<Rightarrow> string list \<Rightarrow> int \<Rightarrow> string \<Rightarrow> exn + adapter_result" where
  "web_check get platform template markers conf u =
     (case normalize_username u of
        Inl e \<Rightarrow> Inl e
      | Inr handle \<Rightarrow>
          (case template of
             None \<Rightarrow> Inr (failed platform handle ''no url_template configured'')
           | Some t \<Rightarrow>
               (let url = fill_name handle t in
                case get url of
                  Inl e \<Rightarrow> fetch_failed platform handle e
                | Inr resp \<Rightarrow>
                    if fr_status resp = 404 \<or> fr_status resp = 410 then Inr (not_found platform handle (Some url))
                    else if fr_status resp \<noteq> 200
                    then Inr ((not_found platform handle (Some url))
                           \<lparr>ar_error := Some (''inconclusive status '' @ show_nat (fr_status resp))\<rparr>)
                    else if list_ex (\<lambda>m. contains (lower m) (lower (fr_text resp))) markers
                    then Inr (not_found platform handle (Some url))
                    else Inr \<lparr>ar_platform = platform, ar_username = handle, ar_exists = True, ar_url = Some url,
                           ar_facts = Some no_profile_facts, ar_confidence = conf,
                           ar_evidence = [''GET '' @ url @ '' -> 200''], ar_error = None\<rparr>)))"

definition web_specs :: "(string \<times> string \<times> string list) list" where
  "web_specs =
     [(''x'', ''https://nitter.net/{username}'', [''user not found'', ''tweets, no tweets'']),
      (''instagram'', ''https://www.instagram.com/{username}/'', [''page not found'', ''sorry, this page'']),
      (''youtube'', ''https://www.youtube.com/@'' @ ''{username}'', [''this page isn't available'']),
      (''tiktok'', ''https://www.tiktok.com/@'' @ ''{username}'', [''couldn't find this account'']),
      (''keybase'', ''https://keybase.io/{username}'', [''not found'']),
      (''gitlab'', ''https://gitlab.com/{username}'', [''page not found''])]"

definition default_web_adapters :: "getter \<Rightarrow> username_adapter list" where
  "default_web_adapters get = map (\<lambda>(p, t, m). \<lparr>ad_platform = p, ad_check = web_check get p (Some t) m 45\<rparr>) web_specs"

text \<open>Presence on Telegram: a profile, else a chat, of the configured source.\<close>

definition account_id_of :: "int option \<Rightarrow> string option" where
  "account_id_of i = (case i of Some n \<Rightarrow> if n = 0 then None else Some (show_int n) | None \<Rightarrow> None)"

definition telegram_lookup :: "telegram_source \<Rightarrow> string \<Rightarrow> exn + (public_profile + public_chat) option" where
  "telegram_lookup src handle =
     (case ts_profile src handle of
        Inl e \<Rightarrow> Inl e
      | Inr (Some p) \<Rightarrow> Inr (Some (Inl p))
      | Inr None \<Rightarrow> map_sum id (map_option Inr) (ts_chat src handle))"

definition telegram_facts :: "public_profile + public_chat \<Rightarrow> profile_facts" where
  "telegram_facts x =
     (case x of
        Inl p \<Rightarrow> no_profile_facts\<lparr>pf_display_name := or_json (opt_json (pp_display_name p)) JNull,
          pf_bio := or_json (opt_json (pp_bio p)) JNull, pf_avatar := opt_json (pp_photo_reference p),
          pf_account_id := account_id_of (pp_telegram_id p)\<rparr>
      | Inr c \<Rightarrow> no_profile_facts\<lparr>pf_display_name := opt_json (pc_title c), pf_bio := opt_json (pc_description c),
          pf_account_id := account_id_of (pc_telegram_id c)\<rparr>)"

definition telegram_check :: "telegram_source \<Rightarrow> string \<Rightarrow> exn + adapter_result" where
  "telegram_check src u =
     (case normalize_username u of
        Inl e \<Rightarrow> Inl e
      | Inr handle \<Rightarrow>
          (let url = fill_name handle ''https://t.me/{username}'' in
           case ts_available src of
             Inl e \<Rightarrow> Inr (failed ''telegram'' handle (exn_str e))
           | Inr False \<Rightarrow> Inr (failed ''telegram'' handle ''no telegram source configured'')
           | Inr True \<Rightarrow>
               (case telegram_lookup src handle of
                  Inl e \<Rightarrow> Inr (failed ''telegram'' handle (exn_str e))
                | Inr None \<Rightarrow> Inr (not_found ''telegram'' handle (Some url))
                | Inr (Some x) \<Rightarrow>
                    Inr \<lparr>ar_platform = ''telegram'', ar_username = handle, ar_exists = True,
                      ar_url = Some (case (case x of Inl p \<Rightarrow> pp_reference p | Inr c \<Rightarrow> pc_reference c) of
                                 Some (c # s) \<Rightarrow> c # s | _ \<Rightarrow> url),
                      ar_facts = Some (telegram_facts x), ar_confidence = 80,
                      ar_evidence = [''telegram public lookup -> found''], ar_error = None\<rparr>)))"

definition default_adapters :: "getter \<Rightarrow> (string \<Rightarrow> exn + json) \<Rightarrow> telegram_source \<Rightarrow> username_adapter list" where
  "default_adapters get loads src =
     [\<lparr>ad_platform = ''github'', ad_check = github_check get loads\<rparr>,
      \<lparr>ad_platform = ''reddit'', ad_check = reddit_check get loads\<rparr>,
      \<lparr>ad_platform = ''telegram'', ad_check = telegram_check src\<rparr>] @ default_web_adapters get"

section \<open>The collector\<close>

record username_hit =
  uh_platform :: string
  uh_username :: string
  uh_exists :: bool
  uh_url :: "string option"
  uh_confidence :: int
  uh_evidence :: "string list"
  uh_facts :: "profile_facts option"

definition kind_username :: string where
  "kind_username = ''username_osint''"

definition exn_name :: "exn \<Rightarrow> string" where
  "exn_name e = before_char CHR '':'' (exn_text e)"

definition hit_of :: "adapter_result \<Rightarrow> username_hit" where
  "hit_of r = \<lparr>uh_platform = ar_platform r, uh_username = ar_username r, uh_exists = ar_exists r, uh_url = ar_url r,
     uh_confidence = ar_confidence r, uh_evidence = ar_evidence r, uh_facts = ar_facts r\<rparr>"

definition hit_notes :: "username_adapter \<Rightarrow> exn + adapter_result \<Rightarrow> string list" where
  "hit_notes a res =
     (case res of
        Inl e \<Rightarrow> [ad_platform a @ '': '' @ exn_name e]
      | Inr r \<Rightarrow> (case ar_error r of Some (c # s) \<Rightarrow> [ar_platform r @ '': '' @ c # s] | _ \<Rightarrow> []))"

definition username_bundle :: "string \<Rightarrow> username_hit list \<Rightarrow> string option \<Rightarrow> string list \<Rightarrow> username_hit list raw_bundle" where
  "username_bundle kind payload err notes = \<lparr>rb_kind = kind, rb_source = ''web'', rb_payload = payload, rb_partial = False,
     rb_error = err, rb_notes = notes\<rparr>"

definition username_collect :: "username_adapter list \<Rightarrow> collect_request \<Rightarrow> exn + username_hit list raw_bundle" where
  "username_collect adapters rq =
     (case normalize_username (rq_query rq) of
        Inl e \<Rightarrow> Inl e
      | Inr handle \<Rightarrow>
          if handle = [] then Inr (username_bundle (rq_kind rq) [] (Some ''empty username'') [])
          else if adapters = [] then Inr (username_bundle (rq_kind rq) [] (Some ''no username-OSINT adapters registered'') [])
          else (let results = map (\<lambda>a. (a, ad_check a handle)) adapters in
                Inr (username_bundle (rq_kind rq)
                  (List.map_filter (\<lambda>(a, res). case res of Inl e \<Rightarrow> None | Inr r \<Rightarrow> Some (hit_of r)) results) None
                  (concat (map (\<lambda>(a, res). hit_notes a res) results)))))"

definition hits_handle :: "username_hit list \<Rightarrow> exn + string option" where
  "hits_handle hits =
     (case find (\<lambda>h. uh_username h \<noteq> []) hits of
        None \<Rightarrow> Inr None
      | Some h \<Rightarrow> map_sum id Some (normalize_username (uh_username h)))"

definition int_or_none :: "string option \<Rightarrow> int option" where
  "int_or_none v = (case v of None \<Rightarrow> None | Some s \<Rightarrow> (case int_of_str s of Inl e \<Rightarrow> None | Inr i \<Rightarrow> Some i))"

definition account_key :: "string \<Rightarrow> username_hit \<Rightarrow> profile_facts \<Rightarrow> entity_type \<times> (string \<times> json) list" where
  "account_key handle h facts =
     (if uh_platform h = ''telegram''
      then (E_TELEGRAM_ACCOUNT, (''username_normalized'', JStr handle) #
              entry JInt ''telegram_id'' (int_or_none (pf_account_id facts)))
      else (E_EXTERNAL_ACCOUNT, [(''platform'', JStr (uh_platform h)), (''identifier_normalized'', JStr handle)]))"

definition fact_entry :: "string \<Rightarrow> json \<Rightarrow> (string \<times> json) list" where
  "fact_entry k v = (if truthy v then [(k, v)] else [])"

definition acct_ref :: "nat \<Rightarrow> string" where
  "acct_ref i = numbered ''acct-'' i"

definition presence_evidence :: "string \<Rightarrow> username_hit \<Rightarrow> string \<Rightarrow> evidence_draft" where
  "presence_evidence ref h line = \<lparr>dr_ref = ref, dr_field = Some ''presence'', dr_value = JStr line, dr_source = uh_platform h,
     dr_source_type = ''username_osint'', dr_reference = uh_url h, dr_observed_at = None,
     dr_confidence = clamp 0 100 (uh_confidence h), dr_raw = Some line, dr_method = Some ''username_osint_collector''\<rparr>"

definition account_record :: "string \<Rightarrow> nat \<times> username_hit \<Rightarrow> normalized_record" where
  "account_record handle x =
     (let h = snd x; ref = acct_ref (fst x);
          facts = (case uh_facts h of None \<Rightarrow> no_profile_facts | Some f \<Rightarrow> f);
          key = account_key handle h facts in
      \<lparr>nr_ref = ref, nr_entity_type = fst key, nr_natural_key = snd key,
       nr_attributes = (''identifier'', JStr handle) # fact_entry ''display_name'' (pf_display_name facts) @
         fact_entry ''bio'' (pf_bio facts) @ fact_entry ''linked_website'' (pf_website facts) @
         fact_entry ''location'' (pf_location facts) @ fact_entry ''profile_url'' (opt_json (uh_url h)),
       nr_evidence = map (presence_evidence ref h) (uh_evidence h)\<rparr>)"

definition username_record :: "string \<Rightarrow> normalized_record" where
  "username_record handle = \<lparr>nr_ref = ''username'', nr_entity_type = E_USERNAME,
     nr_natural_key = [(''platform'', JStr ''generic''), (''value_normalized'', JStr handle)],
     nr_attributes = [(''value'', JStr handle)], nr_evidence = []\<rparr>"

definition found_hits :: "username_hit list \<Rightarrow> (nat \<times> username_hit) list" where
  "found_hits hits = enumerate 0 (filter uh_exists hits)"

definition username_normalize :: "username_hit list raw_bundle \<Rightarrow> exn + normalized_record list" where
  "username_normalize raw =
     (case hits_handle (rb_payload raw) of
        Inl e \<Rightarrow> Inl e
      | Inr None \<Rightarrow> Inr []
      | Inr (Some handle) \<Rightarrow> Inr (username_record handle # map (account_record handle) (found_hits (rb_payload raw))))"

definition username_relationships :: "username_hit list raw_bundle \<Rightarrow> normalized_record list \<Rightarrow> relationship_draft list" where
  "username_relationships raw recs = map (\<lambda>(i, h). \<lparr>rd_source_ref = ''username'', rd_target_ref = acct_ref i,
     rd_type = USERNAME_FOUND_ON, rd_confidence = clamp 0 100 (uh_confidence h)\<rparr>) (found_hits (rb_payload raw))"

definition username_run :: "username_adapter list \<Rightarrow> collect_request \<Rightarrow> exn + collect_result" where
  "username_run adapters rq = run_collector ''web'' (rq_kind rq = kind_username) (rq_kind rq)
     (username_collect adapters rq) username_normalize username_relationships"

definition username_health :: "username_adapter list \<Rightarrow> health_status" where
  "username_health adapters = \<lparr>hs_name = ''username_osint'', hs_healthy = (adapters \<noteq> []),
     hs_detail = Some (show_nat (length adapters) @ '' adapter(s): '' @ join '', '' (map ad_platform adapters))\<rparr>"

section \<open>What an adapter promises\<close>

text \<open>It speaks for its platform and the handle it was asked for, and a hit comes with its evidence.\<close>

definition honest_result :: "string \<Rightarrow> string \<Rightarrow> adapter_result \<Rightarrow> bool" where
  "honest_result platform h r \<longleftrightarrow> ar_platform r = platform \<and> ar_username r = h \<and>
     (ar_exists r \<longrightarrow> ar_evidence r \<noteq> [] \<and> 0 \<le> ar_confidence r \<and> ar_confidence r \<le> 100 \<and> ar_error r = None)"

locale honest_adapter =
  fixes a :: username_adapter
  assumes honest: "ad_check a u = Inr r \<Longrightarrow> normalize_username u = Inr h \<Longrightarrow> honest_result (ad_platform a) h r"
begin

lemma own_handle: "ad_check a h = Inr r \<Longrightarrow> normalize_username h = Inr h \<Longrightarrow> ar_username r = h \<and> ar_platform r = ad_platform a"
  using honest [of h r h] by (simp add: honest_result_def)

lemma hit_backed: "ad_check a h = Inr r \<Longrightarrow> normalize_username h = Inr h \<Longrightarrow> ar_exists r \<Longrightarrow>
  ar_evidence r \<noteq> [] \<and> hit_notes a (Inr r) = []"
  using honest [of h r h] by (simp add: honest_result_def hit_notes_def)

end

lemma honest_failed [simp]: "honest_result p h (not_found p h url)" "honest_result p h (failed p h err)"
    "honest_result p h ((not_found p h url)\<lparr>ar_error := note\<rparr>)"
  by (simp_all add: honest_result_def not_found_def failed_def)

lemma honest_fetch_failed: "fetch_failed p h e = Inr r \<Longrightarrow> honest_result p h r"
  by (auto simp: fetch_failed_def split: exn.splits)

interpretation github: honest_adapter "\<lparr>ad_platform = ''github'', ad_check = github_check get loads\<rparr>"
proof
  fix u r h assume "ad_check \<lparr>ad_platform = ''github'', ad_check = github_check get loads\<rparr> u = Inr r" "normalize_username u = Inr h"
  moreover have "honest_result ''github'' h (github_found h api data)" for api data
    by (simp add: honest_result_def github_found_def)
  ultimately show "honest_result (ad_platform \<lparr>ad_platform = ''github'', ad_check = github_check get loads\<rparr>) h r"
    by (auto simp: github_check_def Let_def honest_fetch_failed split: sum.splits if_splits exn.splits json.splits)
qed

lemma honest_reddit_found: "reddit_found h api v = Inr r \<Longrightarrow> honest_result ''reddit'' h r"
  by (auto simp: reddit_found_def honest_result_def split: sum.splits)

interpretation reddit: honest_adapter "\<lparr>ad_platform = ''reddit'', ad_check = reddit_check get loads\<rparr>"
proof
  fix u r h assume "ad_check \<lparr>ad_platform = ''reddit'', ad_check = reddit_check get loads\<rparr> u = Inr r" "normalize_username u = Inr h"
  then show "honest_result (ad_platform \<lparr>ad_platform = ''reddit'', ad_check = reddit_check get loads\<rparr>) h r"
    by (auto simp: reddit_check_def Let_def honest_fetch_failed honest_reddit_found split: sum.splits if_splits exn.splits)
qed

lemma web_check_honest:
  assumes "web_check get p t ms c u = Inr r" "normalize_username u = Inr h" "0 \<le> c" "c \<le> 100"
  shows "honest_result p h r"
  using assms by (auto simp: web_check_def Let_def honest_fetch_failed split: sum.splits if_splits option.splits)
    (simp_all add: honest_result_def)

interpretation web: honest_adapter "\<lparr>ad_platform = p, ad_check = web_check get p t ms 45\<rparr>"
  by unfold_locales (simp add: web_check_honest)

interpretation telegram_presence: honest_adapter "\<lparr>ad_platform = ''telegram'', ad_check = telegram_check src\<rparr>"
proof
  fix u r h assume "ad_check \<lparr>ad_platform = ''telegram'', ad_check = telegram_check src\<rparr> u = Inr r" "normalize_username u = Inr h"
  then show "honest_result (ad_platform \<lparr>ad_platform = ''telegram'', ad_check = telegram_check src\<rparr>) h r"
    by (auto simp: telegram_check_def Let_def honest_result_def not_found_def failed_def split: sum.splits if_splits bool.splits option.splits)
qed

lemma default_adapters_honest: "a \<in> set (default_adapters get loads src) \<Longrightarrow> honest_adapter a"
  using github.honest_adapter_axioms reddit.honest_adapter_axioms telegram_presence.honest_adapter_axioms web.honest_adapter_axioms
  by (auto simp: default_adapters_def default_web_adapters_def)

lemma default_adapters_platforms: "distinct (map ad_platform (default_adapters get loads src))"
  by (simp add: default_adapters_def default_web_adapters_def web_specs_def)

section \<open>Lemmas\<close>

text \<open>What the adapters that did not raise returned, and which of that are accounts.\<close>

definition returned :: "username_adapter list \<Rightarrow> string \<Rightarrow> adapter_result list" where
  "returned adapters h = List.map_filter (\<lambda>a. case ad_check a h of Inl e \<Rightarrow> None | Inr r \<Rightarrow> Some r) adapters"

lemma returned_simps [simp]:
  "returned [] h = []"
  "returned (a # as) h = (case ad_check a h of Inl e \<Rightarrow> returned as h | Inr r \<Rightarrow> r # returned as h)"
  by (simp_all add: returned_def List.map_filter_def split: sum.split)

lemma returned_platforms:
  assumes "\<forall>a \<in> set adapters. honest_adapter a" "normalize_username h = Inr h"
  shows "(\<forall>r \<in> set (returned adapters h). ar_username r = h \<and> ar_platform r \<in> ad_platform ` set adapters) \<and>
    (distinct (map ad_platform adapters) \<longrightarrow> distinct (map ar_platform (returned adapters h)))"
  using assms(1)
proof (induction adapters)
  case (Cons a as)
  show ?case
  proof (cases "ad_check a h")
    case (Inr r)
    have "ar_username r = h" "ar_platform r = ad_platform a"
      using honest_adapter.own_handle [OF _ Inr assms(2)] Cons.prems by auto
    with Inr Cons show ?thesis by auto
  qed (use Cons in auto)
qed simp

lemma collected_hits:
  "List.map_filter (\<lambda>(a, res). case res of Inl e \<Rightarrow> None | Inr r \<Rightarrow> Some (hit_of r)) (map (\<lambda>a. (a, ad_check a h)) adapters) =
   map hit_of (returned adapters h)"
  by (induction adapters) (auto simp: List.map_filter_def split: sum.split)

lemma account_key_facts:
  "unusable (account_record h (i, x)) = False \<or> h = []"
  "\<not> list_ex (\<lambda>(k, v). unhashable v) (nr_natural_key (account_record h (i, x)))"
  by (auto simp: account_record_def account_key_def unusable_def empty_value_def entry_def Let_def split: option.splits)

lemma account_key_platform:
  assumes "dedup_key (account_record h (i, x)) = dedup_key (account_record h' (j, y))"
  shows "uh_platform x = uh_platform y"
proof -
  have "(''platform'', JStr (uh_platform z)) \<in> snd (dedup_key (account_record g (n, z))) \<and>
      (\<forall>v. (''platform'', v) \<in> snd (dedup_key (account_record g (n, z))) \<longrightarrow> v = JStr (uh_platform z)) \<and>
      fst (dedup_key (account_record g (n, z))) = E_EXTERNAL_ACCOUNT \<or>
      uh_platform z = ''telegram'' \<and> fst (dedup_key (account_record g (n, z))) = E_TELEGRAM_ACCOUNT" for g n z
    by (auto simp: dedup_key_def account_record_def account_key_def Let_def)
  from this [of x h i] this [of y h' j] assms show ?thesis by (metis entity_type.distinct json.inject(3))
qed

lemma username_key_other: "dedup_key (username_record g) \<noteq> dedup_key (account_record h x)"
  by (simp add: dedup_key_def username_record_def account_record_def account_key_def Let_def)

lemma account_keys_distinct:
  "distinct (map uh_platform hits) \<Longrightarrow> distinct (map dedup_key (map (account_record h) (enumerate n hits)))"
proof (induction hits arbitrary: n)
  case (Cons x hits)
  have "dedup_key (account_record h (n, x)) \<noteq> dedup_key (account_record h y)" if "y \<in> set (enumerate (Suc n) hits)" for y
  proof
    assume "dedup_key (account_record h (n, x)) = dedup_key (account_record h y)"
    then have "uh_platform x = uh_platform (snd y)" by (cases y) (auto dest: account_key_platform)
    moreover have "snd y \<in> set hits" using that by (metis image_eqI map_snd_enumerate set_map)
    ultimately show False using Cons.prems by auto
  qed
  with Cons show ?case by auto
qed simp

lemma username_run_accounts:
  assumes honest: "\<forall>a \<in> set adapters. honest_adapter a" and plats: "distinct (map ad_platform adapters)"
    and h: "normalize_username (rq_query rq) = Inr h" "h \<noteq> []" and kind: "rq_kind rq = kind_username"
  shows "\<exists>res. username_run adapters rq = Inr res \<and>
    (returned adapters h \<noteq> [] \<longrightarrow>
       co_records res = username_record h # map (account_record h) (enumerate 0 (map hit_of (filter ar_exists (returned adapters h)))) \<and>
       co_relationships res = username_relationships (username_bundle kind_username (map hit_of (returned adapters h)) None []) [])"
proof -
  have idem: "normalize_username h = Inr h" by (rule normalize_username_idem [OF h(1)])
  note ret = returned_platforms [OF honest idem]
  show ?thesis
  proof (cases "adapters = []")
    case True
    with h kind show ?thesis
      by (simp add: username_run_def run_collector_def username_collect_def username_normalize_def hits_handle_def username_bundle_def validate_def)
  next
    case False
    let ?hits = "map hit_of (returned adapters h)"
    let ?notes = "concat (map (\<lambda>(a, res). hit_notes a res) (map (\<lambda>a. (a, ad_check a h)) adapters))"
    have coll: "username_collect adapters rq = Inr (username_bundle (rq_kind rq) ?hits None ?notes)"
      using h False by (simp add: username_collect_def collected_hits Let_def)
    show ?thesis
    proof (cases "returned adapters h")
      case Nil
      with coll kind show ?thesis
        by (simp add: username_run_def run_collector_def username_normalize_def hits_handle_def username_bundle_def validate_def)
    next
      case (Cons r rs)
      with ret have "ar_username r = h" by simp
      then have handle: "hits_handle ?hits = Inr (Some h)"
        using Cons h(2) idem by (simp add: hits_handle_def hit_of_def)
      let ?accts = "map (account_record h) (enumerate 0 (map hit_of (filter ar_exists (returned adapters h))))"
      have found: "found_hits ?hits = enumerate 0 (map hit_of (filter ar_exists (returned adapters h)))"
        by (simp add: found_hits_def filter_map comp_def hit_of_def)
      have "distinct (map uh_platform (map hit_of (filter ar_exists (returned adapters h))))"
        using ret plats by (simp add: comp_def hit_of_def distinct_map_filter)
      then have "distinct (map dedup_key (username_record h # ?accts))"
        using account_keys_distinct [of "map hit_of (filter ar_exists (returned adapters h))" h 0] username_key_other
        by (simp add: image_iff)
      moreover have "list_all (\<lambda>r. \<not> unusable r \<and> \<not> list_ex (\<lambda>(k, v). unhashable v) (nr_natural_key r)) (username_record h # ?accts)"
        using account_key_facts h(2) by (auto simp: list_all_iff) (auto simp: username_record_def unusable_def empty_value_def)
      ultimately have "validate (username_record h # ?accts) = Inr (username_record h # ?accts)"
        unfolding validate_def by (intro validate_from_id) auto
      with coll kind handle found show ?thesis
        by (simp add: username_run_def run_collector_def username_normalize_def username_bundle_def username_relationships_def)
    qed
  qed
qed

text \<open>
  A Reddit profile whose \<open>subreddit\<close> is null: the guarded value is computed, but the title is read
  from the unguarded one, so an existing account raises \<open>AttributeError\<close> out of the adapter.
\<close>

lemma reddit_null_subreddit:
  "reddit_found h api (JObj [(''name'', JStr h), (''subreddit'', JNull)]) = Inl (AttributeError ''object has no attribute get'')"
  by (simp add: reddit_found_def as_dict_def reddit_facts_def)

section \<open>Properties\<close>

text \<open>
  The default fan-out reports exactly what its adapters found: unless all of them raised, the
  records are the user name and one account per adapter that says the handle exists, in order, none
  dropped and none invented; each account carries the evidence of its adapter, and each is the end of
  one edge from the user name.
\<close>

lemma username_fan_out:
  assumes "normalize_username (rq_query rq) = Inr h" and "h \<noteq> []" and "rq_kind rq = kind_username"
  shows "\<exists>res. username_run (default_adapters get loads src) rq = Inr res \<and>
    (let rs = returned (default_adapters get loads src) h in rs \<noteq> [] \<longrightarrow>
       co_records res = username_record h # map (account_record h) (enumerate 0 (map hit_of (filter ar_exists rs))) \<and>
       map rd_target_ref (co_relationships res) = map nr_ref (tl (co_records res)) \<and>
       list_all (\<lambda>r. nr_evidence r \<noteq> []) (tl (co_records res)))"
proof -
  let ?as = "default_adapters get loads src"
  have all: "\<forall>a \<in> set ?as. honest_adapter a" using default_adapters_honest by blast
  have idem: "normalize_username h = Inr h" by (rule normalize_username_idem [OF assms(1)])
  from username_run_accounts [OF all default_adapters_platforms assms] obtain res where
    res: "username_run ?as rq = Inr res" "returned ?as h \<noteq> [] \<longrightarrow>
       co_records res = username_record h # map (account_record h) (enumerate 0 (map hit_of (filter ar_exists (returned ?as h)))) \<and>
       co_relationships res = username_relationships (username_bundle kind_username (map hit_of (returned ?as h)) None []) []" by blast
  have ev: "ar_evidence r \<noteq> []" if "r \<in> set (returned ?as h)" "ar_exists r" for r
  proof -
    from that(1) obtain a where "a \<in> set ?as" "ad_check a h = Inr r"
      by (auto simp: returned_def List.map_filter_def split: sum.splits)
    with honest_adapter.hit_backed [OF _ _ idem, of a r] all that(2) show ?thesis by blast
  qed
  have "nr_evidence (account_record h x) \<noteq> []" if "x \<in> set (enumerate 0 (map hit_of (filter ar_exists (returned ?as h))))" for x
  proof -
    have "snd x \<in> set (map hit_of (filter ar_exists (returned ?as h)))" using that by (metis image_eqI map_snd_enumerate set_map)
    with ev show ?thesis by (auto simp: account_record_def Let_def hit_of_def)
  qed
  moreover have "map rd_target_ref (username_relationships (username_bundle kind_username (map hit_of (returned ?as h)) None []) []) =
      map nr_ref (map (account_record h) (enumerate 0 (map hit_of (filter ar_exists (returned ?as h)))))"
    by (simp add: username_relationships_def username_bundle_def found_hits_def filter_map comp_def hit_of_def
        account_record_def Let_def split_def)
  ultimately show ?thesis using res by (auto simp: Let_def list_all_iff)
qed

definition page_getter :: getter where
  "page_getter u = Inr \<lparr>fr_url = u, fr_status = 200, fr_text = ''x'', fr_truncated = False\<rparr>"

definition no_json :: "string \<Rightarrow> exn + json" where
  "no_json s = Inl (ValueError ''no json'')"

lemma six_pages: "length (filter ar_exists (returned (default_adapters page_getter no_json null_source) ''al'')) = 6"
  by code_simp

lemma username_fan_out_witness:
  "\<exists>res. username_run (default_adapters page_getter no_json null_source)
      \<lparr>rq_query = ''@Al'', rq_kind = kind_username, rq_limit = 50, rq_since = None\<rparr> = Inr res \<and> length (co_records res) = 7"
proof -
  have n: "normalize_username (rq_query \<lparr>rq_query = ''@Al'', rq_kind = kind_username, rq_limit = 50, rq_since = None\<rparr>) = Inr ''al''" by code_simp
  have "returned (default_adapters page_getter no_json null_source) ''al'' \<noteq> []" using six_pages by auto
  with username_fan_out [OF n, of page_getter no_json null_source] six_pages show ?thesis by (auto simp: Let_def)
qed

end
