(* ===== verification/UsernameOsint.thy ===== *)
theory UsernameOsint
  imports Adapters Resolution Workspace
begin

text \<open>
  \<open>intelligence/username_osint.py\<close>: run the collector, store what it found, score how strongly the
  accounts corroborate each other, and record the correlation as evidence and as
  \<open>ACCOUNT_POSSIBLY_SAME_AS\<close> edges. The collector is a parameter; the default one is
  \<open>username_run\<close>. A dash in a line is written by its UTF-8 bytes, as in \<open>Confidence\<close>.
\<close>

section \<open>Records\<close>

record source_hit =
  sh_platform :: string
  sh_url :: "string option"
  sh_entity_type :: entity_type
  sh_entity_id :: "uid option"
  sh_confidence :: int
  sh_band :: string
  sh_label :: string
  sh_evidence :: "string list"

record same_as =
  sa_a :: string
  sa_b :: string
  sa_confidence :: int
  sa_band :: string
  sa_signals :: "string list"

record username_osint_result =
  uo_username :: string
  uo_found :: bool
  uo_sources :: "source_hit list"
  uo_same_as :: "same_as list"
  uo_notes :: "string list"
  uo_search_id :: uid
  uo_target_id :: "uid option"

fun signal_text :: "signal_name \<Rightarrow> string" where
  "signal_text exact_username = ''exact_username''"
| "signal_text display_name_exact = ''display_name_exact''"
| "signal_text display_name_overlap = ''display_name_overlap''"
| "signal_text website_same_domain = ''website_same_domain''"
| "signal_text bio_similar = ''bio_similar''"
| "signal_text email_exact = ''email_exact''"
| "signal_text email_domain_match = ''email_domain_match''"
| "signal_text avatar_exact = ''avatar_exact''"
| "signal_text location_exact = ''location_exact''"

definition same_as_threshold :: int where
  "same_as_threshold = 45"

definition facts_from_record :: "normalized_record \<Rightarrow> facts" where
  "facts_from_record r =
     no_facts\<lparr>fa_display_name := text_attr ''display_name'' (nr_attributes r), fa_bio := text_attr ''bio'' (nr_attributes r),
              fa_website := text_attr ''linked_website'' (nr_attributes r), fa_location := text_attr ''location'' (nr_attributes r)\<rparr>"

definition facts_table :: "normalized_record list \<Rightarrow> (string \<times> facts) list" where
  "facts_table recs = fold (\<lambda>r. AList.update (nr_ref r) (facts_from_record r)) recs []"

definition facts_at :: "(string \<times> facts) list \<Rightarrow> normalized_record \<Rightarrow> facts option" where
  "facts_at t r = map_of t (nr_ref r)"

definition peers_of :: "(string \<times> facts) list \<Rightarrow> normalized_record \<Rightarrow> facts list" where
  "peers_of t r = map snd (filter (\<lambda>(ref, f). ref \<noteq> nr_ref r) t)"

definition platform_of :: "normalized_record \<Rightarrow> string" where
  "platform_of r =
     (let p = dict_get (nr_natural_key r) ''platform'' in
      if truthy p then py_str p
      else if nr_entity_type r = E_TELEGRAM_ACCOUNT then ''telegram'' else ''unknown'')"

definition entity_id :: "ingest_summary \<Rightarrow> normalized_record \<Rightarrow> uid option" where
  "entity_id s r = map_option snd (map_of (in_resolved s) (nr_ref r))"

section \<open>Correlation\<close>

definition corr_line :: "confidence_result \<Rightarrow> string" where
  "corr_line c = cr_label c @ '' score '' @ show_int (cr_score c) @
     (if cr_signals c = [] then [] else '' '' @ em_dash @ '' '' @ join ''; '' (map sg_detail (cr_signals c)))"

definition correlation_evidence :: "string \<Rightarrow> int \<Rightarrow> evidence_in" where
  "correlation_evidence line score = \<lparr>ei_field = Some ''identity_correlation'', ei_value = JStr line,
     ei_source = ''intelligence'', ei_source_type = ''correlation'', ei_reference = None, ei_raw_content = Some line,
     ei_content_hash = None, ei_observed_at = None, ei_method = Some ''confidence_engine'', ei_confidence = score, ei_metadata = []\<rparr>"

definition presence_lines :: "normalized_record \<Rightarrow> string list" where
  "presence_lines r = List.map_filter (\<lambda>ev. case dr_value ev of JStr s \<Rightarrow> Some s | _ \<Rightarrow> None) (nr_evidence r)"

definition hit_source :: "normalized_record \<Rightarrow> uid option \<Rightarrow> confidence_result \<Rightarrow> source_hit" where
  "hit_source r i c = \<lparr>sh_platform = platform_of r, sh_url = text_attr ''profile_url'' (nr_attributes r),
     sh_entity_type = nr_entity_type r, sh_entity_id = i, sh_confidence = cr_score c, sh_band = cr_band c,
     sh_label = cr_label c, sh_evidence = presence_lines r @ [corr_line c]\<rparr>"

definition hit_result :: "string \<Rightarrow> normalized_record \<Rightarrow> uid \<Rightarrow> confidence_result \<Rightarrow> result_in" where
  "hit_result handle r i c = \<lparr>ri_entity_type = nr_entity_type r, ri_entity_id = i, ri_rank = None,
     ri_score = Some (of_int (cr_score c) / 100),
     ri_snippet = Some (platform_of r @ '': '' @ py_str (or_json (dict_get (nr_attributes r) ''profile_url'') (JStr []))),
     ri_matched = Some [handle], ri_evidence_id = None\<rparr>"

type_synonym scored = "source_hit list \<times> result_in list"

definition score_record ::
  "(string \<Rightarrow> string) \<Rightarrow> (json \<Rightarrow> string) \<Rightarrow> string \<Rightarrow> ingest_summary \<Rightarrow> (string \<times> facts) list \<Rightarrow> normalized_record \<Rightarrow>
   scored \<Rightarrow> (db, scored) action" where
  "score_record sha dumps handle s tbl r acc =
     bnd (liftE (score_account repr_str (facts_at tbl r) (peers_of tbl r) True)) (\<lambda>c.
     case entity_id s r of
       None \<Rightarrow> ret (fst acc @ [hit_source r None c], snd acc)
     | Some i \<Rightarrow>
         bnd (record_evidence sha dumps (nr_entity_type r) i (correlation_evidence (corr_line c) (cr_score c))) (\<lambda>_.
         ret (fst acc @ [hit_source r (Some i) c], snd acc @ [hit_result handle r i c])))"

fun score_records ::
  "(string \<Rightarrow> string) \<Rightarrow> (json \<Rightarrow> string) \<Rightarrow> string \<Rightarrow> ingest_summary \<Rightarrow> (string \<times> facts) list \<Rightarrow> normalized_record list \<Rightarrow>
   scored \<Rightarrow> (db, scored) action" where
  "score_records sha dumps handle s tbl [] acc = ret acc"
| "score_records sha dumps handle s tbl (r # rs) acc =
     bnd (score_record sha dumps handle s tbl r acc) (score_records sha dumps handle s tbl rs)"

section \<open>Possibly the same\<close>

fun pairs :: "'a list \<Rightarrow> ('a \<times> 'a) list" where
  "pairs [] = []"
| "pairs (x # xs) = map (Pair x) xs @ pairs xs"

definition store_same_as ::
  "normalized_record \<Rightarrow> normalized_record \<Rightarrow> uid option \<Rightarrow> uid option \<Rightarrow> confidence_result \<Rightarrow> (db, unit) action" where
  "store_same_as ra rb ida idb c =
     (case (ida, idb) of
        (Some a, Some b) \<Rightarrow>
          bnd (observe (nr_entity_type ra, a) (nr_entity_type rb, b) ACCOUNT_POSSIBLY_SAME_AS (cr_score c) None
                 [(''signals'', JList (map (\<lambda>g. JStr (signal_text (sg_name g))) (cr_signals c)))]) (\<lambda>_. ret ())
      | _ \<Rightarrow> ret ())"

definition link_pair ::
  "ingest_summary \<Rightarrow> (string \<times> facts) list \<Rightarrow> normalized_record \<times> normalized_record \<Rightarrow> same_as list \<Rightarrow> (db, same_as list) action" where
  "link_pair s tbl p acc =
     (let ra = fst p; rb = snd p in
      bnd (liftE (score_pair repr_str (facts_at tbl ra) (facts_at tbl rb) True)) (\<lambda>c.
      if cr_score c < same_as_threshold then ret acc
      else bnd (store_same_as ra rb (entity_id s ra) (entity_id s rb) c) (\<lambda>_.
           ret (acc @ [\<lparr>sa_a = platform_of ra, sa_b = platform_of rb, sa_confidence = cr_score c, sa_band = cr_band c,
                       sa_signals = map sg_detail (cr_signals c)\<rparr>]))))"

fun link_same_as ::
  "ingest_summary \<Rightarrow> (string \<times> facts) list \<Rightarrow> (normalized_record \<times> normalized_record) list \<Rightarrow> same_as list \<Rightarrow> (db, same_as list) action" where
  "link_same_as s tbl [] acc = ret acc"
| "link_same_as s tbl (p # ps) acc = bnd (link_pair s tbl p acc) (link_same_as s tbl ps)"

section \<open>The target\<close>

definition link_record :: "(string \<Rightarrow> string) \<Rightarrow> (json \<Rightarrow> string) \<Rightarrow> uid \<Rightarrow> ingest_summary \<Rightarrow> normalized_record \<Rightarrow> (db, unit) action" where
  "link_record sha dumps target s r =
     (case entity_id s r of
        None \<Rightarrow> ret ()
      | Some i \<Rightarrow> bnd (link sha dumps target (nr_entity_type r, i) None 60) (\<lambda>_. ret ()))"

definition link_target ::
  "(string \<Rightarrow> string) \<Rightarrow> (json \<Rightarrow> string) \<Rightarrow> uid \<Rightarrow> string \<Rightarrow> normalized_record list \<Rightarrow> ingest_summary \<Rightarrow> (db, uid) action" where
  "link_target sha dumps uid handle recs s =
     bnd (target_get_or_create uid K_USERNAME handle None) (\<lambda>(t, _).
     bnd (resolve sha dumps t) (\<lambda>_.
     bnd (for_each (link_record sha dumps (tg_id t) s) recs) (\<lambda>_.
     ret (tg_id t))))"

section \<open>The service\<close>

definition finish_search :: "uid \<Rightarrow> uid \<Rightarrow> result_in list \<Rightarrow> bool \<Rightarrow> (db, unit) action" where
  "finish_search uid sid results ok =
     bnd (if results = [] then ret 0 else search_add_results uid sid results) (\<lambda>_.
     search_set_status uid sid (if ok then T_COMPLETED else T_FAILED))"

definition is_account :: "normalized_record \<Rightarrow> bool" where
  "is_account r \<longleftrightarrow> nr_entity_type r \<noteq> E_USERNAME"

definition correlate ::
  "(string \<Rightarrow> string) \<Rightarrow> (json \<Rightarrow> string) \<Rightarrow> uid \<Rightarrow> string \<Rightarrow> uid \<Rightarrow> collect_result \<Rightarrow> ingest_summary \<Rightarrow>
   (db, username_osint_result) action" where
  "correlate sha dumps uid handle sid res s =
     (let recs = filter is_account (co_records res); tbl = facts_table recs in
      bnd (score_records sha dumps handle s tbl recs ([], [])) (\<lambda>(sources, results).
      bnd (link_same_as s tbl (pairs recs) []) (\<lambda>edges.
      bnd (if sources = [] then ret None
           else bnd (link_target sha dumps uid handle recs s) (\<lambda>t. ret (Some t))) (\<lambda>tid.
      bnd (finish_search uid sid results (sources \<noteq> [] \<or> text_of (co_error res) = [])) (\<lambda>_.
      ret \<lparr>uo_username = handle, uo_found = (sources \<noteq> []), uo_sources = sort_key (\<lambda>h. - sh_confidence h) sources,
           uo_same_as = edges,
           uo_notes = co_notes res @ (if text_of (co_error res) = [] then [] else [text_of (co_error res)]),
           uo_search_id = sid, uo_target_id = tid\<rparr>)))))"

definition username_osint ::
  "(string \<Rightarrow> string) \<Rightarrow> (json \<Rightarrow> string) \<Rightarrow> (collect_request \<Rightarrow> exn + collect_result) \<Rightarrow> uid \<Rightarrow> string \<Rightarrow>
   (db, username_osint_result) action" where
  "username_osint sha dumps run uid u =
     bnd (liftE (normalize_username u)) (\<lambda>handle.
     bnd (search_create uid SK_USERNAME handle None (Some (JObj [(''mode'', JStr ''username_osint'')])) None) (\<lambda>se.
     bnd (liftE (run \<lparr>rq_query = handle, rq_kind = kind_username, rq_limit = 50, rq_since = None\<rparr>)) (\<lambda>res.
     bnd (ingest sha dumps res) (\<lambda>s.
     correlate sha dumps uid handle (se_id se) res s))))"

section \<open>Soundness\<close>

text \<open>Writes outside the graph leave its integrity alone; a target is only ever added or revived.\<close>

lemma untouched:
  assumes "graph_inv d" and "usernames d' = usernames d" "external_accounts d' = external_accounts d" "domains d' = domains d"
    "urls d' = urls d" "ips d' = ips d" "iocs d' = iocs d" "messages d' = messages d" "evidences d' = evidences d"
    "relationships d' = relationships d" "telegram_accounts d' = telegram_accounts d" "telegram_groups d' = telegram_groups d"
    "telegram_channels d' = telegram_channels d" "next_id d \<le> next_id d'"
    "tg_id ` set (targets d) \<subseteq> tg_id ` set (targets d')" "rp_id ` set (reports d) \<subseteq> rp_id ` set (reports d')"
  shows "graph_inv d' \<and> later d d'"
proof -
  have later: "later d d'" using assms by (simp add: later_def rows_of_def)
  have "linked d'" using assms later by (intro insert_plain [of d d']) (simp_all add: graph_inv_def)
  moreover have "store_ok d'"
    using assms(1) unfolding graph_inv_def store_ok_def assms(2-13) by (auto intro: ids_ok_mono [OF _ assms(14)])
  ultimately show ?thesis using later by (simp add: graph_inv_def)
qed

lemma sound_untouched:
  assumes "\<And>d r d'. m d = (r, d') \<Longrightarrow> graph_inv d \<Longrightarrow> P d \<Longrightarrow>
    graph_inv d' \<and> later d d' \<and> (\<forall>x. r = Inr x \<longrightarrow> R x d')"
  shows "sound id P m R"
  by (rule soundI) (use assms in auto)

lemma add_search_row:
  assumes "add_row searches searches_update uq mk d = (r, d')" and "graph_inv d"
  shows "graph_inv d' \<and> later d d'"
  by (rule untouched [OF assms(2)]) (use assms(1) in \<open>auto simp: add_row_def Let_def split: if_splits\<close>)

lemma search_create_sound: "sound id P (search_create uid k q t f j) (\<lambda>_ _. True)"
  by (rule sound_untouched) (use add_search_row in \<open>auto simp: search_create_def\<close>)

lemma put_search_inv: "graph_inv d \<Longrightarrow> graph_inv (put_search s d) \<and> later d (put_search s d)"
  by (rule untouched) (simp_all add: put_search_def)

lemma add_result_rows_inv: "graph_inv d \<Longrightarrow> graph_inv (add_result_rows sid pos rs d) \<and> later d (add_result_rows sid pos rs d)"
proof (induction rs arbitrary: pos d)
  case (Cons r rs)
  let ?d = "d\<lparr>search_results := search_results d @ [result_row sid pos r (next_id d)], next_id := Suc (next_id d)\<rparr>"
  have "graph_inv ?d \<and> later d ?d" by (rule untouched [OF Cons.prems]) simp_all
  with Cons.IH [of ?d "Suc pos"] show ?case using later_trans [of d ?d] by auto
qed simp

lemma finish_search_sound: "sound id P (finish_search uid sid results ok) (\<lambda>_ _. True)"
proof -
  have add: "sound id P (search_add_results uid sid results) (\<lambda>_ _. True)" for P
    by (rule sound_untouched)
      (use add_result_rows_inv put_search_inv later_trans in \<open>fastforce simp: search_add_results_def split: sum.splits option.splits\<close>)
  have set: "sound id P (search_set_status uid sid st) (\<lambda>_ _. True)" for P st
    by (rule sound_untouched) (use put_search_inv in \<open>auto simp: search_set_status_def split: sum.splits option.splits if_splits\<close>)
  have "sound id (\<lambda>_. True) (finish_search uid sid results ok) (\<lambda>_ _. True)"
    unfolding finish_search_def by (rule sound_bnd [OF lasting_const, where R = "\<lambda>_ _. True"]) (use add set in \<open>auto intro: sound_ret\<close>)
  then show ?thesis by (rule sound_weaken) simp_all
qed

lemma put_target_ids: "tg_id ` set (targets (put_target t d)) = tg_id ` set (targets d)"
proof -
  have "map tg_id (targets (put_target t d)) = map tg_id (targets d)"
    unfolding put_target_def by (auto simp: update_where_def)
  then show ?thesis by (metis set_map)
qed

lemma put_target_inv: "graph_inv d \<Longrightarrow> graph_inv (put_target t d) \<and> later d (put_target t d)"
  by (rule untouched) (simp_all add: put_target_ids, simp_all add: put_target_def)

lemma target_sound: "sound id P (target_get_or_create uid k v l) (\<lambda>x d. exists_row d (E_TARGET, tg_id (fst x)))"
proof (rule sound_untouched)
  fix d r d' assume run: "target_get_or_create uid k v l d = (r, d')" and inv: "graph_inv d"
  let ?mk = "\<lambda>nrm d i. \<lparr>tg_id = i, tg_user_id = uid, tg_kind = k, tg_value = strip v, tg_norm = nrm,
     tg_label = l, tg_deleted_at = None, tg_created_at = now d\<rparr>"
  consider (same) "d' = d" "\<forall>x. r = Inr x \<longrightarrow> fst x \<in> set (targets d)"
    | (revived) t where "d' = put_target (t\<lparr>tg_deleted_at := None\<rparr>) d" "t \<in> set (targets d)"
        "r = Inr (t\<lparr>tg_deleted_at := None\<rparr>, False)"
    | (added) nrm where "d' = d\<lparr>targets := targets d @ [?mk nrm d (next_id d)], next_id := Suc (next_id d)\<rparr>"
        "r = Inr (?mk nrm d (next_id d), True)"
    using run by (auto simp: target_get_or_create_def add_row_def Let_def
        split: sum.splits option.splits if_splits dest!: scalar_one_or_none_Some)
  then show "graph_inv d' \<and> later d d' \<and> (\<forall>x. r = Inr x \<longrightarrow> exists_row d' (E_TARGET, tg_id (fst x)))"
  proof cases
    case same
    with inv show ?thesis by (auto simp: exists_row.simps)
  next
    case revived
    with put_target_inv [OF inv, of "t\<lparr>tg_deleted_at := None\<rparr>"] put_target_ids [of "t\<lparr>tg_deleted_at := None\<rparr>" d]
    show ?thesis by (auto simp: exists_row.simps)
  next
    case added
    have "graph_inv d' \<and> later d d'" unfolding added(1) by (rule untouched [OF inv]) auto
    with added show ?thesis by (simp add: exists_row.simps)
  qed
qed

lemma link_sound:
  assumes "lasting P"
  shows "sound id (\<lambda>d. P d \<and> exists_row d (E_TARGET, t) \<and> exists_row d e) (link sha dumps t e given c) (\<lambda>_ _. True)"
proof (cases "case given of Some rt \<Rightarrow> Some rt | None \<Rightarrow> rel_type_for (fst e)")
  case None
  then have "link sha dumps t e given c = ret False" unfolding link_def by simp
  then show ?thesis by (simp add: sound_ret)
next
  case (Some rt)
  let ?Q = "\<lambda>d. P d \<and> exists_row d (E_TARGET, t) \<and> exists_row d e"
  have Q: "lasting ?Q" using assms by simp
  have "sound id ?Q (bnd (observe (E_TARGET, t) e rt c None []) (\<lambda>(x, created).
      bnd (record_evidence sha dumps E_TARGET t ev) (\<lambda>_. ret created))) (\<lambda>_ _. True)" for ev
    by (rule sound_bnd [OF Q observe_sound])
      (auto intro!: sound_bnd [OF _ sound_weaken [OF record_evidence_sound [where P = "\<lambda>_. True"]]] sound_ret simp: assms split: prod.splits)
  with Some show ?thesis unfolding link_def by simp
qed

lemma link_into_sound:
  assumes "lasting P"
  shows "sound id (\<lambda>d. P d \<and> exists_row d (E_TARGET, t) \<and> exists_row d e) (link_into sha dumps t c e res) (\<lambda>_ _. True)"
  unfolding link_into_def by (rule sound_bnd [OF _ link_sound [OF assms]]) (use assms in \<open>auto intro: sound_ret\<close>)

lemma link_all_sound:
  assumes "lasting P"
  shows "sound id (\<lambda>d. P d \<and> exists_row d (E_TARGET, t) \<and> list_all (exists_row d) es) (link_all sha dumps t c es res) (\<lambda>_ _. True)"
proof (induction es arbitrary: res)
  case (Cons e es)
  let ?P = "\<lambda>d. P d \<and> exists_row d (E_TARGET, t) \<and> list_all (exists_row d) (e # es)"
  have P: "lasting ?P" using assms by (auto simp: lasting_def list_all_iff intro: exists_row_later)
  have head: "sound id ?P (link_into sha dumps t c e res) (\<lambda>_ _. True)"
    by (rule sound_weaken [OF link_into_sound [OF assms]]) auto
  have tail: "sound id (\<lambda>d. ?P d \<and> True) (link_all sha dumps t c es r) (\<lambda>_ _. True)" for r
    by (rule sound_weaken [OF Cons.IH]) auto
  show ?case unfolding link_all.simps by (rule sound_bnd [OF P head tail])
qed (simp add: sound_ret)

lemma resolve_username_sound:
  "sound id (\<lambda>d. exists_row d (E_TARGET, tg_id t)) (resolve_username sha dumps t res) (\<lambda>_ _. True)"
proof -
  let ?T = "\<lambda>d. exists_row d (E_TARGET, tg_id t)"
  have T: "lasting ?T" by simp
  have all: "sound id ?T (\<lambda>d. bnd (link_all sha dumps (tg_id t) 55 (map (\<lambda>r. (E_TELEGRAM_ACCOUNT, ta_id r)) (filter p (telegram_accounts d))) res')
      (link_all sha dumps (tg_id t) 55 (map (\<lambda>r. (E_EXTERNAL_ACCOUNT, ea_id r)) (filter q (external_accounts d)))) d) (\<lambda>_ _. True)" for p q res'
  proof (rule soundI)
    fix d r d' assume pre: "graph_inv (id d)" "?T (id d)"
    let ?as = "map (\<lambda>r. (E_TELEGRAM_ACCOUNT, ta_id r)) (filter p (telegram_accounts d))"
    let ?es = "map (\<lambda>r. (E_EXTERNAL_ACCOUNT, ea_id r)) (filter q (external_accounts d))"
    assume run: "bnd (link_all sha dumps (tg_id t) 55 ?as res') (link_all sha dumps (tg_id t) 55 ?es) d = (r, d')"
    let ?P = "\<lambda>d. (True \<and> list_all (exists_row d) ?es) \<and> exists_row d (E_TARGET, tg_id t) \<and> list_all (exists_row d) ?as"
    have P: "lasting ?P" by (auto simp: lasting_def list_all_iff intro: exists_row_later)
    have one: "sound id ?P (link_all sha dumps (tg_id t) 55 ?as res') (\<lambda>_ _. True)"
      by (rule link_all_sound) (auto simp: lasting_def list_all_iff intro: exists_row_later)
    have two: "sound id (\<lambda>d. ?P d \<and> True) (link_all sha dumps (tg_id t) 55 ?es x) (\<lambda>_ _. True)" for x
      by (rule sound_weaken [OF link_all_sound [where P = "\<lambda>_. True"]]) auto
    have "?P d" using pre(2) by (auto simp: list_all_iff exists_row.simps)
    with soundD [OF sound_bnd [OF P one two], where s = d and r = r and s' = d'] pre(1) run
    show "graph_inv (id d') \<and> later (id d) (id d') \<and> (\<forall>x. r = Inr x \<longrightarrow> True)" by simp
  qed
  have linked: "sound id (\<lambda>d. ?T d \<and> exists_row d (E_USERNAME, un_id (fst x)))
      (bnd (link_into sha dumps (tg_id t) 60 (E_USERNAME, un_id (fst x)) res) (\<lambda>res' d.
        bnd (link_all sha dumps (tg_id t) 55 (map (\<lambda>r. (E_TELEGRAM_ACCOUNT, ta_id r)) (filter p (telegram_accounts d))) res')
          (link_all sha dumps (tg_id t) 55 (map (\<lambda>r. (E_EXTERNAL_ACCOUNT, ea_id r)) (filter q (external_accounts d)))) d))
      (\<lambda>_ _. True)" for x :: "username \<times> bool" and p q
    by (rule sound_bnd [OF _ sound_weaken [OF link_into_sound [where P = "\<lambda>_. True"]], where R = "\<lambda>_ _. True"])
      (auto intro: sound_weaken [OF all])
  show ?thesis unfolding resolve_username_def Let_def
    by (rule sound_bnd [OF T sound_weaken [OF sound_liftE [where P = ?T]], where R = "\<lambda>_ _. True"], simp, simp,
        rule sound_bnd [OF _ username_sound], simp, unfold split_def)
      (rule sound_weaken [OF linked], auto)
qed

lemma resolve_telegram_sound:
  "sound id (\<lambda>d. exists_row d (E_TARGET, tg_id t)) (resolve_telegram sha dumps t res) (\<lambda>_ _. True)"
proof -
  let ?T = "\<lambda>d. exists_row d (E_TARGET, tg_id t)"
  let ?R = "\<lambda>obj d. \<forall>r. obj = Some r \<longrightarrow> exists_row d (E_TELEGRAM_ACCOUNT, ta_id r)"
  have find: "sound id P (\<lambda>d. (scalar_one_or_none (p x) (telegram_accounts d), d)) ?R" for P p x
    by (rule sound_untouched) (auto simp: exists_row.simps dest: scalar_one_or_none_Some)
  have by_id: "sound id ?T (if c then bnd (liftE y) (\<lambda>i d. (scalar_one_or_none (p i) (telegram_accounts d), d)) else ret None) ?R" for c y p
    using find by (auto intro!: sound_bnd [OF _ sound_weaken [OF sound_liftE]] sound_ret)
  have by_name: "sound id (\<lambda>d. ?T d \<and> ?R obj d) (case obj of Some r \<Rightarrow> ret (Some r)
      | None \<Rightarrow> bnd (liftE y) (\<lambda>n d. (scalar_one_or_none (p n) (telegram_accounts d), d))) ?R" for obj y p
    using find by (cases obj) (auto intro!: sound_bnd [OF _ sound_weaken [OF sound_liftE]] sound_ret)
  have last: "sound id (\<lambda>d. (?T d \<and> ?R obj d) \<and> ?R obj' d) (case obj' of None \<Rightarrow> ret y
      | Some r \<Rightarrow> link_into sha dumps (tg_id t) 75 (E_TELEGRAM_ACCOUNT, ta_id r) res) (\<lambda>_ _. True)" for obj obj' y
    by (cases obj') (auto intro!: sound_ret sound_weaken [OF link_into_sound [where P = "\<lambda>_. True"]])
  have R: "lasting (?R obj)" for obj by (cases obj) auto
  have "sound id ?T (bnd (if c then bnd (liftE y) (\<lambda>i d. (scalar_one_or_none (p i) (telegram_accounts d), d)) else ret None) (\<lambda>obj.
      bnd (case obj of Some r \<Rightarrow> ret (Some r) | None \<Rightarrow> bnd (liftE y') (\<lambda>n d. (scalar_one_or_none (q n) (telegram_accounts d), d)))
        (\<lambda>obj'. case obj' of None \<Rightarrow> ret z | Some r \<Rightarrow> link_into sha dumps (tg_id t) 75 (E_TELEGRAM_ACCOUNT, ta_id r) res)))
      (\<lambda>_ _. True)" for c y p y' q z
    by (rule sound_bnd [OF _ by_id], simp, rule sound_bnd [OF lasting_conj [OF lasting_exists R] by_name], rule last)
  then show ?thesis unfolding resolve_telegram_def [abs_def] .
qed

lemma resolver_sound: "sound id (\<lambda>d. exists_row d (E_TARGET, tg_id t)) (resolve sha dumps t) (\<lambda>_ _. True)"
  unfolding resolve_def Let_def
  using resolve_telegram_sound resolve_username_sound
  by (auto intro!: sound_ret sound_bnd [OF _ resolve_telegram_sound])

section \<open>What an ingest resolves\<close>

text \<open>Every resolved reference is that of a record of the batch, with the type of that record.\<close>

definition types_ok :: "normalized_record list \<Rightarrow> db \<times> ingest_summary \<Rightarrow> bool" where
  "types_ok recs st \<longleftrightarrow> (\<forall>x \<in> set (in_resolved (snd st)). \<exists>r \<in> set recs. nr_ref r = fst x \<and> nr_entity_type r = fst (snd x))"

lemma keeps_for_each: "(\<And>x. x \<in> set xs \<Longrightarrow> keeps Q (f x)) \<Longrightarrow> keeps Q (for_each f xs)"
  by (induction xs) (auto intro: keeps_bnd)

lemma keeps_attempt: "keeps Q m \<Longrightarrow> keeps Q (attempt m)"
  by (auto simp: attempt_def)

lemma keeps_with_tally: "(\<And>s. keeps Q (h s)) \<Longrightarrow> keeps Q (with_tally h)"
  by (auto simp: keeps_def with_tally_def)

lemma types_on_fst: "keeps (types_ok recs) (on_fst m)"
  by (rule keepsI) (auto simp: on_fst_def types_ok_def split: prod.splits)

lemma types_tally: "(\<And>s. in_resolved (f s) = in_resolved s) \<Longrightarrow> keeps (types_ok recs) (tally f)"
  by (rule keepsI) (auto simp: tally_def types_ok_def)

lemma types_resolve:
  assumes "r \<in> set recs" "nr_entity_type r = et"
  shows "keeps (types_ok recs) (tally (resolve_ref (nr_ref r) (et, i) c))"
proof (rule keepsI)
  fix st :: "db \<times> ingest_summary" assume ok: "types_ok recs st"
  have "\<exists>r \<in> set recs. nr_ref r = fst x \<and> nr_entity_type r = fst (snd x)"
    if "x \<in> set (AList.update (nr_ref r) (et, i) (in_resolved (snd st)))" for x
    using set_alist_update [OF that] ok assms by (auto simp: types_ok_def)
  then show "types_ok recs (snd (tally (resolve_ref (nr_ref r) (et, i) c) st))"
    by (cases st) (simp add: types_ok_def tally_def resolve_ref_def)
qed

lemma types_counts:
  "keeps (types_ok recs) (tally (skip_ref ref))" "keeps (types_ok recs) (tally (add_enriched es))"
  "keeps (types_ok recs) (tally (\<lambda>s. s\<lparr>in_evidence := f s\<rparr>))" "keeps (types_ok recs) (tally (\<lambda>s. s\<lparr>in_edges := f s\<rparr>))"
  "keeps (types_ok recs) (tally (\<lambda>s. s))"
  by (rule types_tally, simp add: skip_ref_def add_enriched_def)+

lemmas types_intros = keeps_bnd keeps_attempt keeps_with_tally types_on_fst types_counts keeps_for_each keeps_ret

lemma types_blurb: "keeps (types_ok recs) (enrich_blurb sha dumps r i f)"
  unfolding enrich_blurb_def by (simp split: option.split) (intro conjI impI allI types_intros)

lemma types_entity: "r \<in> set recs \<Longrightarrow> keeps (types_ok recs) (ingest_entity sha dumps r)"
  unfolding ingest_entity_def
  by (intro types_intros; simp split: option.split; intro conjI impI allI types_intros types_resolve types_blurb refl)

lemma types_message: "r \<in> set recs \<Longrightarrow> nr_entity_type r = E_MESSAGE \<Longrightarrow> keeps (types_ok recs) (ingest_message sha dumps r)"
  unfolding ingest_message_def store_message_def
  by (intro types_intros; simp split: option.split; intro conjI impI allI types_intros; simp split: option.split;
      intro conjI impI allI types_intros types_resolve; simp split: option.split; intro conjI impI allI types_intros)

lemma types_ingest: "keeps (types_ok (co_records res)) (ingest_all sha dumps res)"
proof -
  have evidence: "keeps (types_ok recs) (ingest_evidence sha dumps dr)" for recs dr
    unfolding ingest_evidence_def
    by (intro types_intros; simp split: option.split; intro conjI impI allI types_intros; simp split: option.split; intro conjI impI allI types_intros)
  have edge: "keeps (types_ok recs) (ingest_edge rd)" for recs rd
    unfolding ingest_edge_def
    by (intro types_intros; simp split: option.split; intro conjI impI allI types_intros; simp split: option.split; intro conjI impI allI types_intros)
  show ?thesis unfolding ingest_all_def by (auto intro!: types_intros types_entity types_message evidence edge)
qed

definition resolved_ok :: "normalized_record list \<Rightarrow> ingest_summary \<Rightarrow> db \<Rightarrow> bool" where
  "resolved_ok recs s d \<longleftrightarrow> (\<forall>r \<in> set recs. \<forall>i. entity_id s r = Some i \<longrightarrow> exists_row d (nr_entity_type r, i))"

lemma lasting_resolved [simp]: "lasting (resolved_ok recs s)"
  by (auto simp: lasting_def resolved_ok_def intro: exists_row_later)

lemma ingest_sound:
  assumes "distinct (map nr_ref (co_records res))"
  shows "sound id P (ingest sha dumps res) (\<lambda>s. resolved_ok (co_records res) s)"
proof (rule soundI)
  fix d r d' assume inv: "graph_inv (id d)" and run: "ingest sha dumps res d = (r, d')"
  show "graph_inv (id d') \<and> later (id d) (id d') \<and> (\<forall>x. r = Inr x \<longrightarrow> resolved_ok (co_records res) x (id d'))"
  proof (rule ingest_run [OF inv [simplified] run])
    fix r1 s assume s: "ingest_all sha dumps res (d, empty_ingest) = (r1, (d', s))" "r = map_sum id (\<lambda>_. s) r1" "graph_inv d'" "later d d'" "refs_ok d' s"
    have "types_ok (co_records res) (d, empty_ingest)" by (simp add: types_ok_def empty_ingest_def)
    from keepsD [OF types_ingest this, of sha dumps] s(1) have types: "types_ok (co_records res) (d', s)" by simp
    have "exists_row d' (nr_entity_type x, i)" if x: "x \<in> set (co_records res)" "entity_id s x = Some i" for x i
    proof -
      from x(2) obtain et where m: "map_of (in_resolved s) (nr_ref x) = Some (et, i)" by (auto simp: entity_id_def)
      then have "(nr_ref x, et, i) \<in> set (in_resolved s)" by (rule map_of_SomeD)
      with types obtain y where "y \<in> set (co_records res)" "nr_ref y = nr_ref x" "nr_entity_type y = et" by (force simp: types_ok_def)
      with same_ref [OF assms] x(1) have "nr_entity_type x = et" by blast
      with refs_lookup [OF s(5) m] show ?thesis by simp
    qed
    with s(2,3,4) show ?thesis by (cases r1) (auto simp: resolved_ok_def)
  qed
qed

section \<open>The service keeps the graph\<close>

definition hit_exists :: "db \<Rightarrow> source_hit \<Rightarrow> bool" where
  "hit_exists d h \<longleftrightarrow> (\<forall>i. sh_entity_id h = Some i \<longrightarrow> exists_row d (sh_entity_type h, i))"

definition hits_exist :: "scored \<Rightarrow> db \<Rightarrow> bool" where
  "hits_exist acc d \<longleftrightarrow> list_all (hit_exists d) (fst acc) \<and> list_all (\<lambda>r. exists_row d (ri_entity_type r, ri_entity_id r)) (snd acc)"

lemma lasting_hits [simp]: "lasting (hits_exist acc)"
  by (auto simp: lasting_def hits_exist_def hit_exists_def list_all_iff intro: exists_row_later)

lemma score_record_sound:
  assumes "r \<in> set recs"
  shows "sound id (\<lambda>d. resolved_ok recs s d \<and> hits_exist acc d) (score_record sha dumps h s t r acc) hits_exist"
proof -
  let ?P = "\<lambda>d. resolved_ok recs s d \<and> hits_exist acc d"
  have "sound id ?P (case entity_id s r of None \<Rightarrow> ret (fst acc @ [hit_source r None c], snd acc)
     | Some i \<Rightarrow> bnd (record_evidence sha dumps (nr_entity_type r) i ev) (\<lambda>_.
         ret (fst acc @ [hit_source r (Some i) c], snd acc @ [hit_result h r i c]))) hits_exist" for c ev
  proof (cases "entity_id s r")
    case None
    then show ?thesis by (auto intro!: sound_ret simp: hits_exist_def hit_exists_def hit_source_def)
  next
    case (Some i)
    let ?Q = "\<lambda>d. hits_exist acc d \<and> exists_row d (nr_entity_type r, i)"
    have "sound id ?Q (bnd (record_evidence sha dumps (nr_entity_type r) i ev) (\<lambda>_.
         ret (fst acc @ [hit_source r (Some i) c], snd acc @ [hit_result h r i c]))) hits_exist"
      by (rule sound_bnd [OF lasting_conj [OF lasting_hits lasting_exists] record_evidence_sound])
        (auto intro!: sound_ret simp: hits_exist_def hit_exists_def hit_source_def hit_result_def)
    moreover have "?P d \<Longrightarrow> ?Q d" for d using Some assms by (auto simp: resolved_ok_def)
    ultimately show ?thesis using Some by (auto intro: sound_weaken)
  qed
  then show ?thesis unfolding score_record_def
    by (intro sound_bnd [OF _ sound_weaken [OF sound_liftE [where P = "\<lambda>_. True"]], where R = "\<lambda>_ _. True"]) (auto intro: sound_weaken)
qed

lemma score_records_sound:
  assumes "set rs \<subseteq> set recs"
  shows "sound id (\<lambda>d. resolved_ok recs s d \<and> hits_exist acc d) (score_records sha dumps h s t rs acc) hits_exist"
  using assms
proof (induction rs arbitrary: acc)
  case (Cons r rs)
  from Cons.prems have r: "r \<in> set recs" "set rs \<subseteq> set recs" by auto
  have tail: "sound id (\<lambda>d. (resolved_ok recs s d \<and> hits_exist acc d) \<and> hits_exist x d) (score_records sha dumps h s t rs x) hits_exist" for x
    by (rule sound_weaken [OF Cons.IH [OF r(2)]]) auto
  show ?case unfolding score_records.simps
    by (rule sound_bnd [OF _ score_record_sound [OF r(1)] tail]) simp
qed (auto intro: sound_ret)

lemma link_pair_sound:
  assumes "fst p \<in> set recs" "snd p \<in> set recs"
  shows "sound id (resolved_ok recs s) (link_pair s t p acc) (\<lambda>_ _. True)"
proof -
  have store: "sound id (resolved_ok recs s) (store_same_as (fst p) (snd p) (entity_id s (fst p)) (entity_id s (snd p)) c) (\<lambda>_ _. True)" for c
  proof (cases "entity_id s (fst p)"; cases "entity_id s (snd p)")
    fix i j assume ij: "entity_id s (fst p) = Some i" "entity_id s (snd p) = Some j"
    let ?Q = "\<lambda>d. True \<and> exists_row d (nr_entity_type (fst p), i) \<and> exists_row d (nr_entity_type (snd p), j)"
    have "sound id ?Q (store_same_as (fst p) (snd p) (Some i) (Some j) c) (\<lambda>_ _. True)"
      unfolding store_same_as_def prod.case option.case by (rule sound_bnd [OF _ observe_sound]) (auto intro: sound_ret)
    then show ?thesis using ij assms by (auto simp: resolved_ok_def elim: sound_weaken)
  qed (auto simp: store_same_as_def intro: sound_ret)
  show ?thesis unfolding link_pair_def Let_def
    by (rule sound_bnd [OF lasting_resolved sound_weaken [OF sound_liftE [where P = "\<lambda>_. True"]], where R = "\<lambda>_ _. True"])
      (auto intro!: sound_ret sound_bnd [OF _ store])
qed

lemma pairs_in: "p \<in> set (pairs xs) \<Longrightarrow> fst p \<in> set xs \<and> snd p \<in> set xs"
  by (induction xs) auto

lemma link_same_as_sound:
  assumes "\<forall>p \<in> set ps. fst p \<in> set recs \<and> snd p \<in> set recs"
  shows "sound id (resolved_ok recs s) (link_same_as s t ps acc) (\<lambda>_ _. True)"
  using assms
proof (induction ps arbitrary: acc)
  case (Cons p ps)
  have head: "sound id (resolved_ok recs s) (link_pair s t p acc) (\<lambda>_ _. True)"
    using Cons.prems by (intro link_pair_sound) auto
  have tail: "sound id (\<lambda>d. resolved_ok recs s d \<and> True) (link_same_as s t ps x) (\<lambda>_ _. True)" for x
    by (rule sound_weaken [OF Cons.IH]) (use Cons.prems in auto)
  show ?case unfolding link_same_as.simps by (rule sound_bnd [OF lasting_resolved head tail])
qed (simp add: sound_ret)

lemma link_target_sound:
  assumes "set rs \<subseteq> set recs"
  shows "sound id (resolved_ok recs s) (link_target sha dumps uid h rs s) (\<lambda>t d. exists_row d (E_TARGET, t))"
proof -
  have one: "sound id (\<lambda>d. resolved_ok recs s d \<and> exists_row d (E_TARGET, t)) (link_record sha dumps t s r) (\<lambda>_ _. True)"
    if "r \<in> set rs" for r t
  proof (cases "entity_id s r")
    case (Some i)
    have "sound id (\<lambda>d. True \<and> exists_row d (E_TARGET, t) \<and> exists_row d (nr_entity_type r, i)) (link_record sha dumps t s r) (\<lambda>_ _. True)"
      unfolding link_record_def Some option.case by (rule sound_bnd [OF _ link_sound]) (auto intro: sound_ret)
    then show ?thesis using Some that assms by (elim sound_weaken) (auto simp: resolved_ok_def)
  qed (simp add: link_record_def sound_ret)
  have "sound id (\<lambda>d. resolved_ok recs s d \<and> exists_row d (E_TARGET, tg_id (fst x)))
      (case x of (t, _) \<Rightarrow> bnd (resolve sha dumps t) (\<lambda>_. bnd (for_each (link_record sha dumps (tg_id t) s) rs) (\<lambda>_. ret (tg_id t))))
      (\<lambda>t d. exists_row d (E_TARGET, t))" for x :: "target \<times> bool"
  proof (cases x)
    case (Pair t b)
    let ?P = "\<lambda>d. resolved_ok recs s d \<and> exists_row d (E_TARGET, tg_id t)"
    have P: "lasting ?P" by simp
    show ?thesis unfolding Pair prod.case fst_conv
      by (rule sound_bnd [OF P sound_weaken [OF resolver_sound], where R = "\<lambda>_ _. True"], simp, simp,
          rule sound_bnd [where R = "\<lambda>_ _. True"], simp, rule sound_for_each, simp, rule sound_weaken [OF one], simp_all)
        (rule sound_ret, simp)
  qed
  then show ?thesis unfolding link_target_def by (rule sound_bnd [OF lasting_resolved target_sound])
qed

lemma correlate_sound:
  "sound id (resolved_ok (co_records res) s) (correlate sha dumps uid h sid res s) (\<lambda>x d. list_all (hit_exists d) (uo_sources x))"
proof -
  let ?recs = "filter is_account (co_records res)"
  let ?P = "resolved_ok (co_records res) s"
  have scored: "sound id ?P (score_records sha dumps h s t ?recs ([], [])) hits_exist" for t
    by (rule sound_weaken [OF score_records_sound [of ?recs "co_records res"]]) (auto simp: hits_exist_def)
  have last: "sound id (\<lambda>d. ?P d \<and> hits_exist acc d)
     (bnd (link_same_as s t (pairs ?recs) []) (\<lambda>edges.
      bnd (if fst acc = [] then ret None else bnd (link_target sha dumps uid h ?recs s) (\<lambda>t. ret (Some t))) (\<lambda>tid.
      bnd (finish_search uid sid (snd acc) ok) (\<lambda>_.
      ret \<lparr>uo_username = h, uo_found = found, uo_sources = sort_key k (fst acc), uo_same_as = edges,
           uo_notes = ns, uo_search_id = sid, uo_target_id = tid\<rparr>))))
     (\<lambda>x d. list_all (hit_exists d) (uo_sources x))" for acc t ok found k ns
  proof -
    let ?Q = "\<lambda>d. ?P d \<and> hits_exist acc d"
    have Q: "lasting ?Q" and Q3: "lasting (\<lambda>d. (?Q d \<and> True) \<and> True)" by simp_all
    have same: "sound id ?Q (link_same_as s t (pairs ?recs) []) (\<lambda>_ _. True)"
      by (rule sound_weaken [OF link_same_as_sound [of "pairs ?recs" "co_records res"]]) (auto dest: pairs_in)
    have tgt: "sound id (\<lambda>d. ?Q d \<and> True) (if fst acc = [] then ret None else bnd (link_target sha dumps uid h ?recs s) (\<lambda>t. ret (Some t))) (\<lambda>_ _. True)"
      by (auto intro!: sound_ret sound_bnd [OF _ sound_weaken [OF link_target_sound [of ?recs "co_records res"]], where R = "\<lambda>_ _. True"])
    have fin: "sound id (\<lambda>d. (?Q d \<and> True) \<and> True) (bnd (finish_search uid sid (snd acc) ok) (\<lambda>_. ret x))
        (\<lambda>x d. list_all (hit_exists d) (uo_sources x))" if "set (uo_sources x) = set (fst acc)" for x
      by (rule sound_bnd [OF Q3 finish_search_sound]) (use that in \<open>auto intro!: sound_ret simp: hits_exist_def list_all_iff\<close>)
    show ?thesis
      by (rule sound_bnd [OF Q same], rule sound_bnd [OF _ tgt], simp, rule fin) simp
  qed
  show ?thesis unfolding correlate_def Let_def split_def
    by (rule sound_bnd [OF lasting_resolved scored last])
qed

section \<open>Corroboration\<close>

lemma weight_le_30: "weight_of n \<le> 30"
  by (cases n) simp_all

lemma threshold_needs_two:
  assumes "score_pair repr a b same = Inr c" "same_as_threshold \<le> cr_score c"
  shows "2 \<le> length (cr_signals c) \<and> cr_score c \<le> 100"
proof -
  from score_pair_Inr [OF assms(1)] obtain ss where w: "weighed ss" and c: "c = result_of ss"
    using pair_signals_weighed weighed_cross by metis
  note f = result_of_facts [OF w]
  have "card (sg_name ` set ss) = length (cr_signals c)"
    using distinct_card [OF f(2)] f(3) by (simp add: c)
  moreover have "(\<Sum>n \<in> sg_name ` set ss. weight_of n) \<le> 30 * int (card (sg_name ` set ss))"
    using sum_bounded_above [of "sg_name ` set ss" weight_of 30] weight_le_30 by (simp add: mult.commute)
  ultimately show ?thesis using f(1) assms(2) by (simp add: c same_as_threshold_def)
qed

definition corroborated :: "same_as \<Rightarrow> bool" where
  "corroborated e \<longleftrightarrow> same_as_threshold \<le> sa_confidence e \<and> sa_confidence e \<le> 100 \<and> 2 \<le> length (sa_signals e)"

lemma link_pair_corroborated:
  assumes "link_pair s t p acc d = (Inr es, d')" "list_all corroborated acc" shows "list_all corroborated es"
proof -
  from assms(1) obtain c where c: "score_pair repr_str (facts_at t (fst p)) (facts_at t (snd p)) True = Inr c"
    by (auto simp: link_pair_def Let_def liftE_def bnd_Inr_iff)
  show ?thesis
  proof (cases "cr_score c < same_as_threshold")
    case True
    with assms c show ?thesis by (simp add: link_pair_def Let_def)
  next
    case False
    with threshold_needs_two [OF c] assms c show ?thesis
      by (auto simp: link_pair_def Let_def bnd_Inr_iff corroborated_def)
  qed
qed

lemma link_same_as_corroborated:
  "link_same_as s t ps acc d = (Inr es, d') \<Longrightarrow> list_all corroborated acc \<Longrightarrow> list_all corroborated es"
  by (induction ps arbitrary: acc d) (auto simp: bnd_Inr_iff dest: link_pair_corroborated)

lemma correlate_corroborated:
  assumes "correlate sha dumps uid h sid res s d = (Inr x, d')"
  shows "list_all corroborated (uo_same_as x) \<and> sorted (map (\<lambda>h. - sh_confidence h) (uo_sources x))"
proof -
  from assms obtain acc d1 es d2 where "link_same_as s (facts_table (filter is_account (co_records res)))
      (pairs (filter is_account (co_records res))) [] d1 = (Inr es, d2)" and x: "uo_same_as x = es" "uo_sources x = sort_key (\<lambda>h. - sh_confidence h) acc"
    by (fastforce simp: correlate_def Let_def split_def bnd_Inr_iff)
  from link_same_as_corroborated [OF this(1)] show ?thesis by (simp add: x)
qed

section \<open>Collectors for the service\<close>

text \<open>What \<open>CollectResult\<close> promises of its records: a reference is unique within a result.\<close>

locale collector_contract =
  fixes run :: "collect_request \<Rightarrow> exn + collect_result"
  assumes unique_refs: "run rq = Inr res \<Longrightarrow> distinct (map nr_ref (co_records res))"
begin

lemma service_sound:
  "sound id (\<lambda>_. True) (username_osint sha dumps run uid u) (\<lambda>x d. list_all (hit_exists d) (uo_sources x))"
proof -
  have stored: "sound id (\<lambda>d. True \<and> run rq = Inr res) (bnd (ingest sha dumps res) (\<lambda>s. correlate sha dumps uid h sid res s))
      (\<lambda>x d. list_all (hit_exists d) (uo_sources x))" for rq res h sid
  proof (cases "run rq = Inr res")
    case True
    show ?thesis
      by (rule sound_bnd [OF _ ingest_sound [OF unique_refs [OF True]]], simp) (rule sound_weaken [OF correlate_sound], auto)
  qed (simp add: sound_def)
  show ?thesis unfolding username_osint_def
    by (rule sound_bnd [OF lasting_const sound_weaken [OF sound_liftE [where P = "\<lambda>_. True"]], where R = "\<lambda>_ _. True"], simp, simp,
        rule sound_bnd [OF _ search_create_sound], simp,
        rule sound_bnd [OF _ sound_weaken [OF sound_liftE [where P = "\<lambda>_. True"]]], simp, simp, assumption,
        rule sound_weaken [OF stored], auto)
qed

lemma service_result:
  assumes "graph_inv d" "username_osint sha dumps run uid u d = (r, d')"
  shows "graph_inv d' \<and> later d d' \<and> (\<forall>x. r = Inr x \<longrightarrow> list_all (hit_exists d') (uo_sources x) \<and>
    list_all corroborated (uo_same_as x) \<and> sorted (map (\<lambda>h. - sh_confidence h) (uo_sources x)))"
proof -
  have "list_all corroborated (uo_same_as x) \<and> sorted (map (\<lambda>h. - sh_confidence h) (uo_sources x))" if "r = Inr x" for x
    using assms(2) that by (auto simp: username_osint_def bnd_Inr_iff dest: correlate_corroborated)
  moreover have "graph_inv d' \<and> later d d' \<and> (\<forall>x. r = Inr x \<longrightarrow> list_all (hit_exists d') (uo_sources x))"
    using soundD [OF service_sound [of sha dumps uid u], where s = d and r = r and s' = d'] assms by simp
  ultimately show ?thesis by blast
qed

end

lemma run_collector_records:
  assumes "run_collector source ok kind coll normz rels = Inr res"
  obtains "co_records res = []" | raw recs where "normz raw = Inr recs" "subseq (co_records res) recs"
proof -
  have "subseq out recs" if "validate recs = Inr out" for recs out
    using validate_from_spec [OF that [unfolded validate_def]] by blast
  with assms that show thesis
    by (auto simp: run_collector_def failed_result_def split: sum.splits if_splits exn.splits)
qed

interpretation username_contract: collector_contract "username_run adapters"
proof
  fix rq res assume run: "username_run adapters rq = Inr res"
  show "distinct (map nr_ref (co_records res))"
  proof (rule run_collector_records [OF run [unfolded username_run_def]])
    fix raw recs assume n: "username_normalize raw = Inr recs" and sub: "subseq (co_records res) recs"
    have "map nr_ref (map (account_record h) (enumerate n hits)) = map acct_ref [n..<n + length hits]" for h n hits
      by (rule nth_equalityI) (auto simp: account_record_def Let_def nth_enumerate_eq)
    moreover have "distinct (''username'' # map acct_ref [k..<m])" for k m
      by (auto simp: acct_ref_def numbered_def distinct_map inj_on_def)
    moreover have "recs = [] \<or> (\<exists>h hits. recs = username_record h # map (account_record h) (enumerate 0 hits))"
      using n by (auto simp: username_normalize_def found_hits_def split: sum.splits option.splits)
    moreover have "nr_ref (username_record h) = ''username''" for h by (simp add: username_record_def)
    ultimately have "distinct (map nr_ref recs)" by (auto simp del: map_map)
    then show ?thesis using subseq_distinct [OF subseq_map [OF sub]] by blast
  qed simp
qed

interpretation telegram_contract: collector_contract "tg_run src"
proof
  fix rq res assume run: "tg_run src rq = Inr res"
  show "distinct (map nr_ref (co_records res))"
  proof (rule run_collector_records [OF run [unfolded tg_run_def]])
    fix raw recs assume n: "tg_normalize raw = Inr recs" and sub: "subseq (co_records res) recs"
    from tg_normalize_spec [OF n] have "distinct (map nr_ref recs)" by metis
    then show ?thesis using subseq_distinct [OF subseq_map [OF sub]] by blast
  qed simp
qed

section \<open>Properties\<close>

text \<open>
  C30. A user name investigation keeps the graph's integrity whether it returns or raises, and only
  adds rows; every source it reports with an entity names an existing row, strongest first; and no two
  accounts are reported as possibly the same on the shared handle alone: every such pair scores at
  least 45 of 100 on at least two different public signals.
\<close>

theorem username_osint_sound:
  assumes "graph_inv d" and "username_osint sha dumps (username_run adapters) uid u d = (r, d')"
  shows "store_ok d' \<and> linked d' \<and> later d d' \<and>
    (\<forall>x. r = Inr x \<longrightarrow> list_all (hit_exists d') (uo_sources x) \<and> list_all corroborated (uo_same_as x) \<and>
       sorted (map (\<lambda>h. - sh_confidence h) (uo_sources x)))"
  using username_contract.service_result [OF assms] by (simp add: graph_inv_def)

text \<open>Two adapters that find accounts with the same display name and website.\<close>

definition sample_adapter :: "string \<Rightarrow> username_adapter" where
  "sample_adapter p = \<lparr>ad_platform = p, ad_check = (\<lambda>u. Inr \<lparr>ar_platform = p, ar_username = u, ar_exists = True, ar_url = None,
     ar_facts = Some (no_profile_facts\<lparr>pf_display_name := JStr ''Al''\<rparr>), ar_confidence = 90, ar_evidence = [''x''], ar_error = None\<rparr>)\<rparr>"

definition sample_run :: "(exn + username_osint_result) \<times> db" where
  "sample_run = username_osint id (\<lambda>_. []) (username_run [sample_adapter ''a'', sample_adapter ''b'']) 7 ''al'' empty_db"

lemma sample_run_found:
  "(case fst sample_run of Inl e \<Rightarrow> False
     | Inr x \<Rightarrow> map sh_confidence (uo_sources x) = [50, 50] \<and> map sa_confidence (uo_same_as x) = [50])"
  by code_simp

theorem username_osint_sound_witness:
  "\<exists>x. fst sample_run = Inr x \<and> length (uo_same_as x) = 1 \<and> list_all corroborated (uo_same_as x) \<and>
    list_all (hit_exists (snd sample_run)) (uo_sources x)"
proof -
  from sample_run_found obtain x where x: "fst sample_run = Inr x" "map sa_confidence (uo_same_as x) = [50]" by (auto split: sum.splits)
  have "length (uo_same_as x) = 1" using arg_cong [OF x(2), of length] by simp
  with username_osint_sound [OF graph_inv_empty, of id "\<lambda>_. []" "[sample_adapter ''a'', sample_adapter ''b'']" 7 "''al''" "fst sample_run" "snd sample_run"] x(1)
  show ?thesis by (simp add: sample_run_def)
qed

end
