(* ===== verification/PyTime.thy ===== *)
theory PyTime
  imports PyStr
begin

text \<open>
  \<open>datetime.isoformat\<close> and \<open>fromisoformat\<close> for the aware UTC times the program stores. A time is
  the number of seconds since 1970; the calendar is the proleptic Gregorian one of \<open>datetime\<close>, counted
  in years that start in March, so that the leap day is the last of its year.
\<close>

section \<open>Dates\<close>

definition days_to_date :: "int \<Rightarrow> int \<times> int \<times> int" where
  "days_to_date days =
     (let z = days + 719468; era = z div 146097; doe = z mod 146097;
          c = min 3 (doe div 36524); r = doe - 36524 * c;
          q = r div 1461; s = r mod 1461;
          a = min 3 (s div 365); doy = s - 365 * a;
          mp = (5 * doy + 2) div 153; m = (if mp < 10 then mp + 3 else mp - 9)
      in (400 * era + 100 * c + 4 * q + a + (if m \<le> 2 then 1 else 0), m, doy - (153 * mp + 2) div 5 + 1))"

definition date_to_days :: "int \<Rightarrow> int \<Rightarrow> int \<Rightarrow> int" where
  "date_to_days y m d =
     (let y' = (if m \<le> 2 then y - 1 else y); era = y' div 400; yoe = y' mod 400;
          mp = (if m \<le> 2 then m + 9 else m - 3); doy = (153 * mp + 2) div 5 + d - 1
      in 146097 * era + (365 * yoe + yoe div 4 - yoe div 100 + doy) - 719468)"

section \<open>Texts\<close>

definition digit_char :: "int \<Rightarrow> char" where
  "digit_char n = char_of (48 + nat n)"

definition pad2 :: "int \<Rightarrow> string" where
  "pad2 n = [digit_char (n div 10), digit_char (n mod 10)]"

definition pad4 :: "int \<Rightarrow> string" where
  "pad4 n = pad2 (n div 100) @ pad2 (n mod 100)"

definition isoformat :: "int \<Rightarrow> string" where
  "isoformat t =
     (let (y, m, d) = days_to_date (t div 86400); s = t mod 86400
      in pad4 y @ ''-'' @ pad2 m @ ''-'' @ pad2 d @ ''T'' @ pad2 (s div 3600) @ '':'' @ pad2 (s mod 3600 div 60) @ '':'' @
         pad2 (s mod 60) @ ''+00:00'')"

text \<open>The inverse, on the texts \<open>isoformat\<close> writes.\<close>

definition num_at :: "string \<Rightarrow> nat \<Rightarrow> nat \<Rightarrow> int" where
  "num_at s i n = int (dec_value (take n (drop i s)))"

definition fromisoformat :: "string \<Rightarrow> exn + int" where
  "fromisoformat s =
     (let t = 86400 * date_to_days (num_at s 0 4) (num_at s 5 2) (num_at s 8 2) + 3600 * num_at s 11 2 + 60 * num_at s 14 2 + num_at s 17 2
      in if length s = 25 \<and> isoformat t = s then Inr t else Inl (ValueError ''Invalid isoformat string''))"

text \<open>The times a \<open>datetime\<close> can hold: the years 1 to 9999.\<close>

definition datetime_range :: "int \<Rightarrow> bool" where
  "datetime_range t \<longleftrightarrow> 0 \<le> fst (days_to_date (t div 86400)) \<and> fst (days_to_date (t div 86400)) \<le> 9999"

section \<open>Lemmas\<close>

lemma div_bounds: "0 < (b::int) \<Longrightarrow> b * (x div b) \<le> x \<and> x < b * (x div b) + b"
  using mult_div_mod_eq [of b x] pos_mod_bound [of b x] pos_mod_sign [of b x] by linarith

lemma month_table:
  assumes "0 \<le> doy" "doy \<le> 365"
  shows "0 \<le> (5 * doy + 2) div (153::int) \<and> (5 * doy + 2) div 153 \<le> 11 \<and>
    0 \<le> doy - (153 * ((5 * doy + 2) div 153) + 2) div 5 \<and> doy - (153 * ((5 * doy + 2) div 153) + 2) div 5 \<le> 30"
proof -
  define mp where "mp = (5 * doy + 2) div 153"
  define k where "k = (153 * mp + 2) div 5"
  have "153 * mp \<le> 5 * doy + 2" "5 * doy + 2 < 153 * mp + 153" using div_bounds [of 153 "5 * doy + 2"] unfolding mp_def by simp_all
  moreover have "5 * k \<le> 153 * mp + 2" "153 * mp + 2 < 5 * k + 5" using div_bounds [of 5 "153 * mp + 2"] unfolding k_def by simp_all
  ultimately have "0 \<le> mp \<and> mp \<le> 11 \<and> 0 \<le> doy - k \<and> doy - k \<le> 30" using assms by linarith
  then show ?thesis unfolding mp_def k_def .
qed

text \<open>The day of an era in centuries, leap cycles, years and days.\<close>

lemma era_table:
  fixes doe :: int
  assumes "0 \<le> doe" "doe < 146097"
    and "c = min 3 (doe div 36524)" "r = doe - 36524 * c" "q = r div 1461" "s = r mod 1461" "a = min 3 (s div 365)"
  shows "0 \<le> c \<and> c \<le> 3 \<and> 0 \<le> q \<and> q \<le> 24 \<and> 0 \<le> a \<and> a \<le> 3 \<and> 0 \<le> s - 365 * a \<and> s - 365 * a \<le> 365 \<and>
    doe = 36524 * c + 1461 * q + s"
proof -
  have c: "0 \<le> c" "c \<le> 3" "36524 * c \<le> doe" "c < 3 \<Longrightarrow> doe < 36524 * c + 36524"
    using assms(1) div_bounds [of 36524 doe] unfolding assms(3) by (auto simp: min_def pos_imp_zdiv_nonneg_iff)
  then have r: "0 \<le> r" "r \<le> 36524" using assms(2,4) by linarith+
  have q: "0 \<le> q" "q \<le> 24" "0 \<le> s" "s < 1461" "r = 1461 * q + s" using r div_bounds [of 1461 r] mult_div_mod_eq [of 1461 r] unfolding assms(5,6)
    by (auto simp: pos_imp_zdiv_nonneg_iff)
  have a: "0 \<le> a" "a \<le> 3" "365 * a \<le> s" "a < 3 \<Longrightarrow> s < 365 * a + 365"
    using q(3) div_bounds [of 365 s] unfolding assms(7) by (auto simp: min_def pos_imp_zdiv_nonneg_iff)
  from a q have "0 \<le> s - 365 * a" "s - 365 * a \<le> 365" by linarith+
  with c r q a assms(4) show ?thesis by linarith
qed

lemma years_split:
  fixes c q a :: int
  assumes "0 \<le> c" "c \<le> 3" "0 \<le> q" "q \<le> 24" "0 \<le> a" "a \<le> 3"
  shows "(400 * e + 100 * c + 4 * q + a) div 400 = e" "(400 * e + 100 * c + 4 * q + a) mod 400 = 100 * c + 4 * q + a"
    "(100 * c + 4 * q + a) div 4 = 25 * c + q" "(100 * c + 4 * q + a) div 100 = c"
  using assms by (auto intro!: int_div_pos_eq int_mod_pos_eq [where q = e] int_div_pos_eq [where r = a] int_div_pos_eq [where r = "4 * q + a"])

lemma date_fields:
  assumes "days_to_date z = (y, m, d)"
  shows "1 \<le> m \<and> m \<le> 12 \<and> 1 \<le> d \<and> d \<le> 31 \<and> date_to_days y m d = z"
proof -
  define e doe where "e = (z + 719468) div 146097" and "doe = (z + 719468) mod 146097"
  define c where "c = min 3 (doe div 36524)"
  define r where "r = doe - 36524 * c"
  define q s where "q = r div 1461" and "s = r mod 1461"
  define a where "a = min 3 (s div 365)"
  define doy where "doy = s - 365 * a"
  define mp where "mp = (5 * doy + 2) div 153"
  define k where "k = (153 * mp + 2) div 5"
  have doe: "0 \<le> doe" "doe < 146097" "z + 719468 = 146097 * e + doe" unfolding doe_def e_def by simp_all
  have era: "0 \<le> c" "c \<le> 3" "0 \<le> q" "q \<le> 24" "0 \<le> a" "a \<le> 3" "0 \<le> doy" "doy \<le> 365" "doe = 36524 * c + 1461 * q + s"
    using era_table [OF doe(1,2) c_def r_def q_def s_def a_def] by (auto simp: doy_def)
  have month: "0 \<le> mp" "mp \<le> 11" "0 \<le> doy - k" "doy - k \<le> 30"
    using month_table [OF era(7,8)] unfolding mp_def k_def by auto
  have ymd: "y = 400 * e + 100 * c + 4 * q + a + (if m \<le> 2 then 1 else 0)" "m = (if mp < 10 then mp + 3 else mp - 9)" "d = doy - k + 1"
    using assms unfolding days_to_date_def Let_def e_def [symmetric] doe_def [symmetric] c_def [symmetric] r_def [symmetric]
      q_def [symmetric] s_def [symmetric] a_def [symmetric] doy_def [symmetric] mp_def [symmetric] k_def [symmetric] by auto
  have y': "(if m \<le> 2 then y - 1 else y) = 400 * e + 100 * c + 4 * q + a" by (simp add: ymd(1))
  have mp': "(if m \<le> 2 then m + 9 else m - 3) = mp" using month(1,2) by (simp add: ymd(2))
  have "date_to_days y m d = 146097 * e + (365 * (100 * c + 4 * q + a) + (25 * c + q) - c + (k + d - 1)) - 719468"
    unfolding date_to_days_def Let_def y' mp' years_split [OF era(1-6)] by (simp add: k_def)
  also have "\<dots> = z" using doe(3) era(9) by (simp add: ymd(3) doy_def)
  finally show ?thesis using month by (auto simp: ymd)
qed

lemma digit_value: "0 \<le> n \<Longrightarrow> n < 10 \<Longrightarrow> code (digit_char n) = 48 + nat n"
  by (simp add: code_def digit_char_def)

lemma dec_value_pad2: "0 \<le> n \<Longrightarrow> n < 100 \<Longrightarrow> int (dec_value (pad2 n)) = n"
  by (simp add: pad2_def dec_value_def digit_value nat_less_iff pos_imp_zdiv_nonneg_iff)

lemma length_pad [simp]: "length (pad2 n) = 2" "length (pad4 n) = 4"
  by (simp_all add: pad2_def pad4_def)

lemma dec_value_pad4:
  assumes "0 \<le> n" "n < 10000" shows "int (dec_value (pad4 n)) = n"
proof -
  have "int (dec_value (pad2 (n div 100))) = n div 100" "int (dec_value (pad2 (n mod 100))) = n mod 100"
    using assms by (auto intro!: dec_value_pad2 simp: pos_imp_zdiv_nonneg_iff)
  then show ?thesis by (simp add: pad4_def dec_value_append)
qed

text \<open>What \<open>isoformat\<close> writes, \<open>fromisoformat\<close> reads back.\<close>

lemma fromisoformat_isoformat:
  assumes "datetime_range t" shows "fromisoformat (isoformat t) = Inr t"
proof -
  obtain y m d where ymd: "days_to_date (t div 86400) = (y, m, d)" by (metis prod_cases3)
  note f = date_fields [OF ymd]
  have y: "0 \<le> y" "y < 10000" using assms ymd by (auto simp: datetime_range_def)
  define s where "s = t mod 86400"
  have s0: "0 \<le> s" "s < 86400" by (simp_all add: s_def)
  define h u where "h = s div 3600" and "u = s mod 3600"
  have u: "0 \<le> u" "u < 3600" "s = 3600 * h + u" by (simp_all add: u_def h_def)
  have h: "0 \<le> h" "h < 100" using u s0 by linarith+
  have v: "0 \<le> u div 60" "u div 60 < 100" "0 \<le> s mod 60" "s mod 60 < 100"
    using u(1,2) div_bounds [of 60 u] pos_mod_sign [of 60 s] pos_mod_bound [of 60 s] by linarith+
  have "s mod 60 = u mod 60" unfolding u_def by (rule mod_mod_cancel [symmetric]) simp
  then have sum: "3600 * h + 60 * (u div 60) + s mod 60 = s" using u(3) mult_div_mod_eq [of 60 u] by linarith
  have iso: "isoformat t = pad4 y @ ''-'' @ pad2 m @ ''-'' @ pad2 d @ ''T'' @ pad2 (h) @ '':'' @ pad2 (u div 60) @ '':'' @
      pad2 (s mod 60) @ ''+00:00''"
    by (simp add: isoformat_def ymd s_def h_def u_def Let_def)
  have n: "num_at (isoformat t) 0 4 = y" "num_at (isoformat t) 5 2 = m" "num_at (isoformat t) 8 2 = d" "num_at (isoformat t) 11 2 = h"
    "num_at (isoformat t) 14 2 = u div 60" "num_at (isoformat t) 17 2 = s mod 60"
    using y h v f by (simp_all add: num_at_def iso dec_value_pad2 dec_value_pad4)
  have "length (isoformat t) = 25" by (simp add: iso)
  moreover have "86400 * (t div 86400) + s = t" by (simp add: s_def)
  ultimately have "86400 * date_to_days y m d + 3600 * h + 60 * (u div 60) + s mod 60 = t" using f sum by linarith
  then show ?thesis using \<open>length (isoformat t) = 25\<close> by (simp only: fromisoformat_def Let_def n) simp
qed

end
