(* ===== verification/ReportModel.thy ===== *)
theory ReportModel
  imports Adapters PyTime
begin

text \<open>
  \<open>reports/models.py\<close> and \<open>reports/renderers/html.py\<close>, \<open>json_render.py\<close>: the content of a report as
  a tree of sections and claims, its dictionary form, which is what is stored, and the HTML page.
  The text form of the stored JSON plays no role: \<open>json.loads\<close> of it is the dictionary.
\<close>

section \<open>Sections\<close>

definition section_order :: "string list" where
  "section_order =
     [''executive_summary'', ''target_information'', ''public_telegram_presence'', ''public_groups'', ''public_channels'',
      ''public_messages'', ''username_intelligence'', ''external_osint'', ''ioc'', ''timeline'', ''entity_graph'', ''evidence'',
      ''confidence_scores'', ''collection_timestamps'', ''limitations'']"

definition investigation_section_order :: "string list" where
  "investigation_section_order =
     [''executive_summary'', ''target_information'', ''public_profile'', ''observed_public_resources'',
      ''public_message_activity'', ''mentions'', ''replies'', ''timeline'', ''entities'', ''relationships'', ''evidence'',
      ''confidence'', ''limitations'', ''methodology'', ''audit_information'']"

definition all_section_order :: "string list" where
  "all_section_order = section_order @ filter (\<lambda>k. k \<notin> set section_order) investigation_section_order"

definition section_titles :: "(string \<times> string) list" where
  "section_titles =
     [(''executive_summary'', ''Executive Summary''), (''target_information'', ''Target Information''),
      (''public_profile'', ''Public Profile''), (''public_telegram_presence'', ''Public Telegram Presence''),
      (''observed_public_resources'', ''Observed Public Resources''), (''public_groups'', ''Public Groups''),
      (''public_channels'', ''Public Channels''), (''public_messages'', ''Public Messages''),
      (''public_message_activity'', ''Public Message Activity''), (''mentions'', ''Mentions''), (''replies'', ''Replies''),
      (''username_intelligence'', ''Username Intelligence''), (''external_osint'', ''External OSINT''),
      (''ioc'', ''Indicators of Compromise''), (''timeline'', ''Timeline''), (''entity_graph'', ''Entity Graph''),
      (''entities'', ''Entities''), (''relationships'', ''Relationships''), (''evidence'', ''Evidence''),
      (''confidence_scores'', ''Confidence Scores''), (''confidence'', ''Confidence''),
      (''collection_timestamps'', ''Collection Timestamps''), (''limitations'', ''Data Visibility Limitations''),
      (''methodology'', ''Methodology''), (''audit_information'', ''Audit Information'')]"

text \<open>\<open>str.title\<close>: the first letter of every run of letters is raised, the others are lowered.\<close>

definition is_cased :: "char \<Rightarrow> bool" where
  "is_cased c \<longleftrightarrow> lower_char c \<noteq> c \<or> upper_char c \<noteq> [c]"

fun title_from :: "bool \<Rightarrow> string \<Rightarrow> string" where
  "title_from prev [] = []"
| "title_from prev (c # s) =
     (if prev then [lower_char c] else if code c = 223 then ''Ss'' else upper_char c) @ title_from (is_cased c) s"

definition replace_char :: "char \<Rightarrow> string \<Rightarrow> string \<Rightarrow> string" where
  "replace_char c t s = concat (map (\<lambda>x. if x = c then t else [x]) s)"

record claim =
  cl_text :: string
  cl_assertion :: string
  cl_refs :: "string list"
  cl_confidence :: "int option"

record report_section =
  sn_key :: string
  sn_claims :: "claim list"
  sn_data :: "(string \<times> json) list"

record report_content =
  rc_report_id :: string
  rc_title :: string
  rc_target :: "(string \<times> json) list"
  rc_generated_at :: time
  rc_sections :: "(string \<times> report_section) list"

fun assertion_value :: "assertion \<Rightarrow> string" where
  "assertion_value FACT = ''FACT''"
| "assertion_value INFERENCE = ''INFERENCE''"
| "assertion_value UNKNOWN_CLAIM = ''UNKNOWN''"

definition claim_of :: "string \<Rightarrow> assertion \<Rightarrow> claim" where
  "claim_of txt a = \<lparr>cl_text = txt, cl_assertion = assertion_value a, cl_refs = [], cl_confidence = None\<rparr>"

definition section_title :: "report_section \<Rightarrow> string" where
  "section_title s = (case map_of section_titles (sn_key s) of
     Some t \<Rightarrow> t | None \<Rightarrow> title_from False (replace_char CHR ''_'' '' '' (sn_key s)))"

text \<open>\<open>content.section(key)\<close> is the section of that key, made on first use; a client then changes it.\<close>

definition section_at :: "string \<Rightarrow> report_content \<Rightarrow> report_section" where
  "section_at k c = (case map_of (rc_sections c) k of Some s \<Rightarrow> s | None \<Rightarrow> \<lparr>sn_key = k, sn_claims = [], sn_data = []\<rparr>)"

definition on_section :: "string \<Rightarrow> (report_section \<Rightarrow> report_section) \<Rightarrow> report_content \<Rightarrow> report_content" where
  "on_section k f c = c\<lparr>rc_sections := AList.update k (f (section_at k c)) (rc_sections c)\<rparr>"

section \<open>Dictionaries\<close>

definition json_of :: "('a \<Rightarrow> json) \<Rightarrow> 'a option \<Rightarrow> json" where
  "json_of f v = (case v of None \<Rightarrow> JNull | Some x \<Rightarrow> f x)"

definition claim_dict :: "claim \<Rightarrow> json" where
  "claim_dict c = JObj [(''text'', JStr (cl_text c)), (''assertion'', JStr (cl_assertion c)),
     (''evidence_refs'', JList (map JStr (cl_refs c))), (''confidence'', json_of JInt (cl_confidence c))]"

definition section_dict :: "report_section \<Rightarrow> json" where
  "section_dict s = JObj [(''key'', JStr (sn_key s)), (''title'', JStr (section_title s)),
     (''claims'', JList (map claim_dict (sn_claims s))), (''data'', JObj (sn_data s))]"

definition ordered_keys :: "report_content \<Rightarrow> string list" where
  "ordered_keys c = filter (\<lambda>k. k \<in> fst ` set (rc_sections c)) all_section_order @
     filter (\<lambda>k. k \<notin> set all_section_order) (map fst (rc_sections c))"

definition content_dict :: "report_content \<Rightarrow> json" where
  "content_dict c = JObj [(''report_id'', JStr (rc_report_id c)), (''title'', JStr (rc_title c)), (''target'', JObj (rc_target c)),
     (''generated_at'', JStr (isoformat (rc_generated_at c))),
     (''sections'', JList (map (\<lambda>k. section_dict (section_at k c)) (ordered_keys c)))]"

text \<open>
  Reading the stored form back, as the download endpoints do: \<open>d[k]\<close> on the keys above,
  \<open>Claim(**c)\<close> and \<open>Section(...)\<close>. A missing key raises; the fields take whatever they get, so a value of
  another type, which the page could not show, is refused here.
\<close>

definition item :: "string \<Rightarrow> json \<Rightarrow> exn + json" where
  "item k j = (case j of JObj kvs \<Rightarrow> (case map_of kvs k of Some v \<Rightarrow> Inr v | None \<Rightarrow> Inl (KeyError k))
     | _ \<Rightarrow> Inl (TypeError ''indices must be integers''))"

definition text_item :: "string \<Rightarrow> json \<Rightarrow> exn + string" where
  "text_item k j = (case item k j of Inl e \<Rightarrow> Inl e | Inr (JStr s) \<Rightarrow> Inr s | Inr _ \<Rightarrow> Inl (TypeError ''not a text''))"

definition list_item :: "string \<Rightarrow> json \<Rightarrow> exn + json list" where
  "list_item k j = (case item k j of Inl e \<Rightarrow> Inl e | Inr (JList vs) \<Rightarrow> Inr vs | Inr _ \<Rightarrow> Inl (TypeError ''not a list''))"

definition dict_item :: "string \<Rightarrow> json \<Rightarrow> exn + (string \<times> json) list" where
  "dict_item k j = (case item k j of Inl e \<Rightarrow> Inl e | Inr (JObj kvs) \<Rightarrow> Inr kvs | Inr _ \<Rightarrow> Inl (TypeError ''not a dictionary''))"

fun mapE :: "('a \<Rightarrow> exn + 'b) \<Rightarrow> 'a list \<Rightarrow> exn + 'b list" where
  "mapE f [] = Inr []"
| "mapE f (x # xs) =
     (case f x of Inl e \<Rightarrow> Inl e | Inr y \<Rightarrow> (case mapE f xs of Inl e \<Rightarrow> Inl e | Inr ys \<Rightarrow> Inr (y # ys)))"

definition ref_text :: "json \<Rightarrow> exn + string" where
  "ref_text v = (case v of JStr s \<Rightarrow> Inr s | _ \<Rightarrow> Inl (TypeError ''not a text''))"

definition confidence_item :: "json \<Rightarrow> exn + int option" where
  "confidence_item j = (case item ''confidence'' j of Inl e \<Rightarrow> Inl e | Inr (JInt i) \<Rightarrow> Inr (Some i) | Inr JNull \<Rightarrow> Inr None
     | Inr _ \<Rightarrow> Inl (TypeError ''not a number''))"

definition parse_claim :: "json \<Rightarrow> exn + claim" where
  "parse_claim j =
     (case text_item ''text'' j of Inl e \<Rightarrow> Inl e | Inr txt \<Rightarrow>
      (case text_item ''assertion'' j of Inl e \<Rightarrow> Inl e | Inr a \<Rightarrow>
      (case list_item ''evidence_refs'' j of Inl e \<Rightarrow> Inl e | Inr refs \<Rightarrow>
      (case mapE ref_text refs of Inl e \<Rightarrow> Inl e | Inr rs \<Rightarrow>
      (case confidence_item j of Inl e \<Rightarrow> Inl e | Inr conf \<Rightarrow>
       Inr \<lparr>cl_text = txt, cl_assertion = a, cl_refs = rs, cl_confidence = conf\<rparr>)))))"

definition parse_section :: "json \<Rightarrow> exn + string \<times> report_section" where
  "parse_section j =
     (case text_item ''key'' j of Inl e \<Rightarrow> Inl e | Inr k \<Rightarrow>
      (case list_item ''claims'' j of Inl e \<Rightarrow> Inl e | Inr cs \<Rightarrow>
      (case mapE parse_claim cs of Inl e \<Rightarrow> Inl e | Inr claims \<Rightarrow>
      (case dict_item ''data'' j of Inl e \<Rightarrow> Inl e | Inr data \<Rightarrow>
       Inr (k, \<lparr>sn_key = k, sn_claims = claims, sn_data = data\<rparr>)))))"

definition parse_content :: "json \<Rightarrow> exn + report_content" where
  "parse_content d =
     (case text_item ''report_id'' d of Inl e \<Rightarrow> Inl e | Inr i \<Rightarrow>
      (case text_item ''title'' d of Inl e \<Rightarrow> Inl e | Inr title \<Rightarrow>
      (case dict_item ''target'' d of Inl e \<Rightarrow> Inl e | Inr target \<Rightarrow>
      (case text_item ''generated_at'' d of Inl e \<Rightarrow> Inl e | Inr made \<Rightarrow>
      (case fromisoformat made of Inl e \<Rightarrow> Inl e | Inr t \<Rightarrow>
      (case list_item ''sections'' d of Inl e \<Rightarrow> Inl e | Inr ss \<Rightarrow>
      (case mapE parse_section ss of Inl e \<Rightarrow> Inl e | Inr secs \<Rightarrow>
       Inr \<lparr>rc_report_id = i, rc_title = title, rc_target = target, rc_generated_at = t,
            rc_sections = fold (\<lambda>(k, s). AList.update k s) secs []\<rparr>)))))))"

section \<open>HTML\<close>

definition newline :: string where
  "newline = [CHR 0x0A]"

definition esc_char :: "char \<Rightarrow> string" where
  "esc_char c =
     (if c = CHR ''&'' then ''&amp;'' else if c = CHR ''<'' then ''&lt;'' else if c = CHR ''>'' then ''&gt;''
      else if c = CHR 0x22 then ''&quot;'' else if c = CHR 0x27 then ''&#x27;'' else [c])"

definition html_escape :: "string \<Rightarrow> string" where
  "html_escape s = concat (map esc_char s)"

definition css :: string where
  "css = join newline
     [[], '':root { color-scheme: light dark; }'',
      ''body { font: 15px/1.55 -apple-system, Segoe UI, Roboto, Helvetica, Arial, sans-serif;'',
      ''       max-width: 900px; margin: 2rem auto; padding: 0 1rem; }'',
      ''h1 { font-size: 1.6rem; margin-bottom: .2rem; }'',
      ''h2 { font-size: 1.15rem; margin-top: 2rem; border-bottom: 1px solid #8884; padding-bottom: .2rem; }'',
      ''.meta { color: #888; font-size: .9rem; }'',
      ''.claim { margin: .35rem 0; }'',
      ''.tag { font-size: .7rem; font-weight: 700; padding: .1rem .4rem; border-radius: .3rem;'',
      ''       vertical-align: middle; margin-right: .4rem; }'',
      ''.FACT { background: #1a7f37; color: #fff; }'',
      ''.INFERENCE { background: #9a6700; color: #fff; }'',
      ''.UNKNOWN { background: #57606a; color: #fff; }'',
      ''.refs { color: #888; font-size: .8rem; }'',
      ''table { border-collapse: collapse; width: 100%; font-size: .85rem; margin: .5rem 0; }'',
      ''th, td { border: 1px solid #8884; padding: .3rem .5rem; text-align: left; vertical-align: top; }'',
      ''code { background: #8881; padding: 0 .25rem; border-radius: .2rem; }'',
      ''.disclaimer { background: #8881; padding: .75rem 1rem; border-radius: .5rem; margin-top: 2rem; }'', []]"

definition refs_html :: "claim \<Rightarrow> string" where
  "refs_html c = (if cl_refs c = [] then []
     else '' <span class=\"refs\">[evidence: '' @ html_escape (join '', '' (take 6 (cl_refs c))) @ '']</span>'')"

definition conf_html :: "claim \<Rightarrow> string" where
  "conf_html c = (case cl_confidence c of None \<Rightarrow> [] | Some i \<Rightarrow> '' <span class=refs>('' @ show_int i @ ''%)</span>'')"

definition claim_html :: "claim \<Rightarrow> string" where
  "claim_html c = ''<p class=\"claim\"><span class=\"tag '' @ html_escape (cl_assertion c) @ ''\">'' @ html_escape (cl_assertion c) @
     ''</span>'' @ html_escape (cl_text c) @ conf_html c @ refs_html c @ ''</p>''"

definition claims_html :: "report_section \<Rightarrow> string" where
  "claims_html s = join newline (map claim_html (sn_claims s))"

text \<open>The columns come from a set: \<open>ord\<close> is its iteration order.\<close>

definition columns :: "(string list \<Rightarrow> string list) \<Rightarrow> (string \<times> json) list list \<Rightarrow> string list" where
  "columns ord rows = ord (remdups (concat (map (map fst) rows)))"

definition cell :: "(string \<times> json) list \<Rightarrow> string \<Rightarrow> string" where
  "cell r k = (case map_of r k of None \<Rightarrow> [] | Some v \<Rightarrow> py_str v)"

definition row_html :: "string list \<Rightarrow> (string \<times> json) list \<Rightarrow> string" where
  "row_html keys r = ''<tr>'' @ concat (map (\<lambda>k. ''<td>'' @ html_escape (cell r k) @ ''</td>'') keys) @ ''</tr>''"

definition kv_table :: "(string list \<Rightarrow> string list) \<Rightarrow> (string \<times> json) list list \<Rightarrow> string" where
  "kv_table ord rows =
     (if rows = [] then []
      else (let keys = columns ord rows in
        ''<table><thead><tr>'' @ concat (map (\<lambda>k. ''<th>'' @ html_escape k @ ''</th>'') keys) @ ''</tr></thead><tbody>'' @
        concat (map (row_html keys) rows) @ ''</tbody></table>''))"

definition dict_rows :: "json \<Rightarrow> (string \<times> json) list list" where
  "dict_rows v = (case v of
     JList vs \<Rightarrow> (if list_all (\<lambda>x. case x of JObj _ \<Rightarrow> True | _ \<Rightarrow> False) vs
                 then map (\<lambda>x. case x of JObj kvs \<Rightarrow> kvs | _ \<Rightarrow> []) vs else [])
   | _ \<Rightarrow> [])"

definition table_keys :: "string list" where
  "table_keys = [''accounts'', ''items'', ''sample'', ''linked'', ''correlations'']"

definition tables_html :: "(string list \<Rightarrow> string list) \<Rightarrow> report_section \<Rightarrow> string list" where
  "tables_html ord s = map (\<lambda>k. kv_table ord (dict_rows (dict_get (sn_data s) k))) table_keys"

definition event_html :: "(string \<times> json) list \<Rightarrow> string" where
  "event_html e = ''<li><code>'' @ html_escape (take 10 (cell e ''when'')) @ ''</code> '' @ html_escape (cell e ''title'') @ ''</li>''"

definition year_html :: "string \<times> json \<Rightarrow> string list" where
  "year_html y = [''<h3>'' @ html_escape (fst y) @ ''</h3><ul>''] @ map event_html (take 40 (dict_rows (snd y))) @ [''</ul>'']"

definition years_html :: "report_section \<Rightarrow> string list" where
  "years_html s =
     (if sn_key s = ''timeline''
      then (case dict_get (sn_data s) ''by_year'' of JObj ys \<Rightarrow> concat (map year_html (sort_key fst ys)) | _ \<Rightarrow> [])
      else [])"

definition arrow :: string where
  "arrow = [CHR 0xE2, CHR 0x86, CHR 0x92]"

definition edge_html :: "(string \<times> json) list \<Rightarrow> string" where
  "edge_html e = ''<li>'' @ html_escape (py_str (dict_get e ''source'')) @ '' '' @ em_dash @ ''['' @ html_escape (py_str (dict_get e ''type'')) @ '' '' @
     py_str (dict_get e ''confidence'') @ ''%]'' @ arrow @ '' '' @ html_escape (py_str (dict_get e ''target'')) @ ''</li>''"

definition edges_html :: "report_section \<Rightarrow> string list" where
  "edges_html s =
     (if sn_key s = ''entity_graph''
      then (case dict_get (sn_data s) ''edges'' of
              JList es \<Rightarrow> [''<ul>''] @ map edge_html (take 60 (dict_rows (JList es))) @ [''</ul>''] | _ \<Rightarrow> [])
      else [])"

definition section_html :: "(string list \<Rightarrow> string list) \<Rightarrow> report_section \<Rightarrow> string" where
  "section_html ord s = join newline (filter (\<lambda>p. p \<noteq> [])
     ([''<h2>'' @ html_escape (section_title s) @ ''</h2>'', claims_html s] @ tables_html ord s @ years_html s @ edges_html s))"

definition page_foot :: string where
  "page_foot = ''<p class='disclaimer'>This report uses only public OSINT and Telegram Bot API data. '' @
     ''It contains no private Telegram content and no credential/session data. Username '' @
     ''matches are potential matches, not confirmed identity.</p></body></html>''"

definition render_html :: "(string list \<Rightarrow> string list) \<Rightarrow> report_content \<Rightarrow> string" where
  "render_html ord c =
     ''<!doctype html><html><head><meta charset='utf-8'><title>'' @ html_escape (rc_title c) @ ''</title><style>'' @ css @
     ''</style></head><body><h1>'' @ html_escape (rc_title c) @ ''</h1><p class='meta'>Target: <code>'' @
     html_escape (py_str (dict_get (rc_target c) ''value'')) @ ''</code> '' @ [CHR 0xB7] @ '' Generated: '' @
     html_escape (isoformat (rc_generated_at c)) @ '' '' @ [CHR 0xB7] @ '' Report '' @ html_escape (take 8 (rc_report_id c)) @ ''</p>'' @
     join newline (map (\<lambda>k. section_html ord (section_at k c)) (ordered_keys c)) @ page_foot"

section \<open>The stored form\<close>

text \<open>What the builders make: one section per key, under its own key, with a time a \<open>datetime\<close> can hold.\<close>

definition content_ok :: "report_content \<Rightarrow> bool" where
  "content_ok c \<longleftrightarrow> distinct (map fst (rc_sections c)) \<and> (\<forall>x \<in> set (rc_sections c). sn_key (snd x) = fst x) \<and>
     datetime_range (rc_generated_at c)"

lemma mapE_map: "(\<And>x. x \<in> set xs \<Longrightarrow> f (g x) = Inr (h x)) \<Longrightarrow> mapE f (map g xs) = Inr (map h xs)"
  by (induction xs) simp_all

lemma item_JObj [simp]: "item k (JObj kvs) = (case map_of kvs k of Some v \<Rightarrow> Inr v | None \<Rightarrow> Inl (KeyError k))"
  by (simp add: item_def)

lemma parse_claim_dict [simp]: "parse_claim (claim_dict c) = Inr c"
proof -
  have "mapE ref_text (map JStr rs) = Inr rs" for rs
    using mapE_map [of rs ref_text JStr id] by (simp add: ref_text_def)
  then show ?thesis
    by (cases "cl_confidence c")
      (simp_all add: parse_claim_def claim_dict_def text_item_def list_item_def confidence_item_def json_of_def)
qed

lemma parse_section_dict [simp]: "parse_section (section_dict s) = Inr (sn_key s, s)"
proof -
  have "mapE parse_claim (map claim_dict cs) = Inr cs" for cs
    using mapE_map [of cs parse_claim claim_dict id] by simp
  then show ?thesis by (simp add: parse_section_def section_dict_def text_item_def list_item_def dict_item_def)
qed

lemma fold_update_append:
  "distinct (map fst acc @ map fst xs) \<Longrightarrow> fold (\<lambda>(k, s). AList.update k s) xs acc = acc @ xs"
proof (induction xs arbitrary: acc)
  case (Cons x xs)
  have "AList.update (fst x) (snd x) acc = acc @ [x]" if "fst x \<notin> fst ` set acc" using that
    by (induction acc) auto
  with Cons show ?case by (cases x) auto
qed simp

lemma distinct_all_order: "distinct all_section_order"
  by code_simp

lemma distinct_ordered_keys: "distinct (map fst (rc_sections c)) \<Longrightarrow> distinct (ordered_keys c)"
  by (auto simp: ordered_keys_def distinct_all_order)

lemma set_ordered_keys: "set (ordered_keys c) = fst ` set (rc_sections c)"
  by (auto simp: ordered_keys_def)

lemma section_at_in:
  assumes "k \<in> set (ordered_keys c)" shows "(k, section_at k c) \<in> set (rc_sections c)"
proof -
  from assms obtain s where "map_of (rc_sections c) k = Some s"
    by (metis set_ordered_keys map_of_eq_None_iff option.exhaust)
  then show ?thesis by (auto simp: section_at_def dest: map_of_SomeD)
qed

text \<open>What is stored, and the content read back from it.\<close>

definition reordered :: "report_content \<Rightarrow> report_content" where
  "reordered c = c\<lparr>rc_sections := map (\<lambda>k. (k, section_at k c)) (ordered_keys c)\<rparr>"

lemma reordered_same:
  "ordered_keys (reordered c) = ordered_keys c" "k \<in> set (ordered_keys c) \<Longrightarrow> section_at k (reordered c) = section_at k c"
proof -
  have "fst ` set (rc_sections (reordered c)) = fst ` set (rc_sections c)"
    using set_ordered_keys [of c] by (simp add: reordered_def image_image)
  moreover have "filter (\<lambda>k. k \<notin> set all_section_order) (ordered_keys c) =
      filter (\<lambda>k. k \<notin> set all_section_order) (map fst (rc_sections c))"
    by (simp add: ordered_keys_def filter_empty_conv)
  moreover have "map fst (rc_sections (reordered c)) = ordered_keys c" by (simp add: reordered_def comp_def)
  ultimately show "ordered_keys (reordered c) = ordered_keys c" by (simp only: ordered_keys_def)
  show "section_at k (reordered c) = section_at k c" if "k \<in> set (ordered_keys c)"
  proof -
    have "map_of (map (\<lambda>k. (k, section_at k c)) (ordered_keys c)) k = Some (section_at k c)"
      using that by (simp add: map_of_map_restrict restrict_map_def)
    moreover have "section_at k e = s" if "map_of (rc_sections e) k = Some s" for e s using that by (simp add: section_at_def)
    ultimately show ?thesis by (simp add: reordered_def)
  qed
qed

lemma parse_content_dict:
  assumes "content_ok c" shows "parse_content (content_dict c) = Inr (reordered c)"
proof -
  have key: "sn_key (section_at k c) = k" if "k \<in> set (ordered_keys c)" for k
    using section_at_in [OF that] assms by (auto simp: content_ok_def)
  have "mapE parse_section (map (\<lambda>k. section_dict (section_at k c)) (ordered_keys c)) = Inr (map (\<lambda>k. (k, section_at k c)) (ordered_keys c))"
    by (rule mapE_map) (simp add: key)
  moreover have "fold (\<lambda>(k, s). AList.update k s) (map (\<lambda>k. (k, section_at k c)) (ordered_keys c)) [] =
      map (\<lambda>k. (k, section_at k c)) (ordered_keys c)"
    using fold_update_append [of "[]" "map (\<lambda>k. (k, section_at k c)) (ordered_keys c)"] distinct_ordered_keys [of c] assms
    by (simp add: content_ok_def comp_def)
  moreover have "fromisoformat (isoformat (rc_generated_at c)) = Inr (rc_generated_at c)"
    using assms by (simp add: content_ok_def fromisoformat_isoformat)
  ultimately show ?thesis
    by (cases c) (simp add: parse_content_def content_dict_def text_item_def list_item_def dict_item_def reordered_def)
qed

section \<open>Properties\<close>


definition sample_content :: report_content where
  "sample_content = on_section ''limitations'' (\<lambda>s. s\<lparr>sn_claims := [claim_of ''<b>public</b> data only'' FACT]\<rparr>)
     (on_section ''own'' (\<lambda>s. s\<lparr>sn_data := [(''items'', JList [JObj [(''id'', JInt 7)]])]\<rparr>)
       \<lparr>rc_report_id = ''12'', rc_title = ''A & B'', rc_target = [], rc_generated_at = 0, rc_sections = []\<rparr>)"

lemma sample_content_ok: "content_ok sample_content"
  by code_simp


section \<open>The page\<close>

text \<open>The fixed texts the page is made of; everything else on it has been escaped.\<close>

definition templates :: "string set" where
  "templates =
     {'' <span class=\"refs\">[evidence: '', '']</span>'', '' <span class=refs>('', ''%)</span>'', ''<p class=\"claim\"><span class=\"tag '', ''\">'',
      ''</span>'', ''</p>'', newline, ''<tr>'', ''<td>'', ''</td>'', ''</tr>'', ''<table><thead><tr>'', ''<th>'', ''</th>'',
      ''</tr></thead><tbody>'', ''</tbody></table>'', ''<li><code>'', ''</code> '', ''</li>'', ''<h3>'', ''</h3><ul>'', ''</ul>'', ''<ul>'',
      ''<li>'', '' '', em_dash, ''['', ''%]'', arrow, ''<h2>'', ''</h2>'',
      ''<!doctype html><html><head><meta charset='utf-8'><title>'', ''</title><style>'', css, ''</style></head><body><h1>'',
      ''</h1><p class='meta'>Target: <code>'', [CHR 0xB7], '' Generated: '', '' Report '', page_foot}"

inductive made :: "string \<Rightarrow> bool" where
  made_Nil: "made []"
| made_template: "t \<in> templates \<Longrightarrow> made s \<Longrightarrow> made (t @ s)"
| made_escaped: "made s \<Longrightarrow> made (html_escape t @ s)"

lemma made_append: "made s \<Longrightarrow> made t \<Longrightarrow> made (s @ t)"
  by (induction rule: made.induct) (auto intro: made.intros)

lemma made_fixed: "t \<in> templates \<Longrightarrow> made t"
  using made_template [OF _ made_Nil] by simp

lemma made_text: "made (html_escape t)"
  using made_escaped [OF made_Nil] by simp

lemma made_concat_map: "(\<And>x. x \<in> set xs \<Longrightarrow> made (f x)) \<Longrightarrow> made (concat (map f xs))"
  by (induction xs) (auto intro: made_Nil made_append)

lemma made_if: "made s \<Longrightarrow> made t \<Longrightarrow> made (if b then s else t)"
  by simp

lemma made_join: "made sep \<Longrightarrow> list_all made xs \<Longrightarrow> made (join sep xs)"
  by (induction sep xs rule: join.induct) (auto intro!: made_Nil made_append)

text \<open>Lists of parts.\<close>

lemma parts_Nil: "list_all made []" and parts_Cons: "made x \<Longrightarrow> list_all made xs \<Longrightarrow> list_all made (x # xs)"
  and parts_append: "list_all made xs \<Longrightarrow> list_all made ys \<Longrightarrow> list_all made (xs @ ys)"
  and parts_if: "list_all made xs \<Longrightarrow> list_all made ys \<Longrightarrow> list_all made (if b then xs else ys)"
  and parts_filter: "list_all made xs \<Longrightarrow> list_all made (filter p xs)"
  by (auto simp: list_all_iff)

lemma parts_map: "(\<And>x. x \<in> set ys \<Longrightarrow> made (f x)) \<Longrightarrow> list_all made (map f ys)"
  and parts_concat_map: "(\<And>x. x \<in> set ys \<Longrightarrow> list_all made (g x)) \<Longrightarrow> list_all made (concat (map g ys))"
  by (auto simp: list_all_iff)

lemmas parts_intros = parts_Nil parts_Cons parts_append parts_if parts_filter parts_map parts_concat_map

lemma escape_plain: "(\<And>c. c \<in> set s \<Longrightarrow> esc_char c = [c]) \<Longrightarrow> html_escape s = s"
  by (induction s) (simp_all add: html_escape_def)

lemma made_show_int: "made (show_int i)"
proof -
  have digits: "html_escape (show_nat n) = show_nat n" for n
    using show_nat_decimal [of n] by (intro escape_plain) (auto simp: list_all_iff esc_char_def is_decimal_def code_def)
  have "html_escape (show_int i) = show_int i"
  proof (cases "i < 0")
    case True
    have "html_escape (CHR ''-'' # s) = CHR ''-'' # html_escape s" for s by (simp add: html_escape_def esc_char_def)
    with True digits show ?thesis by (simp add: show_int_def)
  qed (simp add: show_int_def digits)
  then show ?thesis using made_text [of "show_int i"] by simp
qed

lemma templates_in [simp]:
  "'' <span class=\"refs\">[evidence: '' \<in> templates" "'']</span>'' \<in> templates" "'' <span class=refs>('' \<in> templates" "''%)</span>'' \<in> templates"
  "''<p class=\"claim\"><span class=\"tag '' \<in> templates" "''\">'' \<in> templates" "''</span>'' \<in> templates" "''</p>'' \<in> templates"
  "newline \<in> templates" "''<tr>'' \<in> templates" "''<td>'' \<in> templates" "''</td>'' \<in> templates" "''</tr>'' \<in> templates"
  "''<table><thead><tr>'' \<in> templates" "''<th>'' \<in> templates" "''</th>'' \<in> templates" "''</tr></thead><tbody>'' \<in> templates"
  "''</tbody></table>'' \<in> templates" "''<li><code>'' \<in> templates" "''</code> '' \<in> templates" "''</li>'' \<in> templates"
  "''<h3>'' \<in> templates" "''</h3><ul>'' \<in> templates" "''</ul>'' \<in> templates" "''<ul>'' \<in> templates" "''<li>'' \<in> templates"
  "'' '' \<in> templates" "em_dash \<in> templates" "''['' \<in> templates" "''%]'' \<in> templates" "arrow \<in> templates" "''<h2>'' \<in> templates"
  "''</h2>'' \<in> templates" "''<!doctype html><html><head><meta charset='utf-8'><title>'' \<in> templates" "''</title><style>'' \<in> templates"
  "css \<in> templates" "''</style></head><body><h1>'' \<in> templates" "''</h1><p class='meta'>Target: <code>'' \<in> templates"
  "[CHR 0xB7] \<in> templates" "'' Generated: '' \<in> templates" "'' Report '' \<in> templates" "page_foot \<in> templates"
  unfolding templates_def by simp_all

lemmas made_templates = templates_in [THEN made_fixed]

lemmas made_intros = made_append made_templates made_text made_Nil made_show_int made_concat_map made_if

lemma made_claim: "made (claim_html c)"
proof -
  have "made (refs_html c)" unfolding refs_html_def by (intro made_intros)
  note refs = this
  have conf: "made (conf_html c)"
    unfolding conf_html_def by (cases "cl_confidence c"; simp only: option.case; intro made_intros)
  show ?thesis unfolding claim_html_def by (intro made_intros refs conf)
qed

lemma made_table: "made (kv_table ord rows)"
  unfolding kv_table_def row_html_def Let_def by (intro made_intros)

lemma made_event: "made (event_html e)"
  unfolding event_html_def by (intro made_intros)

lemma made_years: "list_all made (years_html s)"
proof -
  have "list_all made (year_html y)" for y
    unfolding year_html_def by (intro parts_intros made_event made_intros)
  then show ?thesis unfolding years_html_def
    by (cases "dict_get (sn_data s) ''by_year''"; simp only: json.case; intro parts_intros)
qed

text \<open>The confidence of an edge is the one value the page shows as it is.\<close>

definition plain_edges :: "report_section \<Rightarrow> bool" where
  "plain_edges s \<longleftrightarrow> list_all (\<lambda>e. case dict_get e ''confidence'' of JInt i \<Rightarrow> True | _ \<Rightarrow> False) (dict_rows (dict_get (sn_data s) ''edges''))"

lemma made_edges:
  assumes "plain_edges s" shows "list_all made (edges_html s)"
proof -
  have edge: "made (edge_html e)" if "dict_get e ''confidence'' = JInt i" for e i
    unfolding edge_html_def that py_str_def [of "JInt i"] json.case py_repr.simps by (intro made_intros)
  have all: "made (edge_html e)" if "dict_get (sn_data s) ''edges'' = JList es" "e \<in> set (take 60 (dict_rows (JList es)))" for es e
    using assms edge [of e] in_set_takeD [OF that(2)] that(1) unfolding plain_edges_def list_all_iff
    by (cases "dict_get e ''confidence''") force+
  show ?thesis unfolding edges_html_def
    by (cases "dict_get (sn_data s) ''edges''"; simp only: json.case; intro parts_intros made_intros all)
qed

lemma made_section: "plain_edges s \<Longrightarrow> made (section_html ord s)"
  unfolding section_html_def claims_html_def tables_html_def
  by (intro made_join parts_intros made_edges made_years made_claim made_table made_intros)

lemma escaped_no_markup: "c \<in> set (html_escape t) \<Longrightarrow> c \<notin> {CHR ''<'', CHR ''>'', CHR 0x22, CHR 0x27}"
  by (auto simp: html_escape_def esc_char_def split: if_splits)

text \<open>
  C33. The page is made of the renderer's own fixed texts and of escaped text, which contains no markup
  character: whatever was collected, it cannot add an element or an attribute to the report. What
  this rests on is that the confidences of the edges of the graph section are numbers.
\<close>

theorem report_page_escaped:
  assumes "\<forall>x \<in> set (rc_sections c). plain_edges (snd x)"
  shows "made (render_html ord c) \<and> (\<forall>t. set (html_escape t) \<inter> {CHR ''<'', CHR ''>'', CHR 0x22, CHR 0x27} = {})"
proof -
  have "plain_edges (section_at k c)" if "k \<in> set (ordered_keys c)" for k
    using section_at_in [OF that] assms by fastforce
  then have body: "made (join newline (map (\<lambda>k. section_html ord (section_at k c)) (ordered_keys c)))"
    by (intro made_join parts_map made_section made_templates)
  have "made (render_html ord c)"
    unfolding render_html_def by (intro made_intros body)
  then show ?thesis using escaped_no_markup by blast
qed

theorem report_page_escaped_witness: "made (render_html id sample_content)"
proof -
  have "\<forall>x \<in> set (rc_sections sample_content). plain_edges (snd x)" by code_simp
  from report_page_escaped [OF this] show ?thesis by blast
qed

end
