(* ===== verification/InvestigationRepo.thy ===== *)
theory InvestigationRepo
  imports Workspace
begin

text \<open>
  \<open>database/repositories/investigation_repo.py\<close>: the investigations of one user and the observations
  they collect. The random part of a public id is an argument, the text \<open>secrets.token_hex\<close> returned.
\<close>

definition detect_target_type :: "string \<Rightarrow> target_kind" where
  "detect_target_type raw =
     (if isdigit (lstrip_by (\<lambda>c. c = CHR ''@'') (strip raw)) then K_TELEGRAM_ID else K_TELEGRAM_USER)"

definition inv_get :: "uid \<Rightarrow> db \<Rightarrow> uid \<Rightarrow> exn + investigation option" where
  "inv_get uid d i = scalar_one_or_none (\<lambda>v. in_id v = i \<and> in_user_id v = uid) (investigations d)"

definition inv_get_by_public_id :: "uid \<Rightarrow> db \<Rightarrow> string \<Rightarrow> exn + investigation option" where
  "inv_get_by_public_id uid d p =
     scalar_one_or_none (\<lambda>v. in_public_id v = upper (strip p) \<and> in_user_id v = uid) (investigations d)"

definition inv_list :: "uid \<Rightarrow> nat \<Rightarrow> db \<Rightarrow> investigation list" where
  "inv_list uid limit d = take limit (sort_key (\<lambda>v. - in_created_at v)
     (filter (\<lambda>v. in_user_id v = uid) (investigations d)))"

definition new_public_id :: "string \<Rightarrow> string" where
  "new_public_id hex = ''INV-'' @ upper hex"

definition inv_create :: "uid \<Rightarrow> string \<Rightarrow> string \<Rightarrow> string \<Rightarrow> (db, investigation) action" where
  "inv_create uid hex target target_normalized =
     add_row investigations investigations_update uq_investigation (\<lambda>d i.
       \<lparr>in_id = i, in_user_id = uid, in_public_id = new_public_id hex, in_target = strip target,
        in_target_type = detect_target_type target, in_target_norm = target_normalized, in_status = I_QUEUED,
        in_job_id = None, in_report_id = None, in_confidence = None, in_summary = None, in_error = None,
        in_started_at = None, in_completed_at = None, in_created_at = now d\<rparr>)"

definition change_inv :: "uid \<Rightarrow> (investigation \<Rightarrow> investigation) \<Rightarrow> db \<Rightarrow> db" where
  "change_inv i f d = d\<lparr>investigations := update_where (\<lambda>x. in_id x = i) f (investigations d)\<rparr>"

definition with_status :: "time \<Rightarrow> investigation_status \<Rightarrow> string option \<Rightarrow> investigation \<Rightarrow> investigation" where
  "with_status t st err v =
     v\<lparr>in_status := st,
       in_started_at := (if st = I_RUNNING \<and> in_started_at v = None then Some t else in_started_at v),
       in_completed_at := (if inv_is_terminal st then Some t else in_completed_at v),
       in_error := (case err of Some (c # s) \<Rightarrow> Some (c # s) | _ \<Rightarrow> in_error v)\<rparr>"

definition inv_set_status :: "uid \<Rightarrow> uid \<Rightarrow> investigation_status \<Rightarrow> string option \<Rightarrow> (db, unit) action" where
  "inv_set_status uid i st err d =
     (case inv_get uid d i of
        Inl e \<Rightarrow> (Inl e, d)
      | Inr None \<Rightarrow> (Inr (), d)
      | Inr (Some v) \<Rightarrow> (Inr (), change_inv i (with_status (now d) st err) d))"

record observation_in =
  oi_type :: observation_type
  oi_resource_kind :: resource_kind
  oi_resource_ref :: string
  oi_source :: string
  oi_confidence :: int
  oi_resource_url :: "string option"
  oi_message_ref :: "string option"
  oi_snippet :: "string option"
  oi_observed_at :: "time option"
  oi_evidence_id :: "uid option"

definition observation_row :: "uid \<Rightarrow> observation_in \<Rightarrow> uid \<Rightarrow> observation" where
  "observation_row iid o' i =
     \<lparr>ob_id = i, ob_investigation_id = iid, ob_type = oi_type o', ob_resource_kind = oi_resource_kind o',
      ob_resource_ref = oi_resource_ref o', ob_resource_url = oi_resource_url o', ob_message_ref = oi_message_ref o',
      ob_snippet = oi_snippet o', ob_observed_at = oi_observed_at o', ob_source = oi_source o',
      ob_confidence = oi_confidence o', ob_evidence_id = oi_evidence_id o'\<rparr>"

definition add_observation :: "uid \<Rightarrow> observation_in \<Rightarrow> (db, observation) action" where
  "add_observation iid o' = add_row observations observations_update (\<lambda>_. True) (\<lambda>d. observation_row iid o')"

text \<open>Ordered by time, those without one last.\<close>

definition inv_observations :: "uid \<Rightarrow> db \<Rightarrow> observation list" where
  "inv_observations iid d =
     (let rows = filter (\<lambda>o'. ob_investigation_id o' = iid) (observations d) in
      sort_key (\<lambda>o'. case ob_observed_at o' of None \<Rightarrow> 0 | Some t \<Rightarrow> t) (filter (\<lambda>o'. ob_observed_at o' \<noteq> None) rows) @
      filter (\<lambda>o'. ob_observed_at o' = None) rows)"

section \<open>Lemmas\<close>

lemma inv_get_Some: "inv_get uid d i = Inr (Some v) \<Longrightarrow> v \<in> set (investigations d) \<and> in_id v = i \<and> in_user_id v = uid"
  unfolding inv_get_def by (drule scalar_one_or_none_Some) simp

lemma set_inv_observations: "set (inv_observations iid d) = {o' \<in> set (observations d). ob_investigation_id o' = iid}"
  by (auto simp: inv_observations_def Let_def)

end
