(* ===== verification/InvReport.thy ===== *)
theory InvReport
  imports ReportModel InvestigationRepo
begin

text \<open>
  \<open>reports/investigation_report.py\<close>: the report of an investigation. \<open>write\<close> stands for the files: it is
  given the content and returns the paths written, by format, or what the file system or the PDF
  library raised.
\<close>

section \<open>Values\<close>

fun target_kind_value :: "target_kind \<Rightarrow> string" where
  "target_kind_value K_TELEGRAM_USER = ''telegram_user''"
| "target_kind_value K_TELEGRAM_ID = ''telegram_id''"
| "target_kind_value K_USERNAME = ''username''"
| "target_kind_value K_DOMAIN = ''domain''"
| "target_kind_value K_EMAIL = ''email''"
| "target_kind_value K_PHONE = ''phone''"
| "target_kind_value K_GENERIC = ''generic''"

fun observation_value :: "observation_type \<Rightarrow> string" where
  "observation_value AUTHOR = ''AUTHOR''"
| "observation_value MENTION = ''MENTION''"
| "observation_value REPLY = ''REPLY''"
| "observation_value REFERENCE = ''REFERENCE''"
| "observation_value UNKNOWN = ''UNKNOWN''"

definition id_json :: "uid \<Rightarrow> json" where
  "id_json i = JStr (uid_text i)"

definition time_json :: "time option \<Rightarrow> json" where
  "time_json t = json_of (\<lambda>x. JStr (isoformat x)) t"

definition get_list :: "string \<Rightarrow> json \<Rightarrow> json list" where
  "get_list k j = (case json_get k j of Some (JList vs) \<Rightarrow> vs | _ \<Rightarrow> [])"

definition get_dict :: "string \<Rightarrow> json \<Rightarrow> (string \<times> json) list" where
  "get_dict k j = (case json_get k j of Some (JObj kvs) \<Rightarrow> kvs | _ \<Rightarrow> [])"

section \<open>Content\<close>

definition methodology :: string where
  "methodology =
     ''The target identifier is normalized, then queried against the configured '' @
     ''public Telegram source and public OSINT collectors. Each returned item is '' @
     ''classified (AUTHOR / MENTION / REPLY / REFERENCE / UNKNOWN) from the '' @
     ''evidence available -- a mention is never promoted to authorship. '' @
     ''Cross-platform username correlation produces potential-match confidence, '' @
     ''never a confirmed identity. No private account, session, credential, or '' @
     ''message-history access is performed.''"

text \<open>\<open>_s\<close>: add claims and data to a section.\<close>

definition add_to :: "string \<Rightarrow> claim list \<Rightarrow> (string \<times> json) list \<Rightarrow> report_content \<Rightarrow> report_content" where
  "add_to k cs data = on_section k (\<lambda>s. s\<lparr>sn_claims := sn_claims s @ cs, sn_data := AList.updates (map fst data) (map snd data) (sn_data s)\<rparr>)"

definition profile_claims :: "(string \<times> json) list \<Rightarrow> claim list" where
  "profile_claims profile =
     map (\<lambda>(k, v). claim_of (k @ '': '' @ py_str v) FACT)
       (filter (\<lambda>(k, v). k \<noteq> ''username_normalized'' \<and> v \<noteq> JNull \<and> v \<noteq> JStr []) profile)"

text \<open>The resources in order of first appearance, with their counts by type.\<close>

record resource =
  rs_ref :: string
  rs_url :: "string option"
  rs_count :: nat
  rs_types :: "(string \<times> nat) list"

definition bump :: "string \<Rightarrow> (string \<times> nat) list \<Rightarrow> (string \<times> nat) list" where
  "bump k ts = AList.update k (case map_of ts k of None \<Rightarrow> 1 | Some n \<Rightarrow> Suc n) ts"

definition count_resource :: "observation \<Rightarrow> (string \<times> resource) list \<Rightarrow> (string \<times> resource) list" where
  "count_resource v rs =
     (let r = (case map_of rs (ob_resource_ref v) of
                 Some r \<Rightarrow> r
               | None \<Rightarrow> \<lparr>rs_ref = ob_resource_ref v, rs_url = ob_resource_url v, rs_count = 0, rs_types = []\<rparr>)
      in AList.update (ob_resource_ref v)
           (r\<lparr>rs_count := Suc (rs_count r), rs_types := bump (observation_value (ob_type v)) (rs_types r)\<rparr>) rs)"

definition resources_of :: "observation list \<Rightarrow> resource list" where
  "resources_of obs = map snd (fold count_resource obs [])"

definition resource_claim :: "resource \<Rightarrow> claim" where
  "resource_claim r = claim_of (''Target-related public activity observed in '' @ rs_ref r @ '' ('' @ show_nat (rs_count r) @
     '' observation(s)).'') INFERENCE"

definition resource_dict :: "resource \<Rightarrow> json" where
  "resource_dict r = JObj [(''resource'', JStr (rs_ref r)), (''url'', opt_json (rs_url r)), (''observations'', JInt (int (rs_count r))),
     (''types'', JObj (map (\<lambda>(k, n). (k, JInt (int n))) (rs_types r)))]"

definition obs_row :: "observation \<Rightarrow> json" where
  "obs_row v = JObj [(''type'', JStr (observation_value (ob_type v))), (''resource'', JStr (ob_resource_ref v)),
     (''url'', opt_json (ob_resource_url v)), (''message_ref'', opt_json (ob_message_ref v)), (''snippet'', opt_json (ob_snippet v)),
     (''observed_at'', time_json (ob_observed_at v)), (''confidence'', JInt (ob_confidence v))]"

definition obs_rows :: "observation_type set \<Rightarrow> observation list \<Rightarrow> json list" where
  "obs_rows kinds obs = map obs_row (filter (\<lambda>v. ob_type v \<in> kinds) obs)"

definition event_key :: "observation \<Rightarrow> string" where
  "event_key v = (case ob_observed_at v of None \<Rightarrow> [] | Some t \<Rightarrow> isoformat t)"

definition event_row :: "observation \<Rightarrow> json" where
  "event_row v = JObj [(''when'', JStr (event_key v)), (''type'', JStr (observation_value (ob_type v))),
     (''source'', JStr (ob_resource_ref v)), (''url'', opt_json (ob_resource_url v)), (''confidence'', JInt (ob_confidence v))]"

definition inv_events :: "observation list \<Rightarrow> json list" where
  "inv_events obs = map event_row (sort_key event_key (filter (\<lambda>v. ob_observed_at v \<noteq> None) obs))"

definition alias_claim :: "json \<Rightarrow> claim" where
  "alias_claim a = \<lparr>cl_text = py_str (json_of id (json_get ''platform'' a)) @ '': '' @ py_str (json_of id (json_get ''label'' a)),
     cl_assertion = assertion_value INFERENCE, cl_refs = [],
     cl_confidence = (case json_get ''confidence'' a of Some (JInt i) \<Rightarrow> Some i | _ \<Rightarrow> None)\<rparr>"

definition evidence_entry :: "observation \<Rightarrow> json" where
  "evidence_entry v = JObj [(''id'', id_json (ob_id v)), (''type'', JStr (observation_value (ob_type v))), (''source'', JStr (ob_source v)),
     (''url'', opt_json (ob_resource_url v)), (''observed_at'', time_json (ob_observed_at v)), (''confidence'', JInt (ob_confidence v))]"

definition count_text :: "string \<Rightarrow> (string \<times> json) list \<Rightarrow> string" where
  "count_text k counts = (case map_of counts k of None \<Rightarrow> ''0'' | Some v \<Rightarrow> py_str v)"

definition or_claims :: "claim list \<Rightarrow> claim \<Rightarrow> claim list" where
  "or_claims cs c = (if cs = [] then [c] else cs)"

definition confidence_text :: "int option \<Rightarrow> string" where
  "confidence_text c = (case c of
     Some i \<Rightarrow> ''Overall confidence: '' @ show_int i @ ''/100.''
   | None \<Rightarrow> ''Overall confidence: NOT OBSERVABLE (no public source configured).'')"

definition summary_of :: "investigation \<Rightarrow> json" where
  "summary_of v = (case in_summary v of None \<Rightarrow> JObj [] | Some s \<Rightarrow> s)"

definition narrative_of :: "json \<Rightarrow> string" where
  "narrative_of s = (case json_get ''narrative'' s of Some (JStr (c # t)) \<Rightarrow> c # t | _ \<Rightarrow> ''Investigation completed.'')"

definition empty_content :: "string \<Rightarrow> investigation \<Rightarrow> time \<Rightarrow> report_content" where
  "empty_content rid v t = \<lparr>rc_report_id = rid,
     rc_title = ''Telegram Public OSINT Investigation '' @ em_dash @ '' '' @ in_target v,
     rc_target = [(''value'', JStr (in_target v)), (''type'', JStr (target_kind_value (in_target_type v))),
        (''normalized'', JStr (in_target_norm v)), (''investigation'', JStr (in_public_id v))],
     rc_generated_at = t, rc_sections = []\<rparr>"

definition summary_sections :: "investigation \<Rightarrow> json \<Rightarrow> report_content \<Rightarrow> report_content" where
  "summary_sections v s c =
     (let counts = get_dict ''counts'' s; profile = get_dict ''profile'' s in
      (if profile = [] then add_to ''public_profile'' [claim_of ''No public profile data was observable for this target.'' UNKNOWN_CLAIM] []
       else add_to ''public_profile'' (profile_claims profile) [(''profile'', JObj profile)])
      (add_to ''target_information''
         [claim_of (''Target as supplied: '' @ in_target v) FACT,
          claim_of (''Canonical target: '' @ in_target_norm v @ '' ('' @ target_kind_value (in_target_type v) @ '')'') FACT] []
      (add_to ''executive_summary'' [claim_of (narrative_of s) INFERENCE]
         [(''counts'', JObj counts), (''confidence'', json_of JInt (in_confidence v))] c)))"

definition observation_sections :: "json \<Rightarrow> observation list \<Rightarrow> report_content \<Rightarrow> report_content" where
  "observation_sections s obs c =
     (let counts = get_dict ''counts'' s; rs = resources_of obs; authored = obs_rows {AUTHOR} obs; events = inv_events obs in
      add_to ''timeline'' [claim_of (show_nat (length events) @ '' time-stamped public event(s).'') FACT] [(''events'', JList events)]
      (add_to ''replies'' [claim_of (count_text ''REPLY'' counts @ '' public repl(y/ies) associated with the target.'') INFERENCE]
         [(''replies'', JList (obs_rows {REPLY} obs))]
      (add_to ''mentions'' [claim_of (count_text ''MENTION'' counts @ '' public mention(s) of the target by others.'') INFERENCE]
         [(''mentions'', JList (obs_rows {MENTION} obs))]
      (add_to ''public_message_activity''
         [claim_of (show_nat (length authored) @ '' publicly accessible message(s) with sufficient evidence of target authorship.'') INFERENCE]
         [(''authored'', JList authored), (''all_observations'', JList (obs_rows (ob_type ` set obs) obs))]
      (add_to ''observed_public_resources''
         (or_claims (map resource_claim rs) (claim_of ''No public resources with target-related activity were observed.'' UNKNOWN_CLAIM))
         [(''resources'', JList (map resource_dict rs))] c)))))"

definition correlation_sections :: "json \<Rightarrow> report_content \<Rightarrow> report_content" where
  "correlation_sections s c =
     (let aliases = get_list ''aliases'' s in
      add_to ''relationships''
        [claim_of ''A shared username across platforms is a POSSIBLE same-entity signal, never a confirmed identity.'' INFERENCE]
        [(''same_as'', JList (map (\<lambda>a. JObj [(''platform'', json_of id (json_get ''platform'' a)), (''band'', json_of id (json_get ''band'' a))]) aliases))]
      (add_to ''entities'' (or_claims (map alias_claim aliases) (claim_of ''No cross-platform aliases were correlated.'' UNKNOWN_CLAIM))
        [(''aliases'', JList aliases), (''iocs'', JList (get_list ''iocs'' s))] c))"

definition closing_sections :: "investigation \<Rightarrow> json \<Rightarrow> observation list \<Rightarrow> report_content \<Rightarrow> report_content" where
  "closing_sections v s obs c =
     (let counts = get_dict ''counts'' s in
      add_to ''audit_information'' []
        [(''investigation_id'', id_json (in_id v)), (''public_id'', JStr (in_public_id v)), (''created_by'', id_json (in_user_id v)),
         (''created_at'', JStr (isoformat (in_created_at v))), (''completed_at'', time_json (in_completed_at v)),
         (''job_id'', json_of id_json (in_job_id v))]
      (add_to ''methodology'' [claim_of methodology FACT] [(''steps'', JList (get_list ''notes'' s))]
      (add_to ''limitations'' (map (\<lambda>x. claim_of (py_str x) FACT) (get_list ''limitations'' s)) []
      (add_to ''confidence'' [(claim_of (confidence_text (in_confidence v)) INFERENCE)\<lparr>cl_confidence := in_confidence v\<rparr>]
        [(''overall'', json_of JInt (in_confidence v)), (''by_signal'', JObj counts)]
      (add_to ''evidence'' [claim_of (show_nat (length obs) @ '' evidence-backed public observation(s) recorded.'') FACT]
        [(''observations'', JList (map evidence_entry obs))] c)))))"

definition build_investigation_content :: "string \<Rightarrow> investigation \<Rightarrow> db \<Rightarrow> exn + report_content" where
  "build_investigation_content rid v d =
     (let s = summary_of v; obs = inv_observations (in_id v) d in
      case assert_safe_phrasing (narrative_of s) of
        Inl e \<Rightarrow> Inl e
      | Inr _ \<Rightarrow> Inr (closing_sections v s obs (correlation_sections s (observation_sections s obs
                   (summary_sections v s (empty_content rid v (now d)))))))"

section \<open>Generation\<close>

type_synonym artifact_writer = "report_content \<Rightarrow> exn + (string \<times> string) list"

definition finish_report :: "uid \<Rightarrow> report_content \<Rightarrow> (string \<times> string) list \<Rightarrow> db \<Rightarrow> db" where
  "finish_report rid c paths d = d\<lparr>reports := update_where (\<lambda>x. rp_id x = rid) (\<lambda>r.
     r\<lparr>rp_content := Some (content_dict c), rp_artifacts := Some paths,
       rp_summary := Some (case sn_claims (section_at ''executive_summary'' c) of [] \<Rightarrow> [] | x # _ \<Rightarrow> cl_text x),
       rp_generated_at := Some (now d)\<rparr>) (reports d)\<rparr>"

definition fill_investigation_report :: "artifact_writer \<Rightarrow> investigation \<Rightarrow> report \<Rightarrow> (db, uid) action" where
  "fill_investigation_report write v r d =
     (case build_investigation_content (uid_text (rp_id r)) v d of
        Inl e \<Rightarrow> (Inl e, d)
      | Inr c \<Rightarrow>
          (case write c of
             Inl e \<Rightarrow> (Inl e, d)
           | Inr paths \<Rightarrow>
               bnd (report_set_status (in_user_id v) (rp_id r) T_COMPLETED None) (\<lambda>_. ret (rp_id r))
                 (finish_report (rp_id r) c paths d)))"

definition generate_investigation_report :: "artifact_writer \<Rightarrow> uid \<Rightarrow> (db, uid) action" where
  "generate_investigation_report write i d =
     (case get_by_id in_id (investigations d) i of
        None \<Rightarrow> (Inl (LookupError (uid_text i)), d)
      | Some v \<Rightarrow>
          bnd (report_create (in_user_id v) (''Investigation '' @ in_public_id v @ '' '' @ em_dash @ '' '' @ in_target v) None (in_job_id v))
            (fill_investigation_report write v) d)"

section \<open>Lemmas\<close>

lemma section_at_add_to [simp]:
  "section_at k (add_to k' cs data c) =
     (if k = k' then (section_at k c)\<lparr>sn_claims := sn_claims (section_at k c) @ cs,
        sn_data := AList.updates (map fst data) (map snd data) (sn_data (section_at k c))\<rparr>
      else section_at k c)"
  by (simp add: section_at_def add_to_def on_section_def update_conv)

lemma keys_add_to [simp]: "fst ` set (rc_sections (add_to k cs data c)) = insert k (fst ` set (rc_sections c))"
proof -
  have "set (map fst (AList.update k s xs)) = insert k (set (map fst xs))" for s :: report_section and xs
    by (simp only: update_keys) auto
  then show ?thesis by (simp add: add_to_def on_section_def del: set_map) (simp flip: set_map)
qed

lemma generated_add_to [simp]: "rc_generated_at (add_to k cs data c) = rc_generated_at c"
  by (simp add: add_to_def on_section_def)

lemma content_ok_add_to [intro]: "content_ok c \<Longrightarrow> content_ok (add_to k cs data c)"
proof -
  assume ok: "content_ok c"
  have "sn_key (section_at k c) = k" using ok by (auto simp: section_at_def content_ok_def dest: map_of_SomeD split: option.split)
  moreover have "x \<in> set (AList.update k s xs) \<Longrightarrow> x = (k, s) \<or> x \<in> set xs" for x s and xs :: "(string \<times> report_section) list"
    using set_alist_update by fastforce
  ultimately show ?thesis using ok distinct_update
    by (fastforce simp: content_ok_def add_to_def on_section_def)
qed

lemma dict_get_update [simp]: "dict_get (AList.update k x al) k' = (if k = k' then x else dict_get al k')"
  by (simp add: dict_get_def update_conv)

lemma section_at_empty [simp]: "section_at k (empty_content rid v t) = \<lparr>sn_key = k, sn_claims = [], sn_data = []\<rparr>"
  by (simp add: section_at_def empty_content_def)

text \<open>The sections of a report of an investigation.\<close>

definition report_of :: "string \<Rightarrow> investigation \<Rightarrow> observation list \<Rightarrow> time \<Rightarrow> report_content" where
  "report_of rid v obs t = closing_sections v (summary_of v) obs (correlation_sections (summary_of v)
     (observation_sections (summary_of v) obs (summary_sections v (summary_of v) (empty_content rid v t))))"

lemma build_report_of:
  "build_investigation_content rid v d = Inr c \<Longrightarrow> c = report_of rid v (inv_observations (in_id v) d) (now d)"
  by (auto simp: build_investigation_content_def report_of_def Let_def split: sum.splits)

lemmas section_builders = closing_sections_def correlation_sections_def observation_sections_def summary_sections_def Let_def

lemma report_keys: "fst ` set (rc_sections (report_of rid v obs t)) = set investigation_section_order"
  by (auto simp: report_of_def section_builders empty_content_def investigation_section_order_def)

lemma report_content_ok: "datetime_range t \<Longrightarrow> content_ok (report_of rid v obs t)"
  unfolding report_of_def section_builders
  by (simp split: if_split) (intro conjI impI content_ok_add_to; simp add: content_ok_def empty_content_def)

lemma report_limitations:
  "sn_claims (section_at ''limitations'' (report_of rid v obs t)) = map (\<lambda>x. claim_of (py_str x) FACT) (get_list ''limitations'' (summary_of v))"
  by (simp add: report_of_def section_builders)

lemma report_rows:
  "dict_get (sn_data (section_at ''public_message_activity'' (report_of rid v obs t))) ''authored'' = JList (obs_rows {AUTHOR} obs)"
  "dict_get (sn_data (section_at ''mentions'' (report_of rid v obs t))) ''mentions'' = JList (obs_rows {MENTION} obs)"
  "dict_get (sn_data (section_at ''replies'' (report_of rid v obs t))) ''replies'' = JList (obs_rows {REPLY} obs)"
  "dict_get (sn_data (section_at ''evidence'' (report_of rid v obs t))) ''observations'' = JList (map evidence_entry obs)"
  by (simp_all add: report_of_def section_builders)

lemma report_row_finished:
  assumes run: "bnd (report_set_status uid k T_COMPLETED None) (\<lambda>_. ret k) (finish_report k c paths e) = (Inr x, e')"
    and row: "r \<in> set (reports e)" "rp_id r = k" "rp_user_id r = uid" "rp_deleted_at r = None"
  shows "\<exists>rep \<in> set (reports e'). rp_id rep = k \<and> rp_user_id rep = uid \<and> rp_status rep = T_COMPLETED \<and> rp_content rep = Some (content_dict c) \<and>
    rp_summary rep = Some (case sn_claims (section_at ''executive_summary'' c) of [] \<Rightarrow> [] | x # _ \<Rightarrow> cl_text x)"
proof -
  let ?f = "\<lambda>r. r\<lparr>rp_content := Some (content_dict c), rp_artifacts := Some paths,
       rp_summary := Some (case sn_claims (section_at ''executive_summary'' c) of [] \<Rightarrow> [] | x # _ \<Rightarrow> cl_text x),
       rp_generated_at := Some (now e)\<rparr>"
  let ?e = "finish_report k c paths e"
  have mem: "q \<in> set (reports ?e) \<Longrightarrow> rp_id q = k \<Longrightarrow> \<exists>r. q = ?f r" for q
    by (auto simp: finish_report_def update_where_def)
  have "?f r \<in> set (reports ?e)" using row(1,2) by (auto simp: finish_report_def update_where_def)
  then have ne: "report_get uid ?e k \<noteq> Inr None"
    using row by (auto simp: report_get_def scalar_one_or_none_None intro!: bexI [of _ "?f r"])
  from run obtain q where q: "report_get uid ?e k = Inr (Some q)" and e': "reports e' = reports (put_report (q\<lparr>rp_status := T_COMPLETED, rp_generated_at := Some (now ?e)\<rparr>) ?e)"
    using ne by (auto simp: bnd_Inr_iff report_set_status_def Let_def split: sum.splits option.splits)
  from report_get_Some [OF q] mem obtain p where p: "q = ?f p" "q \<in> set (reports ?e)" "rp_id q = k" "rp_user_id q = uid" by blast
  then have "q\<lparr>rp_status := T_COMPLETED, rp_generated_at := Some (now ?e)\<rparr> \<in> set (reports e')"
    by (auto simp: e' put_report_def update_where_def)
  then show ?thesis by (rule bexI [rotated]) (use p in simp)
qed

lemma generated_report:
  assumes "generate_investigation_report write i e = (Inr k, e')" and "get_by_id in_id (investigations e) i = Some v"
  shows "\<exists>rep \<in> set (reports e'). rp_id rep = k \<and> rp_user_id rep = in_user_id v \<and> rp_status rep = T_COMPLETED \<and>
    rp_content rep = Some (content_dict (report_of (uid_text k) v (inv_observations (in_id v) e) (now e))) \<and>
    rp_summary rep = Some (narrative_of (summary_of v))"
proof -
  from assms obtain r e1 where r: "report_create (in_user_id v) (''Investigation '' @ in_public_id v @ '' '' @ em_dash @ '' '' @ in_target v) None (in_job_id v) e = (Inr r, e1)"
    and fill: "fill_investigation_report write v r e1 = (Inr k, e')"
    by (auto simp: generate_investigation_report_def bnd_Inr_iff)
  from r have row: "r \<in> set (reports e1)" "rp_user_id r = in_user_id v" "rp_deleted_at r = None" "now e1 = now e" "observations e1 = observations e"
    by (auto simp: report_create_def add_row_def Let_def)
  from fill obtain c paths where c: "build_investigation_content (uid_text (rp_id r)) v e1 = Inr c"
    and fin: "bnd (report_set_status (in_user_id v) (rp_id r) T_COMPLETED None) (\<lambda>_. ret (rp_id r)) (finish_report (rp_id r) c paths e1) = (Inr k, e')"
    by (auto simp: fill_investigation_report_def split: sum.splits)
  from fin have k: "k = rp_id r" by (auto simp: bnd_Inr_iff)
  have "inv_observations (in_id v) e1 = inv_observations (in_id v) e" by (simp add: inv_observations_def row(5))
  with build_report_of [OF c] have c': "c = report_of (uid_text k) v (inv_observations (in_id v) e) (now e)" by (simp add: k row(4))
  have "sn_claims (section_at ''executive_summary'' c) = [claim_of (narrative_of (summary_of v)) INFERENCE]"
    by (simp add: c' report_of_def section_builders)
  then have "(case sn_claims (section_at ''executive_summary'' c) of [] \<Rightarrow> [] | x # _ \<Rightarrow> cl_text x) = narrative_of (summary_of v)"
    by (simp add: claim_of_def)
  with report_row_finished [OF fin row(1) refl row(2,3)] show ?thesis by (simp add: c' k)
qed


lemma generate_returns:
  assumes v: "get_by_id in_id (investigations e) i = Some v" and safe: "assert_safe_phrasing (narrative_of (summary_of v)) = Inr ()"
    and w: "\<And>c. \<exists>paths. write c = Inr paths" and fresh: "next_id e \<notin> rp_id ` set (reports e)"
  shows "\<exists>e'. generate_investigation_report write i e = (Inr (next_id e), e')"
proof -
  define ttl where "ttl = ''Investigation '' @ in_public_id v @ '' '' @ em_dash @ '' '' @ in_target v"
  obtain r e1 where r: "report_create (in_user_id v) ttl None (in_job_id v) e = (Inr r, e1)"
    "rp_id r = next_id e" "rp_user_id r = in_user_id v" "rp_deleted_at r = None" "reports e1 = reports e @ [r]"
    by (simp add: report_create_def add_row_def Let_def)
  obtain c where c: "build_investigation_content (uid_text (rp_id r)) v e1 = Inr c"
    using safe by (simp add: build_investigation_content_def Let_def)
  from w obtain paths where paths: "write c = Inr paths" by blast
  obtain q where q: "report_get (in_user_id v) (finish_report (rp_id r) c paths e1) (rp_id r) = Inr (Some q)"
  proof -
    have "filter (\<lambda>q. rp_id q = rp_id r \<and> rp_user_id q = in_user_id v \<and> rp_deleted_at q = None) (update_where (\<lambda>x. rp_id x = rp_id r) f (reports e)) = []" for f
      using fresh unfolding image_iff by (auto simp: filter_empty_conv update_where_def r(2))
    then show thesis using that r(3,4) by (simp add: report_get_def scalar_one_or_none_def finish_report_def r(5) update_where_def)
  qed
  then show ?thesis unfolding generate_investigation_report_def v option.case ttl_def [symmetric]
    by (simp add: bnd_def r(1) fill_investigation_report_def c paths report_set_status_def q Let_def, simp add: r(2))
qed

section \<open>Properties\<close>

text \<open>Every observation is counted at its resource.\<close>

definition tallied :: "observation list \<Rightarrow> (string \<times> resource) list \<Rightarrow> bool" where
  "tallied obs rs \<longleftrightarrow> distinct (map fst rs) \<and> fst ` set rs = ob_resource_ref ` set obs \<and>
     (\<forall>x \<in> set rs. rs_ref (snd x) = fst x \<and> rs_count (snd x) = length (filter (\<lambda>v. ob_resource_ref v = fst x) obs))"

lemma count_resource_tallied:
  assumes "tallied obs rs" shows "tallied (obs @ [v]) (count_resource v rs)"
proof -
  let ?k = "ob_resource_ref v"
  have keys: "set (map fst (count_resource v rs)) = insert ?k (set (map fst rs))"
    unfolding count_resource_def Let_def by (simp only: update_keys) auto
  have "rs_ref (snd x) = fst x \<and> rs_count (snd x) = length (filter (\<lambda>v. ob_resource_ref v = fst x) (obs @ [v]))"
    if "x \<in> set (count_resource v rs)" for x
  proof (cases "fst x = ?k")
    case True
    from that have m: "map_of (count_resource v rs) (fst x) = Some (snd x)"
      using assms by (intro map_of_is_SomeI) (auto simp: count_resource_def Let_def tallied_def distinct_update)
    show ?thesis
    proof (cases "map_of rs ?k")
      case None
      then have "?k \<notin> fst ` set rs" by (simp add: map_of_eq_None_iff)
      with assms have "?k \<notin> ob_resource_ref ` set obs" by (simp add: tallied_def)
      then have "filter (\<lambda>v'. ob_resource_ref v' = ?k) obs = []" unfolding filter_empty_conv by (metis image_eqI)
      with None True m show ?thesis by (auto simp: count_resource_def Let_def update_conv dest!: sym [of _ "snd x"])
    next
      case (Some r)
      with assms have "rs_ref r = ?k" "rs_count r = length (filter (\<lambda>v'. ob_resource_ref v' = ?k) obs)"
        by (auto simp: tallied_def dest!: map_of_SomeD)
      with Some True m show ?thesis by (auto simp: count_resource_def Let_def update_conv dest!: sym [of _ "snd x"])
    qed
  next
    case False
    with that have "x \<in> set rs" unfolding count_resource_def Let_def using set_alist_update by fastforce
    with False assms show ?thesis by (auto simp: tallied_def)
  qed
  with keys assms show ?thesis
    by (auto simp: tallied_def count_resource_def Let_def distinct_update simp flip: set_map)
qed

lemma resources_tallied: "tallied obs (fold count_resource obs [])"
proof (induction obs rule: rev_induct)
  case (snoc v obs)
  then show ?case by (simp add: count_resource_tallied)
qed (simp add: tallied_def)


definition sample_investigation :: investigation where
  "sample_investigation = \<lparr>in_id = 1, in_user_id = 0, in_public_id = ''INV-00'', in_target = ''12345'', in_target_type = K_TELEGRAM_ID,
     in_target_norm = ''12345'', in_status = I_RUNNING, in_job_id = None, in_report_id = None, in_confidence = Some 92,
     in_summary = Some (JObj [(''narrative'', JStr ''1 public observation(s) for 12345.''), (''limitations'', JList [JStr ''public data only''])]),
     in_error = None, in_started_at = None, in_completed_at = None, in_created_at = 0\<rparr>"

lemma sample_report: "\<exists>c. build_investigation_content ''2'' sample_investigation empty_db = Inr c"
proof -
  have "assert_safe_phrasing (narrative_of (summary_of sample_investigation)) = Inr ()" by code_simp
  then show ?thesis by (simp add: build_investigation_content_def Let_def)
qed


text \<open>
  The report is generated before the investigation is marked as completed, so the completion time it
  shows is the one of an earlier run, if any: a fresh investigation reports none.
\<close>

lemma completion_time_missing:
  "in_completed_at v = None \<Longrightarrow>
   dict_get (sn_data (section_at ''audit_information'' (report_of rid v obs t))) ''completed_at'' = JNull"
  by (simp add: report_of_def section_builders time_json_def json_of_def)

end
