(* ===== verification/Frame.thy ===== *)
theory Frame
  imports UsernameOsint
begin

text \<open>
  What collected content can reach. Storing a batch, enriching it, resolving a target and a whole
  user name investigation write to the graph and to the searches and targets of the workspace; the
  accounts, jobs, tokens, watches, reports and investigations stay as they are.
\<close>

section \<open>Views\<close>

text \<open>An action that leaves what \<open>v\<close> shows of the state alone, whether it returns or raises.\<close>

definition leaves :: "('s \<Rightarrow> 'v) \<Rightarrow> ('s, 'a) action \<Rightarrow> bool" where
  "leaves v m \<longleftrightarrow> (\<forall>s. v (snd (m s)) = v s)"

named_theorems frame "actions that leave a view alone"

lemma leavesI: "(\<And>s. v (snd (m s)) = v s) \<Longrightarrow> leaves v m"
  by (simp add: leaves_def)

lemma leavesD: "leaves v m \<Longrightarrow> m s = (r, s') \<Longrightarrow> v s' = v s"
  by (metis leaves_def snd_conv)

lemma leaves_keeps: "leaves v m \<Longrightarrow> keeps (\<lambda>s. v s = x) m"
  by (auto simp: leaves_def keeps_def)

lemma leaves_ret [frame]: "leaves v (ret x)" and leaves_throw [frame]: "leaves v (throw e)" and leaves_liftE [frame]: "leaves v (liftE z)"
  by (simp_all add: leaves_def liftE_def)

lemma leaves_bnd [frame]: "leaves v m \<Longrightarrow> (\<And>x. leaves v (f x)) \<Longrightarrow> leaves v (bnd m f)"
  by (auto simp: leaves_def bnd_def split: prod.split sum.split) (metis snd_conv)+

lemma leaves_catch [frame]: "leaves v m \<Longrightarrow> (\<And>e. leaves v (h e)) \<Longrightarrow> leaves v (catch m h)"
  by (auto simp: leaves_def catch_def split: prod.split sum.split) (metis snd_conv)+

lemma leaves_for_each [frame]: "(\<And>x. leaves v (f x)) \<Longrightarrow> leaves v (for_each f xs)"
  by (induction xs) (auto intro!: frame)

lemma leaves_on_fst [frame]: "leaves v m \<Longrightarrow> leaves (v \<circ> fst) (on_fst m)"
  by (auto simp: leaves_def on_fst_def split: prod.split) (metis snd_conv)

lemma leaves_tally [frame]: "leaves (v \<circ> fst) (tally f)"
  by (auto simp: leaves_def tally_def)

lemma leaves_with_tally [frame]: "(\<And>t. leaves v (f t)) \<Longrightarrow> leaves v (with_tally f)"
  by (auto simp: leaves_def with_tally_def)

lemma leaves_attempt [frame]: "leaves v m \<Longrightarrow> leaves v (attempt m)"
  unfolding attempt_def by (intro frame)

lemma leaves_with_summary [frame]: "leaves (v \<circ> fst) m \<Longrightarrow> leaves v (with_summary m)"
proof (rule leavesI)
  fix d assume "leaves (v \<circ> fst) m"
  then have "v (fst (snd (m (d, empty_summary)))) = v d" by (simp add: leaves_def)
  then show "v (snd (with_summary m d)) = v d" by (auto simp: with_summary_def split: prod.split sum.split)
qed

lemma leaves_with_id [frame]: "leaves v m \<Longrightarrow> leaves v (with_id rid m)"
  unfolding with_id_def by (intro frame)

lemma leaves_if [frame]: "leaves v m \<Longrightarrow> leaves v n \<Longrightarrow> leaves v (if b then m else n)"
  by simp

lemma leaves_option [frame]: "leaves v m \<Longrightarrow> (\<And>x. leaves v (f x)) \<Longrightarrow> leaves v (case z of None \<Rightarrow> m | Some x \<Rightarrow> f x)"
  by (cases z) simp_all

lemma leaves_prod [frame]: "(\<And>x y. leaves v (f x y)) \<Longrightarrow> leaves v (case z of (x, y) \<Rightarrow> f x y)"
  by (cases z) simp

section \<open>The part of the database content cannot reach\<close>

lemma leaves_read: "leaves v (\<lambda>s. (f s, s))"
  by (simp add: leaves_def)

lemma leaves_insert:
  assumes "\<And>f d. v (upd f d) = v d" "\<And>f d. v (next_id_update f d) = v d"
  shows "leaves v (get_or_create tbl upd uq p mk)" "leaves v (add_row tbl upd uq mk)"
  by (rule leavesI, auto simp: get_or_create_def get_or_create_race_def add_row_def Let_def assms split: sum.splits option.splits)+

text \<open>
  A view of the database that shows none of the tables of the graph. Whatever stores collected
  content leaves it alone.
\<close>

locale content_view =
  fixes v :: "db \<Rightarrow> 'v"
  assumes view_identifiers: "\<And>f d. v (usernames_update f d) = v d" "\<And>f d. v (external_accounts_update f d) = v d"
      "\<And>f d. v (domains_update f d) = v d" "\<And>f d. v (urls_update f d) = v d" "\<And>f d. v (ips_update f d) = v d"
      "\<And>f d. v (iocs_update f d) = v d"
    and view_telegram: "\<And>f d. v (telegram_accounts_update f d) = v d" "\<And>f d. v (telegram_groups_update f d) = v d"
      "\<And>f d. v (telegram_channels_update f d) = v d" "\<And>f d. v (messages_update f d) = v d"
    and view_records: "\<And>f d. v (evidences_update f d) = v d" "\<And>f d. v (relationships_update f d) = v d"
      "\<And>f d. v (next_id_update f d) = v d"
begin

lemmas view_updates = view_identifiers view_telegram view_records

declare view_updates [simp]

lemma leaves_get_or_create:
  assumes "\<And>f d. v (upd f d) = v d" shows "leaves v (get_or_create tbl upd uq p mk)"
  by (rule leaves_insert) (simp_all add: assms)

lemma get_or_create_leaves:
  "(\<And>f d. v (upd f d) = v d) \<Longrightarrow> v (snd (get_or_create tbl upd uq p mk d)) = v d"
  using leaves_get_or_create [of upd tbl uq p mk] by (simp add: leaves_def)

lemma leaves_add_row:
  assumes "\<And>f d. v (upd f d) = v d" shows "leaves v (add_row tbl upd uq mk)"
  by (rule leaves_insert) (simp_all add: assms)

lemma username_leaves [frame]: "leaves v (username_get_or_create p x)"
  and external_leaves [frame]: "leaves v (external_get_or_create p x)"
  and domain_leaves [frame]: "leaves v (domain_get_or_create x)"
  and url_leaves [frame]: "leaves v (url_get_or_create sha x)"
  and ip_leaves [frame]: "leaves v (ip_get_or_create x)"
  by (rule leavesI, simp add: username_get_or_create_def external_get_or_create_def domain_get_or_create_def url_get_or_create_def
      ip_get_or_create_def get_or_create_leaves split: sum.split)+

lemma ioc_leaves [frame]: "leaves v (ioc_get_or_create t x)"
proof (rule leavesI)
  fix d
  have "v d' = v d" if "get_or_create iocs iocs_update uq_ioc p mk d = (r, d')" for p mk r d'
    using get_or_create_leaves [of iocs_update iocs uq_ioc p mk d] that by simp
  then show "v (snd (ioc_get_or_create t x d)) = v d"
    by (auto simp: ioc_get_or_create_def put_ioc_def Let_def split: sum.split prod.split)
qed

lemma telegram_leaves:
  assumes "\<And>f d. v (upd f d) = v d"
  shows "leaves v (resolve_telegram_entity tbl upd uq rid tid_of norm_of set_tid set_name mk tid u)"
  by (rule leavesI) (simp add: resolve_telegram_entity_def Let_def assms get_or_create_leaves split: sum.split option.split)

lemma account_leaves [frame]: "leaves v (account_get_or_create tid u)"
  and group_leaves [frame]: "leaves v (group_get_or_create tid u)"
  and channel_leaves [frame]: "leaves v (channel_get_or_create tid u)"
  unfolding account_get_or_create_def group_get_or_create_def channel_get_or_create_def by (simp_all add: telegram_leaves)

lemma evidence_leaves [frame]: "leaves v (record_evidence sha dumps et i e)"
  by (rule leavesI) (simp add: record_evidence_def get_or_create_leaves split: sum.split option.split)

lemma observe_leaves [frame]: "leaves v (observe s t rt c e m)"
proof (rule leavesI)
  fix d
  have "v d' = v d" if "get_or_create relationships relationships_update uq_relationship p mk d = (r, d')" for p mk r d'
    using get_or_create_leaves [of relationships_update relationships uq_relationship p mk d] that by simp
  then show "v (snd (observe s t rt c e m d)) = v d"
    by (auto simp: observe_def put_edge_def Let_def split: sum.split prod.split)
qed

lemma upsert_leaves [frame]: "leaves v (message_upsert st sid mid cols)"
proof (rule leavesI)
  fix d
  have "v d' = v d" if "get_or_create messages messages_update uq_message p mk d = (r, d')" for p mk r d'
    using get_or_create_leaves [of messages_update messages uq_message p mk d] that by simp
  then show "v (snd (message_upsert st sid mid cols d)) = v d"
    by (auto simp: message_upsert_def put_message_def Let_def split: sum.split prod.split option.split)
qed

text \<open>Enrichment and ingestion.\<close>

lemma set_link_leaves [frame]: "leaves v (set_link i e)"
  by (rule leavesI) (simp add: set_link_def)

lemma typed_leaves [frame]: "leaves v (link_typed_entity sha i m)"
  unfolding link_typed_entity_def by (intro frame)

lemma enrich_parts_leaves [frame]:
  "leaves (v \<circ> fst) (upsert_ioc m)" "leaves (v \<circ> fst) (record_ioc_evidence sha dumps pv t f m i)"
  "leaves (v \<circ> fst) (observe_counted src tgt rt c)"
  unfolding upsert_ioc_def record_ioc_evidence_def observe_counted_def by (intro frame)+

lemma match_leaves [frame]: "leaves (v \<circ> fst) (ingest_match sha dumps c pv t m)" "leaves (v \<circ> fst) (enrich_entity_match sha dumps e pv t f m)"
  unfolding ingest_match_def enrich_entity_match_def typed_edge_def mention_edge_def Let_def by (intro frame)+

lemma enrich_leaves [frame]: "leaves v (enrich_message sha dumps i t pv)" "leaves v (enrich_entity_text sha dumps e t pv f)"
  unfolding enrich_message_def enrich_def enrich_entity_text_def by (intro frame)+

lemma dispatch_leaves [frame]: "leaves v (dispatch_get_or_create sha r)"
  unfolding dispatch_get_or_create_def Let_def by (intro frame)

lemma attributes_leaves [frame]: "leaves v (\<lambda>d. (Inr (), apply_attributes et i attrs d))"
  by (rule leavesI) (simp add: apply_attributes_def split: entity_type.split)

lemma passes_leaves [frame]:
  "leaves (v \<circ> fst) (enrich_blurb sha dumps r i f)" "leaves (v \<circ> fst) (ingest_entity sha dumps r)"
  "leaves (v \<circ> fst) (ingest_message sha dumps r)" "leaves (v \<circ> fst) (ingest_evidence sha dumps dr)"
  "leaves (v \<circ> fst) (ingest_edge rd)"
  unfolding enrich_blurb_def ingest_entity_def ingest_message_def store_message_def ingest_evidence_def ingest_edge_def
  by (intro frame)+

lemma ingest_leaves [frame]: "leaves v (ingest sha dumps res)"
proof (rule leavesI)
  fix d
  have "leaves (v \<circ> fst) (ingest_all sha dumps res)" unfolding ingest_all_def by (intro frame)
  then have "v (fst (snd (ingest_all sha dumps res (d, empty_ingest)))) = v d" by (simp add: leaves_def)
  then show "v (snd (ingest sha dumps res d)) = v d"
    by (auto simp: ingest_def split: prod.split sum.split)
qed

text \<open>Resolution of a target.\<close>

lemma link_leaves [frame]: "leaves v (link sha dumps t e given c)"
  unfolding link_def by (intro frame)

lemma link_into_leaves [frame]: "leaves v (link_into sha dumps t c e res)"
  unfolding link_into_def by (intro frame)

lemma link_all_leaves [frame]: "leaves v (link_all sha dumps t c es res)"
  by (induction es arbitrary: res) (auto intro!: frame)

lemma resolve_leaves [frame]: "leaves v (resolve sha dumps t)"
proof -
  have "leaves v (resolve_telegram sha dumps t res)" for res
    unfolding resolve_telegram_def [abs_def] by (intro frame leaves_read)
  moreover have "leaves v (resolve_username sha dumps t res)" for res
  proof -
    have "leaves v (bnd (link_all sha dumps t c es r) (link_all sha dumps t c es'))" for t c es es' r by (intro frame)
    then have all: "leaves v (\<lambda>d. bnd (link_all sha dumps t c (es d) r) (link_all sha dumps t c (es' d)) d)" for t c es es' r
      by (simp add: leaves_def)
    show ?thesis unfolding resolve_username_def Let_def
      by (intro leaves_bnd leaves_prod leaves_liftE username_leaves link_into_leaves all)
  qed
  ultimately show ?thesis unfolding resolve_def Let_def by (intro frame)
qed

end

section \<open>Two views\<close>

text \<open>What no operation on content writes, and the workspace of the users.\<close>

definition apart ::
  "db \<Rightarrow> (user list \<times> job list \<times> watchlist list \<times> report list) \<times> (audit_log list \<times> refresh_token list) \<times>
    (investigation list \<times> observation list) \<times> time" where
  "apart d = ((users d, jobs d, watchlists d, reports d), (audit_logs d, refresh_tokens d), (investigations d, observations d), now d)"

definition workspace :: "db \<Rightarrow> target list \<times> search list \<times> search_result list" where
  "workspace d = (targets d, searches d, search_results d)"

interpretation apart: content_view apart
  by unfold_locales (simp_all add: apart_def)

interpretation workspace: content_view workspace
  by unfold_locales (simp_all add: workspace_def)

lemma apart_workspace [simp]: "apart (targets_update f d) = apart d" "apart (searches_update g d) = apart d"
  "apart (search_results_update h d) = apart d"
  by (simp_all add: apart_def)

section \<open>The user name investigation\<close>

lemma target_apart [frame]: "leaves apart (target_get_or_create uid k x l)"
proof (rule leavesI)
  fix d
  have "apart d' = apart d" if "add_row targets targets_update uq_target mk d = (r, d')" for mk r d'
    by (rule leavesD [OF apart.leaves_add_row that]) simp
  then show "apart (snd (target_get_or_create uid k x l d)) = apart d"
    by (auto simp: target_get_or_create_def put_target_def split: sum.split prod.split option.split)
qed

lemma search_create_apart [frame]: "leaves apart (search_create uid k q t f j)"
  unfolding search_create_def by (simp add: apart.leaves_add_row)

lemma search_rows_apart: "apart (add_result_rows sid n rs d) = apart d"
  by (induction rs arbitrary: n d) simp_all

lemma search_writes_apart [frame]: "leaves apart (search_add_results uid sid rs)" "leaves apart (search_set_status uid sid st)"
  by (rule leavesI, simp add: search_add_results_def search_set_status_def put_search_def search_rows_apart split: sum.split option.split)+

lemma username_osint_apart [frame]: "leaves apart (username_osint sha dumps run uid u)"
proof -
  have one: "leaves apart (score_record sha dumps h s t r acc)" for h s t r acc
    unfolding score_record_def by (intro frame)
  have all: "leaves apart (score_records sha dumps h s t rs acc)" for h s t rs acc
    by (induction rs arbitrary: acc) (auto intro!: frame one)
  have pair: "leaves apart (link_pair s t p acc)" for s t p acc
    unfolding link_pair_def store_same_as_def Let_def by (intro frame)
  have pairs: "leaves apart (link_same_as s t ps acc)" for s t ps acc
    by (induction ps arbitrary: acc) (auto intro!: frame pair)
  have target: "leaves apart (link_target sha dumps uid h rs s)" for h rs s
    unfolding link_target_def link_record_def by (intro frame)
  have finish: "leaves apart (finish_search uid sid rs ok)" for sid rs ok
    unfolding finish_search_def by (intro frame)
  show ?thesis unfolding username_osint_def correlate_def Let_def
    by (intro frame all pairs target finish)
qed

end
