(* ===== verification/Investigation.thy ===== *)
theory Investigation
  imports InvReport Target Frame Runner
begin

text \<open>
  \<open>intelligence/investigation/service.py\<close>, the handler of \<open>workers/handlers.py\<close> that runs it and
  \<open>apps/api/routers/investigations.py\<close>. The two collectors and the writer of the artifacts are
  parameters; the collectors of the repository are \<open>tg_run\<close> and \<open>username_run\<close>.
\<close>

section \<open>Settings and results\<close>

record operator_settings =
  os_session :: "string option"
  os_api_id :: "string option"
  os_api_hash :: "string option"

definition is_set :: "string option \<Rightarrow> bool" where
  "is_set v \<longleftrightarrow> v \<noteq> None \<and> v \<noteq> Some []"

definition operator_configured :: "operator_settings \<Rightarrow> bool" where
  "operator_configured s \<longleftrightarrow> is_set (os_session s) \<or> is_set (os_api_id s) \<and> is_set (os_api_hash s)"

record investigation_result =
  ir_investigation_id :: uid
  ir_public_id :: string
  ir_status :: investigation_status
  ir_counts :: "(string \<times> int) list"
  ir_confidence :: "int option"
  ir_narrative :: string
  ir_limitations :: "string list"
  ir_report_id :: "uid option"

definition base_limitations :: "string list" where
  "base_limitations =
     [''Private groups and private chats cannot be verified by this investigation.'',
      ''Absence of an observation does not prove absence of activity.'',
      ''Deleted or edited public content may not be recoverable.'',
      ''Username matches across platforms are potential matches, not confirmed identity.'']"

definition operator_limitation :: string where
  "operator_limitation =
     ''Comprehensive public message/mention search across Telegram requires '' @
     ''an authorized operator account (TELEGRAM_OPERATOR_*). Without one, '' @
     ''message and mention discovery is limited to the configured source and '' @
     ''may be NOT OBSERVABLE.''"

definition source_limitation :: string where
  "source_limitation =
     ''No authorized public Telegram source is configured; public profile, '' @
     ''message and mention discovery are NOT OBSERVABLE with the current '' @
     ''Telegram access model.''"

definition limitations_of :: "operator_settings \<Rightarrow> bool \<Rightarrow> string list" where
  "limitations_of cfg source_configured = base_limitations @
     (if operator_configured cfg then [] else [operator_limitation]) @
     (if source_configured then [] else [source_limitation])"

section \<open>Observations\<close>

text \<open>An observation as the later steps see it.\<close>

record observation_dict =
  od_id :: uid
  od_type :: observation_type
  od_resource :: string
  od_url :: "string option"
  od_message_ref :: "string option"
  od_snippet :: "string option"
  od_observed_at :: "time option"
  od_confidence :: int

definition str_attr :: "string \<Rightarrow> (string \<times> json) list \<Rightarrow> string option" where
  "str_attr k a = (case map_of a k of Some (JStr s) \<Rightarrow> Some s | _ \<Rightarrow> None)"

text \<open>A time attribute holds a time; a text that is not one of a time gives none.\<close>

definition coerce_dt :: "json \<Rightarrow> time option" where
  "coerce_dt v = (case v of JInt t \<Rightarrow> Some t
     | JStr s \<Rightarrow> (case fromisoformat s of Inl e \<Rightarrow> None | Inr t \<Rightarrow> Some t)
     | _ \<Rightarrow> None)"

definition resource_ref_of :: "(string \<times> json) list \<Rightarrow> string" where
  "resource_ref_of a =
     (let given = py_str (or_json (dict_get a ''_container_ref'') (JStr ''unknown'')) in
      case str_attr ''source_url'' a of
        None \<Rightarrow> given
      | Some url \<Rightarrow> (case after_first ''t.me/'' url of None \<Rightarrow> given | Some rest \<Rightarrow> before_char CHR ''/'' rest))"

definition snippet_of :: "(string \<times> json) list \<Rightarrow> string option" where
  "snippet_of a = (case str_attr ''text'' a of Some (c # s) \<Rightarrow> Some (take 500 (c # s)) | _ \<Rightarrow> None)"

definition message_ref_of :: "(string \<times> json) list \<Rightarrow> string option" where
  "message_ref_of a = (case dict_get a ''message_id'' of JNull \<Rightarrow> None | v \<Rightarrow> Some (py_str v))"

definition classify_record :: "parsed_target \<Rightarrow> (string \<times> json) list \<Rightarrow> exn + observation_type \<times> int" where
  "classify_record t a = classify_observation t (str_attr ''author_username'' a) (int_attr ''author_id'' a) (str_attr ''text'' a)
     (dict_get a ''reply_to_message_id'' \<noteq> JNull) None"

definition observation_of :: "observation_type \<times> int \<Rightarrow> (string \<times> json) list \<Rightarrow> observation_in" where
  "observation_of tc a = \<lparr>oi_type = fst tc, oi_resource_kind = RK_CHANNEL, oi_resource_ref = take 255 (resource_ref_of a),
     oi_source = ''telegram_public'', oi_confidence = snd tc, oi_resource_url = str_attr ''source_url'' a,
     oi_message_ref = message_ref_of a, oi_snippet = snippet_of a, oi_observed_at = coerce_dt (dict_get a ''posted_at''),
     oi_evidence_id = None\<rparr>"

definition dict_of :: "(string \<times> json) list \<Rightarrow> observation \<Rightarrow> observation_dict" where
  "dict_of a row = \<lparr>od_id = ob_id row, od_type = ob_type row, od_resource = resource_ref_of a, od_url = ob_resource_url row,
     od_message_ref = ob_message_ref row, od_snippet = ob_snippet row, od_observed_at = ob_observed_at row,
     od_confidence = ob_confidence row\<rparr>"

definition observe_record :: "uid \<Rightarrow> parsed_target \<Rightarrow> normalized_record \<Rightarrow> (db, observation_dict) action" where
  "observe_record iid t r =
     bnd (liftE (classify_record t (nr_attributes r))) (\<lambda>tc.
     bnd (add_observation iid (observation_of tc (nr_attributes r))) (\<lambda>row.
     ret (dict_of (nr_attributes r) row)))"

fun observe_records :: "uid \<Rightarrow> parsed_target \<Rightarrow> normalized_record list \<Rightarrow> (db, observation_dict list) action" where
  "observe_records iid t [] = ret []"
| "observe_records iid t (r # rs) =
     bnd (observe_record iid t r) (\<lambda>x. bnd (observe_records iid t rs) (\<lambda>xs. ret (x # xs)))"

definition build_observations :: "uid \<Rightarrow> parsed_target \<Rightarrow> collect_result option \<Rightarrow> (db, observation_dict list) action" where
  "build_observations iid t res =
     (case res of None \<Rightarrow> ret []
      | Some x \<Rightarrow> observe_records iid t (filter (\<lambda>r. nr_entity_type r = E_MESSAGE) (co_records x)))"

section \<open>Correlation, indicators, confidence\<close>

definition alias_dict :: "source_hit \<Rightarrow> json" where
  "alias_dict h = JObj [(''platform'', JStr (sh_platform h)), (''url'', opt_json (sh_url h)), (''confidence'', JInt (sh_confidence h)),
     (''band'', JStr (sh_band h)), (''label'', JStr (sh_label h)), (''evidence'', JList (map JStr (sh_evidence h)))]"

type_synonym alias_report = "json list \<times> int option \<times> string list"

definition max_of :: "int list \<Rightarrow> int option" where
  "max_of xs = (if xs = [] then None else Some (Max (set xs)))"

definition correlate_target ::
  "(string \<Rightarrow> string) \<Rightarrow> (json \<Rightarrow> string) \<Rightarrow> (collect_request \<Rightarrow> exn + collect_result) \<Rightarrow> uid \<Rightarrow> parsed_target \<Rightarrow> (db, alias_report) action" where
  "correlate_target sha dumps ur uid t =
     bnd (username_osint sha dumps ur uid (pt_canonical t)) (\<lambda>r.
     ret (map alias_dict (uo_sources r), max_of (map sh_confidence (uo_sources r)), uo_notes r))"

definition new_iocs :: "(ioc_type \<times> string) list \<Rightarrow> ioc_match list \<Rightarrow> (ioc_type \<times> string) list" where
  "new_iocs seen hits = fold (\<lambda>h acc. if (im_type h, im_value h) \<in> set acc then acc else acc @ [(im_type h, im_value h)]) hits seen"

definition observed_iocs :: "observation_dict list \<Rightarrow> exn + (ioc_type \<times> string) list" where
  "observed_iocs obs = foldE (\<lambda>v acc. map_sum id (new_iocs acc) (extract_iocs (case od_snippet v of None \<Rightarrow> [] | Some s \<Rightarrow> s))) obs []"

definition count_type :: "observation_type \<Rightarrow> observation_dict list \<Rightarrow> int" where
  "count_type ty obs = int (length (filter (\<lambda>v. od_type v = ty) obs))"

definition count_observations :: "observation_dict list \<Rightarrow> (string \<times> int) list" where
  "count_observations obs = (''observations'', int (length obs)) #
     map (\<lambda>ty. (observation_value ty, count_type ty obs)) [AUTHOR, MENTION, REPLY, REFERENCE, UNKNOWN] @
     [(''resources'', int (length (remdups (filter (\<lambda>r. r \<noteq> []) (map od_resource obs)))))]"

definition confidences :: "observation_type set \<Rightarrow> observation_dict list \<Rightarrow> int list" where
  "confidences kinds obs = map od_confidence (filter (\<lambda>v. od_type v \<in> kinds) obs)"

definition overall_confidence :: "observation_dict list \<Rightarrow> int option \<Rightarrow> bool \<Rightarrow> int option" where
  "overall_confidence obs alias source_configured =
     (if \<not> source_configured \<and> alias = None then None
      else (let mentions = confidences {MENTION} obs;
                signals = confidences {AUTHOR, REPLY} obs @ (case alias of None \<Rightarrow> [] | Some a \<Rightarrow> [a]) @
                  (case max_of mentions of None \<Rightarrow> [] | Some m \<Rightarrow> [min 60 m]) in
            case max_of signals of
              Some m \<Rightarrow> Some (min 95 m)
            | None \<Rightarrow> if obs \<noteq> [] then Some 20 else if source_configured then Some 0 else None))"

definition count_at :: "string \<Rightarrow> (string \<times> int) list \<Rightarrow> int" where
  "count_at k counts = (case map_of counts k of None \<Rightarrow> 0 | Some n \<Rightarrow> n)"

definition narrative_text :: "parsed_target \<Rightarrow> (string \<times> int) list \<Rightarrow> bool \<Rightarrow> bool \<Rightarrow> string" where
  "narrative_text t counts source_configured op_configured =
     (if \<not> source_configured
      then ''No authorized public Telegram source is configured, so public footprint discovery for '' @ display t @
        '' is NOT OBSERVABLE with the current access model. Cross-platform username correlation ('' @
        show_int (count_at ''aliases'' counts) @ '' potential alias(es)) was still attempted.''
      else if count_at ''observations'' counts = 0 \<and> \<not> op_configured
      then ''Public message/mention discovery for '' @ display t @ '' is NOT OBSERVABLE with the current Telegram access model '' @
        ''(no authorized operator account; the Bot API cannot search public messages). Cross-platform username correlation found '' @
        show_int (count_at ''aliases'' counts) @ '' potential alias(es).''
      else join ''; '' ((show_int (count_at ''observations'' counts) @ '' public observation(s) for '' @ display t) #
        (if count_at ''AUTHOR'' counts = 0 then [] else [show_int (count_at ''AUTHOR'' counts) @ '' likely authored'']) @
        (if count_at ''MENTION'' counts = 0 then [] else [show_int (count_at ''MENTION'' counts) @ '' mention(s)'']) @
        (if count_at ''REPLY'' counts = 0 then [] else [show_int (count_at ''REPLY'' counts) @ '' repl(y/ies)''])) @ ''.'')"

section \<open>The service\<close>

definition profile_of :: "collect_result \<Rightarrow> (string \<times> json) list option" where
  "profile_of res = fold (\<lambda>r acc. if nr_entity_type r = E_TELEGRAM_ACCOUNT then Some (nr_attributes r) else acc) (co_records res) None"

definition counts_json :: "(string \<times> int) list \<Rightarrow> json" where
  "counts_json cs = JObj (map (\<lambda>(k, n). (k, JInt n)) cs)"

definition summary_json ::
  "parsed_target \<Rightarrow> (string \<times> int) list \<Rightarrow> string \<Rightarrow> string list \<Rightarrow> string list \<Rightarrow> (string \<times> json) list option \<Rightarrow> json list \<Rightarrow>
   (ioc_type \<times> string) list \<Rightarrow> json" where
  "summary_json t counts narrative limits notes profile aliases found = JObj
     [(''target'', JObj [(''type'', JStr (target_kind_value (pt_type t))), (''canonical'', JStr (pt_canonical t))]),
      (''counts'', counts_json counts), (''narrative'', JStr narrative), (''limitations'', JList (map JStr limits)),
      (''notes'', JList (map JStr (sort (remdups (filter (\<lambda>n. n \<noteq> []) notes))))),
      (''profile'', json_of JObj profile), (''aliases'', JList aliases),
      (''iocs'', JList (map (\<lambda>(ty, v). JObj [(''type'', JStr (ioc_value ty)), (''value'', JStr v)]) found))]"

text \<open>The report is generated inside a \<open>try\<close>: a failure is logged, what it wrote stays.\<close>

definition attach_report :: "artifact_writer \<Rightarrow> uid \<Rightarrow> (db, uid option) action" where
  "attach_report write i = catch
     (bnd (generate_investigation_report write i) (\<lambda>rid d. (Inr (Some rid), change_inv i (\<lambda>v. v\<lparr>in_report_id := Some rid\<rparr>) d)))
     (\<lambda>e. ret None)"

definition conclude ::
  "operator_settings \<Rightarrow> artifact_writer \<Rightarrow> uid \<Rightarrow> investigation \<Rightarrow> parsed_target \<Rightarrow> collect_result \<Rightarrow> bool \<Rightarrow> observation_dict list \<Rightarrow>
   string list \<Rightarrow> alias_report \<Rightarrow> (db, investigation_result) action" where
  "conclude cfg write uid v t prof source_configured obs notes al =
     bnd (liftE (observed_iocs obs)) (\<lambda>found.
     let counts = count_observations obs @ [(''aliases'', int (length (fst al))), (''iocs'', int (length found))];
         conf = overall_confidence obs (fst (snd al)) source_configured;
         narrative = narrative_text t counts source_configured (operator_configured cfg);
         limits = limitations_of cfg source_configured;
         summary = summary_json t counts narrative limits (notes @ snd (snd al)) (profile_of prof) (fst al) found
     in
     bnd (\<lambda>d. (Inr (), change_inv (in_id v) (\<lambda>x. x\<lparr>in_confidence := conf, in_summary := Some summary\<rparr>) d)) (\<lambda>_.
     bnd (attach_report write (in_id v)) (\<lambda>rid.
     bnd (inv_set_status uid (in_id v) I_COMPLETED None) (\<lambda>_.
     ret \<lparr>ir_investigation_id = in_id v, ir_public_id = in_public_id v, ir_status = I_COMPLETED, ir_counts = counts,
          ir_confidence = conf, ir_narrative = narrative, ir_limitations = limits, ir_report_id = rid\<rparr>))))"

definition profile_request :: "parsed_target \<Rightarrow> collect_request" where
  "profile_request t = \<lparr>rq_query = display t, rq_kind = kind_user, rq_limit = 1, rq_since = None\<rparr>"

definition message_request :: "parsed_target \<Rightarrow> collect_request" where
  "message_request t = \<lparr>rq_query = pt_canonical t, rq_kind = kind_message_search, rq_limit = 50, rq_since = None\<rparr>"

definition investigate ::
  "operator_settings \<Rightarrow> (string \<Rightarrow> string) \<Rightarrow> (json \<Rightarrow> string) \<Rightarrow> (collect_request \<Rightarrow> exn + collect_result) \<Rightarrow>
   (collect_request \<Rightarrow> exn + collect_result) \<Rightarrow> artifact_writer \<Rightarrow> uid \<Rightarrow> investigation \<Rightarrow> parsed_target \<Rightarrow> (db, investigation_result) action" where
  "investigate cfg sha dumps tg ur write uid v t =
     bnd (liftE (tg (profile_request t))) (\<lambda>prof.
     let source_configured = (co_error prof \<noteq> Some no_source) in
     bnd (if source_configured then bnd (liftE (tg (message_request t))) (\<lambda>m. ret (Some m)) else ret None) (\<lambda>msgs.
     bnd (build_observations (in_id v) t msgs) (\<lambda>obs.
     bnd (if is_username_target t then correlate_target sha dumps ur uid t else ret ([], None, [])) (\<lambda>al.
     conclude cfg write uid v t prof source_configured obs
       (co_notes prof @ (case msgs of None \<Rightarrow> [] | Some m \<Rightarrow> co_notes m)) al))))"

definition is_value_error :: "exn \<Rightarrow> bool" where
  "is_value_error e = (case e of ValueError _ \<Rightarrow> True | InvalidTarget _ \<Rightarrow> True | _ \<Rightarrow> False)"

definition refused_result :: "investigation \<Rightarrow> exn \<Rightarrow> investigation_result" where
  "refused_result v e = \<lparr>ir_investigation_id = in_id v, ir_public_id = in_public_id v, ir_status = I_FAILED, ir_counts = [],
     ir_confidence = None, ir_narrative = exn_str e, ir_limitations = [], ir_report_id = None\<rparr>"

definition investigation_run ::
  "operator_settings \<Rightarrow> (string \<Rightarrow> string) \<Rightarrow> (json \<Rightarrow> string) \<Rightarrow> (collect_request \<Rightarrow> exn + collect_result) \<Rightarrow>
   (collect_request \<Rightarrow> exn + collect_result) \<Rightarrow> artifact_writer \<Rightarrow> uid \<Rightarrow> uid \<Rightarrow> (db, investigation_result) action" where
  "investigation_run cfg sha dumps tg ur write uid i d =
     (case inv_get uid d i of
        Inl e \<Rightarrow> (Inl e, d)
      | Inr None \<Rightarrow> (Inl (LookupError (''investigation '' @ uid_text i @ '' not found'')), d)
      | Inr (Some v) \<Rightarrow>
          bnd (inv_set_status uid i I_RUNNING None) (\<lambda>_.
            case parse_target (Some (in_target v)) of
              Inr t \<Rightarrow> investigate cfg sha dumps tg ur write uid v t
            | Inl e \<Rightarrow>
                if is_value_error e
                then bnd (inv_set_status uid i I_FAILED (Some (''invalid target: '' @ exn_str e))) (\<lambda>_. ret (refused_result v e))
                else throw e) d)"

definition link_job :: "uid \<Rightarrow> uid \<Rightarrow> (db, unit) action" where
  "link_job i jid d = (Inr (), change_inv i (\<lambda>v. v\<lparr>in_job_id := Some jid\<rparr>) d)"

section \<open>Scores of the aliases\<close>

definition in_range :: "int \<Rightarrow> bool" where
  "in_range c \<longleftrightarrow> 0 \<le> c \<and> c \<le> 100"

lemma score_pair_range: "score_pair repr a b same = Inr c \<Longrightarrow> in_range (cr_score c)"
proof (erule score_pair_Inr)
  fix da db ea eb cross
  assume "cross_signals [(text_of da, eb), (text_of db, ea)] = Inr cross"
    and c: "c = result_of (pair_signals repr same (facts_of a) (facts_of b) da db ea eb cross)"
  then have "weighed (pair_signals repr same (facts_of a) (facts_of b) da db ea eb cross)"
    using pair_signals_weighed weighed_cross by metis
  from result_of_facts(1) [OF this] have "cr_score c = min 100 (\<Sum>n \<in> sg_name ` set (pair_signals repr same (facts_of a) (facts_of b) da db ea eb cross). weight_of n)"
    by (simp add: c)
  moreover have "0 \<le> weight_of n" for n by (cases n) simp_all
  ultimately show "in_range (cr_score c)" by (simp add: in_range_def sum_nonneg)
qed

lemma score_peers_range: "score_peers repr f same ps = Inr rs \<Longrightarrow> list_all (\<lambda>r. in_range (cr_score r)) rs"
  by (induction ps arbitrary: rs) (auto split: sum.splits dest: score_pair_range)

lemma first_max_in: "first_max r rs \<in> set (r # rs)"
  by (induction r rs rule: first_max.induct) auto

lemma score_account_range: "score_account repr f ps same = Inr c \<Longrightarrow> in_range (cr_score c)"
  by (auto simp: score_account_def split: sum.splits list.splits dest: score_pair_range dest!: score_peers_range)
    (metis first_max_in list_all_iff list.set_intros(1) set_ConsD)

definition hits_in_range :: "source_hit list \<Rightarrow> bool" where
  "hits_in_range hs \<longleftrightarrow> list_all (\<lambda>h. in_range (sh_confidence h)) hs"

lemma score_record_range:
  "score_record sha dumps h s t r acc d = (Inr acc', d') \<Longrightarrow> hits_in_range (fst acc) \<Longrightarrow> hits_in_range (fst acc')"
  by (auto simp: score_record_def bnd_Inr_iff liftE_def hits_in_range_def hit_source_def dest!: score_account_range split: option.splits)

lemma score_records_range:
  "score_records sha dumps h s t rs acc d = (Inr acc', d') \<Longrightarrow> hits_in_range (fst acc) \<Longrightarrow> hits_in_range (fst acc')"
  by (induction rs arbitrary: acc d) (auto simp: bnd_Inr_iff dest: score_record_range)

lemma username_osint_range:
  assumes "username_osint sha dumps run uid u d = (Inr x, d')" shows "hits_in_range (uo_sources x)"
proof -
  from assms obtain h sid res s d1 where "correlate sha dumps uid h sid res s d1 = (Inr x, d')"
    by (auto simp: username_osint_def bnd_Inr_iff)
  then obtain sources results d2 where "score_records sha dumps h s (facts_table (filter is_account (co_records res)))
      (filter is_account (co_records res)) ([], []) d1 = (Inr (sources, results), d2)" "set (uo_sources x) = set sources"
    by (auto simp: correlate_def Let_def bnd_Inr_iff split_def)
  with score_records_range [of sha dumps h s _ _ "([], [])" d1] show ?thesis
    by (fastforce simp: hits_in_range_def list_all_iff)
qed

section \<open>What is observed\<close>

text \<open>The row that a record of a message becomes.\<close>

definition row_for :: "uid \<Rightarrow> parsed_target \<Rightarrow> normalized_record \<Rightarrow> observation \<Rightarrow> bool" where
  "row_for iid t r row \<longleftrightarrow> (\<exists>tc. classify_record t (nr_attributes r) = Inr tc \<and>
     row = observation_row iid (observation_of tc (nr_attributes r)) (ob_id row))"

lemma observe_records_run:
  assumes "observe_records iid t rs d = (Inr xs, d')"
  obtains rows where "d' = d\<lparr>observations := observations d @ rows, next_id := next_id d + length rows\<rparr>"
    "list_all2 (row_for iid t) rs rows"
    "xs = map2 (\<lambda>r row. dict_of (nr_attributes r) row) rs rows"
  using assms
proof (induction rs arbitrary: d xs thesis)
  case Nil
  then show ?case by simp
next
  case (Cons r rs)
  from Cons.prems(2) obtain tc x xs' d1 where tc: "classify_record t (nr_attributes r) = Inr tc"
    and add: "add_observation iid (observation_of tc (nr_attributes r)) d = (Inr x, d1)"
    and rest: "observe_records iid t rs d1 = (Inr xs', d')" and xs: "xs = dict_of (nr_attributes r) x # xs'"
    by (auto simp: observe_record_def bnd_Inr_iff liftE_def)
  from add have x: "x = observation_row iid (observation_of tc (nr_attributes r)) (next_id d)"
      and d1: "d1 = d\<lparr>observations := observations d @ [x], next_id := Suc (next_id d)\<rparr>"
    by (auto simp: add_observation_def add_row_def Let_def)
  from Cons.IH [OF _ rest] obtain rows where rows:
    "d' = d1\<lparr>observations := observations d1 @ rows, next_id := next_id d1 + length rows\<rparr>"
    "list_all2 (row_for iid t) rs rows"
    "xs' = map2 (\<lambda>r row. dict_of (nr_attributes r) row) rs rows" by blast
  have "ob_id x = next_id d" by (simp add: x observation_row_def)
  with tc x have "row_for iid t r x" by (auto simp: row_for_def)
  with Cons.prems(1) [of "x # rows"] rows show ?case by (simp add: d1 xs)
qed

section \<open>The course of a run\<close>

lemma inv_get_rows: "investigations d' = investigations d \<Longrightarrow> inv_get uid d' i = inv_get uid d i"
  by (simp add: inv_get_def)

lemma inv_get_change:
  assumes "inv_get uid d i = Inr (Some v)" and "\<And>x. in_id (f x) = in_id x" "\<And>x. in_user_id (f x) = in_user_id x"
  shows "inv_get uid (change_inv i f d) i = Inr (Some (f v))"
proof -
  let ?p = "\<lambda>v. in_id v = i \<and> in_user_id v = uid"
  have "filter ?p (update_where (\<lambda>x. in_id x = i) f t) = map f (filter ?p t)" for t
    using assms(2,3) by (induction t) auto
  moreover have "filter ?p (investigations d) = [v]"
    using assms(1) unfolding inv_get_def scalar_one_or_none_def by (auto split: list.splits)
  ultimately show ?thesis by (simp add: inv_get_def scalar_one_or_none_def change_inv_def)
qed

lemma with_status_ids [simp]: "in_id (with_status t st e x) = in_id x" "in_user_id (with_status t st e x) = in_user_id x"
  "in_public_id (with_status t st e x) = in_public_id x" "in_target (with_status t st e x) = in_target x"
  "in_confidence (with_status t st e x) = in_confidence x" "in_summary (with_status t st e x) = in_summary x"
  "in_report_id (with_status t st e x) = in_report_id x" "in_status (with_status t st e x) = st"
  by (simp_all add: with_status_def)

lemma set_status_run:
  "inv_get uid d i = Inr (Some v) \<Longrightarrow> inv_set_status uid i st e d = (Inr (), change_inv i (with_status (now d) st e) d)"
  by (simp add: inv_set_status_def)

text \<open>Everything but the row of this investigation.\<close>

definition others_of :: "uid \<Rightarrow> db \<Rightarrow> investigation list" where
  "others_of i d = filter (\<lambda>x. in_id x \<noteq> i) (investigations d)"

lemma change_inv_frame [simp]:
  assumes "\<And>x. in_id (f x) = in_id x"
  shows "others_of i (change_inv i f d) = others_of i d"
proof -
  have "filter (\<lambda>x. in_id x \<noteq> i) (update_where (\<lambda>x. in_id x = i) f t) = filter (\<lambda>x. in_id x \<noteq> i) t" for t
    using assms by (induction t) auto
  then show ?thesis by (simp add: others_of_def change_inv_def)
qed

lemma change_inv_rest [simp]: "observations (change_inv i f d) = observations d" "now (change_inv i f d) = now d"
  "reports (change_inv i f d) = reports d" "next_id (change_inv i f d) = next_id d"
  by (simp_all add: change_inv_def)

text \<open>What the generation of a report leaves alone.\<close>

definition beside :: "db \<Rightarrow> investigation list \<times> observation list \<times> time" where
  "beside d = (investigations d, observations d, now d)"

lemma report_beside: "leaves beside (generate_investigation_report write i)"
proof -
  have create: "leaves beside (report_create uid title t j)" for uid title t j
    by (rule leavesI) (simp add: report_create_def add_row_def Let_def beside_def)
  have set: "leaves beside (report_set_status uid rid st e)" for uid rid st e
    by (rule leavesI) (simp add: report_set_status_def put_report_def beside_def Let_def split: sum.split option.split)
  have fill: "leaves beside (fill_investigation_report write v r)" for v r
  proof (rule leavesI)
    fix d
    have "leaves beside (bnd (report_set_status uid rid T_COMPLETED None) (\<lambda>_. ret rid))" for uid rid
      by (intro frame set)
    then have "beside (snd (bnd (report_set_status uid rid T_COMPLETED None) (\<lambda>_. ret rid) e)) = beside e" for uid rid e
      by (simp add: leaves_def)
    then show "beside (snd (fill_investigation_report write v r d)) = beside d"
      by (simp add: fill_investigation_report_def finish_report_def beside_def split: sum.split)
  qed
  have all: "leaves beside (bnd (report_create uid title None j) (fill_investigation_report write v))" for uid title j v
    by (intro frame create fill)
  show ?thesis
  proof (rule leavesI)
    fix d
    show "beside (snd (generate_investigation_report write i d)) = beside d"
    proof (cases "get_by_id in_id (investigations d) i")
      case (Some v)
      then show ?thesis unfolding generate_investigation_report_def Some option.case
        using all [of "in_user_id v" _ "in_job_id v" v] by (simp add: leaves_def)
    qed (simp add: generate_investigation_report_def)
  qed
qed

lemma attach_report_run:
  obtains rid e where "attach_report write i d = (Inr rid, case rid of None \<Rightarrow> e | Some k \<Rightarrow> change_inv i (\<lambda>v. v\<lparr>in_report_id := Some k\<rparr>) e)"
    "beside e = beside d" "rid = (case generate_investigation_report write i d of (Inl x, _) \<Rightarrow> None | (Inr k, _) \<Rightarrow> Some k)"
    "e = snd (generate_investigation_report write i d)"
proof -
  obtain x e where g: "generate_investigation_report write i d = (x, e)" by fastforce
  have "beside e = beside d" by (rule leavesD [OF report_beside g])
  with that g show thesis by (cases x) (auto simp: attach_report_def catch_def bnd_def)
qed

text \<open>The records a run classifies, and the observations as its later steps see them.\<close>

definition messages_of :: "collect_result option \<Rightarrow> normalized_record list" where
  "messages_of msgs = (case msgs of None \<Rightarrow> [] | Some x \<Rightarrow> filter (\<lambda>r. nr_entity_type r = E_MESSAGE) (co_records x))"

definition seen_of :: "collect_result option \<Rightarrow> observation list \<Rightarrow> observation_dict list" where
  "seen_of msgs rows = map2 (\<lambda>r row. dict_of (nr_attributes r) row) (messages_of msgs) rows"

definition alias_ok :: "alias_report \<Rightarrow> bool" where
  "alias_ok al \<longleftrightarrow> (case fst (snd al) of None \<Rightarrow> fst al = [] | Some a \<Rightarrow> in_range a \<and> fst al \<noteq> [])"

lemma correlate_target_run:
  assumes "correlate_target sha dumps ur uid t d = (Inr al, d')"
  shows "apart d' = apart d \<and> alias_ok al"
proof -
  from assms obtain x where x: "username_osint sha dumps ur uid (pt_canonical t) d = (Inr x, d')"
    and al: "al = (map alias_dict (uo_sources x), max_of (map sh_confidence (uo_sources x)), uo_notes x)"
    by (auto simp: correlate_target_def bnd_Inr_iff)
  have "in_range (Max (sh_confidence ` set (uo_sources x)))" if "uo_sources x \<noteq> []"
  proof -
    have "Max (sh_confidence ` set (uo_sources x)) \<in> sh_confidence ` set (uo_sources x)" using that by (intro Max_in) auto
    with username_osint_range [OF x] show ?thesis by (auto simp: hits_in_range_def list_all_iff)
  qed
  then have "alias_ok al" by (auto simp: al alias_ok_def max_of_def)
  with leavesD [OF username_osint_apart x] show ?thesis by simp
qed

definition concluded ::
  "operator_settings \<Rightarrow> investigation \<Rightarrow> parsed_target \<Rightarrow> bool \<Rightarrow> observation_dict list \<Rightarrow> alias_report \<Rightarrow> (ioc_type \<times> string) list \<Rightarrow>
   uid option \<Rightarrow> investigation_result" where
  "concluded cfg v t sc obs al found rid =
     (let counts = count_observations obs @ [(''aliases'', int (length (fst al))), (''iocs'', int (length found))] in
      \<lparr>ir_investigation_id = in_id v, ir_public_id = in_public_id v, ir_status = I_COMPLETED, ir_counts = counts,
       ir_confidence = overall_confidence obs (fst (snd al)) sc, ir_narrative = narrative_text t counts sc (operator_configured cfg),
       ir_limitations = limitations_of cfg sc, ir_report_id = rid\<rparr>)"

text \<open>The row as the report generator sees it.\<close>

definition summarised :: "investigation_result \<Rightarrow> json \<Rightarrow> investigation \<Rightarrow> investigation" where
  "summarised r summary x = x\<lparr>in_confidence := ir_confidence r, in_summary := Some summary\<rparr>"

lemma conclude_run:
  assumes run: "conclude cfg write uid v t prof sc obs notes al d = (Inr r, d')"
    and v: "inv_get uid d (in_id v) = Inr (Some w)"
  obtains found s e rid where "observed_iocs obs = Inr found" "r = concluded cfg v t sc obs al found rid"
    "s = summary_json t (ir_counts r) (ir_narrative r) (ir_limitations r) (notes @ snd (snd al)) (profile_of prof) (fst al) found"
    "e = change_inv (in_id v) (summarised r s) d"
    "rid = (case generate_investigation_report write (in_id v) e of (Inl x, _) \<Rightarrow> None | (Inr k, _) \<Rightarrow> Some k)"
    "reports d' = reports (snd (generate_investigation_report write (in_id v) e))"
    "observations d' = observations d" "now d' = now d" "others_of (in_id v) d' = others_of (in_id v) d"
    "inv_get uid d' (in_id v) = Inr (Some (with_status (now d) I_COMPLETED None
       ((case rid of None \<Rightarrow> id | Some k \<Rightarrow> in_report_id_update (\<lambda>_. Some k)) (summarised r s w))))"
proof -
  let ?i = "in_id v"
  from run obtain found where found: "observed_iocs obs = Inr found" by (auto simp: conclude_def bnd_Inr_iff liftE_def)
  define r0 where "r0 = concluded cfg v t sc obs al found None"
  define s where "s = summary_json t (ir_counts r0) (ir_narrative r0) (ir_limitations r0) (notes @ snd (snd al)) (profile_of prof) (fst al) found"
  define e where "e = change_inv ?i (summarised r0 s) d"
  obtain rid e1 where att: "attach_report write ?i e = (Inr rid, case rid of None \<Rightarrow> e1 | Some k \<Rightarrow> change_inv ?i (\<lambda>v. v\<lparr>in_report_id := Some k\<rparr>) e1)"
    and e1: "beside e1 = beside e" "rid = (case generate_investigation_report write ?i e of (Inl x, _) \<Rightarrow> None | (Inr k, _) \<Rightarrow> Some k)"
      "e1 = snd (generate_investigation_report write ?i e)" by (rule attach_report_run [of "write" "?i" e])
  define e2 where "e2 = (case rid of None \<Rightarrow> e1 | Some k \<Rightarrow> change_inv ?i (\<lambda>v. v\<lparr>in_report_id := Some k\<rparr>) e1)"
  let ?f = "case rid of None \<Rightarrow> id | Some k \<Rightarrow> in_report_id_update (\<lambda>_. Some k)"
  have get_e: "inv_get uid e ?i = Inr (Some (summarised r0 s w))"
    unfolding e_def by (rule inv_get_change [OF v]) (simp_all add: summarised_def)
  have e1': "investigations e1 = investigations e" "observations e1 = observations e" "now e1 = now e" using e1(1) by (simp_all add: beside_def)
  have get_e2: "inv_get uid e2 ?i = Inr (Some (?f (summarised r0 s w)))"
  proof (cases rid)
    case None
    then show ?thesis using get_e inv_get_rows [OF e1'(1)] by (simp add: e2_def)
  next
    case (Some k)
    have "inv_get uid e1 ?i = Inr (Some (summarised r0 s w))" using get_e inv_get_rows [OF e1'(1)] by simp
    from inv_get_change [OF this, of "\<lambda>v. v\<lparr>in_report_id := Some k\<rparr>"] Some show ?thesis by (simp add: e2_def)
  qed
  have rest: "observations e2 = observations d" "now e2 = now d" "others_of ?i e2 = others_of ?i d" "reports e2 = reports e1"
  proof -
    have "others_of ?i e1 = others_of ?i e" by (simp add: others_of_def e1')
    then show "observations e2 = observations d" "now e2 = now d" "others_of ?i e2 = others_of ?i d" "reports e2 = reports e1"
      by (cases rid; simp add: e2_def e1' e_def summarised_def)+
  qed
  have "bnd (attach_report write ?i) (\<lambda>rid. bnd (inv_set_status uid ?i I_COMPLETED None) (\<lambda>_. ret (concluded cfg v t sc obs al found rid))) e = (Inr r, d')"
    using run by (simp add: conclude_def found liftE_def Let_def concluded_def e_def s_def r0_def summarised_def [abs_def]
        bnd_def [of "\<lambda>d. (Inr (), _ d)"])
  with att have "bnd (inv_set_status uid ?i I_COMPLETED None) (\<lambda>_. ret (concluded cfg v t sc obs al found rid)) e2 = (Inr r, d')"
    by (simp add: e2_def)
  then have d': "d' = change_inv ?i (with_status (now e2) I_COMPLETED None) e2" and r: "r = concluded cfg v t sc obs al found rid"
    by (auto simp: bnd_Inr_iff set_status_run [OF get_e2])
  have r0: "summarised r = summarised r0" "ir_counts r0 = ir_counts r" "ir_narrative r0 = ir_narrative r" "ir_limitations r0 = ir_limitations r"
    by (simp_all add: r r0_def concluded_def Let_def summarised_def [abs_def])
  have "inv_get uid d' ?i = Inr (Some (with_status (now d) I_COMPLETED None (?f (summarised r s w))))"
    using inv_get_change [OF get_e2, of "with_status (now e2) I_COMPLETED None"] by (simp add: d' rest(2) r0)
  then show thesis
    using that [OF found r, of s e] e1(2,3) rest by (simp add: d' e_def s_def r0)
qed

lemma build_observations_run:
  assumes "build_observations iid t msgs d = (Inr xs, d')"
  obtains rows where "d' = d\<lparr>observations := observations d @ rows, next_id := next_id d + length rows\<rparr>"
    "list_all2 (row_for iid t) (messages_of msgs) rows" "xs = seen_of msgs rows"
proof (cases msgs)
  case None
  with assms that [of "[]"] show thesis by (simp add: build_observations_def messages_of_def seen_of_def)
next
  case (Some x)
  with assms have "observe_records iid t (messages_of msgs) d = (Inr xs, d')" by (simp add: build_observations_def messages_of_def)
  then show thesis by (rule observe_records_run) (rule that, simp_all add: seen_of_def)
qed

definition fetched :: "(collect_request \<Rightarrow> exn + collect_result) \<Rightarrow> parsed_target \<Rightarrow> collect_result \<Rightarrow> collect_result option \<Rightarrow> bool" where
  "fetched tg t prof msgs \<longleftrightarrow> tg (profile_request t) = Inr prof \<and>
     (case msgs of None \<Rightarrow> co_error prof = Some no_source | Some m \<Rightarrow> co_error prof \<noteq> Some no_source \<and> tg (message_request t) = Inr m)"

text \<open>A run that returns either refused the target, or went through all its steps.\<close>

lemma investigation_cases:
  assumes run: "investigation_run cfg sha dumps tg ur write uid i d = (Inr r, d')"
  obtains (refused) v x where "inv_get uid d i = Inr (Some v)" "parse_target (Some (in_target v)) = Inl x"
    "r = refused_result v x" "in_id v = i"
    "d' = change_inv i (with_status (now d) I_FAILED (Some (''invalid target: '' @ exn_str x))) (change_inv i (with_status (now d) I_RUNNING None) d)"
  | (completed) v t prof msgs rows d3 al where "inv_get uid d i = Inr (Some v)" "in_id v = i" "parse_target (Some (in_target v)) = Inr t"
    "fetched tg t prof msgs" "list_all2 (row_for i t) (messages_of msgs) rows" "alias_ok al"
    "observations d3 = observations d @ rows" "now d3 = now d" "others_of i d3 = others_of i d"
    "map in_id (investigations d3) = map in_id (investigations d)" "reports d3 = reports d"
    "inv_get uid d3 i = Inr (Some (with_status (now d) I_RUNNING None v))"
    "conclude cfg write uid v t prof (msgs \<noteq> None) (seen_of msgs rows) (co_notes prof @ (case msgs of None \<Rightarrow> [] | Some m \<Rightarrow> co_notes m)) al d3 = (Inr r, d')"
proof -
  from run obtain v where v: "inv_get uid d i = Inr (Some v)" by (auto simp: investigation_run_def split: sum.splits option.splits)
  then have id: "in_id v = i" by (auto dest: inv_get_Some)
  let ?d1 = "change_inv i (with_status (now d) I_RUNNING None) d"
  have v1: "inv_get uid ?d1 i = Inr (Some (with_status (now d) I_RUNNING None v))" by (rule inv_get_change [OF v]) simp_all
  show thesis
  proof (cases "parse_target (Some (in_target v))")
    case (Inl x)
    with run v show thesis
      using refused [OF v Inl _ id] set_status_run [OF v1]
      by (auto simp: investigation_run_def set_status_run [OF v] bnd_def split: if_splits)
  next
    case (Inr t)
    with run v have run1: "investigate cfg sha dumps tg ur write uid v t ?d1 = (Inr r, d')"
      by (simp add: investigation_run_def set_status_run [OF v] bnd_def)
    let ?al = "if is_username_target t then correlate_target sha dumps ur uid t else ret ([], None, [])"
    let ?notes = "\<lambda>prof msgs. co_notes prof @ (case msgs of None \<Rightarrow> [] | Some m \<Rightarrow> co_notes m)"
    let ?rest = "\<lambda>prof msgs. bnd (build_observations i t msgs) (\<lambda>obs. bnd ?al
       (conclude cfg write uid v t prof (co_error prof \<noteq> Some no_source) obs (?notes prof msgs)))"
    from run1 obtain prof where prof: "tg (profile_request t) = Inr prof"
      and run2: "bnd (if co_error prof \<noteq> Some no_source then bnd (liftE (tg (message_request t))) (\<lambda>m. ret (Some m)) else ret None)
        (?rest prof) ?d1 = (Inr r, d')"
      by (auto simp: investigate_def bnd_Inr_iff [of "liftE _"] liftE_def Let_def id)
    obtain msgs where f: "fetched tg t prof msgs" and run3: "?rest prof msgs ?d1 = (Inr r, d')"
    proof (cases "co_error prof = Some no_source")
      case True
      with prof run2 that [of None] show ?thesis by (simp add: fetched_def bnd_def [of "ret None"])
    next
      case False
      with run2 obtain m where "tg (message_request t) = Inr m" "?rest prof (Some m) ?d1 = (Inr r, d')"
        by (auto simp: bnd_Inr_iff [of "bnd (liftE _) _"] bnd_Inr_iff [of "liftE _"] liftE_def)
      with False prof that [of "Some m"] show ?thesis by (simp add: fetched_def)
    qed
    from run3 obtain obs d2 al d3 where obs: "build_observations i t msgs ?d1 = (Inr obs, d2)"
      and al: "?al d2 = (Inr al, d3)"
      and fin: "conclude cfg write uid v t prof (co_error prof \<noteq> Some no_source) obs (?notes prof msgs) al d3 = (Inr r, d')"
      unfolding bnd_Inr_iff by blast
    from obs obtain rows where rows: "d2 = ?d1\<lparr>observations := observations ?d1 @ rows, next_id := next_id ?d1 + length rows\<rparr>"
      "list_all2 (row_for i t) (messages_of msgs) rows" "obs = seen_of msgs rows" by (rule build_observations_run)
    have al': "apart d3 = apart d2 \<and> alias_ok al"
      using al by (auto split: if_splits dest: correlate_target_run simp: alias_ok_def)
    then have "investigations d3 = investigations ?d1" "observations d3 = observations d @ rows" "now d3 = now d" "reports d3 = reports d"
      by (auto simp: apart_def rows(1))
    moreover have "(co_error prof \<noteq> Some no_source) = (msgs \<noteq> None)" using f by (auto simp: fetched_def split: option.splits)
    moreover have "others_of i d3 = others_of i ?d1" using calculation(1) by (simp add: others_of_def)
    moreover have "map in_id (investigations d3) = map in_id (investigations d)"
      using calculation(1) by (simp add: change_inv_def map_update_where)
    ultimately show thesis using completed [OF v id Inr f rows(2) conjunct2 [OF al']] inv_get_rows [of d3 ?d1] v1 fin rows(3) by simp
  qed
qed

section \<open>Where the observations come from\<close>

text \<open>The message was written by the target: its own author field says so.\<close>

definition wrote :: "parsed_target \<Rightarrow> public_message \<Rightarrow> bool" where
  "wrote t m \<longleftrightarrow> (if is_username_target t then names (pm_author_username m) (pt_canonical t) = Inr True
     else (\<exists>n. int_of_str (pt_canonical t) = Inr n \<and> pm_author_id m = Some n))"

definition describes :: "parsed_target \<Rightarrow> public_message \<Rightarrow> observation \<Rightarrow> bool" where
  "describes t m v \<longleftrightarrow>
     classify_observation t (pm_author_username m) (pm_author_id m) (pm_text m) (pm_reply_to m \<noteq> None) None = Inr (ob_type v, ob_confidence v) \<and>
     (ob_type v = AUTHOR \<longleftrightarrow> wrote t m) \<and> 20 \<le> ob_confidence v \<and> ob_confidence v \<le> 92 \<and>
     ob_snippet v = (case pm_text m of Some (c # s) \<Rightarrow> Some (take 500 (c # s)) | _ \<Rightarrow> None) \<and>
     ob_observed_at v = pm_posted_at m \<and> ob_resource_url v = pm_reference m \<and> ob_message_ref v = None"

lemma row_describes:
  assumes "row_for iid t r row" "attrs_of m r" "map_of (nr_attributes r) ''message_id'' = None"
  shows "describes t m row \<and> ob_investigation_id row = iid"
proof -
  let ?a = "nr_attributes r"
  note a = assms(2) [unfolded attrs_of_def]
  have str: "str_attr k ?a = v" if "map_of ?a k = map_option JStr v" for k v
    using that by (cases v) (simp_all add: str_attr_def)
  have int: "int_attr k ?a = v" if "map_of ?a k = map_option JInt v" for k v
    using that by (cases v) (simp_all add: int_attr_def)
  have attrs: "str_attr ''text'' ?a = pm_text m" "str_attr ''author_username'' ?a = pm_author_username m" "int_attr ''author_id'' ?a = pm_author_id m"
      "str_attr ''source_url'' ?a = pm_reference m" "(dict_get ?a ''reply_to_message_id'' \<noteq> JNull) = (pm_reply_to m \<noteq> None)"
    using a str int by (auto simp: dict_get_def split: option.splits)
  have time: "coerce_dt (dict_get ?a ''posted_at'') = pm_posted_at m"
    using a by (cases "pm_posted_at m") (simp_all add: dict_get_def coerce_dt_def)
  have mref: "message_ref_of ?a = None" by (simp add: message_ref_of_def dict_get_def assms(3))
  from assms(1) obtain tc where tc: "classify_record t ?a = Inr tc" and row: "row = observation_row iid (observation_of tc ?a) (ob_id row)"
    by (auto simp: row_for_def)
  obtain ty conf where ty: "tc = (ty, conf)" by (cases tc)
  have c: "classify_observation t (pm_author_username m) (pm_author_id m) (pm_text m) (pm_reply_to m \<noteq> None) None = Inr (ty, conf)"
    using tc by (simp add: classify_record_def attrs ty)
  have f: "ob_type row = ty" "ob_confidence row = conf" "ob_investigation_id row = iid" "ob_snippet row = snippet_of ?a"
      "ob_observed_at row = pm_posted_at m" "ob_resource_url row = pm_reference m" "ob_message_ref row = None"
    by (subst row, simp add: observation_row_def observation_of_def ty attrs time mref)+
  have "snippet_of ?a = (case pm_text m of Some (c # s) \<Rightarrow> Some (take 500 (c # s)) | _ \<Rightarrow> None)" by (simp add: snippet_of_def attrs)
  with f c classify_author [OF c] show ?thesis by (auto simp: describes_def wrote_def)
qed

lemma searched_messages:
  assumes "tg_run src (message_request t) = Inr res" "r \<in> set (co_records res)" "nr_entity_type r = E_MESSAGE"
  obtains ms m where "ts_search src (strip (pt_canonical t)) 50 = Inr ms" "m \<in> set ms" "attrs_of m r"
    "map_of (nr_attributes r) ''message_id'' = None"
proof -
  from assms(1,2) obtain raw recs where raw: "tg_collect src (message_request t) = Inr raw" "tg_normalize raw = Inr recs" "r \<in> set recs"
  proof -
    from assms(1) have "run_collector ''telegram_public'' True kind_message_search (tg_collect src (message_request t)) tg_normalize tg_relationships = Inr res"
      by (simp add: tg_run_def message_request_def tg_supported_def)
    then obtain raw recs where "tg_collect src (message_request t) = Inr raw" "tg_normalize raw = Inr recs" "validate recs = Inr (co_records res)"
      using assms(2) by (auto simp: run_collector_def failed_result_def split: sum.splits exn.splits)
    moreover from this(3) have "set (co_records res) \<subseteq> set recs"
      using validate_from_spec by (fastforce simp: validate_def elim: list_emb_set)
    ultimately show thesis using that assms(2) by blast
  qed
  from tg_normalize_spec [OF raw(2)] obtain sy where sy: "synth_ok sy" "\<forall>r \<in> set recs. from_source (rb_kind raw) (rb_payload raw) sy r" by metis
  from message_from_source [OF sy(1) sy(2) [rule_format, OF raw(3)] assms(3)] obtain m where
    m: "Message_Item m \<in> set (rb_payload raw)" "attrs_of m r" "map_of (nr_attributes r) ''message_id'' = None" by metis
  have kinds: "kind_message_search \<noteq> kind_user" "kind_message_search \<noteq> kind_group" "kind_message_search \<noteq> kind_channel"
    by (simp_all add: kind_message_search_def kind_user_def kind_group_def kind_channel_def)
  from raw(1) m(1) obtain ms where "ts_search src (strip (pt_canonical t)) 50 = Inr ms" "m \<in> set ms"
    by (auto simp: tg_collect_def message_request_def collect_search_def tg_bundle_def kinds Let_def split: sum.splits bool.splits)
  with that m(2,3) show thesis by blast
qed

section \<open>Counts and confidence\<close>

lemma row_range: "row_for iid t r row \<Longrightarrow> 20 \<le> ob_confidence row \<and> ob_confidence row \<le> 92"
proof -
  assume "row_for iid t r row"
  then obtain tc where tc: "classify_record t (nr_attributes r) = Inr tc" "row = observation_row iid (observation_of tc (nr_attributes r)) (ob_id row)"
    by (auto simp: row_for_def)
  have "ob_confidence row = snd tc" by (subst tc(2)) (simp add: observation_row_def observation_of_def)
  with tc(1) show ?thesis by (cases tc) (auto simp: classify_record_def dest: classify_author)
qed

lemma seen_types:
  assumes "list_all2 (row_for iid t) rs rows"
  shows "map od_type (map2 (\<lambda>r row. dict_of (nr_attributes r) row) rs rows) = map ob_type rows"
    "map od_confidence (map2 (\<lambda>r row. dict_of (nr_attributes r) row) rs rows) = map ob_confidence rows"
  using assms by (induction rs rows rule: list_all2_induct) (simp_all add: dict_of_def)

lemma count_by_map: "length (filter (\<lambda>v. f v = x) xs) = length (filter (\<lambda>y. y = x) (map f xs))"
  by (induction xs) auto

lemma seen_counts:
  assumes "list_all2 (row_for iid t) (messages_of msgs) rows"
  shows "count_at ''observations'' (count_observations (seen_of msgs rows) @ extra) = int (length rows)"
    "count_at (observation_value ty) (count_observations (seen_of msgs rows) @ extra) = int (length (filter (\<lambda>v. ob_type v = ty) rows))"
proof -
  note types = seen_types(1) [OF assms, folded seen_of_def]
  have "length (seen_of msgs rows) = length rows" using types by (metis length_map)
  then show "count_at ''observations'' (count_observations (seen_of msgs rows) @ extra) = int (length rows)"
    by (simp add: count_at_def count_observations_def)
  have "count_type ty (seen_of msgs rows) = int (length (filter (\<lambda>v. ob_type v = ty) rows))"
    unfolding count_type_def count_by_map [of od_type] types count_by_map [of ob_type] ..
  then show "count_at (observation_value ty) (count_observations (seen_of msgs rows) @ extra) = int (length (filter (\<lambda>v. ob_type v = ty) rows))"
    by (cases ty) (simp_all add: count_at_def count_observations_def)
qed

lemma max_of_range: "(\<And>x. x \<in> set xs \<Longrightarrow> 0 \<le> x) \<Longrightarrow> max_of xs = Some m \<Longrightarrow> 0 \<le> m"
  using Max_in [of "set xs"] by (auto simp: max_of_def split: if_splits)

lemma max_of_None [simp]: "max_of xs = None \<longleftrightarrow> xs = []"
  by (simp add: max_of_def)

lemma overall_confidence_range:
  assumes "\<And>v. v \<in> set obs \<Longrightarrow> 0 \<le> od_confidence v" and "\<And>a. alias = Some a \<Longrightarrow> 0 \<le> a"
  shows "(case overall_confidence obs alias sc of None \<Rightarrow> \<not> sc \<and> alias = None | Some c \<Rightarrow> 0 \<le> c \<and> c \<le> 95 \<and> (sc \<or> alias \<noteq> None))"
proof (cases "\<not> sc \<and> alias = None")
  case False
  let ?mentions = "confidences {MENTION} obs"
  let ?signals = "confidences {AUTHOR, REPLY} obs @ (case alias of None \<Rightarrow> [] | Some a \<Rightarrow> [a]) @ (case max_of ?mentions of None \<Rightarrow> [] | Some m \<Rightarrow> [min 60 m])"
  have pos: "0 \<le> x" if "x \<in> set (confidences K obs)" for x K using that assms(1) by (auto simp: confidences_def)
  have "0 \<le> x" if "x \<in> set ?signals" for x
    using that pos assms(2) max_of_range [of ?mentions] by (auto split: option.splits)
  then have low: "0 \<le> m" if "max_of ?signals = Some m" for m using max_of_range that by blast
  have none: "alias = None" if "max_of ?signals = None" using that by (auto split: option.splits)
  have "overall_confidence obs alias sc = (case max_of ?signals of Some m \<Rightarrow> Some (min 95 m)
      | None \<Rightarrow> if obs \<noteq> [] then Some 20 else if sc then Some 0 else None)"
    using False by (cases "alias") (simp_all add: overall_confidence_def Let_def)
  then show ?thesis using False low none by (cases "max_of ?signals") (auto simp del: max_of_None)
qed (simp add: overall_confidence_def)

lemma limitations_facts: "set base_limitations \<subseteq> set (limitations_of cfg sc)" "source_limitation \<in> set (limitations_of cfg sc) \<longleftrightarrow> \<not> sc"
proof -
  have "source_limitation \<notin> set base_limitations" "source_limitation \<noteq> operator_limitation" by code_simp+
  then show "source_limitation \<in> set (limitations_of cfg sc) \<longleftrightarrow> \<not> sc" by (auto simp: limitations_of_def)
qed (simp add: limitations_of_def)

section \<open>A run that returns\<close>

lemma observed_iocs_returns:
  "(\<And>v. v \<in> set obs \<Longrightarrow> \<exists>hits. extract_iocs (case od_snippet v of None \<Rightarrow> [] | Some s \<Rightarrow> s) = Inr hits) \<Longrightarrow> \<exists>found. observed_iocs obs = Inr found"
proof -
  assume ok: "\<And>v. v \<in> set obs \<Longrightarrow> \<exists>hits. extract_iocs (case od_snippet v of None \<Rightarrow> [] | Some s \<Rightarrow> s) = Inr hits"
  have "\<exists>found. foldE (\<lambda>v acc. map_sum id (new_iocs acc) (extract_iocs (case od_snippet v of None \<Rightarrow> [] | Some s \<Rightarrow> s))) obs acc = Inr found" for acc
    using ok
  proof (induction obs arbitrary: acc)
    case (Cons v obs)
    from Cons.prems [of v] obtain hits where "extract_iocs (case od_snippet v of None \<Rightarrow> [] | Some s \<Rightarrow> s) = Inr hits" by auto
    with Cons.IH [of "new_iocs acc hits"] Cons.prems show ?case by simp
  qed simp
  then show ?thesis by (simp add: observed_iocs_def)
qed

lemma observe_records_returns:
  "(\<And>r. r \<in> set rs \<Longrightarrow> \<exists>x. classify_record t (nr_attributes r) = Inr x) \<Longrightarrow> \<exists>xs d'. observe_records iid t rs d = (Inr xs, d')"
proof (induction rs arbitrary: d)
  case (Cons r rs)
  from Cons.prems obtain x where x: "classify_record t (nr_attributes r) = Inr x" by (metis list.set_intros(1))
  obtain row d1 where row: "add_observation iid (observation_of x (nr_attributes r)) d = (Inr row, d1)"
    by (simp add: add_observation_def add_row_def Let_def)
  from Cons.IH [of d1] Cons.prems obtain xs d' where "observe_records iid t rs d1 = (Inr xs, d')" by auto
  with x row show ?case by (simp add: observe_record_def bnd_def liftE_def)
qed simp

lemma close_returns:
  assumes "inv_get uid e i = Inr (Some x)"
  shows "\<exists>r d'. bnd (attach_report write i) (\<lambda>rid. bnd (inv_set_status uid i I_COMPLETED None) (\<lambda>_. ret (g rid))) e = (Inr r, d')"
proof -
  obtain rid e1 where e1: "attach_report write i e = (Inr rid, case rid of None \<Rightarrow> e1 | Some k \<Rightarrow> change_inv i (\<lambda>v. v\<lparr>in_report_id := Some k\<rparr>) e1)"
    "beside e1 = beside e" by (rule attach_report_run [of "write" i e])
  then have "inv_get uid e1 i = Inr (Some x)" using assms inv_get_rows by (metis beside_def prod.inject)
  from set_status_run [OF this] set_status_run [OF inv_get_change [OF this, of "\<lambda>v. v\<lparr>in_report_id := Some (the rid)\<rparr>"]] e1(1)
  show ?thesis by (cases rid) (simp_all add: bnd_def)
qed

lemma conclude_returns:
  assumes "observed_iocs obs = Inr found" and v: "inv_get uid d (in_id v) = Inr (Some w)"
  shows "\<exists>r d'. conclude cfg write uid v t prof sc obs notes al d = (Inr r, d')"
proof -
  have "inv_get uid (change_inv (in_id v) (\<lambda>x. x\<lparr>in_confidence := c, in_summary := Some s\<rparr>) d) (in_id v) =
      Inr (Some (w\<lparr>in_confidence := c, in_summary := Some s\<rparr>))" for c s
    by (rule inv_get_change [OF v]) simp_all
  from close_returns [OF this] show ?thesis
    by (simp add: conclude_def assms(1) liftE_def Let_def bnd_def [of "\<lambda>d. (Inr (), _ d)"])
qed

text \<open>
  A run on a numeric target returns when the target parses, the source answers, and neither the
  author fields nor the texts of its messages make the classifier or the extraction raise.
\<close>

lemma investigation_returns:
  assumes "inv_get uid d i = Inr (Some v)" "parse_target (Some (in_target v)) = Inr t" "\<not> is_username_target t"
    and f: "fetched tg t prof msgs"
    and ok: "\<And>r. r \<in> set (messages_of msgs) \<Longrightarrow> (\<exists>x. classify_record t (nr_attributes r) = Inr x) \<and>
      (\<exists>hits. extract_iocs (case snippet_of (nr_attributes r) of None \<Rightarrow> [] | Some s \<Rightarrow> s) = Inr hits)"
  shows "\<exists>r d'. investigation_run cfg sha dumps tg ur write uid i d = (Inr r, d')"
proof -
  have id: "in_id v = i" using assms(1) by (auto dest: inv_get_Some)
  let ?d1 = "change_inv i (with_status (now d) I_RUNNING None) d"
  have v1: "inv_get uid ?d1 i = Inr (Some (with_status (now d) I_RUNNING None v))" by (rule inv_get_change [OF assms(1)]) simp_all
  have "\<exists>xs d'. build_observations i t msgs ?d1 = (Inr xs, d')"
    using observe_records_returns [of "messages_of msgs" t i ?d1] ok
    by (auto simp: build_observations_def messages_of_def split: option.splits)
  then obtain obs d2 where obs: "build_observations i t msgs ?d1 = (Inr obs, d2)" by blast
  then obtain rows where rows: "d2 = ?d1\<lparr>observations := observations ?d1 @ rows, next_id := next_id ?d1 + length rows\<rparr>"
    "list_all2 (row_for i t) (messages_of msgs) rows" "obs = seen_of msgs rows" by (rule build_observations_run)
  have "\<exists>hits. extract_iocs (case od_snippet x of None \<Rightarrow> [] | Some s \<Rightarrow> s) = Inr hits" if "x \<in> set obs" for x
  proof -
    from that rows(3) obtain r row where r: "(r, row) \<in> set (zip (messages_of msgs) rows)" "x = dict_of (nr_attributes r) row"
      by (auto simp: seen_of_def)
    then have "row_for i t r row" "r \<in> set (messages_of msgs)" using rows(2) by (auto simp: list_all2_iff dest: set_zip_leftD)
    then obtain tc where "row = observation_row i (observation_of tc (nr_attributes r)) (ob_id row)" by (auto simp: row_for_def)
    then have "od_snippet x = snippet_of (nr_attributes r)"
      by (simp add: r(2) dict_of_def) (metis observation.select_convs(8) observation_row_def observation_in.select_convs(8) observation_of_def)
    with ok [OF \<open>r \<in> set (messages_of msgs)\<close>] show ?thesis by simp
  qed
  then obtain found where found: "observed_iocs obs = Inr found" using observed_iocs_returns by blast
  have "inv_get uid d2 (in_id v) = Inr (Some (with_status (now d) I_RUNNING None v))"
    using v1 inv_get_rows [of d2 ?d1] by (simp add: rows(1) id)
  from conclude_returns [OF found this] id assms(3) obs f show ?thesis
    by (cases msgs) (simp_all add: investigation_run_def assms(1,2) set_status_run [OF assms(1)] bnd_def [of "\<lambda>d. (Inr (), _ d)"]
        investigate_def fetched_def liftE_def bnd_def Let_def)
qed
lemma narrative_nonempty: "narrative_text t counts sc op \<noteq> []"
  by (simp add: narrative_text_def)

lemma summary_shows:
  "get_list ''limitations'' (summary_json t counts n ls ns prof al found) = map JStr ls"
  "n \<noteq> [] \<Longrightarrow> narrative_of (summary_json t counts n ls ns prof al found) = n"
  by (auto simp: summary_json_def get_list_def json_get_def narrative_of_def neq_Nil_conv)

section \<open>Properties\<close>


text \<open>
  C36. A run that returns leaves the investigation in a final state, stamped with the time, and every other
  investigation as it was. It is FAILED exactly when the target does not parse, with the reason and
  without an observation. Otherwise it is COMPLETED: the counts are those of the stored observations,
  the confidence lies between 0 and 95 or is absent, which it is exactly when no source was configured and
  no alias was found, the standing limitations are part of the result, and so is, exactly then, the
  statement that nothing was observable.
\<close>

theorem investigation_outcome:
  assumes "investigation_run cfg sha dumps tg ur write uid i d = (Inr r, d')"
  shows "\<exists>v v' rows. inv_get uid d i = Inr (Some v) \<and> inv_get uid d' i = Inr (Some v') \<and> others_of i d' = others_of i d \<and>
    observations d' = observations d @ rows \<and> in_status v' = ir_status r \<and> in_completed_at v' = Some (now d) \<and>
    (case parse_target (Some (in_target v)) of
       Inl x \<Rightarrow> ir_status r = I_FAILED \<and> in_error v' = Some (''invalid target: '' @ exn_str x) \<and> rows = []
     | Inr t \<Rightarrow> ir_status r = I_COMPLETED \<and> in_confidence v' = ir_confidence r \<and>
         count_at ''observations'' (ir_counts r) = int (length rows) \<and>
         (\<forall>ty. count_at (observation_value ty) (ir_counts r) = int (length (filter (\<lambda>x. ob_type x = ty) rows))) \<and>
         (case ir_confidence r of
            None \<Rightarrow> source_limitation \<in> set (ir_limitations r) \<and> count_at ''aliases'' (ir_counts r) = 0
          | Some c \<Rightarrow> 0 \<le> c \<and> c \<le> 95 \<and> (source_limitation \<notin> set (ir_limitations r) \<or> 0 < count_at ''aliases'' (ir_counts r))) \<and>
         set base_limitations \<subseteq> set (ir_limitations r))"
  using assms
proof (cases rule: investigation_cases)
  case (refused v x)
  have "inv_get uid (change_inv i (with_status (now d) I_RUNNING None) d) i = Inr (Some (with_status (now d) I_RUNNING None v))"
    by (rule inv_get_change [OF refused(1)]) simp_all
  from inv_get_change [OF this, of "with_status (now d) I_FAILED (Some (''invalid target: '' @ exn_str x))"]
  have "inv_get uid d' i = Inr (Some (with_status (now d) I_FAILED (Some (''invalid target: '' @ exn_str x)) (with_status (now d) I_RUNNING None v)))"
    by (simp add: refused(5))
  then show ?thesis using refused
    by (intro exI [of _ v] exI [of _ "with_status (now d) I_FAILED (Some (''invalid target: '' @ exn_str x)) (with_status (now d) I_RUNNING None v)"]
        exI [of _ "[]"]) (simp add: refused_result_def, simp add: with_status_def)
next
  case (completed v t prof msgs rows d3 al)
  let ?obs = "seen_of msgs rows" and ?sc = "msgs \<noteq> None"
  have w: "inv_get uid d3 (in_id v) = Inr (Some (with_status (now d) I_RUNNING None v))" using completed by simp
  from conclude_run [OF completed(13) w] obtain found s rid where
    r: "r = concluded cfg v t ?sc ?obs al found rid" and d': "observations d' = observations d3" "others_of (in_id v) d' = others_of (in_id v) d3"
    "inv_get uid d' (in_id v) = Inr (Some (with_status (now d3) I_COMPLETED None
       ((case rid of None \<Rightarrow> id | Some k \<Rightarrow> in_report_id_update (\<lambda>_. Some k)) (summarised r s (with_status (now d) I_RUNNING None v)))))"
    by metis
  define v' where "v' = with_status (now d3) I_COMPLETED None
       ((case rid of None \<Rightarrow> id | Some k \<Rightarrow> in_report_id_update (\<lambda>_. Some k)) (summarised r s (with_status (now d) I_RUNNING None v)))"
  have v': "in_status v' = I_COMPLETED" "in_completed_at v' = Some (now d)" "in_confidence v' = ir_confidence r"
    using completed(8) by (cases rid; simp add: v'_def with_status_def summarised_def)+
  have conf: "ir_confidence r = overall_confidence ?obs (fst (snd al)) ?sc" "ir_limitations r = limitations_of cfg ?sc" "ir_status r = I_COMPLETED"
    by (simp_all add: r concluded_def Let_def)
  have "0 \<le> od_confidence x" if "x \<in> set ?obs" for x
  proof -
    have "od_confidence x \<in> set (map ob_confidence rows)" using that seen_types(2) [OF completed(5), folded seen_of_def] by (metis image_eqI set_map)
    then obtain k where "k < length rows" "od_confidence x = ob_confidence (rows ! k)" by (auto simp: in_set_conv_nth)
    with completed(5) row_range show ?thesis by (fastforce simp: list_all2_conv_all_nth)
  qed
  then have range: "(case ir_confidence r of None \<Rightarrow> \<not> ?sc \<and> fst (snd al) = None | Some c \<Rightarrow> 0 \<le> c \<and> c \<le> 95 \<and> (?sc \<or> fst (snd al) \<noteq> None))"
    unfolding conf using completed(6) by (intro overall_confidence_range) (auto simp: alias_ok_def in_range_def)
  have aliases: "count_at ''aliases'' (ir_counts r) = int (length (fst al))"
    by (simp add: r concluded_def Let_def count_at_def count_observations_def)
  have al: "(fst (snd al) = None) = (fst al = [])" using completed(6) by (auto simp: alias_ok_def split: option.splits)
  note counts = seen_counts [OF completed(5), where extra = "[(''aliases'', int (length (fst al))), (''iocs'', int (length found))]"]
  have n: "count_at ''observations'' (ir_counts r) = int (length rows)"
    "\<forall>ty. count_at (observation_value ty) (ir_counts r) = int (length (filter (\<lambda>x. ob_type x = ty) rows))"
    using counts by (simp_all add: r concluded_def Let_def)
  have c: "(case ir_confidence r of
            None \<Rightarrow> source_limitation \<in> set (ir_limitations r) \<and> count_at ''aliases'' (ir_counts r) = 0
          | Some c \<Rightarrow> 0 \<le> c \<and> c \<le> 95 \<and> (source_limitation \<notin> set (ir_limitations r) \<or> 0 < count_at ''aliases'' (ir_counts r)))"
    using range al limitations_facts(2) [of cfg ?sc] unfolding conf(2) aliases by (auto split: option.splits)
  show ?thesis
    using completed(1,2,3,7,9) d' v' n c conf(3) limitations_facts(1) [of cfg ?sc] unfolding v'_def [symmetric] conf(2) [symmetric]
    by (intro exI [of _ v] exI [of _ v'] exI [of _ rows]) simp
qed

text \<open>
  C37. What is stored says what was found: when a run attached a report, the user owns a completed
  report with that id whose summary is the narrative of the result, whose limitations and
  confidence are exactly those of the result, and whose authored messages are exactly the stored observations of
  that type.
\<close>

theorem investigation_report_stored:
  assumes run: "investigation_run cfg sha dumps tg ur write uid i d = (Inr r, d')" and k: "ir_report_id r = Some k"
    and ids: "distinct (map in_id (investigations d))"
  shows "\<exists>v rep c. inv_get uid d' i = Inr (Some v) \<and> in_report_id v = Some k \<and>
    rep \<in> set (reports d') \<and> rp_id rep = k \<and> rp_user_id rep = uid \<and> rp_status rep = T_COMPLETED \<and>
    rp_content rep = Some (content_dict c) \<and> rp_summary rep = Some (ir_narrative r) \<and>
    sn_claims (section_at ''limitations'' c) = map (\<lambda>x. claim_of x FACT) (ir_limitations r) \<and>
    dict_get (sn_data (section_at ''confidence'' c)) ''overall'' = json_of JInt (ir_confidence r) \<and>
    dict_get (sn_data (section_at ''public_message_activity'' c)) ''authored'' = JList (obs_rows {AUTHOR} (inv_observations i d'))"
  using run
proof (cases rule: investigation_cases)
  case (completed v t prof msgs rows d3 al)
  let ?w = "with_status (now d) I_RUNNING None v"
  have w: "inv_get uid d3 (in_id v) = Inr (Some ?w)" using completed by simp
  from conclude_run [OF completed(13) w] obtain found s e rid where
    r: "r = concluded cfg v t (msgs \<noteq> None) (seen_of msgs rows) al found rid" and
    s: "\<exists>ns. s = summary_json t (ir_counts r) (ir_narrative r) (ir_limitations r) ns (profile_of prof) (fst al) found" and
    e: "e = change_inv i (summarised r s) d3" and
    rid: "rid = (case generate_investigation_report write i e of (Inl x, _) \<Rightarrow> None | (Inr k, _) \<Rightarrow> Some k)" and
    d': "reports d' = reports (snd (generate_investigation_report write i e))" "observations d' = observations d3" and
    v': "inv_get uid d' i = Inr (Some (with_status (now d3) I_COMPLETED None ((case rid of None \<Rightarrow> id | Some k \<Rightarrow> in_report_id_update (\<lambda>_. Some k)) (summarised r s ?w))))"
    unfolding completed(2) by metis
  have "rid = Some k" using k by (simp add: r concluded_def Let_def)
  then obtain e' where gen: "generate_investigation_report write i e = (Inr k, e')" using rid by (auto split: prod.splits sum.splits)
  have "inv_get uid e i = Inr (Some (summarised r s ?w))"
    unfolding e using w [unfolded completed(2)] by (rule inv_get_change) (simp_all add: summarised_def)
  then have x: "summarised r s ?w \<in> set (investigations e)" "in_id (summarised r s ?w) = i" "in_user_id (summarised r s ?w) = uid"
    by (auto dest: inv_get_Some)
  have "distinct (map in_id (investigations e))"
    using ids completed(10) by (simp add: e change_inv_def map_update_where summarised_def)
  from get_by_id_in [OF this x(1)] x(2) have "get_by_id in_id (investigations e) i = Some (summarised r s ?w)" by simp
  from generated_report [OF gen this] x(2,3) obtain rep where rep: "rep \<in> set (reports e')" "rp_id rep = k" "rp_user_id rep = uid" "rp_status rep = T_COMPLETED"
    "rp_content rep = Some (content_dict (report_of (uid_text k) (summarised r s ?w) (inv_observations i e) (now e)))"
    "rp_summary rep = Some (narrative_of (summary_of (summarised r s ?w)))" by auto
  have sum: "summary_of (summarised r s ?w) = s" by (simp add: summary_of_def summarised_def)
  have "ir_narrative r \<noteq> []" by (simp add: r concluded_def Let_def narrative_nonempty)
  with s have shows_it: "get_list ''limitations'' s = map JStr (ir_limitations r)" "narrative_of s = ir_narrative r"
    by (auto simp: summary_shows)
  have obs: "inv_observations i e = inv_observations i d'" by (simp add: inv_observations_def d' e)
  let ?c = "report_of (uid_text k) (summarised r s ?w) (inv_observations i e) (now e)"
  have "dict_get (sn_data (section_at ''confidence'' ?c)) ''overall'' = json_of JInt (ir_confidence r)"
    by (simp add: report_of_def section_builders summarised_def)
  moreover have "sn_claims (section_at ''limitations'' ?c) = map (\<lambda>x. claim_of x FACT) (ir_limitations r)"
    by (simp add: report_limitations sum shows_it comp_def py_str_def)
  moreover have "in_report_id (with_status (now d3) I_COMPLETED None ((case rid of None \<Rightarrow> id | Some k \<Rightarrow> in_report_id_update (\<lambda>_. Some k)) (summarised r s ?w))) = Some k"
    by (simp add: \<open>rid = Some k\<close>)
  ultimately show ?thesis
    using v' rep report_rows(1) [of "uid_text k" "summarised r s ?w" "inv_observations i e" "now e"] unfolding d'(1) gen obs sum shows_it(2)
    by (intro exI [of _ "with_status (now d3) I_COMPLETED None ((case rid of None \<Rightarrow> id | Some k \<Rightarrow> in_report_id_update (\<lambda>_. Some k)) (summarised r s ?w))"]
        exI [of _ rep] exI [of _ ?c]) (simp add: obs)
qed (use k in \<open>simp add: refused_result_def\<close>)

section \<open>Witnesses\<close>

definition traced_message :: public_message where
  "traced_message = \<lparr>pm_message_id = 7, pm_chat_username = Some ''news'', pm_chat_id = None, pm_author_id = Some 12345,
     pm_author_username = None, pm_text = None, pm_posted_at = Some 5, pm_reply_to = None, pm_forwarded_from = None, pm_views = None,
     pm_reference = Some ''https://t.me/news/7''\<rparr>"

definition traced_source :: telegram_source where
  "traced_source = null_source\<lparr>ts_available := Inr True, ts_search := (\<lambda>_ _. Inr [traced_message])\<rparr>"

definition no_operator :: operator_settings where
  "no_operator = \<lparr>os_session = None, os_api_id = None, os_api_hash = None\<rparr>"

definition traced_investigation :: investigation where
  "traced_investigation = sample_investigation\<lparr>in_status := I_QUEUED, in_confidence := None, in_summary := None\<rparr>"

definition traced_db :: db where
  "traced_db = empty_db\<lparr>investigations := [traced_investigation], next_id := 2\<rparr>"

definition traced_target :: parsed_target where
  "traced_target = projr (parse_target (Some ''12345''))"

definition traced_profile :: collect_result where
  "traced_profile = projr (tg_run traced_source (profile_request traced_target))"

definition traced_messages :: collect_result where
  "traced_messages = projr (tg_run traced_source (message_request traced_target))"

abbreviation traced_run :: "telegram_source \<Rightarrow> (db, investigation_result) action" where
  "traced_run src \<equiv> investigation_run no_operator id (\<lambda>_. []) (tg_run src) (\<lambda>_. Inl (ValueError ''unused'')) (\<lambda>_. Inr []) 0 1"

lemma traced_parsed: "parse_target (Some (in_target traced_investigation)) = Inr traced_target" by code_simp

lemma traced_row: "inv_get 0 traced_db 1 = Inr (Some traced_investigation)"
  by (simp add: inv_get_def scalar_one_or_none_def traced_db_def traced_investigation_def sample_investigation_def)

lemma traced_returns: "\<exists>r d'. traced_run traced_source traced_db = (Inr r, d')"
proof (rule investigation_returns [OF traced_row traced_parsed])
  show "\<not> is_username_target traced_target" by code_simp
  have "tg_run traced_source (profile_request traced_target) = Inr traced_profile" "co_error traced_profile \<noteq> Some no_source"
    "tg_run traced_source (message_request traced_target) = Inr traced_messages" by code_simp+
  then show "fetched (tg_run traced_source) traced_target traced_profile (Some traced_messages)" by (simp add: fetched_def)
  have "list_all (\<lambda>r. classify_record traced_target (nr_attributes r) = Inr (AUTHOR, 92) \<and> snippet_of (nr_attributes r) = None)
      (messages_of (Some traced_messages))" "extract_iocs [] = Inr []" by code_simp+
  then show "(\<exists>x. classify_record traced_target (nr_attributes r) = Inr x) \<and>
      (\<exists>hits. extract_iocs (case snippet_of (nr_attributes r) of None \<Rightarrow> [] | Some s \<Rightarrow> s) = Inr hits)"
    if "r \<in> set (messages_of (Some traced_messages))" for r
    using that by (force simp: list_all_iff)
qed


theorem investigation_outcome_witness:
  "\<exists>r d'. traced_run traced_source traced_db = (Inr r, d') \<and> ir_status r = I_COMPLETED \<and>
     count_at ''observations'' (ir_counts r) = int (length (observations d'))"
proof -
  obtain r d' where run: "traced_run traced_source traced_db = (Inr r, d')" using traced_returns by blast
  have "observations traced_db = []" by (simp add: traced_db_def empty_db_def)
  with investigation_outcome [OF run] traced_row traced_parsed run show ?thesis by auto
qed

text \<open>Without a source nothing is observed, and the report says so.\<close>

definition unseen_profile :: collect_result where
  "unseen_profile = projr (tg_run null_source (profile_request traced_target))"

lemma unseen_reported: "\<exists>r d'. traced_run null_source traced_db = (Inr r, d') \<and> ir_report_id r = Some 2"
proof -
  have src: "tg_run null_source (profile_request traced_target) = Inr unseen_profile" "co_error unseen_profile = Some no_source"
    "\<not> is_username_target traced_target" by code_simp+
  then have f: "fetched (tg_run null_source) traced_target unseen_profile None" by (simp add: fetched_def)
  have "\<exists>r d'. traced_run null_source traced_db = (Inr r, d')"
    by (rule investigation_returns [OF traced_row traced_parsed src(3) f]) (simp add: messages_of_def)
  then obtain r d' where run: "traced_run null_source traced_db = (Inr r, d')" by blast
  have id: "in_id traced_investigation = 1" by (simp add: traced_investigation_def sample_investigation_def)
  let ?w = "with_status (now traced_db) I_RUNNING None traced_investigation"
  let ?d = "change_inv 1 (with_status (now traced_db) I_RUNNING None) traced_db"
  have w: "inv_get 0 ?d (in_id traced_investigation) = Inr (Some ?w)"
    unfolding id by (rule inv_get_change [OF traced_row]) simp_all
  have "conclude no_operator (\<lambda>_. Inr []) 0 traced_investigation traced_target unseen_profile False [] (co_notes unseen_profile) ([], None, []) ?d = (Inr r, d')"
    using run src by (simp add: investigation_run_def traced_row set_status_run [OF traced_row] bnd_def traced_parsed investigate_def
        liftE_def build_observations_def del: One_nat_def)
  from conclude_run [OF this w] obtain found s e rid where
    r: "r = concluded no_operator traced_investigation traced_target False [] ([], None, []) found rid" and
    s: "\<exists>ns. s = summary_json traced_target (ir_counts r) (ir_narrative r) (ir_limitations r) ns (profile_of unseen_profile) [] found" and
    e: "e = change_inv 1 (summarised r s) ?d" and
    rid: "rid = (case generate_investigation_report (\<lambda>_. Inr []) 1 e of (Inl x, _) \<Rightarrow> None | (Inr k, _) \<Rightarrow> Some k)"
    unfolding id by (metis fst_conv snd_conv)
  have x: "get_by_id in_id (investigations e) 1 = Some (summarised r s ?w)"
    by (simp add: e change_inv_def update_where_def traced_db_def get_by_id_def id summarised_def)
  have n: "ir_narrative r = narrative_text traced_target [(''aliases'', 0)] False False"
    by (simp add: r concluded_def Let_def narrative_text_def count_at_def count_observations_def operator_configured_def)
  have "assert_safe_phrasing (narrative_text traced_target [(''aliases'', 0)] False False) = Inr ()" by code_simp
  moreover have "narrative_of (summary_of (summarised r s ?w)) = ir_narrative r"
    using s by (auto simp: summary_of_def summarised_def n summary_shows narrative_nonempty)
  ultimately have safe: "assert_safe_phrasing (narrative_of (summary_of (summarised r s ?w))) = Inr ()" by (simp add: n)
  have "next_id e = 2" "reports e = []" by (simp_all add: e traced_db_def empty_db_def)
  with generate_returns [OF x safe, of "\<lambda>_. Inr []"] have "rid = Some 2" by (auto simp: rid)
  with run r show ?thesis by (simp add: concluded_def Let_def)
qed

theorem investigation_report_stored_witness:
  "\<exists>r d' rep c. traced_run null_source traced_db = (Inr r, d') \<and> rep \<in> set (reports d') \<and> rp_id rep = 2 \<and>
     rp_content rep = Some (content_dict c) \<and> sn_claims (section_at ''limitations'' c) = map (\<lambda>x. claim_of x FACT) (ir_limitations r)"
proof -
  obtain r d' where run: "traced_run null_source traced_db = (Inr r, d')" "ir_report_id r = Some 2" using unseen_reported by blast
  have "distinct (map in_id (investigations traced_db))" by (simp add: traced_db_def)
  from investigation_report_stored [OF run this] run(1) show ?thesis by blast
qed

end
