(* ===== verification/ReportBuilder.thy ===== *)
theory ReportBuilder
  imports Investigation Timeline Graph
begin

text \<open>
  \<open>reports/builder.py\<close> and \<open>reports/service.py\<close>: the dossier of a target, assembled from the graph, and its
  generation. A query without an order gives the rows in the order of the table. \<open>dumps\<close> gives the
  text in which a value is stored, \<open>write\<close> stands for the files and the PDF library.
\<close>

section \<open>Reading the graph\<close>

definition msg_sample :: nat where "msg_sample = 25"
definition timeline_cap :: nat where "timeline_cap = 120"
definition evidence_cap :: nat where "evidence_cap = 300"

definition rows_in :: "('r \<Rightarrow> uid) \<Rightarrow> 'r list \<Rightarrow> entity_type \<Rightarrow> (entity_type \<times> uid) list \<Rightarrow> 'r list" where
  "rows_in rid t et resolved = filter (\<lambda>r. (et, rid r) \<in> set resolved) t"

definition latest_field :: "db \<Rightarrow> entity_type \<Rightarrow> uid \<Rightarrow> string \<Rightarrow> json \<times> string list" where
  "latest_field d et i fld =
     (case latest_value et i fld d of
        None \<Rightarrow> (JNull, [])
      | Some v \<Rightarrow> (case ev_value v of None \<Rightarrow> JNull | Some j \<Rightarrow> j, [uid_text (ev_id v)]))"

definition entity_evidence :: "db \<Rightarrow> entity_type \<times> uid \<Rightarrow> evidence list" where
  "entity_evidence d e = evidence_for_entity (fst e) (snd e) evidence_cap d"

definition all_evidence :: "db \<Rightarrow> (entity_type \<times> uid) list \<Rightarrow> evidence list" where
  "all_evidence d resolved = concat (map (entity_evidence d) resolved)"

section \<open>Target and accounts\<close>

text \<open>What a section method adds: the key of its section, the claims and the data.\<close>

type_synonym report_part = "string \<times> claim list \<times> (string \<times> json) list"

text \<open>No code sets the notes of a target.\<close>

definition target_information :: "target \<Rightarrow> (entity_type \<times> uid) list \<Rightarrow> report_part" where
  "target_information t resolved = (''target_information'',
     [claim_of (''Investigation target: '' @ tg_value t @ '' ('' @ target_kind_value (tg_kind t) @ '').'') FACT] @
       (if resolved = [] then [claim_of ''No public graph entities have been resolved to this target yet.'' UNKNOWN_CLAIM] else []),
     [(''kind'', JStr (target_kind_value (tg_kind t))), (''value'', JStr (tg_value t)), (''label'', opt_json (tg_label t)), (''notes'', JNull),
      (''resolved_entities'', JList (map (\<lambda>e. JStr (entity_ref e)) resolved)), (''created_at'', JStr (isoformat (tg_created_at t)))])"

definition account_fields :: "telegram_account \<Rightarrow> (string \<times> json) list" where
  "account_fields a = [(''display_name'', opt_json (ta_display_name a)), (''bio'', opt_json (ta_bio a)),
     (''is_verified'', JBool (ta_is_verified a)), (''is_scam'', JBool (ta_is_scam a))]"

text \<open>The latest evidence of a field, else the column, and the evidence it rests on.\<close>

definition observed_field :: "db \<Rightarrow> telegram_account \<Rightarrow> string \<times> json \<Rightarrow> string \<times> json \<times> string list" where
  "observed_field d a kv = (let (v, refs) = latest_field d E_TELEGRAM_ACCOUNT (ta_id a) (fst kv)
     in (fst kv, if v \<noteq> JNull then v else snd kv, refs))"

definition account_observed :: "db \<Rightarrow> telegram_account \<Rightarrow> (string \<times> json \<times> string list) list" where
  "account_observed d a = map (observed_field d a) (account_fields a)"

text \<open>\<open>observed in (None, '', False)\<close>; zero equals \<open>False\<close>.\<close>

definition nothing_shown :: "json \<Rightarrow> bool" where
  "nothing_shown v \<longleftrightarrow> v = JNull \<or> v = JStr [] \<or> v = JBool False \<or> v = JInt 0"

definition profile_claim :: "string \<times> json \<times> string list \<Rightarrow> claim" where
  "profile_claim x = (claim_of (''Public profile '' @ replace_char CHR ''_'' '' '' (fst x) @ '': '' @ py_str (fst (snd x))) FACT)\<lparr>cl_refs := snd (snd x)\<rparr>"

definition account_block :: "db \<Rightarrow> telegram_account \<Rightarrow> json" where
  "account_block d a = JObj ([(''id'', id_json (ta_id a)), (''telegram_id'', json_of JInt (ta_telegram_id a)), (''username'', opt_json (ta_username a))] @
     map (\<lambda>x. (fst x, fst (snd x))) (account_observed d a))"

definition account_claims :: "db \<Rightarrow> telegram_account \<Rightarrow> claim list" where
  "account_claims d a = map profile_claim (filter (\<lambda>x. \<not> nothing_shown (fst (snd x))) (account_observed d a))"

definition telegram_presence :: "db \<Rightarrow> telegram_account list \<Rightarrow> report_part" where
  "telegram_presence d as =
     (if as = [] then (''public_telegram_presence'', [claim_of ''No public Telegram account observed.'' UNKNOWN_CLAIM], [])
      else (''public_telegram_presence'',
        concat (map (account_claims d) as) @
          [claim_of (''A known Telegram ID does not grant access to private groups, chats, '' @ ''or messages. Only public data is reported.'') FACT],
        [(''accounts'', JList (map (account_block d) as))]))"

section \<open>Chats and messages\<close>

definition message_count :: "db \<Rightarrow> entity_type \<times> uid \<Rightarrow> nat" where
  "message_count d e = length (filter (\<lambda>m. ms_source_type m = fst e \<and> ms_source_id m = snd e) (messages d))"

definition chat_item :: "db \<Rightarrow> entity_type \<Rightarrow> telegram_chat \<Rightarrow> json" where
  "chat_item d et c = JObj [(''id'', id_json (tc_id c)), (''title'', opt_json (tc_title c)), (''username'', opt_json (tc_username c)),
     (''telegram_id'', json_of JInt (tc_telegram_id c)), (''participants_count'', json_of JInt (tc_participants_count c)),
     (''observed_messages'', JInt (int (message_count d (et, tc_id c))))]"

definition chat_claim :: "db \<Rightarrow> entity_type \<Rightarrow> telegram_chat \<Rightarrow> claim" where
  "chat_claim d et c = claim_of (pick_label [tc_title c, tc_username c] (take 8 (uid_text (tc_id c))) @ '': '' @
     show_nat (message_count d (et, tc_id c)) @ '' public message(s) collected.'') FACT"

definition chats :: "db \<Rightarrow> string \<Rightarrow> entity_type \<Rightarrow> telegram_chat list \<Rightarrow> report_part" where
  "chats d key et cs =
     (if cs = [] then (key, [claim_of (''No public '' @ last (split_char CHR ''_'' key) @ '' observed.'') UNKNOWN_CLAIM], [])
      else (key, map (chat_claim d et) cs, [(''items'', JList (map (chat_item d et) cs))]))"

definition sampled :: "db \<Rightarrow> uid list \<Rightarrow> message list" where
  "sampled d ids = take msg_sample (desc_time ms_posted_at (filter (\<lambda>m. ms_source_id m \<in> set ids) (messages d)))"

definition message_item :: "message \<Rightarrow> json" where
  "message_item m = JObj [(''message_id'', JInt (ms_message_id m)),
     (''text'', JStr (case ms_text m of None \<Rightarrow> [] | Some s \<Rightarrow> take 500 s)), (''author_username'', opt_json (ms_author_username m)),
     (''posted_at'', time_json (ms_posted_at m)), (''source_url'', opt_json (ms_source_url m))]"

definition message_section :: "db \<Rightarrow> uid list \<Rightarrow> report_part" where
  "message_section d ids = (let rows = sampled d ids in
     (''public_messages'',
      claim_of (show_nat (length rows) @ '' public message(s) sampled (of the collected corpus).'') FACT #
        (if rows = [] then [claim_of ''No public messages have been collected for this target.'' UNKNOWN_CLAIM] else []),
      [(''sample'', JList (map message_item rows))]))"

section \<open>Other platforms\<close>

definition correlation_of :: "db \<Rightarrow> external_account \<Rightarrow> evidence option" where
  "correlation_of d a = latest_value E_EXTERNAL_ACCOUNT (ea_id a) ''identity_correlation'' d"

definition value_text :: "(json \<Rightarrow> string) \<Rightarrow> evidence \<Rightarrow> json" where
  "value_text dumps v = json_of (\<lambda>j. JStr (dumps j)) (ev_value v)"

definition external_block :: "(json \<Rightarrow> string) \<Rightarrow> db \<Rightarrow> external_account \<Rightarrow> json" where
  "external_block dumps d a = JObj [(''platform'', JStr (ea_platform a)), (''identifier'', JStr (ea_identifier a)),
     (''profile_url'', opt_json (ea_profile_url a)), (''display_name'', opt_json (ea_display_name a)),
     (''correlation'', (case correlation_of d a of None \<Rightarrow> JNull | Some v \<Rightarrow> value_text dumps v)),
     (''correlation_confidence'', json_of (\<lambda>v. JInt (ev_confidence v)) (correlation_of d a))]"

definition external_claim :: "db \<Rightarrow> external_account \<Rightarrow> claim" where
  "external_claim d a = \<lparr>cl_text = ''Account with the same handle found on '' @ ea_platform a @ '': '' @
       pick_label [ea_profile_url a] (ea_identifier a) @ ''.'', cl_assertion = assertion_value INFERENCE,
     cl_refs = take 5 (map (\<lambda>v. uid_text (ev_id v)) (entity_evidence d (E_EXTERNAL_ACCOUNT, ea_id a))),
     cl_confidence = map_option ev_confidence (correlation_of d a)\<rparr>"

definition username_intelligence :: "(json \<Rightarrow> string) \<Rightarrow> db \<Rightarrow> external_account list \<Rightarrow> report_part" where
  "username_intelligence dumps d as =
     (if as = [] then (''username_intelligence'', [claim_of ''No external accounts sharing this handle were discovered.'' UNKNOWN_CLAIM], [])
      else (''username_intelligence'',
        map (external_claim d) as @
          [claim_of (''A matching username is not proof of a shared identity. Each entry is a '' @
             ''potential match supported only by the public evidence listed.'') FACT],
        [(''accounts'', JList (map (external_block dumps d) as))]))"

definition website_edges :: "db \<Rightarrow> entity_type \<times> uid \<Rightarrow> relationship list" where
  "website_edges d e = filter (\<lambda>r. edge_source r = e \<and> (rel_ty r = ACCOUNT_LINKED_TO_WEBSITE \<or> rel_ty r = DOMAIN_REFERENCED_BY_ACCOUNT)) (relationships d)"

definition website_item :: "relationship \<Rightarrow> json" where
  "website_item r = JObj [(''from'', JStr (entity_ref (edge_source r))), (''to'', JStr (entity_ref (edge_target r))),
     (''relationship'', JStr (rel_value (rel_ty r))), (''confidence'', JInt (rel_confidence r))]"

definition external_osint :: "db \<Rightarrow> (entity_type \<times> uid) list \<Rightarrow> report_part" where
  "external_osint d resolved = (let links = concat (map (website_edges d) resolved) in
     (''external_osint'',
      [if links \<noteq> [] then claim_of (show_nat (length links) @ '' public website/domain link(s) associated with target.'') INFERENCE
       else claim_of ''No linked public websites or domains found.'' UNKNOWN_CLAIM],
      [(''linked'', JList (map website_item links))]))"

definition found_iocs :: "db \<Rightarrow> uid list \<Rightarrow> ioc list" where
  "found_iocs d ids =
     (let msgs = map ms_id (filter (\<lambda>m. ms_source_id m \<in> set ids) (messages d));
          found = map rel_target_id (filter (\<lambda>r. rel_source_type r = E_MESSAGE \<and> rel_source_id r \<in> set msgs \<and> rel_target_type r = E_IOC) (relationships d))
      in filter (\<lambda>i. ioc_id i \<in> set found) (iocs d))"

definition times_sign :: string where
  "times_sign = [CHR 0xD7]"

definition ioc_section :: "db \<Rightarrow> uid list \<Rightarrow> report_part" where
  "ioc_section d ids =
     (let found = found_iocs d ids; by_type = fold (\<lambda>i. bump (ioc_value (ioc_ty i))) found [] in
      (''ioc'',
       [if found \<noteq> [] then claim_of (show_nat (length found) @ '' indicator(s) extracted from public messages: '' @
            join '', '' (map (\<lambda>(k, n). k @ times_sign @ show_nat n) (sort_key fst by_type))) FACT
        else claim_of ''No indicators of compromise extracted.'' UNKNOWN_CLAIM],
       [(''items'', JList (map (\<lambda>i. JObj [(''type'', JStr (ioc_value (ioc_ty i))), (''value'', JStr (ioc_val i)),
           (''times_observed'', JInt (int (ioc_times_observed i)))]) found)),
        (''by_type'', JObj (map (\<lambda>(k, n). (k, JInt (int n))) by_type))]))"

section \<open>Timeline and graph\<close>

definition year_of :: "time \<Rightarrow> int" where
  "year_of t = fst (days_to_date (t div 86400))"

definition event_dict :: "timeline_event \<Rightarrow> json" where
  "event_dict e = JObj [(''when'', JStr (isoformat (te_when e))), (''year'', JInt (year_of (te_when e))), (''kind'', JStr (te_kind e)),
     (''title'', JStr (te_title e)), (''source'', opt_json (te_source e)), (''entity_ref'', opt_json (te_entity_ref e)),
     (''evidence_id'', json_of id_json (te_evidence_id e))]"

definition by_year :: "timeline_event list \<Rightarrow> (int \<times> json list) list" where
  "by_year es = fold (\<lambda>e ys. AList.update (year_of (te_when e)) (case map_of ys (year_of (te_when e)) of None \<Rightarrow> [event_dict e] | Some xs \<Rightarrow> xs @ [event_dict e]) ys) es []"

definition timeline_section :: "db \<Rightarrow> uid \<Rightarrow> report_part" where
  "timeline_section d t = (let tl = timeline_for_target t d in
     (''timeline'', [claim_of (show_nat (length (tl_events tl)) @ '' dated public event(s) on the timeline.'') FACT],
      [(''by_year'', JObj (map (\<lambda>(y, xs). (show_int y, JList (take timeline_cap xs))) (by_year (tl_events tl)))),
       (''truncated'', JBool (tl_truncated tl))]))"

definition graph_dict :: "graph_view \<Rightarrow> (string \<times> json) list" where
  "graph_dict v = [(''root'', JStr (entity_ref (gv_root v))), (''truncated'', JBool (gv_truncated v)),
     (''nodes'', JList (map (\<lambda>n. JObj [(''id'', JStr (entity_ref (gn_entity n))), (''type'', JStr (entity_value (fst (gn_entity n)))),
        (''label'', JStr (gn_label n)), (''attributes'', JObj (gn_attributes n))]) (gv_nodes v))),
     (''edges'', JList (map (\<lambda>g. JObj [(''source'', JStr (entity_ref (ge_source g))), (''target'', JStr (entity_ref (ge_target g))),
        (''type'', JStr (rel_value (ge_type g))), (''confidence'', JInt (ge_confidence g)),
        (''observation_count'', JInt (int (ge_observation_count g))), (''first_seen'', JStr (isoformat (ge_first_seen g))),
        (''last_seen'', JStr (isoformat (ge_last_seen g)))]) (gv_edges v)))]"

definition graph_section :: "db \<Rightarrow> uid \<Rightarrow> report_part" where
  "graph_section d t = (let v = graph_for_target t 2 80 d in
     (''entity_graph'', [claim_of (show_nat (length (gv_nodes v)) @ '' entities and '' @ show_nat (length (gv_edges v)) @
       '' relationships in the '' @ ''target's neighbourhood.'') FACT], graph_dict v))"

section \<open>Evidence, confidence, times\<close>

definition evidence_item :: "evidence \<Rightarrow> json" where
  "evidence_item v = JObj [(''id'', id_json (ev_id v)), (''entity'', JStr (entity_ref (ev_entity_type v, ev_entity_id v))),
     (''field'', opt_json (ev_field v)), (''source'', JStr (ev_source v)), (''reference'', opt_json (ev_reference v)),
     (''observed_at'', time_json (ev_observed_at v)), (''collected_at'', JStr (isoformat (ev_collected_at v))),
     (''confidence'', JInt (ev_confidence v)), (''extraction_method'', opt_json (ev_extraction_method v))]"

definition evidence_section :: "db \<Rightarrow> (entity_type \<times> uid) list \<Rightarrow> report_part" where
  "evidence_section d resolved = (let rows = take evidence_cap (all_evidence d resolved) in
     (''evidence'', [claim_of (show_nat (length rows) @ '' evidence record(s) support this report.'') FACT],
      [(''items'', JList (map evidence_item rows))]))"

definition correlations :: "db \<Rightarrow> external_account list \<Rightarrow> (string \<times> evidence) list" where
  "correlations d as = concat (map (\<lambda>a. case correlation_of d a of None \<Rightarrow> [] | Some v \<Rightarrow> [(ea_platform a, v)]) as)"

definition score_claim :: "string \<times> evidence \<Rightarrow> claim" where
  "score_claim x = (claim_of (fst x @ '': '' @ show_int (ev_confidence (snd x)) @ ''% potential-match confidence.'') INFERENCE)\<lparr>cl_confidence := Some (ev_confidence (snd x))\<rparr>"

definition confidence_section :: "(json \<Rightarrow> string) \<Rightarrow> db \<Rightarrow> external_account list \<Rightarrow> report_part" where
  "confidence_section dumps d as = (let scores = correlations d as in
     (''confidence_scores'',
      or_claims (map score_claim scores) (claim_of ''No correlation confidence scores computed.'' UNKNOWN_CLAIM),
      [(''correlations'', JList (map (\<lambda>(p, v). JObj [(''platform'', JStr p), (''score'', JInt (ev_confidence v)), (''detail'', value_text dumps v)]) scores))]))"

text \<open>The last collection per source: the texts are compared.\<close>

definition last_by_source :: "evidence list \<Rightarrow> (string \<times> string) list" where
  "last_by_source rows = fold (\<lambda>v m. let t = isoformat (ev_collected_at v) in
     case map_of m (ev_source v) of
       None \<Rightarrow> AList.update (ev_source v) t m
     | Some s \<Rightarrow> if s < t then AList.update (ev_source v) t m else m) rows []"

definition timestamps :: "db \<Rightarrow> (entity_type \<times> uid) list \<Rightarrow> report_part" where
  "timestamps d resolved =
     (let rows = all_evidence d resolved; times = map ev_collected_at rows in
      if rows = [] then (''collection_timestamps'', [claim_of ''No collection timestamps available.'' UNKNOWN_CLAIM], [])
      else (''collection_timestamps'',
        [claim_of (''Evidence collected between '' @ isoformat (Min (set times)) @ '' and '' @ isoformat (Max (set times)) @ ''.'') FACT],
        [(''first_collected'', JStr (isoformat (Min (set times)))), (''last_collected'', JStr (isoformat (Max (set times)))),
         (''last_by_source'', JObj (map (\<lambda>(s, t). (s, JStr t)) (last_by_source rows)))]))"

section \<open>Limitations and summary\<close>

definition dossier_limits :: "string option \<Rightarrow> bool \<Rightarrow> bool \<Rightarrow> bool \<Rightarrow> string list" where
  "dossier_limits operator none_resolved no_account no_chat =
     [''Only publicly accessible data and Telegram Bot API data was used.'',
      ''No private groups, chats, messages, sessions, or credentials were accessed.'',
      ''Username matches across platforms are potential matches, not confirmed identity.''] @
     (if none_resolved then [''No graph entities resolved to the target '' @ em_dash @ '' the report is near-empty.''] else []) @
     (if no_account then [''No public Telegram account was located for this handle.''] else []) @
     (if no_chat then [''No public channel or group activity was collected.''] else []) @
     (if is_set operator then []
      else [''No authorized operator account is configured; message history for chats the '' @ ''bot is not in could not be read.''])"

definition dossier_limitations :: "string list \<Rightarrow> report_part" where
  "dossier_limitations limits = (''limitations'', map (\<lambda>x. claim_of x FACT) limits, [(''items'', JList (map JStr limits))])"

definition dossier_summary :: "nat \<Rightarrow> nat \<Rightarrow> nat \<Rightarrow> nat \<Rightarrow> string" where
  "dossier_summary accounts channels groups externals =
     (let parts = (if accounts = 0 then [] else [show_nat accounts @ '' public Telegram account(s)'']) @
        (if channels = 0 \<and> groups = 0 then [] else [show_nat channels @ '' channel(s) / '' @ show_nat groups @ '' group(s) with public activity'']) @
        (if externals = 0 then [] else [show_nat externals @ '' same-handle account(s) on other public platforms''])
      in ''This report consolidates public OSINT for the target. '' @
         (if parts = [] then ''No public presence was located.'' else ''Observed: '' @ join ''; '' parts @ ''.''))"

definition executive_summary :: "string \<Rightarrow> report_part" where
  "executive_summary summary = (''executive_summary'',
     [claim_of summary INFERENCE,
      claim_of (''All findings are supported by the evidence in section 12 and are '' @ ''labelled FACT / INFERENCE / UNKNOWN.'') FACT],
     [(''text'', JStr summary)])"

section \<open>The dossier\<close>

definition empty_dossier :: "string \<Rightarrow> target \<Rightarrow> time \<Rightarrow> report_content" where
  "empty_dossier rid t at_time = \<lparr>rc_report_id = rid, rc_title = ''OSINT report '' @ em_dash @ '' '' @ tg_value t,
     rc_target = [(''id'', id_json (tg_id t)), (''kind'', JStr (target_kind_value (tg_kind t))), (''value'', JStr (tg_value t)), (''label'', opt_json (tg_label t))],
     rc_generated_at = at_time, rc_sections = []\<rparr>"

definition dossier_parts :: "(json \<Rightarrow> string) \<Rightarrow> string option \<Rightarrow> target \<Rightarrow> db \<Rightarrow> report_part list" where
  "dossier_parts dumps operator t d =
     (let resolved = resolved_entities (tg_id t) d;
          accounts = rows_in ta_id (telegram_accounts d) E_TELEGRAM_ACCOUNT resolved;
          channels = rows_in tc_id (telegram_channels d) E_TELEGRAM_CHANNEL resolved;
          groups = rows_in tc_id (telegram_groups d) E_TELEGRAM_GROUP resolved;
          externals = rows_in ea_id (external_accounts d) E_EXTERNAL_ACCOUNT resolved;
          containers = map tc_id (channels @ groups)
      in [target_information t resolved, telegram_presence d accounts, chats d ''public_groups'' E_TELEGRAM_GROUP groups,
          chats d ''public_channels'' E_TELEGRAM_CHANNEL channels, message_section d containers, username_intelligence dumps d externals,
          external_osint d resolved, ioc_section d containers, timeline_section d (tg_id t), graph_section d (tg_id t),
          evidence_section d resolved, confidence_section dumps d externals, timestamps d resolved,
          dossier_limitations (dossier_limits operator (resolved = []) (accounts = []) (channels = [] \<and> groups = [])),
          executive_summary (dossier_summary (length accounts) (length channels) (length groups) (length externals))])"

definition build_dossier :: "(json \<Rightarrow> string) \<Rightarrow> string option \<Rightarrow> string \<Rightarrow> target \<Rightarrow> db \<Rightarrow> report_content" where
  "build_dossier dumps operator rid t d =
     fold (\<lambda>(k, cs, data). add_to k cs data) (dossier_parts dumps operator t d) (empty_dossier rid t (now d))"

section \<open>Generation\<close>

record generation_result =
  gr_report_id :: uid
  gr_status :: string
  gr_artifacts :: "(string \<times> string) list"
  gr_summary :: "string option"
  gr_section_count :: nat
  gr_notes :: "string list"

definition all_formats :: "string list" where
  "all_formats = [''json'', ''html'', ''pdf'']"

definition wanted_formats :: "string list option \<Rightarrow> string list" where
  "wanted_formats fs = filter (\<lambda>f. f \<in> set all_formats) (case fs of Some (f # r) \<Rightarrow> f # r | _ \<Rightarrow> all_formats)"

text \<open>The artifacts are written in the order JSON, HTML, PDF; without the PDF library a note is left.\<close>

fun write_artifacts :: "bool \<Rightarrow> (string \<Rightarrow> report_content \<Rightarrow> exn + string) \<Rightarrow> string list \<Rightarrow> report_content \<Rightarrow> string list \<Rightarrow>
    exn + (string \<times> string) list \<times> string list" where
  "write_artifacts pdf write wanted c [] = Inr ([], [])"
| "write_artifacts pdf write wanted c (f # fs) =
     (if f \<notin> set wanted then write_artifacts pdf write wanted c fs
      else if f = ''pdf'' \<and> \<not> pdf then map_sum id (\<lambda>(as, ns). (as, ''PDF skipped: fpdf2 not installed'' # ns)) (write_artifacts pdf write wanted c fs)
      else (case write f c of
              Inl e \<Rightarrow> Inl e
            | Inr path \<Rightarrow> map_sum id (\<lambda>(as, ns). ((f, path) # as, ns)) (write_artifacts pdf write wanted c fs)))"

definition summary_text :: "report_content \<Rightarrow> string option" where
  "summary_text c = (case dict_get (sn_data (section_at ''executive_summary'' c)) ''text'' of JStr s \<Rightarrow> Some s | _ \<Rightarrow> None)"

definition store_dossier :: "uid \<Rightarrow> report_content \<Rightarrow> (string \<times> string) list \<Rightarrow> db \<Rightarrow> db" where
  "store_dossier rid c paths d = d\<lparr>reports := update_where (\<lambda>x. rp_id x = rid) (\<lambda>r.
     r\<lparr>rp_content := Some (content_dict c), rp_artifacts := Some paths, rp_summary := summary_text c\<rparr>) (reports d)\<rparr>"

definition failed_generation :: "uid \<Rightarrow> generation_result" where
  "failed_generation rid = \<lparr>gr_report_id = rid, gr_status = ''FAILED'', gr_artifacts = [], gr_summary = None, gr_section_count = 0, gr_notes = [''no target'']\<rparr>"

definition generate_report ::
  "(json \<Rightarrow> string) \<Rightarrow> string option \<Rightarrow> bool \<Rightarrow> (string \<Rightarrow> report_content \<Rightarrow> exn + string) \<Rightarrow> uid \<Rightarrow> string list option \<Rightarrow> (db, generation_result) action" where
  "generate_report dumps operator pdf write rid formats d =
     (case get_by_id rp_id (reports d) rid of
        None \<Rightarrow> (Inl (LookupError (''report '' @ uid_text rid @ '' not found'')), d)
      | Some r \<Rightarrow>
          bnd (report_set_status (rp_user_id r) rid T_RUNNING None) (\<lambda>_ d1.
            case (case rp_target_id r of None \<Rightarrow> None | Some i \<Rightarrow> get_by_id tg_id (targets d1) i) of
              None \<Rightarrow> bnd (report_set_status (rp_user_id r) rid T_FAILED (Some ''report has no target'')) (\<lambda>_. ret (failed_generation rid)) d1
            | Some t \<Rightarrow>
                (let c = build_dossier dumps operator (uid_text rid) t d1 in
                 case write_artifacts pdf write (wanted_formats formats) c all_formats of
                   Inl e \<Rightarrow> (Inl e, d1)
                 | Inr (paths, notes) \<Rightarrow>
                     bnd (report_set_status (rp_user_id r) rid T_COMPLETED None)
                       (\<lambda>_. ret \<lparr>gr_report_id = rid, gr_status = ''COMPLETED'', gr_artifacts = paths, gr_summary = summary_text c,
                             gr_section_count = length (rc_sections c), gr_notes = notes\<rparr>)
                       (store_dossier rid c paths d1))) d)"

section \<open>Claims and keys\<close>

text \<open>What holds of every claim of a report.\<close>

definition every_claim :: "(claim \<Rightarrow> bool) \<Rightarrow> report_content \<Rightarrow> bool" where
  "every_claim P c \<longleftrightarrow> (\<forall>x \<in> set (rc_sections c). list_all P (sn_claims (snd x)))"

lemma every_claim_section_at: "every_claim P c \<Longrightarrow> list_all P (sn_claims (section_at k c))"
  by (force simp: every_claim_def section_at_def dest: map_of_SomeD split: option.split)

lemma every_claim_add_to [intro]:
  assumes "every_claim P c" "list_all P cs" shows "every_claim P (add_to k cs data c)"
proof -
  have "x \<in> set (AList.update k s xs) \<Longrightarrow> x = (k, s) \<or> x \<in> set xs" for x s and xs :: "(string \<times> report_section) list"
    using set_alist_update by fastforce
  with assms every_claim_section_at [OF assms(1), of k] show ?thesis
    by (fastforce simp: every_claim_def add_to_def on_section_def)
qed

lemma every_claim_empty: "every_claim P (empty_dossier rid t now')"
  by (simp add: every_claim_def empty_dossier_def)

definition backed :: "db \<Rightarrow> (entity_type \<times> uid) set \<Rightarrow> claim \<Rightarrow> bool" where
  "backed d es c \<longleftrightarrow> (\<forall>r \<in> set (cl_refs c). \<exists>v \<in> set (evidences d). r = uid_text (ev_id v) \<and> (ev_entity_type v, ev_entity_id v) \<in> es)"

lemma backed_claim_of [simp]: "backed d es (claim_of s a)"
  by (simp add: backed_def claim_of_def)

lemma backed_limits: "list_all (backed d es) (map (\<lambda>x. claim_of x a) xs)"
  by (induction xs) simp_all

lemma latest_value_in: "latest_value et i f d = Some v \<Longrightarrow> v \<in> set (evidences d) \<and> ev_entity_type v = et \<and> ev_entity_id v = i"
proof -
  assume "latest_value et i f d = Some v"
  then have "v \<in> set (desc_time ev_observed_at (sort_key (\<lambda>r. - ev_collected_at r)
      (filter (\<lambda>r. ev_entity_type r = et \<and> ev_entity_id r = i \<and> ev_field r = Some f) (evidences d))))"
    by (auto simp: latest_value_def split: list.splits)
  then show ?thesis by (auto simp: desc_time_def)
qed

lemma account_claims_backed:
  assumes "(E_TELEGRAM_ACCOUNT, ta_id a) \<in> es" shows "list_all (backed d es) (account_claims d a)"
proof -
  have "backed d es (profile_claim (observed_field d a kv))" for kv
    using assms latest_value_in [of E_TELEGRAM_ACCOUNT "ta_id a" "fst kv" d]
    by (fastforce simp: backed_def profile_claim_def observed_field_def latest_field_def claim_of_def split: option.splits)
  then show ?thesis by (auto simp: account_claims_def account_observed_def list_all_iff)
qed

lemma external_claim_backed: "(E_EXTERNAL_ACCOUNT, ea_id a) \<in> es \<Longrightarrow> backed d es (external_claim d a)"
  by (fastforce simp: backed_def external_claim_def entity_evidence_def evidence_for_entity_def dest!: in_set_takeD)

lemma rows_in_resolved: "r \<in> set (rows_in rid t et resolved) \<Longrightarrow> (et, rid r) \<in> set resolved"
  by (simp add: rows_in_def)

lemmas dossier_sections = executive_summary_def dossier_limitations_def timestamps_def confidence_section_def evidence_section_def
  graph_section_def timeline_section_def ioc_section_def external_osint_def username_intelligence_def message_section_def
  chats_def telegram_presence_def target_information_def

lemma parts_backed: "list_all (\<lambda>p. list_all (backed d (set (resolved_entities (tg_id t) d))) (fst (snd p))) (dossier_parts dumps operator t d)"
proof -
  let ?es = "set (resolved_entities (tg_id t) d)"
  let ?as = "\<lambda>tb. rows_in ta_id tb E_TELEGRAM_ACCOUNT (resolved_entities (tg_id t) d)"
  let ?xs = "\<lambda>tb. rows_in ea_id tb E_EXTERNAL_ACCOUNT (resolved_entities (tg_id t) d)"
  have "list_all (backed d ?es) (account_claims d r)" if "r \<in> set (?as tb)" for r tb
    by (rule account_claims_backed) (rule rows_in_resolved [OF that])
  then have a: "list_all (backed d ?es) (concat (map (account_claims d) (?as tb)))" for tb
    unfolding list_all_iff by simp
  have "backed d ?es (external_claim d r)" if "r \<in> set (?xs tb)" for r tb
    by (rule external_claim_backed) (rule rows_in_resolved [OF that])
  then have x: "list_all (backed d ?es) (map (external_claim d) (?xs tb))" for tb
    unfolding list_all_iff by simp
  have c: "list_all (backed d ?es) (map (chat_claim d et) cs)" for et cs by (simp add: list_all_iff chat_claim_def)
  have s: "list_all (backed d ?es) (or_claims (map score_claim xs) (claim_of y z))" for xs y z
    by (simp add: list_all_iff or_claims_def score_claim_def backed_def claim_of_def)
  show ?thesis
    unfolding dossier_parts_def Let_def
    by (simp only: list.pred_inject dossier_sections Let_def if_distrib [of fst] if_distrib [of snd] fst_conv snd_conv
        list_all_append backed_claim_of a x c s backed_limits simp_thms if_True if_False split: if_split)
qed

lemma parts_keys: "map fst (dossier_parts dumps operator t d) = tl section_order @ [''executive_summary'']"
  by (simp add: dossier_parts_def Let_def dossier_sections section_order_def)

lemma every_claim_fold:
  "every_claim P c \<Longrightarrow> list_all (\<lambda>p. list_all P (fst (snd p))) ps \<Longrightarrow> every_claim P (fold (\<lambda>(k, cs, data). add_to k cs data) ps c)"
  by (induction ps arbitrary: c) (simp_all add: split_def every_claim_add_to)

lemma keys_fold: "fst ` set (rc_sections (fold (\<lambda>(k, cs, data). add_to k cs data) ps c)) = fst ` set ps \<union> fst ` set (rc_sections c)"
  by (induction ps arbitrary: c) (auto split: prod.split)

lemma section_at_other: "k \<notin> fst ` set ps \<Longrightarrow> section_at k (fold (\<lambda>(k, cs, data). add_to k cs data) ps c) = section_at k c"
  by (induction ps arbitrary: c) (simp_all add: split_def)

lemma section_at_fold:
  "distinct (map fst ps) \<Longrightarrow> (k, cs, data) \<in> set ps \<Longrightarrow> section_at k c = \<lparr>sn_key = k, sn_claims = [], sn_data = []\<rparr> \<Longrightarrow>
   section_at k (fold (\<lambda>(k, cs, data). add_to k cs data) ps c) = \<lparr>sn_key = k, sn_claims = cs, sn_data = AList.updates (map fst data) (map snd data) []\<rparr>"
proof (induction ps arbitrary: c)
  case (Cons p ps)
  show ?case
  proof (cases "p = (k, cs, data)")
    case True
    with Cons.prems have "k \<notin> fst ` set ps" by simp
    with True Cons.prems(3) section_at_other [of k ps] show ?thesis by simp
  next
    case False
    with Cons.prems have "(k, cs, data) \<in> set ps" "fst p \<noteq> k" by (auto simp: rev_image_eqI)
    with Cons.IH [of "add_to (fst p) (fst (snd p)) (snd (snd p)) c"] Cons.prems(1,3) show ?thesis by (simp add: split_def)
  qed
qed simp

lemma dossier_section:
  assumes "(k, cs, data) \<in> set (dossier_parts dumps operator t d)"
  shows "section_at k (build_dossier dumps operator rid t d) = \<lparr>sn_key = k, sn_claims = cs, sn_data = AList.updates (map fst data) (map snd data) []\<rparr>"
  unfolding build_dossier_def
proof (rule section_at_fold [OF _ assms])
  show "distinct (map fst (dossier_parts dumps operator t d))" unfolding parts_keys by (simp add: section_order_def)
  show "section_at k (empty_dossier rid t (now d)) = \<lparr>sn_key = k, sn_claims = [], sn_data = []\<rparr>"
    by (simp add: section_at_def empty_dossier_def)
qed

lemma dossier_keys: "fst ` set (rc_sections (build_dossier dumps operator rid t d)) = set section_order"
proof -
  have o: "section_order = ''executive_summary'' # tl section_order" by (simp add: section_order_def)
  have "set (map fst (dossier_parts dumps operator t d)) = set section_order"
    unfolding parts_keys by (subst (2) o) simp
  then show ?thesis unfolding build_dossier_def keys_fold by (simp add: empty_dossier_def)
qed

lemma distinct_fold:
  "distinct (map fst (rc_sections c)) \<Longrightarrow> distinct (map fst (rc_sections (fold (\<lambda>(k, cs, data). add_to k cs data) ps c)))"
  by (induction ps arbitrary: c) (simp_all add: split_def add_to_def on_section_def distinct_update)

lemma order_of_keys: "fst ` set (rc_sections c) = set section_order \<Longrightarrow> ordered_keys c = section_order"
proof -
  assume k: "fst ` set (rc_sections c) = set section_order"
  then have "filter (\<lambda>k. k \<notin> set all_section_order) (map fst (rc_sections c)) = []"
    by (auto simp: filter_empty_conv all_section_order_def)
  moreover have "filter (\<lambda>k. k \<in> set section_order) all_section_order = section_order"
    by (simp add: all_section_order_def filter_empty_conv)
  ultimately show ?thesis by (simp only: ordered_keys_def k append_Nil2)
qed

section \<open>The sample of messages\<close>

lemma sampled_newest:
  assumes "m \<in> set (sampled d ids)" "m' \<in> set (messages d)" "ms_source_id m' \<in> set ids" "newer m' m"
  shows "m' \<in> set (sampled d ids)"
  using assms take_newest [of m msg_sample "filter (\<lambda>m. ms_source_id m \<in> set ids) (messages d)" m'] by (simp add: sampled_def)

lemma sampled_set: "set (sampled d ids) \<subseteq> {m \<in> set (messages d). ms_source_id m \<in> set ids}" "length (sampled d ids) \<le> 25"
  by (auto simp: sampled_def set_desc_time msg_sample_def dest!: in_set_takeD)

section \<open>Properties\<close>

text \<open>
  C38. Every evidence reference in a dossier, in whatever section, is the id of a stored evidence row about an entity
  resolved to the target: nothing is backed by evidence that does not exist or is about someone else.
\<close>

theorem dossier_evidence_backed:
  "(\<Union>x \<in> set (rc_sections (build_dossier dumps operator rid t d)). \<Union>c \<in> set (sn_claims (snd x)). set (cl_refs c)) \<subseteq>
   (\<lambda>v. uid_text (ev_id v)) ` {v \<in> set (evidences d). (ev_entity_type v, ev_entity_id v) \<in> set (resolved_entities (tg_id t) d)}"
proof -
  have "every_claim (backed d (set (resolved_entities (tg_id t) d))) (build_dossier dumps operator rid t d)"
    unfolding build_dossier_def by (intro every_claim_fold every_claim_empty parts_backed)
  then show ?thesis by (fastforce simp: every_claim_def list_all_iff backed_def)
qed


section \<open>Generation stores the dossier\<close>

definition with_report_status :: "task_status \<Rightarrow> string option \<Rightarrow> time \<Rightarrow> report \<Rightarrow> report" where
  "with_report_status st e t r = r\<lparr>rp_status := st, rp_error := (case e of Some (c # s) \<Rightarrow> Some (c # s) | _ \<Rightarrow> rp_error r),
     rp_generated_at := (if task_is_terminal st then Some t else rp_generated_at r)\<rparr>"

lemma set_status_row: "report_get uid d i = Inr (Some r) \<Longrightarrow>
    report_set_status uid i st e d = (Inr (), put_report (with_report_status st e (now d) r) d)"
  by (auto simp: report_set_status_def with_report_status_def Let_def split: option.split list.split)

lemma with_report_status_fields [simp]: "rp_id (with_report_status st e t r) = rp_id r" "rp_user_id (with_report_status st e t r) = rp_user_id r"
  "rp_deleted_at (with_report_status st e t r) = rp_deleted_at r" "rp_status (with_report_status st e t r) = st"
  "rp_content (with_report_status st e t r) = rp_content r" "rp_artifacts (with_report_status st e t r) = rp_artifacts r"
  "rp_summary (with_report_status st e t r) = rp_summary r" "rp_target_id (with_report_status st e t r) = rp_target_id r"
  by (simp_all add: with_report_status_def)

lemma set_status_cases:
  obtains (row) r where "report_get uid d i = Inr (Some r)" "report_set_status uid i st e d = (Inr (), put_report (with_report_status st e (now d) r) d)"
  | (none) x where "report_set_status uid i st e d = (x, d)"
proof (cases "report_get uid d i")
  case (Inr q)
  then show thesis using row set_status_row none by (cases q) (auto simp: report_set_status_def)
qed (use none in \<open>simp add: report_set_status_def\<close>)

lemma put_report_frame: "rp_id r = i \<Longrightarrow> (put_report r d)\<lparr>reports := x\<rparr> = d\<lparr>reports := x\<rparr> \<and>
    filter (\<lambda>x. rp_id x \<noteq> i) (reports (put_report r d)) = filter (\<lambda>x. rp_id x \<noteq> i) (reports d) \<and>
    map rp_id (reports (put_report r d)) = map rp_id (reports d)"
proof -
  have "filter (\<lambda>x. rp_id x \<noteq> rp_id r) (update_where (\<lambda>x. rp_id x = rp_id r) (\<lambda>_. r) t) = filter (\<lambda>x. rp_id x \<noteq> rp_id r) t \<and>
      map rp_id (update_where (\<lambda>x. rp_id x = rp_id r) (\<lambda>_. r) t) = map rp_id t" for t by (induction t) auto
  then show "rp_id r = i \<Longrightarrow> ?thesis" by (auto simp: put_report_def)
qed

text \<open>Nothing but the row of the report.\<close>

definition beside_report :: "uid \<Rightarrow> db \<Rightarrow> db \<times> report list \<times> uid list" where
  "beside_report i d = (d\<lparr>reports := []\<rparr>, filter (\<lambda>x. rp_id x \<noteq> i) (reports d), map rp_id (reports d))"

lemma targets_put [simp]: "targets (put_report r d) = targets d"
  by (simp add: put_report_def)

lemma status_beside: "leaves (beside_report i) (report_set_status uid i st e)"
proof (rule leavesI)
  fix d show "beside_report i (snd (report_set_status uid i st e d)) = beside_report i d"
  proof (cases rule: set_status_cases [of uid d i st e])
    case (row r)
    then show ?thesis using put_report_frame [where r = "with_report_status st e (now d) r" and i = i and d = d and x = "[]"] report_get_Some [OF row(1)] by (simp add: beside_report_def)
  qed simp
qed

definition own_report :: "uid \<Rightarrow> uid \<Rightarrow> db \<Rightarrow> report \<Rightarrow> bool" where
  "own_report uid i d r \<longleftrightarrow> distinct (map rp_id (reports d)) \<and> r \<in> set (reports d) \<and> rp_id r = i \<and> rp_user_id r = uid \<and> rp_deleted_at r = None"

lemma own_report_get: "own_report uid i d r \<Longrightarrow> report_get uid d i = Inr (Some r)"
proof -
  assume r: "own_report uid i d r"
  have "filter (\<lambda>q. rp_id q = rp_id r) t = [r]" if "distinct (map rp_id t)" "r \<in> set t" for t
    using that by (induction t) (auto simp: filter_empty_conv rev_image_eqI)
  then have "filter (\<lambda>q. rp_id q = i) (reports d) = [r]" using r by (auto simp: own_report_def)
  then have "filter (\<lambda>q. rp_user_id q = uid \<and> rp_deleted_at q = None) (filter (\<lambda>q. rp_id q = i) (reports d)) = [r]" using r by (simp add: own_report_def)
  then show ?thesis by (simp add: report_get_def scalar_one_or_none_def conj_ac)
qed

lemma own_report_by_id: "own_report uid i d r \<Longrightarrow> get_by_id rp_id (reports d) i = Some r"
  using get_by_id_in by (auto simp: own_report_def)

lemma own_report_put:
  assumes "own_report uid i d r" "rp_id q = i" "rp_user_id q = uid" "rp_deleted_at q = None"
  shows "own_report uid i (put_report q d) q"
proof -
  have "q \<in> set (reports (put_report q d))" using assms by (auto simp: put_report_def own_report_def update_where_def)
  with assms put_report_frame [where r = q and i = i and d = d and x = "[]"] show ?thesis by (simp add: own_report_def)
qed

lemma own_report_status:
  "own_report uid i d r \<Longrightarrow> report_set_status uid i st e d = (Inr (), put_report (with_report_status st e (now d) r) d) \<and>
   own_report uid i (put_report (with_report_status st e (now d) r) d) (with_report_status st e (now d) r)"
  using own_report_put [of uid i d r "with_report_status st e (now d) r"] set_status_row [OF own_report_get] by (auto simp: own_report_def)

lemma generate_beside: "leaves (beside_report rid) (generate_report dumps operator pdf write rid formats)"
proof (rule leavesI)
  fix d
  have run: "beside_report rid (snd (bnd (report_set_status uid rid st e) (\<lambda>_. ret x) d1)) = beside_report rid d1" for uid st e d1 and x :: generation_result
    using leavesD [OF status_beside [of rid uid st e]] by (auto simp: bnd_def split: prod.split sum.split)
  have store: "beside_report rid (store_dossier rid c paths d1) = beside_report rid d1" for c paths d1
  proof -
    let ?f = "\<lambda>r. r\<lparr>rp_content := Some (content_dict c), rp_artifacts := Some paths, rp_summary := summary_text c\<rparr>"
    have "filter (\<lambda>x. rp_id x \<noteq> rid) (update_where (\<lambda>x. rp_id x = rid) ?f t) = filter (\<lambda>x. rp_id x \<noteq> rid) t \<and>
        map rp_id (update_where (\<lambda>x. rp_id x = rid) ?f t) = map rp_id t" for t
      by (induction t) auto
    then show ?thesis by (simp add: beside_report_def store_dossier_def)
  qed
  show "beside_report rid (snd (generate_report dumps operator pdf write rid formats d)) = beside_report rid d"
  proof (cases "get_by_id rp_id (reports d) rid")
    case (Some r)
    obtain x d1 where d1: "report_set_status (rp_user_id r) rid T_RUNNING None d = (x, d1)" by fastforce
    then have "beside_report rid d1 = beside_report rid d" by (rule leavesD [OF status_beside])
    then show ?thesis unfolding generate_report_def Some option.case bnd_def [of "report_set_status _ _ T_RUNNING _"] d1
      using run store by (auto simp: Let_def split: sum.split option.split prod.split)
  qed (simp add: generate_report_def)
qed

text \<open>The formats of which a file is written.\<close>

definition written_formats :: "bool \<Rightarrow> string list option \<Rightarrow> string list" where
  "written_formats pdf formats = filter (\<lambda>f. f \<in> set (wanted_formats formats) \<and> (f = ''pdf'' \<longrightarrow> pdf)) all_formats"

lemma write_artifacts_formats:
  "write_artifacts pdf write wanted c fs = Inr (paths, ns) \<Longrightarrow>
   map fst paths = filter (\<lambda>f. f \<in> set wanted \<and> (f = ''pdf'' \<longrightarrow> pdf)) fs \<and> list_all (\<lambda>(f, path). write f c = Inr path) paths"
  by (induction fs arbitrary: paths ns) (auto split: if_splits sum.splits simp: map_sum_def)

text \<open>
  C40. Generating a report touches the row of that report and nothing else, whether it returns or raises. When it
  returns, the report of a living target is COMPLETED and holds the dossier of the target, its summary, and one
  file per wanted format, the one in which the writer put it; a report without a target is FAILED, with the reason.
\<close>

theorem report_generated:
  assumes "generate_report dumps operator pdf write rid formats d = (Inr g, d')" and "own_report uid rid d r"
  shows "d'\<lparr>reports := reports d\<rparr> = d \<and> filter (\<lambda>x. rp_id x \<noteq> rid) (reports d') = filter (\<lambda>x. rp_id x \<noteq> rid) (reports d) \<and>
    (\<exists>r'. own_report uid rid d' r' \<and> gr_report_id g = rid \<and>
      (case (case rp_target_id r of None \<Rightarrow> None | Some i \<Rightarrow> get_by_id tg_id (targets d) i) of
         None \<Rightarrow> rp_status r' = T_FAILED \<and> rp_error r' = Some ''report has no target'' \<and> rp_content r' = rp_content r \<and> gr_status g = ''FAILED''
       | Some t \<Rightarrow> (\<exists>c paths. c = build_dossier dumps operator (uid_text rid) t (snd (report_set_status uid rid T_RUNNING None d)) \<and>
           rp_status r' = T_COMPLETED \<and> rp_content r' = Some (content_dict c) \<and> rp_artifacts r' = Some paths \<and> rp_summary r' = summary_text c \<and>
           gr_status g = ''COMPLETED'' \<and> gr_artifacts g = paths \<and> gr_summary g = rp_summary r' \<and>
           map fst paths = written_formats pdf formats \<and> list_all (\<lambda>(f, path). write f c = Inr path) paths)))"
proof -
  have "beside_report rid d' = beside_report rid d" by (rule leavesD [OF generate_beside assms(1)])
  then have frame: "d'\<lparr>reports := reports d\<rparr> = d" "filter (\<lambda>x. rp_id x \<noteq> rid) (reports d') = filter (\<lambda>x. rp_id x \<noteq> rid) (reports d)"
    by (auto simp: beside_report_def dest: arg_cong [of _ _ "reports_update (\<lambda>_. reports d)"])
  let ?r1 = "with_report_status T_RUNNING None (now d) r" and ?d1 = "put_report (with_report_status T_RUNNING None (now d) r) d"
  have uid: "rp_user_id r = uid" using assms(2) by (simp add: own_report_def)
  note d1 = own_report_status [OF assms(2), of T_RUNNING None]
  have t: "targets ?d1 = targets d" by (simp add: put_report_def)
  note run = assms(1) [unfolded generate_report_def own_report_by_id [OF assms(2)] option.case uid bnd_def [of "report_set_status _ _ T_RUNNING _"]
      conjunct1 [OF d1] prod.case sum.case t]
  show ?thesis
  proof (cases "case rp_target_id r of None \<Rightarrow> None | Some i \<Rightarrow> get_by_id tg_id (targets d) i")
    case None
    note run2 = run [unfolded None option.case]
    note d2 = own_report_status [OF conjunct2 [OF d1], of T_FAILED "Some ''report has no target''"]
    show ?thesis using run2 d2 frame unfolding None
      by (auto simp: bnd_def failed_generation_def with_report_status_def)
  next
    case (Some tgt)
    let ?c = "build_dossier dumps operator (uid_text rid) tgt ?d1"
    from run [unfolded Some option.case Let_def] obtain paths ns where w: "write_artifacts pdf write (wanted_formats formats) ?c all_formats = Inr (paths, ns)"
      and fin: "bnd (report_set_status uid rid T_COMPLETED None) (\<lambda>_. ret \<lparr>gr_report_id = rid, gr_status = ''COMPLETED'', gr_artifacts = paths, gr_summary = summary_text ?c,
             gr_section_count = length (rc_sections ?c), gr_notes = ns\<rparr>) (store_dossier rid ?c paths ?d1) = (Inr g, d')"
      by (auto split: sum.splits)
    let ?r2 = "?r1\<lparr>rp_content := Some (content_dict ?c), rp_artifacts := Some paths, rp_summary := summary_text ?c\<rparr>"
    have "own_report uid rid (store_dossier rid ?c paths ?d1) ?r2"
      using conjunct2 [OF d1] by (auto simp: own_report_def store_dossier_def update_where_def comp_def if_distrib cong: if_cong)
    note d2 = own_report_status [OF this, of T_COMPLETED None]
    with fin have g: "g = \<lparr>gr_report_id = rid, gr_status = ''COMPLETED'', gr_artifacts = paths, gr_summary = summary_text ?c,
        gr_section_count = length (rc_sections ?c), gr_notes = ns\<rparr>" "own_report uid rid d' (with_report_status T_COMPLETED None (now (store_dossier rid ?c paths ?d1)) ?r2)"
      by (auto simp: bnd_def)
    show ?thesis unfolding Some option.case
      using frame g write_artifacts_formats [OF w] conjunct1 [OF d1]
      by (intro conjI exI [of _ "with_report_status T_COMPLETED None (now (store_dossier rid ?c paths ?d1)) ?r2"] exI [of _ ?c] exI [of _ paths])
        (simp_all add: written_formats_def)
  qed
qed

text \<open>
  A fact need not be traced to evidence: what a column holds is stated as a fact even when no evidence row exists.
\<close>

lemma fact_without_evidence:
  assumes "evidences d = []" "ta_display_name a = Some (c # s)"
  shows "(claim_of (''Public profile display name: '' @ c # s) FACT) \<in> set (account_claims d a)"
proof -
  have none: "latest_value E_TELEGRAM_ACCOUNT (ta_id a) ''display_name'' d = None"
    by (simp add: latest_value_def assms(1) desc_time_def)
  have "replace_char CHR ''_'' '' '' ''display_name'' = ''display name''" by code_simp
  then have "profile_claim (''display_name'', JStr (c # s), []) = claim_of (''Public profile display name: '' @ c # s) FACT"
    by (simp add: profile_claim_def claim_of_def py_str_def)
  moreover have "(''display_name'', JStr (c # s), []) \<in> set (account_observed d a)"
    using none assms(2) by (simp add: account_observed_def account_fields_def observed_field_def latest_field_def opt_json_def)
  ultimately show ?thesis
    by (force simp: account_claims_def nothing_shown_def)
qed

definition sample_report_row :: report where
  "sample_report_row = \<lparr>rp_id = 5, rp_user_id = 1, rp_target_id = Some 2, rp_title = ''OSINT report'', rp_status = T_PENDING, rp_job_id = None,
     rp_summary = None, rp_content = None, rp_artifacts = None, rp_generated_at = None, rp_error = None, rp_deleted_at = None, rp_created_at = 0\<rparr>"

definition reporting_db :: db where
  "reporting_db = empty_db\<lparr>reports := [sample_report_row], targets := [\<lparr>tg_id = 2, tg_user_id = 1, tg_kind = K_USERNAME, tg_value = ''alice'',
     tg_norm = ''alice'', tg_label = None, tg_deleted_at = None, tg_created_at = 0\<rparr>], next_id := 6\<rparr>"

theorem report_generated_witness:
  "\<exists>g d'. generate_report (\<lambda>_. []) None False (\<lambda>f c. Inr f) 5 (Some [''pdf'', ''json'']) reporting_db = (Inr g, d') \<and>
     gr_status g = ''COMPLETED'' \<and> map fst (gr_artifacts g) = [''json''] \<and> targets d' = targets reporting_db"
proof -
  let ?w = "\<lambda>(f :: string) (c :: report_content). (Inr f :: exn + string)"
  have own: "own_report 1 5 reporting_db sample_report_row" by (simp add: own_report_def reporting_db_def sample_report_row_def)
  note d1 = own_report_status [OF own, of T_RUNNING None]
  let ?d1 = "put_report (with_report_status T_RUNNING None (now reporting_db) sample_report_row) reporting_db"
  have t: "rp_target_id sample_report_row = Some 2" "rp_user_id sample_report_row = 1" "get_by_id tg_id (targets reporting_db) 2 = Some (hd (targets reporting_db))"
    by (simp_all add: sample_report_row_def reporting_db_def get_by_id_def)
  have w: "write_artifacts False ?w (wanted_formats (Some [''pdf'', ''json''])) c all_formats = Inr ([(''json'', ''json'')], [''PDF skipped: fpdf2 not installed''])" for c
    by (simp add: wanted_formats_def all_formats_def)
  have "\<exists>x. bnd (report_set_status 1 5 T_COMPLETED None) (\<lambda>_. ret g) (store_dossier 5 c paths ?d1) = (Inr g, x)" for g :: generation_result and c paths
  proof -
    let ?r2 = "(with_report_status T_RUNNING None (now reporting_db) sample_report_row)\<lparr>rp_content := Some (content_dict c), rp_artifacts := Some paths, rp_summary := summary_text c\<rparr>"
    have "own_report 1 5 (store_dossier 5 c paths ?d1) ?r2"
      using conjunct2 [OF d1] by (auto simp: own_report_def store_dossier_def update_where_def comp_def if_distrib cong: if_cong)
    from own_report_status [OF this, of T_COMPLETED None] show ?thesis by (simp add: bnd_def)
  qed
  then have "\<exists>g d'. generate_report (\<lambda>_. []) None False ?w 5 (Some [''pdf'', ''json'']) reporting_db = (Inr g, d')"
    unfolding generate_report_def own_report_by_id [OF own] option.case t(1,2) bnd_def [of "report_set_status _ _ T_RUNNING _"]
      conjunct1 [OF d1] prod.case sum.case Let_def w targets_put t(3) by blast
  then obtain g d' where run: "generate_report (\<lambda>_. []) None False ?w 5 (Some [''pdf'', ''json'']) reporting_db = (Inr g, d')" by blast
  have "written_formats False (Some [''pdf'', ''json'']) = [''json'']" by code_simp
  moreover have "targets d' = targets reporting_db"
    using arg_cong [OF conjunct1 [OF report_generated [OF run own]], of targets] by simp
  ultimately show ?thesis using report_generated [OF run own] run t by auto
qed

end
