(* ===== verification/IntelSearch.thy ===== *)
theory IntelSearch
  imports Frame InvReport Telegram
begin

text \<open>
  \<open>intelligence/search.py\<close>: the four lookups of public Telegram intelligence and the history of a
  user's searches. What the collector returns for a request is the parameter \<open>run\<close>. The substring
  query of \<open>database/repositories/messages.py\<close> is the \<open>LIKE\<close> of SQL with its two wildcards and no
  escape character, on texts folded to lower case.
\<close>

section \<open>MessageRepository.search_text\<close>

definition text_matches :: "string \<Rightarrow> message \<Rightarrow> bool" where
  "text_matches term m =
     (case ms_text m of None \<Rightarrow> False | Some s \<Rightarrow> like (CHR ''%'' # lower (strip term) @ ''%'') (lower s))"

definition search_text :: "string \<Rightarrow> nat \<Rightarrow> db \<Rightarrow> message list" where
  "search_text term limit d = take limit (desc_time ms_posted_at (filter (text_matches term) (messages d)))"

section \<open>The result of a lookup\<close>

record search_item =
  si_entity_type :: entity_type
  si_entity_id :: uid
  si_message_id :: int
  si_text :: string
  si_author_username :: "string option"
  si_posted_at :: "string option"
  si_source_url :: "string option"
  si_iocs :: "(ioc_type \<times> string) list"

record intel_result =
  it_kind :: string
  it_found :: bool
  it_entity_type :: "entity_type option"
  it_entity_id :: "uid option"
  it_summary :: "(string \<times> json) list"
  it_items :: "search_item list"
  it_notes :: "string list"
  it_search_id :: uid
  it_source_available :: bool

definition search_kind_of :: "string \<Rightarrow> exn + search_kind" where
  "search_kind_of kind =
     (if kind = kind_user then Inr SK_USERNAME
      else if kind = kind_group then Inr SK_GROUP
      else if kind = kind_channel then Inr SK_CHANNEL
      else if kind = kind_message_search then Inr SK_KEYWORD
      else Inl (KeyError kind))"

definition fresh_result :: "string \<Rightarrow> uid \<Rightarrow> collect_result \<Rightarrow> intel_result" where
  "fresh_result kind sid res =
     \<lparr>it_kind = kind, it_found = False, it_entity_type = None, it_entity_id = None, it_summary = [], it_items = [],
      it_notes = co_notes res @ (if text_of (co_error res) = [] then [] else [text_of (co_error res)]),
      it_search_id = sid, it_source_available = (co_error res \<noteq> Some no_source)\<rparr>"

section \<open>Looking an entity up\<close>

text \<open>
  The numeric id first, then the normalized user name; \<open>tid\<close> and \<open>un\<close> read the two columns of the
  table. \<open>int\<close> refuses texts that \<open>isdigit\<close> accepts after the minus signs are gone.
\<close>

definition lookup_row :: "('r \<Rightarrow> int option) \<Rightarrow> ('r \<Rightarrow> string option) \<Rightarrow> 'r list \<Rightarrow> string \<Rightarrow> string \<Rightarrow> exn + 'r option" where
  "lookup_row tid un rows query nrm =
     (case (if isdigit (lstrip_by (\<lambda>c. c = CHR ''-'') query)
            then (case int_of_str query of Inl e \<Rightarrow> Inl e | Inr i \<Rightarrow> scalar_one_or_none (\<lambda>r. tid r = Some i) rows)
            else Inr None) of
        Inl e \<Rightarrow> Inl e
      | Inr (Some r) \<Rightarrow> Inr (Some r)
      | Inr None \<Rightarrow> scalar_one_or_none (\<lambda>r. un r = Some nrm) rows)"

definition present :: "(string \<times> json) list \<Rightarrow> (string \<times> json) list" where
  "present kvs = filter (\<lambda>kv. snd kv \<noteq> JNull) kvs"

definition opt_num :: "int option \<Rightarrow> json" where
  "opt_num v = (case v of None \<Rightarrow> JNull | Some i \<Rightarrow> JInt i)"

definition account_attrs :: "telegram_account \<Rightarrow> (string \<times> json) list" where
  "account_attrs r =
     [(''telegram_id'', opt_num (ta_telegram_id r)), (''username'', opt_json (ta_username r)),
      (''display_name'', opt_json (ta_display_name r)), (''bio'', opt_json (ta_bio r)),
      (''is_verified'', JBool (ta_is_verified r)), (''is_scam'', JBool (ta_is_scam r))]"

definition chat_attrs :: "telegram_chat \<Rightarrow> (string \<times> json) list" where
  "chat_attrs r =
     [(''telegram_id'', opt_num (tc_telegram_id r)), (''username'', opt_json (tc_username r)),
      (''title'', opt_json (tc_title r)), (''description'', opt_json (tc_description r)),
      (''participants_count'', opt_num (tc_participants_count r))]"

definition evidence_total :: "entity_type \<times> uid \<Rightarrow> db \<Rightarrow> string \<times> json" where
  "evidence_total e d = (''evidence_count'', JInt (int (length (evidence_for_entity (fst e) (snd e) 200 d))))"

definition entity_summary :: "entity_type \<times> uid \<Rightarrow> (string \<times> json) list \<Rightarrow> db \<Rightarrow> exn + (string \<times> json) list" where
  "entity_summary e attrs d =
     (let base = (''id'', id_json (snd e)) # present attrs in
      if fst e = E_TELEGRAM_GROUP \<or> fst e = E_TELEGRAM_CHANNEL
      then map_sum id (\<lambda>is. base @
             [(''observed_messages'', JInt (int (length (messages_for_source (fst e) (snd e) 1000 d)))),
              (''ioc_count'', JInt (int (length is))), evidence_total e d])
             (fst (iocs_for_container e 500 d))
      else Inr (base @ [evidence_total e d]))"

definition find_entity :: "string \<Rightarrow> string \<Rightarrow> db \<Rightarrow> exn + ((entity_type \<times> uid) \<times> (string \<times> json) list) option" where
  "find_entity kind query d =
     (case normalize_username query of
        Inl e \<Rightarrow> Inl e
      | Inr nrm \<Rightarrow>
          if kind = kind_user
          then map_sum id (map_option (\<lambda>r. ((E_TELEGRAM_ACCOUNT, ta_id r), account_attrs r)))
                 (lookup_row ta_telegram_id ta_username_norm (telegram_accounts d) query nrm)
          else if kind = kind_group
          then map_sum id (map_option (\<lambda>r. ((E_TELEGRAM_GROUP, tc_id r), chat_attrs r)))
                 (lookup_row tc_telegram_id tc_username_norm (telegram_groups d) query nrm)
          else map_sum id (map_option (\<lambda>r. ((E_TELEGRAM_CHANNEL, tc_id r), chat_attrs r)))
                 (lookup_row tc_telegram_id tc_username_norm (telegram_channels d) query nrm))"

definition add_it_note :: "string \<Rightarrow> intel_result \<Rightarrow> intel_result" where
  "add_it_note n x = x\<lparr>it_notes := it_notes x @ [n]\<rparr>"

definition fill_entity :: "string \<Rightarrow> string \<Rightarrow> intel_result \<Rightarrow> db \<Rightarrow> exn + intel_result" where
  "fill_entity kind query x d =
     (case find_entity kind query d of
        Inl e \<Rightarrow> Inl e
      | Inr None \<Rightarrow> Inr (add_it_note ''no public data found for this identifier'' x)
      | Inr (Some (e, attrs)) \<Rightarrow>
          map_sum id (\<lambda>s. x\<lparr>it_found := True, it_entity_type := Some (fst e), it_entity_id := Some (snd e), it_summary := s\<rparr>)
            (entity_summary e attrs d))"

section \<open>Searching the messages\<close>

definition item_of :: "db \<Rightarrow> message \<Rightarrow> exn + search_item" where
  "item_of d m =
     map_sum id (\<lambda>is.
       \<lparr>si_entity_type = E_MESSAGE, si_entity_id = ms_id m, si_message_id = ms_message_id m,
        si_text = take 500 (text_of (ms_text m)), si_author_username = ms_author_username m,
        si_posted_at = map_option isoformat (ms_posted_at m), si_source_url = ms_source_url m,
        si_iocs = map (\<lambda>v. (ioc_ty (iv_ioc v), ioc_val (iv_ioc v))) is\<rparr>)
       (fst (iocs_for_message (ms_id m) d))"

definition fill_message_search :: "string \<Rightarrow> nat \<Rightarrow> intel_result \<Rightarrow> db \<Rightarrow> exn + intel_result" where
  "fill_message_search query limit x d =
     map_sum id (\<lambda>items.
       if items = []
       then add_it_note ''no matching public messages in the collected corpus for this query'' (x\<lparr>it_items := [], it_found := False\<rparr>)
       else x\<lparr>it_items := items, it_found := True\<rparr>)
       (mapE (item_of d) (search_text query limit d))"

section \<open>The service\<close>

definition link_lookup ::
  "(string \<Rightarrow> string) \<Rightarrow> (json \<Rightarrow> string) \<Rightarrow> uid \<Rightarrow> target_kind \<Rightarrow> string \<Rightarrow> intel_result \<Rightarrow> (db, intel_result) action" where
  "link_lookup sha dumps uid tk query x =
     bnd (target_get_or_create uid tk query None) (\<lambda>(t, _).
     bnd (case (it_entity_type x, it_entity_id x) of
            (Some et, Some i) \<Rightarrow> bnd (link sha dumps (tg_id t) (et, i) None 75) (\<lambda>_. ret ())
          | _ \<Rightarrow> ret ()) (\<lambda>_.
     ret (x\<lparr>it_summary := AList.update ''target_id'' (id_json (tg_id t)) (it_summary x)\<rparr>)))"

definition item_result :: "nat \<times> search_item \<Rightarrow> result_in" where
  "item_result p =
     \<lparr>ri_entity_type = si_entity_type (snd p), ri_entity_id = si_entity_id (snd p), ri_rank = Some (int (fst p)),
      ri_score = Some (1 / 2), ri_snippet = Some (take 200 (si_text (snd p))), ri_matched = None, ri_evidence_id = None\<rparr>"

definition entity_result :: "intel_result \<Rightarrow> result_in list" where
  "entity_result x =
     (case (it_entity_type x, it_entity_id x) of
        (Some et, Some i) \<Rightarrow> [\<lparr>ri_entity_type = et, ri_entity_id = i, ri_rank = None, ri_score = Some 1, ri_snippet = None,
                              ri_matched = None, ri_evidence_id = None\<rparr>]
      | _ \<Rightarrow> [])"

definition intel_results :: "intel_result \<Rightarrow> result_in list" where
  "intel_results x = entity_result x @ map item_result (zip [0..<length (it_items x)] (it_items x))"

definition fill_result ::
  "(string \<Rightarrow> string) \<Rightarrow> (json \<Rightarrow> string) \<Rightarrow> uid \<Rightarrow> string \<Rightarrow> string \<Rightarrow> nat \<Rightarrow> target_kind option \<Rightarrow> intel_result \<Rightarrow>
   (db, intel_result) action" where
  "fill_result sha dumps uid kind query limit tk x d =
     (if kind = kind_message_search then (fill_message_search query limit x d, d)
      else (case fill_entity kind query x d of
              Inl e \<Rightarrow> (Inl e, d)
            | Inr y \<Rightarrow> (case tk of
                 Some k \<Rightarrow> if it_found y then link_lookup sha dumps uid k query y d else (Inr y, d)
               | None \<Rightarrow> (Inr y, d))))"

definition intel_run ::
  "(string \<Rightarrow> string) \<Rightarrow> (json \<Rightarrow> string) \<Rightarrow> (collect_request \<Rightarrow> exn + collect_result) \<Rightarrow> uid \<Rightarrow> string \<Rightarrow> string \<Rightarrow> nat \<Rightarrow>
   target_kind option \<Rightarrow> (db, intel_result) action" where
  "intel_run sha dumps run uid kind q limit tk =
     (let query = strip q in
      bnd (liftE (search_kind_of kind)) (\<lambda>sk.
      bnd (search_create uid sk query None (Some (JObj [(''telegram_kind'', JStr kind)])) None) (\<lambda>se.
      bnd (liftE (run \<lparr>rq_query = query, rq_kind = kind, rq_limit = int limit, rq_since = None\<rparr>)) (\<lambda>res.
      bnd (ingest sha dumps res) (\<lambda>_.
      bnd (fill_result sha dumps uid kind query limit tk (fresh_result kind (se_id se) res)) (\<lambda>x.
      bnd (finish_search uid (se_id se) (intel_results x) (it_found x \<or> text_of (co_error res) = [])) (\<lambda>_.
      ret x)))))))"

definition search_user ::
  "(string \<Rightarrow> string) \<Rightarrow> (json \<Rightarrow> string) \<Rightarrow> (collect_request \<Rightarrow> exn + collect_result) \<Rightarrow> uid \<Rightarrow> string \<Rightarrow> (db, intel_result) action" where
  "search_user sha dumps run uid q = intel_run sha dumps run uid kind_user q 50 (Some K_TELEGRAM_USER)"

definition group_intel ::
  "(string \<Rightarrow> string) \<Rightarrow> (json \<Rightarrow> string) \<Rightarrow> (collect_request \<Rightarrow> exn + collect_result) \<Rightarrow> uid \<Rightarrow> string \<Rightarrow> (db, intel_result) action" where
  "group_intel sha dumps run uid q = intel_run sha dumps run uid kind_group q 50 None"

definition channel_intel ::
  "(string \<Rightarrow> string) \<Rightarrow> (json \<Rightarrow> string) \<Rightarrow> (collect_request \<Rightarrow> exn + collect_result) \<Rightarrow> uid \<Rightarrow> string \<Rightarrow> (db, intel_result) action" where
  "channel_intel sha dumps run uid q = intel_run sha dumps run uid kind_channel q 50 None"

definition search_messages ::
  "(string \<Rightarrow> string) \<Rightarrow> (json \<Rightarrow> string) \<Rightarrow> (collect_request \<Rightarrow> exn + collect_result) \<Rightarrow> uid \<Rightarrow> string \<Rightarrow> nat \<Rightarrow> (db, intel_result) action" where
  "search_messages sha dumps run uid q limit = intel_run sha dumps run uid kind_message_search q limit None"

record search_entry =
  he_id :: uid
  he_kind :: search_kind
  he_query :: string
  he_status :: task_status
  he_result_count :: nat
  he_created_at :: string

definition search_history :: "uid \<Rightarrow> nat \<Rightarrow> db \<Rightarrow> search_entry list" where
  "search_history uid limit d =
     map (\<lambda>s. \<lparr>he_id = se_id s, he_kind = se_kind s, he_query = se_query s, he_status = se_status s,
               he_result_count = se_result_count s, he_created_at = isoformat (se_created_at s)\<rparr>)
       (search_list uid limit d)"

section \<open>The pattern\<close>

text \<open>Without a wildcard in the term, a search is for the texts that contain it, case aside.\<close>

lemma text_matches_substring:
  assumes "CHR ''%'' \<notin> set (lower (strip term))" "CHR ''_'' \<notin> set (lower (strip term))"
  shows "text_matches term m \<longleftrightarrow> (\<exists>s. ms_text m = Some s \<and> contains (lower (strip term)) (lower s))"
proof -
  have "like (CHR ''%'' # lower (strip term) @ ''%'') t \<longleftrightarrow> contains (lower (strip term)) t" for t
    unfolding like_percent like_literal [OF assms] contains_iff by (auto simp: prefix_def)
  then show ?thesis by (simp add: text_matches_def split: option.split)
qed

text \<open>With one it finds more: a single percent sign finds every message that has a text.\<close>

lemma percent_finds_all: "text_matches ''%'' m \<longleftrightarrow> ms_text m \<noteq> None"
proof -
  have p: "lower (strip ''%'') = ''%''" by code_simp
  have "like ''%'' s" for s using like_percent [of "[]" s] by simp
  then have "like ''%%%'' s" for s by (metis append_Nil like_percent)
  then show ?thesis by (simp add: text_matches_def p split: option.split)
qed

section \<open>The record of a search\<close>

definition result_rows :: "uid \<Rightarrow> nat \<Rightarrow> result_in list \<Rightarrow> uid \<Rightarrow> search_result list" where
  "result_rows sid n rs i = map (\<lambda>k. result_row sid (n + k) (rs ! k) (i + k)) [0..<length rs]"

lemma result_rows_Cons: "result_rows sid n (r # rs) i = result_row sid n r i # result_rows sid (Suc n) rs (Suc i)"
  unfolding result_rows_def length_Cons upt_conv_Cons [OF zero_less_Suc] list.map map_Suc_upt [symmetric] map_map
  by (simp add: comp_def)

lemma add_result_rows_spec:
  "add_result_rows sid n rs d = d\<lparr>search_results := search_results d @ result_rows sid n rs (next_id d), next_id := next_id d + length rs\<rparr>"
  by (induction rs arbitrary: n d) (simp add: result_rows_def, simp add: result_rows_Cons)

lemma search_get_put:
  assumes "search_get uid d i = Inr (Some s)" and "distinct (map se_id (searches d))"
    and "se_id s' = se_id s" "se_user_id s' = se_user_id s"
  shows "search_get uid (put_search s' d) i = Inr (Some s')" "distinct (map se_id (searches (put_search s' d)))"
    "filter (\<lambda>x. se_id x \<noteq> i) (searches (put_search s' d)) = filter (\<lambda>x. se_id x \<noteq> i) (searches d)"
proof -
  let ?p = "\<lambda>s. se_id s = i \<and> se_user_id s = uid"
  have one: "filter ?p (searches d) = [s]" using assms(1) by (simp add: search_get_def scalar_filter)
  have s: "s \<in> set (searches d)" "?p s" using search_get_Some [OF assms(1)] by simp_all
  have put: "searches (put_search s' d) = map (\<lambda>x. if x = s then s' else x) (searches d)"
    using update_where_replace [OF assms(2) s(1) assms(3)] by (simp add: put_search_def)
  show "search_get uid (put_search s' d) i = Inr (Some s')"
    using filter_replace [OF one, of s'] s(2) assms(3,4) by (simp add: search_get_def scalar_filter put)
  have "map se_id (searches (put_search s' d)) = map se_id (searches d)"
    using assms(3) by (simp add: put)
  with assms(2) show "distinct (map se_id (searches (put_search s' d)))" by simp
  show "filter (\<lambda>x. se_id x \<noteq> i) (searches (put_search s' d)) = filter (\<lambda>x. se_id x \<noteq> i) (searches d)"
    using filter_replace_other [of "\<lambda>x. se_id x \<noteq> i" s s' "searches d"] s(2) assms(3) by (simp add: put)
qed

lemma put_search_twice: "se_id s2 = se_id s1 \<Longrightarrow> put_search s2 (put_search s1 d) = put_search s2 d"
  by (simp add: put_search_def update_where_def comp_def)

lemma put_search_frame [simp]: "search_results (put_search s d) = search_results d" "now (put_search s d) = now d"
  "next_id (put_search s d) = next_id d"
  by (simp_all add: put_search_def)

definition finished :: "result_in list \<Rightarrow> bool \<Rightarrow> time \<Rightarrow> search \<Rightarrow> search" where
  "finished rs ok t s = s\<lparr>se_result_count := se_result_count s + length rs, se_status := (if ok then T_COMPLETED else T_FAILED),
     se_completed_at := Some t\<rparr>"

lemma finished_fields [simp]: "se_id (finished rs ok t s) = se_id s" "se_user_id (finished rs ok t s) = se_user_id s"
  by (simp_all add: finished_def)

lemma finish_search_run:
  assumes "search_get uid d i = Inr (Some s)" and "distinct (map se_id (searches d))"
  shows "finish_search uid i rs ok d =
    (Inr (), put_search (finished rs ok (now d) s) (d\<lparr>search_results := search_results d @ result_rows i 0 rs (next_id d), next_id := next_id d + length rs\<rparr>))"
proof -
  let ?s = "s\<lparr>se_result_count := se_result_count s + length rs\<rparr>"
  let ?d = "add_result_rows i 0 rs d"
  have d: "search_get uid ?d i = Inr (Some s)" "distinct (map se_id (searches ?d))" "now ?d = now d"
    using assms by (simp_all add: add_result_rows_spec search_get_def)
  have get: "search_get uid (put_search ?s ?d) i = Inr (Some ?s)" by (rule search_get_put [OF d(1,2)]) simp_all
  have set: "search_set_status uid i (if ok then T_COMPLETED else T_FAILED) d1 = (Inr (), put_search (finished rs ok (now d1) s) d1)"
    if "search_get uid d1 i = Inr (Some ?s)" for d1
    using that by (cases ok) (simp_all add: search_set_status_def finished_def)
  have "finish_search uid i rs ok d = (Inr (), put_search (finished rs ok (now d) s) ?d)"
  proof (cases "rs = []")
    case True
    then show ?thesis using set [of d] assms(1) by (simp add: finish_search_def)
  next
    case False
    then have "search_add_results uid i rs d = (Inr (length rs), put_search ?s ?d)"
      using assms(1) by (simp add: search_add_results_def)
    with False show ?thesis using set [OF get] d(3) by (simp add: finish_search_def put_search_twice)
  qed
  then show ?thesis by (simp add: add_result_rows_spec)
qed

section \<open>What a lookup leaves\<close>

definition search_view :: "db \<Rightarrow> search list \<times> search_result list" where
  "search_view d = (searches d, search_results d)"

interpretation shelf: content_view search_view
  by unfold_locales (simp_all add: search_view_def)

lemma target_shelf: "leaves search_view (target_get_or_create uid k x l)"
proof (rule leavesI)
  fix d
  have "search_view d' = search_view d" if "add_row targets targets_update uq_target mk d = (r, d')" for mk r d'
    by (rule leavesD [OF shelf.leaves_add_row that]) (simp add: search_view_def)
  then show "search_view (snd (target_get_or_create uid k x l d)) = search_view d"
    by (auto simp: target_get_or_create_def put_target_def search_view_def split: sum.split prod.split option.split)
qed

lemma link_lookup_shelf: "leaves search_view (link_lookup sha dumps uid k q x)"
  unfolding link_lookup_def by (intro frame shelf.link_leaves target_shelf)

lemma fill_result_shelf: "leaves search_view (fill_result sha dumps uid kind q limit tk x)"
  by (rule leavesI) (use link_lookup_shelf in \<open>auto simp: fill_result_def leaves_def split: sum.split option.split\<close>)

text \<open>The course of a lookup that returns.\<close>

lemma intel_run_course:
  assumes "intel_run sha dumps run uid kind q limit tk d = (Inr x, d')"
  obtains sk se d1 res s d2 d3 where "search_kind_of kind = Inr sk"
    "search_create uid sk (strip q) None (Some (JObj [(''telegram_kind'', JStr kind)])) None d = (Inr se, d1)"
    "run \<lparr>rq_query = strip q, rq_kind = kind, rq_limit = int limit, rq_since = None\<rparr> = Inr res"
    "ingest sha dumps res d1 = (Inr s, d2)"
    "fill_result sha dumps uid kind (strip q) limit tk (fresh_result kind (se_id se) res) d2 = (Inr x, d3)"
    "finish_search uid (se_id se) (intel_results x) (it_found x \<or> text_of (co_error res) = []) d3 = (Inr (), d')"
  using assms unfolding intel_run_def Let_def by (auto simp: bnd_Inr_iff liftE_def ret_def)

lemma ingest_keeps: "sound id P (ingest sha dumps res) (\<lambda>_ _. True)"
  by (rule soundI) (metis id_apply ingest_run)

lemma intel_run_end:
  assumes "intel_run sha dumps run uid kind q limit tk d = (Inr x, d')"
  obtains sid res s d1 d2 d3 where "ingest sha dumps res d1 = (Inr s, d2)"
    "fill_result sha dumps uid kind (strip q) limit tk (fresh_result kind sid res) d2 = (Inr x, d3)"
    "finish_search uid sid (intel_results x) (it_found x \<or> text_of (co_error res) = []) d3 = (Inr (), d')"
    "graph_inv d \<longrightarrow> graph_inv d2 \<and> later d d2"
proof -
  from assms obtain sk se d1 res s d2 d3 where c: "search_kind_of kind = Inr sk"
    "search_create uid sk (strip q) None (Some (JObj [(''telegram_kind'', JStr kind)])) None d = (Inr se, d1)"
    "run \<lparr>rq_query = strip q, rq_kind = kind, rq_limit = int limit, rq_since = None\<rparr> = Inr res"
    "ingest sha dumps res d1 = (Inr s, d2)"
    "fill_result sha dumps uid kind (strip q) limit tk (fresh_result kind (se_id se) res) d2 = (Inr x, d3)"
    "finish_search uid (se_id se) (intel_results x) (it_found x \<or> text_of (co_error res) = []) d3 = (Inr (), d')"
    by (rule intel_run_course)
  have "graph_inv d2 \<and> later d d2" if inv: "graph_inv d"
  proof -
    from soundD [OF search_create_sound [where P = "\<lambda>_. True"] _ _ c(2)] inv have d1: "graph_inv d1" "later d d1" by simp_all
    with soundD [OF ingest_keeps [where P = "\<lambda>_. True"] _ _ c(4)] later_trans [OF d1(2)] show ?thesis by simp
  qed
  then have "graph_inv d \<longrightarrow> graph_inv d2 \<and> later d d2" ..
  with c(4-6) show thesis by (rule that)
qed

lemma fill_entity_id: "fill_entity kind q x d = Inr y \<Longrightarrow> it_search_id y = it_search_id x"
  by (auto simp: fill_entity_def add_it_note_def split: sum.splits option.splits elim!: map_sum_Inr)

lemma fill_messages_id: "fill_message_search q limit x d = Inr y \<Longrightarrow> it_search_id y = it_search_id x"
  by (auto simp: fill_message_search_def add_it_note_def split: if_splits elim!: map_sum_Inr)

lemma bnd_InrE: "bnd m f s = (Inr y, s') \<Longrightarrow> (\<And>x s1. m s = (Inr x, s1) \<Longrightarrow> f x s1 = (Inr y, s') \<Longrightarrow> P) \<Longrightarrow> P"
  by (auto simp: bnd_Inr_iff)

lemma link_lookup_run:
  assumes "link_lookup sha dumps uid k q x d = (Inr y, d')"
  obtains t c d1 where "target_get_or_create uid k q None d = (Inr (t, c), d1)"
    "y = x\<lparr>it_summary := AList.update ''target_id'' (id_json (tg_id t)) (it_summary x)\<rparr>"
    "\<forall>et i. it_entity_type x = Some et \<and> it_entity_id x = Some i \<longrightarrow> (\<exists>b. link sha dumps (tg_id t) (et, i) None 75 d1 = (Inr b, d'))"
  using assms unfolding link_lookup_def
proof (rule bnd_InrE, goal_cases)
  case (1 z d1)
  obtain t c where z: "z = (t, c)" by (cases z)
  from 1(3) [unfolded z prod.case] show ?case
  proof (rule bnd_InrE, goal_cases)
    case (1 w d2)
    have "y = x\<lparr>it_summary := AList.update ''target_id'' (id_json (tg_id t)) (it_summary x)\<rparr>" "d2 = d'"
      using 1(2) by (auto simp: ret_def)
    with 1(1) \<open>target_get_or_create uid k q None d = (Inr z, d1)\<close> z show ?case
      by (intro that) (auto simp: bnd_Inr_iff ret_def)
  qed
qed

lemma fill_result_cases:
  assumes "fill_result sha dumps uid kind q limit tk x d = (Inr y, d')"
  obtains (texts) "kind = kind_message_search" "fill_message_search q limit x d = Inr y" "d' = d"
    | (linked) z k where "kind \<noteq> kind_message_search" "fill_entity kind q x d = Inr z" "tk = Some k" "it_found z"
        "link_lookup sha dumps uid k q z d = (Inr y, d')"
    | (entity) "kind \<noteq> kind_message_search" "fill_entity kind q x d = Inr y" "d' = d" "tk = None \<or> \<not> it_found y"
proof (cases "kind = kind_message_search")
  case True
  with assms have "fill_message_search q limit x d = Inr y" "d' = d" by (auto simp: fill_result_def)
  then show thesis by (rule that(1) [OF True])
next
  case False
  obtain z where z: "fill_entity kind q x d = Inr z"
    using False assms by (cases "fill_entity kind q x d") (simp_all add: fill_result_def)
  show thesis
  proof (cases "tk = None \<or> \<not> it_found z")
    case True
    with False z assms have "y = z" "d' = d" by (auto simp: fill_result_def split: option.splits)
    with True z show thesis by (intro that(3) [OF False]) simp_all
  next
    case linked: False
    then obtain k where k: "tk = Some k" by auto
    with False linked z assms have "link_lookup sha dumps uid k q z d = (Inr y, d')" by (simp add: fill_result_def)
    with k linked show thesis by (intro that(2) [OF False z]) simp_all
  qed
qed

lemma fill_result_id:
  assumes "fill_result sha dumps uid kind q limit tk x d = (Inr y, d')" shows "it_search_id y = it_search_id x"
  using assms
proof (cases rule: fill_result_cases)
  case texts
  then show ?thesis by (simp add: fill_messages_id)
next
  case (linked z k)
  from linked(5) have "it_search_id y = it_search_id z" by (rule link_lookup_run) simp
  with linked(2) show ?thesis by (simp add: fill_entity_id)
next
  case entity
  then show ?thesis by (simp add: fill_entity_id)
qed

definition searches_ok :: "db \<Rightarrow> bool" where
  "searches_ok d \<longleftrightarrow> ids_ok se_id (searches d) (next_id d)"

text \<open>
  C1. Every lookup that returns leaves exactly one new search of the asking user, with the stripped
  query: completed if anything was found, else completed or failed, stamped, and counting as many
  results as it stored, which are the found entity followed by the found messages in their order. The
  searches that were there and their results are untouched.
\<close>

theorem lookup_recorded:
  assumes "searches_ok d" and "intel_run sha dumps run uid kind q limit tk d = (Inr x, d')"
  shows "(\<exists>s. search_get uid d' (it_search_id x) = Inr (Some s) \<and> se_query s = strip (strip q) \<and>
      se_status s = (if it_found x then T_COMPLETED else se_status s) \<and> task_is_terminal (se_status s) \<and>
      se_completed_at s = Some (now d') \<and> se_result_count s = length (intel_results x)) \<and>
    it_search_id x \<notin> se_id ` set (searches d) \<and>
    filter (\<lambda>s. se_id s \<noteq> it_search_id x) (searches d') = searches d \<and>
    (\<exists>rows. search_results d' = search_results d @ rows \<and>
      map (\<lambda>r. (sr_search_id r, sr_entity_type r, sr_entity_id r)) rows =
      map (\<lambda>r. (it_search_id x, ri_entity_type r, ri_entity_id r)) (intel_results x))"
proof -
  from assms(2) obtain sk se d1 res s d2 d3 where course: "search_create uid sk (strip q) None (Some (JObj [(''telegram_kind'', JStr kind)])) None d = (Inr se, d1)"
      "ingest sha dumps res d1 = (Inr s, d2)"
      "fill_result sha dumps uid kind (strip q) limit tk (fresh_result kind (se_id se) res) d2 = (Inr x, d3)"
      "finish_search uid (se_id se) (intel_results x) (it_found x \<or> text_of (co_error res) = []) d3 = (Inr (), d')"
    by (rule intel_run_course)
  have id: "it_search_id x = se_id se" using fill_result_id [OF course(3)] by (simp add: fresh_result_def)
  have se: "se_id se = next_id d" "se_user_id se = uid" "se_query se = strip (strip q)" "se_result_count se = 0"
      "d1 = d\<lparr>searches := searches d @ [se], next_id := Suc (next_id d)\<rparr>"
    using course(1) by (auto simp: search_create_def add_row_def Let_def)
  have view: "search_view d3 = search_view d1"
    using leavesD [OF shelf.ingest_leaves course(2)] leavesD [OF fill_result_shelf course(3)] by simp
  then have rows: "searches d3 = searches d @ [se]" "search_results d3 = search_results d" by (simp_all add: search_view_def se(5))
  have old: "distinct (map se_id (searches d))" "\<And>z. z \<in> set (searches d) \<Longrightarrow> se_id z < next_id d"
    using assms(1) by (auto simp: searches_ok_def ids_ok_def)
  have new: "\<forall>z \<in> set (searches d). se_id z \<noteq> se_id se" using old(2) se(1) by fastforce
  have get: "search_get uid d3 (se_id se) = Inr (Some se)"
    using new se(2) by (simp add: search_get_def scalar_filter rows)
  have dist: "distinct (map se_id (searches d3))" using old new by (auto simp: rows)
  note fin = finish_search_run [OF get dist, of "intel_results x" "it_found x \<or> text_of (co_error res) = []", unfolded course(4)]
  let ?f = "finished (intel_results x) (it_found x \<or> text_of (co_error res) = []) (now d3) se"
  let ?d = "d3\<lparr>search_results := search_results d3 @ result_rows (se_id se) 0 (intel_results x) (next_id d3),
    next_id := next_id d3 + length (intel_results x)\<rparr>"
  from fin have d': "d' = put_search ?f ?d" by simp
  have at: "search_get uid ?d (se_id se) = Inr (Some se)" "distinct (map se_id (searches ?d))"
    using get dist by (simp_all add: search_get_def)
  note put = search_get_put [OF at, of ?f, folded d']
  have "filter (\<lambda>s. se_id s \<noteq> it_search_id x) (searches d') = searches d"
    using put(3) new by (simp add: id rows)
  moreover have "search_results d' = search_results d @ result_rows (se_id se) 0 (intel_results x) (next_id d3)"
    by (simp add: d' rows)
  moreover have "map (\<lambda>r. (sr_search_id r, sr_entity_type r, sr_entity_id r)) (result_rows (se_id se) 0 rs i) =
      map (\<lambda>r. (it_search_id x, ri_entity_type r, ri_entity_id r)) rs" for rs i
    by (rule nth_equalityI) (simp_all add: result_rows_def result_row_def id)
  moreover have "search_get uid d' (it_search_id x) = Inr (Some ?f)" using put(1) by (simp add: id)
  moreover have "it_search_id x \<notin> se_id ` set (searches d)" using new by (auto simp: id)
  ultimately show ?thesis by (auto simp: finished_def se(3,4) d')
qed


section \<open>The messages a search finds\<close>

lemma ioc_ids_of_targets_cong: "iocs d = iocs d' \<Longrightarrow> ioc_ids_of_targets d ts = ioc_ids_of_targets d' ts"
  by (induction ts) (simp_all only: ioc_ids_of_targets.simps)

lemma item_of_cong:
  assumes "iocs d = iocs d'" "relationships d = relationships d'" "evidences d = evidences d'"
  shows "item_of d m = item_of d' m"
proof -
  have "iocs_hydrate d = iocs_hydrate d'" by (intro ext) (simp add: iocs_hydrate_def ioc_row_def [abs_def] assms)
  moreover have "ioc_ids_from_messages d = ioc_ids_from_messages d'"
    by (intro ext) (simp only: ioc_ids_from_messages_def assms ioc_ids_of_targets_cong [OF assms(1)])
  ultimately show ?thesis by (simp add: item_of_def iocs_for_message_def)
qed

lemma mapE_list_all2: "mapE f xs = Inr ys \<Longrightarrow> list_all2 (\<lambda>x y. f x = Inr y) xs ys"
  by (induction xs arbitrary: ys) (auto split: sum.splits)

definition graph_tables where
  "graph_tables d = (messages d, relationships d, iocs d, evidences d, telegram_accounts d, telegram_groups d, telegram_channels d, targets d, now d)"

lemma finish_search_graph: "leaves graph_tables (finish_search uid sid rs ok)"
proof -
  have rows: "graph_tables (add_result_rows sid n rs d) = graph_tables d" for n d
    by (simp add: add_result_rows_spec graph_tables_def)
  have put: "graph_tables (put_search s d) = graph_tables d" for s d by (simp add: put_search_def graph_tables_def)
  have "leaves graph_tables (search_add_results uid sid rs)" "leaves graph_tables (search_set_status uid sid st)" for st
    by (rule leavesI, simp add: search_add_results_def search_set_status_def put rows split: sum.split option.split)+
  then show ?thesis unfolding finish_search_def by (intro frame)
qed

text \<open>
  C2. A message search that returns lists, from what is stored once the collection is ingested, the
  newest messages whose text matches the term: at most the limit asked for, undated ones last, each
  with its own text and the indicators stored for it, and a matching message left out is never newer
  than one listed. It is found exactly if anything is listed.
\<close>

theorem message_search_exact:
  assumes "search_messages sha dumps run uid q limit d = (Inr x, d')"
  shows "list_all2 (\<lambda>m i. item_of d' m = Inr i) (search_text (strip q) limit d') (it_items x) \<and>
    length (it_items x) \<le> limit \<and> (it_found x \<longleftrightarrow> it_items x \<noteq> []) \<and>
    (\<forall>i \<in> set (it_items x). \<exists>m \<in> set (messages d'). ms_id m = si_entity_id i \<and> text_matches (strip q) m \<and>
       si_text i = take 500 (text_of (ms_text m))) \<and>
    {m \<in> set (messages d'). text_matches (strip q) m \<and> (\<exists>n \<in> set (search_text (strip q) limit d'). newer m n)}
      \<subseteq> set (search_text (strip q) limit d')"
proof -
  let ?q = "strip (strip q)"
  let ?hits = "search_text (strip q) limit d'"
  from assms [unfolded search_messages_def] obtain sid res s d1 d2 d3 where course: "ingest sha dumps res d1 = (Inr s, d2)"
      "fill_result sha dumps uid kind_message_search (strip q) limit None (fresh_result kind_message_search sid res) d2 = (Inr x, d3)"
      "finish_search uid sid (intel_results x) (it_found x \<or> text_of (co_error res) = []) d3 = (Inr (), d')"
    by (rule intel_run_end)
  from course(2) have fill: "fill_message_search (strip q) limit (fresh_result kind_message_search sid res) d2 = Inr x" "d3 = d2"
    by (auto simp: fill_result_def)
  have same: "graph_tables d' = graph_tables d2" using leavesD [OF finish_search_graph course(3)] fill(2) by simp
  from fill(1) obtain items where items: "mapE (item_of d2) (search_text (strip q) limit d2) = Inr items"
      "it_items x = items" "it_found x \<longleftrightarrow> items \<noteq> []"
    by (auto simp: fill_message_search_def add_it_note_def split: if_splits elim!: map_sum_Inr)
  have "item_of d2 = item_of d'" using item_of_cong [of d2 d'] same by (intro ext) (simp add: graph_tables_def)
  moreover have "search_text (strip q) limit d2 = ?hits" using same by (simp add: search_text_def graph_tables_def)
  ultimately have all: "list_all2 (\<lambda>m i. item_of d' m = Inr i) ?hits (it_items x)"
    using mapE_list_all2 [OF items(1)] items(2) by simp
  have hits: "m \<in> set (messages d') \<and> text_matches (strip q) m" if "m \<in> set ?hits" for m
    using that by (auto simp: search_text_def set_desc_time dest!: in_set_takeD)
  have "\<exists>m \<in> set (messages d'). ms_id m = si_entity_id i \<and> text_matches (strip q) m \<and> si_text i = take 500 (text_of (ms_text m))"
    if "i \<in> set (it_items x)" for i
  proof -
    from that all obtain m where m: "m \<in> set ?hits" "item_of d' m = Inr i" by (meson list_all2_right)
    from m(2) have "ms_id m = si_entity_id i" "si_text i = take 500 (text_of (ms_text m))"
      by (auto simp: item_of_def elim!: map_sum_Inr)
    with hits [OF m(1)] show ?thesis by blast
  qed
  moreover have "m \<in> set ?hits" if "m \<in> set (messages d')" "text_matches (strip q) m" "n \<in> set ?hits" "newer m n" for m n
    using take_newest [of n limit "filter (text_matches (strip q)) (messages d')" m] that by (simp add: search_text_def)
  moreover have "length (it_items x) \<le> limit" using list_all2_lengthD [OF all] by (simp add: search_text_def)
  ultimately show ?thesis using all items(2,3) by blast
qed

section \<open>The entity a lookup finds\<close>

lemma target_made:
  assumes "target_get_or_create uid k v l d = (Inr (t, c), d')"
  shows "t \<in> set (targets d') \<and> tg_user_id t = uid \<and> tg_kind t = k \<and> tg_deleted_at t = None"
  using assms by (auto simp: target_get_or_create_def add_row_def put_target_def update_where_def Let_def
      split: sum.splits option.splits if_splits dest!: scalar_one_or_none_Some)

definition found_tables where
  "found_tables d = (telegram_accounts d, telegram_groups d, telegram_channels d, messages d, iocs d)"

lemma target_found: "leaves found_tables (target_get_or_create uid k x l)"
proof (rule leavesI)
  fix d
  have "found_tables d' = found_tables d" if "add_row targets targets_update uq_target mk d = (r, d')" for mk r d'
    by (rule leavesD [OF leaves_insert(2) that]) (simp_all add: found_tables_def)
  then show "found_tables (snd (target_get_or_create uid k x l d)) = found_tables d"
    by (auto simp: target_get_or_create_def put_target_def found_tables_def split: sum.split prod.split option.split)
qed

lemma link_found: "leaves (\<lambda>d. (found_tables d, targets d)) (link sha dumps t e given c)"
proof -
  let ?v = "\<lambda>d. (found_tables d, targets d)"
  have ev: "leaves ?v (record_evidence sha dumps et i x)" for et i x
  proof (rule leavesI)
    fix d
    have "?v (snd (get_or_create evidences evidences_update uq_evidence p mk d)) = ?v d" for p mk
      using leaves_insert(1) [of ?v evidences_update evidences uq_evidence p mk] by (simp add: leaves_def found_tables_def)
    then show "?v (snd (record_evidence sha dumps et i x d)) = ?v d"
      by (simp add: record_evidence_def split: sum.split option.split)
  qed
  have ob: "leaves ?v (observe src tgt rt conf evid md)" for src tgt rt conf evid md
  proof (rule leavesI)
    fix d
    have "?v d' = ?v d" if "get_or_create relationships relationships_update uq_relationship p mk d = (r, d')" for p mk r d'
      using leavesD [OF leaves_insert(1) that, of ?v] by (simp add: found_tables_def)
    then show "?v (snd (observe src tgt rt conf evid md d)) = ?v d"
      by (auto simp: observe_def put_edge_def Let_def found_tables_def split: sum.split prod.split)
  qed
  show ?thesis unfolding link_def by (intro frame ev ob)
qed

text \<open>A link that returns is an edge of the target.\<close>

lemma link_edge:
  assumes "edges_ok d" and "link sha dumps t e None c d = (Inr b, d')" and "rel_type_for (fst e) = Some rt"
  shows "\<exists>r \<in> set (relationships d'). edge_between (E_TARGET, t) e rt r \<and> clamp 0 100 c \<le> rel_confidence r"
proof -
  from assms(2,3) obtain x d1 y z where o: "observe (E_TARGET, t) e rt c None [] d = (Inr x, d1)"
    and r: "record_evidence sha dumps E_TARGET t y d1 = (Inr z, d')"
    by (fastforce simp: link_def bnd_Inr_iff ret_def)
  from record_evidence_cases [OF r] have "relationships d' = relationships d1" by auto
  with observe_spec [OF assms(1), of "(E_TARGET, t)" e rt c None "[]"] o show ?thesis by fastforce
qed

lemma find_entity_cong: "found_tables d = found_tables d' \<Longrightarrow> find_entity kind q d = find_entity kind q d'"
  by (cases "normalize_username q") (simp_all add: find_entity_def found_tables_def)

lemma lookup_row_Some:
  "lookup_row tid un rows q n = Inr (Some r) \<Longrightarrow>
   r \<in> set rows \<and> ((\<exists>i. int_of_str q = Inr i \<and> tid r = Some i) \<or> un r = Some n)"
  by (auto simp: lookup_row_def split: sum.splits option.splits if_splits dest!: scalar_one_or_none_Some)

lemma find_entity_user:
  assumes "find_entity kind_user q d = Inr (Some (e, attrs))"
  shows "\<exists>r \<in> set (telegram_accounts d). e = (E_TELEGRAM_ACCOUNT, ta_id r) \<and> attrs = account_attrs r \<and>
    ((\<exists>i. int_of_str q = Inr i \<and> ta_telegram_id r = Some i) \<or> (\<exists>n. normalize_username q = Inr n \<and> ta_username_norm r = Some n))"
  using assms by (auto simp: find_entity_def map_option_case elim!: map_sum_Inr split: sum.splits option.splits dest!: lookup_row_Some) blast+

lemma fill_entity_cases:
  assumes "fill_entity kind q x d = Inr y"
  obtains (none) "find_entity kind q d = Inr None" "y = add_it_note ''no public data found for this identifier'' x"
    | (some) e attrs s where "find_entity kind q d = Inr (Some (e, attrs))" "entity_summary e attrs d = Inr s"
        "y = x\<lparr>it_found := True, it_entity_type := Some (fst e), it_entity_id := Some (snd e), it_summary := s\<rparr>"
  using assms unfolding fill_entity_def by (auto split: sum.splits option.splits elim!: map_sum_Inr)

lemma find_entity_exists: "find_entity kind q d = Inr (Some (e, attrs)) \<Longrightarrow> exists_row d e"
  by (auto simp: find_entity_def exists_row.simps map_option_case elim!: map_sum_Inr split: sum.splits option.splits if_splits dest!: lookup_row_Some)

lemma link_lookup_sound:
  assumes "it_entity_type x = Some (fst e)" "it_entity_id x = Some (snd e)"
  shows "sound id (\<lambda>d. exists_row d e) (link_lookup sha dumps uid k q x) (\<lambda>_ _. True)"
proof -
  have "sound id (\<lambda>d. exists_row d e \<and> exists_row d (E_TARGET, t))
      (bnd (bnd (link sha dumps t e None 75) (\<lambda>_. ret ())) (\<lambda>_. ret y)) (\<lambda>_ _. True)" for t y
    by (rule sound_bnd [OF _ sound_bnd [OF _ sound_weaken [OF link_sound [where P = "\<lambda>_. True"]]]]) (auto intro: sound_ret)
  then show ?thesis unfolding link_lookup_def assms
    by (intro sound_bnd [OF _ target_sound]) (auto split: prod.split)
qed

lemma fill_result_sound:
  assumes "\<not> it_found x"
  shows "sound id (\<lambda>_. True) (fill_result sha dumps uid kind q limit tk x) (\<lambda>_ _. True)"
proof (rule soundI)
  fix d r d' assume inv: "graph_inv (id d)" and run: "fill_result sha dumps uid kind q limit tk x d = (r, d')"
  show "graph_inv (id d') \<and> later (id d) (id d') \<and> (\<forall>y. r = Inr y \<longrightarrow> True)"
  proof (cases "d' = d")
    case False
    with run obtain z k where z: "fill_entity kind q x d = Inr z" "it_found z" "link_lookup sha dumps uid k q z d = (r, d')"
      by (auto simp: fill_result_def split: if_splits sum.splits option.splits)
    show ?thesis
      using z(1)
    proof (cases rule: fill_entity_cases)
      case none
      with assms z(2) show ?thesis by (simp add: add_it_note_def)
    next
      case (some e attrs s)
      with soundD [OF link_lookup_sound [of z e] _ _ z(3)] find_entity_exists [OF some(1)] inv show ?thesis by auto
    qed
  qed (use inv in simp)
qed

lemma account_summary:
  assumes "entity_summary (E_TELEGRAM_ACCOUNT, i) (account_attrs r) d = Inr s" and "(k, v) \<in> set (present (account_attrs r))"
  shows "map_of (AList.update ''target_id'' w s) k = Some v"
proof -
  from assms(1) have s: "s = (''id'', id_json i) # present (account_attrs r) @ [evidence_total (E_TELEGRAM_ACCOUNT, i) d]"
    by (simp add: entity_summary_def Let_def)
  have keys: "fst ` set (account_attrs r) = {''telegram_id'', ''username'', ''display_name'', ''bio'', ''is_verified'', ''is_scam''}"
    by (simp add: account_attrs_def)
  have "distinct (map fst (present (account_attrs r)))"
    unfolding present_def by (rule distinct_map_filter) (simp add: account_attrs_def)
  moreover have k: "k \<in> fst ` set (account_attrs r)" using assms(2) by (force simp: present_def)
  moreover have "''evidence_count'' \<notin> fst ` set (present (account_attrs r))" "''id'' \<notin> fst ` set (present (account_attrs r))"
  proof -
    have "fst ` set (present (account_attrs r)) \<subseteq> fst ` set (account_attrs r)" by (auto simp: present_def)
    moreover have "''evidence_count'' \<notin> fst ` set (account_attrs r)" "''id'' \<notin> fst ` set (account_attrs r)"
      unfolding keys by simp_all
    ultimately show "''evidence_count'' \<notin> fst ` set (present (account_attrs r))" "''id'' \<notin> fst ` set (present (account_attrs r))"
      by blast+
  qed
  ultimately have "distinct (map fst s)" by (simp add: s evidence_total_def)
  moreover have "(k, v) \<in> set s" using assms(2) by (simp add: s)
  ultimately have "map_of s k = Some v" by simp
  moreover have "k \<noteq> ''target_id''" using k keys by auto
  ultimately show ?thesis by (simp add: update_conv')
qed

text \<open>The account \<open>r\<close> a lookup reports and the target \<open>t\<close> it is linked to.\<close>

definition shows_account :: "string \<Rightarrow> intel_result \<Rightarrow> telegram_account \<Rightarrow> bool" where
  "shows_account q x r \<longleftrightarrow> it_entity_type x = Some E_TELEGRAM_ACCOUNT \<and> it_entity_id x = Some (ta_id r) \<and>
     ((\<exists>i. int_of_str q = Inr i \<and> ta_telegram_id r = Some i) \<or> (\<exists>n. normalize_username q = Inr n \<and> ta_username_norm r = Some n)) \<and>
     (\<forall>(k, v) \<in> set (present (account_attrs r)). map_of (it_summary x) k = Some v)"

definition links_target :: "uid \<Rightarrow> intel_result \<Rightarrow> db \<Rightarrow> telegram_account \<Rightarrow> target \<Rightarrow> bool" where
  "links_target uid x d r t \<longleftrightarrow> tg_user_id t = uid \<and> tg_kind t = K_TELEGRAM_USER \<and> tg_deleted_at t = None \<and>
     map_of (it_summary x) ''target_id'' = Some (id_json (tg_id t)) \<and>
     (\<exists>g \<in> set (relationships d). edge_between (E_TARGET, tg_id t) (E_TELEGRAM_ACCOUNT, ta_id r) TARGET_IS_ACCOUNT g \<and>
        75 \<le> rel_confidence g)"

text \<open>
  C3. A user lookup that returns keeps the graph's integrity and only adds to it. It reports the account
  that the query names by id or by user name in what is stored once the collection is ingested, and
  reports nothing found only if there is none. A found account is linked, with a confidence of at
  least 75, to a live target of the asking user, and the summary shows its profile and that target.
\<close>

theorem user_lookup_linked:
  assumes "graph_inv d" and "search_user sha dumps run uid q d = (Inr x, d')"
  shows "(it_found x \<longleftrightarrow> find_entity kind_user (strip q) d' \<noteq> Inr None) \<and> (it_found x \<longleftrightarrow> it_entity_id x \<noteq> None) \<and>
    (it_found x \<longrightarrow> (\<exists>r \<in> set (telegram_accounts d'). \<exists>t \<in> set (targets d').
       shows_account (strip q) x r \<and> links_target uid x d' r t)) \<and>
    graph_inv d' \<and> later d d'"
proof -
  from assms(2) [unfolded search_user_def] obtain sid res s d1 d2 d3 where course: "ingest sha dumps res d1 = (Inr s, d2)"
      "fill_result sha dumps uid kind_user (strip q) 50 (Some K_TELEGRAM_USER) (fresh_result kind_user sid res) d2 = (Inr x, d3)"
      "finish_search uid sid (intel_results x) (it_found x \<or> text_of (co_error res) = []) d3 = (Inr (), d')"
      "graph_inv d \<longrightarrow> graph_inv d2 \<and> later d d2"
    by (rule intel_run_end)
  note inv = course(4) [rule_format, OF assms(1)]
  have kind: "kind_user \<noteq> kind_message_search" by (simp add: kind_user_def kind_message_search_def)
  have new: "\<not> it_found (fresh_result kind_user sid res)" "it_entity_id (fresh_result kind_user sid res) = None" by (simp_all add: fresh_result_def)
  have "graph_inv d3 \<and> later d2 d3" using soundD [OF fill_result_sound [OF new(1)] _ _ course(2)] inv by simp
  then have kept: "graph_inv d' \<and> later d d'"
    using soundD [OF finish_search_sound [where P = "\<lambda>_. True"] _ _ course(3)] inv later_trans by simp blast
  have same: "graph_tables d' = graph_tables d3" by (rule leavesD [OF finish_search_graph course(3)])
  have "found_tables d' = found_tables d3" using same by (simp add: graph_tables_def found_tables_def)
  then have find: "find_entity kind_user (strip q) d' = find_entity kind_user (strip q) d3" by (rule find_entity_cong)
  show ?thesis
    using course(2)
  proof (cases rule: fill_result_cases)
    case texts
    with kind show ?thesis by simp
  next
    case entity
    from entity(2) show ?thesis
    proof (cases rule: fill_entity_cases)
      case none
      with new have "\<not> it_found x" "it_entity_id x = None" by (simp_all add: add_it_note_def)
      with none(1) find entity(3) kept show ?thesis by simp
    next
      case (some e attrs sm)
      with entity(4) show ?thesis by simp
    qed
  next
    case (linked z k)
    then have k: "k = K_TELEGRAM_USER" by simp
    from linked(2) show ?thesis
    proof (cases rule: fill_entity_cases)
      case none
      with linked(4) new show ?thesis by (simp add: add_it_note_def)
    next
      case (some e attrs sm)
      obtain t c d4 where t: "target_get_or_create uid k (strip q) None d2 = (Inr (t, c), d4)"
        and x: "x = z\<lparr>it_summary := AList.update ''target_id'' (id_json (tg_id t)) (it_summary z)\<rparr>"
        and l: "\<forall>et i. it_entity_type z = Some et \<and> it_entity_id z = Some i \<longrightarrow> (\<exists>b. link sha dumps (tg_id t) (et, i) None 75 d4 = (Inr b, d3))"
        by (rule link_lookup_run [OF linked(5)])
      from l obtain b where b: "link sha dumps (tg_id t) e None 75 d4 = (Inr b, d3)" by (auto simp: some(3))
      from find_entity_user [OF some(1)] obtain r where r: "r \<in> set (telegram_accounts d2)" "e = (E_TELEGRAM_ACCOUNT, ta_id r)"
          "attrs = account_attrs r" "(\<exists>i. int_of_str (strip q) = Inr i \<and> ta_telegram_id r = Some i) \<or>
            (\<exists>n. normalize_username (strip q) = Inr n \<and> ta_username_norm r = Some n)" by blast
      have tables: "found_tables d3 = found_tables d2" "targets d3 = targets d4"
        using leavesD [OF link_found b] leavesD [OF target_found t] by simp_all
      then have r': "r \<in> set (telegram_accounts d')" using r(1) same by (simp add: found_tables_def graph_tables_def)
      have t': "t \<in> set (targets d') \<and> tg_user_id t = uid \<and> tg_kind t = K_TELEGRAM_USER \<and> tg_deleted_at t = None"
        using target_made [OF t] tables(2) same k by (simp add: graph_tables_def)
      have "edges_ok d4"
        using soundD [OF target_sound [where P = "\<lambda>_. True"] _ _ t] inv by (simp add: graph_inv_def store_ok_def edges_ok_def)
      then have g: "\<exists>g \<in> set (relationships d'). edge_between (E_TARGET, tg_id t) (E_TELEGRAM_ACCOUNT, ta_id r) TARGET_IS_ACCOUNT g \<and>
          75 \<le> rel_confidence g"
        using link_edge [OF _ b] same r(2) by (simp add: rel_type_for_def graph_tables_def clamp_def)
      have ti: "map_of (it_summary x) ''target_id'' = Some (id_json (tg_id t))" by (simp add: x update_conv')
      have at: "\<forall>(k, v) \<in> set (present (account_attrs r)). map_of (it_summary x) k = Some v"
        using account_summary some(2,3) r(2,3) by (auto simp: x)
      have x': "it_found x" "it_entity_type x = Some E_TELEGRAM_ACCOUNT" "it_entity_id x = Some (ta_id r)"
        by (simp_all add: x some(3) r(2))
      have found: "find_entity kind_user (strip q) d' \<noteq> Inr None"
        using some(1) find find_entity_cong [OF tables(1)] by simp
      have sa: "shows_account (strip q) x r" unfolding shows_account_def using x'(2,3) r(4) at by blast
      have "links_target uid x d' r t" unfolding links_target_def using t' ti g by blast
      with sa r' t' have "\<exists>r \<in> set (telegram_accounts d'). \<exists>t \<in> set (targets d'). shows_account (strip q) x r \<and> links_target uid x d' r t" by blast
      with found x'(1,3) kept show ?thesis by simp
    qed
  qed
qed

section \<open>Two lookups\<close>

text \<open>A search of the messages of the sample batch, and a lookup of an account the collector just found.\<close>

definition alice_batch :: collect_result where
  "alice_batch = sample_batch\<lparr>co_records := [\<lparr>nr_ref = ''a'', nr_entity_type = E_TELEGRAM_ACCOUNT,
     nr_natural_key = [(''telegram_id'', JInt 7)], nr_attributes = [(''username'', JStr ''Alice''), (''bio'', JStr ''x'')], nr_evidence = []\<rparr>]\<rparr>"

definition sample_search :: "(exn + intel_result) \<times> db" where
  "sample_search = search_messages id (\<lambda>_. []) (\<lambda>_. Inr sample_batch) 9 ''ALICE '' 10 empty_db"

definition sample_lookup :: "(exn + intel_result) \<times> db" where
  "sample_lookup = search_user id (\<lambda>_. []) (\<lambda>_. Inr alice_batch) 9 ''@Alice'' empty_db"

lemma sample_search_found:
  "(case fst sample_search of Inl _ \<Rightarrow> False | Inr x \<Rightarrow> it_found x \<and> length (intel_results x) = 1 \<and>
     map (\<lambda>i. (si_text i, si_iocs i)) (it_items x) = [(''@alice'', [(TELEGRAM_USERNAME, ''alice'')])])"
  by code_simp

lemma sample_lookup_found: "(case fst sample_lookup of Inl _ \<Rightarrow> False | Inr x \<Rightarrow> it_found x)"
  by code_simp

lemma sample_search_result:
  obtains x d' where "search_messages id (\<lambda>_. []) (\<lambda>_. Inr sample_batch) 9 ''ALICE '' 10 empty_db = (Inr x, d')"
    "map (\<lambda>i. (si_text i, si_iocs i)) (it_items x) = [(''@alice'', [(TELEGRAM_USERNAME, ''alice'')])]"
    "it_found x" "length (intel_results x) = 1"
proof -
  from sample_search_found obtain x where "fst sample_search = Inr x" "it_found x" "length (intel_results x) = 1"
    "map (\<lambda>i. (si_text i, si_iocs i)) (it_items x) = [(''@alice'', [(TELEGRAM_USERNAME, ''alice'')])]"
    by (auto split: sum.splits)
  then show thesis by (intro that [of x "snd sample_search"]) (simp_all add: sample_search_def [symmetric] prod_eq_iff)
qed

theorem message_search_exact_witness:
  "\<exists>x d'. sample_search = (Inr x, d') \<and> it_found x \<and>
     (\<exists>m \<in> set (messages d'). text_matches (strip ''ALICE '') m \<and> take 500 (text_of (ms_text m)) = ''@alice'')"
proof -
  obtain x d' where x: "search_messages id (\<lambda>_. []) (\<lambda>_. Inr sample_batch) 9 ''ALICE '' 10 empty_db = (Inr x, d')"
    "map (\<lambda>i. (si_text i, si_iocs i)) (it_items x) = [(''@alice'', [(TELEGRAM_USERNAME, ''alice'')])]" "it_found x" "length (intel_results x) = 1"
    by (rule sample_search_result)
  have "map si_text (it_items x) = map fst (map (\<lambda>i. (si_text i, si_iocs i)) (it_items x))" by simp
  then have "map si_text (it_items x) = [''@alice'']" unfolding x(2) by simp
  then obtain i where i: "i \<in> set (it_items x)" "si_text i = ''@alice''" by (cases "it_items x") auto
  from message_search_exact [OF x(1)] have "\<forall>i \<in> set (it_items x). \<exists>m \<in> set (messages d'). ms_id m = si_entity_id i \<and>
      text_matches (strip ''ALICE '') m \<and> si_text i = take 500 (text_of (ms_text m))" by (elim conjE)
  with i obtain m where "m \<in> set (messages d')" "text_matches (strip ''ALICE '') m" "take 500 (text_of (ms_text m)) = ''@alice''"
    by metis
  with x(1,3) show ?thesis unfolding sample_search_def by blast
qed

theorem lookup_recorded_witness:
  "\<exists>x d' s. sample_search = (Inr x, d') \<and> search_get 9 d' (it_search_id x) = Inr (Some s) \<and>
     se_status s = T_COMPLETED \<and> se_result_count s = 1 \<and> length (search_results d') = 1"
proof -
  obtain x d' where x: "search_messages id (\<lambda>_. []) (\<lambda>_. Inr sample_batch) 9 ''ALICE '' 10 empty_db = (Inr x, d')"
    "map (\<lambda>i. (si_text i, si_iocs i)) (it_items x) = [(''@alice'', [(TELEGRAM_USERNAME, ''alice'')])]" "it_found x" "length (intel_results x) = 1"
    by (rule sample_search_result)
  have ok: "searches_ok empty_db" by (simp add: searches_ok_def ids_ok_def empty_db_def)
  note rec = lookup_recorded [OF ok x(1) [unfolded search_messages_def]]
  from rec x(3,4) obtain s where s: "search_get 9 d' (it_search_id x) = Inr (Some s)" "se_status s = T_COMPLETED" "se_result_count s = 1"
    by auto
  from rec obtain rows where "search_results d' = rows" "map (\<lambda>r. (sr_search_id r, sr_entity_type r, sr_entity_id r)) rows =
      map (\<lambda>r. (it_search_id x, ri_entity_type r, ri_entity_id r)) (intel_results x)" by (auto simp: empty_db_def)
  then have "length (search_results d') = 1" using x(4) by (metis length_map)
  with s x(1) show ?thesis unfolding sample_search_def by blast
qed

theorem user_lookup_linked_witness:
  "\<exists>x d'. sample_lookup = (Inr x, d') \<and> (\<exists>r \<in> set (telegram_accounts d'). \<exists>t \<in> set (targets d').
     shows_account (strip ''@Alice'') x r \<and> links_target 9 x d' r t)"
proof -
  from sample_lookup_found obtain x where x: "fst sample_lookup = Inr x" "it_found x" by (auto split: sum.splits)
  then have run: "search_user id (\<lambda>_. []) (\<lambda>_. Inr alice_batch) 9 ''@Alice'' empty_db = (Inr x, snd sample_lookup)"
    by (simp add: sample_lookup_def [symmetric] prod_eq_iff)
  with user_lookup_linked [OF graph_inv_empty run] x(2) show ?thesis unfolding sample_lookup_def by blast
qed

end
