(* ===== verification/Spec2Isabelle.thy ===== *)
theory Spec2Isabelle
  imports JobRepo JobQueue QueueSpec Regex Runner RateLimit Auth Users BotGuard Fetcher Normalize Workspace Resolution Graph Timeline
    Confidence Collector IocExtract Rerun Enrich Links EnrichLinks Ingest Monitor Target Telegram Adapters UsernameOsint
    PyTime ReportModel InvestigationRepo InvReport Frame Investigation ReportBuilder IntelSearch
begin

text \<open>
  telegram-osint: a verification library.
\<close>

end
